(* ===== verification/Oran_Prelude.thy ===== *)
theory Oran_Prelude
  imports Complex_Main "HOL-Library.Word" "HOL-Library.List_Lexorder" "HOL-Library.Char_ord"
    "HOL-Library.Product_Lexorder"
begin

text \<open>
  The prelude of the development: the C++ scalar types, the values an aborted call returns, and
  \<open>std::map\<close>. A \<open>std::map\<close> is a list of key/value pairs with strictly increasing keys
  (\<open>smap_ok\<close>), so that a range-for loop over the map is a recursion over the list, in the
  order the C++ loop has. \<open>double\<close> is \<open>real\<close> (rounding and NaN are not modelled) and
  \<open>ns3::Time\<close> is its number of time steps.
\<close>

named_theorems smap_simps \<open>rewrite rules for the ordered maps\<close>
named_theorems oran_defs \<open>definitions of the small accessors and of the error monad\<close>

type_synonym uint8 = "8 word"
type_synonym uint16 = "16 word"
type_synonym uint32 = "32 word"
type_synonym uint64 = "64 word"
type_synonym time = int
type_synonym double = real

text \<open>The whole milliseconds of a time, rounded towards zero.\<close>

definition GetMilliSeconds :: "time \<Rightarrow> int" where
  "GetMilliSeconds t = (if t \<ge> 0 then t div 1000000 else - (- t div 1000000))"

section \<open>Aborts as values\<close>

text \<open>
  \<open>NS_ABORT_MSG\<close>, \<open>NS_ABORT_MSG_IF\<close> and \<open>NS_ASSERT\<close> end the simulation. A call
  that may do so returns \<open>Inl\<close> of the reason.
\<close>

datatype oran_error =
    NullE2Terminator | NullDefaultLm | NullCmm | NullData | NullNearRtRic | NullTerminator
  | NullNetDevice | NullNode | LmAlreadyRunning | RicAlreadyStarted | UnexpectedCycle
  | NegativeDelay | DuplicateKey | EmptyScheduler | TimeReversal | UriDbName | QueryFailed
  | NullPointer | NullReporter | NullTrigger | EventNotFound | ImplMismatch
  | IndexOutOfRange | NonTermination | NoGnbForCell | NullPhy | ZeroBandwidth | DivisionByZero | NonFinite
  | NoMobility | FileNotFound | ModelNotLoaded | UnexpectedOutput
  | ValueOutOfRange | IteratorPastEnd | Unsupported | MissingEntry
  | InvalidStream | EmptyRange | NoValues | InvalidCdf | NonPositiveScale
  | LostEvents | InexactDouble | CastOverflow | InvalidSeed | InvalidMeasReport | MissingResult

type_synonym 'a res = "oran_error + 'a"

definition res_bind :: "'a res \<Rightarrow> ('a \<Rightarrow> 'b res) \<Rightarrow> 'b res" where
  "res_bind r f = (case r of Inl e \<Rightarrow> Inl e | Inr x \<Rightarrow> f x)"

definition abort_if :: "bool \<Rightarrow> oran_error \<Rightarrow> 'a res \<Rightarrow> 'a res" where
  "abort_if b e k = (if b then Inl e else k)"

text \<open>A loop whose body may abort.\<close>

fun res_fold :: "('a \<Rightarrow> 's \<Rightarrow> 's res) \<Rightarrow> 'a list \<Rightarrow> 's \<Rightarrow> 's res" where
  "res_fold f [] s = Inr s"
| "res_fold f (x # xs) s = res_bind (f x s) (res_fold f xs)"

section \<open>Ordered maps\<close>

fun smap_upd :: "'k::linorder \<Rightarrow> 'v \<Rightarrow> ('k \<times> 'v) list \<Rightarrow> ('k \<times> 'v) list" where
  "smap_upd k v [] = [(k, v)]"
| "smap_upd k v (e # m) =
     (if k < fst e then (k, v) # e # m
      else if fst e < k then e # smap_upd k v m
      else (k, v) # m)"

definition smap_del :: "'k \<Rightarrow> ('k \<times> 'v) list \<Rightarrow> ('k \<times> 'v) list" where
  "smap_del k m = filter (\<lambda>e. fst e \<noteq> k) m"

definition smap_ok :: "('k::linorder \<times> 'v) list \<Rightarrow> bool" where
  "smap_ok m \<longleftrightarrow> sorted_wrt (<) (map fst m)"

definition smap_keys :: "('k \<times> 'v) list \<Rightarrow> 'k list" where
  "smap_keys m = map fst m"

text \<open>\<open>m[k]\<close> in an rvalue position of a \<open>std::map\<close> with a default-constructed value.\<close>

definition smap_get :: "'v \<Rightarrow> ('k \<times> 'v) list \<Rightarrow> 'k \<Rightarrow> 'v" where
  "smap_get d m k = (case map_of m k of None \<Rightarrow> d | Some v \<Rightarrow> v)"

section \<open>The error monad\<close>

lemma res_bind_Inl [simp]: "res_bind (Inl e) f = Inl e"
  by (simp add: res_bind_def)

lemma res_bind_Inr [simp]: "res_bind (Inr x) f = f x"
  by (simp add: res_bind_def)

lemma res_bind_eq_Inr: "res_bind r f = Inr y \<longleftrightarrow> (\<exists>x. r = Inr x \<and> f x = Inr y)"
  by (cases r) auto

lemma res_bind_eq_InrE [elim!]:
  assumes "res_bind r f = Inr y"
  obtains x where "r = Inr x" and "f x = Inr y"
  using assms by (auto simp: res_bind_eq_Inr)

lemma abort_if_simps [simp]:
  "abort_if True e k = Inl e"
  "abort_if False e k = k"
  by (simp_all add: abort_if_def)

lemma abort_if_eq_Inr [simp]: "abort_if b e k = Inr y \<longleftrightarrow> \<not> b \<and> k = Inr y"
  by (simp add: abort_if_def)

text \<open>The loop rule: an invariant that the body keeps holds after the loop.\<close>

lemma res_fold_append: "res_fold f (xs @ ys) s = res_bind (res_fold f xs s) (res_fold f ys)"
  by (induction xs arbitrary: s) (auto simp: res_bind_def split: sum.split)

lemma res_fold_invariant:
  assumes "res_fold f xs s = Inr s'" and "P s"
    and "\<And>x s s'. x \<in> set xs \<Longrightarrow> P s \<Longrightarrow> f x s = Inr s' \<Longrightarrow> P s'"
  shows "P s'"
  using assms
proof (induction xs arbitrary: s)
  case Nil
  then show ?case by simp
next
  case (Cons x xs)
  from Cons.prems(1) obtain t where t: "f x s = Inr t" "res_fold f xs t = Inr s'"
    by auto
  have "P t" using Cons.prems(2,3) t(1) by force
  then show ?case by (rule Cons.IH [OF t(2)]) (rule Cons.prems(3), simp_all)
qed

text \<open>A loop whose body keeps an invariant and, under it, does not abort returns.\<close>

lemma res_fold_returns:
  assumes "P s" and "\<And>x s. x \<in> set xs \<Longrightarrow> P s \<Longrightarrow> \<exists>s'. f x s = Inr s' \<and> P s'"
  shows "\<exists>s'. res_fold f xs s = Inr s' \<and> P s'"
  using assms
proof (induction xs arbitrary: s)
  case (Cons x xs)
  then obtain t where t: "f x s = Inr t" "P t" by (metis list.set_intros(1))
  from Cons.IH [OF t(2) Cons.prems(2)] obtain s' where "res_fold f xs t = Inr s'" "P s'" by auto
  with t(1) show ?case by simp
qed simp

text \<open>An abort of a loop is the abort of one of its rounds.\<close>

lemma res_fold_abort:
  assumes "res_fold f xs s = Inl e" and "P s"
    and "\<And>x s s'. x \<in> set xs \<Longrightarrow> P s \<Longrightarrow> f x s = Inr s' \<Longrightarrow> P s'"
  shows "\<exists>x\<in>set xs. \<exists>s. P s \<and> f x s = Inl e"
  using assms
proof (induction xs arbitrary: s)
  case (Cons x xs)
  show ?case
  proof (cases "f x s")
    case (Inl e')
    with Cons.prems show ?thesis by auto
  next
    case (Inr t)
    with Cons.prems have "P t" "res_fold f xs t = Inl e" by auto
    with Cons.IH [of t] Cons.prems(3) show ?thesis by auto
  qed
qed simp

section \<open>Laws of the ordered maps\<close>

lemma map_of_smap_upd [simp, smap_simps]: "map_of (smap_upd k v m) = (map_of m)(k \<mapsto> v)"
  by (induction m) (auto simp: fun_eq_iff)

lemma map_of_smap_del [simp, smap_simps]: "map_of (smap_del k m) = (map_of m)(k := None)"
  by (induction m) (auto simp: smap_del_def fun_eq_iff)

lemma set_keys_smap_upd: "fst ` set (smap_upd k v m) = insert k (fst ` set m)"
  by (induction m) auto

lemma smap_ok_Nil [simp]: "smap_ok []"
  by (simp add: smap_ok_def)

lemma smap_ok_Cons: "smap_ok (e # m) \<longleftrightarrow> (\<forall>x\<in>set m. fst e < fst x) \<and> smap_ok m"
  by (auto simp: smap_ok_def)

lemma smap_ok_upd [simp, intro]: "smap_ok m \<Longrightarrow> smap_ok (smap_upd k v m)"
proof (induction m)
  case Nil
  then show ?case by (simp add: smap_ok_def)
next
  case (Cons e m)
  have "fst ` set (smap_upd k v m) = insert k (fst ` set m)"
    by (rule set_keys_smap_upd)
  then have "\<forall>x\<in>set (smap_upd k v m). fst x = k \<or> fst x \<in> fst ` set m"
    by auto
  with Cons show ?case by (fastforce simp: smap_ok_Cons)
qed

lemma smap_ok_filter [simp, intro]: "smap_ok m \<Longrightarrow> smap_ok (filter p m)"
  by (induction m) (auto simp: smap_ok_Cons)

lemma smap_ok_del [simp, intro]: "smap_ok m \<Longrightarrow> smap_ok (smap_del k m)"
  by (simp add: smap_del_def)

lemma smap_ok_distinct: "smap_ok m \<Longrightarrow> distinct (map fst m)"
  by (simp add: smap_ok_def strict_sorted_iff)

lemma smap_ok_map_of: "smap_ok m \<Longrightarrow> map_of m k = Some v \<longleftrightarrow> (k, v) \<in> set m"
  by (simp add: smap_ok_distinct)

lemma set_smap_del [simp]: "set (smap_del k m) = {e \<in> set m. fst e \<noteq> k}"
  by (simp add: smap_del_def)

lemma set_smap_upd:
  assumes "smap_ok m"
  shows "set (smap_upd k v m) = insert (k, v) {e \<in> set m. fst e \<noteq> k}"
  using assms
proof (induction m)
  case Nil
  then show ?case by simp
next
  case (Cons e m)
  consider "k < fst e" | "fst e < k" | "fst e = k" by force
  then show ?case
  proof cases
    case 1
    with Cons.prems have "\<forall>x\<in>set m. fst x \<noteq> k" by (auto simp: smap_ok_Cons)
    with 1 show ?thesis by auto
  next
    case 2
    with Cons show ?thesis by (auto simp: smap_ok_Cons)
  next
    case 3
    with Cons.prems have "\<forall>x\<in>set m. fst x \<noteq> k" by (auto simp: smap_ok_Cons)
    with 3 show ?thesis by auto
  qed
qed

lemma smap_del_absent: "map_of m k = None \<Longrightarrow> smap_del k m = m"
  by (auto simp: smap_del_def map_of_eq_None_iff filter_id_conv)

lemma length_smap_del:
  "smap_ok m \<Longrightarrow> map_of m k = Some v \<Longrightarrow> Suc (length (smap_del k m)) = length m"
proof (induction m)
  case Nil
  then show ?case by simp
next
  case (Cons e m)
  show ?case
  proof (cases "fst e = k")
    case True
    with Cons.prems(1) have "map_of m k = None"
      by (auto simp: smap_ok_Cons map_of_eq_None_iff)
    then have "smap_del k m = m" by (rule smap_del_absent)
    with True show ?thesis by (simp add: smap_del_def)
  next
    case False
    with Cons show ?thesis by (cases e) (simp add: smap_del_def smap_ok_Cons)
  qed
qed

lemma smap_get_upd [simp, smap_simps]:
  "smap_get d (smap_upd k v m) k' = (if k' = k then v else smap_get d m k')"
  by (simp add: smap_get_def)

text \<open>
  The contract of the container, as its clients use it: what a lookup returns after an insertion
  and an erasure, and that both keep the order of the keys.
\<close>

locale ordered_map =
  fixes find :: "'m \<Rightarrow> 'k::linorder \<Rightarrow> 'v option"
    and ins :: "'k \<Rightarrow> 'v \<Rightarrow> 'm \<Rightarrow> 'm"
    and del :: "'k \<Rightarrow> 'm \<Rightarrow> 'm"
    and keys :: "'m \<Rightarrow> 'k list"
    and ok :: "'m \<Rightarrow> bool"
  assumes find_ins: "ok m \<Longrightarrow> find (ins k v m) k' = (if k' = k then Some v else find m k')"
    and find_del: "ok m \<Longrightarrow> find (del k m) k' = (if k' = k then None else find m k')"
    and keys_find: "ok m \<Longrightarrow> k \<in> set (keys m) \<longleftrightarrow> find m k \<noteq> None"
    and keys_sorted: "ok m \<Longrightarrow> sorted_wrt (<) (keys m)"
    and ok_ins: "ok m \<Longrightarrow> ok (ins k v m)"
    and ok_del: "ok m \<Longrightarrow> ok (del k m)"
begin

lemma keys_ins: "ok m \<Longrightarrow> set (keys (ins k v m)) = insert k (set (keys m))"
  by (auto simp: keys_find ok_ins find_ins split: if_splits)

lemma keys_del: "ok m \<Longrightarrow> set (keys (del k m)) = set (keys m) - {k}"
  by (auto simp: keys_find ok_del find_del split: if_splits)

lemma length_keys_ins:
  assumes "ok m"
  shows "length (keys (ins k v m)) = (if find m k = None then Suc (length (keys m)) else length (keys m))"
proof -
  have d: "\<And>m. ok m \<Longrightarrow> length (keys m) = card (set (keys m))"
    using keys_sorted by (metis distinct_card strict_sorted_iff)
  show ?thesis
    using d [OF assms] d [OF ok_ins [OF assms]] keys_find [OF assms]
    by (simp add: keys_ins [OF assms] card_insert_if)
qed

end

interpretation smap: ordered_map map_of smap_upd smap_del smap_keys smap_ok
proof unfold_locales
  fix m :: "('k::linorder \<times> 'v) list" and k
  show "k \<in> set (smap_keys m) \<longleftrightarrow> map_of m k \<noteq> None"
    by (simp add: smap_keys_def map_of_eq_None_iff)
qed (auto simp: smap_keys_def smap_ok_def [symmetric])

end
