(* ===== verification/Simulator.thy ===== *)
theory Simulator
  imports Oran_Prelude "HOL-Library.Multiset"
begin

text \<open>
  The discrete-event engine every component runs on: \<open>DefaultSimulatorImpl\<close> over
  \<open>MapScheduler\<close> (\<open>src/src/core/model\<close>). An \<open>EventImpl\<close> is shared between the queue
  and the \<open>EventId\<close> its creator keeps, and \<open>Cancel\<close> sets a flag in it: the implementations
  live in an explicit store \<open>m_impls\<close> and both sides hold an address. \<open>m_uid\<close> is an
  \<open>uint32_t\<close> and wraps. This theory is the engine as its own thread sees it while no other
  thread hands events over; the queue \<open>m_eventsWithContext\<close> and the interleaving with other
  threads are in \<open>Simulator_Threads\<close>. The type parameter is the closure an event
  runs; what it does to the rest of the program is the argument \<open>invoke\<close> of the loop.
\<close>

section \<open>Event keys and their order\<close>

datatype ev_key = EvKey (key_ts: time) (key_uid: nat)

definition key_before :: "ev_key \<Rightarrow> ev_key \<Rightarrow> bool" where
  "key_before a b \<longleftrightarrow> key_ts a < key_ts b \<or> (key_ts a = key_ts b \<and> key_uid a < key_uid b)"

instantiation ev_key :: linorder
begin

definition less_ev_key :: "ev_key \<Rightarrow> ev_key \<Rightarrow> bool" where
  less_is_before: "less_ev_key a b \<longleftrightarrow> key_before a b"

definition less_eq_ev_key :: "ev_key \<Rightarrow> ev_key \<Rightarrow> bool" where
  "less_eq_ev_key a b \<longleftrightarrow> a < b \<or> a = b"

instance
proof
  fix x y z :: ev_key
  show "x < y \<longleftrightarrow> x \<le> y \<and> \<not> y \<le> x"
    by (cases x; cases y) (auto simp: less_is_before key_before_def less_eq_ev_key_def)
  show "x \<le> x"
    by (simp add: less_eq_ev_key_def)
  show "x \<le> y \<Longrightarrow> y \<le> z \<Longrightarrow> x \<le> z"
    by (cases x; cases y; cases z) (auto simp: less_is_before key_before_def less_eq_ev_key_def)
  show "x \<le> y \<Longrightarrow> y \<le> x \<Longrightarrow> x = y"
    by (cases x; cases y) (auto simp: less_is_before key_before_def less_eq_ev_key_def)
  show "x \<le> y \<or> y \<le> x"
    by (cases x; cases y) (auto simp: less_is_before key_before_def less_eq_ev_key_def)
qed

end

lemma less_ev_key_def: "a < b \<longleftrightarrow> key_ts a < key_ts b \<or> (key_ts a = key_ts b \<and> key_uid a < key_uid b)"
  for a b :: ev_key
  by (simp add: less_is_before key_before_def)

section \<open>State\<close>

record 'e event_impl =
  m_cancel :: bool
  m_notify :: 'e

record event_id =
  id_impl :: "nat option"
  id_ts :: time
  id_context :: nat
  id_uid :: nat

definition EventId :: event_id where
  "EventId = \<lparr>id_impl = None, id_ts = 0, id_context = 0, id_uid = 0\<rparr>"

record 'e simulator =
  m_events :: "(ev_key \<times> nat \<times> nat) list"
  m_destroyEvents :: "event_id list"
  m_impls :: "nat \<Rightarrow> 'e event_impl option"
  m_nextImpl :: nat
  m_stop :: bool
  m_uid :: nat
  m_currentUid :: nat
  m_currentTs :: time
  m_currentContext :: nat
  m_eventCount :: nat
  m_unscheduledEvents :: int

definition UID_DESTROY :: nat where
  "UID_DESTROY = 2"

definition UID_VALID :: nat where
  "UID_VALID = 4"

definition DefaultSimulatorImpl :: "'e simulator" where
  "DefaultSimulatorImpl =
     \<lparr>m_events = [], m_destroyEvents = [], m_impls = (\<lambda>_. None), m_nextImpl = 0, m_stop = False,
      m_uid = UID_VALID, m_currentUid = 0, m_currentTs = 0, m_currentContext = 2 ^ 32 - 1,
      m_eventCount = 0, m_unscheduledEvents = 0\<rparr>"

section \<open>The scheduler\<close>

definition map_Insert ::
  "ev_key \<Rightarrow> nat \<times> nat \<Rightarrow> (ev_key \<times> nat \<times> nat) list \<Rightarrow> (ev_key \<times> nat \<times> nat) list res" where
  "map_Insert k v m = (if map_of m k \<noteq> None then Inl DuplicateKey else Inr (smap_upd k v m))"

definition map_RemoveNext ::
  "(ev_key \<times> nat \<times> nat) list \<Rightarrow> ((ev_key \<times> nat \<times> nat) \<times> (ev_key \<times> nat \<times> nat) list) res" where
  "map_RemoveNext m = (case m of [] \<Rightarrow> Inl EmptyScheduler | e # m' \<Rightarrow> Inr (e, m'))"

definition map_Remove ::
  "ev_key \<Rightarrow> nat \<Rightarrow> (ev_key \<times> nat \<times> nat) list \<Rightarrow> (ev_key \<times> nat \<times> nat) list res" where
  "map_Remove k a m =
     (case map_of m k of
        None \<Rightarrow> Inl EventNotFound
      | Some (c, a') \<Rightarrow> if a' = a then Inr (smap_del k m) else Inl ImplMismatch)"

section \<open>Operations\<close>

definition next_uid :: "nat \<Rightarrow> nat" where
  "next_uid u = (u + 1) mod 2 ^ 32"

definition IsCancelled :: "'e simulator \<Rightarrow> nat \<Rightarrow> bool" where
  "IsCancelled s a = (case m_impls s a of None \<Rightarrow> False | Some i \<Rightarrow> m_cancel i)"

definition Now :: "'e simulator \<Rightarrow> time" where
  "Now s = m_currentTs s"

text \<open>The steps every way of scheduling ends with: number the event and insert it.\<close>

definition insert_event :: "time \<Rightarrow> nat \<Rightarrow> 'e \<Rightarrow> 'e simulator \<Rightarrow> (event_id \<times> 'e simulator) res" where
  "insert_event ts ctx ev s =
     (let a = m_nextImpl s;
          u = m_uid s
      in res_bind (map_Insert (EvKey ts u) (ctx, a) (m_events s)) (\<lambda>q.
           Inr (\<lparr>id_impl = Some a, id_ts = ts, id_context = ctx, id_uid = u\<rparr>,
                s\<lparr>m_impls := (m_impls s)(a \<mapsto> \<lparr>m_cancel = False, m_notify = ev\<rparr>),
                  m_nextImpl := Suc a,
                  m_uid := next_uid u,
                  m_unscheduledEvents := m_unscheduledEvents s + 1,
                  m_events := q\<rparr>)))"

definition Schedule :: "time \<Rightarrow> 'e \<Rightarrow> 'e simulator \<Rightarrow> (event_id \<times> 'e simulator) res" where
  "Schedule delay ev s =
     abort_if (delay < 0) NegativeDelay
       (insert_event (delay + m_currentTs s) (m_currentContext s) ev s)"

definition ScheduleNow :: "'e \<Rightarrow> 'e simulator \<Rightarrow> (event_id \<times> 'e simulator) res" where
  "ScheduleNow ev s = Schedule 0 ev s"

definition ScheduleDestroy :: "'e \<Rightarrow> 'e simulator \<Rightarrow> event_id \<times> 'e simulator" where
  "ScheduleDestroy ev s =
     (let a = m_nextImpl s;
          eid = \<lparr>id_impl = Some a, id_ts = m_currentTs s, id_context = 2 ^ 32 - 1, id_uid = 2\<rparr>
      in (eid, s\<lparr>m_impls := (m_impls s)(a \<mapsto> \<lparr>m_cancel = False, m_notify = ev\<rparr>),
                m_nextImpl := Suc a,
                m_destroyEvents := m_destroyEvents s @ [eid],
                m_uid := next_uid (m_uid s)\<rparr>))"

definition IsExpired :: "'e simulator \<Rightarrow> event_id \<Rightarrow> bool" where
  "IsExpired s eid =
     (if id_uid eid = UID_DESTROY
      then (case id_impl eid of
              None \<Rightarrow> True
            | Some a \<Rightarrow> IsCancelled s a \<or> eid \<notin> set (m_destroyEvents s))
      else (case id_impl eid of
              None \<Rightarrow> True
            | Some a \<Rightarrow> id_ts eid < m_currentTs s \<or>
                (id_ts eid = m_currentTs s \<and> id_uid eid \<le> m_currentUid s) \<or> IsCancelled s a))"

definition IsPending :: "'e simulator \<Rightarrow> event_id \<Rightarrow> bool" where
  "IsPending s eid = (\<not> IsExpired s eid)"

definition GetDelayLeft :: "'e simulator \<Rightarrow> event_id \<Rightarrow> time" where
  "GetDelayLeft s eid = (if IsExpired s eid then 0 else id_ts eid - m_currentTs s)"

definition impl_Cancel :: "nat \<Rightarrow> 'e simulator \<Rightarrow> 'e simulator" where
  "impl_Cancel a s =
     s\<lparr>m_impls := (m_impls s)(a := map_option (\<lambda>i. i\<lparr>m_cancel := True\<rparr>) (m_impls s a))\<rparr>"

definition Cancel :: "event_id \<Rightarrow> 'e simulator \<Rightarrow> 'e simulator" where
  "Cancel eid s =
     (if IsExpired s eid then s
      else (case id_impl eid of None \<Rightarrow> s | Some a \<Rightarrow> impl_Cancel a s))"

definition Remove :: "event_id \<Rightarrow> 'e simulator \<Rightarrow> 'e simulator res" where
  "Remove eid s =
     (if id_uid eid = UID_DESTROY
      then Inr (s\<lparr>m_destroyEvents := remove1 eid (m_destroyEvents s)\<rparr>)
      else if IsExpired s eid then Inr s
      else (case id_impl eid of
              None \<Rightarrow> Inl NullPointer
            | Some a \<Rightarrow>
                res_bind (map_Remove (EvKey (id_ts eid) (id_uid eid)) a (m_events s)) (\<lambda>q.
                  Inr ((impl_Cancel a (s\<lparr>m_events := q\<rparr>))
                    \<lparr>m_unscheduledEvents := m_unscheduledEvents s - 1\<rparr>))))"

definition IsFinished :: "'e simulator \<Rightarrow> bool" where
  "IsFinished s \<longleftrightarrow> m_events s = [] \<or> m_stop s"

definition Stop :: "'e simulator \<Rightarrow> 'e simulator" where
  "Stop s = s\<lparr>m_stop := True\<rparr>"

text \<open>
  \<open>ProcessOneEvent\<close> takes the first event out of the queue, moves the clock to it and invokes
  it; \<open>EventImpl::Invoke\<close> does nothing for a cancelled event. \<open>begin_event\<close> is the part
  before \<open>Invoke\<close> and returns the closure to run, if any.
\<close>

definition begin_event :: "'e simulator \<Rightarrow> ('e option \<times> 'e simulator) res" where
  "begin_event s =
     res_bind (map_RemoveNext (m_events s)) (\<lambda>((k, ctx, a), q).
       abort_if (key_ts k < m_currentTs s) TimeReversal
         (Inr ((case m_impls s a of
                  None \<Rightarrow> None
                | Some i \<Rightarrow> if m_cancel i then None else Some (m_notify i)),
               s\<lparr>m_events := q,
                 m_unscheduledEvents := m_unscheduledEvents s - 1,
                 m_eventCount := m_eventCount s + 1,
                 m_currentTs := key_ts k,
                 m_currentContext := ctx,
                 m_currentUid := key_uid k\<rparr>)))"

definition ProcessOneEvent ::
  "('e \<Rightarrow> 's \<times> 'e simulator \<Rightarrow> ('s \<times> 'e simulator) res) \<Rightarrow>
   's \<times> 'e simulator \<Rightarrow> ('s \<times> 'e simulator) res" where
  "ProcessOneEvent invoke st =
     res_bind (begin_event (snd st)) (\<lambda>(ev, sim).
       (case ev of None \<Rightarrow> Inr (fst st, sim) | Some e \<Rightarrow> invoke e (fst st, sim)))"

partial_function (option) Run_loop ::
  "('e \<Rightarrow> 's \<times> 'e simulator \<Rightarrow> ('s \<times> 'e simulator) res) \<Rightarrow>
   's \<times> 'e simulator \<Rightarrow> ('s \<times> 'e simulator) res option" where
  "Run_loop invoke st =
     (if IsFinished (snd st) then Some (Inr st)
      else (case ProcessOneEvent invoke st of
              Inl e \<Rightarrow> Some (Inl e)
            | Inr st' \<Rightarrow> Run_loop invoke st'))"

definition Run ::
  "('e \<Rightarrow> 's \<times> 'e simulator \<Rightarrow> ('s \<times> 'e simulator) res) \<Rightarrow>
   's \<times> 'e simulator \<Rightarrow> ('s \<times> 'e simulator) res option" where
  "Run invoke st = Run_loop invoke (fst st, (snd st)\<lparr>m_stop := False\<rparr>)"

section \<open>The invariant of the engine\<close>

definition current_key :: "'e simulator \<Rightarrow> ev_key" where
  "current_key s = EvKey (m_currentTs s) (m_currentUid s)"

definition id_key :: "event_id \<Rightarrow> ev_key" where
  "id_key eid = EvKey (id_ts eid) (id_uid eid)"

text \<open>
  The queue is ordered, every event in it lies after the one being processed and was numbered
  before the next one to be scheduled, its implementation is in the store, and the count of
  unscheduled events is the length of the queue.
\<close>

definition sim_inv :: "'e simulator \<Rightarrow> bool" where
  "sim_inv s \<longleftrightarrow>
     smap_ok (m_events s) \<and>
     (\<forall>(k, c, a) \<in> set (m_events s).
        current_key s < k \<and> key_uid k < m_uid s \<and> a < m_nextImpl s \<and> m_impls s a \<noteq> None) \<and>
     distinct (map (snd \<circ> snd) (m_events s)) \<and>
     (\<forall>a \<ge> m_nextImpl s. m_impls s a = None) \<and>
     m_nextImpl s + UID_VALID = m_uid s \<and> m_currentUid s < m_uid s \<and>
     m_unscheduledEvents s = int (length (m_events s))"

text \<open>
  An identifier that \<open>Schedule\<close> returned: its event is still queued, or was overtaken by the
  clock, or was cancelled.
\<close>

definition issued :: "'e simulator \<Rightarrow> event_id \<Rightarrow> bool" where
  "issued s eid \<longleftrightarrow>
     UID_VALID \<le> id_uid eid \<and>
     (\<exists>a. id_impl eid = Some a \<and> a < m_nextImpl s \<and> m_impls s a \<noteq> None \<and>
        (map_of (m_events s) (id_key eid) = Some (id_context eid, a) \<or>
         id_key eid \<le> current_key s \<or> IsCancelled s a))"

text \<open>Event numbers have not wrapped around while fewer than \<open>2 ^ 32 - 4\<close> events were created.\<close>

definition few_events :: "'e simulator \<Rightarrow> bool" where
  "few_events s \<longleftrightarrow> m_nextImpl s + UID_VALID < 2 ^ 32"

subsection \<open>The queue\<close>

lemma sim_inv_D:
  assumes "sim_inv s"
  shows "smap_ok (m_events s)"
    and "(k, c, a) \<in> set (m_events s) \<Longrightarrow>
      current_key s < k \<and> key_uid k < m_uid s \<and> a < m_nextImpl s \<and> m_impls s a \<noteq> None"
    and "distinct (map (snd \<circ> snd) (m_events s))"
    and "m_nextImpl s \<le> a \<Longrightarrow> m_impls s a = None"
    and "m_nextImpl s + UID_VALID = m_uid s"
    and "m_currentUid s < m_uid s"
    and "m_unscheduledEvents s = int (length (m_events s))"
  using assms unfolding sim_inv_def by (blast, fastforce, blast+)

lemma sim_inv_init: "sim_inv DefaultSimulatorImpl"
  by (simp add: sim_inv_def DefaultSimulatorImpl_def UID_VALID_def)

lemma length_smap_upd_fresh:
  "map_of m k = None \<Longrightarrow> length (smap_upd k v m) = Suc (length m)"
  by (induction m) (auto split: if_splits)

lemma mset_smap_upd_fresh:
  "map_of m k = None \<Longrightarrow> mset (smap_upd k v m) = add_mset (k, v) (mset m)"
  by (induction m) (auto split: if_splits)

lemma distinct_map_mset: "mset xs = mset ys \<Longrightarrow> distinct (map f xs) = distinct (map f ys)"
  by (metis mset_eq_imp_distinct_iff mset_map)

lemma uid_fresh:
  assumes "sim_inv s"
  shows "map_of (m_events s) (EvKey ts (m_uid s)) = None"
proof (rule ccontr)
  assume "map_of (m_events s) (EvKey ts (m_uid s)) \<noteq> None"
  then obtain c a where "map_of (m_events s) (EvKey ts (m_uid s)) = Some (c, a)" by auto
  then have "(EvKey ts (m_uid s), c, a) \<in> set (m_events s)" by (rule map_of_SomeD)
  from sim_inv_D(2) [OF assms this] show False by simp
qed

subsection \<open>Scheduling\<close>

lemma insert_event_eq:
  assumes "sim_inv s"
  shows "insert_event ts ctx ev s =
    Inr (\<lparr>id_impl = Some (m_nextImpl s), id_ts = ts, id_context = ctx, id_uid = m_uid s\<rparr>,
         s\<lparr>m_impls := (m_impls s)(m_nextImpl s \<mapsto> \<lparr>m_cancel = False, m_notify = ev\<rparr>),
           m_nextImpl := Suc (m_nextImpl s), m_uid := next_uid (m_uid s),
           m_unscheduledEvents := m_unscheduledEvents s + 1,
           m_events := smap_upd (EvKey ts (m_uid s)) (ctx, m_nextImpl s) (m_events s)\<rparr>)"
  by (simp add: insert_event_def Let_def map_Insert_def uid_fresh [OF assms])

lemma insert_event_nextImpl:
  "insert_event ts ctx ev s = Inr (eid, s') \<Longrightarrow> m_nextImpl s' = Suc (m_nextImpl s)"
  by (auto simp: insert_event_def Let_def map_Insert_def split: if_splits)

lemma next_uid_few:
  assumes "sim_inv s" and "few_events s'" and "m_nextImpl s' = Suc (m_nextImpl s)"
  shows "next_uid (m_uid s) = Suc (m_uid s)"
  using assms sim_inv_D(5) [OF assms(1)] by (simp add: next_uid_def few_events_def)

lemma insert_event_inv:
  assumes inv: "sim_inv s" and few: "few_events s'" and later: "m_currentTs s \<le> ts"
    and ins: "insert_event ts ctx ev s = Inr (eid, s')"
  shows "sim_inv s'"
proof -
  let ?k = "EvKey ts (m_uid s)"
  have s': "s' = s\<lparr>m_impls := (m_impls s)(m_nextImpl s \<mapsto> \<lparr>m_cancel = False, m_notify = ev\<rparr>),
      m_nextImpl := Suc (m_nextImpl s), m_uid := Suc (m_uid s),
      m_unscheduledEvents := m_unscheduledEvents s + 1,
      m_events := smap_upd ?k (ctx, m_nextImpl s) (m_events s)\<rparr>"
    using ins by (simp add: insert_event_eq [OF inv] next_uid_few [OF inv few insert_event_nextImpl [OF ins]])
  have fresh: "map_of (m_events s) ?k = None" by (rule uid_fresh [OF inv])
  have new: "current_key s < ?k"
    using later sim_inv_D(6) [OF inv] by (auto simp: current_key_def less_ev_key_def)
  have cur: "current_key s' = current_key s" by (simp add: s' current_key_def)
  have ok: "smap_ok (m_events s)" by (rule sim_inv_D(1) [OF inv])
  have "distinct (map (snd \<circ> snd) (m_events s'))"
  proof -
    have "mset (m_events s') = mset ((?k, ctx, m_nextImpl s) # m_events s)"
      by (simp add: s' mset_smap_upd_fresh [OF fresh])
    then have "distinct (map (snd \<circ> snd) (m_events s')) =
        distinct (map (snd \<circ> snd) ((?k, ctx, m_nextImpl s) # m_events s))"
      by (rule distinct_map_mset)
    then show ?thesis using sim_inv_D(2,3) [OF inv] by fastforce
  qed
  moreover have "\<forall>(k, c, a) \<in> set (m_events s').
      current_key s' < k \<and> key_uid k < m_uid s' \<and> a < m_nextImpl s' \<and> m_impls s' a \<noteq> None"
    using sim_inv_D(2) [OF inv] new unfolding cur
    by (auto simp: s' set_smap_upd [OF ok] less_Suc_eq)
  ultimately show ?thesis
    unfolding sim_inv_def
    using ok sim_inv_D(5,6,7) [OF inv]
    by (simp add: s' length_smap_upd_fresh [OF fresh] sim_inv_D(4) [OF inv])
qed

lemma Schedule_eq:
  assumes "sim_inv s"
  shows "Schedule delay ev s =
    (if delay < 0 then Inl NegativeDelay
     else Inr (\<lparr>id_impl = Some (m_nextImpl s), id_ts = delay + m_currentTs s,
                id_context = m_currentContext s, id_uid = m_uid s\<rparr>,
               s\<lparr>m_impls := (m_impls s)(m_nextImpl s \<mapsto> \<lparr>m_cancel = False, m_notify = ev\<rparr>),
                 m_nextImpl := Suc (m_nextImpl s), m_uid := next_uid (m_uid s),
                 m_unscheduledEvents := m_unscheduledEvents s + 1,
                 m_events := smap_upd (EvKey (delay + m_currentTs s) (m_uid s))
                   (m_currentContext s, m_nextImpl s) (m_events s)\<rparr>))"
  by (simp add: Schedule_def insert_event_eq [OF assms] abort_if_def)

lemma Schedule_nextImpl:
  "Schedule delay ev s = Inr (eid, s') \<Longrightarrow> m_nextImpl s' = Suc (m_nextImpl s)"
  by (auto simp: Schedule_def abort_if_def dest: insert_event_nextImpl split: if_splits)

lemma Schedule_inv:
  assumes inv: "sim_inv s" and few: "few_events s'" and sch: "Schedule delay ev s = Inr (eid, s')"
  shows "sim_inv s'"
  using sch insert_event_inv [OF inv few, of "delay + m_currentTs s"]
  by (auto simp: Schedule_def abort_if_def split: if_splits)

lemma Schedule_issued:
  assumes inv: "sim_inv s" and sch: "Schedule delay ev s = Inr (eid, s')"
  shows "issued s' eid" and "IsPending s' eid" and "id_ts eid = Now s + delay"
    and "id_impl eid = Some (m_nextImpl s)" and "m_impls s' (m_nextImpl s) = Some \<lparr>m_cancel = False, m_notify = ev\<rparr>"
    and "map_of (m_events s') (id_key eid) = Some (id_context eid, m_nextImpl s)"
  using sch sim_inv_D(5,6) [OF inv]
  by (auto simp: Schedule_eq [OF inv] issued_def id_key_def IsPending_def IsExpired_def
      UID_DESTROY_def UID_VALID_def IsCancelled_def Now_def split: if_splits)

lemma Schedule_frame:
  assumes inv: "sim_inv s" and sch: "Schedule delay ev s = Inr (eid, s')"
  shows "current_key s' = current_key s" and "Now s' = Now s"
    and "a \<noteq> m_nextImpl s \<Longrightarrow> m_impls s' a = m_impls s a"
    and "k \<noteq> id_key eid \<Longrightarrow> map_of (m_events s') k = map_of (m_events s) k"
    and "m_destroyEvents s' = m_destroyEvents s" and "m_stop s' = m_stop s"
  using sch by (auto simp: Schedule_eq [OF inv] current_key_def Now_def id_key_def split: if_splits)

lemma Schedule_keeps_issued:
  assumes inv: "sim_inv s" and iss: "issued s e0" and sch: "Schedule delay ev s = Inr (eid, s')"
  shows "issued s' e0" and "IsPending s' e0 = IsPending s e0"
proof -
  from iss obtain a where a: "UID_VALID \<le> id_uid e0" "id_impl e0 = Some a" "a < m_nextImpl s"
      "m_impls s a \<noteq> None"
      "map_of (m_events s) (id_key e0) = Some (id_context e0, a) \<or>
       id_key e0 \<le> current_key s \<or> IsCancelled s a"
    by (auto simp: issued_def)
  have imp: "m_impls s' a = m_impls s a" using Schedule_frame(3) [OF inv sch] a(3) by simp
  have can: "IsCancelled s' a = IsCancelled s a" by (simp add: IsCancelled_def imp)
  have nxt: "m_nextImpl s \<le> m_nextImpl s'"
    using sch by (auto simp: Schedule_eq [OF inv] split: if_splits)
  have cur: "current_key s' = current_key s" by (rule Schedule_frame(1) [OF inv sch])
  have "map_of (m_events s) (id_key e0) = Some (id_context e0, a) \<Longrightarrow>
      map_of (m_events s') (id_key e0) = Some (id_context e0, a)"
    using uid_fresh [OF inv] Schedule_frame(4) [OF inv sch] sch
    by (cases "id_key e0 = id_key eid") (auto simp: Schedule_eq [OF inv] id_key_def split: if_splits)
  then show "issued s' e0"
    unfolding issued_def using a nxt imp can cur by (intro conjI exI [of _ a]) auto
  have "m_currentTs s' = m_currentTs s" "m_currentUid s' = m_currentUid s"
    using cur by (simp_all add: current_key_def)
  then show "IsPending s' e0 = IsPending s e0"
    using a can by (simp add: IsPending_def IsExpired_def UID_DESTROY_def UID_VALID_def)
qed

subsection \<open>Pending events are the queued, uncancelled ones\<close>

lemma IsPending_iff_queued:
  assumes inv: "sim_inv s" and iss: "issued s eid" and a: "id_impl eid = Some a"
  shows "IsPending s eid \<longleftrightarrow>
    map_of (m_events s) (id_key eid) = Some (id_context eid, a) \<and> \<not> IsCancelled s a"
proof -
  have u: "id_uid eid \<noteq> UID_DESTROY"
    using iss by (auto simp: issued_def UID_VALID_def UID_DESTROY_def)
  have late: "id_key eid \<le> current_key s \<longleftrightarrow>
      id_ts eid < m_currentTs s \<or> id_ts eid = m_currentTs s \<and> id_uid eid \<le> m_currentUid s"
    by (auto simp: id_key_def current_key_def less_eq_ev_key_def less_ev_key_def)
  have pend: "IsPending s eid \<longleftrightarrow> \<not> id_key eid \<le> current_key s \<and> \<not> IsCancelled s a"
    using u a by (auto simp: IsPending_def IsExpired_def late)
  have queued: "map_of (m_events s) (id_key eid) = Some (c, b) \<Longrightarrow> current_key s < id_key eid" for c b
    using sim_inv_D(2) [OF inv] by (metis map_of_SomeD)
  show ?thesis
    using pend queued iss a by (auto simp: issued_def dest: leD)
qed

subsection \<open>Cancelling and removing\<close>

lemma impl_Cancel_simps [simp]:
  "m_events (impl_Cancel a s) = m_events s"
  "m_nextImpl (impl_Cancel a s) = m_nextImpl s"
  "m_uid (impl_Cancel a s) = m_uid s"
  "m_currentTs (impl_Cancel a s) = m_currentTs s"
  "m_currentUid (impl_Cancel a s) = m_currentUid s"
  "m_destroyEvents (impl_Cancel a s) = m_destroyEvents s"
  "m_unscheduledEvents (impl_Cancel a s) = m_unscheduledEvents s"
  "current_key (impl_Cancel a s) = current_key s"
  "m_impls (impl_Cancel a s) b = None \<longleftrightarrow> m_impls s b = None"
  "IsCancelled (impl_Cancel a s) b \<longleftrightarrow> IsCancelled s b \<or> (b = a \<and> m_impls s a \<noteq> None)"
  by (auto simp: impl_Cancel_def current_key_def IsCancelled_def split: option.splits)

lemma sim_inv_impl_Cancel [simp]: "sim_inv (impl_Cancel a s) = sim_inv s"
  by (simp add: sim_inv_def)

lemma Cancel_events: "m_events (Cancel eid s) = m_events s"
  by (simp add: Cancel_def split: option.splits)

lemma Cancel_inv: "sim_inv s \<Longrightarrow> sim_inv (Cancel eid s)"
  by (auto simp: Cancel_def split: option.splits)

lemma issued_impl_Cancel: "issued s e0 \<Longrightarrow> issued (impl_Cancel a s) e0"
  by (fastforce simp: issued_def)

lemma Cancel_keeps_issued: "issued s e0 \<Longrightarrow> issued (Cancel eid s) e0"
  by (auto simp: Cancel_def issued_impl_Cancel split: option.splits)

lemma Cancel_not_pending:
  assumes "issued s eid"
  shows "\<not> IsPending (Cancel eid s) eid"
  using assms by (auto simp: issued_def Cancel_def IsPending_def IsExpired_def split: option.splits)

text \<open>Cancelling one event leaves the others pending: implementations are not shared.\<close>

lemma Cancel_other:
  assumes "id_impl e0 \<noteq> id_impl eid"
  shows "IsPending (Cancel eid s) e0 = IsPending s e0"
  using assms by (auto simp: Cancel_def IsPending_def IsExpired_def split: option.splits)

lemma Remove_inv:
  assumes inv: "sim_inv s" and rem: "Remove eid s = Inr s'"
  shows "sim_inv s'"
proof -
  let ?del = "\<lambda>a. (impl_Cancel a (s\<lparr>m_events := smap_del (id_key eid) (m_events s)\<rparr>))
    \<lparr>m_unscheduledEvents := m_unscheduledEvents s - 1\<rparr>"
  have "s' = s\<lparr>m_destroyEvents := remove1 eid (m_destroyEvents s)\<rparr> \<or> s' = s \<or>
      (\<exists>c a. map_of (m_events s) (id_key eid) = Some (c, a) \<and> s' = ?del a)"
  proof (cases "id_uid eid = UID_DESTROY \<or> IsExpired s eid")
    case True
    then show ?thesis using rem by (auto simp: Remove_def split: if_splits)
  next
    case False
    with rem obtain a where a: "res_bind (map_Remove (id_key eid) a (m_events s)) (\<lambda>q.
          Inr ((impl_Cancel a (s\<lparr>m_events := q\<rparr>))
            \<lparr>m_unscheduledEvents := m_unscheduledEvents s - 1\<rparr>)) = Inr s'"
      by (simp add: Remove_def id_key_def split: option.splits)
    then show ?thesis
      by (fastforce simp: map_Remove_def split: option.splits if_splits)
  qed
  then consider "s' = s\<lparr>m_destroyEvents := remove1 eid (m_destroyEvents s)\<rparr>" | "s' = s"
    | c a where "map_of (m_events s) (id_key eid) = Some (c, a)" "s' = ?del a"
    by blast
  then show ?thesis
  proof cases
    case 1
    then show ?thesis using inv by (simp add: sim_inv_def current_key_def)
  next
    case 2
    then show ?thesis using inv by simp
  next
    case 3
    let ?k = "id_key eid"
    have ok: "smap_ok (m_events s)" by (rule sim_inv_D(1) [OF inv])
    have len: "Suc (length (smap_del ?k (m_events s))) = length (m_events s)"
      by (rule length_smap_del [OF ok 3(1)])
    have "distinct (map (snd \<circ> snd) (smap_del ?k (m_events s)))"
      using sim_inv_D(3) [OF inv] by (simp add: smap_del_def distinct_map_filter)
    moreover have "s' = impl_Cancel a (s\<lparr>m_events := smap_del ?k (m_events s),
        m_unscheduledEvents := m_unscheduledEvents s - 1\<rparr>)" (is "_ = impl_Cancel a ?t")
      by (simp add: 3(2) impl_Cancel_def)
    moreover have "current_key ?t = current_key s" by (simp add: current_key_def)
    moreover have "\<forall>e\<in>set (smap_del ?k (m_events s)). e \<in> set (m_events s)" by simp
    ultimately show ?thesis
      using ok len sim_inv_D(4-7) [OF inv] inv
      by (simp add: sim_inv_def [of ?t] smap_ok_del) (auto simp: sim_inv_def)
  qed
qed

subsection \<open>Processing one event\<close>

text \<open>The four facts a proof about the loop needs of \<open>begin_event\<close>.\<close>

lemma begin_event_spec:
  assumes inv: "sim_inv s" and beg: "begin_event s = Inr (ev, s')"
  shows "sim_inv s'" and "current_key s < current_key s'"
    and "\<exists>c a. m_events s = (current_key s', c, a) # m_events s' \<and>
      ev = (if IsCancelled s a then None else map_option m_notify (m_impls s a))"
    and "m_impls s' = m_impls s" and "m_uid s' = m_uid s" and "m_nextImpl s' = m_nextImpl s"
proof -
  from beg obtain k c a q where q: "m_events s = (k, c, a) # q"
    and ev: "ev = (case m_impls s a of None \<Rightarrow> None | Some i \<Rightarrow> if m_cancel i then None else Some (m_notify i))"
    and s': "s' = s\<lparr>m_events := q, m_unscheduledEvents := m_unscheduledEvents s - 1,
        m_eventCount := m_eventCount s + 1, m_currentTs := key_ts k, m_currentContext := c,
        m_currentUid := key_uid k\<rparr>"
    by (auto simp: begin_event_def map_RemoveNext_def split: list.splits)
  have k: "current_key s' = k" by (simp add: s' current_key_def)
  have first: "\<forall>e\<in>set q. k < fst e"
    using sim_inv_D(1) [OF inv] by (simp add: q smap_ok_Cons)
  have hd: "current_key s < k" "key_uid k < m_uid s" "a < m_nextImpl s" "m_impls s a \<noteq> None"
    using sim_inv_D(2) [OF inv, of k c a] by (simp_all add: q)
  show "current_key s < current_key s'" using hd(1) k by simp
  show "\<exists>c a. m_events s = (current_key s', c, a) # m_events s' \<and>
      ev = (if IsCancelled s a then None else map_option m_notify (m_impls s a))"
    using q ev k by (auto simp: s' IsCancelled_def split: option.splits)
  show "m_impls s' = m_impls s" "m_uid s' = m_uid s" "m_nextImpl s' = m_nextImpl s"
    by (simp_all add: s')
  show "sim_inv s'"
    using inv first hd k unfolding sim_inv_def [of s']
    by (auto simp: s' q sim_inv_def smap_ok_Cons)
qed

lemma begin_event_total:
  assumes "sim_inv s" and "m_events s \<noteq> []"
  shows "\<exists>ev s'. begin_event s = Inr (ev, s')"
proof -
  from assms(2) obtain k c a q where q: "m_events s = (k, c, a) # q"
    by (metis neq_Nil_conv prod_cases3)
  have "current_key s < k" using sim_inv_D(2) [OF assms(1), of k c a] by (simp add: q)
  then have "\<not> key_ts k < m_currentTs s"
    by (auto simp: current_key_def less_ev_key_def)
  then show ?thesis by (simp add: begin_event_def map_RemoveNext_def q abort_if_def)
qed

lemma begin_event_keeps_issued:
  assumes inv: "sim_inv s" and iss: "issued s e0" and beg: "begin_event s = Inr (ev, s')"
  shows "issued s' e0"
proof -
  note sp = begin_event_spec [OF inv beg]
  from sp(3) obtain c a where q: "m_events s = (current_key s', c, a) # m_events s'" by auto
  have "IsCancelled s' b = IsCancelled s b" for b by (simp add: IsCancelled_def sp(4))
  moreover have "map_of (m_events s) (id_key e0) = Some x \<Longrightarrow>
      map_of (m_events s') (id_key e0) = Some x \<or> id_key e0 \<le> current_key s'" for x
    by (auto simp: q split: if_splits)
  ultimately show ?thesis
    using iss sp(2,4,6) unfolding issued_def by (metis less_imp_le order_trans)
qed

subsection \<open>Runs\<close>

text \<open>
  \<open>steps\<close> is the loop of \<open>Run\<close> cut after at most \<open>n\<close> events, with the keys of the events
  it took out of the queue.
\<close>

fun steps ::
  "('e \<Rightarrow> 's \<times> 'e simulator \<Rightarrow> ('s \<times> 'e simulator) res) \<Rightarrow> nat \<Rightarrow>
   's \<times> 'e simulator \<Rightarrow> (ev_key list \<times> 's \<times> 'e simulator) res" where
  "steps invoke 0 st = Inr ([], st)"
| "steps invoke (Suc n) st =
     (if IsFinished (snd st) then Inr ([], st)
      else res_bind (ProcessOneEvent invoke st) (\<lambda>st1.
        res_bind (steps invoke n st1) (\<lambda>(ks, st2).
          Inr (fst (hd (m_events (snd st))) # ks, st2))))"

lemma Run_loop_steps:
  "steps invoke n st = Inr (ks, st') \<Longrightarrow> IsFinished (snd st') \<Longrightarrow>
    Run_loop invoke st = Some (Inr st')"
proof (induction n arbitrary: st ks)
  case 0
  then show ?case by (simp add: Run_loop.simps)
next
  case (Suc n)
  show ?case
  proof (cases "IsFinished (snd st)")
    case True
    with Suc.prems show ?thesis by (simp add: Run_loop.simps)
  next
    case False
    with Suc.prems(1) obtain st1 ks1 where "ProcessOneEvent invoke st = Inr st1"
      and "steps invoke n st1 = Inr (ks1, st')"
      by (auto split: prod.splits)
    with False Suc.IH Suc.prems(2) show ?thesis
      by (subst Run_loop.simps) simp
  qed
qed

text \<open>
  What the engine asks of the code an event runs: it keeps the engine's invariant, it does not
  touch the clock, and it only creates events. The components' dispatcher is shown to meet it.
\<close>

locale event_handler =
  fixes invoke :: "'e \<Rightarrow> 's \<times> 'e simulator \<Rightarrow> ('s \<times> 'e simulator) res"
  assumes keeps_inv: "sim_inv sim \<Longrightarrow> invoke e (s, sim) = Inr (s', sim') \<Longrightarrow> few_events sim' \<Longrightarrow>
      sim_inv sim'"
    and keeps_clock: "sim_inv sim \<Longrightarrow> few_events sim' \<Longrightarrow> invoke e (s, sim) = Inr (s', sim') \<Longrightarrow>
      current_key sim' = current_key sim"
    and only_creates: "invoke e (s, sim) = Inr (s', sim') \<Longrightarrow> m_nextImpl sim \<le> m_nextImpl sim'"
begin

lemma process_creates:
  assumes "ProcessOneEvent invoke st = Inr st'"
  shows "m_nextImpl (snd st) \<le> m_nextImpl (snd st')"
proof -
  from assms obtain ev sim where b: "begin_event (snd st) = Inr (ev, sim)"
    and i: "(case ev of None \<Rightarrow> Inr (fst st, sim) | Some e \<Rightarrow> invoke e (fst st, sim)) = Inr st'"
    by (auto simp: ProcessOneEvent_def)
  have "m_nextImpl sim = m_nextImpl (snd st)"
    using b by (auto simp: begin_event_def split: prod.splits)
  then show ?thesis
    using i only_creates by (cases st'; cases ev) fastforce+
qed

lemma process_spec:
  assumes inv: "sim_inv (snd st)" and p: "ProcessOneEvent invoke st = Inr st'"
    and few: "few_events (snd st')"
  shows "sim_inv (snd st')" and "current_key (snd st) < current_key (snd st')"
    and "current_key (snd st') = fst (hd (m_events (snd st)))"
proof -
  from p obtain ev sim where b: "begin_event (snd st) = Inr (ev, sim)"
    and i: "(case ev of None \<Rightarrow> Inr (fst st, sim) | Some e \<Rightarrow> invoke e (fst st, sim)) = Inr st'"
    by (auto simp: ProcessOneEvent_def)
  note sp = begin_event_spec [OF inv b]
  obtain s' sim' where st': "st' = (s', sim')" by force
  have "sim_inv sim' \<and> current_key sim' = current_key sim"
    using i sp(1) few keeps_inv keeps_clock by (cases ev) (auto simp: st')
  then show "sim_inv (snd st')" "current_key (snd st) < current_key (snd st')"
    "current_key (snd st') = fst (hd (m_events (snd st)))"
    using sp(2,3) by (auto simp: st')
qed

lemma steps_creates: "steps invoke n st = Inr (ks, st') \<Longrightarrow> m_nextImpl (snd st) \<le> m_nextImpl (snd st')"
proof (induction n arbitrary: st ks)
  case 0
  then show ?case by simp
next
  case (Suc n)
  then show ?case by (fastforce dest: process_creates split: if_splits prod.splits)
qed

text \<open>Events run in the order of their keys, and the invariant holds after every one.\<close>

lemma steps_ordered:
  "sim_inv (snd st) \<Longrightarrow> steps invoke n st = Inr (ks, st') \<Longrightarrow> few_events (snd st') \<Longrightarrow>
    sorted_wrt (<) (current_key (snd st) # ks) \<and> sim_inv (snd st') \<and>
    current_key (snd st') = last (current_key (snd st) # ks)"
proof (induction n arbitrary: st ks)
  case 0
  then show ?case by simp
next
  case (Suc n)
  show ?case
  proof (cases "IsFinished (snd st)")
    case True
    with Suc.prems show ?thesis by simp
  next
    case False
    with Suc.prems(2) obtain st1 ks1 where p: "ProcessOneEvent invoke st = Inr st1"
      and r: "steps invoke n st1 = Inr (ks1, st')" and ks: "ks = fst (hd (m_events (snd st))) # ks1"
      by (auto split: prod.splits)
    have "m_nextImpl (snd st1) \<le> m_nextImpl (snd st')" by (rule steps_creates [OF r])
    with Suc.prems(3) have few1: "few_events (snd st1)" by (simp add: few_events_def)
    note sp = process_spec [OF Suc.prems(1) p few1]
    have "sorted_wrt (<) (current_key (snd st1) # ks1) \<and> sim_inv (snd st') \<and>
        current_key (snd st') = last (current_key (snd st1) # ks1)"
      by (rule Suc.IH [OF sp(1) r Suc.prems(3)])
    then show ?thesis using sp(2,3) ks by auto
  qed
qed

end

lemma Schedule_total:
  assumes inv: "sim_inv s" and delay: "0 \<le> delay" and few: "Suc (m_nextImpl s) + UID_VALID < 2 ^ 32"
  shows "\<exists>eid s'. Schedule delay ev s = Inr (eid, s') \<and> sim_inv s' \<and> IsPending s' eid \<and>
    GetDelayLeft s' eid = delay \<and> Now s' = Now s \<and>
    (\<forall>e0. issued s e0 \<longrightarrow> issued s' e0 \<and> IsPending s' e0 = IsPending s e0)"
proof -
  obtain eid s' where sch: "Schedule delay ev s = Inr (eid, s')"
    using delay by (auto simp: Schedule_eq [OF inv])
  have "few_events s'" using few Schedule_nextImpl [OF sch] by (simp add: few_events_def)
  then have "sim_inv s'" by (rule Schedule_inv [OF inv _ sch])
  moreover have "GetDelayLeft s' eid = delay"
    using Schedule_issued(2,3) [OF inv sch] Schedule_frame(2) [OF inv sch]
    by (simp add: GetDelayLeft_def IsPending_def Now_def)
  ultimately show ?thesis
    using sch Schedule_issued(2) [OF inv sch] Schedule_frame(2) [OF inv sch]
      Schedule_keeps_issued [OF inv _ sch] by blast
qed

section \<open>Properties\<close>

text \<open>
  Scheduling with a delay that is not negative never aborts; the returned identifier is pending
  with exactly that delay left, the engine stays well formed, and no event scheduled before gains
  or loses its pending state.
\<close>

lemma schedule_pending:
  assumes inv: "sim_inv s" and delay: "0 \<le> delay" and few: "Suc (m_nextImpl s) + UID_VALID < 2 ^ 32"
  shows "\<exists>eid s'. Schedule delay ev s = Inr (eid, s') \<and> sim_inv s' \<and> IsPending s' eid \<and>
    GetDelayLeft s' eid = delay \<and> Now s' = Now s \<and>
    (\<forall>e0. issued s e0 \<longrightarrow> issued s' e0 \<and> IsPending s' e0 = IsPending s e0)"
  using assms by (rule Schedule_total)

text \<open>
  Cancelling an event through its identifier makes it not pending and touches no other event;
  when the clock reaches it, \<open>ProcessOneEvent\<close> takes it out of the queue and leaves the rest of
  the program as it is, so a cancelled event never runs.
\<close>

lemma cancelled_event_never_runs:
  assumes inv: "sim_inv s" and iss: "issued s eid" and a: "id_impl eid = Some a" and pend: "IsPending s eid"
  shows "\<not> IsPending (Cancel eid s) eid \<and> sim_inv (Cancel eid s) \<and>
    (\<forall>e0. id_impl e0 \<noteq> Some a \<longrightarrow> IsPending (Cancel eid s) e0 = IsPending s e0) \<and>
    (\<forall>k c q. m_events (Cancel eid s) = (k, c, a) # q \<longrightarrow>
      (\<exists>s'. ProcessOneEvent invoke (x, Cancel eid s) = Inr (x, s') \<and> m_events s' = q))"
proof -
  have inv': "sim_inv (Cancel eid s)" by (rule Cancel_inv [OF inv])
  have "m_impls s a \<noteq> None" using iss a by (auto simp: issued_def)
  then have can: "IsCancelled (Cancel eid s) a"
    using pend a by (simp add: Cancel_def IsPending_def)
  have "\<exists>s'. ProcessOneEvent invoke (x, Cancel eid s) = Inr (x, s') \<and> m_events s' = q"
    if q: "m_events (Cancel eid s) = (k, c, a) # q" for k c q
  proof -
    obtain ev s' where b: "begin_event (Cancel eid s) = Inr (ev, s')"
      using begin_event_total [OF inv'] q by auto
    with begin_event_spec(3) [OF inv' b] q can show ?thesis by (auto simp: ProcessOneEvent_def)
  qed
  then show ?thesis
    using Cancel_not_pending [OF iss] Cancel_other [of _ eid s] inv' a by auto
qed

text \<open>
  An identifier that \<open>Schedule\<close> returned answers \<open>IsPending\<close> exactly when its event is
  still in the queue under its key and has not been cancelled, although \<open>IsExpired\<close> only
  compares time stamps and numbers with those of the current event.
\<close>

theorem pending_iff_queued:
  assumes "sim_inv s" and "issued s eid" and "id_impl eid = Some a"
  shows "IsPending s eid \<longleftrightarrow>
    map_of (m_events s) (id_key eid) = Some (id_context eid, a) \<and> \<not> IsCancelled s a"
  using assms by (rule IsPending_iff_queued)

end
