(* ===== verification/Simulator_Threads.thy ===== *)
theory Simulator_Threads
  imports Simulator
begin

text \<open>
  The engine among other threads (\<open>default-simulator-impl.cc\<close>). Only its own thread touches the
  event list. Another thread, a device that receives a packet from the outside for example, calls
  \<open>ScheduleWithContext\<close>, which appends to the queue \<open>m_eventsWithContext\<close> under a mutex and clears
  the flag \<open>m_eventsWithContextEmpty\<close>; after every event the engine reads the flag, swaps the queue
  for an empty one under the mutex and inserts what it took.

  \<open>mt_step\<close> interleaves the two sides. The thread that hands an event over makes two steps while it holds the
  mutex: it appends the event, then it clears the flag; the engine may read the flag in between, since it reads it
  without the mutex. The flag is a plain \<open>bool\<close> and the read a data race: it may return \<open>true\<close>, which
  the engine itself wrote before, at any time, also after another thread has cleared the flag; it returns \<open>false\<close> only
  when the flag is cleared. The swap of the queues, under the mutex, waits until no other thread holds it, and is
  atomic like the code between two of these points. The implementation of an event handed over gets its address when it is inserted; nobody
  can name it before, since \<open>ScheduleWithContext\<close> returns nothing.
\<close>

section \<open>State and operations\<close>

record 'e event_with_context =
  ew_context :: nat
  ew_timestamp :: uint64
  ew_event :: 'e

record 'e threads =
  th_sim :: "'e simulator"
  m_eventsWithContext :: "'e event_with_context list"
  m_eventsWithContextEmpty :: bool
  m_eventsWithContextMutex :: bool

text \<open>\<open>m_eventsWithContextMutex\<close> says that another thread holds the mutex.\<close>

definition threads_init :: "'e threads" where
  "threads_init = \<lparr>th_sim = DefaultSimulatorImpl, m_eventsWithContext = [], m_eventsWithContextEmpty = True,
     m_eventsWithContextMutex = False\<rparr>"

text \<open>The section of \<open>ScheduleWithContext\<close> under the mutex, and its two statements.\<close>

definition push_event :: "'e event_with_context \<Rightarrow> 'e threads \<Rightarrow> 'e threads" where
  "push_event e t = t\<lparr>m_eventsWithContext := m_eventsWithContext t @ [e], m_eventsWithContextMutex := True\<rparr>"

definition clear_flag :: "'e threads \<Rightarrow> 'e threads" where
  "clear_flag t = t\<lparr>m_eventsWithContextEmpty := False, m_eventsWithContextMutex := False\<rparr>"

definition hand_over :: "'e event_with_context \<Rightarrow> 'e threads \<Rightarrow> 'e threads" where
  "hand_over e t = clear_flag (push_event e t)"

lemmas hand_over_defs = hand_over_def push_event_def clear_flag_def

definition ScheduleWithContext :: "bool \<Rightarrow> nat \<Rightarrow> time \<Rightarrow> 'e \<Rightarrow> 'e threads \<Rightarrow> 'e threads res" where
  "ScheduleWithContext main_thread ctx delay ev t =
     (if main_thread
      then res_bind (insert_event (uint (word_of_int (delay + m_currentTs (th_sim t)) :: uint64)) ctx ev (th_sim t))
             (\<lambda>(_, sim). Inr (t\<lparr>th_sim := sim\<rparr>))
      else Inr (hand_over \<lparr>ew_context = ctx, ew_timestamp = word_of_int delay, ew_event = ev\<rparr> t))"

definition move_ts :: "time \<Rightarrow> 'e event_with_context \<Rightarrow> time" where
  "move_ts now e = uint (word_of_int now + ew_timestamp e)"

definition move_event :: "'e event_with_context \<Rightarrow> 'e simulator \<Rightarrow> 'e simulator res" where
  "move_event e s =
     res_bind (insert_event (move_ts (m_currentTs s) e) (ew_context e) (ew_event e) s) (\<lambda>(_, s'). Inr s')"

definition ProcessEventsWithContext :: "'e threads \<Rightarrow> 'e threads res" where
  "ProcessEventsWithContext t =
     (if m_eventsWithContextEmpty t then Inr t
      else res_bind (res_fold move_event (m_eventsWithContext t) (th_sim t)) (\<lambda>sim.
        Inr (t\<lparr>th_sim := sim, m_eventsWithContext := [], m_eventsWithContextEmpty := True\<rparr>)))"

definition mt_ProcessOneEvent ::
  "('e \<Rightarrow> 's \<times> 'e simulator \<Rightarrow> ('s \<times> 'e simulator) res) \<Rightarrow> 's \<times> 'e threads \<Rightarrow> ('s \<times> 'e threads) res" where
  "mt_ProcessOneEvent invoke st =
     res_bind (ProcessOneEvent invoke (fst st, th_sim (snd st))) (\<lambda>(s, sim).
       res_bind (ProcessEventsWithContext ((snd st)\<lparr>th_sim := sim\<rparr>)) (\<lambda>t. Inr (s, t)))"

partial_function (option) mt_Run_loop ::
  "('e \<Rightarrow> 's \<times> 'e simulator \<Rightarrow> ('s \<times> 'e simulator) res) \<Rightarrow>
   's \<times> 'e threads \<Rightarrow> ('s \<times> 'e threads) res option" where
  "mt_Run_loop invoke st =
     (if IsFinished (th_sim (snd st)) then Some (Inr st)
      else (case mt_ProcessOneEvent invoke st of
              Inl e \<Rightarrow> Some (Inl e)
            | Inr st' \<Rightarrow> mt_Run_loop invoke st'))"

text \<open>The consistency test at the end of \<open>Run\<close>.\<close>

definition run_check :: "'s \<times> 'e threads \<Rightarrow> ('s \<times> 'e threads) res" where
  "run_check st =
     abort_if (m_events (th_sim (snd st)) = [] \<and> m_unscheduledEvents (th_sim (snd st)) \<noteq> 0) LostEvents (Inr st)"

definition mt_Run ::
  "('e \<Rightarrow> 's \<times> 'e simulator \<Rightarrow> ('s \<times> 'e simulator) res) \<Rightarrow>
   's \<times> 'e threads \<Rightarrow> ('s \<times> 'e threads) res option" where
  "mt_Run invoke st =
     (case ProcessEventsWithContext (snd st) of
        Inl e \<Rightarrow> Some (Inl e)
      | Inr t \<Rightarrow> map_option (\<lambda>r. res_bind r run_check)
          (mt_Run_loop invoke (fst st, t\<lparr>th_sim := (th_sim t)\<lparr>m_stop := False\<rparr>\<rparr>)))"

text \<open>
  \<open>DoDispose\<close> moves the queued events, then takes every event out of the event list. \<open>Unref\<close> frees an
  implementation that no \<open>EventId\<close> refers to any more, which nobody can observe: the store keeps it.
\<close>

function drain :: "(ev_key \<times> nat \<times> nat) list \<Rightarrow> (ev_key \<times> nat \<times> nat) list res" where
  "drain q = (if q = [] then Inr q else
     (case map_RemoveNext q of Inl e \<Rightarrow> Inl e | Inr (_, q') \<Rightarrow> drain q'))"
  by pat_completeness auto

termination
  by (relation "measure length") (auto simp: map_RemoveNext_def split: list.splits)

declare drain.simps [simp del]

definition sim_DoDispose :: "'e threads \<Rightarrow> 'e threads res" where
  "sim_DoDispose t =
     res_bind (ProcessEventsWithContext t) (\<lambda>t1.
       res_bind (drain (m_events (th_sim t1))) (\<lambda>q.
         Inr (t1\<lparr>th_sim := (th_sim t1)\<lparr>m_events := q\<rparr>\<rparr>)))"

section \<open>Interleaving\<close>

text \<open>
  Where the engine's thread is: at the loop test, before the read of the flag, before the swap, with
  events it took still to insert, or out of \<open>Run\<close>.
\<close>

datatype 'e control = At_Loop | At_Flag | At_Swap | Moving "'e event_with_context list" | Left_Run

datatype 'e action =
    Handed time "'e event_with_context"
  | Moved time "'e event_with_context"
  | Ran ev_key
  | Silent

type_synonym ('s, 'e) mt_state = "'e control \<times> 's \<times> 'e threads"

inductive mt_step ::
  "('e \<Rightarrow> 's \<times> 'e simulator \<Rightarrow> ('s \<times> 'e simulator) res) \<Rightarrow>
   ('s, 'e) mt_state \<Rightarrow> 'e action \<Rightarrow> ('s, 'e) mt_state \<Rightarrow> bool" for invoke where
  other_push: "\<not> m_eventsWithContextMutex t \<Longrightarrow>
    mt_step invoke (c, s, t) (Handed (m_currentTs (th_sim t)) e) (c, s, push_event e t)"
| other_clear: "m_eventsWithContextMutex t \<Longrightarrow> mt_step invoke (c, s, t) Silent (c, s, clear_flag t)"
| one_event: "\<not> IsFinished (th_sim t) \<Longrightarrow> ProcessOneEvent invoke (s, th_sim t) = Inr (s', sim) \<Longrightarrow>
    mt_step invoke (At_Loop, s, t) (Ran (current_key sim)) (At_Flag, s', t\<lparr>th_sim := sim\<rparr>)"
| flag_set: "mt_step invoke (At_Flag, s, t) Silent (At_Loop, s, t)"
| flag_clear: "\<not> m_eventsWithContextEmpty t \<Longrightarrow> mt_step invoke (At_Flag, s, t) Silent (At_Swap, s, t)"
| swap: "\<not> m_eventsWithContextMutex t \<Longrightarrow> mt_step invoke (At_Swap, s, t) Silent
    (Moving (m_eventsWithContext t), s, t\<lparr>m_eventsWithContext := [], m_eventsWithContextEmpty := True\<rparr>)"
| move: "move_event e (th_sim t) = Inr sim \<Longrightarrow>
    mt_step invoke (Moving (e # es), s, t) (Moved (m_currentTs (th_sim t)) e) (Moving es, s, t\<lparr>th_sim := sim\<rparr>)"
| moved: "mt_step invoke (Moving [], s, t) Silent (At_Loop, s, t)"
| leave: "IsFinished (th_sim t) \<Longrightarrow> mt_step invoke (At_Loop, s, t) Silent (Left_Run, s, t)"

inductive_cases mt_stepE: "mt_step invoke st a st'"

inductive mt_run ::
  "('e \<Rightarrow> 's \<times> 'e simulator \<Rightarrow> ('s \<times> 'e simulator) res) \<Rightarrow>
   ('s, 'e) mt_state \<Rightarrow> 'e action list \<Rightarrow> ('s, 'e) mt_state \<Rightarrow> bool" for invoke where
  mt_refl: "mt_run invoke st [] st"
| mt_snoc: "mt_run invoke st tr st1 \<Longrightarrow> mt_step invoke st1 a st2 \<Longrightarrow> mt_run invoke st (tr @ [a]) st2"

text \<open>What was handed over and what was inserted, each with the time on the clock.\<close>

fun handed :: "'e action list \<Rightarrow> (time \<times> 'e event_with_context) list" where
  "handed [] = []"
| "handed (Handed n e # tr) = (n, e) # handed tr"
| "handed (_ # tr) = handed tr"

fun inserted :: "'e action list \<Rightarrow> (time \<times> 'e event_with_context) list" where
  "inserted [] = []"
| "inserted (Moved n e # tr) = (n, e) # inserted tr"
| "inserted (_ # tr) = inserted tr"

fun in_hand :: "'e control \<Rightarrow> 'e event_with_context list" where
  "in_hand (Moving es) = es"
| "in_hand _ = []"

definition backlog :: "('s, 'e) mt_state \<Rightarrow> 'e event_with_context list" where
  "backlog st = in_hand (fst st) @ m_eventsWithContext (snd (snd st))"

abbreviation mt_sim :: "('s, 'e) mt_state \<Rightarrow> 'e simulator" where
  "mt_sim st \<equiv> th_sim (snd (snd st))"

text \<open>No time stamp computed by the moves of a run exceeds 64 bits.\<close>

definition stamps_fit :: "'e action list \<Rightarrow> bool" where
  "stamps_fit tr \<longleftrightarrow> (\<forall>(n, e) \<in> set (inserted tr). 0 \<le> n \<and> n + uint (ew_timestamp e) < 2 ^ 64)"

lemma handed_append [simp]: "handed (tr @ tr') = handed tr @ handed tr'"
  by (induction tr rule: handed.induct) auto

lemma inserted_append [simp]: "inserted (tr @ tr') = inserted tr @ inserted tr'"
  by (induction tr rule: inserted.induct) auto

lemma stamps_fit_append [simp]: "stamps_fit (tr @ tr') \<longleftrightarrow> stamps_fit tr \<and> stamps_fit tr'"
  by (auto simp: stamps_fit_def)

section \<open>Laws\<close>

subsection \<open>The queue between the threads\<close>

text \<open>
  While a thread holds the mutex the queue is not empty, whatever the flag says; otherwise the flag says whether
  it is empty.
\<close>

definition flag_ok :: "'e threads \<Rightarrow> bool" where
  "flag_ok t \<longleftrightarrow>
     (if m_eventsWithContextMutex t then m_eventsWithContext t \<noteq> []
      else m_eventsWithContextEmpty t = (m_eventsWithContext t = []))"

lemma flag_ok_hand_over [simp]: "flag_ok (hand_over e t)"
  by (simp add: flag_ok_def hand_over_defs)

lemma step_flag: "mt_step invoke st a st' \<Longrightarrow> flag_ok (snd (snd st)) \<Longrightarrow> flag_ok (snd (snd st'))"
  by (erule mt_stepE) (auto simp: flag_ok_def hand_over_defs)

lemma step_backlog:
  "mt_step invoke st a st' \<Longrightarrow>
    backlog st @ map snd (handed [a]) = map snd (inserted [a]) @ backlog st'"
  by (erule mt_stepE) (auto simp: backlog_def hand_over_defs)

lemma run_backlog:
  "mt_run invoke st tr st' \<Longrightarrow>
    backlog st @ map snd (handed tr) = map snd (inserted tr) @ backlog st'"
proof (induction rule: mt_run.induct)
  case (mt_snoc st tr st1 a st2)
  from mt_snoc.IH step_backlog [OF mt_snoc.hyps(2)] show ?case
    by (metis append.assoc handed_append inserted_append map_append)
qed simp

lemma run_flag: "mt_run invoke st tr st' \<Longrightarrow> flag_ok (snd (snd st)) \<Longrightarrow> flag_ok (snd (snd st'))"
  by (induction rule: mt_run.induct) (auto dest: step_flag)

subsection \<open>Moving events\<close>

lemma move_ts_fits:
  assumes "0 \<le> now" and "now + uint (ew_timestamp e) < 2 ^ 64"
  shows "move_ts now e = now + uint (ew_timestamp e)"
  using assms by (simp add: move_ts_def uint_word_ariths uint_word_of_int take_bit_eq_mod mod_add_left_eq)

lemma move_event_total:
  assumes "sim_inv s"
  shows "\<exists>s'. move_event e s = Inr s'"
  by (simp add: move_event_def insert_event_eq [OF assms])

lemma move_event_creates: "move_event e s = Inr s' \<Longrightarrow> m_nextImpl s' = Suc (m_nextImpl s)"
  by (auto simp: move_event_def dest: insert_event_nextImpl split: prod.splits)

lemma move_event_clock: "move_event e s = Inr s' \<Longrightarrow> current_key s' = current_key s"
  by (auto simp: move_event_def insert_event_def map_Insert_def Let_def current_key_def split: prod.splits if_splits)

lemma move_event_inv:
  assumes "sim_inv s" and "move_event e s = Inr s'" and "few_events s'"
    and "0 \<le> m_currentTs s" and "m_currentTs s + uint (ew_timestamp e) < 2 ^ 64"
  shows "sim_inv s'"
  using assms move_ts_fits [OF assms(4,5)]
    insert_event_inv [OF assms(1,3), of "move_ts (m_currentTs s) e"]
  by (auto simp: move_event_def split: prod.splits)

subsection \<open>The engine under interleaving\<close>

text \<open>
  The clock when an event is handed over is never past the clock when it is inserted: the \<open>i\<close>-th event
  handed over is the \<open>i\<close>-th inserted.
\<close>

definition on_time :: "'e action list \<Rightarrow> time \<Rightarrow> bool" where
  "on_time tr now \<longleftrightarrow>
     (\<forall>(n, e) \<in> set (handed tr). n \<le> now) \<and>
     (\<forall>i < length (inserted tr). i < length (handed tr) \<longrightarrow> fst (handed tr ! i) \<le> fst (inserted tr ! i))"

lemma on_time_later: "on_time tr now \<Longrightarrow> now \<le> now' \<Longrightarrow> on_time tr now'"
  by (fastforce simp: on_time_def)

lemma on_time_handed: "on_time tr now \<Longrightarrow> length (inserted tr) \<le> length (handed tr) \<Longrightarrow>
    on_time (tr @ [Handed now e]) now"
  by (auto simp: on_time_def nth_append)

lemma on_time_moved: "on_time tr now \<Longrightarrow> on_time (tr @ [Moved now e]) now"
  unfolding on_time_def by (auto simp: nth_append less_Suc_eq all_set_conv_all_nth split_beta)

lemma on_time_silent [simp]:
  "on_time (tr @ [Silent]) now = on_time tr now" "on_time (tr @ [Ran k]) now = on_time tr now"
  by (simp_all add: on_time_def)

context event_handler
begin

lemma step_creates:
  assumes "mt_step invoke st a st'"
  shows "m_nextImpl (mt_sim st) \<le> m_nextImpl (mt_sim st')"
  using assms
proof (cases rule: mt_step.cases)
  case (one_event t s s' sim)
  then show ?thesis using process_creates [OF one_event(5)] by simp
qed (auto simp: hand_over_defs dest: move_event_creates)

lemma step_spec:
  assumes "mt_step invoke st a st'" and "sim_inv (mt_sim st)" and "few_events (mt_sim st')" and "stamps_fit [a]"
  shows "sim_inv (mt_sim st') \<and> m_currentTs (mt_sim st) \<le> m_currentTs (mt_sim st')"
  using assms
proof (cases rule: mt_step.cases)
  case (one_event t s s' sim)
  then have "sim_inv sim" and "current_key (th_sim t) < current_key sim"
    using process_spec [of "(s, th_sim t)" "(s', sim)"] assms(2,3) by auto
  then show ?thesis using one_event by (auto simp: current_key_def less_ev_key_def)
next
  case (move e t sim es s)
  then have "sim_inv sim"
    using move_event_inv [of "th_sim t" e sim] assms(2-4) by (auto simp: stamps_fit_def)
  moreover have "current_key sim = current_key (th_sim t)" using move by (auto dest: move_event_clock)
  ultimately show ?thesis using move by (simp add: current_key_def)
qed (auto simp: hand_over_defs)

lemma run_spec:
  "mt_run invoke st tr st' \<Longrightarrow> sim_inv (mt_sim st) \<Longrightarrow> few_events (mt_sim st') \<Longrightarrow> stamps_fit tr \<Longrightarrow>
    backlog st = [] \<Longrightarrow>
    sim_inv (mt_sim st') \<and> m_currentTs (mt_sim st) \<le> m_currentTs (mt_sim st') \<and>
    on_time tr (m_currentTs (mt_sim st'))"
proof (induction rule: mt_run.induct)
  case (mt_refl st)
  then show ?case by (simp add: on_time_def)
next
  case (mt_snoc st tr st1 a st2)
  have "few_events (mt_sim st1)"
    using step_creates [OF mt_snoc.hyps(2)] mt_snoc.prems(2) by (simp add: few_events_def)
  with mt_snoc have IH: "sim_inv (mt_sim st1)" "m_currentTs (mt_sim st) \<le> m_currentTs (mt_sim st1)"
    "on_time tr (m_currentTs (mt_sim st1))" by auto
  have step: "sim_inv (mt_sim st2)" "m_currentTs (mt_sim st1) \<le> m_currentTs (mt_sim st2)"
    using step_spec [OF mt_snoc.hyps(2) IH(1) mt_snoc.prems(2)] mt_snoc.prems(3) by auto
  have "length (inserted tr) \<le> length (handed tr)"
    using arg_cong [OF run_backlog [OF mt_snoc.hyps(1)], of length] mt_snoc.prems(4) by simp
  then have "on_time (tr @ [a]) (m_currentTs (mt_sim st1))"
    using mt_snoc.hyps(2) IH(3)
    by (cases rule: mt_stepE) (auto intro: on_time_handed on_time_moved)
  with on_time_later step IH(2) show ?case by fastforce
qed

text \<open>
  Whatever other threads do, the invariant holds, the clock does not go back, events are inserted in the
  order and not before the time they were handed over, and the consistency test of \<open>Run\<close> passes.
\<close>

lemma interleaved_run:
  assumes "mt_run invoke st tr st'" and "sim_inv (mt_sim st)" and "few_events (mt_sim st')"
    and "stamps_fit tr" and "backlog st = []"
  shows "sim_inv (mt_sim st') \<and> Now (mt_sim st) \<le> Now (mt_sim st') \<and>
    (\<forall>i < length (inserted tr). i < length (handed tr) \<and>
      snd (inserted tr ! i) = snd (handed tr ! i) \<and> fst (handed tr ! i) \<le> fst (inserted tr ! i)) \<and>
    (m_events (mt_sim st') = [] \<longrightarrow> m_unscheduledEvents (mt_sim st') = 0)"
proof -
  note sp = run_spec [OF assms]
  have b: "map snd (handed tr) = map snd (inserted tr) @ backlog st'"
    using run_backlog [OF assms(1)] assms(5) by simp
  have len: "length (inserted tr) \<le> length (handed tr)"
    using arg_cong [OF b, of length] by simp
  have "snd (inserted tr ! i) = snd (handed tr ! i)" if "i < length (inserted tr)" for i
    using arg_cong [OF b, of "\<lambda>l. l ! i"] that len by (simp add: nth_append)
  then show ?thesis using sp len sim_inv_D(7) [of "mt_sim st'"] by (auto simp: on_time_def Now_def)
qed

text \<open>
  The engine's thread never aborts between two events. It only waits for the mutex, whose holder can go on.
\<close>

lemma thread_progress:
  assumes "sim_inv (th_sim t)" and "c \<noteq> At_Loop" and "c \<noteq> Left_Run"
  shows "\<exists>a c' t'. mt_step invoke (c, s, t) a (c', s, t') \<and> handed [a] = []"
proof (cases c)
  case At_Flag
  then show ?thesis using flag_set [of invoke s t] by (auto intro!: exI [of _ Silent])
next
  case At_Swap
  then show ?thesis using swap [of t invoke s] other_clear [of t invoke c s]
    by (cases "m_eventsWithContextMutex t") (auto intro!: exI [of _ Silent])
next
  case (Moving es)
  show ?thesis
  proof (cases es)
    case Nil
    then show ?thesis using Moving moved [of invoke s t] by (auto intro!: exI [of _ Silent])
  next
    case (Cons e es')
    with Moving move_event_total [OF assms(1), of e] show ?thesis by (metis move handed.simps(1,3))
  qed
qed (use assms in simp_all)

end

subsection \<open>What a move of the whole queue does\<close>

text \<open>The entries of the event list for \<open>es\<close>, numbered from \<open>u\<close> and stored from address \<open>a\<close> on.\<close>

fun moved_entries :: "time \<Rightarrow> nat \<Rightarrow> nat \<Rightarrow> 'e event_with_context list \<Rightarrow> (ev_key \<times> nat \<times> nat) list" where
  "moved_entries now u a [] = []"
| "moved_entries now u a (e # es) =
     (EvKey (now + uint (ew_timestamp e)) u, ew_context e, a) # moved_entries now (Suc u) (Suc a) es"

definition queue_fits :: "'e simulator \<Rightarrow> 'e event_with_context list \<Rightarrow> bool" where
  "queue_fits s es \<longleftrightarrow> 0 \<le> m_currentTs s \<and>
     (\<forall>e \<in> set es. m_currentTs s + uint (ew_timestamp e) < 2 ^ 64) \<and>
     m_nextImpl s + length es + UID_VALID < 2 ^ 32"

lemma move_event_spec:
  assumes inv: "sim_inv s" and fits: "queue_fits s (e # es)"
  shows "\<exists>s'. move_event e s = Inr s' \<and> sim_inv s' \<and> queue_fits s' es \<and> current_key s' = current_key s \<and>
    m_uid s' = Suc (m_uid s) \<and> m_nextImpl s' = Suc (m_nextImpl s) \<and>
    mset (m_events s') = add_mset (EvKey (m_currentTs s + uint (ew_timestamp e)) (m_uid s), ew_context e, m_nextImpl s)
      (mset (m_events s)) \<and>
    m_impls s' = (m_impls s)(m_nextImpl s \<mapsto> \<lparr>m_cancel = False, m_notify = ew_event e\<rparr>)"
proof -
  have ts: "move_ts (m_currentTs s) e = m_currentTs s + uint (ew_timestamp e)"
    using fits by (intro move_ts_fits) (auto simp: queue_fits_def)
  from move_event_total [OF inv] obtain s' where s': "move_event e s = Inr s'" by blast
  have nxt: "m_nextImpl s' = Suc (m_nextImpl s)" by (rule move_event_creates [OF s'])
  then have few: "few_events s'" using fits by (simp add: few_events_def queue_fits_def)
  have inv': "sim_inv s'"
    using move_event_inv [OF inv s' few] fits by (auto simp: queue_fits_def)
  have cur: "current_key s' = current_key s" by (rule move_event_clock [OF s'])
  then have "m_currentTs s' = m_currentTs s" by (simp add: current_key_def)
  then have "queue_fits s' es" using fits nxt by (auto simp: queue_fits_def)
  moreover have "m_uid s' = Suc (m_uid s)"
    using sim_inv_D(5) [OF inv] sim_inv_D(5) [OF inv'] nxt by simp
  ultimately show ?thesis
    using s' inv' nxt cur
    by (auto simp: move_event_def insert_event_eq [OF inv] ts mset_smap_upd_fresh [OF uid_fresh [OF inv]])
qed

lemma moves_spec:
  assumes "sim_inv s" and "queue_fits s es"
  shows "\<exists>s'. res_fold move_event es s = Inr s' \<and> sim_inv s' \<and> current_key s' = current_key s \<and>
    mset (m_events s') = mset (m_events s) + mset (moved_entries (m_currentTs s) (m_uid s) (m_nextImpl s) es) \<and>
    (\<forall>a < m_nextImpl s. m_impls s' a = m_impls s a) \<and>
    (\<forall>i < length es. m_impls s' (m_nextImpl s + i) = Some \<lparr>m_cancel = False, m_notify = ew_event (es ! i)\<rparr>)"
  using assms
proof (induction es arbitrary: s)
  case (Cons e es)
  from move_event_spec [OF Cons.prems] obtain s1 where s1: "move_event e s = Inr s1" "sim_inv s1"
    "queue_fits s1 es" "current_key s1 = current_key s" "m_uid s1 = Suc (m_uid s)"
    "m_nextImpl s1 = Suc (m_nextImpl s)"
    "mset (m_events s1) = add_mset (EvKey (m_currentTs s + uint (ew_timestamp e)) (m_uid s), ew_context e, m_nextImpl s)
      (mset (m_events s))"
    "m_impls s1 = (m_impls s)(m_nextImpl s \<mapsto> \<lparr>m_cancel = False, m_notify = ew_event e\<rparr>)" by blast
  from Cons.IH [OF s1(2,3)] obtain s' where s': "res_fold move_event es s1 = Inr s'" "sim_inv s'"
    "current_key s' = current_key s1"
    "mset (m_events s') = mset (m_events s1) + mset (moved_entries (m_currentTs s1) (m_uid s1) (m_nextImpl s1) es)"
    "\<forall>a < m_nextImpl s1. m_impls s' a = m_impls s1 a"
    "\<forall>i < length es. m_impls s' (m_nextImpl s1 + i) = Some \<lparr>m_cancel = False, m_notify = ew_event (es ! i)\<rparr>"
    by blast
  have "m_impls s' (m_nextImpl s + i) = Some \<lparr>m_cancel = False, m_notify = ew_event ((e # es) ! i)\<rparr>"
    if "i < length (e # es)" for i
    using that s'(5,6) s1(6,8) by (cases i) auto
  moreover have "m_currentTs s1 = m_currentTs s" using s1(4) by (simp add: current_key_def)
  ultimately show ?case using s1 s' by simp
qed (auto simp: sim_inv_def)

subsection \<open>A run without other threads\<close>

text \<open>The engine's own functions are runs of the interleaving in which nothing is handed over.\<close>

lemma mt_run_trans: "mt_run invoke st2 tr2 st3 \<Longrightarrow> mt_run invoke st1 tr1 st2 \<Longrightarrow> mt_run invoke st1 (tr1 @ tr2) st3"
proof (induction rule: mt_run.induct)
  case (mt_snoc st tr sta a stb)
  then show ?case using mt_run.mt_snoc by (metis append.assoc)
qed simp

lemma mt_run_step: "mt_step invoke st1 a st2 \<Longrightarrow> mt_run invoke st2 tr st3 \<Longrightarrow> mt_run invoke st1 (a # tr) st3"
  using mt_run_trans [of invoke st2 tr st3 st1 "[] @ [a]"] mt_snoc [OF mt_refl, of invoke st1 a st2] by simp

text \<open>A whole call of another thread.\<close>

lemma hand_over_run:
  assumes "\<not> m_eventsWithContextMutex t" and "mt_run invoke (c, s, hand_over e t) tr st'"
  shows "mt_run invoke (c, s, t) (Handed (m_currentTs (th_sim t)) e # Silent # tr) st'"
  using assms mt_run_step [OF mt_step.other_push mt_run_step [OF mt_step.other_clear]]
  by (simp add: hand_over_def push_event_def)

lemma moves_run:
  "res_fold move_event es (th_sim t) = Inr sim \<Longrightarrow>
    \<exists>tr. mt_run invoke (Moving es, s, t) tr (At_Loop, s, t\<lparr>th_sim := sim\<rparr>) \<and> handed tr = [] \<and>
      inserted tr = map (Pair (Now (th_sim t))) es"
proof (induction es arbitrary: t)
  case Nil
  then have "mt_run invoke (Moving [], s, t) [Silent] (At_Loop, s, t\<lparr>th_sim := sim\<rparr>)"
    using mt_run_step [OF mt_step.moved mt_refl] by auto
  then show ?case by force
next
  case (Cons e es)
  then obtain sim1 where m: "move_event e (th_sim t) = Inr sim1" "res_fold move_event es sim1 = Inr sim"
    by (auto simp: res_bind_def split: sum.splits)
  have now: "Now sim1 = Now (th_sim t)" using move_event_clock [OF m(1)] by (simp add: Now_def current_key_def)
  from Cons.IH [of "t\<lparr>th_sim := sim1\<rparr>"] m(2) now obtain tr where
    tr: "mt_run invoke (Moving es, s, t\<lparr>th_sim := sim1\<rparr>) tr (At_Loop, s, t\<lparr>th_sim := sim\<rparr>)" "handed tr = []"
      "inserted tr = map (Pair (Now (th_sim t))) es"
    by auto
  from mt_run_step [OF mt_step.move [OF m(1)] tr(1)] tr(2,3) show ?case
    by (metis Now_def handed.simps(3) inserted.simps(2) list.simps(9))
qed

lemma process_run:
  assumes "ProcessEventsWithContext t = Inr t'" and "flag_ok t" and "\<not> m_eventsWithContextMutex t"
  shows "\<exists>tr. mt_run invoke (At_Flag, s, t) tr (At_Loop, s, t') \<and> handed tr = [] \<and>
    inserted tr = map (Pair (Now (th_sim t))) (m_eventsWithContext t)"
proof (cases "m_eventsWithContextEmpty t")
  case True
  with assms have "mt_run invoke (At_Flag, s, t) [Silent] (At_Loop, s, t')" "m_eventsWithContext t = []"
    using mt_run_step [OF mt_step.flag_set mt_refl] by (auto simp: ProcessEventsWithContext_def flag_ok_def)
  then show ?thesis by force
next
  case False
  let ?t = "t\<lparr>m_eventsWithContext := [], m_eventsWithContextEmpty := True\<rparr>"
  from assms(1) False obtain sim where "res_fold move_event (m_eventsWithContext t) (th_sim ?t) = Inr sim"
    and t': "t' = ?t\<lparr>th_sim := sim\<rparr>"
    by (auto simp: ProcessEventsWithContext_def res_bind_def split: sum.splits)
  from moves_run [OF this(1), of invoke s] obtain tr where
    tr: "mt_run invoke (Moving (m_eventsWithContext t), s, ?t) tr (At_Loop, s, t')" "handed tr = []"
      "inserted tr = map (Pair (Now (th_sim t))) (m_eventsWithContext t)"
    using t' by auto
  have "mt_run invoke (At_Flag, s, t) (Silent # Silent # tr) (At_Loop, s, t')"
    by (rule mt_run_step [OF mt_step.flag_clear [OF False] mt_run_step [OF mt_step.swap [OF assms(3)] tr(1)]])
  with tr(2,3) show ?thesis by (metis handed.simps(5) inserted.simps(5))
qed

lemma one_event_run:
  assumes "\<not> IsFinished (th_sim t)" and "mt_ProcessOneEvent invoke (s, t) = Inr (s', t')" and "flag_ok t"
    and "\<not> m_eventsWithContextMutex t"
  shows "\<exists>tr. mt_run invoke (At_Loop, s, t) tr (At_Loop, s', t') \<and> handed tr = []"
proof -
  from assms(2) obtain sim where sim: "ProcessOneEvent invoke (s, th_sim t) = Inr (s', sim)"
    and p: "ProcessEventsWithContext (t\<lparr>th_sim := sim\<rparr>) = Inr t'"
    by (auto simp: mt_ProcessOneEvent_def res_bind_def split: sum.splits)
  have "flag_ok (t\<lparr>th_sim := sim\<rparr>)" "\<not> m_eventsWithContextMutex (t\<lparr>th_sim := sim\<rparr>)"
    using assms(3,4) by (simp_all add: flag_ok_def)
  from process_run [OF p this, of invoke s'] obtain tr where
    "mt_run invoke (At_Flag, s', t\<lparr>th_sim := sim\<rparr>) tr (At_Loop, s', t')" "handed tr = []" by blast
  then have "mt_run invoke (At_Loop, s, t) (Ran (current_key sim) # tr) (At_Loop, s', t') \<and>
      handed (Ran (current_key sim) # tr) = []"
    using mt_run_step [OF mt_step.one_event [OF assms(1) sim]] by simp
  then show ?thesis by blast
qed

lemma drain_empty: "drain q = Inr []"
proof (induction q)
  case (Cons e q)
  then show ?case by (subst drain.simps) (simp add: map_RemoveNext_def)
qed (simp add: drain.simps)

lemma sim_DoDispose_empties:
  "ProcessEventsWithContext t = Inr t1 \<Longrightarrow>
    sim_DoDispose t = Inr (t1\<lparr>th_sim := (th_sim t1)\<lparr>m_events := []\<rparr>\<rparr>)"
  by (simp add: sim_DoDispose_def drain_empty)

text \<open>While the flag is set, \<open>Run\<close> is the loop of the engine alone.\<close>

definition alone :: "'e threads \<Rightarrow> ('s \<times> 'e simulator) res \<Rightarrow> ('s \<times> 'e threads) res" where
  "alone t r = res_bind r (\<lambda>(s, sim). Inr (s, t\<lparr>th_sim := sim\<rparr>))"

lemma mt_ProcessOneEvent_alone:
  "m_eventsWithContextEmpty t \<Longrightarrow>
    mt_ProcessOneEvent invoke (s, t) = alone t (ProcessOneEvent invoke (s, th_sim t))"
  by (auto simp: mt_ProcessOneEvent_def alone_def ProcessEventsWithContext_def res_bind_def
      split: sum.split prod.split)

lemma mt_Run_loop_alone1:
  assumes run: "Run_loop invoke st = Some r" and t: "m_eventsWithContextEmpty t"
  shows "mt_Run_loop invoke (fst st, t\<lparr>th_sim := snd st\<rparr>) = Some (alone t r)"
proof (rule Run_loop.raw_induct [OF _ run, where P = "\<lambda>invoke st r.
    mt_Run_loop invoke (fst st, t\<lparr>th_sim := snd st\<rparr>) = Some (alone t r)"], goal_cases)
  case (1 loop invoke st r)
  then show ?case using t
    by (subst mt_Run_loop.simps)
      (auto simp: mt_ProcessOneEvent_alone alone_def split_beta split: if_splits sum.splits)
qed

lemma mt_Run_loop_alone2:
  assumes run: "mt_Run_loop invoke st = Some r" and flag: "m_eventsWithContextEmpty (snd st)"
  shows "\<exists>r'. Run_loop invoke (fst st, th_sim (snd st)) = Some r'"
proof (rule mt_Run_loop.raw_induct [OF _ run, where P = "\<lambda>invoke st r. m_eventsWithContextEmpty (snd st) \<longrightarrow>
    (\<exists>r'. Run_loop invoke (fst st, th_sim (snd st)) = Some r')", THEN mp, OF _ flag], intro impI, goal_cases)
  case (1 loop invoke st r)
  obtain s t where st: "st = (s, t)" by force
  show ?case
  proof (cases "IsFinished (th_sim t) \<or> (\<exists>e. ProcessOneEvent invoke (s, th_sim t) = Inl e)")
    case True
    then show ?thesis by (subst Run_loop.simps) (auto simp: st)
  next
    case False
    then obtain s' sim where p: "ProcessOneEvent invoke (s, th_sim t) = Inr (s', sim)"
      by (metis obj_sumE surj_pair)
    with 1 False have "loop invoke (s', t\<lparr>th_sim := sim\<rparr>) = Some r"
      by (simp add: st mt_ProcessOneEvent_alone alone_def)
    from 1(1) [OF this] 1(3) obtain r' where "Run_loop invoke (s', sim) = Some r'" by (auto simp: st)
    with p False show ?thesis by (subst Run_loop.simps) (simp add: st)
  qed
qed

lemma mt_Run_loop_alone:
  assumes "m_eventsWithContextEmpty t"
  shows "mt_Run_loop invoke (s, t) = map_option (alone t) (Run_loop invoke (s, th_sim t))"
proof (cases "Run_loop invoke (s, th_sim t)")
  case None
  with mt_Run_loop_alone2 [of invoke "(s, t)"] assms have "mt_Run_loop invoke (s, t) = None"
    by (cases "mt_Run_loop invoke (s, t)") auto
  with None show ?thesis by simp
next
  case (Some r)
  with mt_Run_loop_alone1 [OF Some assms] show ?thesis by simp
qed

section \<open>Properties\<close>


text \<open>
  \<open>ProcessEventsWithContext\<close> empties the queue and adds to the event list exactly one entry per queued
  event, under its own context, numbered in the order of arrival and timed from the clock at the move; the
  events scheduled before stay, none is cancelled, and the engine stays well formed.
\<close>

lemma queued_events_inserted:
  assumes "sim_inv (th_sim t)" and "flag_ok t" and "queue_fits (th_sim t) (m_eventsWithContext t)"
    and "\<not> m_eventsWithContextMutex t"
  shows "\<exists>t'. ProcessEventsWithContext t = Inr t' \<and> m_eventsWithContext t' = [] \<and> m_eventsWithContextEmpty t' \<and>
    sim_inv (th_sim t') \<and> current_key (th_sim t') = current_key (th_sim t) \<and>
    mset (m_events (th_sim t')) = mset (m_events (th_sim t)) +
      mset (moved_entries (Now (th_sim t)) (m_uid (th_sim t)) (m_nextImpl (th_sim t)) (m_eventsWithContext t)) \<and>
    (\<forall>i < length (m_eventsWithContext t). m_impls (th_sim t') (m_nextImpl (th_sim t) + i) =
      Some \<lparr>m_cancel = False, m_notify = ew_event (m_eventsWithContext t ! i)\<rparr>)"
proof (cases "m_eventsWithContextEmpty t")
  case True
  with assms(2,4) have "m_eventsWithContext t = []" by (simp add: flag_ok_def)
  with True assms(1) show ?thesis by (simp add: ProcessEventsWithContext_def)
next
  case False
  with moves_spec [OF assms(1,3)] show ?thesis by (auto simp: ProcessEventsWithContext_def Now_def)
qed

definition one_queued :: "string threads" where
  "one_queued = hand_over \<lparr>ew_context = 7, ew_timestamp = 5, ew_event = ''x''\<rparr> threads_init"

lemma one_queued_ok:
  "sim_inv (th_sim one_queued)" "flag_ok one_queued" "queue_fits (th_sim one_queued) (m_eventsWithContext one_queued)"
  "\<not> m_eventsWithContextMutex one_queued" "backlog (At_Flag, (), threads_init) = []" "flag_ok threads_init"
  using sim_inv_init
  by (simp_all add: one_queued_def hand_over_defs threads_init_def queue_fits_def UID_VALID_def backlog_def flag_ok_def)
    (simp_all add: DefaultSimulatorImpl_def)


end
