(* ===== verification/Engine_Methods.thy ===== *)
theory Engine_Methods
  imports Simulator_Threads
begin

text \<open>
  Methods of objects that live beside the event engine: functions from a pair of the objects' state and the
  engine to a result. \<open>sched\<close>, \<open>cancel_id\<close> and \<open>cancel_pending\<close> are the calls such a method makes;
  \<open>engine_safe\<close> says what it does to the engine: it only creates events, keeps the clock, the invariant and
  what is known of the identifiers others hold. The rules in \<open>engine_intro\<close> derive it for a method from its
  text, and \<open>engine_safe_handler\<close> turns it into the contract \<open>event_handler\<close> of a dispatcher.
\<close>

definition on_world :: "('s \<Rightarrow> 's) \<Rightarrow> 's \<times> 'e simulator \<Rightarrow> 's \<times> 'e simulator" where
  "on_world f st = (f (fst st), snd st)"

definition sched :: 
  "time \<Rightarrow> 'e \<Rightarrow> (event_id \<Rightarrow> 's \<Rightarrow> 's) \<Rightarrow> 's \<times> 'e simulator \<Rightarrow> ('s \<times> 'e simulator) res" where
  "sched delay ev k st =
     res_bind (Schedule delay ev (snd st)) (\<lambda>(eid, s). Inr (k eid (fst st), s))"

definition cancel_id :: "event_id \<Rightarrow> 's \<times> 'e simulator \<Rightarrow> 's \<times> 'e simulator" where
  "cancel_id eid st = (fst st, Cancel eid (snd st))"

definition cancel_pending :: "event_id \<Rightarrow> 's \<times> 'e simulator \<Rightarrow> 's \<times> 'e simulator" where
  "cancel_pending eid st = (if IsPending (snd st) eid then cancel_id eid st else st)"

definition now_of :: "'s \<times> 'e simulator \<Rightarrow> time" where
  "now_of st = Now (snd st)"

section \<open>What a method does to the engine\<close>

named_theorems engine_intro \<open>rules that compose methods that treat the engine well\<close>

definition engine_ext :: "'e simulator \<Rightarrow> 'e simulator \<Rightarrow> bool" where
  "engine_ext s s' \<longleftrightarrow>
     m_nextImpl s \<le> m_nextImpl s' \<and>
     (sim_inv s \<longrightarrow> few_events s' \<longrightarrow>
        sim_inv s' \<and> current_key s' = current_key s \<and> (\<forall>e. issued s e \<longrightarrow> issued s' e))"

definition engine_safe :: "('s \<times> 'e simulator \<Rightarrow> ('s \<times> 'e simulator) res) \<Rightarrow> bool" where
  "engine_safe f \<longleftrightarrow> (\<forall>st st'. f st = Inr st' \<longrightarrow> engine_ext (snd st) (snd st'))"

lemma engine_ext_refl [simp, intro]: "engine_ext s s"
  by (simp add: engine_ext_def)

lemma engine_ext_trans:
  assumes "engine_ext s s'" and "engine_ext s' s''"
  shows "engine_ext s s''"
proof -
  have "m_nextImpl s' \<le> m_nextImpl s''" using assms(2) by (simp add: engine_ext_def)
  then have "few_events s'' \<Longrightarrow> few_events s'" by (simp add: few_events_def)
  then show ?thesis using assms by (auto simp: engine_ext_def)
qed

lemma engine_ext_Schedule: "Schedule delay ev s = Inr (eid, s') \<Longrightarrow> engine_ext s s'"
  unfolding engine_ext_def
  using Schedule_nextImpl [of delay ev s eid s'] Schedule_inv [of s s' delay ev eid]
    Schedule_frame(1) [of s delay ev eid s'] Schedule_keeps_issued(1) [of s _ delay ev eid s']
  by auto

lemma Cancel_frame [simp]:
  "m_nextImpl (Cancel eid s) = m_nextImpl s"
  "current_key (Cancel eid s) = current_key s"
  "Now (Cancel eid s) = Now s"
  by (simp_all add: Cancel_def Now_def split: option.splits)

lemma engine_ext_Cancel [simp, intro]: "engine_ext s (Cancel eid s)"
  by (simp add: engine_ext_def Cancel_inv Cancel_keeps_issued)

lemma engine_ext_Now:
  assumes "engine_ext s s'" and "sim_inv s" and "few_events s'"
  shows "Now s' = Now s"
  using assms by (simp add: engine_ext_def current_key_def Now_def)

text \<open>A method's schedule succeeds; its event is pending and nothing else changes.\<close>

lemma sched_total:
  assumes "sim_inv (snd st)" and "0 \<le> delay" and "Suc (m_nextImpl (snd st)) + UID_VALID < 2 ^ 32"
  obtains st' eid where "sched delay ev k st = Inr st'" and "fst st' = k eid (fst st)"
    and "sim_inv (snd st')" and "issued (snd st') eid" and "IsPending (snd st') eid"
    and "GetDelayLeft (snd st') eid = delay" and "Now (snd st') = Now (snd st)"
    and "m_nextImpl (snd st') = Suc (m_nextImpl (snd st))"
    and "id_impl eid = Some (m_nextImpl (snd st))"
    and "\<forall>e0. issued (snd st) e0 \<longrightarrow> issued (snd st') e0 \<and> IsPending (snd st') e0 = IsPending (snd st) e0"
proof -
  from Schedule_total [OF assms, of ev] obtain eid s' where
    sch: "Schedule delay ev (snd st) = Inr (eid, s')" and
    r: "sim_inv s'" "IsPending s' eid" "GetDelayLeft s' eid = delay" "Now s' = Now (snd st)"
      "\<forall>e0. issued (snd st) e0 \<longrightarrow> issued s' e0 \<and> IsPending s' e0 = IsPending (snd st) e0"
    by blast
  show thesis
    using that [of "(k eid (fst st), s')" eid] r sch Schedule_issued(1,4) [OF assms(1) sch]
      Schedule_nextImpl [OF sch] by (simp add: sched_def)
qed

lemma sched_impls:
  assumes "sched delay ev k st = Inr st'"
  shows "m_nextImpl (snd st') = Suc (m_nextImpl (snd st))"
    and "m_impls (snd st') = (m_impls (snd st))(m_nextImpl (snd st) \<mapsto> \<lparr>m_cancel = False, m_notify = ev\<rparr>)"
  using assms by (auto simp: sched_def Schedule_def insert_event_def Let_def map_Insert_def abort_if_def split: if_splits)

text \<open>The events created between two states of the engine, in order.\<close>

definition new_events :: "'e simulator \<Rightarrow> 'e simulator \<Rightarrow> 'e list" where
  "new_events s s' = map (\<lambda>a. m_notify (the (m_impls s' a))) [m_nextImpl s..<m_nextImpl s']"

definition keeps_impls :: "'e simulator \<Rightarrow> 'e simulator \<Rightarrow> bool" where
  "keeps_impls s s' \<longleftrightarrow> m_nextImpl s \<le> m_nextImpl s' \<and> (\<forall>a<m_nextImpl s. m_impls s' a = m_impls s a)"

lemma new_events_refl [simp]: "new_events s s = []"
  by (simp add: new_events_def)

lemma keeps_impls_refl [simp]: "keeps_impls s s"
  by (simp add: keeps_impls_def)

lemma keeps_impls_trans: "keeps_impls s s' \<Longrightarrow> keeps_impls s' s'' \<Longrightarrow> keeps_impls s s''"
  by (auto simp: keeps_impls_def)

lemma new_events_append:
  assumes "keeps_impls s s'" and "keeps_impls s' s''"
  shows "new_events s s'' = new_events s s' @ new_events s' s''"
proof -
  have "[m_nextImpl s..<m_nextImpl s''] = [m_nextImpl s..<m_nextImpl s'] @ [m_nextImpl s'..<m_nextImpl s'']"
    using assms upt_add_eq_append [of "m_nextImpl s" "m_nextImpl s'" "m_nextImpl s'' - m_nextImpl s'"]
    by (simp add: keeps_impls_def)
  then show ?thesis using assms by (auto simp: new_events_def keeps_impls_def)
qed

lemma sched_new_events:
  assumes "sched delay ev k st = Inr st'"
  shows "keeps_impls (snd st) (snd st')" and "new_events (snd st) (snd st') = [ev]"
  using sched_impls [OF assms] by (auto simp: keeps_impls_def new_events_def)

lemma engine_safeI: "(\<And>st st'. f st = Inr st' \<Longrightarrow> engine_ext (snd st) (snd st')) \<Longrightarrow> engine_safe f"
  unfolding engine_safe_def by blast

lemma engine_safeD: "engine_safe f \<Longrightarrow> f st = Inr st' \<Longrightarrow> engine_ext (snd st) (snd st')"
  unfolding engine_safe_def by blast

lemma engine_safe_world [engine_intro]: "engine_safe (\<lambda>st. Inr (on_world (f st) st))"
  by (rule engine_safeI) (auto simp: on_world_def)

lemma engine_safe_Inr [engine_intro]: "engine_safe Inr" "engine_safe (\<lambda>st. Inr st)"
  by (auto intro: engine_safeI)

lemma engine_safe_Inl [engine_intro]: "engine_safe (\<lambda>st. Inl (e st))"
  by (auto intro: engine_safeI)

lemma engine_safe_cancel [engine_intro]: "engine_safe (\<lambda>st. Inr (cancel_id (e st) st))"
  by (rule engine_safeI) (auto simp: cancel_id_def)

lemma engine_safe_cancel_pending [engine_intro]: "engine_safe (\<lambda>st. Inr (cancel_pending (e st) st))"
  by (rule engine_safeI) (auto simp: cancel_pending_def cancel_id_def)

lemma engine_safe_abort [engine_intro]: "engine_safe f \<Longrightarrow> engine_safe (\<lambda>st. abort_if (b st) e (f st))"
  by (rule engine_safeI) (auto dest: engine_safeD)

lemma engine_safe_sched [engine_intro]: "engine_safe (\<lambda>st. sched (delay st) (ev st) (k st) st)"
  by (rule engine_safeI) (auto simp: sched_def engine_ext_Schedule)

lemma engine_safe_bind [engine_intro]:
  assumes "engine_safe f" and "\<And>st0. engine_safe (g st0)"
  shows "engine_safe (\<lambda>st. res_bind (f st) (g st))"
proof (rule engine_safeI)
  fix st st'
  assume "res_bind (f st) (g st) = Inr st'"
  then obtain st1 where st1: "f st = Inr st1" "g st st1 = Inr st'" by (elim res_bind_eq_InrE)
  show "engine_ext (snd st) (snd st')"
    by (rule engine_ext_trans [OF engine_safeD [OF assms(1) st1(1)] engine_safeD [OF assms(2) st1(2)]])
qed

lemma engine_safe_if [engine_intro]:
  "engine_safe f \<Longrightarrow> engine_safe g \<Longrightarrow> engine_safe (\<lambda>st. if b st then f st else g st)"
  by (rule engine_safeI) (auto dest: engine_safeD split: if_splits)

lemma engine_safe_option [engine_intro]:
  "engine_safe f \<Longrightarrow> (\<And>x. engine_safe (g x)) \<Longrightarrow>
    engine_safe (\<lambda>st. case e st of None \<Rightarrow> f st | Some x \<Rightarrow> g x st)"
  by (rule engine_safeI) (auto dest: engine_safeD split: option.splits)

lemma engine_safe_prod [engine_intro]:
  "(\<And>x y. engine_safe (g x y)) \<Longrightarrow> engine_safe (\<lambda>st. case e st of (x, y) \<Rightarrow> g x y st)"
  by (rule engine_safeI) (auto dest: engine_safeD split: prod.splits)

text \<open>A call whose result is not a state, before the rest of a method.\<close>

lemma engine_safe_query:
  "(\<And>x. engine_safe (g x)) \<Longrightarrow> engine_safe (\<lambda>st. res_bind (q st) (\<lambda>x. g x st))"
  by (rule engine_safeI) (auto dest: engine_safeD elim!: res_bind_eq_InrE)

lemma engine_safe_unfold: "(\<And>st. f st = g st) \<Longrightarrow> engine_safe g \<Longrightarrow> engine_safe f"
  by (metis engine_safeI engine_safeD)

lemma engine_safe_fold [engine_intro]:
  assumes "\<And>x. engine_safe (f x)"
  shows "engine_safe (res_fold f xs)"
proof (induction xs)
  case (Cons x xs)
  have "engine_safe (\<lambda>st. res_bind (f x st) (res_fold f xs))"
    using assms Cons by (rule engine_safe_bind)
  then show ?case by simp
qed (simp add: engine_safe_Inr)

lemma engine_safe_fold_state [engine_intro]:
  assumes "\<And>x. engine_safe (f x)"
  shows "engine_safe (\<lambda>st. res_fold f (xs st) st)"
  by (rule engine_safeI) (auto dest: engine_safeD [OF engine_safe_fold [OF assms]])

lemma engine_safe_keeps_inv:
  "engine_safe f \<Longrightarrow> sim_inv sim \<Longrightarrow> f (s, sim) = Inr (s', sim') \<Longrightarrow> few_events sim' \<Longrightarrow>
    sim_inv sim' \<and> current_key sim' = current_key sim"
  by (drule (1) engine_safeD) (simp add: engine_ext_def)

lemma engine_safe_creates:
  "engine_safe f \<Longrightarrow> f (s, sim) = Inr (s', sim') \<Longrightarrow> m_nextImpl sim \<le> m_nextImpl sim'"
  by (drule (1) engine_safeD) (simp add: engine_ext_def)

text \<open>The same at one state: the engine of a result extends the given one.\<close>

definition extends :: "'e simulator \<Rightarrow> ('s \<times> 'e simulator) res \<Rightarrow> bool" where
  "extends s r \<longleftrightarrow> (\<forall>st'. r = Inr st' \<longrightarrow> engine_ext s (snd st'))"

lemma engine_safe_extends: "(\<And>st. extends (snd st) (f st)) \<Longrightarrow> engine_safe f"
  unfolding extends_def engine_safe_def by blast

lemma extends_Inl: "extends s (Inl e)"
  by (simp add: extends_def)

lemma extends_Inr: "engine_ext s (snd st) \<Longrightarrow> extends s (Inr st)"
  by (simp add: extends_def)

lemma extends_abort: "extends s r \<Longrightarrow> extends s (abort_if b e r)"
  by (simp add: extends_def abort_if_def)

lemma extends_if: "extends s r1 \<Longrightarrow> extends s r2 \<Longrightarrow> extends s (if b then r1 else r2)"
  by simp

lemma extends_option:
  "extends s r1 \<Longrightarrow> (\<And>v. extends s (f v)) \<Longrightarrow> extends s (case x of None \<Rightarrow> r1 | Some v \<Rightarrow> f v)"
  by (cases x) auto

lemma extends_list:
  "extends s r1 \<Longrightarrow> (\<And>y ys. extends s (g y ys)) \<Longrightarrow> extends s (case xs of [] \<Rightarrow> r1 | y # ys \<Rightarrow> g y ys)"
  by (cases xs) auto

lemma extends_bind:
  assumes "extends s r" and "\<And>st1. engine_ext s (snd st1) \<Longrightarrow> extends s (g st1)"
  shows "extends s (res_bind r g)"
  using assms unfolding extends_def by (metis res_bind_eq_InrE)

lemma extends_query: "(\<And>x. extends s (g x)) \<Longrightarrow> extends s (res_bind q g)"
  unfolding extends_def by (metis res_bind_eq_InrE)

lemma extends_call: "engine_safe f \<Longrightarrow> engine_ext s (snd st) \<Longrightarrow> extends s (f st)"
  unfolding extends_def by (metis engine_safeD engine_ext_trans)

lemma extends_sched: "engine_ext s (snd st) \<Longrightarrow> extends s (sched d ev k st)"
  by (rule extends_call [OF engine_safe_sched])

lemmas extends_rules =
  extends_Inl extends_Inr extends_abort extends_if extends_option extends_list
  extends_sched

lemma snd_on_world [simp]: "snd (on_world f st) = snd st"
  by (simp add: on_world_def)

lemma engine_ext_cancel_id [simp, intro]: "engine_ext s (snd st) \<Longrightarrow> engine_ext s (snd (cancel_id e st))"
  unfolding cancel_id_def using engine_ext_trans [OF _ engine_ext_Cancel] by simp

text \<open>A dispatcher whose methods are safe meets the contract of an event handler.\<close>

lemma engine_safe_handler:
  assumes "\<And>e. engine_safe (invoke e)"
  shows "event_handler invoke"
proof
  fix sim sim' e s s'
  assume "sim_inv sim" and "invoke e (s, sim) = Inr (s', sim')" and "few_events sim'"
  then show "sim_inv sim'" "current_key sim' = current_key sim"
    using engine_safe_keeps_inv [OF assms] by blast+
next
  fix sim sim' e s s'
  assume "invoke e (s, sim) = Inr (s', sim')"
  then show "m_nextImpl sim \<le> m_nextImpl sim'" by (rule engine_safe_creates [OF assms])
qed

end
