(* ===== verification/Oran_Data.thy ===== *)
theory Oran_Data
  imports Oran_Prelude
begin

text \<open>
  The messages of the control loop (\<open>src/contrib/oran/model\<close>): the kinds of E2 node, the
  commands logic modules issue (\<open>OranCommand\<close> and its two handover subclasses) and the reports
  E2 nodes send (\<open>OranReport\<close> and its subclasses). An object is the record of its attributes; a
  subclass is a constructor of the sum. The accessors are the getters of the classes.
\<close>

section \<open>Node types\<close>

datatype node_type = WIRED | LTEUE | LTEENB | NRUE | NRGNB

definition node_type_code :: "node_type \<Rightarrow> int" where
  "node_type_code t = (case t of WIRED \<Rightarrow> 0 | LTEUE \<Rightarrow> 1 | LTEENB \<Rightarrow> 2 | NRUE \<Rightarrow> 3 | NRGNB \<Rightarrow> 4)"

record vector =
  vec_x :: double
  vec_y :: double
  vec_z :: double

section \<open>Commands\<close>

record handover_cmd =
  cmd_targetE2NodeId :: uint64
  cmd_targetCellId :: uint16
  cmd_targetRnti :: uint16

datatype oran_command =
    OranCommand uint64
  | OranCommandLte2LteHandover handover_cmd
  | OranCommandNr2NrHandover handover_cmd

definition GetTargetE2NodeId :: "oran_command \<Rightarrow> uint64" where
  "GetTargetE2NodeId c =
     (case c of
        OranCommand i \<Rightarrow> i
      | OranCommandLte2LteHandover h \<Rightarrow> cmd_targetE2NodeId h
      | OranCommandNr2NrHandover h \<Rightarrow> cmd_targetE2NodeId h)"

text \<open>The decimal numeral \<open>operator<<\<close> writes for an unsigned integer.\<close>

fun show_nat :: "nat \<Rightarrow> string" where
  "show_nat n =
     (if n < 10 then [char_of (48 + n)] else show_nat (n div 10) @ [char_of (48 + n mod 10)])"

declare show_nat.simps [simp del]

definition show_int :: "int \<Rightarrow> string" where
  "show_int i = (if i < 0 then ''-'' else []) @ show_nat (nat \<bar>i\<bar>)"

definition show_bool :: "bool \<Rightarrow> string" where
  "show_bool b = (if b then ''1'' else ''0'')"

text \<open>
  \<open>std::to_string (Simulator::Now ().GetSeconds ())\<close>: the seconds with six decimals, to nearest,
  with nanosecond time steps.
\<close>

definition round_div :: "nat \<Rightarrow> nat \<Rightarrow> nat" where
  "round_div a b =
     (let q = a div b; r = a mod b
      in if 2 * r < b \<or> (2 * r = b \<and> even q) then q else q + 1)"

definition pad6 :: "string \<Rightarrow> string" where
  "pad6 s = replicate (6 - length s) (CHR ''0'') @ s"

definition seconds_to_string :: "time \<Rightarrow> string" where
  "seconds_to_string t =
     (let us = round_div (nat \<bar>t\<bar>) 1000
      in (if t < 0 then ''-'' else []) @ show_nat (us div 1000000) @ ''.'' @
         pad6 (show_nat (us mod 1000000)))"

definition show_uint64 :: "uint64 \<Rightarrow> string" where
  "show_uint64 n = show_nat (unat n)"

definition handover_ToString :: "string \<Rightarrow> handover_cmd \<Rightarrow> string" where
  "handover_ToString cls h =
     cls @ ''('' @ ''TargetE2NodeId = '' @ show_nat (unat (cmd_targetE2NodeId h)) @
     ''; TargetCellId = '' @ show_nat (unat (cmd_targetCellId h)) @
     ''; TargetRnti = '' @ show_nat (unat (cmd_targetRnti h)) @ '')''"

definition lte_handover_ToString :: "handover_cmd \<Rightarrow> string" where
  "lte_handover_ToString = handover_ToString ''OranCommandLte2LteHandover''"

definition nr_handover_ToString :: "handover_cmd \<Rightarrow> string" where
  "nr_handover_ToString = handover_ToString ''OranCommandNr2NrHandover''"

definition cmd_ToString :: "oran_command \<Rightarrow> string" where
  "cmd_ToString c =
     (case c of
        OranCommand _ \<Rightarrow> ''Parent OranCommand. Should not be used''
      | OranCommandLte2LteHandover h \<Rightarrow> lte_handover_ToString h
      | OranCommandNr2NrHandover h \<Rightarrow> nr_handover_ToString h)"

section \<open>Reports\<close>

record report_base =
  m_reporterE2NodeId :: uint64
  m_time :: time

record location_report = report_base +
  m_location :: vector

record cell_load_report = report_base +
  m_cellLoad :: double

record cell_info_report = report_base +
  m_cellId :: uint16
  m_rnti :: uint16

record app_loss_report = report_base +
  m_loss :: double

record rsrp_rsrq_report = report_base +
  rr_rnti :: uint16
  rr_cellId :: uint16
  rr_rsrp :: double
  rr_rsrq :: double
  rr_isServingCell :: bool
  rr_componentCarrierId :: uint16

record sinr_report = report_base +
  si_rnti :: uint16
  si_cellId :: uint16
  si_bwpId :: uint16
  si_sinrLin :: double
  si_sinrDb :: double
  si_isCtrl :: bool

datatype oran_report =
    OranReport report_base
  | OranReportLocation location_report
  | OranReportLteCellLoad cell_load_report
  | OranReportNrCellLoad cell_load_report
  | OranReportLteUeCellInfo cell_info_report
  | OranReportNrUeCellInfo cell_info_report
  | OranReportAppLoss app_loss_report
  | OranReportLteUeRsrpRsrq rsrp_rsrq_report
  | OranReportNrUeRsrpRsrq rsrp_rsrq_report
  | OranReportNrUeSinr sinr_report

definition GetReporterE2NodeId :: "oran_report \<Rightarrow> uint64" where
  "GetReporterE2NodeId r =
     (case r of
        OranReport b \<Rightarrow> m_reporterE2NodeId b
      | OranReportLocation b \<Rightarrow> m_reporterE2NodeId b
      | OranReportLteCellLoad b \<Rightarrow> m_reporterE2NodeId b
      | OranReportNrCellLoad b \<Rightarrow> m_reporterE2NodeId b
      | OranReportLteUeCellInfo b \<Rightarrow> m_reporterE2NodeId b
      | OranReportNrUeCellInfo b \<Rightarrow> m_reporterE2NodeId b
      | OranReportAppLoss b \<Rightarrow> m_reporterE2NodeId b
      | OranReportLteUeRsrpRsrq b \<Rightarrow> m_reporterE2NodeId b
      | OranReportNrUeRsrpRsrq b \<Rightarrow> m_reporterE2NodeId b
      | OranReportNrUeSinr b \<Rightarrow> m_reporterE2NodeId b)"

text \<open>
  The two classes for RSRP/RSRQ reports differ in one getter: \<open>GetRsrq\<close> of the NR class returns
  the RSRP member.
\<close>

definition lte_GetRsrp :: "rsrp_rsrq_report \<Rightarrow> double" where
  "lte_GetRsrp r = rr_rsrp r"

definition lte_GetRsrq :: "rsrp_rsrq_report \<Rightarrow> double" where
  "lte_GetRsrq r = rr_rsrq r"

definition nr_GetRsrp :: "rsrp_rsrq_report \<Rightarrow> double" where
  "nr_GetRsrp r = rr_rsrp r"

definition nr_GetRsrq :: "rsrp_rsrq_report \<Rightarrow> double" where
  "nr_GetRsrq r = rr_rsrp r"

lemmas rsrp_rsrq_getters [oran_defs] =
  lte_GetRsrp_def lte_GetRsrq_def nr_GetRsrp_def nr_GetRsrq_def

section \<open>The text of a command identifies it\<close>

text \<open>Reading a numeral back.\<close>

definition read_nat :: "string \<Rightarrow> nat" where
  "read_nat = foldl (\<lambda>n c. 10 * n + (of_char c - 48)) 0"

definition is_digit :: "char \<Rightarrow> bool" where
  "is_digit c \<longleftrightarrow> 48 \<le> (of_char c :: nat) \<and> (of_char c :: nat) < 58"

lemma of_char_digit [simp]: "d < 10 \<Longrightarrow> of_char (char_of (48 + d :: nat)) = (48 + d :: nat)"
  by (simp add: of_char_of)

lemma is_digit_char [simp]: "d < 10 \<Longrightarrow> is_digit (char_of (48 + d :: nat))"
  by (simp add: is_digit_def)

lemma read_show_nat: "read_nat (show_nat n) = n"
proof (induction n rule: show_nat.induct)
  case (1 n)
  show ?case
  proof (cases "n < 10")
    case True
    then show ?thesis by (subst show_nat.simps) (simp add: read_nat_def)
  next
    case False
    have "read_nat (show_nat n) = 10 * read_nat (show_nat (n div 10)) + n mod 10"
      using False by (subst show_nat.simps) (simp add: read_nat_def)
    then show ?thesis using "1.IH" [OF False] by simp
  qed
qed

lemma show_nat_digits: "list_all is_digit (show_nat n)"
proof (induction n rule: show_nat.induct)
  case (1 n)
  show ?case
  proof (cases "n < 10")
    case True
    then show ?thesis by (subst show_nat.simps) simp
  next
    case False
    then show ?thesis using "1.IH" [OF False] by (subst show_nat.simps) simp
  qed
qed

lemma digits_prefix_eq:
  assumes "list_all is_digit xs" and "list_all is_digit ys"
    and "\<not> is_digit c" and "xs @ c # r = ys @ c # r'"
  shows "xs = ys \<and> r = r'"
proof -
  have tw: "takeWhile is_digit (zs @ c # q) = zs" if "list_all is_digit zs" for zs q
    using that assms(3) by (simp add: takeWhile_append2 list_all_iff)
  have "xs = ys" using tw [OF assms(1), of r] tw [OF assms(2), of r'] assms(4) by simp
  with assms(4) show ?thesis by simp
qed

lemma show_nat_prefix_eq:
  assumes "\<not> is_digit c" and "show_nat m @ c # r = show_nat n @ c # r'"
  shows "m = n \<and> r = r'"
  using digits_prefix_eq [OF show_nat_digits show_nat_digits assms] read_show_nat by metis

lemma handover_ToString_inj:
  assumes "handover_ToString cls h = handover_ToString cls h'"
  shows "h = h'"
proof -
  have sep: "\<not> is_digit CHR '';''" "\<not> is_digit CHR '')''"
    by (simp_all add: is_digit_def)
  have eq1: "show_nat (unat (cmd_targetE2NodeId h)) @ CHR '';'' #
        '' TargetCellId = '' @ show_nat (unat (cmd_targetCellId h)) @
        ''; TargetRnti = '' @ show_nat (unat (cmd_targetRnti h)) @ '')'' =
      show_nat (unat (cmd_targetE2NodeId h')) @ CHR '';'' #
        '' TargetCellId = '' @ show_nat (unat (cmd_targetCellId h')) @
        ''; TargetRnti = '' @ show_nat (unat (cmd_targetRnti h')) @ '')''"
    using assms by (simp add: handover_ToString_def)
  note e1 = show_nat_prefix_eq [OF sep(1) eq1]
  have eq2: "show_nat (unat (cmd_targetCellId h)) @ CHR '';'' #
        '' TargetRnti = '' @ show_nat (unat (cmd_targetRnti h)) @ '')'' =
      show_nat (unat (cmd_targetCellId h')) @ CHR '';'' #
        '' TargetRnti = '' @ show_nat (unat (cmd_targetRnti h')) @ '')''"
    using e1 by simp
  note e2 = show_nat_prefix_eq [OF sep(1) eq2]
  have eq3: "show_nat (unat (cmd_targetRnti h)) @ CHR '')'' # [] =
      show_nat (unat (cmd_targetRnti h')) @ CHR '')'' # []"
    using e2 by simp
  note e3 = show_nat_prefix_eq [OF sep(2) eq3]
  show ?thesis using e1 e2 e3 by (simp add: word_unat_eq_iff)
qed

text \<open>
  The text under which the repository logs a handover command identifies it: two handover
  commands with the same \<open>ToString\<close> are the same class of command with the same source node,
  target cell and RNTI.
\<close>

lemma handover_text_identifies:
  assumes "cmd_ToString c = cmd_ToString c'"
    and "\<not> (\<exists>i. c = OranCommand i)" and "\<not> (\<exists>i. c' = OranCommand i)"
  shows "c = c'"
proof -
  have "take 15 (cmd_ToString (OranCommandLte2LteHandover h)) \<noteq>
      take 15 (cmd_ToString (OranCommandNr2NrHandover h'))" for h h'
    by (simp add: cmd_ToString_def lte_handover_ToString_def nr_handover_ToString_def handover_ToString_def)
  then have "cmd_ToString (OranCommandLte2LteHandover h) \<noteq> cmd_ToString (OranCommandNr2NrHandover h')" for h h'
    by metis
  with assms show ?thesis
    by (cases c; cases c')
      (auto simp: cmd_ToString_def lte_handover_ToString_def nr_handover_ToString_def
        dest: handover_ToString_inj dest: sym)
qed

end
