(* ===== verification/Oran_Repository.thy ===== *)
theory Oran_Repository
  imports Oran_Data "HOL-Library.Multiset"
begin

text \<open>
  The data repository of the Near-RT RIC: \<open>OranDataRepositorySqlite\<close>
  (\<open>oran-data-repository-sqlite.cc\<close>). The tables the SQL statements of \<open>InitStatements\<close> create
  are lists of rows in the order of their \<open>AUTOINCREMENT\<close> key (rows are never deleted from those
  tables, so the key of a row is its position), and each method runs the statement it prepares on
  them. Where SQL leaves a choice to the engine it is a component of the database: \<open>scan n\<close> is
  the order in which a \<open>SELECT\<close> without \<open>ORDER BY\<close> returns its \<open>n\<close> rows, and \<open>bare n\<close>
  picks the row whose columns accompany a \<open>MAX\<close> reached by \<open>n\<close> rows (\<open>engine_ok\<close> states
  what SQLite documents of them). The texts of commands are read from freed memory; \<open>freed\<close> says what it
  holds. Foreign keys are declared but not enforced, which is the default
  of SQLite, and statements over an open database are taken to return \<open>SQLITE_DONE\<close>.
\<close>

section \<open>Tables\<close>

record noderegistration =
  reg_nodeid :: uint64
  reg_registered :: bool
  reg_time :: time

record nodelocation =
  loc_nodeid :: uint64
  loc_pos :: vector
  loc_time :: time

record uecell =
  uc_nodeid :: uint64
  uc_cellid :: uint16
  uc_rnti :: uint16
  uc_time :: time

record rsrprsrq =
  ms_nodeid :: uint64
  ms_time :: time
  ms_rnti :: uint16
  ms_cellid :: uint16
  ms_rsrp :: double
  ms_rsrq :: double
  ms_serving :: bool
  ms_ccid :: uint8

record uesinr =
  sn_nodeid :: uint64
  sn_time :: time
  sn_rnti :: uint16
  sn_cellid :: uint16
  sn_bwpid :: uint16
  sn_sinr_lin :: double
  sn_sinr_db :: double
  sn_is_ctrl :: bool

record evesinr =
  ev_nodeid :: uint64
  ev_time :: time
  ev_cellid :: uint16
  ev_bwpid :: uint16
  ev_sinr_lin :: double
  ev_sinr_db :: double
  ev_is_ctrl :: bool

record nodevalue =
  nv_nodeid :: uint64
  nv_value :: double
  nv_time :: time

record logrow =
  log_name :: string
  log_time :: time
  log_text :: string

record termcommand =
  tc_targetid :: uint64
  tc_time :: time
  tc_cmdname :: string

record sqlite3 =
  t_node :: "(uint64 \<times> int) list"
  node_seq :: int
  t_noderegistration :: "noderegistration list"
  t_nodelocation :: "nodelocation list"
  t_lteenb :: "(uint64 \<times> uint16) list"
  t_nrgnb :: "(uint64 \<times> uint16) list"
  t_lteue :: "(uint64 \<times> uint64) list"
  t_nrue :: "(uint64 \<times> uint64) list"
  t_lteuecell :: "uecell list"
  t_nruecell :: "uecell list"
  t_lteuersrprsrq :: "rsrprsrq list"
  t_nruersrprsrq :: "rsrprsrq list"
  t_nruesinr :: "uesinr list"
  t_nreve :: "(uint64 \<times> string) list"
  t_nrevesinr :: "evesinr list"
  t_nodeapploss :: "nodevalue list"
  t_loadcell :: "nodevalue list"
  t_terminatorcommand :: "termcommand list"
  t_lmcommand :: "logrow list"
  t_lmaction :: "logrow list"
  t_cmmaction :: "logrow list"
  scan :: "nat \<Rightarrow> nat list"
  bare :: "nat \<Rightarrow> nat"
  freed :: "string \<Rightarrow> string"

definition engine_ok :: "sqlite3 \<Rightarrow> bool" where
  "engine_ok db \<longleftrightarrow>
     (\<forall>n. distinct (scan db n) \<and> set (scan db n) = {..<n}) \<and> (\<forall>n > 0. bare db n < n)"

text \<open>The database \<open>InitDb\<close> creates, for an engine with the given choices.\<close>

definition InitDb :: "(nat \<Rightarrow> nat list) \<Rightarrow> (nat \<Rightarrow> nat) \<Rightarrow> (string \<Rightarrow> string) \<Rightarrow> sqlite3" where
  "InitDb sc br fr =
     \<lparr>t_node = [], node_seq = 0, t_noderegistration = [], t_nodelocation = [], t_lteenb = [],
      t_nrgnb = [], t_lteue = [], t_nrue = [], t_lteuecell = [], t_nruecell = [],
      t_lteuersrprsrq = [], t_nruersrprsrq = [], t_nruesinr = [], t_nreve = [],
      t_nrevesinr = [], t_nodeapploss = [], t_loadcell = [], t_terminatorcommand = [],
      t_lmcommand = [], t_lmaction = [], t_cmmaction = [], scan = sc, bare = br, freed = fr\<rparr>"

section \<open>The clauses of the statements\<close>

text \<open>\<open>ORDER BY simulationtime DESC, entryid DESC\<close>, and its first row (\<open>LIMIT 1\<close>).\<close>

definition order_desc :: "('r \<Rightarrow> time) \<Rightarrow> 'r list \<Rightarrow> 'r list" where
  "order_desc t rows = rev (sort_key t rows)"

definition limit1 :: "'r list \<Rightarrow> 'r option" where
  "limit1 rows = (case rows of [] \<Rightarrow> None | r # _ \<Rightarrow> Some r)"

text \<open>\<open>LIMIT n\<close>; a negative limit is none.\<close>

definition sql_limit :: "uint64 \<Rightarrow> 'r list \<Rightarrow> 'r list" where
  "sql_limit n rows = (if sint n < 0 then rows else take (unat n) rows)"

text \<open>The rows of a \<open>SELECT\<close> without \<open>ORDER BY\<close>.\<close>

definition scan_rows :: "sqlite3 \<Rightarrow> 'r list \<Rightarrow> 'r list" where
  "scan_rows db rows = map (\<lambda>i. rows ! i) (scan db (length rows))"

text \<open>
  \<open>SELECT nodeid, MAX(simulationtime) ... GROUP BY nodeid HAVING registered = 1 ORDER BY nodeid\<close>.
\<close>

definition group_max :: "sqlite3 \<Rightarrow> noderegistration list \<Rightarrow> uint64 \<Rightarrow> noderegistration" where
  "group_max db rows n =
     (let grp = filter (\<lambda>r. reg_nodeid r = n) rows;
          mx = Max (set (map reg_time grp));
          ties = filter (\<lambda>r. reg_time r = mx) grp
      in ties ! bare db (length ties))"

definition group_ids :: "noderegistration list \<Rightarrow> uint64 list" where
  "group_ids rows = sort_key sint (remdups (map reg_nodeid rows))"

definition last_registrations :: "sqlite3 \<Rightarrow> noderegistration list \<Rightarrow> (uint64 \<times> time) list" where
  "last_registrations db rows =
     map (\<lambda>n. (n, reg_time (group_max db rows n)))
       (filter (\<lambda>n. reg_registered (group_max db rows n)) (group_ids rows))"

text \<open>\<open>INSERT OR REPLACE\<close>: the rows that clash on a unique column go first.\<close>

definition insert_replace :: "('r \<Rightarrow> bool) \<Rightarrow> 'r \<Rightarrow> 'r list \<Rightarrow> 'r list" where
  "insert_replace clash r rows = filter (\<lambda>x. \<not> clash x) rows @ [r]"

section \<open>The repository\<close>

record oran_data =
  d_active :: bool
  d_dbPath :: string
  d_open :: bool
  d_db :: sqlite3

definition OranDataRepositorySqlite :: "sqlite3 \<Rightarrow> oran_data" where
  "OranDataRepositorySqlite db =
     \<lparr>d_active = False, d_dbPath = ''oran-repository.db'', d_open = False, d_db = db\<rparr>"

definition OpenDb :: "oran_data \<Rightarrow> oran_data res" where
  "OpenDb d =
     abort_if (d_dbPath d \<noteq> '':memory:'' \<and> CHR '':'' \<in> set (d_dbPath d)) UriDbName
       (Inr (d\<lparr>d_open := True,
               d_db := (if d_dbPath d = '':memory:'' \<or> d_dbPath d = []
                        then InitDb (scan (d_db d)) (bare (d_db d)) (freed (d_db d)) else d_db d)\<rparr>))"

definition CloseDb :: "oran_data \<Rightarrow> oran_data" where
  "CloseDb d = d\<lparr>d_open := False\<rparr>"

definition data_Activate :: "oran_data \<Rightarrow> oran_data res" where
  "data_Activate d =
     (let d' = d\<lparr>d_active := True\<rparr> in if d_open d' then Inr d' else OpenDb d')"

definition data_Deactivate :: "oran_data \<Rightarrow> oran_data" where
  "data_Deactivate d = (if d_open d then CloseDb d else d)\<lparr>d_active := False\<rparr>"

definition IsNodeRegistered :: "oran_data \<Rightarrow> uint64 \<Rightarrow> bool" where
  "IsNodeRegistered d e2NodeId =
     (d_active d \<and>
      (case limit1 (order_desc reg_time
               (filter (\<lambda>r. reg_nodeid r = e2NodeId) (t_noderegistration (d_db d)))) of
         None \<Rightarrow> False
       | Some r \<Rightarrow> reg_registered r))"

section \<open>Registration\<close>

text \<open>\<open>sqlite3_bind_int\<close> takes an \<open>int\<close>: the 64-bit identifier is cut to 32 bits and sign-extended.\<close>

definition bind_int :: "uint64 \<Rightarrow> uint64" where
  "bind_int i = scast (ucast i :: 32 word)"

definition insert_registration :: "uint64 \<Rightarrow> bool \<Rightarrow> time \<Rightarrow> oran_data \<Rightarrow> oran_data" where
  "insert_registration n r now d =
     d\<lparr>d_db := (d_db d)\<lparr>t_noderegistration := t_noderegistration (d_db d) @
       [\<lparr>reg_nodeid = n, reg_registered = r, reg_time = now\<rparr>]\<rparr>\<rparr>"

text \<open>\<open>INSERT INTO node\<close> (a fresh key) and \<open>INSERT OR REPLACE INTO node\<close> (the given key).\<close>

definition insert_node_add :: "node_type \<Rightarrow> oran_data \<Rightarrow> uint64 \<times> oran_data" where
  "insert_node_add ty d =
     (let k = node_seq (d_db d) + 1
      in (word_of_int k,
          d\<lparr>d_db := (d_db d)\<lparr>t_node := t_node (d_db d) @ [(word_of_int k, node_type_code ty)],
              node_seq := k\<rparr>\<rparr>))"

definition insert_node_update :: "uint64 \<Rightarrow> node_type \<Rightarrow> oran_data \<Rightarrow> uint64 \<times> oran_data" where
  "insert_node_update i ty d =
     (let n = bind_int i
      in (n, d\<lparr>d_db := (d_db d)\<lparr>t_node := insert_replace (\<lambda>x. fst x = n) (n, node_type_code ty)
                                   (t_node (d_db d)),
                node_seq := max (node_seq (d_db d)) (sint n)\<rparr>\<rparr>))"

definition RegisterNode :: "time \<Rightarrow> node_type \<Rightarrow> uint64 \<Rightarrow> oran_data \<Rightarrow> uint64 \<times> oran_data" where
  "RegisterNode now ty i d =
     (if d_active d
      then (let (e2NodeId, d1) = (if i = 0 then insert_node_add ty d else insert_node_update i ty d)
            in (e2NodeId, insert_registration e2NodeId True now d1))
      else (0, d))"

definition RegisterNodeLteUe :: "time \<Rightarrow> uint64 \<Rightarrow> uint64 \<Rightarrow> oran_data \<Rightarrow> uint64 \<times> oran_data" where
  "RegisterNodeLteUe now i imsi d =
     (if d_active d
      then (let (e2NodeId, d1) = RegisterNode now LTEUE i d
            in (e2NodeId, d1\<lparr>d_db := (d_db d1)\<lparr>t_lteue :=
                  insert_replace (\<lambda>x. fst x = i \<or> snd x = imsi) (i, imsi) (t_lteue (d_db d1))\<rparr>\<rparr>))
      else (0, d))"

definition RegisterNodeNrUe :: "time \<Rightarrow> uint64 \<Rightarrow> uint64 \<Rightarrow> oran_data \<Rightarrow> uint64 \<times> oran_data" where
  "RegisterNodeNrUe now i imsi d =
     (if d_active d
      then (let (e2NodeId, d1) = RegisterNode now NRUE i d
            in (e2NodeId, d1\<lparr>d_db := (d_db d1)\<lparr>t_nrue :=
                  insert_replace (\<lambda>x. fst x = i \<or> snd x = imsi) (i, imsi) (t_nrue (d_db d1))\<rparr>\<rparr>))
      else (0, d))"

definition RegisterNodeLteEnb :: "time \<Rightarrow> uint64 \<Rightarrow> uint16 \<Rightarrow> oran_data \<Rightarrow> uint64 \<times> oran_data" where
  "RegisterNodeLteEnb now i cellId d =
     (if d_active d
      then (let (e2NodeId, d1) = RegisterNode now LTEENB i d
            in (e2NodeId, d1\<lparr>d_db := (d_db d1)\<lparr>t_lteenb :=
                  insert_replace (\<lambda>x. fst x = i) (i, cellId) (t_lteenb (d_db d1))\<rparr>\<rparr>))
      else (0, d))"

definition RegisterNodeNrGnb :: "time \<Rightarrow> uint64 \<Rightarrow> uint16 \<Rightarrow> oran_data \<Rightarrow> uint64 \<times> oran_data" where
  "RegisterNodeNrGnb now i cellId d =
     (if d_active d
      then (let (e2NodeId, d1) = RegisterNode now NRGNB i d
            in (e2NodeId, d1\<lparr>d_db := (d_db d1)\<lparr>t_nrgnb :=
                  insert_replace (\<lambda>x. fst x = i) (i, cellId) (t_nrgnb (d_db d1))\<rparr>\<rparr>))
      else (0, d))"

definition DeregisterNode :: "time \<Rightarrow> uint64 \<Rightarrow> oran_data \<Rightarrow> uint64 \<times> oran_data" where
  "DeregisterNode now e2NodeId d =
     (if d_active d then (e2NodeId, insert_registration e2NodeId False now d) else (0, d))"

section \<open>Saving reports\<close>

definition SavePosition :: "uint64 \<Rightarrow> vector \<Rightarrow> time \<Rightarrow> oran_data \<Rightarrow> oran_data" where
  "SavePosition n pos t d =
     (if d_active d \<and> IsNodeRegistered d n
      then d\<lparr>d_db := (d_db d)\<lparr>t_nodelocation := t_nodelocation (d_db d) @
             [\<lparr>loc_nodeid = n, loc_pos = pos, loc_time = t\<rparr>]\<rparr>\<rparr>
      else d)"

definition SaveLteUeCellInfo :: "uint64 \<Rightarrow> uint16 \<Rightarrow> uint16 \<Rightarrow> time \<Rightarrow> oran_data \<Rightarrow> oran_data" where
  "SaveLteUeCellInfo n cellId rnti t d =
     (if d_active d \<and> IsNodeRegistered d n
      then d\<lparr>d_db := (d_db d)\<lparr>t_lteuecell := t_lteuecell (d_db d) @
             [\<lparr>uc_nodeid = n, uc_cellid = cellId, uc_rnti = rnti, uc_time = t\<rparr>]\<rparr>\<rparr>
      else d)"

definition SaveNrUeCellInfo :: "uint64 \<Rightarrow> uint16 \<Rightarrow> uint16 \<Rightarrow> time \<Rightarrow> oran_data \<Rightarrow> oran_data" where
  "SaveNrUeCellInfo n cellId rnti t d =
     (if d_active d \<and> IsNodeRegistered d n
      then d\<lparr>d_db := (d_db d)\<lparr>t_nruecell := t_nruecell (d_db d) @
             [\<lparr>uc_nodeid = n, uc_cellid = cellId, uc_rnti = rnti, uc_time = t\<rparr>]\<rparr>\<rparr>
      else d)"

definition SaveAppLoss :: "uint64 \<Rightarrow> double \<Rightarrow> time \<Rightarrow> oran_data \<Rightarrow> oran_data" where
  "SaveAppLoss n appLoss t d =
     (if d_active d \<and> IsNodeRegistered d n
      then d\<lparr>d_db := (d_db d)\<lparr>t_nodeapploss := t_nodeapploss (d_db d) @
             [\<lparr>nv_nodeid = n, nv_value = appLoss, nv_time = t\<rparr>]\<rparr>\<rparr>
      else d)"

definition rsrprsrq_row ::
  "uint64 \<Rightarrow> time \<Rightarrow> uint16 \<Rightarrow> uint16 \<Rightarrow> double \<Rightarrow> double \<Rightarrow> bool \<Rightarrow> uint8 \<Rightarrow> rsrprsrq" where
  "rsrprsrq_row n t rnti cellId rsrp rsrq isServing cc =
     \<lparr>ms_nodeid = n, ms_time = t, ms_rnti = rnti, ms_cellid = cellId, ms_rsrp = rsrp,
      ms_rsrq = rsrq, ms_serving = isServing, ms_ccid = cc\<rparr>"

definition SaveLteUeRsrpRsrq ::
  "uint64 \<Rightarrow> time \<Rightarrow> uint16 \<Rightarrow> uint16 \<Rightarrow> double \<Rightarrow> double \<Rightarrow> bool \<Rightarrow> uint8 \<Rightarrow> oran_data \<Rightarrow> oran_data" where
  "SaveLteUeRsrpRsrq n t rnti cellId rsrp rsrq isServing cc d =
     (if d_active d \<and> IsNodeRegistered d n
      then d\<lparr>d_db := (d_db d)\<lparr>t_lteuersrprsrq := t_lteuersrprsrq (d_db d) @
             [rsrprsrq_row n t rnti cellId rsrp rsrq isServing cc]\<rparr>\<rparr>
      else d)"

definition SaveNrUeRsrpRsrq ::
  "uint64 \<Rightarrow> time \<Rightarrow> uint16 \<Rightarrow> uint16 \<Rightarrow> double \<Rightarrow> double \<Rightarrow> bool \<Rightarrow> uint8 \<Rightarrow> oran_data \<Rightarrow> oran_data" where
  "SaveNrUeRsrpRsrq n t rnti cellId rsrp rsrq isServing cc d =
     (if d_active d \<and> IsNodeRegistered d n
      then d\<lparr>d_db := (d_db d)\<lparr>t_nruersrprsrq := t_nruersrprsrq (d_db d) @
             [rsrprsrq_row n t rnti cellId rsrp rsrq isServing cc]\<rparr>\<rparr>
      else d)"

definition SaveNrUeSinr ::
  "uint64 \<Rightarrow> time \<Rightarrow> uint16 \<Rightarrow> uint16 \<Rightarrow> uint16 \<Rightarrow> double \<Rightarrow> double \<Rightarrow> bool \<Rightarrow> oran_data \<Rightarrow> oran_data" where
  "SaveNrUeSinr n t rnti cellId bwpId sinrLin sinrDb isCtrl d =
     (if d_active d \<and> IsNodeRegistered d n
      then d\<lparr>d_db := (d_db d)\<lparr>t_nruesinr := t_nruesinr (d_db d) @
             [\<lparr>sn_nodeid = n, sn_time = t, sn_rnti = rnti, sn_cellid = cellId, sn_bwpid = bwpId,
               sn_sinr_lin = sinrLin, sn_sinr_db = sinrDb, sn_is_ctrl = isCtrl\<rparr>]\<rparr>\<rparr>
      else d)"

definition SaveLteCellLoad :: "uint64 \<Rightarrow> double \<Rightarrow> time \<Rightarrow> oran_data \<Rightarrow> oran_data" where
  "SaveLteCellLoad n cellLoad t d =
     (if d_active d \<and> IsNodeRegistered d n
      then d\<lparr>d_db := (d_db d)\<lparr>t_loadcell := t_loadcell (d_db d) @
             [\<lparr>nv_nodeid = n, nv_value = cellLoad, nv_time = t\<rparr>]\<rparr>\<rparr>
      else d)"

definition SaveNrCellLoad :: "uint64 \<Rightarrow> double \<Rightarrow> time \<Rightarrow> oran_data \<Rightarrow> oran_data" where
  "SaveNrCellLoad n cellLoad t d =
     (if d_active d \<and> IsNodeRegistered d n
      then d\<lparr>d_db := (d_db d)\<lparr>t_loadcell := t_loadcell (d_db d) @
             [\<lparr>nv_nodeid = n, nv_value = cellLoad, nv_time = t\<rparr>]\<rparr>\<rparr>
      else d)"

section \<open>Queries\<close>

text \<open>
  The rows come newest first and the loop assigns \<open>nodePositions[t]\<close>, so of several rows with
  one time the oldest that the limit lets through remains.
\<close>

definition GetNodePositions ::
  "oran_data \<Rightarrow> uint64 \<Rightarrow> time \<Rightarrow> time \<Rightarrow> uint64 \<Rightarrow> (time \<times> vector) list" where
  "GetNodePositions d n fromTime toTime maxEntries =
     (if d_active d \<and> IsNodeRegistered d n
      then fold (\<lambda>r m. smap_upd (loc_time r) (loc_pos r) m)
             (sql_limit maxEntries (order_desc loc_time
                (filter (\<lambda>r. loc_nodeid r = n \<and> fromTime \<le> loc_time r \<and> loc_time r \<le> toTime)
                   (t_nodelocation (d_db d)))))
             []
      else [])"

definition uecell_info :: "uecell list \<Rightarrow> uint64 \<Rightarrow> bool \<times> uint16 \<times> uint16" where
  "uecell_info rows n =
     (case limit1 (order_desc uc_time (filter (\<lambda>r. uc_nodeid r = n) rows)) of
        None \<Rightarrow> (False, 0, 0)
      | Some r \<Rightarrow> (True, uc_cellid r, uc_rnti r))"

definition GetLteUeCellInfo :: "oran_data \<Rightarrow> uint64 \<Rightarrow> bool \<times> uint16 \<times> uint16" where
  "GetLteUeCellInfo d n =
     (if d_active d \<and> IsNodeRegistered d n then uecell_info (t_lteuecell (d_db d)) n
      else (False, 0, 0))"

definition GetNrUeCellInfo :: "oran_data \<Rightarrow> uint64 \<Rightarrow> bool \<times> uint16 \<times> uint16" where
  "GetNrUeCellInfo d n =
     (if d_active d \<and> IsNodeRegistered d n then uecell_info (t_nruecell (d_db d)) n
      else (False, 0, 0))"

text \<open>The \<open>INNER JOIN\<close> on the primary key of the technology's table keeps the rows whose node is in it.\<close>

definition joined_ids :: "sqlite3 \<Rightarrow> uint64 list \<Rightarrow> uint64 list" where
  "joined_ids db keys =
     map fst (last_registrations db
       (filter (\<lambda>r. reg_nodeid r \<in> set keys) (t_noderegistration db)))"

definition GetLteUeE2NodeIds :: "oran_data \<Rightarrow> uint64 list" where
  "GetLteUeE2NodeIds d =
     (if d_active d then joined_ids (d_db d) (map fst (t_lteue (d_db d))) else [])"

definition GetNrUeE2NodeIds :: "oran_data \<Rightarrow> uint64 list" where
  "GetNrUeE2NodeIds d =
     (if d_active d then joined_ids (d_db d) (map fst (t_nrue (d_db d))) else [])"

definition GetLteEnbE2NodeIds :: "oran_data \<Rightarrow> uint64 list" where
  "GetLteEnbE2NodeIds d =
     (if d_active d then joined_ids (d_db d) (map fst (t_lteenb (d_db d))) else [])"

definition GetNrGnbE2NodeIds :: "oran_data \<Rightarrow> uint64 list" where
  "GetNrGnbE2NodeIds d =
     (if d_active d then joined_ids (d_db d) (map fst (t_nrgnb (d_db d))) else [])"

definition GetLastRegistrationRequests :: "oran_data \<Rightarrow> (uint64 \<times> time) list" where
  "GetLastRegistrationRequests d =
     (if d_active d then last_registrations (d_db d) (t_noderegistration (d_db d)) else [])"

text \<open>\<open>ORDER BY entryid DESC LIMIT 1\<close>.\<close>

definition last_value :: "nodevalue list \<Rightarrow> uint64 \<Rightarrow> double" where
  "last_value rows n =
     (case limit1 (rev (filter (\<lambda>r. nv_nodeid r = n) rows)) of None \<Rightarrow> 0 | Some r \<Rightarrow> nv_value r)"

definition GetAppLoss :: "oran_data \<Rightarrow> uint64 \<Rightarrow> double" where
  "GetAppLoss d n =
     (if d_active d \<and> IsNodeRegistered d n then last_value (t_nodeapploss (d_db d)) n else 0)"

definition GetLteCellLoad :: "oran_data \<Rightarrow> uint64 \<Rightarrow> double" where
  "GetLteCellLoad d n =
     (if d_active d \<and> IsNodeRegistered d n then last_value (t_loadcell (d_db d)) n else 0)"

definition GetNrCellLoad :: "oran_data \<Rightarrow> uint64 \<Rightarrow> double" where
  "GetNrCellLoad d n =
     (if d_active d \<and> IsNodeRegistered d n then last_value (t_loadcell (d_db d)) n else 0)"

definition node_of_cell :: "uecell list \<Rightarrow> uint16 \<Rightarrow> uint16 \<Rightarrow> uint64" where
  "node_of_cell rows cellId rnti =
     (case limit1 (rev (filter (\<lambda>r. uc_cellid r = cellId \<and> uc_rnti r = rnti) rows)) of
        None \<Rightarrow> 0
      | Some r \<Rightarrow> uc_nodeid r)"

definition GetLteUeE2NodeIdFromCellInfo :: "oran_data \<Rightarrow> uint16 \<Rightarrow> uint16 \<Rightarrow> uint64" where
  "GetLteUeE2NodeIdFromCellInfo d cellId rnti =
     (if d_active d then node_of_cell (t_lteuecell (d_db d)) cellId rnti else 0)"

definition GetNrUeE2NodeIdFromCellInfo :: "oran_data \<Rightarrow> uint16 \<Rightarrow> uint16 \<Rightarrow> uint64" where
  "GetNrUeE2NodeIdFromCellInfo d cellId rnti =
     (if d_active d then node_of_cell (t_nruecell (d_db d)) cellId rnti else 0)"

definition cell_of_node :: "(uint64 \<times> uint16) list \<Rightarrow> uint64 \<Rightarrow> bool \<times> uint16" where
  "cell_of_node rows n = (case map_of rows n of None \<Rightarrow> (False, 0) | Some c \<Rightarrow> (True, c))"

definition GetLteEnbCellInfo :: "oran_data \<Rightarrow> uint64 \<Rightarrow> bool \<times> uint16" where
  "GetLteEnbCellInfo d n =
     (if d_active d \<and> IsNodeRegistered d n then cell_of_node (t_lteenb (d_db d)) n else (False, 0))"

definition GetNrGnbCellInfo :: "oran_data \<Rightarrow> uint64 \<Rightarrow> bool \<times> uint16" where
  "GetNrGnbCellInfo d n =
     (if d_active d \<and> IsNodeRegistered d n then cell_of_node (t_nrgnb (d_db d)) n else (False, 0))"

text \<open>The measurements of the most recent time: \<open>simulationtime IN (SELECT ... LIMIT 1)\<close>.\<close>

definition newest :: "('r \<Rightarrow> time) \<Rightarrow> 'r list \<Rightarrow> 'r list" where
  "newest t rows =
     (case limit1 (order_desc t rows) of None \<Rightarrow> [] | Some r0 \<Rightarrow> filter (\<lambda>r. t r = t r0) rows)"

type_synonym measurement = "uint16 \<times> uint16 \<times> double \<times> double \<times> bool \<times> uint8"

definition measurement_of :: "rsrprsrq \<Rightarrow> measurement" where
  "measurement_of r = (ms_rnti r, ms_cellid r, ms_rsrp r, ms_rsrq r, ms_serving r, ms_ccid r)"

definition GetLteUeRsrpRsrq :: "oran_data \<Rightarrow> uint64 \<Rightarrow> measurement list" where
  "GetLteUeRsrpRsrq d n =
     (if d_active d \<and> IsNodeRegistered d n
      then map measurement_of (scan_rows (d_db d)
             (newest ms_time (filter (\<lambda>r. ms_nodeid r = n) (t_lteuersrprsrq (d_db d)))))
      else [])"

definition GetNrUeRsrpRsrq :: "oran_data \<Rightarrow> uint64 \<Rightarrow> measurement list" where
  "GetNrUeRsrpRsrq d n =
     (if d_active d \<and> IsNodeRegistered d n
      then map measurement_of (scan_rows (d_db d)
             (newest ms_time (filter (\<lambda>r. ms_nodeid r = n) (t_nruersrprsrq (d_db d)))))
      else [])"

definition GetNrUeSinr :: "oran_data \<Rightarrow> uint64 \<Rightarrow> (uint16 \<times> uint16 \<times> uint16 \<times> double \<times> double \<times> bool) list" where
  "GetNrUeSinr d n =
     (if d_active d \<and> IsNodeRegistered d n
      then map (\<lambda>r. (sn_rnti r, sn_cellid r, sn_bwpid r, sn_sinr_lin r, sn_sinr_db r, sn_is_ctrl r))
             (scan_rows (d_db d)
               (newest sn_time (filter (\<lambda>r. sn_nodeid r = n) (t_nruesinr (d_db d)))))
      else [])"

definition GetNrEveSinr :: "oran_data \<Rightarrow> uint64 \<Rightarrow> (uint16 \<times> uint16 \<times> double \<times> double \<times> bool) list" where
  "GetNrEveSinr d n =
     (if d_active d
      then map (\<lambda>r. (ev_cellid r, ev_bwpid r, ev_sinr_lin r, ev_sinr_db r, ev_is_ctrl r))
             (scan_rows (d_db d)
               (newest ev_time (filter (\<lambda>r. ev_nodeid r = n) (t_nrevesinr (d_db d)))))
      else [])"

definition GetNrEveNodeIds :: "oran_data \<Rightarrow> uint64 list" where
  "GetNrEveNodeIds d = (if d_active d then sort_key sint (map fst (t_nreve (d_db d))) else [])"

section \<open>Logs\<close>

definition LogNrEve :: "uint64 \<Rightarrow> string \<Rightarrow> oran_data \<Rightarrow> oran_data" where
  "LogNrEve n label d =
     (if d_active d
      then if map_of (t_nreve (d_db d)) n = None
           then d\<lparr>d_db := (d_db d)\<lparr>t_nreve := t_nreve (d_db d) @ [(n, label)]\<rparr>\<rparr>
           else d
      else d)"

definition LogNrEveSinr ::
  "time \<Rightarrow> uint64 \<Rightarrow> uint16 \<Rightarrow> uint16 \<Rightarrow> double \<Rightarrow> double \<Rightarrow> bool \<Rightarrow> oran_data \<Rightarrow> oran_data" where
  "LogNrEveSinr now n cellId bwpId sinrLin sinrDb isCtrl d =
     (if d_active d
      then (let d1 = LogNrEve n ''EVE'' d
            in d1\<lparr>d_db := (d_db d1)\<lparr>t_nrevesinr := t_nrevesinr (d_db d1) @
                 [\<lparr>ev_nodeid = n, ev_time = now, ev_cellid = cellId, ev_bwpid = bwpId,
                   ev_sinr_lin = sinrLin, ev_sinr_db = sinrDb, ev_is_ctrl = isCtrl\<rparr>]\<rparr>\<rparr>)
      else d)"

text \<open>
  The text of a command is bound with \<open>SQLITE_STATIC\<close> and destroyed before the statement runs: what is stored
  is whatever the freed memory then holds, \<open>freed\<close> of the text.
\<close>

definition LogCommandE2Terminator :: "time \<Rightarrow> oran_command \<Rightarrow> oran_data \<Rightarrow> oran_data" where
  "LogCommandE2Terminator now cmd d =
     (if d_active d \<and> IsNodeRegistered d (GetTargetE2NodeId cmd)
      then d\<lparr>d_db := (d_db d)\<lparr>t_terminatorcommand := t_terminatorcommand (d_db d) @
             [\<lparr>tc_targetid = GetTargetE2NodeId cmd, tc_time = now, tc_cmdname = freed (d_db d) (cmd_ToString cmd)\<rparr>]\<rparr>\<rparr>
      else d)"

definition LogCommandLm :: "time \<Rightarrow> string \<Rightarrow> oran_command \<Rightarrow> oran_data \<Rightarrow> oran_data" where
  "LogCommandLm now lm cmd d =
     (if d_active d
      then d\<lparr>d_db := (d_db d)\<lparr>t_lmcommand := t_lmcommand (d_db d) @
             [\<lparr>log_name = lm, log_time = now, log_text = freed (d_db d) (cmd_ToString cmd)\<rparr>]\<rparr>\<rparr>
      else d)"

definition LogActionLm :: "time \<Rightarrow> string \<Rightarrow> string \<Rightarrow> oran_data \<Rightarrow> oran_data" where
  "LogActionLm now lm logStr d =
     (if d_active d
      then d\<lparr>d_db := (d_db d)\<lparr>t_lmaction := t_lmaction (d_db d) @
             [\<lparr>log_name = lm, log_time = now, log_text = logStr\<rparr>]\<rparr>\<rparr>
      else d)"

definition LogActionCmm :: "time \<Rightarrow> string \<Rightarrow> string \<Rightarrow> oran_data \<Rightarrow> oran_data" where
  "LogActionCmm now cmm logStr d =
     (if d_active d
      then d\<lparr>d_db := (d_db d)\<lparr>t_cmmaction := t_cmmaction (d_db d) @
             [\<lparr>log_name = cmm, log_time = now, log_text = logStr\<rparr>]\<rparr>\<rparr>
      else d)"

section \<open>Newest rows\<close>

lemma insort_key_snoc:
  "f x \<le> f r \<Longrightarrow> insort_key f x (ys @ [r]) = insort_key f x ys @ [r]"
  by (induction ys) auto

lemma sort_key_snoc_max:
  "\<forall>x\<in>set rows. f x \<le> f r \<Longrightarrow> sort_key f (rows @ [r]) = sort_key f rows @ [r]"
  by (induction rows) (auto simp: insort_key_snoc)

lemma limit1_order_desc_snoc:
  "\<forall>x\<in>set rows. t x \<le> t r \<Longrightarrow> limit1 (order_desc t (rows @ [r])) = Some r"
  by (simp add: order_desc_def sort_key_snoc_max limit1_def)

lemma limit1_order_desc_Nil [simp]: "limit1 (order_desc t []) = None"
  by (simp add: limit1_def order_desc_def)

lemma limit1_order_desc_None [simp]: "limit1 (order_desc t rows) = None \<longleftrightarrow> rows = []"
proof
  assume "limit1 (order_desc t rows) = None"
  then have "sort_key t rows = []" by (auto simp: limit1_def order_desc_def split: list.splits)
  then show "rows = []" using set_sort [of t rows] by simp
qed simp

lemma limit1_order_desc_max:
  assumes "limit1 (order_desc t rows) = Some r"
  shows "r \<in> set rows" and "x \<in> set rows \<Longrightarrow> t x \<le> t r"
proof -
  let ?s = "sort_key t rows"
  from assms obtain zs where "rev ?s = r # zs"
    by (auto simp: limit1_def order_desc_def split: list.splits)
  then have s: "?s = rev zs @ [r]" by (metis rev.simps(2) rev_rev_ident)
  have set: "set ?s = set rows" by simp
  show "r \<in> set rows" using s set by (metis in_set_conv_decomp)
  have "sorted (map t ?s)" by simp
  then have "\<forall>y\<in>set (rev zs). t y \<le> t r" by (simp add: s sorted_append)
  moreover assume "x \<in> set rows"
  then have "x = r \<or> x \<in> set (rev zs)" using s set by (metis Un_iff set_append empty_iff insert_iff list.set)
  ultimately show "t x \<le> t r" by auto
qed

text \<open>With one row at the newest time, that row is the one both kinds of statement report.\<close>

lemma limit1_order_desc_unique:
  assumes "r \<in> set rows" and "\<And>x. x \<in> set rows \<Longrightarrow> t x \<le> t r"
    and "\<And>x. x \<in> set rows \<Longrightarrow> t x = t r \<Longrightarrow> x = r"
  shows "limit1 (order_desc t rows) = Some r"
proof -
  from assms(1) obtain q where q: "limit1 (order_desc t rows) = Some q"
    by (cases "limit1 (order_desc t rows)") auto
  have "t q = t r"
    using limit1_order_desc_max [OF q] assms(1,2) by (meson order_antisym)
  with q assms(3) limit1_order_desc_max(1) [OF q] show ?thesis by blast
qed

lemma newest_eq:
  "newest t rows = filter (\<lambda>r. \<forall>x\<in>set rows. t x \<le> t r) rows"
proof (cases "limit1 (order_desc t rows)")
  case None
  then show ?thesis by (simp add: newest_def)
next
  case (Some r0)
  have "t r = t r0 \<longleftrightarrow> (\<forall>x\<in>set rows. t x \<le> t r)" if "r \<in> set rows" for r
    using that limit1_order_desc_max [OF Some] by (metis order_antisym)
  then show ?thesis by (simp add: newest_def Some cong: filter_cong)
qed

lemma newest_snoc:
  assumes "\<forall>x\<in>set rows. t x < t r"
  shows "newest t (rows @ [r]) = [r]"
  using assms by (auto simp: newest_eq filter_empty_conv not_le)

lemma mset_scan_rows:
  assumes "engine_ok db"
  shows "mset (scan_rows db rows) = mset rows"
proof -
  let ?n = "length rows"
  have p: "distinct (scan db ?n)" "set (scan db ?n) = {..<?n}"
    using assms by (auto simp: engine_ok_def)
  have "set (scan db ?n) = set [0..<?n]" unfolding p(2) by (simp add: lessThan_atLeast0)
  then have "mset (scan db ?n) = mset [0..<?n]"
    by (rule set_eq_iff_mset_eq_distinct [OF p(1) distinct_upt, THEN iffD1])
  then have "mset (map (\<lambda>i. rows ! i) (scan db ?n)) = mset (map (\<lambda>i. rows ! i) [0..<?n])"
    by (metis mset_map)
  then show ?thesis by (simp only: scan_rows_def map_nth)
qed

section \<open>Registrations\<close>

definition node_regs :: "oran_data \<Rightarrow> uint64 \<Rightarrow> noderegistration list" where
  "node_regs d n = filter (\<lambda>r. reg_nodeid r = n) (t_noderegistration (d_db d))"

text \<open>No registration lies in the future.\<close>

definition regs_upto :: "time \<Rightarrow> oran_data \<Rightarrow> bool" where
  "regs_upto now d \<longleftrightarrow> (\<forall>r\<in>set (t_noderegistration (d_db d)). reg_time r \<le> now)"

lemma IsNodeRegistered_alt:
  "IsNodeRegistered d n \<longleftrightarrow>
    d_active d \<and> (\<exists>r. limit1 (order_desc reg_time (node_regs d n)) = Some r \<and> reg_registered r)"
  by (auto simp: IsNodeRegistered_def node_regs_def split: option.splits)

lemma IsNodeRegistered_cong:
  "d_active d' = d_active d \<Longrightarrow> t_noderegistration (d_db d') = t_noderegistration (d_db d) \<Longrightarrow>
    IsNodeRegistered d' n = IsNodeRegistered d n"
  by (simp add: IsNodeRegistered_def)

lemma insert_registration_simps [simp]:
  "d_active (insert_registration n r now d) = d_active d"
  "t_noderegistration (d_db (insert_registration n r now d)) =
     t_noderegistration (d_db d) @ [\<lparr>reg_nodeid = n, reg_registered = r, reg_time = now\<rparr>]"
  "t_node (d_db (insert_registration n r now d)) = t_node (d_db d)"
  "node_seq (d_db (insert_registration n r now d)) = node_seq (d_db d)"
  "t_lteue (d_db (insert_registration n r now d)) = t_lteue (d_db d)"
  "t_nrue (d_db (insert_registration n r now d)) = t_nrue (d_db d)"
  "t_lteenb (d_db (insert_registration n r now d)) = t_lteenb (d_db d)"
  "t_nrgnb (d_db (insert_registration n r now d)) = t_nrgnb (d_db d)"
  "scan (d_db (insert_registration n r now d)) = scan (d_db d)"
  "bare (d_db (insert_registration n r now d)) = bare (d_db d)"
  by (simp_all add: insert_registration_def)

lemma insert_registration_registered:
  assumes "d_active d" and "regs_upto now d"
  shows "IsNodeRegistered (insert_registration n r now d) m = (if m = n then r else IsNodeRegistered d m)"
proof (cases "m = n")
  case True
  have "\<forall>x\<in>set (node_regs d n). reg_time x \<le> now"
    using assms(2) by (auto simp: regs_upto_def node_regs_def)
  with assms(1) True show ?thesis
    by (auto simp: IsNodeRegistered_alt node_regs_def limit1_order_desc_snoc)
next
  case False
  then show ?thesis by (simp add: IsNodeRegistered_def)
qed

lemma insert_registration_upto [simp]:
  "regs_upto now d \<Longrightarrow> regs_upto now (insert_registration n r now d)"
  by (auto simp: regs_upto_def)

lemma insert_node_frame [simp]:
  "d_active (snd (insert_node_add ty d)) = d_active d"
  "t_noderegistration (d_db (snd (insert_node_add ty d))) = t_noderegistration (d_db d)"
  "t_nrue (d_db (snd (insert_node_add ty d))) = t_nrue (d_db d)"
  "t_nrgnb (d_db (snd (insert_node_add ty d))) = t_nrgnb (d_db d)"
  "bare (d_db (snd (insert_node_add ty d))) = bare (d_db d)"
  "scan (d_db (snd (insert_node_add ty d))) = scan (d_db d)"
  "fst (insert_node_add ty d) = word_of_int (node_seq (d_db d) + 1)"
  "d_active (snd (insert_node_update i ty d)) = d_active d"
  "t_noderegistration (d_db (snd (insert_node_update i ty d))) = t_noderegistration (d_db d)"
  "t_nrue (d_db (snd (insert_node_update i ty d))) = t_nrue (d_db d)"
  "t_nrgnb (d_db (snd (insert_node_update i ty d))) = t_nrgnb (d_db d)"
  "bare (d_db (snd (insert_node_update i ty d))) = bare (d_db d)"
  "scan (d_db (snd (insert_node_update i ty d))) = scan (d_db d)"
  "fst (insert_node_update i ty d) = bind_int i"
  by (simp_all add: insert_node_add_def insert_node_update_def Let_def)

lemma regs_upto_cong:
  "t_noderegistration (d_db d') = t_noderegistration (d_db d) \<Longrightarrow> regs_upto now d' = regs_upto now d"
  by (simp add: regs_upto_def)

lemma RegisterNode_eq:
  assumes "d_active d"
  shows "RegisterNode now ty i d =
    (let p = (if i = 0 then insert_node_add ty d else insert_node_update i ty d)
     in (fst p, insert_registration (fst p) True now (snd p)))"
  using assms by (simp add: RegisterNode_def Let_def case_prod_beta)

lemma RegisterNode_registered:
  assumes a: "d_active d" and u: "regs_upto now d" and r: "RegisterNode now ty i d = (e, d')"
  shows "IsNodeRegistered d' m = (m = e \<or> IsNodeRegistered d m)" and "regs_upto now d'"
    and "d_active d'"
proof -
  define p where "p = (if i = 0 then insert_node_add ty d else insert_node_update i ty d)"
  have e: "e = fst p" and d': "d' = insert_registration (fst p) True now (snd p)"
    using r unfolding RegisterNode_eq [OF a] Let_def p_def [symmetric] by auto
  have same: "d_active (snd p) = d_active d"
      "t_noderegistration (d_db (snd p)) = t_noderegistration (d_db d)"
    by (simp_all add: p_def)
  then have up: "regs_upto now (snd p)" using u regs_upto_cong by blast
  show "IsNodeRegistered d' m = (m = e \<or> IsNodeRegistered d m)"
    using insert_registration_registered [OF _ up, of "fst p" True m] a same
      IsNodeRegistered_cong [OF same] by (auto simp: d' e)
  show "regs_upto now d'" "d_active d'" using up a same by (simp_all add: d')
qed

lemma DeregisterNode_registered:
  assumes a: "d_active d" and u: "regs_upto now d" and r: "DeregisterNode now n d = (e, d')"
  shows "IsNodeRegistered d' m = (m \<noteq> n \<and> IsNodeRegistered d m)" and "regs_upto now d'"
    and "d_active d'" and "e = n"
  using assms by (auto simp: DeregisterNode_def insert_registration_registered split: if_splits)

lemma bind_int_small:
  assumes "unat i < 2 ^ 31"
  shows "bind_int i = i"
proof -
  have "uint i = int (unat i)" by simp
  also have "\<dots> < int (2 ^ 31)" using assms by (simp only: of_nat_less_iff)
  finally have u: "uint i < 2 ^ 31" by simp
  have "uint (ucast i :: 32 word) = uint i"
    using u by (simp add: unsigned_ucast_eq take_bit_int_eq_self)
  then have "sint (ucast i :: 32 word) = uint i"
    using u signed_take_bit_int_eq_self [of 31 "uint i"] uint_ge_0 [of i] by (simp add: sint_uint)
  then show ?thesis by (simp add: bind_int_def scast_eq)
qed

section \<open>The grouped statements\<close>

lemma group_max_spec:
  assumes "engine_ok db" and "filter (\<lambda>r. reg_nodeid r = n) rows \<noteq> []"
  shows "group_max db rows n \<in> set rows" and "reg_nodeid (group_max db rows n) = n"
    and "x \<in> set rows \<Longrightarrow> reg_nodeid x = n \<Longrightarrow> reg_time x \<le> reg_time (group_max db rows n)"
proof -
  define grp where "grp = filter (\<lambda>r. reg_nodeid r = n) rows"
  define mx where "mx = Max (set (map reg_time grp))"
  define ties where "ties = filter (\<lambda>r. reg_time r = mx) grp"
  have gm: "group_max db rows n = ties ! bare db (length ties)"
    by (simp add: group_max_def Let_def grp_def mx_def ties_def)
  have ne: "grp \<noteq> []" using assms(2) by (simp add: grp_def)
  have "mx \<in> set (map reg_time grp)" unfolding mx_def by (rule Max_in) (use ne in auto)
  then have "ties \<noteq> []" by (auto simp: ties_def filter_empty_conv)
  then have "bare db (length ties) < length ties" using assms(1) by (simp add: engine_ok_def)
  then have "ties ! bare db (length ties) \<in> set ties" by simp
  then have g: "group_max db rows n \<in> set grp" "reg_time (group_max db rows n) = mx"
    by (auto simp: gm ties_def)
  show "group_max db rows n \<in> set rows" "reg_nodeid (group_max db rows n) = n"
    using g(1) by (auto simp: grp_def)
  show "x \<in> set rows \<Longrightarrow> reg_nodeid x = n \<Longrightarrow> reg_time x \<le> reg_time (group_max db rows n)"
    unfolding g(2) mx_def by (rule Max_ge) (auto simp: grp_def)
qed

lemma set_group_ids [simp]: "set (group_ids rows) = reg_nodeid ` set rows"
  by (simp add: group_ids_def)

lemma group_ids_sorted: "sorted_wrt (\<lambda>a b. sint a < sint b) (group_ids rows)"
proof -
  have "distinct (group_ids rows)" by (simp add: group_ids_def)
  then have "distinct (map sint (group_ids rows))"
    by (simp add: distinct_map inj_on_def signed_word_eqI)
  moreover have "sorted (map sint (group_ids rows))" by (simp add: group_ids_def)
  ultimately have "sorted_wrt (<) (map sint (group_ids rows))" by (simp add: strict_sorted_iff)
  then show ?thesis by (simp add: sorted_wrt_map)
qed

lemma last_registrations_iff:
  "(n, t) \<in> set (last_registrations db rows) \<longleftrightarrow>
    n \<in> reg_nodeid ` set rows \<and> reg_registered (group_max db rows n) \<and>
    t = reg_time (group_max db rows n)"
  by (auto simp: last_registrations_def)

lemma last_registrations_sorted:
  "sorted_wrt (\<lambda>a b. sint a < sint b) (map fst (last_registrations db rows))"
  using group_ids_sorted [of rows]
  by (simp add: last_registrations_def comp_def sorted_wrt_filter)

text \<open>All newest registrations of a node say the same: no request and no removal at one time step.\<close>

definition agree_newest :: "oran_data \<Rightarrow> uint64 \<Rightarrow> bool" where
  "agree_newest d n \<longleftrightarrow>
     (\<forall>x\<in>set (newest reg_time (node_regs d n)). \<forall>y\<in>set (newest reg_time (node_regs d n)).
        reg_registered x = reg_registered y)"

lemma newest_mem:
  "r \<in> set rows \<Longrightarrow> (\<And>x. x \<in> set rows \<Longrightarrow> t x \<le> t r) \<Longrightarrow> r \<in> set (newest t rows)"
  by (auto simp: newest_eq)

lemma group_max_registered:
  assumes eng: "engine_ok (d_db d)" and act: "d_active d" and ag: "agree_newest d n"
    and rows: "filter (\<lambda>r. reg_nodeid r = n) rows = node_regs d n" and ne: "node_regs d n \<noteq> []"
  shows "reg_registered (group_max (d_db d) rows n) = IsNodeRegistered d n"
proof -
  let ?g = "group_max (d_db d) rows n"
  obtain r where r: "limit1 (order_desc reg_time (node_regs d n)) = Some r"
    using ne by (cases "limit1 (order_desc reg_time (node_regs d n))") auto
  have sub: "x \<in> set rows \<and> reg_nodeid x = n \<longleftrightarrow> x \<in> set (node_regs d n)" for x
    by (simp flip: rows)
  note gm = group_max_spec [OF eng, of n rows, unfolded rows, OF ne]
  have "?g \<in> set (node_regs d n)" using gm(1,2) sub by blast
  moreover have "reg_time x \<le> reg_time ?g" if "x \<in> set (node_regs d n)" for x
    using gm(3) that sub by blast
  ultimately have g: "?g \<in> set (newest reg_time (node_regs d n))" by (rule newest_mem)
  moreover have "r \<in> set (newest reg_time (node_regs d n))"
    using limit1_order_desc_max [OF r] by (intro newest_mem) auto
  ultimately have "reg_registered ?g = reg_registered r" using ag unfolding agree_newest_def by blast
  then show ?thesis using act r by (simp add: IsNodeRegistered_alt)
qed

lemma joined_ids_iff:
  assumes eng: "engine_ok (d_db d)" and act: "d_active d" and ag: "agree_newest d n"
  shows "n \<in> set (joined_ids (d_db d) ks) \<longleftrightarrow> n \<in> set ks \<and> IsNodeRegistered d n"
proof -
  let ?rows = "filter (\<lambda>r. reg_nodeid r \<in> set ks) (t_noderegistration (d_db d))"
  have iff: "n \<in> set (joined_ids (d_db d) ks) \<longleftrightarrow>
      n \<in> reg_nodeid ` set ?rows \<and> reg_registered (group_max (d_db d) ?rows n)"
    unfolding joined_ids_def set_map image_iff Bex_def by (simp add: last_registrations_iff) blast
  show ?thesis
  proof (cases "n \<in> set ks \<and> node_regs d n \<noteq> []")
    case True
    then have f: "filter (\<lambda>r. reg_nodeid r = n) ?rows = node_regs d n"
      by (auto simp: node_regs_def intro: filter_cong)
    have "n \<in> reg_nodeid ` set ?rows"
      using True by (auto simp: node_regs_def filter_empty_conv)
    with True iff group_max_registered [OF eng act ag f] show ?thesis by blast
  next
    case False
    then show ?thesis
      using iff by (auto simp: IsNodeRegistered_alt node_regs_def filter_empty_conv)
  qed
qed

section \<open>Tables that answer with the latest entry\<close>

definition save_all :: "('n \<Rightarrow> 'v \<Rightarrow> time \<Rightarrow> 'd \<Rightarrow> 'd) \<Rightarrow> ('n \<times> 'v \<times> time) list \<Rightarrow> 'd \<Rightarrow> 'd" where
  "save_all save = fold (\<lambda>(n, v, t). save n v t)"

lemma save_all_simps [simp]:
  "save_all save [] d = d"
  "save_all save ((n, v, t) # es) d = save_all save es (save n v t d)"
  "save_all save (es @ fs) d = save_all save fs (save_all save es d)"
  by (simp_all add: save_all_def)

text \<open>
  The contract of a save/get pair: a value saved for a registered node and not older than the
  entries before it is what the query answers; a report from a node that is not registered is
  dropped; what the query answers for the other nodes and the registrations do not change.
  \<open>upto t n d\<close> says that \<open>d\<close> holds no entry of node \<open>n\<close> that is newer than \<open>t\<close>.
\<close>

locale latest_table =
  fixes save :: "uint64 \<Rightarrow> 'v \<Rightarrow> time \<Rightarrow> oran_data \<Rightarrow> oran_data"
    and get :: "oran_data \<Rightarrow> uint64 \<Rightarrow> 'w"
    and answer :: "'v \<Rightarrow> 'w"
    and upto :: "time \<Rightarrow> uint64 \<Rightarrow> oran_data \<Rightarrow> bool"
  assumes get_save: "IsNodeRegistered d n \<Longrightarrow> upto t n d \<Longrightarrow> get (save n v t d) n = answer v"
    and get_other: "m \<noteq> n \<Longrightarrow> get (save n v t d) m = get d m"
    and save_dropped: "\<not> IsNodeRegistered d n \<Longrightarrow> save n v t d = d"
    and registered_save: "IsNodeRegistered (save n v t d) m = IsNodeRegistered d m"
    and upto_save: "upto t m d \<Longrightarrow> upto t m (save n v t d)"
    and upto_later: "upto t m d \<Longrightarrow> t \<le> t' \<Longrightarrow> upto t' m d"
begin

lemma registered_save_all: "IsNodeRegistered (save_all save es d) m = IsNodeRegistered d m"
proof (induction es arbitrary: d)
  case (Cons e es)
  then show ?case by (cases e) (simp add: registered_save)
qed simp

lemma get_others: "n \<notin> fst ` set es \<Longrightarrow> get (save_all save es d) n = get d n"
proof (induction es arbitrary: d)
  case (Cons e es)
  then show ?case by (cases e) (simp add: get_other)
qed simp

lemma upto_save_all:
  assumes "sorted (map (snd \<circ> snd) es @ [t])" and "upto t0 m d"
    and "\<forall>x\<in>set (map (snd \<circ> snd) es @ [t]). t0 \<le> x"
  shows "upto t m (save_all save es d)"
  using assms
proof (induction es arbitrary: d t0)
  case Nil
  then show ?case by (auto intro: upto_later)
next
  case (Cons e es)
  obtain n v t1 where e: "e = (n, v, t1)" by (cases e)
  have "upto t1 m (save n v t1 d)"
    using Cons.prems by (auto simp: e intro: upto_save upto_later)
  with Cons.IH [of t1] Cons.prems show ?case by (auto simp: e)
qed

lemma get_last:
  assumes reg: "IsNodeRegistered d n"
    and srt: "sorted (map (snd \<circ> snd) (es @ [(n, v, t)]))"
    and old: "upto t0 n d" "\<forall>e\<in>set (es @ [(n, v, t)]). t0 \<le> snd (snd e)"
    and post: "n \<notin> fst ` set fs"
  shows "get (save_all save (es @ (n, v, t) # fs) d) n = answer v"
proof -
  have "upto t n (save_all save es d)"
    using srt old by (intro upto_save_all [of es t t0]) auto
  then show ?thesis
    using reg post by (simp add: get_others get_save registered_save_all)
qed

end

end
