(* ===== verification/Oran_Cmm.thy ===== *)
theory Oran_Cmm
  imports Oran_Repository
begin

text \<open>
  The Conflict Mitigation Modules: \<open>OranCmm\<close> (\<open>oran-cmm.cc\<close>) and its subclasses
  \<open>OranCmmNoop\<close>, \<open>OranCmmHandover\<close> and \<open>OranCmmSingleCommandPerNode\<close>. A module takes the
  commands the logic modules issued in a cycle, keyed by the name of the logic module and whether it
  is the default one, and returns those that go to the E2 nodes. The interface \<open>conflict_mitigation\<close>
  is what the Near-RT RIC relies on; every module is an instance.
\<close>

section \<open>The base class\<close>

type_synonym lm_commands = "((string \<times> bool) \<times> oran_command list) list"

text \<open>The subclass, with the members it adds (\<open>m_pendingCmds\<close> of \<open>OranCmmHandover\<close>).\<close>

datatype cmm_class =
    OranCmmNoop
  | OranCmmHandover "handover_cmd list"
  | OranCmmSingleCommandPerNode

record oran_cmm =
  cmm_nearRtRic :: bool
  cmm_active :: bool
  cmm_verbose :: bool
  cmm_name :: string
  cmm_class :: cmm_class

definition OranCmm :: "string \<Rightarrow> cmm_class \<Rightarrow> oran_cmm" where
  "OranCmm name cls =
     \<lparr>cmm_nearRtRic = False, cmm_active = False, cmm_verbose = False, cmm_name = name,
      cmm_class = cls\<rparr>"

definition cmm_Activate :: "oran_cmm \<Rightarrow> oran_cmm res" where
  "cmm_Activate c = abort_if (\<not> cmm_nearRtRic c) NullNearRtRic (Inr (c\<lparr>cmm_active := True\<rparr>))"

definition cmm_Deactivate :: "oran_cmm \<Rightarrow> oran_cmm" where
  "cmm_Deactivate c = c\<lparr>cmm_active := False\<rparr>"

text \<open>
  The logging call, and its body once the pointer to the RIC is known to be set (which \<open>Filter\<close>
  of every subclass checks first).
\<close>

definition log_logic :: "time \<Rightarrow> oran_cmm \<Rightarrow> string \<Rightarrow> oran_data \<Rightarrow> oran_data" where
  "log_logic now c msg d =
     (if cmm_verbose c
      then LogActionCmm now (cmm_name c)
             (seconds_to_string now @ '' -- '' @ cmm_name c @ '' -- '' @ msg) d
      else d)"

definition LogLogicToStorage :: "time \<Rightarrow> oran_cmm \<Rightarrow> string \<Rightarrow> oran_data \<Rightarrow> oran_data res" where
  "LogLogicToStorage now c msg d =
     abort_if (\<not> cmm_nearRtRic c) NullNearRtRic (Inr (log_logic now c msg d))"

section \<open>The modules\<close>

definition noop_Filter ::
  "time \<Rightarrow> oran_cmm \<Rightarrow> lm_commands \<Rightarrow> oran_data \<Rightarrow> (oran_command list \<times> oran_cmm \<times> oran_data) res" where
  "noop_Filter now c inputCommands d =
     abort_if (\<not> cmm_nearRtRic c) NullNearRtRic
       (res_bind (LogLogicToStorage now c ''No action taken'' d)
         (\<lambda>d'. Inr (concat (map snd inputCommands), c, d')))"

text \<open>\<open>OranCmmHandover\<close>: the output so far, \<open>m_pendingCmds\<close> and the storage are the state of the loops.\<close>

type_synonym handover_state = "oran_command list \<times> handover_cmd list \<times> oran_data"

definition is_pending :: "handover_cmd list \<Rightarrow> handover_cmd \<Rightarrow> bool" where
  "is_pending pend h \<longleftrightarrow>
     (\<exists>p\<in>set pend. cmd_targetE2NodeId p = cmd_targetE2NodeId h \<and>
        cmd_targetCellId p = cmd_targetCellId h \<and> cmd_targetRnti p = cmd_targetRnti h)"

definition handover_step ::
  "time \<Rightarrow> oran_cmm \<Rightarrow> oran_command \<Rightarrow> handover_state \<Rightarrow> handover_state" where
  "handover_step now c cmd st =
     (case st of (commands, pend, d) \<Rightarrow>
        (case cmd of
           OranCommandLte2LteHandover h \<Rightarrow>
             if is_pending pend h
             then (commands, pend,
                   log_logic now c (''Excluding a pending command: '' @ cmd_ToString cmd) d)
             else (commands @ [cmd], pend @ [h], d)
         | _ \<Rightarrow> (commands @ [cmd], pend, d)))"

definition m_pendingCmds :: "oran_cmm \<Rightarrow> handover_cmd list" where
  "m_pendingCmds c = (case cmm_class c of OranCmmHandover p \<Rightarrow> p | _ \<Rightarrow> [])"

definition handover_Filter ::
  "time \<Rightarrow> oran_cmm \<Rightarrow> lm_commands \<Rightarrow> oran_data \<Rightarrow> (oran_command list \<times> oran_cmm \<times> oran_data) res" where
  "handover_Filter now c inputCommands d =
     abort_if (\<not> cmm_nearRtRic c) NullNearRtRic
       (let (commands, pend, d') =
              fold (\<lambda>commandSet. fold (handover_step now c) (snd commandSet)) inputCommands
                ([], m_pendingCmds c, d)
        in Inr (commands, c\<lparr>cmm_class := OranCmmHandover pend\<rparr>, d'))"

text \<open>\<open>OranCmmSingleCommandPerNode\<close>: the E2 node a command affects, and the two maps of \<open>Filter\<close>.\<close>

definition affected_node :: "oran_data \<Rightarrow> oran_command \<Rightarrow> uint64" where
  "affected_node d command =
     (case command of
        OranCommandLte2LteHandover h \<Rightarrow>
          GetLteUeE2NodeIdFromCellInfo d (snd (GetLteEnbCellInfo d (GetTargetE2NodeId command)))
            (cmd_targetRnti h)
      | OranCommandNr2NrHandover h \<Rightarrow>
          GetNrUeE2NodeIdFromCellInfo d (snd (GetNrGnbCellInfo d (GetTargetE2NodeId command)))
            (cmd_targetRnti h)
      | OranCommand i \<Rightarrow> GetTargetE2NodeId command)"

definition evaluating_msg :: "oran_command \<Rightarrow> uint64 \<Rightarrow> string" where
  "evaluating_msg command n =
     (case command of
        OranCommandLte2LteHandover _ \<Rightarrow> ''Evaluating LTE-to-LTE Handover command affecting E2 Node ''
      | OranCommandNr2NrHandover _ \<Rightarrow> ''Evaluating NR-to-NR Handover command affecting E2 Node ''
      | OranCommand _ \<Rightarrow> ''Evaluating commands affecting E2 Node '') @ show_uint64 n"

type_synonym select_state = "(uint64 \<times> bool) list \<times> (uint64 \<times> oran_command) list \<times> oran_data"

definition select_step ::
  "time \<Rightarrow> oran_cmm \<Rightarrow> bool \<Rightarrow> oran_command \<Rightarrow> select_state \<Rightarrow> select_state" where
  "select_step now c defaultLm command st =
     (case st of (affectedNodes, selectedCommands, d) \<Rightarrow>
        (let n = affected_node d command;
             d1 = log_logic now c (evaluating_msg command n) d
         in case map_of affectedNodes n of
              Some old \<Rightarrow>
                if defaultLm \<and> \<not> old
                then (smap_upd n defaultLm affectedNodes, smap_upd n command selectedCommands,
                      log_logic now c (''There was a command for this node, but the new command '' @
                        ''was issued by the default LM, so new replaces old.'') d1)
                else (affectedNodes, selectedCommands,
                      log_logic now c (''There was a command for this node, and the new command '' @
                        ''has lower precedence (old default? '' @ show_bool old @
                        ''; new default? '' @ show_bool defaultLm @
                        ''). Ignoring new command.'') d1)
            | None \<Rightarrow>
                (smap_upd n defaultLm affectedNodes, smap_upd n command selectedCommands,
                 log_logic now c ''There was no command for this node; Saving new command.'' d1)))"

definition select_set ::
  "time \<Rightarrow> oran_cmm \<Rightarrow> (string \<times> bool) \<times> oran_command list \<Rightarrow> select_state \<Rightarrow> select_state" where
  "select_set now c commandSet st =
     (case st of (affectedNodes, selectedCommands, d) \<Rightarrow>
        fold (select_step now c (snd (fst commandSet))) (snd commandSet)
          (affectedNodes, selectedCommands,
           log_logic now c (''Checking commands from LM '' @ fst (fst commandSet)) d))"

definition single_Filter ::
  "time \<Rightarrow> oran_cmm \<Rightarrow> lm_commands \<Rightarrow> oran_data \<Rightarrow> (oran_command list \<times> oran_cmm \<times> oran_data) res" where
  "single_Filter now c inputCommands d =
     abort_if (\<not> cmm_nearRtRic c) NullNearRtRic
       (if cmm_active c
        then (let (affectedNodes, selectedCommands, d') =
                    fold (select_set now c) inputCommands ([], [], d)
              in Inr (map snd selectedCommands, c, d'))
        else Inr (concat (map snd inputCommands), c, d))"

text \<open>The virtual method \<open>Filter\<close>.\<close>

definition Filter ::
  "time \<Rightarrow> oran_cmm \<Rightarrow> lm_commands \<Rightarrow> oran_data \<Rightarrow> (oran_command list \<times> oran_cmm \<times> oran_data) res" where
  "Filter now c inputCommands d =
     (case cmm_class c of
        OranCmmNoop \<Rightarrow> noop_Filter now c inputCommands d
      | OranCmmHandover _ \<Rightarrow> handover_Filter now c inputCommands d
      | OranCmmSingleCommandPerNode \<Rightarrow> single_Filter now c inputCommands d)"

section \<open>Logging changes only the log\<close>

text \<open>What a module may do to the storage: append to the table of its own actions.\<close>

definition only_cmm_log :: "oran_data \<Rightarrow> oran_data \<Rightarrow> bool" where
  "only_cmm_log d d' \<longleftrightarrow>
     (\<exists>rows. d' = d\<lparr>d_db := (d_db d)\<lparr>t_cmmaction := t_cmmaction (d_db d) @ rows\<rparr>\<rparr>)"

lemma only_cmm_log_refl [simp, intro]: "only_cmm_log d d"
  unfolding only_cmm_log_def by (rule exI [of _ "[]"]) simp

lemma only_cmm_log_trans: "only_cmm_log d d' \<Longrightarrow> only_cmm_log d' d'' \<Longrightarrow> only_cmm_log d d''"
  by (auto simp: only_cmm_log_def)

lemma only_cmm_log_log: "only_cmm_log d (log_logic now c msg d)"
  by (cases "cmm_verbose c \<and> d_active d")
    (auto simp: only_cmm_log_def log_logic_def LogActionCmm_def intro: exI [of _ "[]"])

lemma only_cmm_log_step: "only_cmm_log d d' \<Longrightarrow> only_cmm_log d (log_logic now c msg d')"
  by (rule only_cmm_log_trans [OF _ only_cmm_log_log])

lemma IsNodeRegistered_cmm_log: "only_cmm_log d d' \<Longrightarrow> IsNodeRegistered d' n = IsNodeRegistered d n"
  by (auto simp: only_cmm_log_def IsNodeRegistered_def)

lemma affected_node_cmm_log:
  assumes "only_cmm_log d d'"
  shows "affected_node d' command = affected_node d command"
proof -
  note reg = IsNodeRegistered_cmm_log [OF assms]
  have tabs: "d_active d' = d_active d" "t_lteenb (d_db d') = t_lteenb (d_db d)"
    "t_nrgnb (d_db d') = t_nrgnb (d_db d)" "t_lteuecell (d_db d') = t_lteuecell (d_db d)"
    "t_nruecell (d_db d') = t_nruecell (d_db d)"
    using assms by (auto simp: only_cmm_log_def)
  show ?thesis
    by (simp add: affected_node_def GetLteUeE2NodeIdFromCellInfo_def GetLteEnbCellInfo_def
        GetNrUeE2NodeIdFromCellInfo_def GetNrGnbCellInfo_def reg tabs split: oran_command.split)
qed

section \<open>One command per node\<close>

text \<open>
  The commands of a cycle in the order the loops meet them, each with the flag of its logic module;
  and the choice for a node: the first command of the default logic module that affects it, or else
  the first command that does.
\<close>

definition tagged :: "lm_commands \<Rightarrow> (bool \<times> oran_command) list" where
  "tagged inp = concat (map (\<lambda>s. map (Pair (snd (fst s))) (snd s)) inp)"

definition precedence ::
  "(oran_command \<Rightarrow> uint64) \<Rightarrow> (bool \<times> oran_command) list \<Rightarrow> uint64 \<Rightarrow> oran_command option" where
  "precedence aff xs n =
     (case List.find (\<lambda>x. fst x \<and> aff (snd x) = n) xs of
        Some x \<Rightarrow> Some (snd x)
      | None \<Rightarrow> map_option snd (List.find (\<lambda>x. aff (snd x) = n) xs))"

definition select_inv :: "oran_data \<Rightarrow> (bool \<times> oran_command) list \<Rightarrow> select_state \<Rightarrow> bool" where
  "select_inv d0 xs st \<longleftrightarrow>
     (case st of (affectedNodes, selectedCommands, d) \<Rightarrow>
        only_cmm_log d0 d \<and> smap_ok selectedCommands \<and>
        (\<forall>n. map_of selectedCommands n = precedence (affected_node d0) xs n) \<and>
        (\<forall>n. map_of affectedNodes n =
               (if \<exists>x\<in>set xs. affected_node d0 (snd x) = n
                then Some (\<exists>x\<in>set xs. fst x \<and> affected_node d0 (snd x) = n) else None)))"

lemma find_snoc: "List.find P (xs @ [x]) = (case List.find P xs of None \<Rightarrow> if P x then Some x else None | r \<Rightarrow> r)"
  by (induction xs) auto

lemma find_None_set: "List.find P xs = None \<longleftrightarrow> (\<forall>x\<in>set xs. \<not> P x)"
  by (induction xs) auto

lemma precedence_snoc:
  "precedence aff (xs @ [(b, c)]) n =
     (if aff c = n \<and> ((\<forall>x\<in>set xs. aff (snd x) \<noteq> n) \<or> (b \<and> (\<forall>x\<in>set xs. fst x \<longrightarrow> aff (snd x) \<noteq> n)))
      then Some c else precedence aff xs n)"
proof -
  let ?D = "List.find (\<lambda>x. fst x \<and> aff (snd x) = n) xs" and ?A = "List.find (\<lambda>x. aff (snd x) = n) xs"
  have D: "(\<forall>x\<in>set xs. fst x \<longrightarrow> aff (snd x) \<noteq> n) \<longleftrightarrow> ?D = None"
    unfolding find_None_set by blast
  have A: "(\<forall>x\<in>set xs. aff (snd x) \<noteq> n) \<longleftrightarrow> ?A = None"
    unfolding find_None_set by blast
  have "?A = None \<Longrightarrow> ?D = None" using A D by blast
  then show ?thesis
    unfolding A D by (cases ?D; cases ?A) (auto simp: precedence_def find_snoc)
qed

lemma select_inv_step:
  assumes "select_inv d0 xs st"
  shows "select_inv d0 (xs @ [(b, command)]) (select_step now c b command st)"
proof -
  obtain an sc d where st: "st = (an, sc, d)" by (cases st)
  let ?aff = "affected_node d0" and ?n = "affected_node d0 command"
  have log: "only_cmm_log d0 d" and ok: "smap_ok sc"
    and sc: "\<And>n. map_of sc n = precedence ?aff xs n"
    and an: "\<And>n. map_of an n = (if \<exists>x\<in>set xs. ?aff (snd x) = n
        then Some (\<exists>x\<in>set xs. fst x \<and> ?aff (snd x) = n) else None)"
    using assms by (auto simp: select_inv_def st)
  have aff: "affected_node d command = ?n" by (rule affected_node_cmm_log [OF log])
  note logs = only_cmm_log_step [OF only_cmm_log_step [OF log]]
  show ?thesis
  proof (cases "map_of an ?n")
    case None
    then have "\<forall>x\<in>set xs. ?aff (snd x) \<noteq> ?n" using an by (auto split: if_splits)
    then show ?thesis
      by (auto simp: st select_step_def Let_def aff None select_inv_def logs ok smap_ok_upd
          precedence_snoc sc an)
  next
    case (Some old)
    then have old: "old \<longleftrightarrow> (\<exists>x\<in>set xs. fst x \<and> ?aff (snd x) = ?n)"
      and ex: "\<exists>x\<in>set xs. ?aff (snd x) = ?n"
      using an by (auto split: if_splits)
    show ?thesis
    proof (cases "b \<and> \<not> old")
      case True
      then show ?thesis
        using old ex by (auto simp: st select_step_def Let_def aff Some select_inv_def logs ok smap_ok_upd
          precedence_snoc sc an)
    next
      case False
      then show ?thesis
        using old ex by (auto simp: st select_step_def Let_def aff Some select_inv_def logs ok
          precedence_snoc sc an)
    qed
  qed
qed

lemma select_inv_log:
  "select_inv d0 xs (an, sc, d) \<Longrightarrow> select_inv d0 xs (an, sc, log_logic now c msg d)"
  by (simp add: select_inv_def only_cmm_log_step)

lemma select_inv_set:
  assumes "select_inv d0 xs st"
  shows "select_inv d0 (xs @ tagged [s]) (select_set now c s st)"
proof -
  have "select_inv d0 ys st \<Longrightarrow>
      select_inv d0 (ys @ map (Pair b) cs) (fold (select_step now c b) cs st)" for ys b cs st
  proof (induction cs arbitrary: ys st)
    case (Cons command cs)
    from Cons.IH [OF select_inv_step [OF Cons.prems], of b command] show ?case by simp
  qed simp
  then show ?thesis
    using assms by (cases st) (simp add: select_set_def tagged_def select_inv_log)
qed

lemma select_inv_all:
  assumes "select_inv d0 xs st"
  shows "select_inv d0 (xs @ tagged inp) (fold (select_set now c) inp st)"
  using assms
proof (induction inp arbitrary: xs st)
  case (Cons s inp)
  from Cons.IH [OF select_inv_set [OF Cons.prems], of s] show ?case by (simp add: tagged_def)
qed (simp add: tagged_def)

lemma select_inv_init: "select_inv d [] ([], [], d)"
  by (simp add: select_inv_def precedence_def)

lemma precedence_dom: "precedence aff xs n \<noteq> None \<longleftrightarrow> n \<in> (aff \<circ> snd) ` set xs"
proof -
  let ?D = "List.find (\<lambda>x. fst x \<and> aff (snd x) = n) xs" and ?A = "List.find (\<lambda>x. aff (snd x) = n) xs"
  have "?A = None \<Longrightarrow> ?D = None" unfolding find_None_set by blast
  then have "precedence aff xs n = None \<longleftrightarrow> ?A = None"
    by (cases ?D; cases ?A) (auto simp: precedence_def)
  then show ?thesis by (auto simp: find_None_set)
qed

text \<open>A map with the keys in order is determined by its look-ups.\<close>

lemma smap_values:
  assumes "smap_ok m"
  shows "map snd m = map (\<lambda>k. the (map_of m k)) (sorted_list_of_set (dom (map_of m)))"
proof -
  have d: "distinct (map fst m)" and s: "sorted (map fst m)"
    using assms by (auto simp: smap_ok_def strict_sorted_iff)
  have "sorted_list_of_set (dom (map_of m)) = map fst m"
    using d s by (simp add: dom_map_of_conv_image_fst sorted_list_of_set.idem_if_sorted_distinct
        flip: set_map)
  then show ?thesis using d by (auto simp: map_of_eq_Some_iff)
qed

lemma single_Filter_eq:
  assumes "cmm_nearRtRic c" and "cmm_active c"
  shows "\<exists>d'. only_cmm_log d d' \<and> single_Filter now c inp d =
    Inr (map (\<lambda>n. the (precedence (affected_node d) (tagged inp) n))
           (sorted_list_of_set (affected_node d ` set (concat (map snd inp)))), c, d')"
proof -
  obtain an sc d' where r: "fold (select_set now c) inp ([], [], d) = (an, sc, d')"
    by (metis prod_cases3)
  have inv: "select_inv d (tagged inp) (an, sc, d')"
    using select_inv_all [OF select_inv_init, of d inp now c] by (simp add: r)
  then have ok: "smap_ok sc" and m: "map_of sc = precedence (affected_node d) (tagged inp)"
    by (auto simp: select_inv_def)
  have "snd ` set (tagged inp) = set (concat (map snd inp))"
    by (force simp: tagged_def)
  then have "dom (map_of sc) = affected_node d ` set (concat (map snd inp))"
    unfolding m dom_def precedence_dom by (metis Collect_mem_eq image_comp)
  then have "map snd sc = map (\<lambda>n. the (precedence (affected_node d) (tagged inp) n))
      (sorted_list_of_set (affected_node d ` set (concat (map snd inp))))"
    using smap_values [OF ok] m by metis
  with inv show ?thesis
    using assms by (auto simp: single_Filter_def r select_inv_def)
qed

section \<open>Handovers that are pending\<close>

definition lte_handovers :: "oran_command list \<Rightarrow> handover_cmd list" where
  "lte_handovers cs =
     List.map_filter (\<lambda>x. case x of OranCommandLte2LteHandover h \<Rightarrow> Some h | _ \<Rightarrow> None) cs"

definition is_lte_handover :: "oran_command \<Rightarrow> bool" where
  "is_lte_handover x = (case x of OranCommandLte2LteHandover _ \<Rightarrow> True | _ \<Rightarrow> False)"

text \<open>The first occurrences of the elements of a list, in order.\<close>

definition firsts :: "'a list \<Rightarrow> 'a list" where
  "firsts xs = rev (remdups (rev xs))"

lemma firsts_snoc: "firsts (xs @ [x]) = (if x \<in> set xs then firsts xs else firsts xs @ [x])"
  by (simp add: firsts_def)

lemma distinct_firsts [simp]: "distinct (firsts xs)" and set_firsts [simp]: "set (firsts xs) = set xs"
  by (simp_all add: firsts_def)

lemma lte_handovers_append [simp]: "lte_handovers (xs @ ys) = lte_handovers xs @ lte_handovers ys"
  by (induction xs) (auto simp: lte_handovers_def List.map_filter_def)

lemma lte_handovers_simps [simp]:
  "lte_handovers [] = []"
  "lte_handovers (OranCommandLte2LteHandover h # xs) = h # lte_handovers xs"
  "lte_handovers (OranCommandNr2NrHandover h # xs) = lte_handovers xs"
  "lte_handovers (OranCommand i # xs) = lte_handovers xs"
  by (simp_all add: lte_handovers_def List.map_filter_def)

lemma is_lte_handover_simps [simp]:
  "is_lte_handover (OranCommandLte2LteHandover h)"
  "\<not> is_lte_handover (OranCommandNr2NrHandover h)"
  "\<not> is_lte_handover (OranCommand i)"
  by (simp_all add: is_lte_handover_def)

lemma is_pending_iff: "is_pending pend h \<longleftrightarrow> h \<in> set pend"
  by (auto simp: is_pending_def) (metis handover_cmd.equality old.unit.exhaust)

definition handover_inv ::
  "handover_cmd list \<Rightarrow> oran_data \<Rightarrow> oran_command list \<Rightarrow> handover_state \<Rightarrow> bool" where
  "handover_inv p0 d0 xs st \<longleftrightarrow>
     (case st of (commands, pend, d) \<Rightarrow>
        only_cmm_log d0 d \<and> pend = p0 @ lte_handovers commands \<and>
        firsts pend = pend \<and> pend = firsts (p0 @ lte_handovers xs) \<and>
        filter (\<lambda>x. \<not> is_lte_handover x) commands = filter (\<lambda>x. \<not> is_lte_handover x) xs \<and>
        set commands \<subseteq> set xs)"

lemma handover_inv_step:
  assumes "handover_inv p0 d0 xs st"
  shows "handover_inv p0 d0 (xs @ [cmd]) (handover_step now c cmd st)"
proof -
  obtain commands pend d where st: "st = (commands, pend, d)" by (cases st)
  note inv = assms [unfolded st handover_inv_def, simplified]
  show ?thesis
  proof (cases cmd)
    case (OranCommandLte2LteHandover h)
    have mem: "h \<in> set pend \<longleftrightarrow> h \<in> set (p0 @ lte_handovers xs)" using inv by (metis set_firsts)
    show ?thesis
    proof (cases "h \<in> set pend")
      case True
      with mem have "firsts ((p0 @ lte_handovers xs) @ [h]) = firsts (p0 @ lte_handovers xs)"
        by (simp only: firsts_snoc if_True)
      with True inv show ?thesis
        by (auto simp: st handover_inv_def handover_step_def OranCommandLte2LteHandover
            is_pending_iff only_cmm_log_step)
    next
      case False
      with mem have "firsts ((p0 @ lte_handovers xs) @ [h]) = firsts (p0 @ lte_handovers xs) @ [h]"
        by (simp only: firsts_snoc if_False)
      moreover have "firsts (pend @ [h]) = pend @ [h]" using False inv unfolding firsts_snoc by metis
      ultimately show ?thesis
        using False inv by (auto simp: st handover_inv_def handover_step_def
            OranCommandLte2LteHandover is_pending_iff)
    qed
  qed (use inv in \<open>auto simp: st handover_inv_def handover_step_def\<close>)
qed

lemma handover_inv_all:
  assumes "handover_inv p0 d0 xs st"
  shows "handover_inv p0 d0 (xs @ concat (map snd inp))
    (fold (\<lambda>s. fold (handover_step now c) (snd s)) inp st)"
proof -
  have one: "handover_inv p0 d0 ys st \<Longrightarrow>
      handover_inv p0 d0 (ys @ cs) (fold (handover_step now c) cs st)" for ys cs st
  proof (induction cs arbitrary: ys st)
    case (Cons x cs)
    from Cons.IH [OF handover_inv_step [OF Cons.prems], of x] show ?case by simp
  qed simp
  show ?thesis
    using assms
  proof (induction inp arbitrary: xs st)
    case (Cons s inp)
    from Cons.IH [OF one [OF Cons.prems], of "snd s"] show ?case by simp
  qed simp
qed

lemma handover_Filter_eq:
  assumes "cmm_nearRtRic c" and p: "firsts (m_pendingCmds c) = m_pendingCmds c"
  obtains out d' where
    "handover_Filter now c inp d =
       Inr (out, c\<lparr>cmm_class := OranCmmHandover (m_pendingCmds c @ lte_handovers out)\<rparr>, d')"
    and "only_cmm_log d d'" and "set out \<subseteq> set (concat (map snd inp))"
    and "m_pendingCmds c @ lte_handovers out =
       firsts (m_pendingCmds c @ lte_handovers (concat (map snd inp)))"
    and "filter (\<lambda>x. \<not> is_lte_handover x) out =
       filter (\<lambda>x. \<not> is_lte_handover x) (concat (map snd inp))"
proof -
  obtain out pend d' where r:
    "fold (\<lambda>s. fold (handover_step now c) (snd s)) inp ([], m_pendingCmds c, d) = (out, pend, d')"
    by (metis prod_cases3)
  have "handover_inv (m_pendingCmds c) d [] ([], m_pendingCmds c, d)"
    using p by (simp add: handover_inv_def)
  from handover_inv_all [OF this, of inp now c]
  have "handover_inv (m_pendingCmds c) d (concat (map snd inp)) (out, pend, d')" by (simp add: r)
  then show ?thesis
    using assms that [of out d'] by (auto simp: handover_inv_def handover_Filter_def r)
qed

section \<open>What the Near-RT RIC relies on\<close>

definition cmm_wf :: "oran_cmm \<Rightarrow> bool" where
  "cmm_wf c \<longleftrightarrow> distinct (m_pendingCmds c)"

text \<open>A run of a module: one call of \<open>Filter\<close> per cycle.\<close>

fun filter_calls ::
  "(time \<Rightarrow> oran_cmm \<Rightarrow> lm_commands \<Rightarrow> oran_data \<Rightarrow> (oran_command list \<times> oran_cmm \<times> oran_data) res) \<Rightarrow>
   oran_cmm \<Rightarrow> oran_data \<Rightarrow> (time \<times> lm_commands) list \<Rightarrow> (oran_command list list \<times> oran_cmm) res" where
  "filter_calls filt c d [] = Inr ([], c)"
| "filter_calls filt c d ((now, inp) # calls) =
     res_bind (filt now c inp d) (\<lambda>(out, c', d').
       res_bind (filter_calls filt c' d' calls) (\<lambda>(outs, c''). Inr (out # outs, c'')))"

locale conflict_mitigation =
  fixes filt :: "time \<Rightarrow> oran_cmm \<Rightarrow> lm_commands \<Rightarrow> oran_data \<Rightarrow>
      (oran_command list \<times> oran_cmm \<times> oran_data) res"
  assumes no_ric: "\<not> cmm_nearRtRic c \<Longrightarrow> filt now c inp d = Inl NullNearRtRic"
    and filters: "cmm_nearRtRic c \<Longrightarrow> cmm_wf c \<Longrightarrow>
      \<exists>out c' d'. filt now c inp d = Inr (out, c', d') \<and> set out \<subseteq> set (concat (map snd inp)) \<and>
        only_cmm_log d d' \<and> cmm_wf c' \<and> cmm_nearRtRic c' \<and> cmm_active c' = cmm_active c"
begin

lemma calls_succeed:
  assumes "cmm_nearRtRic c" and "cmm_wf c"
  shows "\<exists>outs c'. filter_calls filt c d calls = Inr (outs, c') \<and> cmm_wf c' \<and>
    list_all2 (\<lambda>out call. set out \<subseteq> set (concat (map snd (snd call)))) outs calls"
  using assms
proof (induction calls arbitrary: c d)
  case (Cons call calls)
  obtain now inp where call: "call = (now, inp)" by (cases call)
  from filters [OF Cons.prems, of now inp d] obtain out c1 d1 where
    f: "filt now c inp d = Inr (out, c1, d1)" "set out \<subseteq> set (concat (map snd inp))"
      "cmm_wf c1" "cmm_nearRtRic c1" by blast
  from Cons.IH [OF f(4,3), of d1] f(1,2) show ?case by (auto simp: call)
qed simp

end

lemma firsts_distinct: "distinct xs \<longleftrightarrow> firsts xs = xs"
  by (metis distinct_firsts distinct_remdups_id distinct_rev firsts_def rev_rev_ident)

interpretation noop: conflict_mitigation noop_Filter
  by unfold_locales (auto simp: noop_Filter_def LogLogicToStorage_def only_cmm_log_log)

lemma m_pendingCmds_update [simp]: "m_pendingCmds (c\<lparr>cmm_class := OranCmmHandover p\<rparr>) = p"
  by (simp add: m_pendingCmds_def)

interpretation handover: conflict_mitigation handover_Filter
proof unfold_locales
  fix c now inp d
  assume ric: "cmm_nearRtRic c" and wf: "cmm_wf c"
  from wf have "firsts (m_pendingCmds c) = m_pendingCmds c"
    by (simp add: cmm_wf_def firsts_distinct)
  from handover_Filter_eq [OF ric this, of now inp d] obtain out d' where
    o: "handover_Filter now c inp d =
       Inr (out, c\<lparr>cmm_class := OranCmmHandover (m_pendingCmds c @ lte_handovers out)\<rparr>, d')"
    "only_cmm_log d d'" "set out \<subseteq> set (concat (map snd inp))"
    "m_pendingCmds c @ lte_handovers out =
       firsts (m_pendingCmds c @ lte_handovers (concat (map snd inp)))"
    by metis
  have "distinct (m_pendingCmds c @ lte_handovers out)" unfolding o(4) by simp
  then show "\<exists>out c' d'. handover_Filter now c inp d = Inr (out, c', d') \<and>
      set out \<subseteq> set (concat (map snd inp)) \<and> only_cmm_log d d' \<and> cmm_wf c' \<and>
      cmm_nearRtRic c' \<and> cmm_active c' = cmm_active c"
    using o(1-3) ric by (simp add: cmm_wf_def)
qed (simp add: handover_Filter_def)

lemma precedence_Some:
  assumes "precedence aff xs n = Some c"
  shows "aff c = n" and "c \<in> snd ` set xs"
proof -
  have "\<exists>b. (b, c) \<in> set xs \<and> aff c = n"
    using assms by (auto simp: precedence_def find_Some_iff split: option.splits) (metis nth_mem snd_conv prod.collapse)+
  then show "aff c = n" and "c \<in> snd ` set xs" by force+
qed

lemma precedence_affected:
  assumes "n \<in> affected_node d ` set (concat (map snd inp))"
  shows "affected_node d (the (precedence (affected_node d) (tagged inp) n)) = n"
    and "the (precedence (affected_node d) (tagged inp) n) \<in> set (concat (map snd inp))"
proof -
  have t: "snd ` set (tagged inp) = set (concat (map snd inp))" by (force simp: tagged_def)
  then have "n \<in> (affected_node d \<circ> snd) ` set (tagged inp)" using assms by (metis image_comp)
  then obtain c where "precedence (affected_node d) (tagged inp) n = Some c"
    using precedence_dom by (metis not_None_eq)
  with precedence_Some [OF this] t
  show "affected_node d (the (precedence (affected_node d) (tagged inp) n)) = n"
    and "the (precedence (affected_node d) (tagged inp) n) \<in> set (concat (map snd inp))"
    by simp_all
qed

interpretation single: conflict_mitigation single_Filter
proof unfold_locales
  fix c now inp d
  assume ric: "cmm_nearRtRic c" and wf: "cmm_wf c"
  show "\<exists>out c' d'. single_Filter now c inp d = Inr (out, c', d') \<and>
      set out \<subseteq> set (concat (map snd inp)) \<and> only_cmm_log d d' \<and> cmm_wf c' \<and>
      cmm_nearRtRic c' \<and> cmm_active c' = cmm_active c"
  proof (cases "cmm_active c")
    case True
    let ?ns = "affected_node d ` set (concat (map snd inp))"
    have "(\<lambda>n. the (precedence (affected_node d) (tagged inp) n)) ` ?ns \<subseteq> set (concat (map snd inp))"
      using precedence_affected(2) by blast
    then show ?thesis
      using single_Filter_eq [OF ric True, of d now inp] ric wf by auto
  next
    case False
    then show ?thesis using ric wf by (simp add: single_Filter_def)
  qed
qed (simp add: single_Filter_def)

interpretation cmm: conflict_mitigation Filter
proof unfold_locales
  show "\<not> cmm_nearRtRic c \<Longrightarrow> Filter now c inp d = Inl NullNearRtRic" for c now inp d
    by (simp add: Filter_def noop.no_ric handover.no_ric single.no_ric split: cmm_class.split)
  show "\<exists>out c' d'. Filter now c inp d = Inr (out, c', d') \<and>
      set out \<subseteq> set (concat (map snd inp)) \<and> only_cmm_log d d' \<and> cmm_wf c' \<and>
      cmm_nearRtRic c' \<and> cmm_active c' = cmm_active c"
    if "cmm_nearRtRic c" "cmm_wf c" for c now inp d
    using noop.filters [OF that] handover.filters [OF that] single.filters [OF that]
    by (cases "cmm_class c") (simp_all add: Filter_def)
qed

lemma firsts_append_firsts: "firsts (firsts xs @ ys) = firsts (xs @ ys)"
  by (induction ys rule: rev_induct) (simp_all add: firsts_distinct [symmetric] firsts_snoc flip: append_assoc)

lemma handover_calls:
  assumes "cmm_nearRtRic c" and "cmm_class c = OranCmmHandover p" and "distinct p"
  shows "\<exists>outs c'. filter_calls Filter c d calls = Inr (outs, c') \<and>
    p @ lte_handovers (concat outs) =
      firsts (p @ lte_handovers (concat (map (concat \<circ> map snd \<circ> snd) calls))) \<and>
    map (filter (\<lambda>x. \<not> is_lte_handover x)) outs =
      map (filter (\<lambda>x. \<not> is_lte_handover x) \<circ> (concat \<circ> map snd \<circ> snd)) calls"
  using assms
proof (induction calls arbitrary: c d p)
  case Nil
  then show ?case by (simp add: firsts_distinct)
next
  case (Cons call calls)
  obtain now inp where call: "call = (now, inp)" by (cases call)
  have p: "m_pendingCmds c = p" using Cons.prems(2) by (simp add: m_pendingCmds_def)
  have "firsts (m_pendingCmds c) = m_pendingCmds c" using Cons.prems(3) p by (simp add: firsts_distinct)
  from handover_Filter_eq [OF Cons.prems(1) this, of now inp d, unfolded p] obtain out d1 where
    f: "handover_Filter now c inp d = Inr (out, c\<lparr>cmm_class := OranCmmHandover (p @ lte_handovers out)\<rparr>, d1)"
      "p @ lte_handovers out = firsts (p @ lte_handovers (concat (map snd inp)))"
      "filter (\<lambda>x. \<not> is_lte_handover x) out = filter (\<lambda>x. \<not> is_lte_handover x) (concat (map snd inp))"
    by metis
  have d: "distinct (p @ lte_handovers out)" unfolding f(2) by simp
  let ?c = "c\<lparr>cmm_class := OranCmmHandover (p @ lte_handovers out)\<rparr>"
  let ?rest = "lte_handovers (concat (map (concat \<circ> map snd \<circ> snd) calls))"
  have "cmm_nearRtRic ?c" "cmm_class ?c = OranCmmHandover (p @ lte_handovers out)"
    using Cons.prems by simp_all
  from Cons.IH [OF this d, of d1] obtain outs c' where
    g: "filter_calls Filter ?c d1 calls = Inr (outs, c')"
      "(p @ lte_handovers out) @ lte_handovers (concat outs) = firsts ((p @ lte_handovers out) @ ?rest)"
      "map (filter (\<lambda>x. \<not> is_lte_handover x)) outs =
        map (filter (\<lambda>x. \<not> is_lte_handover x) \<circ> (concat \<circ> map snd \<circ> snd)) calls"
    by blast
  have "Filter now c inp d = Inr (out, ?c, d1)" using f(1) Cons.prems(2) by (simp add: Filter_def)
  moreover have "firsts ((p @ lte_handovers out) @ ?rest) =
      firsts (p @ lte_handovers (concat (map snd inp)) @ ?rest)"
    unfolding f(2) firsts_append_firsts by simp
  ultimately show ?case using g f(3) by (simp add: call comp_def)
qed

section \<open>Properties\<close>

text \<open>
  C4: An active \<open>OranCmmSingleCommandPerNode\<close> emits exactly one command for each E2 node that the
  input affects, in increasing order of the nodes: the first command from the default logic module
  that affects the node when there is one, and the first command that affects it otherwise.
\<close>

theorem single_command_per_node:
  assumes "cmm_class c = OranCmmSingleCommandPerNode" and "cmm_nearRtRic c" and "cmm_active c"
  shows "\<exists>out d'. Filter now c inp d = Inr (out, c, d') \<and> only_cmm_log d d' \<and>
    out = map (\<lambda>n. the (precedence (affected_node d) (tagged inp) n))
            (sorted_list_of_set (affected_node d ` set (concat (map snd inp)))) \<and>
    map (affected_node d) out = sorted_list_of_set (affected_node d ` set (concat (map snd inp)))"
proof -
  let ?ns = "affected_node d ` set (concat (map snd inp))"
  have "map (affected_node d) (map (\<lambda>n. the (precedence (affected_node d) (tagged inp) n))
      (sorted_list_of_set ?ns)) = sorted_list_of_set ?ns"
    unfolding map_map comp_def using precedence_affected(1) by (intro map_idI) simp
  then show ?thesis
    using single_Filter_eq [OF assms(2,3), of d now inp] assms(1) by (auto simp: Filter_def)
qed

definition single_cmm :: oran_cmm where
  "single_cmm = (OranCmm ''CmmSingleCommandPerNode'' OranCmmSingleCommandPerNode)
     \<lparr>cmm_nearRtRic := True, cmm_active := True\<rparr>"

theorem single_command_per_node_witness:
  "\<exists>out d'. Filter 5 single_cmm [((''A'', False), [OranCommand 7, OranCommand 7])]
      (OranDataRepositorySqlite (InitDb (\<lambda>n. [0..<n]) (\<lambda>_. 0) (\<lambda>s. s))) = Inr (out, single_cmm, d') \<and>
    out = [OranCommand 7]"
proof -
  let ?d = "OranDataRepositorySqlite (InitDb (\<lambda>n. [0..<n]) (\<lambda>_. 0) (\<lambda>s. s))"
  have "cmm_class single_cmm = OranCmmSingleCommandPerNode" "cmm_nearRtRic single_cmm"
    "cmm_active single_cmm" by (simp_all add: single_cmm_def OranCmm_def)
  from single_command_per_node [OF this, of 5 "[((''A'', False), [OranCommand 7, OranCommand 7])]" ?d]
  show ?thesis by (auto simp: affected_node_def GetTargetE2NodeId_def precedence_def tagged_def)
qed

text \<open>
  Over any sequence of cycles an \<open>OranCmmHandover\<close> lets an LTE handover command through only
  the first time it is issued, keeps the order of those it lets through, and never touches the
  other commands. \<open>m_pendingCmds\<close> is not cleared, so the exclusion lasts for the whole run.
\<close>

lemma handover_passes_first_occurrences:
  assumes "cmm_class c = OranCmmHandover []" and "cmm_nearRtRic c"
  shows "\<exists>outs c'. filter_calls Filter c d calls = Inr (outs, c') \<and>
    lte_handovers (concat outs) = firsts (lte_handovers (concat (map (concat \<circ> map snd \<circ> snd) calls))) \<and>
    map (filter (\<lambda>x. \<not> is_lte_handover x)) outs =
      map (filter (\<lambda>x. \<not> is_lte_handover x) \<circ> (concat \<circ> map snd \<circ> snd)) calls"
  using handover_calls [OF assms(2,1), of d calls] by simp

text \<open>
  Whatever the module, a run of \<open>Filter\<close> calls by a RIC that is set up never aborts, and every
  command that leaves a call was issued by a logic module in that cycle.
\<close>

lemma cmm_commands_from_lms:
  assumes "cmm_nearRtRic c" and "cmm_wf c"
  shows "\<exists>outs c'. filter_calls Filter c d calls = Inr (outs, c') \<and> cmm_wf c' \<and>
    list_all2 (\<lambda>out call. set out \<subseteq> set (concat (map snd (snd call)))) outs calls"
  using assms by (rule cmm.calls_succeed)

end
