(* ===== verification/Lm_Rsrp.thy ===== *)
theory Lm_Rsrp
  imports Oran_Repository
begin

text \<open>
  The logic module \<open>OranLmNr2NrRsrpHandover\<close> (\<open>oran-lm-nr-2-nr-rsrp-handover.cc\<close>): it reads the
  newest measurements of every NR UE from the repository and orders a handover to the strongest cell
  that beats the serving cell by the hysteresis and has room. The function-local \<open>static\<close> maps of
  \<open>GetHandoverCommands\<close> outlive a call and are the record \<open>ho_static\<close>. \<open>std::sort\<close> may leave
  equal elements in any order: the order it gives is the field \<open>std_sort\<close>, of which \<open>sort_ok\<close>
  says what the standard says. Inside a call the commands carry the UE they were issued for.
\<close>

section \<open>What the module reads\<close>

record ue_info =
  ui_nodeId :: uint64
  ui_cellId :: uint16
  ui_rnti :: uint16
  ui_position :: vector

record gnb_info =
  gi_nodeId :: uint64
  gi_cellId :: uint16
  gi_position :: vector

definition GetUeInfo :: "time \<Rightarrow> oran_data \<Rightarrow> uint64 \<Rightarrow> ue_info option" where
  "GetUeInfo now d ueId =
     (let (found, cellId, rnti) = GetNrUeCellInfo d ueId;
          nodePositions = GetNodePositions d ueId 0 now 1
      in if found
         then if nodePositions \<noteq> []
              then Some \<lparr>ui_nodeId = ueId, ui_cellId = cellId, ui_rnti = rnti,
                         ui_position = snd (last nodePositions)\<rparr>
              else None
         else None)"

definition GetUeInfos :: "time \<Rightarrow> oran_data \<Rightarrow> ue_info list" where
  "GetUeInfos now d = List.map_filter (GetUeInfo now d) (GetNrUeE2NodeIds d)"

definition GetGnbInfo :: "time \<Rightarrow> oran_data \<Rightarrow> uint64 \<Rightarrow> gnb_info option" where
  "GetGnbInfo now d gnbId =
     (let (found, cellId) = GetNrGnbCellInfo d gnbId;
          nodePositions = GetNodePositions d gnbId 0 now 1
      in if found
         then if nodePositions \<noteq> []
              then Some \<lparr>gi_nodeId = gnbId, gi_cellId = cellId,
                         gi_position = snd (last nodePositions)\<rparr>
              else None
         else None)"

definition GetGnbInfos :: "time \<Rightarrow> oran_data \<Rightarrow> gnb_info list" where
  "GetGnbInfos now d = List.map_filter (GetGnbInfo now d) (GetNrGnbE2NodeIds d)"

section \<open>Attributes and static state\<close>

record rsrp_params =
  m_rsrpThreshold :: double
  m_warmup :: time
  m_minHoInterval :: time
  m_hoAttemptTimeout :: time
  m_maxUesPerCell :: uint32
  m_tryNextBest :: bool

definition OranLmNr2NrRsrpHandover :: rsrp_params where
  "OranLmNr2NrRsrpHandover =
     \<lparr>m_rsrpThreshold = 2, m_warmup = 2000000000, m_minHoInterval = 2000000000,
      m_hoAttemptTimeout = 2000000000, m_maxUesPerCell = 10, m_tryNextBest = True\<rparr>"

type_synonym cand = "uint16 \<times> double"

record ho_static =
  lastHoCmdTime :: "(uint64 \<times> time) list"
  pendingHoTarget :: "(uint64 \<times> uint16) list"
  std_sort :: "cand list \<Rightarrow> cand list"

definition sort_ok :: "(cand list \<Rightarrow> cand list) \<Rightarrow> bool" where
  "sort_ok srt \<longleftrightarrow> (\<forall>xs. mset (srt xs) = mset xs \<and> sorted_wrt (\<lambda>a b. snd a \<ge> snd b) (srt xs))"

section \<open>The load of the cells\<close>

fun first_serving :: "measurement list \<Rightarrow> uint16 \<times> uint16" where
  "first_serving [] = (0, 0)"
| "first_serving ((rnti, cellId, rsrp, rsrq, isServing, ccId) # ms) =
     (if ccId \<noteq> 0 then first_serving ms
      else if \<not> isServing then first_serving ms
      else (cellId, rnti))"

definition count_inc :: "uint16 \<Rightarrow> (uint16 \<times> uint32) list \<Rightarrow> (uint16 \<times> uint32) list" where
  "count_inc c m = smap_upd c (smap_get 0 m c + 1) m"

definition counted_cell :: "oran_data \<Rightarrow> ue_info \<Rightarrow> uint16" where
  "counted_cell d ueInfo =
     (let (servingCellId, servingRnti) = first_serving (GetNrUeRsrpRsrq d (ui_nodeId ueInfo))
      in if servingCellId \<noteq> 0 \<and> servingRnti \<noteq> 0 then servingCellId else ui_cellId ueInfo)"

definition count_ue :: "oran_data \<Rightarrow> ue_info \<Rightarrow> (uint16 \<times> uint32) list \<Rightarrow> (uint16 \<times> uint32) list" where
  "count_ue d ueInfo m =
     (if counted_cell d ueInfo \<noteq> 0 then count_inc (counted_cell d ueInfo) m else m)"

definition cell_ue_count :: "oran_data \<Rightarrow> ue_info list \<Rightarrow> gnb_info list \<Rightarrow> (uint16 \<times> uint32) list" where
  "cell_ue_count d ueInfos gnbInfos =
     fold (count_ue d) ueInfos
       (fold (\<lambda>g m. smap_upd (gi_cellId g) (smap_get 0 m (gi_cellId g) + 0) m) gnbInfos [])"

text \<open>Stale handover attempts are forgotten, the others reserve a slot in their target cell.\<close>

definition cleanup_pending ::
  "time \<Rightarrow> 'p rsrp_params_scheme \<Rightarrow> 's ho_static_scheme \<Rightarrow> (uint64 \<times> uint16) list" where
  "cleanup_pending now p st =
     filter (\<lambda>(u, _). case map_of (lastHoCmdTime st) u of
                        None \<Rightarrow> False
                      | Some t \<Rightarrow> \<not> now - t \<ge> m_hoAttemptTimeout p)
       (pendingHoTarget st)"

definition reserve_pending ::
  "(uint64 \<times> uint16) list \<Rightarrow> (uint16 \<times> uint32) list \<Rightarrow> (uint16 \<times> uint32) list" where
  "reserve_pending pend m = fold (\<lambda>kv. count_inc (snd kv)) pend m"

section \<open>The decision for one UE\<close>

definition CellKnown :: "gnb_info list \<Rightarrow> uint16 \<Rightarrow> bool" where
  "CellKnown gnbInfos cellId = (\<exists>g\<in>set gnbInfos. gi_cellId g = cellId)"

definition GetServingGnbNodeId :: "gnb_info list \<Rightarrow> uint16 \<Rightarrow> uint64" where
  "GetServingGnbNodeId gnbInfos servingCellId =
     (case List.find (\<lambda>g. gi_cellId g = servingCellId) gnbInfos of
        None \<Rightarrow> 0 | Some g \<Rightarrow> gi_nodeId g)"

text \<open>The warm-up gate, the pending-handover gate and the cooldown.\<close>

definition ue_gated ::
  "time \<Rightarrow> 'p rsrp_params_scheme \<Rightarrow> (uint64 \<times> time) list \<Rightarrow> (uint64 \<times> uint16) list \<Rightarrow> uint64 \<Rightarrow> bool" where
  "ue_gated now p lastT pend u \<longleftrightarrow>
     now < m_warmup p \<or>
     (map_of pend u \<noteq> None \<and>
      (case map_of lastT u of None \<Rightarrow> False | Some t \<Rightarrow> now - t < m_hoAttemptTimeout p)) \<or>
     (case map_of lastT u of None \<Rightarrow> False | Some t \<Rightarrow> now - t < m_minHoInterval p)"

definition DBL_MAX :: double where
  "DBL_MAX = (2 - 1 / 2 ^ 52) * 2 ^ 1023"

record ue_meas =
  um_servingRsrp :: double
  um_servingCellId :: uint16
  um_servingRnti :: uint16
  um_best :: "(uint16 \<times> double) list"

definition collect_one :: "measurement \<Rightarrow> ue_meas \<Rightarrow> ue_meas" where
  "collect_one m u =
     (case m of (rnti, cellId, rsrp, rsrq, isServing, ccId) \<Rightarrow>
        if ccId \<noteq> 0 then u
        else (let u1 = (if isServing
                        then u\<lparr>um_servingRsrp := rsrp, um_servingCellId := cellId,
                               um_servingRnti := rnti\<rparr>
                        else u)
              in case map_of (um_best u1) cellId of
                   None \<Rightarrow> u1\<lparr>um_best := smap_upd cellId rsrp (um_best u1)\<rparr>
                 | Some b \<Rightarrow>
                     if rsrp > b then u1\<lparr>um_best := smap_upd cellId rsrp (um_best u1)\<rparr> else u1))"

definition collect :: "measurement list \<Rightarrow> ue_meas" where
  "collect ms =
     fold collect_one ms
       \<lparr>um_servingRsrp = - DBL_MAX, um_servingCellId = 0, um_servingRnti = 0, um_best = []\<rparr>"

definition candidates :: "gnb_info list \<Rightarrow> (uint16 \<times> double) list \<Rightarrow> cand list" where
  "candidates gnbInfos best = filter (\<lambda>kv. CellKnown gnbInfos (fst kv)) best"

text \<open>The search: \<open>None\<close> when the loop ends with the serving cell still chosen.\<close>

fun choose_target ::
  "rsrp_params \<Rightarrow> uint16 \<Rightarrow> double \<Rightarrow> (uint16 \<times> uint32) list \<Rightarrow> cand list \<Rightarrow> cand option" where
  "choose_target p cur servingRsrp cnt [] = None"
| "choose_target p cur servingRsrp cnt (c # cs) =
     (if fst c = cur then choose_target p cur servingRsrp cnt cs
      else if \<not> snd c > servingRsrp + m_rsrpThreshold p then choose_target p cur servingRsrp cnt cs
      else if smap_get 0 cnt (fst c) \<ge> m_maxUesPerCell p
      then if \<not> m_tryNextBest p then None else choose_target p cur servingRsrp cnt cs
      else Some c)"

section \<open>One run of the module\<close>

record ho_tick =
  tk_last :: "(uint64 \<times> time) list"
  tk_pending :: "(uint64 \<times> uint16) list"
  tk_count :: "(uint16 \<times> uint32) list"
  tk_commands :: "(uint64 \<times> handover_cmd) list"
  tk_data :: oran_data

definition clear_reached :: "uint64 \<Rightarrow> uint16 \<Rightarrow> (uint64 \<times> uint16) list \<Rightarrow> (uint64 \<times> uint16) list" where
  "clear_reached u cur pend = (if map_of pend u = Some cur then smap_del u pend else pend)"

definition log_rsrp :: "bool \<Rightarrow> string \<Rightarrow> time \<Rightarrow> string \<Rightarrow> oran_data \<Rightarrow> oran_data" where
  "log_rsrp verbose name now msg d =
     (if verbose
      then LogActionLm now name (seconds_to_string now @ '' -- '' @ name @ '' -- '' @ msg) d
      else d)"

definition emit_handover ::
  "bool \<Rightarrow> string \<Rightarrow> time \<Rightarrow> uint64 \<Rightarrow> uint64 \<Rightarrow> uint16 \<Rightarrow> uint16 \<Rightarrow> uint16 \<Rightarrow> ho_tick \<Rightarrow> ho_tick" where
  "emit_handover verbose name now u servingGnb rnti cur chosen tk =
     (let h = \<lparr>cmd_targetE2NodeId = servingGnb, cmd_targetCellId = chosen, cmd_targetRnti = rnti\<rparr>;
          d1 = LogCommandLm now name (OranCommandNr2NrHandover h) (tk_data tk)
      in tk\<lparr>tk_commands := tk_commands tk @ [(u, h)],
            tk_last := smap_upd u now (tk_last tk),
            tk_pending := smap_upd u chosen (tk_pending tk),
            tk_count := count_inc chosen (tk_count tk),
            tk_data := log_rsrp verbose name now
              (''HO CMD t='' @ seconds_to_string now @ '' UE='' @ show_uint64 u @
               '' rnti='' @ show_nat (unat rnti) @ '' '' @ show_nat (unat cur) @ ''->'' @
               show_nat (unat chosen)) d1\<rparr>)"

definition ho_ue ::
  "bool \<Rightarrow> string \<Rightarrow> time \<Rightarrow> rsrp_params \<Rightarrow> (cand list \<Rightarrow> cand list) \<Rightarrow> gnb_info list \<Rightarrow> ue_info \<Rightarrow>
   ho_tick \<Rightarrow> ho_tick" where
  "ho_ue verbose name now p srt gnbInfos ueInfo tk =
     (let u = ui_nodeId ueInfo
      in if ue_gated now p (tk_last tk) (tk_pending tk) u then tk
         else
           let um = collect (GetNrUeRsrpRsrq (tk_data tk) u);
               cur = um_servingCellId um; rnti = um_servingRnti um
           in if cur = 0 \<or> rnti = 0 then tk
              else
                let tk1 = tk\<lparr>tk_pending := clear_reached u cur (tk_pending tk)\<rparr>;
                    gnb = GetServingGnbNodeId gnbInfos cur
                in if gnb = 0 then tk1
                   else (case choose_target p cur (um_servingRsrp um) (tk_count tk1)
                                (srt (candidates gnbInfos (um_best um))) of
                           None \<Rightarrow> tk1
                         | Some c \<Rightarrow> emit_handover verbose name now u gnb rnti cur (fst c) tk1))"

definition ho_start :: "time \<Rightarrow> rsrp_params \<Rightarrow> ho_static \<Rightarrow> oran_data \<Rightarrow> ue_info list \<Rightarrow> gnb_info list \<Rightarrow> ho_tick" where
  "ho_start now p st d ueInfos gnbInfos =
     \<lparr>tk_last = lastHoCmdTime st, tk_pending = cleanup_pending now p st,
      tk_count = reserve_pending (cleanup_pending now p st) (cell_ue_count d ueInfos gnbInfos),
      tk_commands = [], tk_data = d\<rparr>"

definition ho_end ::
  "bool \<Rightarrow> string \<Rightarrow> time \<Rightarrow> rsrp_params \<Rightarrow> ho_static \<Rightarrow> oran_data \<Rightarrow> ue_info list \<Rightarrow> gnb_info list \<Rightarrow> ho_tick" where
  "ho_end verbose name now p st d ueInfos gnbInfos =
     fold (ho_ue verbose name now p (std_sort st) gnbInfos) ueInfos
       (ho_start now p st d ueInfos gnbInfos)"

definition GetHandoverCommands ::
  "bool \<Rightarrow> string \<Rightarrow> time \<Rightarrow> rsrp_params \<Rightarrow> ho_static \<Rightarrow> oran_data \<Rightarrow> ue_info list \<Rightarrow> gnb_info list \<Rightarrow>
   oran_command list \<times> ho_static \<times> oran_data" where
  "GetHandoverCommands verbose name now p st d ueInfos gnbInfos =
     (let tk = ho_end verbose name now p st d ueInfos gnbInfos
      in (map (OranCommandNr2NrHandover \<circ> snd) (tk_commands tk),
          st\<lparr>lastHoCmdTime := tk_last tk, pendingHoTarget := tk_pending tk\<rparr>, tk_data tk))"

definition rsrp_Run ::
  "bool \<Rightarrow> bool \<Rightarrow> bool \<Rightarrow> string \<Rightarrow> time \<Rightarrow> rsrp_params \<Rightarrow> ho_static \<Rightarrow> oran_data \<Rightarrow>
   (oran_command list \<times> ho_static \<times> oran_data) res" where
  "rsrp_Run active ric verbose name now p st d =
     (if active
      then abort_if (\<not> ric) NullNearRtRic
             (Inr (GetHandoverCommands verbose name now p st d (GetUeInfos now d) (GetGnbInfos now d)))
      else Inr ([], st, d))"

section \<open>Logging changes only the logs\<close>

definition lm_log_append :: "oran_data \<Rightarrow> logrow list \<Rightarrow> logrow list \<Rightarrow> oran_data" where
  "lm_log_append d cs as =
     d\<lparr>d_db := (d_db d)\<lparr>t_lmcommand := t_lmcommand (d_db d) @ cs,
                       t_lmaction := t_lmaction (d_db d) @ as\<rparr>\<rparr>"

definition only_lm_log :: "oran_data \<Rightarrow> oran_data \<Rightarrow> bool" where
  "only_lm_log d d' \<longleftrightarrow> (\<exists>cs as. d' = lm_log_append d cs as)"

lemma lm_log_append_Nil: "lm_log_append d [] [] = d"
  by (simp add: lm_log_append_def)

lemma lm_log_append_append:
  "lm_log_append (lm_log_append d cs as) cs' as' = lm_log_append d (cs @ cs') (as @ as')"
  by (simp add: lm_log_append_def)

lemma only_lm_log_refl [simp, intro]: "only_lm_log d d"
  unfolding only_lm_log_def by (metis lm_log_append_Nil)

lemma only_lm_log_trans: "only_lm_log d d' \<Longrightarrow> only_lm_log d' d'' \<Longrightarrow> only_lm_log d d''"
  unfolding only_lm_log_def by (metis lm_log_append_append)

lemma LogCommandLm_eq:
  "LogCommandLm now name cmd d = lm_log_append d
     (if d_active d then [\<lparr>log_name = name, log_time = now, log_text = freed (d_db d) (cmd_ToString cmd)\<rparr>] else []) []"
  by (simp add: LogCommandLm_def lm_log_append_def)

lemma LogActionLm_eq:
  "LogActionLm now name msg d = lm_log_append d []
     (if d_active d then [\<lparr>log_name = name, log_time = now, log_text = msg\<rparr>] else [])"
  by (simp add: LogActionLm_def lm_log_append_def)

lemma only_lm_log_command: "only_lm_log d (LogCommandLm now name cmd d)"
  unfolding only_lm_log_def LogCommandLm_eq by blast

lemma only_lm_log_action: "only_lm_log d (log_rsrp verbose name now msg d)"
proof (cases verbose)
  case True
  then show ?thesis unfolding only_lm_log_def log_rsrp_def LogActionLm_eq by auto
qed (simp add: log_rsrp_def)

lemma IsNodeRegistered_lm_log: "only_lm_log d d' \<Longrightarrow> IsNodeRegistered d' n = IsNodeRegistered d n"
  by (auto simp: only_lm_log_def lm_log_append_def IsNodeRegistered_def)

lemma GetNrUeRsrpRsrq_lm_log: "only_lm_log d d' \<Longrightarrow> GetNrUeRsrpRsrq d' n = GetNrUeRsrpRsrq d n"
  using IsNodeRegistered_lm_log [of d d' n]
  by (auto simp: only_lm_log_def lm_log_append_def GetNrUeRsrpRsrq_def scan_rows_def)

section \<open>The counts\<close>

lemma smap_get_count_inc: "smap_get 0 (count_inc c m) x = smap_get 0 m x + (if x = c then 1 else 0)"
  by (auto simp: count_inc_def smap_get_def split: option.splits)

definition cell_load :: "oran_data \<Rightarrow> ue_info list \<Rightarrow> (uint64 \<times> uint16) list \<Rightarrow> uint16 \<Rightarrow> nat" where
  "cell_load d ueInfos pend c =
     length (filter (\<lambda>u. counted_cell d u = c \<and> c \<noteq> 0) ueInfos) +
     length (filter (\<lambda>kv. snd kv = c) pend)"

lemma count_gnbs: "smap_get 0 (fold (\<lambda>g m. smap_upd (gi_cellId g) (smap_get 0 m (gi_cellId g)) m) gs m) c =
    (smap_get 0 m c :: uint32)"
  by (induction gs arbitrary: m) (auto simp: smap_get_upd)

lemma count_ues:
  "smap_get 0 (fold (count_ue d) us m) c =
    smap_get 0 m c + of_nat (length (filter (\<lambda>u. counted_cell d u = c \<and> c \<noteq> 0) us))"
  by (induction us arbitrary: m) (auto simp: count_ue_def smap_get_count_inc)

lemma count_pending:
  "smap_get 0 (reserve_pending pend m) c = smap_get 0 m c + of_nat (length (filter (\<lambda>kv. snd kv = c) pend))"
  unfolding reserve_pending_def
  by (induction pend arbitrary: m) (auto simp: smap_get_count_inc)

lemma ho_start_count:
  assumes "length ueInfos + length (pendingHoTarget st) < 2 ^ 32"
  shows "unat (smap_get 0 (tk_count (ho_start now p st d ueInfos gnbInfos)) c) =
    cell_load d ueInfos (cleanup_pending now p st) c"
proof -
  let ?n = "cell_load d ueInfos (cleanup_pending now p st) c"
  have e: "smap_get 0 (tk_count (ho_start now p st d ueInfos gnbInfos)) c = of_nat ?n"
    by (simp add: ho_start_def cell_ue_count_def count_pending count_ues count_gnbs cell_load_def
        smap_get_def [of _ "[]"])
  have "length (filter (\<lambda>kv. snd kv = c) (cleanup_pending now p st)) \<le> length (pendingHoTarget st)"
    unfolding cleanup_pending_def by (meson length_filter_le order_trans)
  then have "?n < 2 ^ 32"
    using assms length_filter_le [of "\<lambda>u. counted_cell d u = c \<and> c \<noteq> 0" ueInfos]
    unfolding cell_load_def by linarith
  then show ?thesis unfolding e by (simp add: unat_of_nat take_bit_nat_eq_self)
qed

section \<open>The search\<close>

lemma choose_target_spec:
  assumes "choose_target p cur srv cnt cs = Some c"
  shows "c \<in> set cs" and "fst c \<noteq> cur" and "snd c > srv + m_rsrpThreshold p"
    and "smap_get 0 cnt (fst c) < m_maxUesPerCell p"
  using assms by (induction cs) (auto split: if_splits)

lemma choose_target_best:
  assumes "choose_target p cur srv cnt cs = Some c" and "sorted_wrt (\<lambda>a b. snd a \<ge> snd b) cs"
    and "x \<in> set cs" and "fst x \<noteq> cur" and "snd x > snd c"
  shows "m_tryNextBest p" and "smap_get 0 cnt (fst x) \<ge> m_maxUesPerCell p"
proof -
  have "m_tryNextBest p \<and> smap_get 0 cnt (fst x) \<ge> m_maxUesPerCell p"
    using assms
  proof (induction cs)
    case (Cons a cs)
    have gt: "snd c > srv + m_rsrpThreshold p" by (rule choose_target_spec(3) [OF Cons.prems(1)])
    show ?case
    proof (cases "x = a")
      case True
      then show ?thesis using Cons.prems gt by (auto split: if_splits)
    next
      case False
      have "snd a \<ge> snd x" using Cons.prems(2,3) False by auto
      then have "a \<noteq> c" using Cons.prems(5) by auto
      then have "choose_target p cur srv cnt cs = Some c"
        using Cons.prems(1) by (auto split: if_splits)
      then show ?thesis using Cons.IH Cons.prems False by simp
    qed
  qed simp
  then show "m_tryNextBest p" and "smap_get 0 cnt (fst x) \<ge> m_maxUesPerCell p" by auto
qed

text \<open>No target is chosen only when every candidate fails a gate.\<close>

lemma choose_target_None:
  assumes "choose_target p cur srv cnt cs = None" and "m_tryNextBest p" and "x \<in> set cs"
  shows "fst x = cur \<or> \<not> snd x > srv + m_rsrpThreshold p \<or> smap_get 0 cnt (fst x) \<ge> m_maxUesPerCell p"
  using assms by (induction cs) (auto split: if_splits)

section \<open>One iteration of the loop\<close>

text \<open>What is known when the iteration for a UE issues a command.\<close>

definition emits ::
  "time \<Rightarrow> rsrp_params \<Rightarrow> (cand list \<Rightarrow> cand list) \<Rightarrow> gnb_info list \<Rightarrow> uint64 \<Rightarrow> ho_tick \<Rightarrow> ue_meas \<Rightarrow> cand \<Rightarrow> bool" where
  "emits now p srt gnbInfos u tk um c \<longleftrightarrow>
     \<not> ue_gated now p (tk_last tk) (tk_pending tk) u \<and> um = collect (GetNrUeRsrpRsrq (tk_data tk) u) \<and>
     um_servingCellId um \<noteq> 0 \<and> um_servingRnti um \<noteq> 0 \<and>
     GetServingGnbNodeId gnbInfos (um_servingCellId um) \<noteq> 0 \<and>
     choose_target p (um_servingCellId um) (um_servingRsrp um) (tk_count tk)
       (srt (candidates gnbInfos (um_best um))) = Some c"

lemma ho_ue_cases:
  obtains (none) pend where
    "ho_ue verbose name now p srt gnbInfos ueInfo tk = tk\<lparr>tk_pending := pend\<rparr>"
    "pend = tk_pending tk \<or> \<not> ue_gated now p (tk_last tk) (tk_pending tk) (ui_nodeId ueInfo) \<and>
       (\<exists>cur. pend = clear_reached (ui_nodeId ueInfo) cur (tk_pending tk))"
  | (emit) um c where
    "emits now p srt gnbInfos (ui_nodeId ueInfo) tk um c"
    "ho_ue verbose name now p srt gnbInfos ueInfo tk =
       emit_handover verbose name now (ui_nodeId ueInfo)
         (GetServingGnbNodeId gnbInfos (um_servingCellId um)) (um_servingRnti um)
         (um_servingCellId um) (fst c)
         (tk\<lparr>tk_pending := clear_reached (ui_nodeId ueInfo) (um_servingCellId um) (tk_pending tk)\<rparr>)"
proof -
  let ?u = "ui_nodeId ueInfo"
  let ?um = "collect (GetNrUeRsrpRsrq (tk_data tk) ?u)"
  let ?t = "choose_target p (um_servingCellId ?um) (um_servingRsrp ?um) (tk_count tk)
       (srt (candidates gnbInfos (um_best ?um)))"
  show thesis
  proof (cases "ue_gated now p (tk_last tk) (tk_pending tk) ?u \<or> um_servingCellId ?um = 0 \<or>
      um_servingRnti ?um = 0")
    case True
    then show ?thesis by (intro none [of "tk_pending tk"]) (auto simp: ho_ue_def Let_def)
  next
    case ok: False
    show ?thesis
    proof (cases "GetServingGnbNodeId gnbInfos (um_servingCellId ?um) = 0 \<or> ?t = None")
      case True
      with ok show ?thesis
        by (intro none [of "clear_reached ?u (um_servingCellId ?um) (tk_pending tk)"])
          (auto simp: ho_ue_def Let_def)
    next
      case False
      then obtain c where "?t = Some c" by auto
      with ok False show ?thesis
        by (intro emit [of ?um c]) (simp_all add: emits_def ho_ue_def Let_def)
    qed
  qed
qed

lemma emit_handover_simps [simp]:
  "tk_last (emit_handover v n now u g r cur ch tk) = smap_upd u now (tk_last tk)"
  "tk_pending (emit_handover v n now u g r cur ch tk) = smap_upd u ch (tk_pending tk)"
  "tk_count (emit_handover v n now u g r cur ch tk) = count_inc ch (tk_count tk)"
  "tk_commands (emit_handover v n now u g r cur ch tk) = tk_commands tk @
     [(u, \<lparr>cmd_targetE2NodeId = g, cmd_targetCellId = ch, cmd_targetRnti = r\<rparr>)]"
  by (simp_all add: emit_handover_def Let_def)

lemma emit_handover_log: "only_lm_log (tk_data tk) (tk_data (emit_handover v n now u g r cur ch tk))"
  unfolding emit_handover_def Let_def
  by (simp add: only_lm_log_trans [OF only_lm_log_command only_lm_log_action])

text \<open>A property of the loop state that every iteration keeps holds at the end.\<close>

lemma ho_end_induct:
  assumes "P (ho_start now p st d ueInfos gnbInfos)"
    and "\<And>ueInfo tk. ueInfo \<in> set ueInfos \<Longrightarrow> P tk \<Longrightarrow>
      P (ho_ue verbose name now p (std_sort st) gnbInfos ueInfo tk)"
  shows "P (ho_end verbose name now p st d ueInfos gnbInfos)"
proof -
  have "set us \<subseteq> set ueInfos \<Longrightarrow> P tk \<Longrightarrow>
      P (fold (ho_ue verbose name now p (std_sort st) gnbInfos) us tk)" for us tk
    by (induction us arbitrary: tk) (auto intro: assms(2))
  then show ?thesis unfolding ho_end_def using assms(1) by blast
qed

lemma ho_ue_log:
  "only_lm_log d (tk_data tk) \<Longrightarrow> only_lm_log d (tk_data (ho_ue verbose name now p srt gnbInfos ueInfo tk))"
  by (rule ho_ue_cases [of verbose name now p srt gnbInfos ueInfo tk])
    (auto intro: only_lm_log_trans [OF _ emit_handover_log])

lemma ho_end_log: "only_lm_log d (tk_data (ho_end verbose name now p st d ueInfos gnbInfos))"
  by (rule ho_end_induct) (simp_all add: ho_start_def ho_ue_log)

lemma DBL_MAX_ge: "1000 \<le> DBL_MAX"
proof -
  have "(1000 :: real) \<le> (2 - 1 / 2 ^ 52) * 2 ^ 10" by simp
  also have "\<dots> \<le> DBL_MAX" unfolding DBL_MAX_def by (intro mult_left_mono power_increasing) simp_all
  finally show ?thesis .
qed

section \<open>The measurements of a UE\<close>

text \<open>The strongest measurement of a cell on component carrier 0, and the last one of a serving cell.\<close>

definition rsrps :: "measurement list \<Rightarrow> uint16 \<Rightarrow> double list" where
  "rsrps ms c =
     map (\<lambda>(rnti, cellId, rsrp, rsrq, isServing, ccId). rsrp)
       (filter (\<lambda>(rnti, cellId, rsrp, rsrq, isServing, ccId). ccId = 0 \<and> cellId = c) ms)"

definition strongest :: "measurement list \<Rightarrow> uint16 \<Rightarrow> double option" where
  "strongest ms c = (if rsrps ms c = [] then None else Some (Max (set (rsrps ms c))))"

lemma collect_snoc: "collect (ms @ [m]) = collect_one m (collect ms)"
  by (simp add: collect_def)

lemma rsrps_snoc:
  "rsrps (ms @ [(rnti, cellId, rsrp, rsrq, sv, cc)]) c =
     rsrps ms c @ (if cc = 0 \<and> cellId = c then [rsrp] else [])"
  by (simp add: rsrps_def)

lemma strongest_snoc:
  "strongest (ms @ [(rnti, cellId, rsrp, rsrq, sv, cc)]) c =
     (if cc = 0 \<and> cellId = c
      then (case strongest ms c of None \<Rightarrow> Some rsrp | Some b \<Rightarrow> Some (max b rsrp))
      else strongest ms c)"
  by (auto simp: strongest_def rsrps_snoc max.commute)

lemma collect_best: "smap_ok (um_best (collect ms)) \<and> map_of (um_best (collect ms)) = strongest ms"
proof (induction ms rule: rev_induct)
  case Nil
  then show ?case by (auto simp: collect_def strongest_def rsrps_def)
next
  case (snoc m ms)
  obtain rnti cellId rsrp rsrq sv cc where m: "m = (rnti, cellId, rsrp, rsrq, sv, cc)" by (cases m)
  show ?case
    using snoc
    by (auto simp: m collect_snoc collect_one_def strongest_snoc Let_def fun_eq_iff max_def
        split: option.splits)
qed

lemma best_mem: "(c, r) \<in> set (um_best (collect ms)) \<longleftrightarrow> strongest ms c = Some r"
proof -
  have "distinct (map fst (um_best (collect ms)))"
    using collect_best [of ms] by (auto simp: smap_ok_def strict_sorted_iff)
  then show ?thesis using collect_best [of ms] by (metis map_of_eq_Some_iff)
qed

lemma sort_ok_D:
  assumes "sort_ok srt"
  shows "set (srt xs) = set xs" and "sorted_wrt (\<lambda>a b. snd a \<ge> snd b) (srt xs)"
  using assms by (auto simp: sort_ok_def dest: mset_eq_setD)

section \<open>The loop\<close>

lemma unat_inc: "x < (y :: 'a::len word) \<Longrightarrow> unat (x + 1) = Suc (unat x)"
proof -
  assume "x < y"
  then have "Suc (unat x) \<le> unat y" by (simp add: word_less_nat_alt)
  then have "Suc (unat x) < 2 ^ LENGTH('a)"
    using unsigned_less [of y, where 'a = nat] by (rule le_less_trans)
  then have "unat x + unat (1 :: 'a word) < 2 ^ LENGTH('a)" by simp
  then show ?thesis by (simp add: unat_add_lem [THEN iffD1])
qed

definition issued_to :: "uint16 \<Rightarrow> (uint64 \<times> handover_cmd) list \<Rightarrow> nat" where
  "issued_to c es = length (filter (\<lambda>e. cmd_targetCellId (snd e) = c) es)"

definition capacity_inv :: "rsrp_params \<Rightarrow> (uint16 \<Rightarrow> nat) \<Rightarrow> ho_tick \<Rightarrow> bool" where
  "capacity_inv p base tk \<longleftrightarrow>
     (\<forall>c. unat (smap_get 0 (tk_count tk) c) = base c + issued_to c (tk_commands tk) \<and>
          (issued_to c (tk_commands tk) > 0 \<longrightarrow>
           base c + issued_to c (tk_commands tk) \<le> unat (m_maxUesPerCell p)))"

lemma emits_room:
  assumes "emits now p srt gnbInfos u tk um c"
  shows "smap_get 0 (tk_count tk) (fst c) < m_maxUesPerCell p"
  using assms choose_target_spec(4) unfolding emits_def by blast

lemma capacity_inv_ho_ue:
  assumes "capacity_inv p base tk"
  shows "capacity_inv p base (ho_ue verbose name now p srt gnbInfos ueInfo tk)"
proof (rule ho_ue_cases [of verbose name now p srt gnbInfos ueInfo tk])
  fix pend
  assume "ho_ue verbose name now p srt gnbInfos ueInfo tk = tk\<lparr>tk_pending := pend\<rparr>"
  with assms show ?thesis by (simp add: capacity_inv_def)
next
  fix um c
  assume e: "emits now p srt gnbInfos (ui_nodeId ueInfo) tk um c" and eq:
    "ho_ue verbose name now p srt gnbInfos ueInfo tk =
       emit_handover verbose name now (ui_nodeId ueInfo)
         (GetServingGnbNodeId gnbInfos (um_servingCellId um)) (um_servingRnti um)
         (um_servingCellId um) (fst c)
         (tk\<lparr>tk_pending := clear_reached (ui_nodeId ueInfo) (um_servingCellId um) (tk_pending tk)\<rparr>)"
  have room: "smap_get 0 (tk_count tk) (fst c) < m_maxUesPerCell p" by (rule emits_room [OF e])
  then have "unat (smap_get 0 (tk_count tk) (fst c)) < unat (m_maxUesPerCell p)"
    by (simp add: word_less_nat_alt)
  with assms unat_inc [OF room] show ?thesis
    by (auto simp: eq capacity_inv_def smap_get_count_inc issued_to_def)
qed

lemma capacity_inv_end:
  "capacity_inv p (\<lambda>c. unat (smap_get 0 (tk_count (ho_start now p st d ueInfos gnbInfos)) c))
    (ho_end verbose name now p st d ueInfos gnbInfos)"
  by (rule ho_end_induct) (simp_all add: capacity_inv_ho_ue, simp add: capacity_inv_def issued_to_def ho_start_def)

text \<open>What a command says of the UE it was issued for, in terms of the measurements and the final counts.\<close>

definition sound_handover ::
  "time \<Rightarrow> rsrp_params \<Rightarrow> gnb_info list \<Rightarrow> oran_data \<Rightarrow> (uint16 \<times> uint32) list \<Rightarrow> uint64 \<Rightarrow> handover_cmd \<Rightarrow> bool" where
  "sound_handover now p gnbInfos d cnt u h \<longleftrightarrow>
     (let ms = GetNrUeRsrpRsrq d u; um = collect ms; cur = um_servingCellId um
      in m_warmup p \<le> now \<and> cur \<noteq> 0 \<and>
         cmd_targetE2NodeId h = GetServingGnbNodeId gnbInfos cur \<and> cmd_targetE2NodeId h \<noteq> 0 \<and>
         cmd_targetRnti h = um_servingRnti um \<and> cmd_targetCellId h \<noteq> cur \<and>
         CellKnown gnbInfos (cmd_targetCellId h) \<and>
         (\<exists>r. strongest ms (cmd_targetCellId h) = Some r \<and> r > um_servingRsrp um + m_rsrpThreshold p \<and>
            (\<forall>c r'. strongest ms c = Some r' \<and> CellKnown gnbInfos c \<and> c \<noteq> cur \<and> r' > r \<longrightarrow>
               m_tryNextBest p \<and> smap_get 0 cnt c \<ge> m_maxUesPerCell p)))"

definition full_mono :: "rsrp_params \<Rightarrow> (uint16 \<times> uint32) list \<Rightarrow> (uint16 \<times> uint32) list \<Rightarrow> bool" where
  "full_mono p cnt cnt' \<longleftrightarrow>
     (\<forall>c. smap_get 0 cnt c \<ge> m_maxUesPerCell p \<longrightarrow> smap_get 0 cnt' c \<ge> m_maxUesPerCell p)"

lemma sound_handover_mono:
  "sound_handover now p gnbInfos d cnt u h \<Longrightarrow> full_mono p cnt cnt' \<Longrightarrow>
    sound_handover now p gnbInfos d cnt' u h"
  unfolding sound_handover_def full_mono_def Let_def by blast

lemma full_mono_inc:
  "smap_get 0 cnt c < m_maxUesPerCell p \<Longrightarrow> full_mono p cnt (count_inc c cnt)"
  by (auto simp: full_mono_def smap_get_count_inc)

lemma ho_ue_full_mono:
  "full_mono p (tk_count tk) (tk_count (ho_ue verbose name now p srt gnbInfos ueInfo tk))"
  by (rule ho_ue_cases [of verbose name now p srt gnbInfos ueInfo tk])
    (simp_all add: full_mono_inc emits_room, simp add: full_mono_def)

lemma emits_sound:
  assumes e: "emits now p srt gnbInfos u tk um c" and srt: "sort_ok srt" and log: "only_lm_log d (tk_data tk)"
  shows "sound_handover now p gnbInfos d (tk_count tk) u
    \<lparr>cmd_targetE2NodeId = GetServingGnbNodeId gnbInfos (um_servingCellId um),
     cmd_targetCellId = fst c, cmd_targetRnti = um_servingRnti um\<rparr>"
proof -
  let ?ms = "GetNrUeRsrpRsrq d u" and ?cs = "srt (candidates gnbInfos (um_best um))"
  have um: "um = collect ?ms" and ch: "choose_target p (um_servingCellId um) (um_servingRsrp um)
      (tk_count tk) ?cs = Some c"
    using e GetNrUeRsrpRsrq_lm_log [OF log] by (auto simp: emits_def)
  have mem: "x \<in> set ?cs \<longleftrightarrow> CellKnown gnbInfos (fst x) \<and> strongest ?ms (fst x) = Some (snd x)" for x
    unfolding sort_ok_D(1) [OF srt] um candidates_def by (cases x) (auto simp: best_mem)
  note spec = choose_target_spec [OF ch]
  have "m_tryNextBest p \<and> smap_get 0 (tk_count tk) x \<ge> m_maxUesPerCell p"
    if "strongest ?ms x = Some r" "CellKnown gnbInfos x" "x \<noteq> um_servingCellId um" "r > snd c" for x r
    using choose_target_best [OF ch sort_ok_D(2) [OF srt], of "(x, r)"] that mem [of "(x, r)"] by simp
  moreover have "m_warmup p \<le> now" using e by (auto simp: emits_def ue_gated_def)
  ultimately show ?thesis
    using spec mem [of c] e unfolding sound_handover_def Let_def um [symmetric] emits_def by simp blast
qed

lemma sound_handover_end:
  assumes srt: "sort_ok (std_sort st)"
    and mem: "(u, h) \<in> set (tk_commands (ho_end verbose name now p st d ueInfos gnbInfos))"
  shows "u \<in> ui_nodeId ` set ueInfos"
    and "sound_handover now p gnbInfos d (tk_count (ho_end verbose name now p st d ueInfos gnbInfos)) u h"
proof -
  let ?P = "\<lambda>tk :: ho_tick. only_lm_log d (tk_data tk) \<and> (\<forall>(u, h) \<in> set (tk_commands tk).
      u \<in> ui_nodeId ` set ueInfos \<and> sound_handover now p gnbInfos d (tk_count tk) u h)"
  have "?P (ho_end verbose name now p st d ueInfos gnbInfos)"
  proof (rule ho_end_induct)
    show "?P (ho_start now p st d ueInfos gnbInfos)" by (simp add: ho_start_def)
  next
    fix ueInfo and tk :: ho_tick
    assume ue: "ueInfo \<in> set ueInfos" and P: "?P tk"
    let ?tk = "ho_ue verbose name now p (std_sort st) gnbInfos ueInfo tk"
    have old: "\<forall>(u, h) \<in> set (tk_commands tk).
        u \<in> ui_nodeId ` set ueInfos \<and> sound_handover now p gnbInfos d (tk_count ?tk) u h"
      using P sound_handover_mono [OF _ ho_ue_full_mono] by blast
    have "only_lm_log d (tk_data ?tk)" using P ho_ue_log by blast
    moreover have "\<forall>(u, h) \<in> set (tk_commands ?tk).
        u \<in> ui_nodeId ` set ueInfos \<and> sound_handover now p gnbInfos d (tk_count ?tk) u h"
    proof (rule ho_ue_cases [of verbose name now p "std_sort st" gnbInfos ueInfo tk])
      fix pend
      assume "?tk = tk\<lparr>tk_pending := pend\<rparr>"
      then show ?thesis using old by simp
    next
      fix um c
      assume e: "emits now p (std_sort st) gnbInfos (ui_nodeId ueInfo) tk um c" and eq:
        "?tk = emit_handover verbose name now (ui_nodeId ueInfo)
           (GetServingGnbNodeId gnbInfos (um_servingCellId um)) (um_servingRnti um)
           (um_servingCellId um) (fst c)
           (tk\<lparr>tk_pending := clear_reached (ui_nodeId ueInfo) (um_servingCellId um) (tk_pending tk)\<rparr>)"
      have log: "only_lm_log d (tk_data tk)" using P by blast
      have cnt: "tk_count ?tk = count_inc (fst c) (tk_count tk)" by (simp add: eq)
      show ?thesis
        using old ue sound_handover_mono [OF emits_sound [OF e srt log] full_mono_inc [OF emits_room [OF e]]]
        unfolding cnt by (auto simp: eq)
    qed
    ultimately show "?P ?tk" by blast
  qed
  with mem show "u \<in> ui_nodeId ` set ueInfos"
    and "sound_handover now p gnbInfos d (tk_count (ho_end verbose name now p st d ueInfos gnbInfos)) u h"
    by auto
qed

section \<open>Pacing\<close>

text \<open>
  A history of the runs of a module: the time and the input of each run, with the static maps threaded
  through; the result lists the commands with their time and UE.
\<close>

fun history ::
  "(time \<Rightarrow> 'i \<Rightarrow> 's \<Rightarrow> (uint64 \<times> handover_cmd) list \<times> 's) \<Rightarrow> 's \<Rightarrow> (time \<times> 'i) list \<Rightarrow>
   (time \<times> uint64 \<times> handover_cmd) list" where
  "history run st [] = []"
| "history run st ((now, i) # runs) =
     map (Pair now) (fst (run now i st)) @ history run (snd (run now i st)) runs"

type_synonym ho_input = "oran_data \<times> ue_info list \<times> gnb_info list"

definition ho_run ::
  "bool \<Rightarrow> string \<Rightarrow> rsrp_params \<Rightarrow> time \<Rightarrow> ho_input \<Rightarrow> ho_static \<Rightarrow> (uint64 \<times> handover_cmd) list \<times> ho_static" where
  "ho_run verbose name p now i st =
     (case i of (d, ueInfos, gnbInfos) \<Rightarrow>
        (tk_commands (ho_end verbose name now p st d ueInfos gnbInfos),
         fst (snd (GetHandoverCommands verbose name now p st d ueInfos gnbInfos))))"

definition paced :: "time \<Rightarrow> (time \<times> uint64 \<times> handover_cmd) list \<Rightarrow> bool" where
  "paced gap es \<longleftrightarrow>
     sorted_wrt (\<lambda>a b. fst (snd a) = fst (snd b) \<longrightarrow> fst b - fst a \<ge> gap) es"

definition remembered :: "(time \<times> uint64 \<times> handover_cmd) list \<Rightarrow> (uint64 \<times> time) list \<Rightarrow> bool" where
  "remembered es lastT \<longleftrightarrow> (\<forall>e\<in>set es. \<exists>t. map_of lastT (fst (snd e)) = Some t \<and> fst e \<le> t)"

text \<open>
  What pacing needs of a module: an iteration issues at most one command, for its UE, only after the
  cooldown, and then remembers the time.
\<close>

locale handover_loop =
  fixes step :: "ue_info \<Rightarrow> 't \<Rightarrow> 't" and cmds :: "'t \<Rightarrow> (uint64 \<times> handover_cmd) list"
    and last_time :: "'t \<Rightarrow> (uint64 \<times> time) list" and now :: time and gap :: time
  assumes step_cases: "cmds (step ue t) = cmds t \<and> last_time (step ue t) = last_time t \<or>
    (\<exists>h. cmds (step ue t) = cmds t @ [(ui_nodeId ue, h)] \<and>
       last_time (step ue t) = smap_upd (ui_nodeId ue) now (last_time t) \<and>
       (\<forall>s. map_of (last_time t) (ui_nodeId ue) = Some s \<longrightarrow> gap \<le> now - s))"
begin

definition paced_upto :: "(time \<times> uint64 \<times> handover_cmd) list \<Rightarrow> 't \<Rightarrow> bool" where
  "paced_upto es t \<longleftrightarrow> paced gap (es @ map (Pair now) (cmds t)) \<and>
     remembered (es @ map (Pair now) (cmds t)) (last_time t)"

lemma paced_step:
  assumes "paced_upto es t" and past: "\<forall>e\<in>set es. fst e \<le> now"
  shows "paced_upto es (step ue t)"
proof (cases "cmds (step ue t) = cmds t \<and> last_time (step ue t) = last_time t")
  case True
  with assms(1) show ?thesis by (simp add: paced_upto_def)
next
  case False
  then obtain h where h: "cmds (step ue t) = cmds t @ [(ui_nodeId ue, h)]"
      "last_time (step ue t) = smap_upd (ui_nodeId ue) now (last_time t)"
      "\<And>s. map_of (last_time t) (ui_nodeId ue) = Some s \<Longrightarrow> gap \<le> now - s"
    using step_cases by blast
  let ?es = "es @ map (Pair now) (cmds t)"
  have gap: "now - fst x \<ge> gap" if x: "x \<in> set ?es" "fst (snd x) = ui_nodeId ue" for x
  proof -
    from assms(1) x obtain s where "map_of (last_time t) (ui_nodeId ue) = Some s" "fst x \<le> s"
      unfolding paced_upto_def remembered_def by metis
    with h(3) show ?thesis by force
  qed
  have "\<forall>x\<in>set ?es. fst x \<le> now" using past by auto
  with gap assms(1) show ?thesis
    unfolding paced_upto_def h(1,2) paced_def remembered_def map_append append_assoc [symmetric]
    by (auto simp: sorted_wrt_append)
qed

lemma paced_steps:
  assumes "paced_upto es t" and "\<forall>e\<in>set es. fst e \<le> now"
  shows "paced_upto es (fold step ues t)"
  using assms by (induction ues arbitrary: t) (simp_all add: paced_step)

end

text \<open>And of a whole run.\<close>

locale handover_module =
  fixes run :: "time \<Rightarrow> 'i \<Rightarrow> 's \<Rightarrow> (uint64 \<times> handover_cmd) list \<times> 's"
    and last_of :: "'s \<Rightarrow> (uint64 \<times> time) list" and gap :: time
  assumes run_paced: "paced gap es \<Longrightarrow> remembered es (last_of st) \<Longrightarrow> \<forall>e\<in>set es. fst e \<le> now \<Longrightarrow>
    paced gap (es @ map (Pair now) (fst (run now i st))) \<and>
    remembered (es @ map (Pair now) (fst (run now i st))) (last_of (snd (run now i st)))"
begin

lemma paced_history_from:
  assumes "paced gap es" and "remembered es (last_of st)"
    and "sorted (map fst runs)" and "\<forall>e\<in>set es. \<forall>r\<in>set runs. fst e \<le> fst r"
  shows "paced gap (es @ history run st runs)"
  using assms
proof (induction runs arbitrary: es st)
  case (Cons r runs)
  obtain now i where r: "r = (now, i)" by (cases r)
  let ?es = "es @ map (Pair now) (fst (run now i st))"
  have "\<forall>e\<in>set es. fst e \<le> now" using Cons.prems(4) by (simp add: r)
  note step = run_paced [OF Cons.prems(1,2) this, of i]
  have "paced gap (?es @ history run (snd (run now i st)) runs)"
    by (rule Cons.IH) (use step Cons.prems(3,4) in \<open>auto simp: r\<close>)
  then show ?case by (simp add: r)
qed simp

lemma paced_history: "sorted (map fst runs) \<Longrightarrow> paced gap (history run st runs)"
  using paced_history_from [of "[]" st runs] by (simp add: paced_def remembered_def)

end

lemma emits_cooldown:
  assumes "emits now p srt gnbInfos u tk um c" and "map_of (tk_last tk) u = Some t"
  shows "now - t \<ge> m_minHoInterval p"
  using assms by (auto simp: emits_def ue_gated_def)

interpretation rsrp_loop: handover_loop
  "ho_ue verbose name now p srt gnbInfos" tk_commands tk_last now "m_minHoInterval p"
  for verbose name now p srt gnbInfos
proof unfold_locales
  fix ue and t :: ho_tick
  let ?t = "ho_ue verbose name now p srt gnbInfos ue t"
  show "tk_commands ?t = tk_commands t \<and> tk_last ?t = tk_last t \<or>
    (\<exists>h. tk_commands ?t = tk_commands t @ [(ui_nodeId ue, h)] \<and>
       tk_last ?t = smap_upd (ui_nodeId ue) now (tk_last t) \<and>
       (\<forall>s. map_of (tk_last t) (ui_nodeId ue) = Some s \<longrightarrow> m_minHoInterval p \<le> now - s))"
    by (rule ho_ue_cases [of verbose name now p srt gnbInfos ue t]) (auto dest: emits_cooldown)
qed

lemma GetHandoverCommands_static:
  "fst (snd (GetHandoverCommands verbose name now p st d ueInfos gnbInfos)) =
     (let tk = ho_end verbose name now p st d ueInfos gnbInfos
      in st\<lparr>lastHoCmdTime := tk_last tk, pendingHoTarget := tk_pending tk\<rparr>)"
  by (simp add: GetHandoverCommands_def Let_def)

interpretation rsrp_module: handover_module "ho_run verbose name p" lastHoCmdTime "m_minHoInterval p"
  for verbose name p
proof unfold_locales
  fix es and st :: ho_static and now :: time and i :: ho_input
  assume pre: "paced (m_minHoInterval p) es" "remembered es (lastHoCmdTime st)" "\<forall>e\<in>set es. fst e \<le> now"
  obtain d ueInfos gnbInfos where i: "i = (d, ueInfos, gnbInfos)" by (cases i)
  have "rsrp_loop.paced_upto now p es (ho_start now p st d ueInfos gnbInfos)"
    using pre(1,2) by (simp add: rsrp_loop.paced_upto_def ho_start_def)
  from rsrp_loop.paced_steps [OF this pre(3), of verbose name "std_sort st" gnbInfos ueInfos]
  show "paced (m_minHoInterval p) (es @ map (Pair now) (fst (ho_run verbose name p now i st))) \<and>
    remembered (es @ map (Pair now) (fst (ho_run verbose name p now i st)))
      (lastHoCmdTime (snd (ho_run verbose name p now i st)))"
    by (simp add: rsrp_loop.paced_upto_def ho_run_def i GetHandoverCommands_static Let_def ho_end_def)
qed

section \<open>A pending handover\<close>

definition pending_recent :: "time \<Rightarrow> rsrp_params \<Rightarrow> ho_tick \<Rightarrow> bool" where
  "pending_recent now p tk \<longleftrightarrow>
     (\<forall>u. map_of (tk_pending tk) u \<noteq> None \<longrightarrow>
        (\<exists>t. map_of (tk_last tk) u = Some t \<and> now - t < m_hoAttemptTimeout p))"

lemma map_of_filter_key: "map_of (filter (\<lambda>(k, _). P k) m) k = (if P k then map_of m k else None)"
  by (induction m) auto

lemma cleanup_pending_lookup:
  "map_of (cleanup_pending now p st) u =
     (case map_of (lastHoCmdTime st) u of
        None \<Rightarrow> None
      | Some t \<Rightarrow> if now - t < m_hoAttemptTimeout p then map_of (pendingHoTarget st) u else None)"
  by (auto simp: cleanup_pending_def map_of_filter_key split: option.splits)

lemma pending_recent_start: "pending_recent now p (ho_start now p st d ueInfos gnbInfos)"
  by (auto simp: pending_recent_def ho_start_def cleanup_pending_lookup split: option.splits if_splits)

text \<open>A UE with a pending entry is gated, so an entry is never cleared before its timeout.\<close>

lemma pending_gated:
  "pending_recent now p tk \<Longrightarrow> \<not> ue_gated now p (tk_last tk) (tk_pending tk) u \<Longrightarrow>
    map_of (tk_pending tk) u = None"
  by (auto simp: pending_recent_def ue_gated_def)

lemma clear_reached_absent: "map_of pend u = None \<Longrightarrow> clear_reached u cur pend = pend"
  by (simp add: clear_reached_def)

lemma pending_ho_ue:
  assumes "0 < m_hoAttemptTimeout p" and "pending_recent now p tk"
  shows "pending_recent now p (ho_ue verbose name now p srt gnbInfos ueInfo tk)"
    and "map_of (tk_pending tk) u = Some c \<Longrightarrow>
      map_of (tk_pending (ho_ue verbose name now p srt gnbInfos ueInfo tk)) u = Some c \<and>
      map_of (tk_last (ho_ue verbose name now p srt gnbInfos ueInfo tk)) u = map_of (tk_last tk) u \<and>
      filter (\<lambda>e. fst e = u) (tk_commands (ho_ue verbose name now p srt gnbInfos ueInfo tk)) =
        filter (\<lambda>e. fst e = u) (tk_commands tk)"
proof -
  let ?tk = "ho_ue verbose name now p srt gnbInfos ueInfo tk"
  have clr: "\<not> ue_gated now p (tk_last tk) (tk_pending tk) (ui_nodeId ueInfo) \<Longrightarrow>
      clear_reached (ui_nodeId ueInfo) cur (tk_pending tk) = tk_pending tk" for cur
    by (simp add: pending_gated [OF assms(2)] clear_reached_absent)
  have "pending_recent now p ?tk \<and> (map_of (tk_pending tk) u = Some c \<longrightarrow>
      map_of (tk_pending ?tk) u = Some c \<and> map_of (tk_last ?tk) u = map_of (tk_last tk) u \<and>
      filter (\<lambda>e. fst e = u) (tk_commands ?tk) = filter (\<lambda>e. fst e = u) (tk_commands tk))"
  proof (rule ho_ue_cases [of verbose name now p srt gnbInfos ueInfo tk])
    fix pend
    assume "?tk = tk\<lparr>tk_pending := pend\<rparr>"
      and "pend = tk_pending tk \<or> \<not> ue_gated now p (tk_last tk) (tk_pending tk) (ui_nodeId ueInfo) \<and>
        (\<exists>cur. pend = clear_reached (ui_nodeId ueInfo) cur (tk_pending tk))"
    then show ?thesis using assms(2) clr by (auto simp: pending_recent_def)
  next
    fix um ch
    assume e: "emits now p srt gnbInfos (ui_nodeId ueInfo) tk um ch" and eq:
      "?tk = emit_handover verbose name now (ui_nodeId ueInfo)
         (GetServingGnbNodeId gnbInfos (um_servingCellId um)) (um_servingRnti um)
         (um_servingCellId um) (fst ch)
         (tk\<lparr>tk_pending := clear_reached (ui_nodeId ueInfo) (um_servingCellId um) (tk_pending tk)\<rparr>)"
    have "\<not> ue_gated now p (tk_last tk) (tk_pending tk) (ui_nodeId ueInfo)"
      using e by (simp add: emits_def)
    then show ?thesis
      using assms clr pending_gated [OF assms(2)] unfolding eq
      by (auto simp: pending_recent_def)
  qed
  then show "pending_recent now p ?tk" and "map_of (tk_pending tk) u = Some c \<Longrightarrow>
      map_of (tk_pending ?tk) u = Some c \<and> map_of (tk_last ?tk) u = map_of (tk_last tk) u \<and>
      filter (\<lambda>e. fst e = u) (tk_commands ?tk) = filter (\<lambda>e. fst e = u) (tk_commands tk)"
    by auto
qed

section \<open>No feasible handover is missed\<close>

lemma ue_gated_cong:
  "map_of lastT u = map_of lastT' u \<Longrightarrow> map_of pend u = map_of pend' u \<Longrightarrow>
    ue_gated now p lastT pend u = ue_gated now p lastT' pend' u"
  by (simp add: ue_gated_def)

lemma ho_ue_other:
  assumes "ui_nodeId ueInfo \<noteq> u"
  shows "map_of (tk_last (ho_ue verbose name now p srt gnbInfos ueInfo tk)) u = map_of (tk_last tk) u"
    and "map_of (tk_pending (ho_ue verbose name now p srt gnbInfos ueInfo tk)) u = map_of (tk_pending tk) u"
proof -
  have clr: "map_of (clear_reached (ui_nodeId ueInfo) cur pend) u = map_of pend u" for cur pend
    using assms by (simp add: clear_reached_def)
  show "map_of (tk_last (ho_ue verbose name now p srt gnbInfos ueInfo tk)) u = map_of (tk_last tk) u"
    by (rule ho_ue_cases [of verbose name now p srt gnbInfos ueInfo tk]) (use assms in auto)
  show "map_of (tk_pending (ho_ue verbose name now p srt gnbInfos ueInfo tk)) u = map_of (tk_pending tk) u"
    by (rule ho_ue_cases [of verbose name now p srt gnbInfos ueInfo tk]) (use assms clr in auto)
qed

lemma ho_ues_other:
  assumes "u \<notin> ui_nodeId ` set us"
  shows "map_of (tk_last (fold (ho_ue verbose name now p srt gnbInfos) us tk)) u = map_of (tk_last tk) u \<and>
    map_of (tk_pending (fold (ho_ue verbose name now p srt gnbInfos) us tk)) u = map_of (tk_pending tk) u"
  using assms by (induction us arbitrary: tk) (auto simp: ho_ue_other)

lemma ho_ue_commands_mono: "set (tk_commands tk) \<subseteq> set (tk_commands (ho_ue verbose name now p srt gnbInfos ueInfo tk))"
  by (rule ho_ue_cases [of verbose name now p srt gnbInfos ueInfo tk]) auto

lemma full_mono_trans: "full_mono p a b \<Longrightarrow> full_mono p b c \<Longrightarrow> full_mono p a c"
  by (simp add: full_mono_def)

lemma ho_ues_mono:
  "set (tk_commands tk) \<subseteq> set (tk_commands (fold (ho_ue verbose name now p srt gnbInfos) us tk)) \<and>
   full_mono p (tk_count tk) (tk_count (fold (ho_ue verbose name now p srt gnbInfos) us tk)) \<and>
   (only_lm_log d (tk_data tk) \<longrightarrow> only_lm_log d (tk_data (fold (ho_ue verbose name now p srt gnbInfos) us tk)))"
proof (induction us arbitrary: tk)
  case Nil
  then show ?case by (simp add: full_mono_def)
next
  case (Cons a us)
  from Cons [of "ho_ue verbose name now p srt gnbInfos a tk"] show ?case
    using ho_ue_commands_mono [of tk verbose name now p srt gnbInfos a] ho_ue_log [of d tk verbose name now p srt gnbInfos a]
      full_mono_trans [OF ho_ue_full_mono [of p tk verbose name now srt gnbInfos a]]
    by auto
qed

lemma ho_ue_commands:
  assumes ng: "\<not> ue_gated now p (tk_last tk) (tk_pending tk) (ui_nodeId ueInfo)"
    and um: "um = collect (GetNrUeRsrpRsrq (tk_data tk) (ui_nodeId ueInfo))"
    and "um_servingCellId um \<noteq> 0" and "um_servingRnti um \<noteq> 0"
    and "GetServingGnbNodeId gnbInfos (um_servingCellId um) \<noteq> 0"
    and "choose_target p (um_servingCellId um) (um_servingRsrp um) (tk_count tk)
       (srt (candidates gnbInfos (um_best um))) = Some c"
  shows "ui_nodeId ueInfo \<in> fst ` set (tk_commands (ho_ue verbose name now p srt gnbInfos ueInfo tk))"
  using assms by (simp add: ho_ue_def Let_def)

lemma ho_end_complete:
  assumes srt: "sort_ok (std_sort st)" and dist: "distinct (map ui_nodeId ueInfos)"
    and ue: "ueInfo \<in> set ueInfos" and u: "u = ui_nodeId ueInfo"
    and ng: "\<not> ue_gated now p (lastHoCmdTime st) (cleanup_pending now p st) u"
    and um: "um = collect (GetNrUeRsrpRsrq d u)"
    and srv: "um_servingCellId um \<noteq> 0" "um_servingRnti um \<noteq> 0"
      "GetServingGnbNodeId gnbInfos (um_servingCellId um) \<noteq> 0"
    and nxt: "m_tryNextBest p" and c: "CellKnown gnbInfos c" "c \<noteq> um_servingCellId um"
      "strongest (GetNrUeRsrpRsrq d u) c = Some r" "r > um_servingRsrp um + m_rsrpThreshold p"
    and room: "smap_get 0 (tk_count (ho_end verbose name now p st d ueInfos gnbInfos)) c < m_maxUesPerCell p"
  shows "u \<in> fst ` set (tk_commands (ho_end verbose name now p st d ueInfos gnbInfos))"
proof -
  let ?step = "ho_ue verbose name now p (std_sort st) gnbInfos"
  from ue obtain xs ys where xy: "ueInfos = xs @ ueInfo # ys" by (auto simp: in_set_conv_decomp)
  define tk1 where "tk1 = fold ?step xs (ho_start now p st d ueInfos gnbInfos)"
  define tk2 where "tk2 = ?step ueInfo tk1"
  have e: "ho_end verbose name now p st d ueInfos gnbInfos = fold ?step ys tk2"
    unfolding ho_end_def tk2_def tk1_def by (simp add: xy)
  have log: "only_lm_log d (tk_data tk1)"
    using ho_ues_mono unfolding tk1_def by (metis ho_start_def ho_tick.select_convs(5) only_lm_log_refl)
  have "u \<notin> ui_nodeId ` set xs" using dist by (auto simp: xy u)
  from ho_ues_other [OF this, of verbose name now p "std_sort st" gnbInfos "ho_start now p st d ueInfos gnbInfos"]
  have ng1: "\<not> ue_gated now p (tk_last tk1) (tk_pending tk1) u"
    using ng ue_gated_cong unfolding tk1_def ho_start_def ho_tick.simps by blast
  have um1: "um = collect (GetNrUeRsrpRsrq (tk_data tk1) u)"
    using um GetNrUeRsrpRsrq_lm_log [OF log] by simp
  have fm: "full_mono p (tk_count tk1) (tk_count (fold ?step ys tk2))"
    unfolding tk2_def using full_mono_trans [OF ho_ue_full_mono] ho_ues_mono by blast
  have "(c, r) \<in> set (std_sort st (candidates gnbInfos (um_best um)))"
    unfolding sort_ok_D(1) [OF srt] um candidates_def using c best_mem by simp
  moreover have "\<not> smap_get 0 (tk_count tk1) c \<ge> m_maxUesPerCell p"
    using room fm unfolding e full_mono_def by (meson linorder_not_less)
  ultimately obtain ch where "choose_target p (um_servingCellId um) (um_servingRsrp um) (tk_count tk1)
      (std_sort st (candidates gnbInfos (um_best um))) = Some ch"
    using choose_target_None [OF _ nxt] c by fastforce
  from ho_ue_commands [where srt = "std_sort st", OF ng1 [unfolded u] um1 [unfolded u] srv this]
  have "u \<in> fst ` set (tk_commands tk2)" by (simp add: tk2_def u)
  then show ?thesis unfolding e using ho_ues_mono by (metis (no_types, lifting) image_mono subsetD)
qed

section \<open>A concrete run\<close>

text \<open>UE 1 is served by cell 1 (gNB 10) and hears cell 2 (gNB 20) twenty decibels stronger.\<close>

definition ex_static :: ho_static where
  "ex_static = \<lparr>lastHoCmdTime = [], pendingHoTarget = [], std_sort = sort_key (\<lambda>c. - snd c)\<rparr>"

definition ex_pos :: vector where
  "ex_pos = \<lparr>vec_x = 0, vec_y = 0, vec_z = 0\<rparr>"

definition ex_data :: oran_data where
  "ex_data =
     \<lparr>d_active = True, d_dbPath = [], d_open = True,
      d_db = (InitDb (\<lambda>n. [0..<n]) (\<lambda>_. 0) (\<lambda>s. s))
        \<lparr>t_noderegistration := [\<lparr>reg_nodeid = 1, reg_registered = True, reg_time = 0\<rparr>],
         t_nruersrprsrq := [rsrprsrq_row 1 7 5 1 (-100) 0 True 0, rsrprsrq_row 1 7 5 2 (-80) 0 False 0]\<rparr>\<rparr>"

definition ex_ues :: "ue_info list" where
  "ex_ues = [\<lparr>ui_nodeId = 1, ui_cellId = 1, ui_rnti = 5, ui_position = ex_pos\<rparr>]"

definition ex_gnbs :: "gnb_info list" where
  "ex_gnbs = [\<lparr>gi_nodeId = 10, gi_cellId = 1, gi_position = ex_pos\<rparr>,
              \<lparr>gi_nodeId = 20, gi_cellId = 2, gi_position = ex_pos\<rparr>]"

definition ex_command :: handover_cmd where
  "ex_command = \<lparr>cmd_targetE2NodeId = 10, cmd_targetCellId = 2, cmd_targetRnti = 5\<rparr>"

lemma sort_ok_sort_key: "sort_ok (sort_key (\<lambda>c. - snd c))"
proof -
  have "sorted_wrt (\<lambda>a b. snd a \<ge> snd b) (sort_key (\<lambda>c. - snd c) xs)" for xs :: "cand list"
    using sorted_sort_key [of "\<lambda>c. - snd c" xs] by (simp add: sorted_map)
  then show ?thesis by (simp add: sort_ok_def)
qed

lemma ex_measurements:
  "GetNrUeRsrpRsrq ex_data 1 = [(5, 1, -100, 0, True, 0), (5, 2, -80, 0, False, 0)]"
  by (simp add: GetNrUeRsrpRsrq_def ex_data_def IsNodeRegistered_def limit1_def order_desc_def
      newest_def scan_rows_def measurement_of_def rsrprsrq_row_def InitDb_def)

lemma ex_collect:
  "collect [(5, 1, -100, 0, True, 0), (5, 2, -80, 0, False, 0)] =
     \<lparr>um_servingRsrp = -100, um_servingCellId = 1, um_servingRnti = 5, um_best = [(1, -100), (2, -80)]\<rparr>"
  by (simp add: collect_def collect_one_def)

lemma ex_run:
  "tk_commands (ho_end False [] 3000000000 OranLmNr2NrRsrpHandover ex_static ex_data ex_ues ex_gnbs) =
     [(1, ex_command)]"
  by (simp add: ho_end_def ho_start_def ho_ue_def ex_ues_def ex_static_def ex_gnbs_def ex_measurements
      ex_collect Let_def ue_gated_def OranLmNr2NrRsrpHandover_def cleanup_pending_def
      reserve_pending_def cell_ue_count_def count_ue_def counted_cell_def count_inc_def smap_get_def
      candidates_def CellKnown_def GetServingGnbNodeId_def ex_command_def)

section \<open>Properties\<close>

lemma GetHandoverCommands_mem:
  "OranCommandNr2NrHandover h \<in> set (fst (GetHandoverCommands verbose name now p st d ueInfos gnbInfos)) \<longleftrightarrow>
    h \<in> snd ` set (tk_commands (ho_end verbose name now p st d ueInfos gnbInfos))"
  by (auto simp: GetHandoverCommands_def Let_def)

definition to_cell :: "uint16 \<Rightarrow> oran_command \<Rightarrow> bool" where
  "to_cell c cmd = (case cmd of OranCommandNr2NrHandover h \<Rightarrow> cmd_targetCellId h = c | _ \<Rightarrow> False)"

lemma GetHandoverCommands_to_cell:
  "length (filter (to_cell c) (fst (GetHandoverCommands verbose name now p st d ueInfos gnbInfos))) =
    issued_to c (tk_commands (ho_end verbose name now p st d ueInfos gnbInfos))"
  by (simp add: GetHandoverCommands_def Let_def issued_to_def filter_map comp_def to_cell_def)

text \<open>
  C1: A run of the module never overfills a cell: the UEs a target cell serves, the slots reserved
  for handovers still pending to it and the commands the run issues to it are together at most
  \<open>MaxUesPerCell\<close>, also when several UEs are handed to the cell in one run.
\<close>

theorem rsrp_capacity:
  assumes "length ueInfos + length (pendingHoTarget st) < 2 ^ 32"
    and "OranCommandNr2NrHandover h \<in>
      set (fst (GetHandoverCommands verbose name now p st d ueInfos gnbInfos))"
  shows "cell_load d ueInfos (cleanup_pending now p st) (cmd_targetCellId h) +
      length (filter (to_cell (cmd_targetCellId h))
        (fst (GetHandoverCommands verbose name now p st d ueInfos gnbInfos))) \<le> unat (m_maxUesPerCell p)"
proof -
  let ?tk = "ho_end verbose name now p st d ueInfos gnbInfos" and ?c = "cmd_targetCellId h"
  obtain u where "(u, h) \<in> set (tk_commands ?tk)" using assms(2) unfolding GetHandoverCommands_mem by auto
  then have "filter (\<lambda>e. cmd_targetCellId (snd e) = ?c) (tk_commands ?tk) \<noteq> []"
    by (force simp: filter_empty_conv)
  then have "issued_to ?c (tk_commands ?tk) > 0" by (simp add: issued_to_def)
  then show ?thesis
    using capacity_inv_end [of p now st d ueInfos gnbInfos verbose name]
    unfolding capacity_inv_def GetHandoverCommands_to_cell ho_start_count [OF assms(1)] by blast
qed

theorem rsrp_capacity_witness:
  "cell_load ex_data ex_ues [] 2 +
     length (filter (to_cell 2) (fst (GetHandoverCommands False [] 3000000000 OranLmNr2NrRsrpHandover
       ex_static ex_data ex_ues ex_gnbs))) \<le> 10 \<and>
   length (filter (to_cell 2) (fst (GetHandoverCommands False [] 3000000000 OranLmNr2NrRsrpHandover
       ex_static ex_data ex_ues ex_gnbs))) = 1"
proof -
  have ex: "cleanup_pending 3000000000 OranLmNr2NrRsrpHandover ex_static = []"
      "m_maxUesPerCell OranLmNr2NrRsrpHandover = 10" "cmd_targetCellId ex_command = 2"
    by (simp_all add: cleanup_pending_def ex_static_def OranLmNr2NrRsrpHandover_def ex_command_def)
  have "length ex_ues + length (pendingHoTarget ex_static) < 2 ^ 32"
    by (simp add: ex_ues_def ex_static_def)
  moreover have "OranCommandNr2NrHandover ex_command \<in> set (fst (GetHandoverCommands False []
      3000000000 OranLmNr2NrRsrpHandover ex_static ex_data ex_ues ex_gnbs))"
    by (simp add: GetHandoverCommands_mem ex_run)
  ultimately show ?thesis
    using rsrp_capacity [of ex_ues ex_static ex_command False "[]" 3000000000 OranLmNr2NrRsrpHandover
        ex_data ex_gnbs]
    by (simp add: GetHandoverCommands_to_cell ex_run issued_to_def ex)
qed

text \<open>
  C2: Every command of a run is justified by the newest measurements of a UE of the run: it goes to
  the gNB of the UE's serving cell with the UE's RNTI, its target is a known cell other than the
  serving one whose strongest measurement beats the serving cell by more than the hysteresis, and
  a known cell with a stronger measurement can only have been passed over because it is full and
  \<open>TryNextBest\<close> is set. No command is issued_to during the warm-up.
\<close>

theorem rsrp_handover_sound:
  assumes "sort_ok (std_sort st)"
    and "OranCommandNr2NrHandover h \<in>
      set (fst (GetHandoverCommands verbose name now p st d ueInfos gnbInfos))"
  shows "\<exists>u\<in>ui_nodeId ` set ueInfos. sound_handover now p gnbInfos d
    (tk_count (ho_end verbose name now p st d ueInfos gnbInfos)) u h"
  using assms sound_handover_end unfolding GetHandoverCommands_mem by fastforce

theorem rsrp_handover_sound_witness:
  "\<exists>u\<in>ui_nodeId ` set ex_ues. sound_handover 3000000000 OranLmNr2NrRsrpHandover ex_gnbs ex_data
    (tk_count (ho_end False [] 3000000000 OranLmNr2NrRsrpHandover ex_static ex_data ex_ues ex_gnbs))
    u ex_command"
proof (rule rsrp_handover_sound)
  show "sort_ok (std_sort ex_static)" by (simp add: ex_static_def sort_ok_sort_key)
  show "OranCommandNr2NrHandover ex_command \<in> set (fst (GetHandoverCommands False []
      3000000000 OranLmNr2NrRsrpHandover ex_static ex_data ex_ues ex_gnbs))"
    by (simp add: GetHandoverCommands_mem ex_run)
qed

text \<open>
  C5: No feasible handover is missed: with \<open>TryNextBest\<close>, a UE that no gate holds back and that
  hears a known cell beyond the hysteresis with room left at the end of the run gets a command.
\<close>

theorem rsrp_handover_complete:
  assumes "sort_ok (std_sort st)" and "distinct (map ui_nodeId ueInfos)" and "ueInfo \<in> set ueInfos"
    and "\<not> ue_gated now p (lastHoCmdTime st) (cleanup_pending now p st) (ui_nodeId ueInfo)"
    and "um = collect (GetNrUeRsrpRsrq d (ui_nodeId ueInfo))"
    and "um_servingCellId um \<noteq> 0" and "um_servingRnti um \<noteq> 0"
    and "GetServingGnbNodeId gnbInfos (um_servingCellId um) \<noteq> 0"
    and "m_tryNextBest p" and "CellKnown gnbInfos c" and "c \<noteq> um_servingCellId um"
    and "strongest (GetNrUeRsrpRsrq d (ui_nodeId ueInfo)) c = Some r"
    and "r > um_servingRsrp um + m_rsrpThreshold p"
    and "smap_get 0 (tk_count (ho_end verbose name now p st d ueInfos gnbInfos)) c < m_maxUesPerCell p"
  shows "\<exists>h. (ui_nodeId ueInfo, h) \<in> set (tk_commands (ho_end verbose name now p st d ueInfos gnbInfos)) \<and>
    OranCommandNr2NrHandover h \<in>
      set (fst (GetHandoverCommands verbose name now p st d ueInfos gnbInfos))"
  using ho_end_complete [OF assms(1-3) refl assms(4-14)] unfolding GetHandoverCommands_mem by force

theorem rsrp_handover_complete_witness:
  "\<exists>h. (1, h) \<in> set (tk_commands (ho_end False [] 3000000000 OranLmNr2NrRsrpHandover ex_static ex_data
      ex_ues ex_gnbs))"
proof -
  let ?ue = "\<lparr>ui_nodeId = 1, ui_cellId = 1, ui_rnti = 5, ui_position = ex_pos\<rparr>"
  have cnt: "smap_get 0 (tk_count (ho_end False [] 3000000000 OranLmNr2NrRsrpHandover ex_static ex_data
      ex_ues ex_gnbs)) 2 < m_maxUesPerCell OranLmNr2NrRsrpHandover"
    by (simp add: ho_end_def ho_start_def ho_ue_def ex_ues_def ex_static_def ex_gnbs_def ex_measurements
        ex_collect Let_def ue_gated_def OranLmNr2NrRsrpHandover_def cleanup_pending_def
        reserve_pending_def cell_ue_count_def count_ue_def counted_cell_def count_inc_def smap_get_def
        candidates_def CellKnown_def GetServingGnbNodeId_def)
  have "\<exists>h. (ui_nodeId ?ue, h) \<in> set (tk_commands (ho_end False [] 3000000000
      OranLmNr2NrRsrpHandover ex_static ex_data ex_ues ex_gnbs)) \<and>
    OranCommandNr2NrHandover h \<in> set (fst (GetHandoverCommands False [] 3000000000
      OranLmNr2NrRsrpHandover ex_static ex_data ex_ues ex_gnbs))"
    by (rule rsrp_handover_complete [where c = 2 and r = "-80" and
          um = "\<lparr>um_servingRsrp = -100, um_servingCellId = 1, um_servingRnti = 5, um_best = [(1, -100), (2, -80)]\<rparr>"])
      (simp_all add: ex_static_def sort_ok_sort_key ex_ues_def ue_gated_def cleanup_pending_def
        OranLmNr2NrRsrpHandover_def ex_measurements ex_collect ex_gnbs_def GetServingGnbNodeId_def
        CellKnown_def strongest_def rsrps_def cnt [unfolded ex_static_def ex_ues_def ex_gnbs_def OranLmNr2NrRsrpHandover_def, simplified])
  then show ?thesis by auto
qed

text \<open>
  Over any history of runs in time order, two handover commands for the same UE are at least
  \<open>MinHoInterval\<close> apart, whatever the repository holds at each run.
\<close>

lemma rsrp_handover_pacing:
  assumes "sorted (map fst runs)"
  shows "paced (m_minHoInterval p) (history (ho_run verbose name p) st runs)"
  using assms by (rule rsrp_module.paced_history)

text \<open>
  A handover that is pending when a run starts and has not timed out stays pending through the
  run with the same target, and the UE gets no command. This holds even when the UE is already
  served by the target: the branch of the loop that should clear the entry then is never reached,
  because the pending gate comes first.
\<close>

lemma rsrp_pending_until_timeout:
  assumes "0 < m_hoAttemptTimeout p" and "map_of (pendingHoTarget st) u = Some c"
    and "map_of (lastHoCmdTime st) u = Some t" and "now - t < m_hoAttemptTimeout p"
  shows "map_of (pendingHoTarget (fst (snd (GetHandoverCommands verbose name now p st d ueInfos gnbInfos)))) u =
      Some c \<and>
    map_of (lastHoCmdTime (fst (snd (GetHandoverCommands verbose name now p st d ueInfos gnbInfos)))) u =
      Some t \<and>
    u \<notin> fst ` set (tk_commands (ho_end verbose name now p st d ueInfos gnbInfos))"
proof -
  let ?P = "\<lambda>tk :: ho_tick. pending_recent now p tk \<and> map_of (tk_pending tk) u = Some c \<and>
      map_of (tk_last tk) u = Some t \<and> filter (\<lambda>e. fst e = u) (tk_commands tk) = []"
  have "?P (ho_end verbose name now p st d ueInfos gnbInfos)"
  proof (rule ho_end_induct)
    have "map_of (cleanup_pending now p st) u = Some c"
      using assms by (simp add: cleanup_pending_lookup)
    then show "?P (ho_start now p st d ueInfos gnbInfos)"
      using assms(3) pending_recent_start by (simp add: ho_start_def)
  next
    fix ueInfo and tk :: ho_tick
    assume "?P tk"
    then show "?P (ho_ue verbose name now p (std_sort st) gnbInfos ueInfo tk)"
      using pending_ho_ue [OF assms(1), of now tk] by metis
  qed
  then show ?thesis by (auto simp: GetHandoverCommands_static Let_def filter_empty_conv)
qed

end
