(* ===== verification/Lm_Lte.thy ===== *)
theory Lm_Lte
  imports Lm_Rsrp
begin

text \<open>
  The two LTE logic modules, \<open>OranLmLte2LteDistanceHandover\<close> and \<open>OranLmLte2LteRsrpHandover\<close>: they
  order the handover of every LTE UE that is not served by the closest cell, or by the cell it hears
  best. Both look up the node of the serving cell in a variable that is not initialised; when the serving
  cell is not among the known ones the command carries whatever the variable held. That value is the
  parameter \<open>uninit\<close>, a function of the time and of the UE. \<open>std::to_string\<close> of a \<open>double\<close>
  prints six decimals.
\<close>

section \<open>What the modules read\<close>

record enb_info =
  ei_nodeId :: uint64
  ei_cellId :: uint16
  ei_position :: vector

definition lte_GetUeInfo :: "time \<Rightarrow> oran_data \<Rightarrow> uint64 \<Rightarrow> ue_info option" where
  "lte_GetUeInfo now d ueId =
     (let (found, cellId, rnti) = GetLteUeCellInfo d ueId;
          nodePositions = GetNodePositions d ueId 0 now 1
      in if found
         then if nodePositions \<noteq> []
              then Some \<lparr>ui_nodeId = ueId, ui_cellId = cellId, ui_rnti = rnti,
                         ui_position = snd (last nodePositions)\<rparr>
              else None
         else None)"

definition lte_GetUeInfos :: "time \<Rightarrow> oran_data \<Rightarrow> ue_info list" where
  "lte_GetUeInfos now d = List.map_filter (lte_GetUeInfo now d) (GetLteUeE2NodeIds d)"

definition GetEnbInfo :: "time \<Rightarrow> oran_data \<Rightarrow> uint64 \<Rightarrow> enb_info option" where
  "GetEnbInfo now d enbId =
     (let (found, cellId) = GetLteEnbCellInfo d enbId;
          nodePositions = GetNodePositions d enbId 0 now 1
      in if found
         then if nodePositions \<noteq> []
              then Some \<lparr>ei_nodeId = enbId, ei_cellId = cellId,
                         ei_position = snd (last nodePositions)\<rparr>
              else None
         else None)"

definition GetEnbInfos :: "time \<Rightarrow> oran_data \<Rightarrow> enb_info list" where
  "GetEnbInfos now d = List.map_filter (GetEnbInfo now d) (GetLteEnbE2NodeIds d)"

section \<open>Commands and texts\<close>

definition show_double :: "double \<Rightarrow> string" where
  "show_double x =
     (let n = nat (round (\<bar>x\<bar> * 1000000))
      in (if x < 0 then ''-'' else []) @ show_nat (n div 1000000) @ ''.'' @ pad6 (show_nat (n mod 1000000)))"

definition show_cell :: "uint16 \<Rightarrow> string" where
  "show_cell c = show_nat (unat c)"

text \<open>One UE of the loop: the best value so far, the chosen cell, the node of the serving cell.\<close>

record lte_scan =
  sc_best :: double
  sc_newCellId :: uint16
  sc_oldCellNodeId :: uint64
  sc_data :: oran_data

definition lte_emit ::
  "(string \<Rightarrow> oran_data \<Rightarrow> oran_data) \<Rightarrow> string \<Rightarrow> time \<Rightarrow> string \<Rightarrow> ue_info \<Rightarrow> lte_scan \<Rightarrow> oran_command list \<Rightarrow>
   oran_command list \<times> oran_data" where
  "lte_emit lg name now intro ueInfo sc cs =
     (if sc_newCellId sc \<noteq> ui_cellId ueInfo
      then let c = OranCommandLte2LteHandover
                     \<lparr>cmd_targetE2NodeId = sc_oldCellNodeId sc, cmd_targetCellId = sc_newCellId sc,
                      cmd_targetRnti = ui_rnti ueInfo\<rparr>
           in (cs @ [c],
               lg (intro @ '' (CellID '' @ show_cell (sc_newCellId sc) @ '')'' @
                    '' is different than the currently attached eNB'' @ '' (CellID '' @
                    show_cell (ui_cellId ueInfo) @ '').'' @ '' Issuing handover command.'')
                 (LogCommandLm now name c (sc_data sc)))
      else (cs, sc_data sc))"

section \<open>The distance module\<close>

definition enb_distance :: "ue_info \<Rightarrow> enb_info \<Rightarrow> double" where
  "enb_distance ueInfo enbInfo =
     sqrt ((vec_x (ui_position ueInfo) - vec_x (ei_position enbInfo)) ^ 2 +
           (vec_y (ui_position ueInfo) - vec_y (ei_position enbInfo)) ^ 2 +
           (vec_z (ui_position ueInfo) - vec_z (ei_position enbInfo)) ^ 2)"

definition distance_step ::
  "(string \<Rightarrow> oran_data \<Rightarrow> oran_data) \<Rightarrow> ue_info \<Rightarrow> enb_info \<Rightarrow> lte_scan \<Rightarrow> lte_scan" where
  "distance_step lg ueInfo enbInfo sc =
     (let dist = enb_distance ueInfo enbInfo;
          sc1 = sc\<lparr>sc_data := lg (''Distance from UE with RNTI '' @ show_cell (ui_rnti ueInfo) @
                  '' in CellID '' @ show_cell (ui_cellId ueInfo) @ '' to eNB with CellID '' @
                  show_cell (ei_cellId enbInfo) @ '' is '' @ show_double dist) (sc_data sc)\<rparr>;
          sc2 = (if dist < sc_best sc
                 then sc1\<lparr>sc_best := dist, sc_newCellId := ei_cellId enbInfo,
                          sc_data := lg (''Distance to eNB with CellID '' @
                            show_cell (ei_cellId enbInfo) @ '' is shortest so far'') (sc_data sc1)\<rparr>
                 else sc1)
      in if ui_cellId ueInfo = ei_cellId enbInfo then sc2\<lparr>sc_oldCellNodeId := ei_nodeId enbInfo\<rparr> else sc2)"

definition distance_ue ::
  "(time \<Rightarrow> uint64 \<Rightarrow> uint64) \<Rightarrow> (string \<Rightarrow> oran_data \<Rightarrow> oran_data) \<Rightarrow> string \<Rightarrow> time \<Rightarrow> enb_info list \<Rightarrow>
   ue_info \<Rightarrow> oran_command list \<times> oran_data \<Rightarrow> oran_command list \<times> oran_data" where
  "distance_ue uninit lg name now enbInfos ueInfo acc =
     lte_emit lg name now ''Closest eNB'' ueInfo
       (fold (distance_step lg ueInfo) enbInfos
          \<lparr>sc_best = DBL_MAX, sc_newCellId = ui_cellId ueInfo,
           sc_oldCellNodeId = uninit now (ui_nodeId ueInfo), sc_data = snd acc\<rparr>)
       (fst acc)"

definition distance_GetHandoverCommands ::
  "(time \<Rightarrow> uint64 \<Rightarrow> uint64) \<Rightarrow> (string \<Rightarrow> oran_data \<Rightarrow> oran_data) \<Rightarrow> string \<Rightarrow> time \<Rightarrow> oran_data \<Rightarrow>
   ue_info list \<Rightarrow> enb_info list \<Rightarrow> oran_command list \<times> oran_data" where
  "distance_GetHandoverCommands uninit lg name now d ueInfos enbInfos =
     fold (distance_ue uninit lg name now enbInfos) ueInfos ([], d)"

definition distance_Run ::
  "(time \<Rightarrow> uint64 \<Rightarrow> uint64) \<Rightarrow> bool \<Rightarrow> bool \<Rightarrow> bool \<Rightarrow> string \<Rightarrow> time \<Rightarrow> oran_data \<Rightarrow>
   (oran_command list \<times> oran_data) res" where
  "distance_Run uninit active ric verbose name now d =
     (if active
      then abort_if (\<not> ric) NullNearRtRic
             (Inr (distance_GetHandoverCommands uninit (log_rsrp verbose name now) name now d
                     (lte_GetUeInfos now d) (GetEnbInfos now d)))
      else Inr ([], d))"

section \<open>The RSRP module\<close>

definition lte_rsrp_step ::
  "(string \<Rightarrow> oran_data \<Rightarrow> oran_data) \<Rightarrow> ue_info \<Rightarrow> measurement \<Rightarrow> lte_scan \<Rightarrow> lte_scan" where
  "lte_rsrp_step lg ueInfo m sc =
     (case m of (rnti, cellId, rsrp, rsrq, isServingCell, ccId) \<Rightarrow>
        let sc1 = sc\<lparr>sc_data := lg (''RSRP from UE with RNTI '' @ show_cell rnti @ '' in CellID '' @
                    show_cell (ui_cellId ueInfo) @ '' to eNB with CellID '' @ show_cell cellId @
                    '' is '' @ show_double rsrp) (sc_data sc)\<rparr>
        in if rsrp > sc_best sc
           then sc1\<lparr>sc_best := rsrp, sc_newCellId := cellId,
                    sc_data := lg (''RSRP to eNB with CellID '' @ show_cell cellId @ '' is largest so far'')
                      (sc_data sc1)\<rparr>
           else sc1)"

definition serving_step :: "ue_info \<Rightarrow> enb_info \<Rightarrow> lte_scan \<Rightarrow> lte_scan" where
  "serving_step ueInfo enbInfo sc =
     (if ui_cellId ueInfo = ei_cellId enbInfo then sc\<lparr>sc_oldCellNodeId := ei_nodeId enbInfo\<rparr> else sc)"

definition lte_rsrp_ue ::
  "(time \<Rightarrow> uint64 \<Rightarrow> uint64) \<Rightarrow> (string \<Rightarrow> oran_data \<Rightarrow> oran_data) \<Rightarrow> string \<Rightarrow> time \<Rightarrow> enb_info list \<Rightarrow>
   ue_info \<Rightarrow> oran_command list \<times> oran_data \<Rightarrow> oran_command list \<times> oran_data" where
  "lte_rsrp_ue uninit lg name now enbInfos ueInfo acc =
     lte_emit lg name now ''eNB'' ueInfo
       (fold (serving_step ueInfo) enbInfos
          (fold (lte_rsrp_step lg ueInfo) (GetLteUeRsrpRsrq (snd acc) (ui_nodeId ueInfo))
             \<lparr>sc_best = - DBL_MAX, sc_newCellId = ui_cellId ueInfo,
              sc_oldCellNodeId = uninit now (ui_nodeId ueInfo), sc_data = snd acc\<rparr>))
       (fst acc)"

definition lte_rsrp_GetHandoverCommands ::
  "(time \<Rightarrow> uint64 \<Rightarrow> uint64) \<Rightarrow> (string \<Rightarrow> oran_data \<Rightarrow> oran_data) \<Rightarrow> string \<Rightarrow> time \<Rightarrow> oran_data \<Rightarrow>
   ue_info list \<Rightarrow> enb_info list \<Rightarrow> oran_command list \<times> oran_data" where
  "lte_rsrp_GetHandoverCommands uninit lg name now d ueInfos enbInfos =
     fold (lte_rsrp_ue uninit lg name now enbInfos) ueInfos ([], d)"

text \<open>Its \<open>GetUeInfos\<close> and \<open>GetEnbInfos\<close> have the text of those of the distance module.\<close>

definition lte_rsrp_GetUeInfos :: "time \<Rightarrow> oran_data \<Rightarrow> ue_info list" where
  "lte_rsrp_GetUeInfos now d = List.map_filter (lte_GetUeInfo now d) (GetLteUeE2NodeIds d)"

definition lte_rsrp_GetEnbInfos :: "time \<Rightarrow> oran_data \<Rightarrow> enb_info list" where
  "lte_rsrp_GetEnbInfos now d = List.map_filter (GetEnbInfo now d) (GetLteEnbE2NodeIds d)"

definition lte_rsrp_Run ::
  "(time \<Rightarrow> uint64 \<Rightarrow> uint64) \<Rightarrow> bool \<Rightarrow> bool \<Rightarrow> bool \<Rightarrow> string \<Rightarrow> time \<Rightarrow> oran_data \<Rightarrow>
   (oran_command list \<times> oran_data) res" where
  "lte_rsrp_Run uninit active ric verbose name now d =
     (if active
      then abort_if (\<not> ric) NullNearRtRic
             (Inr (lte_rsrp_GetHandoverCommands uninit (log_rsrp verbose name now) name now d
                     (lte_rsrp_GetUeInfos now d) (lte_rsrp_GetEnbInfos now d)))
      else Inr ([], d))"

section \<open>The first best element of a list\<close>

definition first_min :: "('a \<Rightarrow> double) \<Rightarrow> 'a list \<Rightarrow> 'a option" where
  "first_min f xs = List.find (\<lambda>x. \<forall>y \<in> set xs. f x \<le> f y) xs"

definition min_step :: "('a \<Rightarrow> double) \<Rightarrow> ('a \<Rightarrow> 'b) \<Rightarrow> 'a \<Rightarrow> double \<times> 'b \<Rightarrow> double \<times> 'b" where
  "min_step f g x acc = (if f x < fst acc then (f x, g x) else acc)"

lemma first_min_Nil [simp]: "first_min f [] = None"
  by (simp add: first_min_def)

lemma first_min_SomeD:
  "first_min f xs = Some x \<Longrightarrow> x \<in> set xs \<and> (\<forall>y \<in> set xs. f x \<le> f y)"
  by (auto simp: first_min_def find_Some_iff in_set_conv_nth)

lemma first_min_None: "first_min f xs = None \<longleftrightarrow> xs = []"
proof
  assume none: "first_min f xs = None"
  show "xs = []"
  proof (rule ccontr)
    assume "xs \<noteq> []"
    then have fin: "finite (f ` set xs)" "f ` set xs \<noteq> {}" by auto
    from Min_in [OF fin] obtain x where "x \<in> set xs" "f x = Min (f ` set xs)" by force
    then have "x \<in> set xs \<and> (\<forall>y \<in> set xs. f x \<le> f y)" by simp
    with none show False by (auto simp: first_min_def find_None_iff)
  qed
qed simp

lemma first_min_Cons:
  "first_min f (x # xs) = (case first_min f xs of None \<Rightarrow> Some x | Some y \<Rightarrow> if f x \<le> f y then Some x else Some y)"
proof (cases "first_min f xs")
  case None
  then have "xs = []" by (simp only: first_min_None)
  then show ?thesis by (simp add: first_min_def)
next
  case (Some y)
  note y = first_min_SomeD [OF Some]
  show ?thesis
  proof (cases "f x \<le> f y")
    case True
    with y have "\<forall>z \<in> set xs. f x \<le> f z" by force
    with Some True show ?thesis by (simp add: first_min_def)
  next
    case False
    then have no: "(\<forall>z \<in> set (x # xs). f x \<le> f z) = False" using y by auto
    have "List.find (\<lambda>z. \<forall>w \<in> set (x # xs). f z \<le> f w) xs = List.find (\<lambda>z. \<forall>w \<in> set xs. f z \<le> f w) xs"
      by (rule find_cong) (use y False in \<open>auto intro: order_trans\<close>)
    then have "first_min f (x # xs) = first_min f xs"
      by (simp only: first_min_def List.find.simps no if_False)
    with Some False show ?thesis by simp
  qed
qed

lemma fold_min_step:
  "fold (min_step f g) xs acc =
     (case first_min f xs of None \<Rightarrow> acc | Some x \<Rightarrow> if f x < fst acc then (f x, g x) else acc)"
proof (induction xs arbitrary: acc)
  case Nil
  then show ?case by simp
next
  case (Cons x xs)
  show ?case
    unfolding fold_simps Cons.IH first_min_Cons
    by (auto simp: min_step_def split: option.splits)
qed

section \<open>What the modules decide\<close>

definition serving_node :: "(time \<Rightarrow> uint64 \<Rightarrow> uint64) \<Rightarrow> time \<Rightarrow> enb_info list \<Rightarrow> ue_info \<Rightarrow> uint64" where
  "serving_node uninit now enbInfos ueInfo =
     (case List.find (\<lambda>e. ei_cellId e = ui_cellId ueInfo) (rev enbInfos) of
        None \<Rightarrow> uninit now (ui_nodeId ueInfo) | Some e \<Rightarrow> ei_nodeId e)"

definition lte_order :: "(time \<Rightarrow> uint64 \<Rightarrow> uint64) \<Rightarrow> time \<Rightarrow> enb_info list \<Rightarrow> ue_info \<Rightarrow> uint16 \<Rightarrow> oran_command list" where
  "lte_order uninit now enbInfos ueInfo cell =
     (if cell = ui_cellId ueInfo then []
      else [OranCommandLte2LteHandover
              \<lparr>cmd_targetE2NodeId = serving_node uninit now enbInfos ueInfo, cmd_targetCellId = cell,
               cmd_targetRnti = ui_rnti ueInfo\<rparr>])"

definition logs_only :: "(string \<Rightarrow> oran_data \<Rightarrow> oran_data) \<Rightarrow> bool" where
  "logs_only lg \<longleftrightarrow> (\<forall>msg d. only_lm_log d (lg msg d))"

lemma logs_only_log_rsrp: "logs_only (log_rsrp verbose name now)"
  by (simp add: logs_only_def only_lm_log_action)

lemma logs_onlyD: "logs_only lg \<Longrightarrow> only_lm_log d d' \<Longrightarrow> only_lm_log d (lg msg d')"
  unfolding logs_only_def by (blast intro: only_lm_log_trans)

lemma lte_emit_log:
  assumes "logs_only lg" and "only_lm_log d (sc_data sc)"
  shows "only_lm_log d (snd (lte_emit lg name now intro u sc cs))"
  using assms(2) only_lm_log_trans [OF assms(2) only_lm_log_command]
  by (auto simp: lte_emit_def Let_def intro!: logs_onlyD [OF assms(1)])

lemma lte_emit_commands:
  assumes "sc_oldCellNodeId sc = serving_node uninit now enbs u"
  shows "fst (lte_emit lg name now intro u sc cs) = cs @ lte_order uninit now enbs u (sc_newCellId sc)"
  using assms by (simp add: lte_emit_def lte_order_def Let_def)

lemma fold_serving:
  "fold (\<lambda>e old. if ui_cellId u = ei_cellId e then ei_nodeId e else old) enbs (uninit now (ui_nodeId u)) =
     serving_node uninit now enbs u"
proof (induction enbs rule: rev_induct)
  case Nil
  then show ?case by (simp add: serving_node_def)
next
  case (snoc e enbs)
  then show ?case by (auto simp: serving_node_def)
qed

text \<open>A fold over the scan, field by field.\<close>

lemma fold_field:
  assumes "\<And>x sc. F (step x sc) = G x (F sc)"
  shows "F (fold step xs sc) = fold G xs (F sc)"
  by (induction xs arbitrary: sc) (simp_all add: assms)

lemma fold_logs:
  assumes "\<And>x sc. only_lm_log (sc_data sc) (sc_data (step x sc))" and "only_lm_log d (sc_data sc)"
  shows "only_lm_log d (sc_data (fold step xs sc))"
  using assms(2)
proof (induction xs arbitrary: sc)
  case (Cons x xs)
  from Cons.IH [OF only_lm_log_trans [OF Cons.prems assms(1)]] show ?case by simp
qed simp

definition best_new :: "lte_scan \<Rightarrow> double \<times> uint16" where
  "best_new sc = (sc_best sc, sc_newCellId sc)"

lemma distance_step_fields:
  "best_new (distance_step lg u e sc) = min_step (enb_distance u) ei_cellId e (best_new sc)"
  "sc_oldCellNodeId (distance_step lg u e sc) =
     (if ui_cellId u = ei_cellId e then ei_nodeId e else sc_oldCellNodeId sc)"
  by (simp_all add: distance_step_def min_step_def best_new_def Let_def)

lemma distance_step_log:
  "logs_only lg \<Longrightarrow> only_lm_log (sc_data sc) (sc_data (distance_step lg u e sc))"
  by (simp add: distance_step_def Let_def logs_onlyD)

definition closest_cell :: "enb_info list \<Rightarrow> ue_info \<Rightarrow> uint16" where
  "closest_cell enbInfos ueInfo =
     (case first_min (enb_distance ueInfo) enbInfos of None \<Rightarrow> ui_cellId ueInfo | Some e \<Rightarrow> ei_cellId e)"

lemma distance_ue_log:
  assumes "logs_only lg" and "only_lm_log d (snd acc)"
  shows "only_lm_log d (snd (distance_ue uninit lg name now enbs u acc))"
  unfolding distance_ue_def
  by (rule lte_emit_log [OF assms(1)], rule fold_logs [OF distance_step_log [OF assms(1)]]) (simp add: assms(2))

lemma distance_ue_eq:
  assumes "logs_only lg" and "\<forall>e \<in> set enbs. enb_distance u e < DBL_MAX"
    and "only_lm_log d (snd acc)"
  shows "fst (distance_ue uninit lg name now enbs u acc) =
      fst acc @ lte_order uninit now enbs u (closest_cell enbs u)"
    and "only_lm_log d (snd (distance_ue uninit lg name now enbs u acc))"
proof -
  let ?init = "\<lparr>sc_best = DBL_MAX, sc_newCellId = ui_cellId u,
    sc_oldCellNodeId = uninit now (ui_nodeId u), sc_data = snd acc\<rparr>"
  let ?sc = "fold (distance_step lg u) enbs ?init"
  have "best_new ?sc = fold (min_step (enb_distance u) ei_cellId) enbs (best_new ?init)"
    by (rule fold_field) (rule distance_step_fields)
  also have "snd \<dots> = closest_cell enbs u"
    using assms(2) by (auto simp: fold_min_step closest_cell_def best_new_def dest: first_min_SomeD split: option.splits)
  finally have new: "sc_newCellId ?sc = closest_cell enbs u" by (simp add: best_new_def)
  have "sc_oldCellNodeId ?sc = fold (\<lambda>e old. if ui_cellId u = ei_cellId e then ei_nodeId e else old) enbs (sc_oldCellNodeId ?init)"
    by (rule fold_field) (rule distance_step_fields)
  then have "sc_oldCellNodeId ?sc = serving_node uninit now enbs u" by (simp add: fold_serving)
  with new show "fst (distance_ue uninit lg name now enbs u acc) =
      fst acc @ lte_order uninit now enbs u (closest_cell enbs u)"
    by (simp add: distance_ue_def lte_emit_commands)
  show "only_lm_log d (snd (distance_ue uninit lg name now enbs u acc))"
    by (rule distance_ue_log [OF assms(1,3)])
qed

lemma distance_commands_eq:
  assumes "logs_only lg" and "\<forall>u \<in> set ues. \<forall>e \<in> set enbs. enb_distance u e < DBL_MAX"
    and "only_lm_log d (snd acc)"
  shows "fst (fold (distance_ue uninit lg name now enbs) ues acc) =
      fst acc @ concat (map (\<lambda>u. lte_order uninit now enbs u (closest_cell enbs u)) ues) \<and>
    only_lm_log d (snd (fold (distance_ue uninit lg name now enbs) ues acc))"
  using assms(2,3)
proof (induction ues arbitrary: acc)
  case Nil
  then show ?case by simp
next
  case (Cons u ues)
  have far: "\<forall>e \<in> set enbs. enb_distance u e < DBL_MAX" "\<forall>u \<in> set ues. \<forall>e \<in> set enbs. enb_distance u e < DBL_MAX"
    using Cons.prems(1) by simp_all
  note st = distance_ue_eq [OF assms(1) far(1) Cons.prems(2), of uninit name now]
  from Cons.IH [OF far(2) st(2)] st(1) show ?case by simp
qed

text \<open>
  The distance module orders exactly the handovers its purpose asks for. For every LTE UE it reads,
  in order, the closest base station (the first one at the least distance) is compared with the serving
  cell; if its cell is another one, a handover to it is ordered with the RNTI of the UE, and otherwise
  nothing. The command goes to the last base station known with the serving cell, and, when there is
  none, to the value of an uninitialised variable. The repository is not changed but for the log of the
  module.
\<close>

lemma distance_handover_exact:
  assumes "\<forall>u \<in> set ues. \<forall>e \<in> set enbs. enb_distance u e < DBL_MAX"
    and "distance_GetHandoverCommands uninit (log_rsrp verbose name now) name now d ues enbs = (cs, d')"
  shows "cs = concat (map (\<lambda>u. lte_order uninit now enbs u (closest_cell enbs u)) ues) \<and> only_lm_log d d'"
proof -
  have "only_lm_log d (snd ([], d))" by simp
  from distance_commands_eq [OF logs_only_log_rsrp assms(1) this, of uninit verbose name now name now] assms(2)
  show ?thesis by (simp add: distance_GetHandoverCommands_def)
qed

section \<open>The strongest cell\<close>

definition meas_rsrp :: "measurement \<Rightarrow> double" where
  "meas_rsrp m = (case m of (rnti, cellId, rsrp, rsrq, isServingCell, ccId) \<Rightarrow> rsrp)"

definition meas_cell :: "measurement \<Rightarrow> uint16" where
  "meas_cell m = (case m of (rnti, cellId, rsrp, rsrq, isServingCell, ccId) \<Rightarrow> cellId)"

definition strongest_cell :: "measurement list \<Rightarrow> ue_info \<Rightarrow> uint16" where
  "strongest_cell ms ueInfo =
     (case first_min (\<lambda>m. - meas_rsrp m) ms of None \<Rightarrow> ui_cellId ueInfo | Some m \<Rightarrow> meas_cell m)"

definition neg_best_new :: "lte_scan \<Rightarrow> double \<times> uint16" where
  "neg_best_new sc = (- sc_best sc, sc_newCellId sc)"

lemma GetLteUeRsrpRsrq_lm_log: "only_lm_log d d' \<Longrightarrow> GetLteUeRsrpRsrq d' n = GetLteUeRsrpRsrq d n"
  using IsNodeRegistered_lm_log [of d d' n]
  by (auto simp: only_lm_log_def lm_log_append_def GetLteUeRsrpRsrq_def scan_rows_def)

lemma lte_rsrp_step_fields:
  "neg_best_new (lte_rsrp_step lg u m sc) = min_step (\<lambda>m. - meas_rsrp m) meas_cell m (neg_best_new sc)"
  "sc_oldCellNodeId (lte_rsrp_step lg u m sc) = sc_oldCellNodeId sc"
  by (cases m; simp add: lte_rsrp_step_def min_step_def neg_best_new_def meas_rsrp_def meas_cell_def Let_def)+

lemma lte_rsrp_step_log:
  "logs_only lg \<Longrightarrow> only_lm_log (sc_data sc) (sc_data (lte_rsrp_step lg u m sc))"
  by (cases m) (simp add: lte_rsrp_step_def Let_def logs_onlyD)

lemma serving_step_fields:
  "neg_best_new (serving_step u e sc) = neg_best_new sc"
  "sc_oldCellNodeId (serving_step u e sc) =
     (if ui_cellId u = ei_cellId e then ei_nodeId e else sc_oldCellNodeId sc)"
  "sc_data (serving_step u e sc) = sc_data sc"
  by (simp_all add: serving_step_def neg_best_new_def)

lemma fold_id: "fold (\<lambda>_ x. x) xs y = y"
  by (induction xs) simp_all

lemma lte_rsrp_ue_log:
  assumes "logs_only lg" and "only_lm_log d (snd acc)"
  shows "only_lm_log d (snd (lte_rsrp_ue uninit lg name now enbs u acc))"
  unfolding lte_rsrp_ue_def
proof (rule lte_emit_log [OF assms(1)], rule fold_logs)
  show "only_lm_log d (sc_data (fold (lte_rsrp_step lg u) (GetLteUeRsrpRsrq (snd acc) (ui_nodeId u))
      \<lparr>sc_best = - DBL_MAX, sc_newCellId = ui_cellId u,
       sc_oldCellNodeId = uninit now (ui_nodeId u), sc_data = snd acc\<rparr>))"
    by (rule fold_logs [OF lte_rsrp_step_log [OF assms(1)]]) (simp add: assms(2))
qed (simp add: serving_step_fields)

lemma lte_rsrp_ue_eq:
  assumes lg: "logs_only lg" and d: "only_lm_log d (snd acc)"
    and fin: "\<forall>m \<in> set (GetLteUeRsrpRsrq d (ui_nodeId u)). - DBL_MAX < meas_rsrp m"
  shows "fst (lte_rsrp_ue uninit lg name now enbs u acc) =
      fst acc @ lte_order uninit now enbs u (strongest_cell (GetLteUeRsrpRsrq d (ui_nodeId u)) u)"
    and "only_lm_log d (snd (lte_rsrp_ue uninit lg name now enbs u acc))"
proof -
  let ?ms = "GetLteUeRsrpRsrq d (ui_nodeId u)"
  let ?init = "\<lparr>sc_best = - DBL_MAX, sc_newCellId = ui_cellId u,
    sc_oldCellNodeId = uninit now (ui_nodeId u), sc_data = snd acc\<rparr>"
  let ?sc = "fold (lte_rsrp_step lg u) ?ms ?init"
  let ?sc2 = "fold (serving_step u) enbs ?sc"
  have ms: "GetLteUeRsrpRsrq (snd acc) (ui_nodeId u) = ?ms" by (rule GetLteUeRsrpRsrq_lm_log [OF d])
  have "neg_best_new ?sc2 = fold (\<lambda>_ x. x) enbs (neg_best_new ?sc)"
    by (rule fold_field) (rule serving_step_fields)
  also have "\<dots> = neg_best_new ?sc" by (rule fold_id)
  also have "\<dots> = fold (min_step (\<lambda>m. - meas_rsrp m) meas_cell) ?ms (neg_best_new ?init)"
    by (rule fold_field) (rule lte_rsrp_step_fields)
  also have "snd \<dots> = strongest_cell ?ms u"
  proof (cases "first_min (\<lambda>m. - meas_rsrp m) ?ms")
    case (Some m)
    with first_min_SomeD [OF Some] fin have "- meas_rsrp m < DBL_MAX" by fastforce
    with Some show ?thesis by (simp add: fold_min_step strongest_cell_def neg_best_new_def)
  qed (simp add: fold_min_step strongest_cell_def neg_best_new_def)
  finally have new: "sc_newCellId ?sc2 = strongest_cell ?ms u" by (simp add: neg_best_new_def)
  have "sc_oldCellNodeId ?sc2 =
      fold (\<lambda>e old. if ui_cellId u = ei_cellId e then ei_nodeId e else old) enbs (sc_oldCellNodeId ?sc)"
    by (rule fold_field) (rule serving_step_fields)
  moreover have "sc_oldCellNodeId ?sc = fold (\<lambda>_ x. x) ?ms (sc_oldCellNodeId ?init)"
    by (rule fold_field) (rule lte_rsrp_step_fields)
  ultimately have "sc_oldCellNodeId ?sc2 = serving_node uninit now enbs u" by (simp add: fold_serving fold_id)
  with new show "fst (lte_rsrp_ue uninit lg name now enbs u acc) =
      fst acc @ lte_order uninit now enbs u (strongest_cell ?ms u)"
    by (simp add: lte_rsrp_ue_def ms lte_emit_commands)
  show "only_lm_log d (snd (lte_rsrp_ue uninit lg name now enbs u acc))"
    by (rule lte_rsrp_ue_log [OF lg d])
qed

lemma lte_rsrp_commands_eq:
  assumes "logs_only lg"
    and "\<forall>u \<in> set ues. \<forall>m \<in> set (GetLteUeRsrpRsrq d (ui_nodeId u)). - DBL_MAX < meas_rsrp m"
    and "only_lm_log d (snd acc)"
  shows "fst (fold (lte_rsrp_ue uninit lg name now enbs) ues acc) =
      fst acc @ concat (map (\<lambda>u. lte_order uninit now enbs u
        (strongest_cell (GetLteUeRsrpRsrq d (ui_nodeId u)) u)) ues) \<and>
    only_lm_log d (snd (fold (lte_rsrp_ue uninit lg name now enbs) ues acc))"
  using assms(2,3)
proof (induction ues arbitrary: acc)
  case Nil
  then show ?case by simp
next
  case (Cons u ues)
  have fin: "\<forall>m \<in> set (GetLteUeRsrpRsrq d (ui_nodeId u)). - DBL_MAX < meas_rsrp m"
    "\<forall>u \<in> set ues. \<forall>m \<in> set (GetLteUeRsrpRsrq d (ui_nodeId u)). - DBL_MAX < meas_rsrp m"
    using Cons.prems(1) by simp_all
  note st = lte_rsrp_ue_eq [OF assms(1) Cons.prems(2) fin(1), of uninit name now enbs]
  from Cons.IH [OF fin(2) st(2)] st(1) show ?case by simp
qed

text \<open>
  the LTE RSRP module orders exactly one handover for every LTE UE that hears another cell best: for
  every UE, in order, to the cell of the first strongest measurement of the newest batch, if it is not
  the serving cell; the measured cell need not be a known one. The command goes to the last base station
  known with the serving cell and otherwise to the value of an uninitialised variable. The repository is
  not changed but for the log of the module.
\<close>

theorem lte_rsrp_handover_exact:
  assumes "\<forall>u \<in> set ues. \<forall>m \<in> set (GetLteUeRsrpRsrq d (ui_nodeId u)). - DBL_MAX < meas_rsrp m"
    and "lte_rsrp_GetHandoverCommands uninit (log_rsrp verbose name now) name now d ues enbs = (cs, d')"
  shows "cs = concat (map (\<lambda>u. lte_order uninit now enbs u
      (strongest_cell (GetLteUeRsrpRsrq d (ui_nodeId u)) u)) ues) \<and> only_lm_log d d'"
proof -
  have "only_lm_log d (snd ([], d))" by simp
  from lte_rsrp_commands_eq [OF logs_only_log_rsrp assms(1) this, of uninit verbose name now name now enbs] assms(2)
  show ?thesis by (simp add: lte_rsrp_GetHandoverCommands_def)
qed

text \<open>Whatever the distances and measurements are, a run only writes the log of the module.\<close>

lemma fold_ue_log:
  assumes "\<And>u acc. only_lm_log d (snd acc) \<Longrightarrow> only_lm_log d (snd (f u acc))" and "only_lm_log d (snd acc)"
  shows "only_lm_log d (snd (fold f us acc))"
  using assms(2) by (induction us arbitrary: acc) (simp_all add: assms(1))

lemma distance_Run_log:
  assumes "distance_Run uninit active ric verbose name now d = Inr (cs, d')"
  shows "only_lm_log d d'"
proof -
  have "only_lm_log d (snd (distance_GetHandoverCommands uninit (log_rsrp verbose name now) name now d ues enbs))"
    for ues enbs
    unfolding distance_GetHandoverCommands_def
    by (rule fold_ue_log) (simp_all add: distance_ue_log logs_only_log_rsrp)
  then show ?thesis using assms by (metis distance_Run_def abort_if_eq_Inr old.sum.inject(2) only_lm_log_refl snd_conv)
qed

lemma lte_rsrp_Run_log:
  assumes "lte_rsrp_Run uninit active ric verbose name now d = Inr (cs, d')"
  shows "only_lm_log d d'"
proof -
  have "only_lm_log d (snd (lte_rsrp_GetHandoverCommands uninit (log_rsrp verbose name now) name now d ues enbs))"
    for ues enbs
    unfolding lte_rsrp_GetHandoverCommands_def
    by (rule fold_ue_log) (simp_all add: lte_rsrp_ue_log logs_only_log_rsrp)
  then show ?thesis using assms by (metis lte_rsrp_Run_def abort_if_eq_Inr old.sum.inject(2) only_lm_log_refl snd_conv)
qed

end
