(* ===== verification/Time_To_Trigger.thy ===== *)
theory Time_To_Trigger
  imports Lm_Lte
begin

text \<open>
  The time to trigger of the NR logic modules. A decision for a UE either keeps the serving cell, fails on a
  weak candidate, or names a target; a stopwatch per UE (\<open>tttState\<close>) runs while the target stays the
  same, and a command follows once it has run for \<open>TimeToTrigger\<close>. The contract \<open>trigger_loop\<close> says
  how one iteration of a module's loop treats the stopwatch, \<open>trigger_module\<close> what a run does; both
  modules with a stopwatch meet them.
\<close>

section \<open>Choices and stopwatches\<close>

text \<open>How the search over the candidates ends: keep the serving cell, fail on a weak candidate, a target.\<close>

datatype load_choice = Keep | Low_Rsrp cand | Target cand

text \<open>The stopwatch of a UE: restarted when the chosen cell is another than at the last decision.\<close>

definition ttt_restart ::
  "time \<Rightarrow> uint64 \<Rightarrow> uint16 \<Rightarrow> (uint64 \<times> uint16 \<times> time) list \<Rightarrow> (uint64 \<times> uint16 \<times> time) list" where
  "ttt_restart now u chosen ttt =
     (case map_of ttt u of
        None \<Rightarrow> smap_upd u (chosen, now) ttt
      | Some (c, t) \<Rightarrow> if c \<noteq> chosen then smap_upd u (chosen, now) ttt else ttt)"

definition ttt_since :: "time \<Rightarrow> uint64 \<Rightarrow> uint16 \<Rightarrow> (uint64 \<times> uint16 \<times> time) list \<Rightarrow> time" where
  "ttt_since now u chosen ttt =
     (case map_of (ttt_restart now u chosen ttt) u of Some (c, t) \<Rightarrow> t | None \<Rightarrow> now)"

lemma ttt_restart_lookup:
  "map_of (ttt_restart now u c ttt) u' =
     (if u' \<noteq> u then map_of ttt u'
      else if \<exists>t. map_of ttt u = Some (c, t) then map_of ttt u else Some (c, now))"
  by (auto simp: ttt_restart_def split: option.splits)

lemma ttt_since_eq:
  "ttt_since now u c ttt = (case map_of ttt u of Some (c', t) \<Rightarrow> if c' = c then t else now | None \<Rightarrow> now)"
  by (auto simp: ttt_since_def ttt_restart_lookup split: option.splits)

section \<open>The decisions of a history\<close>

text \<open>
  For each iteration that no gate skips: the time, the UE, the choice and the command that followed, if one
  did.
\<close>

type_synonym load_event = "time \<times> uint64 \<times> load_choice \<times> handover_cmd option"

type_synonym ue_cmds = "(uint64 \<times> handover_cmd) list"

definition new_command :: "ue_cmds \<Rightarrow> ue_cmds \<Rightarrow> handover_cmd option" where
  "new_command cs cs' = (if length cs < length cs' then Some (snd (last cs')) else None)"

definition ue_events ::
  "(uint64 \<Rightarrow> 't \<Rightarrow> load_choice option) \<Rightarrow> (ue_info \<Rightarrow> 't \<Rightarrow> 't) \<Rightarrow> ('t \<Rightarrow> ue_cmds) \<Rightarrow> time \<Rightarrow> ue_info \<Rightarrow> 't \<Rightarrow>
   load_event list" where
  "ue_events decide step cmds now ue t =
     (case decide (ui_nodeId ue) t of
        None \<Rightarrow> []
      | Some ch \<Rightarrow> [(now, ui_nodeId ue, ch, new_command (cmds t) (cmds (step ue t)))])"

fun run_events ::
  "(uint64 \<Rightarrow> 't \<Rightarrow> load_choice option) \<Rightarrow> (ue_info \<Rightarrow> 't \<Rightarrow> 't) \<Rightarrow> ('t \<Rightarrow> ue_cmds) \<Rightarrow> time \<Rightarrow> ue_info list \<Rightarrow> 't \<Rightarrow>
   load_event list" where
  "run_events decide step cmds now [] t = []"
| "run_events decide step cmds now (ue # ues) t =
     ue_events decide step cmds now ue t @ run_events decide step cmds now ues (step ue t)"

fun module_log ::
  "(time \<Rightarrow> 'i \<Rightarrow> 's \<Rightarrow> load_event list) \<Rightarrow> (time \<Rightarrow> 'i \<Rightarrow> 's \<Rightarrow> ue_cmds \<times> 's) \<Rightarrow> 's \<Rightarrow> (time \<times> 'i) list \<Rightarrow>
   load_event list" where
  "module_log evs run st [] = []"
| "module_log evs run st ((now, i) # runs) = evs now i st @ module_log evs run (snd (run now i st)) runs"

definition log_commands :: "load_event list \<Rightarrow> (time \<times> uint64 \<times> handover_cmd) list" where
  "log_commands es = List.map_filter (\<lambda>(t, u, ch, cm). map_option (\<lambda>h. (t, u, h)) cm) es"

text \<open>Since time \<open>t\<close>, every decision for the UE chose cell \<open>c\<close>, and none led to a command.\<close>

definition waits_for :: "uint64 \<Rightarrow> uint16 \<Rightarrow> load_event \<Rightarrow> bool" where
  "waits_for u c e \<longleftrightarrow> (case e of (t, u', ch, cm) \<Rightarrow> u' = u \<longrightarrow> (\<exists>r. ch = Target (c, r)) \<and> cm = None)"

definition streak :: "load_event list \<Rightarrow> uint64 \<Rightarrow> uint16 \<Rightarrow> time \<Rightarrow> bool" where
  "streak es u c t \<longleftrightarrow>
     (\<exists>xs r ys. es = xs @ (t, u, Target (c, r), None) # ys \<and> list_all (waits_for u c) ys)"

lemma streak_snoc: "streak es u c t \<Longrightarrow> waits_for u c e \<Longrightarrow> streak (es @ [e]) u c t"
  unfolding streak_def by (elim exE conjE) (intro exI conjI, simp, simp)

lemma streak_start: "streak (es @ [(t, u, Target (c, r), None)]) u c t"
  unfolding streak_def by (intro exI conjI) (simp, simp)

lemma waits_for_other: "u' \<noteq> u \<Longrightarrow> waits_for u c (t, u', ch, cm)"
  by (simp add: waits_for_def)

definition ttt_inv :: "load_event list \<Rightarrow> (uint64 \<times> uint16 \<times> time) list \<Rightarrow> bool" where
  "ttt_inv es ttt \<longleftrightarrow> (\<forall>u c t. map_of ttt u = Some (c, t) \<longrightarrow> streak es u c t)"

definition fires_ok :: "time \<Rightarrow> load_event list \<Rightarrow> load_event \<Rightarrow> bool" where
  "fires_ok T es e \<longleftrightarrow>
     (case e of (now, u, ch, cm) \<Rightarrow> \<forall>h. cm = Some h \<longrightarrow>
        (\<exists>t. streak es u (cmd_targetCellId h) t \<and> T \<le> now - t))"

definition log_ok :: "time \<Rightarrow> load_event list \<Rightarrow> bool" where
  "log_ok T es \<longleftrightarrow> (\<forall>xs e ys. es = xs @ e # ys \<longrightarrow> fires_ok T xs e)"

lemma log_ok_Nil [simp]: "log_ok T []"
  by (simp add: log_ok_def)

lemma log_ok_snoc: "log_ok T es \<Longrightarrow> fires_ok T es e \<Longrightarrow> log_ok T (es @ [e])"
  unfolding log_ok_def
proof (intro allI impI)
  fix xs a ys
  assume ok: "\<forall>xs e ys. es = xs @ e # ys \<longrightarrow> fires_ok T xs e" "fires_ok T es e" "es @ [e] = xs @ a # ys"
  show "fires_ok T xs a"
  proof (cases ys rule: rev_cases)
    case (snoc zs z)
    then have "es = xs @ a # zs" using ok(3) by (simp flip: append_assoc append_Cons)
    with ok(1) show ?thesis by blast
  qed (use ok in simp)
qed

lemma ttt_inv_del:
  assumes "ttt_inv es ttt"
  shows "ttt_inv (es @ [(now, u, ch, cm)]) (smap_del u ttt)"
  unfolding ttt_inv_def
proof (intro allI impI)
  fix u' c t
  assume "map_of (smap_del u ttt) u' = Some (c, t)"
  then have "u \<noteq> u'" "streak es u' c t" using assms by (auto simp: ttt_inv_def split: if_splits)
  then show "streak (es @ [(now, u, ch, cm)]) u' c t" using streak_snoc waits_for_other by blast
qed

lemma ttt_inv_wait:
  assumes "ttt_inv es ttt"
  shows "ttt_inv (es @ [(now, u, Target (c, r), None)]) (ttt_restart now u c ttt)"
  unfolding ttt_inv_def
proof (intro allI impI)
  fix u' c' t
  assume m: "map_of (ttt_restart now u c ttt) u' = Some (c', t)"
  let ?e = "(now, u, Target (c, r), None)"
  show "streak (es @ [?e]) u' c' t"
  proof (cases "map_of ttt u' = Some (c', t)")
    case True
    then have "waits_for u' c' ?e" using m by (auto simp: ttt_restart_lookup waits_for_def split: if_splits)
    then show ?thesis using streak_snoc assms True unfolding ttt_inv_def by blast
  next
    case False
    then have "u' = u" "c' = c" "t = now" using m by (auto simp: ttt_restart_lookup split: if_splits)
    then show ?thesis using streak_start by simp
  qed
qed

lemma fires_ok_emit:
  assumes "ttt_inv es ttt" and "T \<le> now - ttt_since now u (cmd_targetCellId h) ttt" and "0 < T"
  shows "fires_ok T es (now, u, ch, Some h)"
proof -
  have "\<exists>t. map_of ttt u = Some (cmd_targetCellId h, t) \<and> T \<le> now - t"
    using assms(2,3) by (auto simp: ttt_since_eq split: option.splits if_splits)
  with assms(1) show ?thesis by (auto simp: fires_ok_def ttt_inv_def)
qed

lemma log_commands_append: "log_commands (es @ fs) = log_commands es @ log_commands fs"
  by (simp add: log_commands_def map_filter_def)

lemma log_commands_mem:
  assumes "(now, u, h) \<in> set (log_commands es)"
  shows "\<exists>xs ch ys. es = xs @ (now, u, ch, Some h) # ys"
proof -
  from assms obtain ch where "(now, u, ch, Some h) \<in> set es"
    by (auto simp: log_commands_def map_filter_def)
  then show ?thesis by (meson split_list)
qed

section \<open>The contract of an iteration\<close>

locale trigger_loop =
  fixes decide :: "uint64 \<Rightarrow> 't \<Rightarrow> load_choice option" and step :: "ue_info \<Rightarrow> 't \<Rightarrow> 't"
    and cmds :: "'t \<Rightarrow> ue_cmds" and watch :: "'t \<Rightarrow> (uint64 \<times> uint16 \<times> time) list"
    and now :: time and T :: time
  assumes skip: "decide (ui_nodeId ue) t = None \<Longrightarrow> cmds (step ue t) = cmds t \<and> watch (step ue t) = watch t"
    and reset: "decide (ui_nodeId ue) t = Some ch \<Longrightarrow> \<forall>c. ch \<noteq> Target c \<Longrightarrow>
      cmds (step ue t) = cmds t \<and> watch (step ue t) = smap_del (ui_nodeId ue) (watch t)"
    and target: "decide (ui_nodeId ue) t = Some (Target c) \<Longrightarrow>
      (if now - ttt_since now (ui_nodeId ue) (fst c) (watch t) < T
       then cmds (step ue t) = cmds t \<and> watch (step ue t) = ttt_restart now (ui_nodeId ue) (fst c) (watch t)
       else (\<exists>h. cmds (step ue t) = cmds t @ [(ui_nodeId ue, h)] \<and> cmd_targetCellId h = fst c \<and>
              watch (step ue t) = smap_del (ui_nodeId ue) (ttt_restart now (ui_nodeId ue) (fst c) (watch t))))"
begin

lemma step_ttt:
  assumes inv: "ttt_inv es (watch t)" and ok: "log_ok T es" and T: "0 < T"
  shows "ttt_inv (es @ ue_events decide step cmds now ue t) (watch (step ue t)) \<and>
    log_ok T (es @ ue_events decide step cmds now ue t)"
proof (cases "decide (ui_nodeId ue) t")
  case None
  then show ?thesis using inv ok skip by (simp add: ue_events_def)
next
  case (Some ch)
  show ?thesis
  proof (cases "\<exists>c. ch = Target c")
    case False
    with reset [OF Some] ttt_inv_del [OF inv] log_ok_snoc [OF ok] Some show ?thesis
      by (auto simp: ue_events_def new_command_def fires_ok_def)
  next
    case True
    then obtain c r where ch: "ch = Target (c, r)" by auto
    note tg = target [OF Some [unfolded ch], simplified]
    show ?thesis
    proof (cases "now - ttt_since now (ui_nodeId ue) c (watch t) < T")
      case True
      with tg ttt_inv_wait [OF inv] log_ok_snoc [OF ok] Some ch show ?thesis
        by (auto simp: ue_events_def new_command_def fires_ok_def)
    next
      case False
      with tg obtain h where h: "cmds (step ue t) = cmds t @ [(ui_nodeId ue, h)]" "cmd_targetCellId h = c"
          "watch (step ue t) = smap_del (ui_nodeId ue) (ttt_restart now (ui_nodeId ue) c (watch t))"
        by auto
      have ev: "ue_events decide step cmds now ue t = [(now, ui_nodeId ue, ch, Some h)]"
        using Some h(1) by (simp add: ue_events_def new_command_def)
      have "fires_ok T es (now, ui_nodeId ue, ch, Some h)"
        by (rule fires_ok_emit [OF inv _ T]) (use False h(2) in simp)
      moreover have "ttt_inv (es @ [(now, ui_nodeId ue, ch, Some h)]) (watch (step ue t))"
        using ttt_inv_del [OF inv] unfolding h(3) by (simp add: ttt_inv_def ttt_restart_lookup)
      ultimately show ?thesis using log_ok_snoc [OF ok] unfolding ev by simp
    qed
  qed
qed

lemma steps_ttt:
  assumes "ttt_inv es (watch t)" and "log_ok T es" and "0 < T"
  shows "ttt_inv (es @ run_events decide step cmds now ues t) (watch (fold step ues t)) \<and>
    log_ok T (es @ run_events decide step cmds now ues t)"
  using assms
proof (induction ues arbitrary: es t)
  case (Cons ue ues)
  note st = step_ttt [OF Cons.prems, of ue]
  show ?case using Cons.IH [OF conjunct1 [OF st] conjunct2 [OF st] Cons.prems(3)] by simp
qed simp

text \<open>The commands of the decisions are the commands of the loop.\<close>

lemma step_commands:
  "map (Pair now) (cmds (step ue t)) = map (Pair now) (cmds t) @ log_commands (ue_events decide step cmds now ue t)"
proof (cases "decide (ui_nodeId ue) t")
  case (Some ch)
  then show ?thesis
    using reset [OF Some] target [of ue t]
    by (cases ch) (auto simp: ue_events_def new_command_def log_commands_def split: if_splits)
qed (simp add: skip ue_events_def log_commands_def)

lemma steps_commands:
  "map (Pair now) (cmds (fold step ues t)) =
    map (Pair now) (cmds t) @ log_commands (run_events decide step cmds now ues t)"
proof (induction ues arbitrary: t)
  case (Cons ue ues)
  then show ?case using step_commands by (simp add: log_commands_append)
qed (simp add: log_commands_def)

end

section \<open>The contract of a module\<close>

locale trigger_module =
  fixes evs :: "time \<Rightarrow> 'i \<Rightarrow> 's \<Rightarrow> load_event list" and run :: "time \<Rightarrow> 'i \<Rightarrow> 's \<Rightarrow> ue_cmds \<times> 's"
    and watch_of :: "'s \<Rightarrow> (uint64 \<times> uint16 \<times> time) list" and T :: time
  assumes run_ttt: "0 < T \<Longrightarrow> ttt_inv es (watch_of st) \<Longrightarrow> log_ok T es \<Longrightarrow>
      ttt_inv (es @ evs now i st) (watch_of (snd (run now i st))) \<and> log_ok T (es @ evs now i st)"
    and run_commands: "map (Pair now) (fst (run now i st)) = log_commands (evs now i st)"
begin

lemma log_ok_from:
  assumes "ttt_inv es (watch_of st)" and "log_ok T es" and "0 < T"
  shows "log_ok T (es @ module_log evs run st runs)"
  using assms
proof (induction runs arbitrary: es st)
  case (Cons r runs)
  obtain now i where r: "r = (now, i)" by (cases r)
  note st = run_ttt [OF Cons.prems(3,1,2), of now i]
  show ?case using Cons.IH [OF conjunct1 [OF st] conjunct2 [OF st] Cons.prems(3)] by (simp add: r)
qed simp

lemma commands_history: "log_commands (module_log evs run st runs) = history run st runs"
proof (induction runs arbitrary: st)
  case (Cons r runs)
  then show ?case by (cases r) (simp add: log_commands_append run_commands)
qed (simp add: log_commands_def)

lemma time_to_trigger:
  assumes "watch_of st = []" and "0 < T" and "(now, u, h) \<in> set (history run st runs)"
  shows "\<exists>xs ch ys t. module_log evs run st runs = xs @ (now, u, ch, Some h) # ys \<and>
    streak xs u (cmd_targetCellId h) t \<and> T \<le> now - t"
proof -
  have "log_ok T (module_log evs run st runs)"
    using log_ok_from [of "[]" st runs] assms(1,2) by (simp add: ttt_inv_def)
  moreover obtain xs ch ys where "module_log evs run st runs = xs @ (now, u, ch, Some h) # ys"
    using log_commands_mem assms(3) unfolding commands_history [symmetric] by blast
  ultimately show ?thesis unfolding log_ok_def fires_ok_def by fastforce
qed

end

end
