(* ===== verification/Cell_Capacity.thy ===== *)
theory Cell_Capacity
  imports Lm_Lte
begin

text \<open>
  How the NR logic modules keep the capacity of cells: they count the UEs a cell serves, reserve a slot for
  every pending handover if there is room, and count a slot for every command they issue. The contract
  \<open>capacity_rule\<close> is what a module's test for room has to promise; from it follows that no cell gets
  more UEs than its limit. The counters are \<open>uint32_t\<close>.
\<close>

section \<open>The load of the cells\<close>

definition realLoad :: "oran_data \<Rightarrow> ue_info list \<Rightarrow> gnb_info list \<Rightarrow> (uint16 \<times> uint32) list" where
  "realLoad d ueInfos gnbInfos =
     fold (count_ue d) ueInfos (fold (\<lambda>g. smap_upd (gi_cellId g) 0) gnbInfos [])"

lemma realLoad_count:
  "smap_get 0 (realLoad d ueInfos gnbInfos) c =
    (of_nat (length (filter (\<lambda>u. counted_cell d u = c \<and> c \<noteq> 0) ueInfos)) :: uint32)"
proof -
  have z: "smap_get 0 m c = 0 \<Longrightarrow> smap_get 0 (fold (\<lambda>g. smap_upd (gi_cellId g) 0) gs m) c = (0 :: uint32)" for gs m
    by (induction gs arbitrary: m) auto
  have "smap_get 0 [] c = (0 :: uint32)" by (simp add: smap_get_def)
  then show ?thesis unfolding realLoad_def count_ues by (simp add: z)
qed

lemma cell_load_small:
  assumes "length ueInfos + length (pendingHoTarget st) < 2 ^ 32"
  shows "unat (of_nat (cell_load d ueInfos (cleanup_pending now p st) c) :: uint32) =
    cell_load d ueInfos (cleanup_pending now p st) c"
proof -
  have "length (filter (\<lambda>kv. snd kv = c) (cleanup_pending now p st)) \<le> length (pendingHoTarget st)"
    unfolding cleanup_pending_def by (meson length_filter_le order_trans)
  then have "cell_load d ueInfos (cleanup_pending now p st) c < 2 ^ 32"
    using assms(1) length_filter_le [of "\<lambda>u. counted_cell d u = c \<and> c \<noteq> 0" ueInfos]
    unfolding cell_load_def by linarith
  then show ?thesis by (simp add: unat_of_nat take_bit_nat_eq_self)
qed

section \<open>The contract of a test for room\<close>

locale capacity_rule =
  fixes room :: "(uint16 \<times> uint32) list \<Rightarrow> uint16 \<Rightarrow> bool" and limit :: "uint16 \<Rightarrow> uint32 option"
  assumes room_less: "room m c \<Longrightarrow> limit c = Some cap \<Longrightarrow> smap_get 0 m c < cap"
    and room_before: "room m t \<Longrightarrow> room (count_inc t m) c \<Longrightarrow> room m c"
begin

definition reserve :: "uint16 \<Rightarrow> (uint16 \<times> uint32) list \<Rightarrow> (uint16 \<times> uint32) list" where
  "reserve t m = (if room m t then count_inc t m else m)"

lemma smap_get_reserve: "smap_get 0 (reserve t m) c = smap_get 0 m c + (if c = t \<and> room m c then 1 else 0)"
  by (auto simp: reserve_def smap_get_count_inc)

text \<open>A full cell stays full.\<close>

lemma room_reserve: "room (reserve t m) c \<Longrightarrow> room m c"
  by (auto simp: reserve_def intro: room_before split: if_splits)

text \<open>While there is room, no reservation was dropped.\<close>

lemma reserved_count:
  "room (fold (\<lambda>kv. reserve (snd kv)) pend m) c \<Longrightarrow> room m c \<and>
    smap_get 0 (fold (\<lambda>kv. reserve (snd kv)) pend m) c =
      smap_get 0 m c + of_nat (length (filter (\<lambda>kv. snd kv = c) pend))"
proof (induction pend arbitrary: m)
  case (Cons kv pend)
  from Cons.IH [of "reserve (snd kv) m"] Cons.prems show ?case
    by (auto simp: smap_get_reserve dest: room_reserve)
qed simp

text \<open>From the counts \<open>m\<close> at the start, the commands \<open>cs\<close> led to the counts \<open>cnt\<close>, within the limits.\<close>

definition keeps_limits ::
  "(uint16 \<times> uint32) list \<Rightarrow> (uint16 \<times> uint32) list \<Rightarrow> (uint64 \<times> handover_cmd) list \<Rightarrow> bool" where
  "keeps_limits m cnt cs \<longleftrightarrow>
     (\<forall>c. room cnt c \<longrightarrow> room m c) \<and>
     (\<forall>c cap. limit c = Some cap \<longrightarrow>
        unat (smap_get 0 cnt c) = unat (smap_get 0 m c) + issued_to c cs \<and>
        (issued_to c cs > 0 \<longrightarrow> room m c \<and> unat (smap_get 0 m c) + issued_to c cs \<le> unat cap))"

lemma limits_start [simp]: "keeps_limits m m []"
  by (simp add: keeps_limits_def issued_to_def)

lemma limits_step:
  assumes w: "keeps_limits m cnt cs" and room: "room cnt (cmd_targetCellId h)"
  shows "keeps_limits m (count_inc (cmd_targetCellId h) cnt) (cs @ [(u, h)])"
  unfolding keeps_limits_def
proof (intro conjI allI impI)
  fix c
  show "room m c" if "room (count_inc (cmd_targetCellId h) cnt) c"
    using w room_before [OF room that] by (simp add: keeps_limits_def)
  fix cap assume cap: "limit c = Some cap"
  let ?t = "cmd_targetCellId h" and ?n = "issued_to c cs"
  have iss: "issued_to c (cs @ [(u, h)]) = ?n + (if c = ?t then 1 else 0)" by (simp add: issued_to_def)
  have old: "unat (smap_get 0 cnt c) = unat (smap_get 0 m c) + ?n"
      "?n > 0 \<longrightarrow> room m c \<and> unat (smap_get 0 m c) + ?n \<le> unat cap"
    using w cap unfolding keeps_limits_def by blast+
  have lt: "smap_get 0 cnt c < cap" if "c = ?t" using room_less [of cnt c] room cap that by simp
  have new: "unat (smap_get 0 cnt c) < unat cap" if "c = ?t" using lt [OF that] by (simp add: word_less_nat_alt)
  show "unat (smap_get 0 (count_inc ?t cnt) c) = unat (smap_get 0 m c) + issued_to c (cs @ [(u, h)])"
    using old(1) unat_inc [OF lt] by (cases "c = ?t") (simp_all add: smap_get_count_inc issued_to_def)
  show "room m c" if "issued_to c (cs @ [(u, h)]) > 0"
    using that old(2) w room by (auto simp: iss keeps_limits_def split: if_splits)
  show "unat (smap_get 0 m c) + issued_to c (cs @ [(u, h)]) \<le> unat cap" if "issued_to c (cs @ [(u, h)]) > 0"
    using that old new by (auto simp: iss split: if_splits)
qed

lemma limits_end:
  assumes "keeps_limits (fold (\<lambda>kv. reserve (snd kv)) (cleanup_pending now p st) (realLoad d ueInfos gnbInfos)) cnt cs"
    and "length ueInfos + length (pendingHoTarget st) < 2 ^ 32"
    and "(u, h) \<in> set cs" and "limit (cmd_targetCellId h) = Some cap"
  shows "cell_load d ueInfos (cleanup_pending now p st) (cmd_targetCellId h) +
    issued_to (cmd_targetCellId h) cs \<le> unat cap"
proof -
  let ?m = "fold (\<lambda>kv. reserve (snd kv)) (cleanup_pending now p st) (realLoad d ueInfos gnbInfos)"
    and ?c = "cmd_targetCellId h"
  have "filter (\<lambda>e. cmd_targetCellId (snd e) = ?c) cs \<noteq> []" using assms(3) by (force simp: filter_empty_conv)
  then have "issued_to ?c cs > 0" by (simp add: issued_to_def)
  with assms(1,4) have "room ?m ?c" "unat (smap_get 0 ?m ?c) + issued_to ?c cs \<le> unat cap"
    unfolding keeps_limits_def by blast+
  moreover have "smap_get 0 ?m ?c = of_nat (cell_load d ueInfos (cleanup_pending now p st) ?c)"
    using reserved_count [OF \<open>room ?m ?c\<close>] by (simp add: realLoad_count cell_load_def)
  ultimately show ?thesis using cell_load_small [OF assms(2)] by metis
qed

end

end
