(* ===== verification/Lm_Cell_Load.thy ===== *)
theory Lm_Cell_Load
  imports Time_To_Trigger Cell_Capacity
begin

text \<open>
  The logic module \<open>OranLmNr2NrRsrpHandoverWithCellLoad\<close>
  (\<open>oran-lm-nr-2-nr-rsrp-handover-with-cell-load.cc\<close>). Beside the hysteresis of \<open>Lm_Rsrp\<close> it has a
  capacity per cell, a smallest acceptable RSRP with a back-off, and a time to trigger: a stopwatch per UE
  that runs while the same cell is chosen. The four function-local \<open>static\<close> maps are the record
  \<open>load_static\<close>; the effective load of a run is the field \<open>tk_count\<close> of the loop state, which the
  module reads with a default of zero. The real load is only printed after the effective load was made
  from it.
\<close>

section \<open>Attributes and static state\<close>

record load_params = rsrp_params +
  m_minAcceptableRsrpDbm :: double
  m_lowRsrpRecheck :: time
  m_timeToTrigger :: time
  m_cellCapacityMap :: "(uint16 \<times> uint32) list"

definition OranLmNr2NrRsrpHandoverWithCellLoad :: load_params where
  "OranLmNr2NrRsrpHandoverWithCellLoad =
     \<lparr>m_rsrpThreshold = 2, m_warmup = 2000000000, m_minHoInterval = 2000000000,
      m_hoAttemptTimeout = 2000000000, m_maxUesPerCell = 0, m_tryNextBest = True,
      m_minAcceptableRsrpDbm = - 120, m_lowRsrpRecheck = 2000000000, m_timeToTrigger = 2000000000,
      m_cellCapacityMap = []\<rparr>"

definition SetCellCapacity :: "uint16 \<Rightarrow> uint32 \<Rightarrow> load_params \<Rightarrow> load_params" where
  "SetCellCapacity cellId maxUes p = p\<lparr>m_cellCapacityMap := smap_upd cellId maxUes (m_cellCapacityMap p)\<rparr>"

record load_static = ho_static +
  lowRsrpBlockUntil :: "(uint64 \<times> time) list"
  tttState :: "(uint64 \<times> uint16 \<times> time) list"

section \<open>The load of the cells\<close>

definition GetCellCap :: "'p load_params_scheme \<Rightarrow> uint16 \<Rightarrow> uint32" where
  "GetCellCap p cellId =
     (case map_of (m_cellCapacityMap p) cellId of Some cap \<Rightarrow> cap | None \<Rightarrow> m_maxUesPerCell p)"

text \<open>A slot is reserved only while the cell has room or no cap.\<close>

definition reserve_slot :: "load_params \<Rightarrow> uint16 \<Rightarrow> (uint16 \<times> uint32) list \<Rightarrow> (uint16 \<times> uint32) list" where
  "reserve_slot p tgt m =
     (let cap = GetCellCap p tgt in if cap = 0 \<or> smap_get 0 m tgt < cap then count_inc tgt m else m)"

definition effectiveLoad ::
  "load_params \<Rightarrow> (uint64 \<times> uint16) list \<Rightarrow> (uint16 \<times> uint32) list \<Rightarrow> (uint16 \<times> uint32) list" where
  "effectiveLoad p pend m = fold (\<lambda>kv. reserve_slot p (snd kv)) pend m"

section \<open>The decision for one UE\<close>

fun load_choose ::
  "load_params \<Rightarrow> uint16 \<Rightarrow> double \<Rightarrow> (uint16 \<times> uint32) list \<Rightarrow> cand list \<Rightarrow> load_choice" where
  "load_choose p cur servingRsrp cnt [] = Keep"
| "load_choose p cur servingRsrp cnt (c # cs) =
     (if fst c = cur then load_choose p cur servingRsrp cnt cs
      else if \<not> snd c > servingRsrp + m_rsrpThreshold p then load_choose p cur servingRsrp cnt cs
      else if snd c < m_minAcceptableRsrpDbm p then Low_Rsrp c
      else if GetCellCap p (fst c) > 0 \<and> smap_get 0 cnt (fst c) \<ge> GetCellCap p (fst c)
      then if \<not> m_tryNextBest p then Keep else load_choose p cur servingRsrp cnt cs
      else Target c)"

definition low_blocked :: "time \<Rightarrow> (uint64 \<times> time) list \<Rightarrow> uint64 \<Rightarrow> bool" where
  "low_blocked now block u = (case map_of block u of None \<Rightarrow> False | Some t \<Rightarrow> now < t)"

section \<open>One run of the module\<close>

record load_tick = ho_tick +
  tk_block :: "(uint64 \<times> time) list"
  tk_ttt :: "(uint64 \<times> uint16 \<times> time) list"

definition low_rsrp_failure ::
  "bool \<Rightarrow> string \<Rightarrow> time \<Rightarrow> load_params \<Rightarrow> uint64 \<Rightarrow> uint16 \<Rightarrow> cand \<Rightarrow> load_tick \<Rightarrow> load_tick" where
  "low_rsrp_failure verbose name now p u cur c tk =
     tk\<lparr>tk_data := log_rsrp verbose name now
          (''HO FAIL LOW_RSRP t='' @ seconds_to_string now @ '' UE='' @ show_uint64 u @
           '' currCell='' @ show_cell cur @ '' candCell='' @ show_cell (fst c) @
           '' candRsrp='' @ show_double (snd c)) (tk_data tk),
        tk_block := smap_upd u (now + m_lowRsrpRecheck p) (tk_block tk),
        tk_ttt := smap_del u (tk_ttt tk)\<rparr>"

definition load_emit ::
  "bool \<Rightarrow> string \<Rightarrow> time \<Rightarrow> load_params \<Rightarrow> uint64 \<Rightarrow> uint64 \<Rightarrow> uint16 \<Rightarrow> uint16 \<Rightarrow> uint16 \<Rightarrow> load_tick \<Rightarrow> load_tick" where
  "load_emit verbose name now p u servingGnb rnti cur chosen tk =
     (let h = \<lparr>cmd_targetE2NodeId = servingGnb, cmd_targetCellId = chosen, cmd_targetRnti = rnti\<rparr>;
          d1 = LogCommandLm now name (OranCommandNr2NrHandover h) (tk_data tk)
      in tk\<lparr>tk_commands := tk_commands tk @ [(u, h)],
            tk_ttt := smap_del u (tk_ttt tk),
            tk_last := smap_upd u now (tk_last tk),
            tk_pending := smap_upd u chosen (tk_pending tk),
            tk_count := reserve_slot p chosen (tk_count tk),
            tk_data := log_rsrp verbose name now
              (''HO CMD t='' @ seconds_to_string now @ '' UE='' @ show_uint64 u @
               '' rnti='' @ show_cell rnti @ '' '' @ show_cell cur @ ''->'' @ show_cell chosen) d1\<rparr>)"

definition load_trigger ::
  "bool \<Rightarrow> string \<Rightarrow> time \<Rightarrow> load_params \<Rightarrow> uint64 \<Rightarrow> uint64 \<Rightarrow> uint16 \<Rightarrow> uint16 \<Rightarrow> uint16 \<Rightarrow> load_tick \<Rightarrow> load_tick" where
  "load_trigger verbose name now p u servingGnb rnti cur chosen tk =
     (let tk1 = tk\<lparr>tk_ttt := ttt_restart now u chosen (tk_ttt tk)\<rparr>;
          elapsed = now - ttt_since now u chosen (tk_ttt tk)
      in if elapsed < m_timeToTrigger p then tk1
         else load_emit verbose name now p u servingGnb rnti cur chosen tk1)"

definition load_ue ::
  "bool \<Rightarrow> string \<Rightarrow> time \<Rightarrow> load_params \<Rightarrow> (cand list \<Rightarrow> cand list) \<Rightarrow> gnb_info list \<Rightarrow> ue_info \<Rightarrow>
   load_tick \<Rightarrow> load_tick" where
  "load_ue verbose name now p srt gnbInfos ueInfo tk =
     (let u = ui_nodeId ueInfo
      in if now < m_warmup p then tk
         else if low_blocked now (tk_block tk) u then tk
         else
           let tk0 = tk\<lparr>tk_block := smap_del u (tk_block tk)\<rparr>
           in if ue_gated now p (tk_last tk0) (tk_pending tk0) u then tk0
              else
                let um = collect (GetNrUeRsrpRsrq (tk_data tk0) u);
                    cur = um_servingCellId um; rnti = um_servingRnti um
                in if cur = 0 \<or> rnti = 0 then tk0
                   else
                     let tk1 = tk0\<lparr>tk_pending := clear_reached u cur (tk_pending tk0)\<rparr>;
                         gnb = GetServingGnbNodeId gnbInfos cur
                     in if gnb = 0 then tk1
                        else (case load_choose p cur (um_servingRsrp um) (tk_count tk1)
                                     (srt (candidates gnbInfos (um_best um))) of
                                Keep \<Rightarrow> tk1\<lparr>tk_ttt := smap_del u (tk_ttt tk1)\<rparr>
                              | Low_Rsrp c \<Rightarrow> low_rsrp_failure verbose name now p u cur c tk1
                              | Target c \<Rightarrow> load_trigger verbose name now p u gnb rnti cur (fst c) tk1))"

definition load_start ::
  "time \<Rightarrow> load_params \<Rightarrow> load_static \<Rightarrow> oran_data \<Rightarrow> ue_info list \<Rightarrow> gnb_info list \<Rightarrow> load_tick" where
  "load_start now p st d ueInfos gnbInfos =
     \<lparr>tk_last = lastHoCmdTime st, tk_pending = cleanup_pending now p st,
      tk_count = effectiveLoad p (cleanup_pending now p st) (realLoad d ueInfos gnbInfos),
      tk_commands = [], tk_data = d, tk_block = lowRsrpBlockUntil st, tk_ttt = tttState st\<rparr>"

definition load_end ::
  "bool \<Rightarrow> string \<Rightarrow> time \<Rightarrow> load_params \<Rightarrow> load_static \<Rightarrow> oran_data \<Rightarrow> ue_info list \<Rightarrow> gnb_info list \<Rightarrow> load_tick" where
  "load_end verbose name now p st d ueInfos gnbInfos =
     fold (load_ue verbose name now p (std_sort st) gnbInfos) ueInfos
       (load_start now p st d ueInfos gnbInfos)"

definition load_GetHandoverCommands ::
  "bool \<Rightarrow> string \<Rightarrow> time \<Rightarrow> load_params \<Rightarrow> load_static \<Rightarrow> oran_data \<Rightarrow> ue_info list \<Rightarrow> gnb_info list \<Rightarrow>
   oran_command list \<times> load_static \<times> oran_data" where
  "load_GetHandoverCommands verbose name now p st d ueInfos gnbInfos =
     (let tk = load_end verbose name now p st d ueInfos gnbInfos
      in (map (OranCommandNr2NrHandover \<circ> snd) (tk_commands tk),
          st\<lparr>lastHoCmdTime := tk_last tk, pendingHoTarget := tk_pending tk,
             lowRsrpBlockUntil := tk_block tk, tttState := tk_ttt tk\<rparr>, tk_data tk))"

definition load_GetUeInfos :: "time \<Rightarrow> oran_data \<Rightarrow> ue_info list" where
  "load_GetUeInfos now d = List.map_filter (GetUeInfo now d) (GetNrUeE2NodeIds d)"

definition load_GetGnbInfos :: "time \<Rightarrow> oran_data \<Rightarrow> gnb_info list" where
  "load_GetGnbInfos now d = List.map_filter (GetGnbInfo now d) (GetNrGnbE2NodeIds d)"

definition load_Run ::
  "bool \<Rightarrow> bool \<Rightarrow> bool \<Rightarrow> string \<Rightarrow> time \<Rightarrow> load_params \<Rightarrow> load_static \<Rightarrow> oran_data \<Rightarrow>
   (oran_command list \<times> load_static \<times> oran_data) res" where
  "load_Run active ric verbose name now p st d =
     (if active
      then abort_if (\<not> ric) NullNearRtRic
             (Inr (load_GetHandoverCommands verbose name now p st d (load_GetUeInfos now d)
                     (load_GetGnbInfos now d)))
      else Inr ([], st, d))"

section \<open>The search\<close>

definition has_room :: "load_params \<Rightarrow> (uint16 \<times> uint32) list \<Rightarrow> uint16 \<Rightarrow> bool" where
  "has_room p cnt c \<longleftrightarrow> GetCellCap p c = 0 \<or> smap_get 0 cnt c < GetCellCap p c"

lemma load_full_iff: "GetCellCap p c > 0 \<and> smap_get 0 cnt c \<ge> GetCellCap p c \<longleftrightarrow> \<not> has_room p cnt c"
  by (auto simp: has_room_def word_neq_0_conv)

lemma load_choose_Target:
  assumes "load_choose p cur srv cnt cs = Target c"
  shows "c \<in> set cs" and "fst c \<noteq> cur" and "snd c > srv + m_rsrpThreshold p"
    and "snd c \<ge> m_minAcceptableRsrpDbm p" and "has_room p cnt (fst c)"
  using assms by (induction cs) (auto simp: load_full_iff split: if_splits)

lemma load_choose_best:
  assumes "load_choose p cur srv cnt cs = Target c" and "sorted_wrt (\<lambda>a b. snd a \<ge> snd b) cs"
    and "x \<in> set cs" and "fst x \<noteq> cur" and "snd x > snd c"
  shows "m_tryNextBest p \<and> \<not> has_room p cnt (fst x)"
  using assms
proof (induction cs)
  case (Cons a cs)
  note c = load_choose_Target(3,4) [OF Cons.prems(1)]
  show ?case
  proof (cases "x = a")
    case True
    then show ?thesis using Cons.prems c by (auto simp: load_full_iff split: if_splits)
  next
    case False
    have "snd a \<ge> snd x" using Cons.prems(2,3) False by auto
    then have "a \<noteq> c" using Cons.prems(5) by auto
    then have "load_choose p cur srv cnt cs = Target c"
      using Cons.prems(1) by (auto split: if_splits)
    then show ?thesis using Cons.IH Cons.prems False by simp
  qed
qed simp

section \<open>One iteration of the loop\<close>

text \<open>The choice an iteration makes for a UE, unless a gate skips the UE.\<close>

definition load_decision ::
  "time \<Rightarrow> load_params \<Rightarrow> (cand list \<Rightarrow> cand list) \<Rightarrow> gnb_info list \<Rightarrow> uint64 \<Rightarrow> load_tick \<Rightarrow> load_choice option" where
  "load_decision now p srt gnbInfos u tk =
     (let um = collect (GetNrUeRsrpRsrq (tk_data tk) u)
      in if now < m_warmup p \<or> low_blocked now (tk_block tk) u \<or> ue_gated now p (tk_last tk) (tk_pending tk) u \<or>
            um_servingCellId um = 0 \<or> um_servingRnti um = 0 \<or>
            GetServingGnbNodeId gnbInfos (um_servingCellId um) = 0
         then None
         else Some (load_choose p (um_servingCellId um) (um_servingRsrp um) (tk_count tk)
                      (srt (candidates gnbInfos (um_best um)))))"

lemma load_ue_skip:
  assumes "load_decision now p srt gnbInfos (ui_nodeId ueInfo) tk = None"
  shows "\<exists>b q. load_ue verbose name now p srt gnbInfos ueInfo tk = tk\<lparr>tk_block := b, tk_pending := q\<rparr>"
proof -
  let ?u = "ui_nodeId ueInfo"
  let ?um = "collect (GetNrUeRsrpRsrq (tk_data tk) ?u)"
  have same: "\<exists>b q. tk = tk\<lparr>tk_block := b, tk_pending := q\<rparr>"
      "\<exists>b q. tk\<lparr>tk_block := x\<rparr> = tk\<lparr>tk_block := b, tk_pending := q\<rparr>"
      "\<exists>b q. tk\<lparr>tk_pending := y, tk_block := x\<rparr> = tk\<lparr>tk_block := b, tk_pending := q\<rparr>" for x y
    by (rule exI [of _ "tk_block tk"], rule exI [of _ "tk_pending tk"], simp)
      (rule exI [of _ x], rule exI [of _ "tk_pending tk"], simp,
       rule exI [of _ x], rule exI [of _ y], simp)
  show ?thesis using assms same by (auto simp: load_ue_def load_decision_def Let_def split: if_splits)
qed

lemma load_ue_decided:
  assumes "load_decision now p srt gnbInfos (ui_nodeId ueInfo) tk = Some ch"
    and "um = collect (GetNrUeRsrpRsrq (tk_data tk) (ui_nodeId ueInfo))"
  shows "load_ue verbose name now p srt gnbInfos ueInfo tk =
    (let u = ui_nodeId ueInfo; cur = um_servingCellId um;
         tk1 = tk\<lparr>tk_block := smap_del u (tk_block tk), tk_pending := clear_reached u cur (tk_pending tk)\<rparr>
     in case ch of
          Keep \<Rightarrow> tk1\<lparr>tk_ttt := smap_del u (tk_ttt tk1)\<rparr>
        | Low_Rsrp c \<Rightarrow> low_rsrp_failure verbose name now p u cur c tk1
        | Target c \<Rightarrow> load_trigger verbose name now p u (GetServingGnbNodeId gnbInfos cur)
            (um_servingRnti um) cur (fst c) tk1)"
  using assms by (auto simp: load_ue_def load_decision_def Let_def split: if_splits)

lemma load_emit_simps [simp]:
  "tk_last (load_emit v n now p u g r cur ch tk) = smap_upd u now (tk_last tk)"
  "tk_pending (load_emit v n now p u g r cur ch tk) = smap_upd u ch (tk_pending tk)"
  "tk_count (load_emit v n now p u g r cur ch tk) = reserve_slot p ch (tk_count tk)"
  "tk_commands (load_emit v n now p u g r cur ch tk) = tk_commands tk @
     [(u, \<lparr>cmd_targetE2NodeId = g, cmd_targetCellId = ch, cmd_targetRnti = r\<rparr>)]"
  "tk_block (load_emit v n now p u g r cur ch tk) = tk_block tk"
  "tk_ttt (load_emit v n now p u g r cur ch tk) = smap_del u (tk_ttt tk)"
  by (simp_all add: load_emit_def Let_def)

lemma load_emit_log: "only_lm_log (tk_data tk) (tk_data (load_emit v n now p u g r cur ch tk))"
  unfolding load_emit_def Let_def
  by (simp add: only_lm_log_trans [OF only_lm_log_command only_lm_log_action])

lemma low_rsrp_failure_eq:
  obtains d where "only_lm_log (tk_data tk) d" "low_rsrp_failure v n now p u cur c tk =
    tk\<lparr>tk_data := d, tk_block := smap_upd u (now + m_lowRsrpRecheck p) (tk_block tk),
       tk_ttt := smap_del u (tk_ttt tk)\<rparr>"
  using only_lm_log_action unfolding low_rsrp_failure_def by metis

text \<open>What an iteration can do.\<close>

definition load_emits ::
  "time \<Rightarrow> load_params \<Rightarrow> (cand list \<Rightarrow> cand list) \<Rightarrow> gnb_info list \<Rightarrow> uint64 \<Rightarrow> load_tick \<Rightarrow> ue_meas \<Rightarrow> cand \<Rightarrow> bool" where
  "load_emits now p srt gnbInfos u tk um c \<longleftrightarrow>
     load_decision now p srt gnbInfos u tk = Some (Target c) \<and>
     um = collect (GetNrUeRsrpRsrq (tk_data tk) u) \<and>
     m_timeToTrigger p \<le> now - ttt_since now u (fst c) (tk_ttt tk)"

lemma load_ue_cases:
  obtains (skip) b q where "load_decision now p srt gnbInfos (ui_nodeId ueInfo) tk = None"
      "load_ue verbose name now p srt gnbInfos ueInfo tk = tk\<lparr>tk_block := b, tk_pending := q\<rparr>"
  | (reset) ch b q d where "load_decision now p srt gnbInfos (ui_nodeId ueInfo) tk = Some ch"
      "\<forall>c. ch \<noteq> Target c" "only_lm_log (tk_data tk) d"
      "load_ue verbose name now p srt gnbInfos ueInfo tk =
         tk\<lparr>tk_block := b, tk_pending := q, tk_data := d, tk_ttt := smap_del (ui_nodeId ueInfo) (tk_ttt tk)\<rparr>"
  | (wait) c b q where "load_decision now p srt gnbInfos (ui_nodeId ueInfo) tk = Some (Target c)"
      "load_ue verbose name now p srt gnbInfos ueInfo tk =
         tk\<lparr>tk_block := b, tk_pending := q, tk_ttt := ttt_restart now (ui_nodeId ueInfo) (fst c) (tk_ttt tk)\<rparr>"
  | (emit) um c b q where "load_emits now p srt gnbInfos (ui_nodeId ueInfo) tk um c"
      "load_ue verbose name now p srt gnbInfos ueInfo tk =
         load_emit verbose name now p (ui_nodeId ueInfo)
           (GetServingGnbNodeId gnbInfos (um_servingCellId um)) (um_servingRnti um)
           (um_servingCellId um) (fst c)
           (tk\<lparr>tk_block := b, tk_pending := q, tk_ttt := ttt_restart now (ui_nodeId ueInfo) (fst c) (tk_ttt tk)\<rparr>)"
proof (cases "load_decision now p srt gnbInfos (ui_nodeId ueInfo) tk")
  case None
  with load_ue_skip [OF None] skip show thesis by blast
next
  case (Some ch)
  define um where "um = collect (GetNrUeRsrpRsrq (tk_data tk) (ui_nodeId ueInfo))"
  note eq = load_ue_decided [OF Some um_def, of verbose name]
  let ?b = "smap_del (ui_nodeId ueInfo) (tk_block tk)"
    and ?q = "clear_reached (ui_nodeId ueInfo) (um_servingCellId um) (tk_pending tk)"
  show thesis
  proof (cases ch)
    case Keep
    show thesis by (rule reset [OF Some, where d = "tk_data tk" and b = ?b and q = ?q]) (simp_all add: Keep eq Let_def)
  next
    case (Low_Rsrp c)
    let ?tk = "tk\<lparr>tk_block := ?b, tk_pending := ?q\<rparr>"
    obtain d where "only_lm_log (tk_data tk) d" "low_rsrp_failure verbose name now p (ui_nodeId ueInfo)
        (um_servingCellId um) c ?tk = ?tk\<lparr>tk_data := d, tk_ttt := smap_del (ui_nodeId ueInfo) (tk_ttt tk),
          tk_block := smap_upd (ui_nodeId ueInfo) (now + m_lowRsrpRecheck p) ?b\<rparr>"
      by (rule low_rsrp_failure_eq [of ?tk verbose name now p "ui_nodeId ueInfo" "um_servingCellId um" c]) simp
    then show thesis
      by (intro reset [OF Some, where d = d and q = ?q and
            b = "smap_upd (ui_nodeId ueInfo) (now + m_lowRsrpRecheck p) ?b"]) (simp_all add: Low_Rsrp eq Let_def)
  next
    case (Target c)
    show thesis
    proof (cases "now - ttt_since now (ui_nodeId ueInfo) (fst c) (tk_ttt tk) < m_timeToTrigger p")
      case True
      with Some show thesis
        by (intro wait [where c = c and b = ?b and q = ?q]) (simp_all add: Target eq Let_def load_trigger_def)
    next
      case False
      with Some show thesis
        by (intro emit [where um = um and c = c and b = ?b and q = ?q])
          (simp_all add: Target eq Let_def load_trigger_def load_emits_def um_def [symmetric])
    qed
  qed
qed

text \<open>A property of the loop state that every iteration keeps holds at the end.\<close>

lemma load_end_induct:
  assumes "P (load_start now p st d ueInfos gnbInfos)"
    and "\<And>ueInfo tk. ueInfo \<in> set ueInfos \<Longrightarrow> P tk \<Longrightarrow>
      P (load_ue verbose name now p (std_sort st) gnbInfos ueInfo tk)"
  shows "P (load_end verbose name now p st d ueInfos gnbInfos)"
proof -
  have "set us \<subseteq> set ueInfos \<Longrightarrow> P tk \<Longrightarrow>
      P (fold (load_ue verbose name now p (std_sort st) gnbInfos) us tk)" for us tk
    by (induction us arbitrary: tk) (auto intro: assms(2))
  then show ?thesis unfolding load_end_def using assms(1) by blast
qed

lemma load_ue_log:
  assumes "only_lm_log d (tk_data tk)"
  shows "only_lm_log d (tk_data (load_ue verbose name now p srt gnbInfos ueInfo tk))"
proof (rule load_ue_cases [of now p srt gnbInfos ueInfo tk verbose name])
  fix um c b q
  assume "load_ue verbose name now p srt gnbInfos ueInfo tk =
     load_emit verbose name now p (ui_nodeId ueInfo)
       (GetServingGnbNodeId gnbInfos (um_servingCellId um)) (um_servingRnti um)
       (um_servingCellId um) (fst c)
       (tk\<lparr>tk_block := b, tk_pending := q, tk_ttt := ttt_restart now (ui_nodeId ueInfo) (fst c) (tk_ttt tk)\<rparr>)"
  then show ?thesis using assms only_lm_log_trans [OF _ load_emit_log] by simp
qed (use assms only_lm_log_trans in auto)

lemma load_end_log: "only_lm_log d (tk_data (load_end verbose name now p st d ueInfos gnbInfos))"
  by (rule load_end_induct) (simp_all add: load_start_def load_ue_log)

lemma load_Run_log:
  "load_Run active ric verbose name now p st d = Inr (cs, st', d') \<Longrightarrow> only_lm_log d d'"
  by (auto simp: load_Run_def load_GetHandoverCommands_def Let_def load_end_log split: if_splits)

section \<open>The capacity of a cell\<close>

definition load_limit :: "load_params \<Rightarrow> uint16 \<Rightarrow> uint32 option" where
  "load_limit p c = (if GetCellCap p c = 0 then None else Some (GetCellCap p c))"

interpretation load_cap: capacity_rule "has_room p" "load_limit p" for p
  by unfold_locales (auto simp: has_room_def load_limit_def smap_get_count_inc split: if_splits)

lemma reserve_slot_eq: "reserve_slot p = load_cap.reserve p"
  by (intro ext) (simp add: reserve_slot_def load_cap.reserve_def has_room_def Let_def)

lemmas has_room_reserve_slot = load_cap.room_reserve [folded reserve_slot_eq]

lemma load_emits_target:
  assumes "load_emits now p srt gnbInfos u tk um c"
  shows "load_choose p (um_servingCellId um) (um_servingRsrp um) (tk_count tk)
      (srt (candidates gnbInfos (um_best um))) = Target c"
    and "\<not> now < m_warmup p" and "\<not> ue_gated now p (tk_last tk) (tk_pending tk) u"
    and "um_servingCellId um \<noteq> 0" and "GetServingGnbNodeId gnbInfos (um_servingCellId um) \<noteq> 0"
  using assms by (auto simp: load_emits_def load_decision_def Let_def split: if_splits)

lemmas load_emits_room = load_choose_Target(5) [OF load_emits_target(1)]

lemma load_limits_ue:
  assumes "load_cap.keeps_limits p m (tk_count tk) (tk_commands tk)"
  shows "load_cap.keeps_limits p m (tk_count (load_ue verbose name now p srt gnbInfos ueInfo tk))
    (tk_commands (load_ue verbose name now p srt gnbInfos ueInfo tk))"
proof (rule load_ue_cases [of now p srt gnbInfos ueInfo tk verbose name])
  fix um c b q
  assume e: "load_emits now p srt gnbInfos (ui_nodeId ueInfo) tk um c" and eq:
    "load_ue verbose name now p srt gnbInfos ueInfo tk =
       load_emit verbose name now p (ui_nodeId ueInfo)
         (GetServingGnbNodeId gnbInfos (um_servingCellId um)) (um_servingRnti um)
         (um_servingCellId um) (fst c)
         (tk\<lparr>tk_block := b, tk_pending := q, tk_ttt := ttt_restart now (ui_nodeId ueInfo) (fst c) (tk_ttt tk)\<rparr>)"
  let ?h = "\<lparr>cmd_targetE2NodeId = GetServingGnbNodeId gnbInfos (um_servingCellId um),
      cmd_targetCellId = fst c, cmd_targetRnti = um_servingRnti um\<rparr>"
  show ?thesis
    using load_cap.limits_step [OF assms, of ?h "ui_nodeId ueInfo"] load_emits_room [OF e]
    by (simp add: eq reserve_slot_eq load_cap.reserve_def)
qed (use assms in simp_all)

lemma load_limits_end:
  "load_cap.keeps_limits p (tk_count (load_start now p st d ueInfos gnbInfos))
    (tk_count (load_end verbose name now p st d ueInfos gnbInfos))
    (tk_commands (load_end verbose name now p st d ueInfos gnbInfos))"
proof (rule load_end_induct)
  show "load_cap.keeps_limits p (tk_count (load_start now p st d ueInfos gnbInfos))
      (tk_count (load_start now p st d ueInfos gnbInfos)) (tk_commands (load_start now p st d ueInfos gnbInfos))"
    by (simp add: load_start_def)
qed (rule load_limits_ue)

lemma load_start_effective:
  "tk_count (load_start now p st d ueInfos gnbInfos) =
    fold (\<lambda>kv. load_cap.reserve p (snd kv)) (cleanup_pending now p st) (realLoad d ueInfos gnbInfos)"
  by (simp add: load_start_def effectiveLoad_def reserve_slot_eq)

section \<open>Why a command is issued\<close>

definition sound_load_handover ::
  "time \<Rightarrow> load_params \<Rightarrow> gnb_info list \<Rightarrow> oran_data \<Rightarrow> (uint16 \<times> uint32) list \<Rightarrow> uint64 \<Rightarrow> handover_cmd \<Rightarrow> bool" where
  "sound_load_handover now p gnbInfos d cnt u h \<longleftrightarrow>
     (let ms = GetNrUeRsrpRsrq d u; um = collect ms; cur = um_servingCellId um
      in m_warmup p \<le> now \<and> cur \<noteq> 0 \<and>
         cmd_targetE2NodeId h = GetServingGnbNodeId gnbInfos cur \<and> cmd_targetE2NodeId h \<noteq> 0 \<and>
         cmd_targetRnti h = um_servingRnti um \<and> cmd_targetCellId h \<noteq> cur \<and>
         CellKnown gnbInfos (cmd_targetCellId h) \<and>
         (\<exists>r. strongest ms (cmd_targetCellId h) = Some r \<and> r > um_servingRsrp um + m_rsrpThreshold p \<and>
            r \<ge> m_minAcceptableRsrpDbm p \<and>
            (\<forall>c r'. strongest ms c = Some r' \<and> CellKnown gnbInfos c \<and> c \<noteq> cur \<and> r' > r \<longrightarrow>
               m_tryNextBest p \<and> \<not> has_room p cnt c)))"

definition room_anti :: "load_params \<Rightarrow> (uint16 \<times> uint32) list \<Rightarrow> (uint16 \<times> uint32) list \<Rightarrow> bool" where
  "room_anti p cnt cnt' \<longleftrightarrow> (\<forall>c. has_room p cnt' c \<longrightarrow> has_room p cnt c)"

lemma sound_load_handover_mono:
  "sound_load_handover now p gnbInfos d cnt u h \<Longrightarrow> room_anti p cnt cnt' \<Longrightarrow>
    sound_load_handover now p gnbInfos d cnt' u h"
  unfolding sound_load_handover_def room_anti_def Let_def by blast

lemma room_anti_slot: "room_anti p cnt (reserve_slot p c cnt)"
  using has_room_reserve_slot unfolding room_anti_def by blast

lemma load_emits_sound:
  assumes e: "load_emits now p srt gnbInfos u tk um c" and srt: "sort_ok srt"
    and log: "only_lm_log d (tk_data tk)"
  shows "sound_load_handover now p gnbInfos d (tk_count tk) u
    \<lparr>cmd_targetE2NodeId = GetServingGnbNodeId gnbInfos (um_servingCellId um),
     cmd_targetCellId = fst c, cmd_targetRnti = um_servingRnti um\<rparr>"
proof -
  let ?ms = "GetNrUeRsrpRsrq d u" and ?cs = "srt (candidates gnbInfos (um_best um))"
  note ch = load_emits_target(1) [OF e]
  have um: "um = collect ?ms" using e GetNrUeRsrpRsrq_lm_log [OF log] by (auto simp: load_emits_def)
  have mem: "x \<in> set ?cs \<longleftrightarrow> CellKnown gnbInfos (fst x) \<and> strongest ?ms (fst x) = Some (snd x)" for x
    unfolding sort_ok_D(1) [OF srt] um candidates_def by (cases x) (auto simp: best_mem)
  have "m_tryNextBest p \<and> \<not> has_room p (tk_count tk) x"
    if "strongest ?ms x = Some r" "CellKnown gnbInfos x" "x \<noteq> um_servingCellId um" "r > snd c" for x r
    using load_choose_best [OF ch sort_ok_D(2) [OF srt], of "(x, r)"] that mem [of "(x, r)"] by simp
  with load_choose_Target [OF ch] mem [of c] load_emits_target [OF e] show ?thesis
    unfolding sound_load_handover_def Let_def um [symmetric] by simp blast
qed

lemma sound_load_ue:
  assumes "sort_ok srt" and "only_lm_log d (tk_data tk)"
    and "\<forall>(u, h) \<in> set (tk_commands tk). u \<in> U \<and> sound_load_handover now p gnbInfos d (tk_count tk) u h"
    and "ui_nodeId ueInfo \<in> U"
  shows "\<forall>(u, h) \<in> set (tk_commands (load_ue verbose name now p srt gnbInfos ueInfo tk)).
    u \<in> U \<and> sound_load_handover now p gnbInfos d (tk_count (load_ue verbose name now p srt gnbInfos ueInfo tk)) u h"
proof (rule load_ue_cases [of now p srt gnbInfos ueInfo tk verbose name])
  fix um c b q
  assume e: "load_emits now p srt gnbInfos (ui_nodeId ueInfo) tk um c" and eq:
    "load_ue verbose name now p srt gnbInfos ueInfo tk =
       load_emit verbose name now p (ui_nodeId ueInfo)
         (GetServingGnbNodeId gnbInfos (um_servingCellId um)) (um_servingRnti um)
         (um_servingCellId um) (fst c)
         (tk\<lparr>tk_block := b, tk_pending := q, tk_ttt := ttt_restart now (ui_nodeId ueInfo) (fst c) (tk_ttt tk)\<rparr>)"
  have "\<forall>(u, h) \<in> set (tk_commands tk).
      u \<in> U \<and> sound_load_handover now p gnbInfos d (reserve_slot p (fst c) (tk_count tk)) u h"
    using assms(3) sound_load_handover_mono [OF _ room_anti_slot] by blast
  with assms(4) sound_load_handover_mono [OF load_emits_sound [OF e assms(1,2)] room_anti_slot]
  show ?thesis by (auto simp: eq)
qed (use assms(3) in simp_all)

lemma sound_load_end:
  assumes "sort_ok (std_sort st)"
  shows "\<forall>(u, h) \<in> set (tk_commands (load_end verbose name now p st d ueInfos gnbInfos)).
    u \<in> ui_nodeId ` set ueInfos \<and>
    sound_load_handover now p gnbInfos d (tk_count (load_end verbose name now p st d ueInfos gnbInfos)) u h"
proof -
  let ?P = "\<lambda>tk :: load_tick. only_lm_log d (tk_data tk) \<and> (\<forall>(u, h) \<in> set (tk_commands tk).
      u \<in> ui_nodeId ` set ueInfos \<and> sound_load_handover now p gnbInfos d (tk_count tk) u h)"
  have "?P (load_end verbose name now p st d ueInfos gnbInfos)"
  proof (rule load_end_induct)
    show "?P (load_start now p st d ueInfos gnbInfos)" by (simp add: load_start_def)
  next
    fix ueInfo and tk :: load_tick
    assume "ueInfo \<in> set ueInfos" and P: "?P tk"
    then have "ui_nodeId ueInfo \<in> ui_nodeId ` set ueInfos" by blast
    with P show "?P (load_ue verbose name now p (std_sort st) gnbInfos ueInfo tk)"
      by (intro conjI load_ue_log sound_load_ue [OF assms]) (erule conjunct1 conjunct2 | assumption)+
  qed
  then show ?thesis by (rule conjunct2)
qed

section \<open>Pacing\<close>

definition load_run ::
  "bool \<Rightarrow> string \<Rightarrow> load_params \<Rightarrow> time \<Rightarrow> ho_input \<Rightarrow> load_static \<Rightarrow> (uint64 \<times> handover_cmd) list \<times> load_static" where
  "load_run verbose name p now i st =
     (case i of (d, ueInfos, gnbInfos) \<Rightarrow>
        (tk_commands (load_end verbose name now p st d ueInfos gnbInfos),
         fst (snd (load_GetHandoverCommands verbose name now p st d ueInfos gnbInfos))))"

interpretation load_loop: handover_loop
  "load_ue verbose name now p srt gnbInfos" tk_commands tk_last now "m_minHoInterval p"
  for verbose name now p srt gnbInfos
proof unfold_locales
  fix ue and t :: load_tick
  let ?t = "load_ue verbose name now p srt gnbInfos ue t"
  show "tk_commands ?t = tk_commands t \<and> tk_last ?t = tk_last t \<or>
    (\<exists>h. tk_commands ?t = tk_commands t @ [(ui_nodeId ue, h)] \<and>
       tk_last ?t = smap_upd (ui_nodeId ue) now (tk_last t) \<and>
       (\<forall>s. map_of (tk_last t) (ui_nodeId ue) = Some s \<longrightarrow> m_minHoInterval p \<le> now - s))"
  proof (rule load_ue_cases [of now p srt gnbInfos ue t verbose name])
    fix um c b q
    assume e: "load_emits now p srt gnbInfos (ui_nodeId ue) t um c" and eq: "?t =
      load_emit verbose name now p (ui_nodeId ue) (GetServingGnbNodeId gnbInfos (um_servingCellId um))
        (um_servingRnti um) (um_servingCellId um) (fst c)
        (t\<lparr>tk_block := b, tk_pending := q, tk_ttt := ttt_restart now (ui_nodeId ue) (fst c) (tk_ttt t)\<rparr>)"
    show ?thesis using load_emits_target(3) [OF e] by (auto simp: eq ue_gated_def)
  qed simp_all
qed

lemma load_GetHandoverCommands_static:
  "fst (snd (load_GetHandoverCommands verbose name now p st d ueInfos gnbInfos)) =
     (let tk = load_end verbose name now p st d ueInfos gnbInfos
      in st\<lparr>lastHoCmdTime := tk_last tk, pendingHoTarget := tk_pending tk,
            lowRsrpBlockUntil := tk_block tk, tttState := tk_ttt tk\<rparr>)"
  by (simp add: load_GetHandoverCommands_def Let_def)

interpretation load_module: handover_module "load_run verbose name p" lastHoCmdTime "m_minHoInterval p"
  for verbose name p
proof unfold_locales
  fix es and st :: load_static and now :: time and i :: ho_input
  assume pre: "paced (m_minHoInterval p) es" "remembered es (lastHoCmdTime st)" "\<forall>e\<in>set es. fst e \<le> now"
  obtain d ueInfos gnbInfos where i: "i = (d, ueInfos, gnbInfos)" by (cases i)
  have "load_loop.paced_upto now p es (load_start now p st d ueInfos gnbInfos)"
    using pre(1,2) by (simp add: load_loop.paced_upto_def load_start_def)
  from load_loop.paced_steps [OF this pre(3), of verbose name "std_sort st" gnbInfos ueInfos]
  show "paced (m_minHoInterval p) (es @ map (Pair now) (fst (load_run verbose name p now i st))) \<and>
    remembered (es @ map (Pair now) (fst (load_run verbose name p now i st)))
      (lastHoCmdTime (snd (load_run verbose name p now i st)))"
    by (simp add: load_loop.paced_upto_def load_run_def i load_GetHandoverCommands_static Let_def load_end_def)
qed

section \<open>The time to trigger\<close>

interpretation load_trigger: trigger_loop
  "load_decision now p srt gnbInfos" "load_ue verbose name now p srt gnbInfos" tk_commands tk_ttt now
  "m_timeToTrigger p"
  for verbose name now p srt gnbInfos
proof unfold_locales
  fix ue :: ue_info and t :: load_tick
  assume "load_decision now p srt gnbInfos (ui_nodeId ue) t = None"
  from load_ue_skip [OF this, of verbose name] show
    "tk_commands (load_ue verbose name now p srt gnbInfos ue t) = tk_commands t \<and>
     tk_ttt (load_ue verbose name now p srt gnbInfos ue t) = tk_ttt t" by auto
next
  fix ue :: ue_info and t :: load_tick and ch
  assume d: "load_decision now p srt gnbInfos (ui_nodeId ue) t = Some ch" and ch: "\<forall>c. ch \<noteq> Target c"
  show "tk_commands (load_ue verbose name now p srt gnbInfos ue t) = tk_commands t \<and>
     tk_ttt (load_ue verbose name now p srt gnbInfos ue t) = smap_del (ui_nodeId ue) (tk_ttt t)"
    using load_ue_decided [OF d refl, of verbose name] ch
    by (cases ch) (simp_all add: Let_def low_rsrp_failure_def)
next
  fix ue :: ue_info and t :: load_tick and c
  assume d: "load_decision now p srt gnbInfos (ui_nodeId ue) t = Some (Target c)"
  show "if now - ttt_since now (ui_nodeId ue) (fst c) (tk_ttt t) < m_timeToTrigger p
     then tk_commands (load_ue verbose name now p srt gnbInfos ue t) = tk_commands t \<and>
       tk_ttt (load_ue verbose name now p srt gnbInfos ue t) = ttt_restart now (ui_nodeId ue) (fst c) (tk_ttt t)
     else \<exists>h. tk_commands (load_ue verbose name now p srt gnbInfos ue t) = tk_commands t @ [(ui_nodeId ue, h)] \<and>
       cmd_targetCellId h = fst c \<and> tk_ttt (load_ue verbose name now p srt gnbInfos ue t) =
         smap_del (ui_nodeId ue) (ttt_restart now (ui_nodeId ue) (fst c) (tk_ttt t))"
    using load_ue_decided [OF d refl, of verbose name] by (simp add: Let_def load_trigger_def)
qed

definition load_events ::
  "bool \<Rightarrow> string \<Rightarrow> load_params \<Rightarrow> time \<Rightarrow> ho_input \<Rightarrow> load_static \<Rightarrow> load_event list" where
  "load_events verbose name p now i st =
     (case i of (d, ueInfos, gnbInfos) \<Rightarrow>
        run_events (load_decision now p (std_sort st) gnbInfos) (load_ue verbose name now p (std_sort st) gnbInfos)
          tk_commands now ueInfos (load_start now p st d ueInfos gnbInfos))"

interpretation load_ttt: trigger_module "load_events verbose name p" "load_run verbose name p" tttState
  "m_timeToTrigger p"
  for verbose name p
proof unfold_locales
  fix es and st :: load_static and now and i :: ho_input
  assume pre: "0 < m_timeToTrigger p" "ttt_inv es (tttState st)" "log_ok (m_timeToTrigger p) es"
  obtain d ueInfos gnbInfos where i: "i = (d, ueInfos, gnbInfos)" by (cases i)
  have "ttt_inv es (tk_ttt (load_start now p st d ueInfos gnbInfos))" using pre(2) by (simp add: load_start_def)
  from load_trigger.steps_ttt [OF this pre(3,1)]
  show "ttt_inv (es @ load_events verbose name p now i st) (tttState (snd (load_run verbose name p now i st))) \<and>
      log_ok (m_timeToTrigger p) (es @ load_events verbose name p now i st)"
    by (simp add: i load_events_def load_run_def load_GetHandoverCommands_static Let_def load_end_def)
next
  fix now and i :: ho_input and st :: load_static
  obtain d ueInfos gnbInfos where i: "i = (d, ueInfos, gnbInfos)" by (cases i)
  show "map (Pair now) (fst (load_run verbose name p now i st)) = log_commands (load_events verbose name p now i st)"
    using load_trigger.steps_commands [of now verbose name p "std_sort st" gnbInfos ueInfos
        "load_start now p st d ueInfos gnbInfos"]
    by (simp add: i load_events_def load_run_def load_end_def load_start_def)
qed

section \<open>A concrete run\<close>

text \<open>The scenario of \<open>Lm_Rsrp\<close>, with ten UEs at most in cell 2; in \<open>ex_weak_data\<close> cell 2 is the weaker one.\<close>

definition ex_load_params :: load_params where
  "ex_load_params = SetCellCapacity 2 10 OranLmNr2NrRsrpHandoverWithCellLoad"

definition ex_load_static :: load_static where
  "ex_load_static = \<lparr>lastHoCmdTime = [], pendingHoTarget = [], std_sort = sort_key (\<lambda>c. - snd c),
     lowRsrpBlockUntil = [], tttState = []\<rparr>"

definition ex_weak_data :: oran_data where
  "ex_weak_data = ex_data\<lparr>d_db := (d_db ex_data)
     \<lparr>t_nruersrprsrq := [rsrprsrq_row 1 7 5 1 (-100) 0 True 0, rsrprsrq_row 1 7 5 2 (-130) 0 False 0]\<rparr>\<rparr>"

lemma ex_weak_measurements:
  "GetNrUeRsrpRsrq ex_weak_data 1 = [(5, 1, -100, 0, True, 0), (5, 2, -130, 0, False, 0)]"
  by (simp add: GetNrUeRsrpRsrq_def ex_weak_data_def ex_data_def IsNodeRegistered_def limit1_def order_desc_def
      newest_def scan_rows_def measurement_of_def rsrprsrq_row_def InitDb_def)

lemma ex_weak_collect:
  "collect [(5, 1, -100, 0, True, 0), (5, 2, -130, 0, False, 0)] =
     \<lparr>um_servingRsrp = -100, um_servingCellId = 1, um_servingRnti = 5, um_best = [(1, -100), (2, -130)]\<rparr>"
  by (simp add: collect_def collect_one_def)

lemmas ex_load_simps = load_end_def load_start_def load_ue_def ex_ues_def ex_gnbs_def ex_measurements
  ex_collect ex_weak_measurements ex_weak_collect Let_def ue_gated_def low_blocked_def ex_load_params_def
  SetCellCapacity_def OranLmNr2NrRsrpHandoverWithCellLoad_def cleanup_pending_def effectiveLoad_def
  realLoad_def count_ue_def counted_cell_def count_inc_def smap_get_def candidates_def CellKnown_def
  GetServingGnbNodeId_def GetCellCap_def load_trigger_def ttt_since_def ttt_restart_def smap_del_def
  ex_command_def load_run_def load_GetHandoverCommands_def ex_load_static_def load_emit_def reserve_slot_def
  log_rsrp_def clear_reached_def

definition ex_waiting :: load_static where
  "ex_waiting = ex_load_static\<lparr>tttState := [(1, 2, 3000000000)]\<rparr>"

text \<open>The first run starts the stopwatch; two seconds later the command follows.\<close>

lemma ex_load_first:
  "load_run False [] ex_load_params 3000000000 (ex_data, ex_ues, ex_gnbs) ex_load_static = ([], ex_waiting)"
  by (simp add: ex_load_simps ex_waiting_def)

lemma ex_load_second:
  "tk_commands (load_end False [] 5000000000 ex_load_params ex_waiting ex_data ex_ues ex_gnbs) = [(1, ex_command)]"
  by (simp add: ex_load_simps ex_waiting_def)

text \<open>A run that does not know the gNB of cell 1, and one that does, when cell 2 is weaker.\<close>

lemma ex_load_gap:
  "load_run False [] ex_load_params 4000000000 (ex_weak_data, ex_ues, tl ex_gnbs) ex_waiting = ([], ex_waiting)"
  by (simp add: ex_load_simps ex_waiting_def)

lemma ex_load_weak:
  "load_run False [] ex_load_params 4000000000 (ex_weak_data, ex_ues, ex_gnbs) ex_waiting = ([], ex_load_static)"
  by (simp add: ex_load_simps ex_waiting_def)

section \<open>Properties\<close>

lemma load_commands_mem:
  "OranCommandNr2NrHandover h \<in> set (fst (load_GetHandoverCommands verbose name now p st d ueInfos gnbInfos)) \<longleftrightarrow>
    h \<in> snd ` set (tk_commands (load_end verbose name now p st d ueInfos gnbInfos))"
  by (auto simp: load_GetHandoverCommands_def Let_def)

lemma load_commands_to_cell:
  "length (filter (to_cell c) (fst (load_GetHandoverCommands verbose name now p st d ueInfos gnbInfos))) =
    issued_to c (tk_commands (load_end verbose name now p st d ueInfos gnbInfos))"
  by (simp add: load_GetHandoverCommands_def Let_def issued_to_def filter_map comp_def to_cell_def)

text \<open>
  C7: A run of the cell-load module never overfills a cell that has a cap, its own or the global one: if
  the run sends a UE to the cell, then the UEs the cell serves, the handovers still pending to it and the
  commands of the run to it are together at most the cap. This holds although a reservation that does
  not fit is dropped.
\<close>

theorem load_capacity:
  assumes "length ueInfos + length (pendingHoTarget st) < 2 ^ 32"
    and "OranCommandNr2NrHandover h \<in>
      set (fst (load_GetHandoverCommands verbose name now p st d ueInfos gnbInfos))"
    and "GetCellCap p (cmd_targetCellId h) \<noteq> 0"
  shows "cell_load d ueInfos (cleanup_pending now p st) (cmd_targetCellId h) +
      length (filter (to_cell (cmd_targetCellId h))
        (fst (load_GetHandoverCommands verbose name now p st d ueInfos gnbInfos)))
    \<le> unat (GetCellCap p (cmd_targetCellId h))"
proof -
  obtain u where "(u, h) \<in> set (tk_commands (load_end verbose name now p st d ueInfos gnbInfos))"
    using assms(2) unfolding load_commands_mem by auto
  moreover have "load_limit p (cmd_targetCellId h) = Some (GetCellCap p (cmd_targetCellId h))"
    using assms(3) by (simp add: load_limit_def)
  ultimately show ?thesis
    using load_cap.limits_end [OF load_limits_end [unfolded load_start_effective] assms(1)]
    unfolding load_commands_to_cell by blast
qed

theorem load_capacity_witness:
  "cell_load ex_data ex_ues [] 2 +
     length (filter (to_cell 2) (fst (load_GetHandoverCommands False [] 5000000000 ex_load_params
       ex_waiting ex_data ex_ues ex_gnbs))) \<le> 10 \<and>
   OranCommandNr2NrHandover ex_command \<in> set (fst (load_GetHandoverCommands False [] 5000000000
     ex_load_params ex_waiting ex_data ex_ues ex_gnbs))"
proof -
  have ex: "cleanup_pending 5000000000 ex_load_params ex_waiting = []" "GetCellCap ex_load_params 2 = 10"
      "cmd_targetCellId ex_command = 2" "length ex_ues + length (pendingHoTarget ex_waiting) < 2 ^ 32"
    by (simp_all add: ex_load_simps ex_waiting_def)
  have "OranCommandNr2NrHandover ex_command \<in> set (fst (load_GetHandoverCommands False [] 5000000000
      ex_load_params ex_waiting ex_data ex_ues ex_gnbs))"
    by (simp add: load_commands_mem ex_load_second)
  with load_capacity [OF ex(4) this] show ?thesis by (simp add: ex)
qed

text \<open>
  Every command of the cell-load module is justified by the newest measurements of a UE of the run: it
  goes to the gNB of the serving cell with the UE's RNTI, its target is a known other cell beyond the
  hysteresis and not below the smallest acceptable RSRP, and a stronger known cell was passed over only
  because it is full and \<open>TryNextBest\<close> is set.
\<close>

lemma load_handover_sound:
  assumes "sort_ok (std_sort st)"
    and "OranCommandNr2NrHandover h \<in>
      set (fst (load_GetHandoverCommands verbose name now p st d ueInfos gnbInfos))"
  shows "\<exists>u\<in>ui_nodeId ` set ueInfos. sound_load_handover now p gnbInfos d
    (tk_count (load_end verbose name now p st d ueInfos gnbInfos)) u h"
  using assms(2) sound_load_end [OF assms(1)] unfolding load_commands_mem by fastforce

text \<open>
  C6: The time to trigger holds over any history of runs: a command for a UE comes at least
  \<open>TimeToTrigger\<close> after a decision for the UE that chose the same cell, and every decision for the
  UE in between chose that cell too and led to no command.
\<close>

theorem load_time_to_trigger:
  assumes "tttState st = []" and "0 < m_timeToTrigger p"
    and "(now, u, h) \<in> set (history (load_run verbose name p) st runs)"
  shows "\<exists>xs ch ys t. module_log (load_events verbose name p) (load_run verbose name p) st runs =
      xs @ (now, u, ch, Some h) # ys \<and>
    streak xs u (cmd_targetCellId h) t \<and> m_timeToTrigger p \<le> now - t"
  using assms by (rule load_ttt.time_to_trigger)

theorem load_time_to_trigger_witness:
  "\<exists>xs ch ys t. module_log (load_events False [] ex_load_params) (load_run False [] ex_load_params)
      ex_load_static
      [(3000000000, ex_data, ex_ues, ex_gnbs), (5000000000, ex_data, ex_ues, ex_gnbs)] =
      xs @ (5000000000, 1, ch, Some ex_command) # ys \<and>
    streak xs 1 2 t \<and> 2000000000 \<le> 5000000000 - t"
proof -
  have mem: "(5000000000, 1, ex_command) \<in> set (history (load_run False [] ex_load_params) ex_load_static
      [(3000000000, ex_data, ex_ues, ex_gnbs), (5000000000, ex_data, ex_ues, ex_gnbs)])"
    by (simp add: ex_load_first) (simp add: load_run_def ex_load_second)
  have ex: "tttState ex_load_static = []" "m_timeToTrigger ex_load_params = 2000000000"
      "cmd_targetCellId ex_command = 2"
    by (simp_all add: ex_load_simps)
  show ?thesis using load_time_to_trigger [OF ex(1) _ mem] unfolding ex by simp
qed

text \<open>
  The stopwatch also runs through runs that do not look at the UE. Cell 2 is chosen at 3 s; at 4 s it
  is measured 30 dB weaker than the serving cell, but the gNB of the serving cell is not listed and the
  UE is skipped; at 5 s the command is issued, although cell 2 did not stay better for two seconds. With
  the gNB listed at 4 s there is no command.
\<close>

lemma load_stopwatch_runs_through_gap:
  "history (load_run False [] ex_load_params) ex_load_static
     [(3000000000, ex_data, ex_ues, ex_gnbs), (4000000000, ex_weak_data, ex_ues, tl ex_gnbs),
      (5000000000, ex_data, ex_ues, ex_gnbs)] = [(5000000000, 1, ex_command)] \<and>
   history (load_run False [] ex_load_params) ex_load_static
     [(3000000000, ex_data, ex_ues, ex_gnbs), (4000000000, ex_weak_data, ex_ues, ex_gnbs),
      (5000000000, ex_data, ex_ues, ex_gnbs)] = []"
proof
  have again: "load_run False [] ex_load_params 5000000000 (ex_data, ex_ues, ex_gnbs) ex_load_static =
      ([], ex_waiting\<lparr>tttState := [(1, 2, 5000000000)]\<rparr>)"
    by (simp add: ex_load_simps ex_waiting_def)
  show "history (load_run False [] ex_load_params) ex_load_static
     [(3000000000, ex_data, ex_ues, ex_gnbs), (4000000000, ex_weak_data, ex_ues, tl ex_gnbs),
      (5000000000, ex_data, ex_ues, ex_gnbs)] = [(5000000000, 1, ex_command)]"
    by (simp add: ex_load_first ex_load_gap) (simp add: load_run_def ex_load_second)
  show "history (load_run False [] ex_load_params) ex_load_static
     [(3000000000, ex_data, ex_ues, ex_gnbs), (4000000000, ex_weak_data, ex_ues, ex_gnbs),
      (5000000000, ex_data, ex_ues, ex_gnbs)] = []"
    by (simp add: ex_load_first ex_load_weak again)
qed

text \<open>The commands of the module are paced like those of \<open>Lm_Rsrp\<close>.\<close>

lemma load_handover_pacing:
  "sorted (map fst runs) \<Longrightarrow> paced (m_minHoInterval p) (history (load_run verbose name p) st runs)"
  by (rule load_module.paced_history)

end
