(* ===== verification/Lm_Tn_Ntn.thy ===== *)
theory Lm_Tn_Ntn
  imports Lm_Cell_Load
begin

text \<open>
  The logic module \<open>OranLmNr2NrRsrpHandoverWithTnNtn\<close>
  (\<open>oran-lm-nr-2-nr-rsrp-handover-with-tn-ntn.cc\<close>): cells are terrestrial (TN) or not (NTN); a UE goes to
  a better TN cell if there is one with room, and to an NTN cell only otherwise. A cell whose own capacity is
  0 is blocked. The attributes and static maps are those of the cell-load module and more. A candidate is a
  pair of cell and RSRP; its flag \<open>isNtn\<close> is \<open>IsNtnCell\<close> of the cell. The decisions are
  written to a CSV file; a line of it is the record of its values, and whether the file can be opened is
  the field \<open>csv_can_open\<close>. The model has one object of the class, as its static maps suggest.
\<close>

section \<open>Attributes and state\<close>

record tn_params = load_params +
  m_tnMinRsrpDbm :: double
  m_ntnEnterMarginDb :: double
  m_tnReturnMarginDb :: double
  m_cellIsNtnMap :: "(uint16 \<times> bool) list"
  m_cellBackhaulDlSnrDb :: "(uint16 \<times> double) list"
  m_cellBackhaulUlSnrDb :: "(uint16 \<times> double) list"
  m_decisionCsvFilename :: string

text \<open>The attribute system sets the default values of the attributes after the constructor has run.\<close>

definition OranLmNr2NrRsrpHandoverWithTnNtn :: tn_params where
  "OranLmNr2NrRsrpHandoverWithTnNtn =
     \<lparr>m_rsrpThreshold = 2, m_warmup = 2000000000, m_minHoInterval = 2000000000,
      m_hoAttemptTimeout = 2000000000, m_maxUesPerCell = 0, m_tryNextBest = True,
      m_minAcceptableRsrpDbm = - 120, m_lowRsrpRecheck = 2000000000, m_timeToTrigger = 2000000000,
      m_cellCapacityMap = [], m_tnMinRsrpDbm = - 110, m_ntnEnterMarginDb = 3, m_tnReturnMarginDb = 5,
      m_cellIsNtnMap = [], m_cellBackhaulDlSnrDb = [], m_cellBackhaulUlSnrDb = [],
      m_decisionCsvFilename = []\<rparr>"

definition tn_SetCellCapacity :: "uint16 \<Rightarrow> uint32 \<Rightarrow> tn_params \<Rightarrow> tn_params" where
  "tn_SetCellCapacity cellId maxUes p = p\<lparr>m_cellCapacityMap := smap_upd cellId maxUes (m_cellCapacityMap p)\<rparr>"

definition SetCellIsNtn :: "uint16 \<Rightarrow> bool \<Rightarrow> tn_params \<Rightarrow> tn_params" where
  "SetCellIsNtn cellId isNtn p = p\<lparr>m_cellIsNtnMap := smap_upd cellId isNtn (m_cellIsNtnMap p)\<rparr>"

definition SetCellBackhaulDlSnrDb :: "uint16 \<Rightarrow> double \<Rightarrow> tn_params \<Rightarrow> tn_params" where
  "SetCellBackhaulDlSnrDb cellId snrDb p =
     p\<lparr>m_cellBackhaulDlSnrDb := smap_upd cellId snrDb (m_cellBackhaulDlSnrDb p)\<rparr>"

definition SetCellBackhaulUlSnrDb :: "uint16 \<Rightarrow> double \<Rightarrow> tn_params \<Rightarrow> tn_params" where
  "SetCellBackhaulUlSnrDb cellId snrDb p =
     p\<lparr>m_cellBackhaulUlSnrDb := smap_upd cellId snrDb (m_cellBackhaulUlSnrDb p)\<rparr>"

definition SetDecisionCsvFilename :: "string \<Rightarrow> tn_params \<Rightarrow> tn_params" where
  "SetDecisionCsvFilename filename p = p\<lparr>m_decisionCsvFilename := filename\<rparr>"

text \<open>The CSV file of the decisions.\<close>

record decision_row =
  dr_time :: time
  dr_ueId :: uint64
  dr_rnti :: uint16
  dr_servingCell :: uint16
  dr_servingRsrp :: double
  dr_candidateCell :: uint16
  dr_candidateRsrp :: double
  dr_candidateLoad :: uint32
  dr_candidateEffLoad :: uint32
  dr_candidateCap :: uint32
  dr_candidateIsNtn :: bool
  dr_backhaulDlSnr :: double
  dr_backhaulUlSnr :: double
  dr_finalChosenCell :: uint16

datatype csv_line = Csv_Header | Csv_Row decision_row

record csv_file =
  csv_is_open :: bool
  csv_lines :: "csv_line list"

definition EnsureDecisionCsvOpen :: "(string \<Rightarrow> bool) \<Rightarrow> tn_params \<Rightarrow> csv_file \<Rightarrow> csv_file" where
  "EnsureDecisionCsvOpen can_open p f =
     (if csv_is_open f \<or> m_decisionCsvFilename p = [] then f
      else if can_open (m_decisionCsvFilename p) then \<lparr>csv_is_open = True, csv_lines = [Csv_Header]\<rparr>
      else f)"

definition LogDecisionRow :: "(string \<Rightarrow> bool) \<Rightarrow> tn_params \<Rightarrow> decision_row \<Rightarrow> csv_file \<Rightarrow> csv_file" where
  "LogDecisionRow can_open p row f =
     (let f1 = EnsureDecisionCsvOpen can_open p f
      in if \<not> csv_is_open f1 then f1 else f1\<lparr>csv_lines := csv_lines f1 @ [Csv_Row row]\<rparr>)"

record tn_static = load_static +
  m_decisionCsv :: csv_file
  csv_can_open :: "string \<Rightarrow> bool"

section \<open>Capacity\<close>

definition CapacityOk :: "tn_params \<Rightarrow> uint16 \<Rightarrow> (uint16 \<times> uint32) list \<Rightarrow> bool" where
  "CapacityOk p cellId loadMap =
     (case map_of loadMap cellId of
        None \<Rightarrow> False
      | Some l \<Rightarrow>
          (case map_of (m_cellCapacityMap p) cellId of
             Some cap \<Rightarrow> if cap = 0 then False else l < cap
           | None \<Rightarrow> if m_maxUesPerCell p = 0 then True else l < m_maxUesPerCell p))"

definition tn_effectiveLoad ::
  "tn_params \<Rightarrow> (uint64 \<times> uint16) list \<Rightarrow> (uint16 \<times> uint32) list \<Rightarrow> (uint16 \<times> uint32) list" where
  "tn_effectiveLoad p pend m =
     fold (\<lambda>kv m. if CapacityOk p (snd kv) m then count_inc (snd kv) m else m) pend m"

section \<open>The decision for one UE\<close>

definition IsValidRsrp :: "double \<Rightarrow> bool" where
  "IsValidRsrp rsrp \<longleftrightarrow> rsrp > - 500"

definition IsNtnCell :: "tn_params \<Rightarrow> uint16 \<Rightarrow> bool" where
  "IsNtnCell p cellId = (case map_of (m_cellIsNtnMap p) cellId of Some b \<Rightarrow> b | None \<Rightarrow> False)"

definition tn_collect_one :: "measurement \<Rightarrow> ue_meas \<Rightarrow> ue_meas" where
  "tn_collect_one m u =
     (case m of (rnti, cellId, rsrp, rsrq, isServing, ccId) \<Rightarrow>
        if \<not> IsValidRsrp rsrp then u
        else (let u1 = (case map_of (um_best u) cellId of
                          None \<Rightarrow> u\<lparr>um_best := smap_upd cellId rsrp (um_best u)\<rparr>
                        | Some b \<Rightarrow> if rsrp > b then u\<lparr>um_best := smap_upd cellId rsrp (um_best u)\<rparr> else u)
              in if isServing \<and> rsrp > um_servingRsrp u1
                 then u1\<lparr>um_servingRsrp := rsrp, um_servingCellId := cellId, um_servingRnti := rnti\<rparr>
                 else u1))"

definition tn_collect :: "measurement list \<Rightarrow> ue_meas" where
  "tn_collect ms =
     fold tn_collect_one ms
       \<lparr>um_servingRsrp = - DBL_MAX, um_servingCellId = 0, um_servingRnti = 0, um_best = []\<rparr>"

definition tn_candidates :: "gnb_info list \<Rightarrow> (uint16 \<times> double) list \<Rightarrow> cand list" where
  "tn_candidates gnbInfos best = filter (\<lambda>kv. CellKnown gnbInfos (fst kv) \<and> IsValidRsrp (snd kv)) best"

text \<open>The conditions on the RSRP of a candidate, for a UE served by a TN or an NTN cell.\<close>

definition tn_better :: "tn_params \<Rightarrow> bool \<Rightarrow> double \<Rightarrow> cand \<Rightarrow> bool" where
  "tn_better p currentIsNtn servingRsrp c =
     (if \<not> currentIsNtn then snd c > servingRsrp + m_rsrpThreshold p
      else snd c \<ge> m_tnMinRsrpDbm p \<and> snd c > servingRsrp + m_tnReturnMarginDb p)"

definition ntn_better :: "tn_params \<Rightarrow> bool \<Rightarrow> double \<Rightarrow> cand \<Rightarrow> bool" where
  "ntn_better p currentIsNtn servingRsrp c =
     (if \<not> currentIsNtn
      then servingRsrp < m_tnMinRsrpDbm p \<or> snd c > servingRsrp + m_ntnEnterMarginDb p
      else snd c > servingRsrp + m_rsrpThreshold p)"

fun SelectPreferredTn ::
  "tn_params \<Rightarrow> uint16 \<Rightarrow> double \<Rightarrow> (uint16 \<times> uint32) list \<Rightarrow> cand list \<Rightarrow> cand option" where
  "SelectPreferredTn p cur servingRsrp cnt [] = None"
| "SelectPreferredTn p cur servingRsrp cnt (c # cs) =
     (if fst c = cur \<or> IsNtnCell p (fst c) then SelectPreferredTn p cur servingRsrp cnt cs
      else if \<not> CapacityOk p (fst c) cnt
      then if m_tryNextBest p then SelectPreferredTn p cur servingRsrp cnt cs else None
      else if tn_better p (IsNtnCell p cur) servingRsrp c then Some c
      else SelectPreferredTn p cur servingRsrp cnt cs)"

fun SelectFallbackNtn ::
  "tn_params \<Rightarrow> uint16 \<Rightarrow> double \<Rightarrow> (uint16 \<times> uint32) list \<Rightarrow> cand list \<Rightarrow> cand option" where
  "SelectFallbackNtn p cur servingRsrp cnt [] = None"
| "SelectFallbackNtn p cur servingRsrp cnt (c # cs) =
     (if fst c = cur \<or> \<not> IsNtnCell p (fst c) then SelectFallbackNtn p cur servingRsrp cnt cs
      else if \<not> CapacityOk p (fst c) cnt
      then if m_tryNextBest p then SelectFallbackNtn p cur servingRsrp cnt cs else None
      else if ntn_better p (IsNtnCell p cur) servingRsrp c then Some c
      else SelectFallbackNtn p cur servingRsrp cnt cs)"

definition tn_select ::
  "tn_params \<Rightarrow> uint16 \<Rightarrow> double \<Rightarrow> (uint16 \<times> uint32) list \<Rightarrow> cand list \<Rightarrow> cand option" where
  "tn_select p cur servingRsrp cnt cs =
     (case SelectPreferredTn p cur servingRsrp cnt cs of
        Some c \<Rightarrow> Some c
      | None \<Rightarrow> SelectFallbackNtn p cur servingRsrp cnt cs)"

definition tn_choose ::
  "tn_params \<Rightarrow> uint16 \<Rightarrow> double \<Rightarrow> (uint16 \<times> uint32) list \<Rightarrow> cand list \<Rightarrow> load_choice" where
  "tn_choose p cur servingRsrp cnt cs =
     (case tn_select p cur servingRsrp cnt cs of
        None \<Rightarrow> Keep
      | Some c \<Rightarrow> if fst c = cur then Keep
                  else if snd c < m_minAcceptableRsrpDbm p then Low_Rsrp c else Target c)"

section \<open>One run of the module\<close>

record tn_tick = load_tick +
  tk_csv :: csv_file

definition LogAllCandidates ::
  "(string \<Rightarrow> bool) \<Rightarrow> time \<Rightarrow> tn_params \<Rightarrow> (uint16 \<times> uint32) list \<Rightarrow> uint64 \<Rightarrow> ue_meas \<Rightarrow> cand list \<Rightarrow> uint16 \<Rightarrow>
   tn_tick \<Rightarrow> tn_tick" where
  "LogAllCandidates can_open now p rl u um cands finalChosenCell tk =
     tk\<lparr>tk_csv := fold (\<lambda>c.
          LogDecisionRow can_open p
            \<lparr>dr_time = now, dr_ueId = u, dr_rnti = um_servingRnti um, dr_servingCell = um_servingCellId um,
             dr_servingRsrp = um_servingRsrp um, dr_candidateCell = fst c, dr_candidateRsrp = snd c,
             dr_candidateLoad = smap_get 0 rl (fst c),
             dr_candidateEffLoad = smap_get 0 (tk_count tk) (fst c),
             dr_candidateCap = GetCellCap p (fst c), dr_candidateIsNtn = IsNtnCell p (fst c),
             dr_backhaulDlSnr = smap_get (- 999) (m_cellBackhaulDlSnrDb p) (fst c),
             dr_backhaulUlSnr = smap_get (- 999) (m_cellBackhaulUlSnrDb p) (fst c),
             dr_finalChosenCell = finalChosenCell\<rparr>)
          (filter (\<lambda>c. fst c \<noteq> um_servingCellId um) cands) (tk_csv tk)\<rparr>"

definition tn_emit ::
  "bool \<Rightarrow> string \<Rightarrow> time \<Rightarrow> uint64 \<Rightarrow> uint64 \<Rightarrow> uint16 \<Rightarrow> uint16 \<Rightarrow> uint16 \<Rightarrow> tn_tick \<Rightarrow> tn_tick" where
  "tn_emit verbose name now u servingGnb rnti cur chosen tk =
     (let h = \<lparr>cmd_targetE2NodeId = servingGnb, cmd_targetCellId = chosen, cmd_targetRnti = rnti\<rparr>;
          d1 = LogCommandLm now name (OranCommandNr2NrHandover h) (tk_data tk)
      in tk\<lparr>tk_commands := tk_commands tk @ [(u, h)],
            tk_ttt := smap_del u (tk_ttt tk),
            tk_last := smap_upd u now (tk_last tk),
            tk_pending := smap_upd u chosen (tk_pending tk),
            tk_count := count_inc chosen (tk_count tk),
            tk_data := log_rsrp verbose name now
              (''HO CMD t='' @ seconds_to_string now @ '' UE='' @ show_uint64 u @
               '' rnti='' @ show_cell rnti @ '' '' @ show_cell cur @ ''->'' @ show_cell chosen) d1\<rparr>)"

text \<open>The search of an iteration and what follows from its choice.\<close>

definition tn_act ::
  "bool \<Rightarrow> string \<Rightarrow> (string \<Rightarrow> bool) \<Rightarrow> time \<Rightarrow> tn_params \<Rightarrow> (uint16 \<times> uint32) list \<Rightarrow> uint64 \<Rightarrow> uint64 \<Rightarrow> ue_meas \<Rightarrow>
   cand list \<Rightarrow> tn_tick \<Rightarrow> tn_tick" where
  "tn_act verbose name can_open now p rl u gnb um cands tk =
     (let lg = LogAllCandidates can_open now p rl u um cands; cur = um_servingCellId um
      in case tn_choose p cur (um_servingRsrp um) (tk_count tk) cands of
           Keep \<Rightarrow> (lg 0 tk)\<lparr>tk_ttt := smap_del u (tk_ttt tk)\<rparr>
         | Low_Rsrp c \<Rightarrow> (lg 0 tk)\<lparr>tk_block := smap_upd u (now + m_lowRsrpRecheck p) (tk_block tk),
                                 tk_ttt := smap_del u (tk_ttt tk)\<rparr>
         | Target c \<Rightarrow>
             let tk1 = tk\<lparr>tk_ttt := ttt_restart now u (fst c) (tk_ttt tk)\<rparr>;
                 elapsed = now - ttt_since now u (fst c) (tk_ttt tk)
             in if elapsed < m_timeToTrigger p then lg 0 tk1
                else tn_emit verbose name now u gnb (um_servingRnti um) cur (fst c) (lg (fst c) tk1))"

definition tn_ue ::
  "bool \<Rightarrow> string \<Rightarrow> time \<Rightarrow> tn_params \<Rightarrow> tn_static \<Rightarrow> (uint16 \<times> uint32) list \<Rightarrow> gnb_info list \<Rightarrow> ue_info \<Rightarrow>
   tn_tick \<Rightarrow> tn_tick" where
  "tn_ue verbose name now p st rl gnbInfos ueInfo tk =
     (let u = ui_nodeId ueInfo
      in if now < m_warmup p then tk
         else if low_blocked now (tk_block tk) u then tk
         else
           let tk0 = tk\<lparr>tk_block := smap_del u (tk_block tk)\<rparr>
           in if ue_gated now p (tk_last tk0) (tk_pending tk0) u then tk0
              else
                let um = tn_collect (GetNrUeRsrpRsrq (tk_data tk0) u); cur = um_servingCellId um
                in if cur = 0 \<or> um_servingRnti um = 0 \<or> \<not> IsValidRsrp (um_servingRsrp um) then tk0
                   else
                     let tk1 = tk0\<lparr>tk_pending := clear_reached u cur (tk_pending tk0)\<rparr>;
                         gnb = GetServingGnbNodeId gnbInfos cur
                     in if gnb = 0 then tk1
                        else tn_act verbose name (csv_can_open st) now p rl u gnb um
                               (std_sort st (tn_candidates gnbInfos (um_best um))) tk1)"

definition tn_start ::
  "time \<Rightarrow> tn_params \<Rightarrow> tn_static \<Rightarrow> oran_data \<Rightarrow> ue_info list \<Rightarrow> gnb_info list \<Rightarrow> tn_tick" where
  "tn_start now p st d ueInfos gnbInfos =
     \<lparr>tk_last = lastHoCmdTime st, tk_pending = cleanup_pending now p st,
      tk_count = tn_effectiveLoad p (cleanup_pending now p st) (realLoad d ueInfos gnbInfos),
      tk_commands = [], tk_data = d, tk_block = lowRsrpBlockUntil st, tk_ttt = tttState st,
      tk_csv = m_decisionCsv st\<rparr>"

definition tn_end ::
  "bool \<Rightarrow> string \<Rightarrow> time \<Rightarrow> tn_params \<Rightarrow> tn_static \<Rightarrow> oran_data \<Rightarrow> ue_info list \<Rightarrow> gnb_info list \<Rightarrow> tn_tick" where
  "tn_end verbose name now p st d ueInfos gnbInfos =
     fold (tn_ue verbose name now p st (realLoad d ueInfos gnbInfos) gnbInfos) ueInfos
       (tn_start now p st d ueInfos gnbInfos)"

definition tn_GetHandoverCommands ::
  "bool \<Rightarrow> string \<Rightarrow> time \<Rightarrow> tn_params \<Rightarrow> tn_static \<Rightarrow> oran_data \<Rightarrow> ue_info list \<Rightarrow> gnb_info list \<Rightarrow>
   oran_command list \<times> tn_static \<times> oran_data" where
  "tn_GetHandoverCommands verbose name now p st d ueInfos gnbInfos =
     (let tk = tn_end verbose name now p st d ueInfos gnbInfos
      in (map (OranCommandNr2NrHandover \<circ> snd) (tk_commands tk),
          st\<lparr>lastHoCmdTime := tk_last tk, pendingHoTarget := tk_pending tk,
             lowRsrpBlockUntil := tk_block tk, tttState := tk_ttt tk, m_decisionCsv := tk_csv tk\<rparr>,
          tk_data tk))"

definition tn_GetUeInfos :: "time \<Rightarrow> oran_data \<Rightarrow> ue_info list" where
  "tn_GetUeInfos now d = List.map_filter (GetUeInfo now d) (GetNrUeE2NodeIds d)"

definition tn_GetGnbInfos :: "time \<Rightarrow> oran_data \<Rightarrow> gnb_info list" where
  "tn_GetGnbInfos now d = List.map_filter (GetGnbInfo now d) (GetNrGnbE2NodeIds d)"

definition tn_Run ::
  "bool \<Rightarrow> bool \<Rightarrow> bool \<Rightarrow> string \<Rightarrow> time \<Rightarrow> tn_params \<Rightarrow> tn_static \<Rightarrow> oran_data \<Rightarrow>
   (oran_command list \<times> tn_static \<times> oran_data) res" where
  "tn_Run active ric verbose name now p st d =
     (if active
      then abort_if (\<not> ric) NullNearRtRic
             (Inr (tn_GetHandoverCommands verbose name now p st d (tn_GetUeInfos now d) (tn_GetGnbInfos now d)))
      else Inr ([], st, d))"

section \<open>The search\<close>

lemma SelectPreferredTn_Some:
  assumes "SelectPreferredTn p cur srv cnt cs = Some c"
  shows "c \<in> set cs \<and> fst c \<noteq> cur \<and> \<not> IsNtnCell p (fst c) \<and> CapacityOk p (fst c) cnt \<and>
    tn_better p (IsNtnCell p cur) srv c"
  using assms by (induction cs) (auto split: if_splits)

lemma SelectFallbackNtn_Some:
  assumes "SelectFallbackNtn p cur srv cnt cs = Some c"
  shows "c \<in> set cs \<and> fst c \<noteq> cur \<and> IsNtnCell p (fst c) \<and> CapacityOk p (fst c) cnt \<and>
    ntn_better p (IsNtnCell p cur) srv c"
  using assms by (induction cs) (auto split: if_splits)

text \<open>
  With \<open>TryNextBest\<close> no terrestrial candidate is overlooked; without it the search ends at the first
  sufficient one that is full, and only what comes after that one is overlooked.
\<close>

lemma SelectPreferredTn_None:
  assumes "SelectPreferredTn p cur srv cnt cs = None" and "m_tryNextBest p" and "x \<in> set cs"
    and "fst x \<noteq> cur" and "\<not> IsNtnCell p (fst x)" and "CapacityOk p (fst x) cnt"
  shows "\<not> tn_better p (IsNtnCell p cur) srv x"
  using assms by (induction cs) (auto split: if_splits)

lemma SelectPreferredTn_stops:
  assumes "SelectPreferredTn p cur srv cnt cs = None" and "sorted_wrt (\<lambda>a b. snd a \<ge> snd b) cs" and "x \<in> set cs"
    and "fst x \<noteq> cur" and "\<not> IsNtnCell p (fst x)" and "tn_better p (IsNtnCell p cur) srv x"
  shows "\<exists>y \<in> set cs. fst y \<noteq> cur \<and> \<not> IsNtnCell p (fst y) \<and> snd y \<ge> snd x \<and> \<not> CapacityOk p (fst y) cnt"
  using assms
proof (induction cs)
  case (Cons a cs)
  show ?case
  proof (cases "SelectPreferredTn p cur srv cnt cs = None \<and> x \<in> set cs")
    case True
    with Cons.IH Cons.prems show ?thesis by auto
  next
    case False
    with Cons.prems show ?thesis by (auto split: if_splits)
  qed
qed simp

lemma SelectPreferredTn_strongest:
  assumes "SelectPreferredTn p cur srv cnt cs = Some c" and "sorted_wrt (\<lambda>a b. snd a \<ge> snd b) cs"
    and "x \<in> set cs" and "fst x \<noteq> cur" and "\<not> IsNtnCell p (fst x)" and "snd x > snd c"
  shows "\<not> CapacityOk p (fst x) cnt"
  using assms
proof (induction cs)
  case (Cons a cs)
  have c: "tn_better p (IsNtnCell p cur) srv c" using SelectPreferredTn_Some [OF Cons.prems(1)] by blast
  have x: "tn_better p (IsNtnCell p cur) srv x" using c Cons.prems(6) by (auto simp: tn_better_def split: if_splits)
  show ?case
  proof (cases "x = a")
    case True
    then show ?thesis using Cons.prems x by (auto split: if_splits)
  next
    case False
    have "snd a \<ge> snd x" using Cons.prems(2,3) False by auto
    then have "a \<noteq> c" using Cons.prems(6) by auto
    then have "SelectPreferredTn p cur srv cnt cs = Some c" using Cons.prems(1) by (auto split: if_splits)
    then show ?thesis using Cons.IH Cons.prems False by simp
  qed
qed simp

lemma tn_choose_Target:
  assumes "tn_choose p cur srv cnt cs = Target c"
  shows "c \<in> set cs" and "fst c \<noteq> cur" and "CapacityOk p (fst c) cnt" and "snd c \<ge> m_minAcceptableRsrpDbm p"
    and "if IsNtnCell p (fst c) then ntn_better p (IsNtnCell p cur) srv c else tn_better p (IsNtnCell p cur) srv c"
    and "\<not> IsNtnCell p (fst c) \<Longrightarrow> SelectPreferredTn p cur srv cnt cs = Some c"
    and "IsNtnCell p (fst c) \<Longrightarrow> SelectPreferredTn p cur srv cnt cs = None"
  using assms SelectPreferredTn_Some [of p cur srv cnt cs] SelectFallbackNtn_Some [of p cur srv cnt cs]
  by (auto simp: tn_choose_def tn_select_def split: option.splits if_splits)

section \<open>One iteration of the loop\<close>

definition tn_decision ::
  "time \<Rightarrow> tn_params \<Rightarrow> (cand list \<Rightarrow> cand list) \<Rightarrow> gnb_info list \<Rightarrow> uint64 \<Rightarrow> tn_tick \<Rightarrow> load_choice option" where
  "tn_decision now p srt gnbInfos u tk =
     (let um = tn_collect (GetNrUeRsrpRsrq (tk_data tk) u)
      in if now < m_warmup p \<or> low_blocked now (tk_block tk) u \<or> ue_gated now p (tk_last tk) (tk_pending tk) u \<or>
            um_servingCellId um = 0 \<or> um_servingRnti um = 0 \<or> \<not> IsValidRsrp (um_servingRsrp um) \<or>
            GetServingGnbNodeId gnbInfos (um_servingCellId um) = 0
         then None
         else Some (tn_choose p (um_servingCellId um) (um_servingRsrp um) (tk_count tk)
                      (srt (tn_candidates gnbInfos (um_best um)))))"

lemma tn_ue_skip:
  assumes "tn_decision now p (std_sort st) gnbInfos (ui_nodeId ueInfo) tk = None"
  shows "\<exists>b q. tn_ue verbose name now p st rl gnbInfos ueInfo tk = tk\<lparr>tk_block := b, tk_pending := q\<rparr>"
proof -
  have same: "\<exists>b q. tk = tk\<lparr>tk_block := b, tk_pending := q\<rparr>"
      "\<exists>b q. tk\<lparr>tk_block := x\<rparr> = tk\<lparr>tk_block := b, tk_pending := q\<rparr>"
      "\<exists>b q. tk\<lparr>tk_pending := y, tk_block := x\<rparr> = tk\<lparr>tk_block := b, tk_pending := q\<rparr>" for x y
    by (rule exI [of _ "tk_block tk"], rule exI [of _ "tk_pending tk"], simp)
      (rule exI [of _ x], rule exI [of _ "tk_pending tk"], simp,
       rule exI [of _ x], rule exI [of _ y], simp)
  show ?thesis using assms same by (auto simp: tn_ue_def tn_decision_def Let_def split: if_splits)
qed

lemma tn_ue_decided:
  assumes "tn_decision now p (std_sort st) gnbInfos (ui_nodeId ueInfo) tk = Some ch"
    and "um = tn_collect (GetNrUeRsrpRsrq (tk_data tk) (ui_nodeId ueInfo))"
    and "cands = std_sort st (tn_candidates gnbInfos (um_best um))"
  shows "tn_ue verbose name now p st rl gnbInfos ueInfo tk =
      tn_act verbose name (csv_can_open st) now p rl (ui_nodeId ueInfo)
        (GetServingGnbNodeId gnbInfos (um_servingCellId um)) um cands
        (tk\<lparr>tk_block := smap_del (ui_nodeId ueInfo) (tk_block tk),
           tk_pending := clear_reached (ui_nodeId ueInfo) (um_servingCellId um) (tk_pending tk)\<rparr>)"
    and "tn_choose p (um_servingCellId um) (um_servingRsrp um) (tk_count tk) cands = ch"
  using assms by (auto simp: tn_ue_def tn_decision_def Let_def split: if_splits)

lemma LogAllCandidates_simps [simp]:
  "tk_commands (LogAllCandidates co now p rl u um cs f tk) = tk_commands tk"
  "tk_last (LogAllCandidates co now p rl u um cs f tk) = tk_last tk"
  "tk_pending (LogAllCandidates co now p rl u um cs f tk) = tk_pending tk"
  "tk_count (LogAllCandidates co now p rl u um cs f tk) = tk_count tk"
  "tk_data (LogAllCandidates co now p rl u um cs f tk) = tk_data tk"
  "tk_block (LogAllCandidates co now p rl u um cs f tk) = tk_block tk"
  "tk_ttt (LogAllCandidates co now p rl u um cs f tk) = tk_ttt tk"
  by (simp_all add: LogAllCandidates_def)

lemma tn_emit_simps [simp]:
  "tk_last (tn_emit v n now u g r cur ch tk) = smap_upd u now (tk_last tk)"
  "tk_pending (tn_emit v n now u g r cur ch tk) = smap_upd u ch (tk_pending tk)"
  "tk_count (tn_emit v n now u g r cur ch tk) = count_inc ch (tk_count tk)"
  "tk_commands (tn_emit v n now u g r cur ch tk) = tk_commands tk @
     [(u, \<lparr>cmd_targetE2NodeId = g, cmd_targetCellId = ch, cmd_targetRnti = r\<rparr>)]"
  "tk_ttt (tn_emit v n now u g r cur ch tk) = smap_del u (tk_ttt tk)"
  by (simp_all add: tn_emit_def Let_def)

lemma tn_emit_log: "only_lm_log (tk_data tk) (tk_data (tn_emit v n now u g r cur ch tk))"
  unfolding tn_emit_def Let_def
  by (simp add: only_lm_log_trans [OF only_lm_log_command only_lm_log_action])

text \<open>What an iteration can do to the commands, the counts and the repository.\<close>

definition same_output :: "tn_tick \<Rightarrow> tn_tick \<Rightarrow> bool" where
  "same_output tk tk' \<longleftrightarrow> tk_commands tk' = tk_commands tk \<and> tk_last tk' = tk_last tk \<and>
     tk_count tk' = tk_count tk \<and> tk_data tk' = tk_data tk"

definition tn_emits ::
  "time \<Rightarrow> tn_params \<Rightarrow> (cand list \<Rightarrow> cand list) \<Rightarrow> gnb_info list \<Rightarrow> uint64 \<Rightarrow> tn_tick \<Rightarrow> ue_meas \<Rightarrow> cand \<Rightarrow> bool" where
  "tn_emits now p srt gnbInfos u tk um c \<longleftrightarrow>
     tn_decision now p srt gnbInfos u tk = Some (Target c) \<and>
     um = tn_collect (GetNrUeRsrpRsrq (tk_data tk) u)"

lemma tn_emitsD:
  assumes "tn_emits now p srt gnbInfos u tk um c"
  shows "tn_choose p (um_servingCellId um) (um_servingRsrp um) (tk_count tk)
      (srt (tn_candidates gnbInfos (um_best um))) = Target c"
    and "\<not> now < m_warmup p" and "\<not> ue_gated now p (tk_last tk) (tk_pending tk) u"
    and "um_servingCellId um \<noteq> 0" and "GetServingGnbNodeId gnbInfos (um_servingCellId um) \<noteq> 0"
  using assms by (auto simp: tn_emits_def tn_decision_def Let_def split: if_splits)

lemma tn_ue_cases:
  obtains (quiet) "same_output tk (tn_ue verbose name now p st rl gnbInfos ueInfo tk)"
  | (emit) um c tk1 where "tn_emits now p (std_sort st) gnbInfos (ui_nodeId ueInfo) tk um c"
      "same_output tk tk1"
      "tn_ue verbose name now p st rl gnbInfos ueInfo tk =
         tn_emit verbose name now (ui_nodeId ueInfo)
           (GetServingGnbNodeId gnbInfos (um_servingCellId um)) (um_servingRnti um)
           (um_servingCellId um) (fst c) tk1"
proof (cases "tn_decision now p (std_sort st) gnbInfos (ui_nodeId ueInfo) tk")
  case None
  from tn_ue_skip [OF None, of verbose name rl] show thesis
    by (intro quiet) (auto simp: same_output_def)
next
  case (Some ch)
  define um where "um = tn_collect (GetNrUeRsrpRsrq (tk_data tk) (ui_nodeId ueInfo))"
  note eq = tn_ue_decided [OF Some um_def refl]
  show thesis
  proof (cases "\<exists>c. ch = Target c \<and> \<not> now - ttt_since now (ui_nodeId ueInfo) (fst c) (tk_ttt tk) < m_timeToTrigger p")
    case True
    then obtain c where c: "ch = Target c"
      "\<not> now - ttt_since now (ui_nodeId ueInfo) (fst c) (tk_ttt tk) < m_timeToTrigger p" by blast
    show thesis
      by (rule emit [of um c, OF _ _ trans [OF eq(1)]])
        (use Some c eq(2) in \<open>simp_all add: tn_emits_def um_def tn_act_def Let_def\<close>,
         simp add: same_output_def)
  next
    case False
    then show thesis
      by (intro quiet) (use eq in \<open>cases ch; simp add: tn_act_def Let_def same_output_def\<close>)
  qed
qed

lemma tn_end_induct:
  assumes "P (tn_start now p st d ueInfos gnbInfos)"
    and "\<And>ueInfo tk. ueInfo \<in> set ueInfos \<Longrightarrow> P tk \<Longrightarrow>
      P (tn_ue verbose name now p st (realLoad d ueInfos gnbInfos) gnbInfos ueInfo tk)"
  shows "P (tn_end verbose name now p st d ueInfos gnbInfos)"
proof -
  have "set us \<subseteq> set ueInfos \<Longrightarrow> P tk \<Longrightarrow>
      P (fold (tn_ue verbose name now p st (realLoad d ueInfos gnbInfos) gnbInfos) us tk)" for us tk
    by (induction us arbitrary: tk) (auto intro: assms(2))
  then show ?thesis unfolding tn_end_def using assms(1) by blast
qed

lemma tn_ue_log:
  assumes "only_lm_log d (tk_data tk)"
  shows "only_lm_log d (tk_data (tn_ue verbose name now p st rl gnbInfos ueInfo tk))"
proof (cases rule: tn_ue_cases [of tk verbose name now p st rl gnbInfos ueInfo])
  case (emit um c tk1)
  with assms only_lm_log_trans [OF _ tn_emit_log] show ?thesis by (simp add: same_output_def)
qed (use assms in \<open>simp add: same_output_def\<close>)

lemma tn_end_log: "only_lm_log d (tk_data (tn_end verbose name now p st d ueInfos gnbInfos))"
  by (rule tn_end_induct) (simp_all add: tn_start_def tn_ue_log)

lemma tn_Run_log: "tn_Run active ric verbose name now p st d = Inr (cs, st', d') \<Longrightarrow> only_lm_log d d'"
  by (auto simp: tn_Run_def tn_GetHandoverCommands_def Let_def tn_end_log split: if_splits)

section \<open>The capacity of a cell\<close>

text \<open>The limit of a cell: its own, which may be 0, or the global one, where 0 means none.\<close>

definition tn_limit :: "tn_params \<Rightarrow> uint16 \<Rightarrow> uint32 option" where
  "tn_limit p c =
     (case map_of (m_cellCapacityMap p) c of
        Some cap \<Rightarrow> Some cap
      | None \<Rightarrow> if m_maxUesPerCell p = 0 then None else Some (m_maxUesPerCell p))"

definition tn_room :: "tn_params \<Rightarrow> (uint16 \<times> uint32) list \<Rightarrow> uint16 \<Rightarrow> bool" where
  "tn_room p m c = CapacityOk p c m"

lemma tn_room_iff:
  "tn_room p m c \<longleftrightarrow> map_of m c \<noteq> None \<and> (\<forall>cap. tn_limit p c = Some cap \<longrightarrow> smap_get 0 m c < cap)"
  by (auto simp: tn_room_def CapacityOk_def tn_limit_def smap_get_def split: option.splits)

interpretation tn_cap: capacity_rule "tn_room p" "tn_limit p" for p
proof unfold_locales
  fix m and t c :: uint16
  assume room: "tn_room p m t" "tn_room p (count_inc t m) c"
  show "tn_room p m c"
  proof (cases "c = t")
    case False
    then have "map_of (count_inc t m) c = map_of m c" "smap_get 0 (count_inc t m) c = smap_get 0 m c"
      by (simp_all add: count_inc_def)
    with room(2) show ?thesis by (simp add: tn_room_iff)
  qed (use room(1) in simp)
qed (simp add: tn_room_iff)

lemma tn_start_effective:
  "tk_count (tn_start now p st d ueInfos gnbInfos) =
    fold (\<lambda>kv. tn_cap.reserve p (snd kv)) (cleanup_pending now p st) (realLoad d ueInfos gnbInfos)"
proof -
  have "(\<lambda>(kv :: uint64 \<times> uint16). tn_cap.reserve p (snd kv)) =
      (\<lambda>kv m. if CapacityOk p (snd kv) m then count_inc (snd kv) m else m)"
    by (intro ext) (simp add: tn_cap.reserve_def tn_room_def)
  then show ?thesis by (simp add: tn_start_def tn_effectiveLoad_def)
qed

lemma tn_limits_ue:
  assumes "tn_cap.keeps_limits p m (tk_count tk) (tk_commands tk)"
  shows "tn_cap.keeps_limits p m (tk_count (tn_ue verbose name now p st rl gnbInfos ueInfo tk))
    (tk_commands (tn_ue verbose name now p st rl gnbInfos ueInfo tk))"
proof (cases rule: tn_ue_cases [of tk verbose name now p st rl gnbInfos ueInfo])
  case (emit um c tk1)
  let ?h = "\<lparr>cmd_targetE2NodeId = GetServingGnbNodeId gnbInfos (um_servingCellId um),
      cmd_targetCellId = fst c, cmd_targetRnti = um_servingRnti um\<rparr>"
  have "tn_room p (tk_count tk) (fst c)"
    using tn_choose_Target(3) [OF tn_emitsD(1) [OF emit(1)]] by (simp add: tn_room_def)
  with tn_cap.limits_step [OF assms, of ?h "ui_nodeId ueInfo"] emit(2) show ?thesis
    by (simp add: emit(3) same_output_def)
qed (use assms in \<open>simp add: same_output_def\<close>)

lemma tn_limits_end:
  "tn_cap.keeps_limits p (tk_count (tn_start now p st d ueInfos gnbInfos))
    (tk_count (tn_end verbose name now p st d ueInfos gnbInfos))
    (tk_commands (tn_end verbose name now p st d ueInfos gnbInfos))"
proof (rule tn_end_induct)
  show "tn_cap.keeps_limits p (tk_count (tn_start now p st d ueInfos gnbInfos))
      (tk_count (tn_start now p st d ueInfos gnbInfos)) (tk_commands (tn_start now p st d ueInfos gnbInfos))"
    by (simp add: tn_start_def)
qed (rule tn_limits_ue)

section \<open>The measurements of a UE\<close>

text \<open>The strongest valid measurement of a cell, on any component carrier.\<close>

definition valid_rsrps :: "measurement list \<Rightarrow> uint16 \<Rightarrow> double list" where
  "valid_rsrps ms c =
     map (\<lambda>(rnti, cellId, rsrp, rsrq, isServing, ccId). rsrp)
       (filter (\<lambda>(rnti, cellId, rsrp, rsrq, isServing, ccId). IsValidRsrp rsrp \<and> cellId = c) ms)"

definition valid_strongest :: "measurement list \<Rightarrow> uint16 \<Rightarrow> double option" where
  "valid_strongest ms c = (if valid_rsrps ms c = [] then None else Some (Max (set (valid_rsrps ms c))))"

lemma valid_rsrps_snoc:
  "valid_rsrps (ms @ [(rnti, cellId, rsrp, rsrq, sv, cc)]) c =
     valid_rsrps ms c @ (if IsValidRsrp rsrp \<and> cellId = c then [rsrp] else [])"
  by (simp add: valid_rsrps_def)

lemma valid_strongest_snoc:
  "valid_strongest (ms @ [(rnti, cellId, rsrp, rsrq, sv, cc)]) c =
     (if IsValidRsrp rsrp \<and> cellId = c
      then (case valid_strongest ms c of None \<Rightarrow> Some rsrp | Some b \<Rightarrow> Some (max b rsrp))
      else valid_strongest ms c)"
  by (auto simp: valid_strongest_def valid_rsrps_snoc max.commute)

lemma tn_collect_best:
  "smap_ok (um_best (tn_collect ms)) \<and> map_of (um_best (tn_collect ms)) = valid_strongest ms"
proof (induction ms rule: rev_induct)
  case Nil
  then show ?case by (auto simp: tn_collect_def valid_strongest_def valid_rsrps_def)
next
  case (snoc m ms)
  obtain rnti cellId rsrp rsrq sv cc where m: "m = (rnti, cellId, rsrp, rsrq, sv, cc)" by (cases m)
  have "tn_collect (ms @ [m]) = tn_collect_one m (tn_collect ms)" by (simp add: tn_collect_def)
  then show ?case
    using snoc by (auto simp: m tn_collect_one_def valid_strongest_snoc Let_def fun_eq_iff max_def
        split: option.splits)
qed

lemma tn_best_mem: "(c, r) \<in> set (um_best (tn_collect ms)) \<longleftrightarrow> valid_strongest ms c = Some r"
  using tn_collect_best [of ms] smap_ok_map_of by metis

lemma valid_strongest_valid: "valid_strongest ms c = Some r \<Longrightarrow> IsValidRsrp r"
proof -
  assume a: "valid_strongest ms c = Some r"
  then have "r = Max (set (valid_rsrps ms c))" "set (valid_rsrps ms c) \<noteq> {}"
    by (auto simp: valid_strongest_def split: if_splits)
  then have "r \<in> set (valid_rsrps ms c)" using Max_in by blast
  then show ?thesis by (auto simp: valid_rsrps_def)
qed

section \<open>Why a command is issued\<close>

definition sound_tn_handover ::
  "time \<Rightarrow> tn_params \<Rightarrow> gnb_info list \<Rightarrow> oran_data \<Rightarrow> (uint16 \<times> uint32) list \<Rightarrow> uint64 \<Rightarrow> handover_cmd \<Rightarrow> bool" where
  "sound_tn_handover now p gnbInfos d cnt u h \<longleftrightarrow>
     (let ms = GetNrUeRsrpRsrq d u; um = tn_collect ms; cur = um_servingCellId um;
          srv = um_servingRsrp um; tgt = cmd_targetCellId h
      in m_warmup p \<le> now \<and> cur \<noteq> 0 \<and> tgt \<noteq> cur \<and> CellKnown gnbInfos tgt \<and>
         cmd_targetE2NodeId h = GetServingGnbNodeId gnbInfos cur \<and> cmd_targetE2NodeId h \<noteq> 0 \<and>
         cmd_targetRnti h = um_servingRnti um \<and>
         (\<exists>r. valid_strongest ms tgt = Some r \<and> r \<ge> m_minAcceptableRsrpDbm p \<and>
            (IsNtnCell p tgt \<longrightarrow>
                  ntn_better p (IsNtnCell p cur) srv (tgt, r) \<and>
                  (m_tryNextBest p \<longrightarrow>
                   (\<forall>c r'. valid_strongest ms c = Some r' \<and> CellKnown gnbInfos c \<and> c \<noteq> cur \<and> \<not> IsNtnCell p c \<and>
                      tn_better p (IsNtnCell p cur) srv (c, r') \<longrightarrow> \<not> CapacityOk p c cnt)) \<and>
                  (\<forall>c r'. valid_strongest ms c = Some r' \<and> CellKnown gnbInfos c \<and> c \<noteq> cur \<and> \<not> IsNtnCell p c \<and>
                     tn_better p (IsNtnCell p cur) srv (c, r') \<longrightarrow>
                     (\<exists>c2 r2. valid_strongest ms c2 = Some r2 \<and> CellKnown gnbInfos c2 \<and> c2 \<noteq> cur \<and> \<not> IsNtnCell p c2 \<and>
                        r2 \<ge> r' \<and> \<not> CapacityOk p c2 cnt))) \<and>
            (\<not> IsNtnCell p tgt \<longrightarrow>
                  tn_better p (IsNtnCell p cur) srv (tgt, r) \<and>
                  (\<forall>c r'. valid_strongest ms c = Some r' \<and> CellKnown gnbInfos c \<and> c \<noteq> cur \<and> \<not> IsNtnCell p c \<and>
                     r' > r \<longrightarrow> \<not> CapacityOk p c cnt))))"

definition tn_room_anti :: "tn_params \<Rightarrow> (uint16 \<times> uint32) list \<Rightarrow> (uint16 \<times> uint32) list \<Rightarrow> bool" where
  "tn_room_anti p cnt cnt' \<longleftrightarrow> (\<forall>c. CapacityOk p c cnt' \<longrightarrow> CapacityOk p c cnt)"

lemma sound_tn_handover_mono:
  "sound_tn_handover now p gnbInfos d cnt u h \<Longrightarrow> tn_room_anti p cnt cnt' \<Longrightarrow>
    sound_tn_handover now p gnbInfos d cnt' u h"
  unfolding sound_tn_handover_def tn_room_anti_def Let_def by (elim conjE exE) (intro conjI exI; blast)

lemma tn_room_anti_inc: "CapacityOk p t cnt \<Longrightarrow> tn_room_anti p cnt (count_inc t cnt)"
  using tn_cap.room_before [of p cnt t] unfolding tn_room_anti_def tn_room_def by blast

lemma tn_emits_sound:
  assumes e: "tn_emits now p srt gnbInfos u tk um c" and srt: "sort_ok srt" and log: "only_lm_log d (tk_data tk)"
  shows "sound_tn_handover now p gnbInfos d (tk_count tk) u
    \<lparr>cmd_targetE2NodeId = GetServingGnbNodeId gnbInfos (um_servingCellId um),
     cmd_targetCellId = fst c, cmd_targetRnti = um_servingRnti um\<rparr>"
proof -
  let ?ms = "GetNrUeRsrpRsrq d u" and ?cs = "srt (tn_candidates gnbInfos (um_best um))"
  note ch = tn_emitsD(1) [OF e]
  have um: "um = tn_collect ?ms" using e GetNrUeRsrpRsrq_lm_log [OF log] by (auto simp: tn_emits_def)
  have mem: "x \<in> set ?cs \<longleftrightarrow> CellKnown gnbInfos (fst x) \<and> valid_strongest ?ms (fst x) = Some (snd x)" for x
    unfolding sort_ok_D(1) [OF srt] um tn_candidates_def
    by (cases x) (auto simp: tn_best_mem dest: valid_strongest_valid)
  have ntn: "\<not> CapacityOk p x (tk_count tk)"
    if "IsNtnCell p (fst c)" "m_tryNextBest p" "valid_strongest ?ms x = Some r" "CellKnown gnbInfos x"
      "x \<noteq> um_servingCellId um" "\<not> IsNtnCell p x" "tn_better p (IsNtnCell p (um_servingCellId um)) (um_servingRsrp um) (x, r)"
    for x r
    using SelectPreferredTn_None [OF tn_choose_Target(7) [OF ch that(1)] that(2), of "(x, r)"] that mem [of "(x, r)"]
    by auto
  have stop: "\<exists>c2 r2. valid_strongest ?ms c2 = Some r2 \<and> CellKnown gnbInfos c2 \<and> c2 \<noteq> um_servingCellId um \<and>
      \<not> IsNtnCell p c2 \<and> r2 \<ge> r \<and> \<not> CapacityOk p c2 (tk_count tk)"
    if "IsNtnCell p (fst c)" "valid_strongest ?ms x = Some r" "CellKnown gnbInfos x"
      "x \<noteq> um_servingCellId um" "\<not> IsNtnCell p x" "tn_better p (IsNtnCell p (um_servingCellId um)) (um_servingRsrp um) (x, r)"
    for x r
    using SelectPreferredTn_stops [OF tn_choose_Target(7) [OF ch that(1)] sort_ok_D(2) [OF srt], of "(x, r)"]
      that mem by (metis fst_conv snd_conv)
  have tn: "\<not> CapacityOk p x (tk_count tk)"
    if "\<not> IsNtnCell p (fst c)" "valid_strongest ?ms x = Some r" "CellKnown gnbInfos x"
      "x \<noteq> um_servingCellId um" "\<not> IsNtnCell p x" "r > snd c" for x r
    using SelectPreferredTn_strongest [OF tn_choose_Target(6) [OF ch that(1)] sort_ok_D(2) [OF srt], of "(x, r)"]
      that mem [of "(x, r)"] by simp
  obtain t r where c: "c = (t, r)" by (cases c)
  have "CellKnown gnbInfos t" "valid_strongest ?ms t = Some r"
    using tn_choose_Target(1) [OF ch] mem [of c] by (simp_all add: c)
  with tn_choose_Target(2,4,5) [OF ch] tn_emitsD(2,4,5) [OF e] ntn stop tn show ?thesis
    unfolding sound_tn_handover_def Let_def um [symmetric] c fst_conv snd_conv by (auto split: if_splits)
qed

lemma sound_tn_ue:
  assumes "sort_ok (std_sort st)" and "only_lm_log d (tk_data tk)"
    and "\<forall>(u, h) \<in> set (tk_commands tk). u \<in> U \<and> sound_tn_handover now p gnbInfos d (tk_count tk) u h"
    and "ui_nodeId ueInfo \<in> U"
  shows "\<forall>(u, h) \<in> set (tk_commands (tn_ue verbose name now p st rl gnbInfos ueInfo tk)).
    u \<in> U \<and> sound_tn_handover now p gnbInfos d (tk_count (tn_ue verbose name now p st rl gnbInfos ueInfo tk)) u h"
proof (cases rule: tn_ue_cases [of tk verbose name now p st rl gnbInfos ueInfo])
  case (emit um c tk1)
  have anti: "tn_room_anti p (tk_count tk) (count_inc (fst c) (tk_count tk))"
    by (rule tn_room_anti_inc [OF tn_choose_Target(3) [OF tn_emitsD(1) [OF emit(1)]]])
  have "\<forall>(u, h) \<in> set (tk_commands tk).
      u \<in> U \<and> sound_tn_handover now p gnbInfos d (count_inc (fst c) (tk_count tk)) u h"
    using assms(3) sound_tn_handover_mono [OF _ anti] by blast
  with assms(4) sound_tn_handover_mono [OF tn_emits_sound [OF emit(1) assms(1,2)] anti] emit(2)
  show ?thesis by (auto simp: emit(3) same_output_def)
qed (use assms(3) in \<open>simp add: same_output_def\<close>)

lemma sound_tn_end:
  assumes "sort_ok (std_sort st)"
  shows "\<forall>(u, h) \<in> set (tk_commands (tn_end verbose name now p st d ueInfos gnbInfos)).
    u \<in> ui_nodeId ` set ueInfos \<and>
    sound_tn_handover now p gnbInfos d (tk_count (tn_end verbose name now p st d ueInfos gnbInfos)) u h"
proof -
  let ?P = "\<lambda>tk :: tn_tick. only_lm_log d (tk_data tk) \<and> (\<forall>(u, h) \<in> set (tk_commands tk).
      u \<in> ui_nodeId ` set ueInfos \<and> sound_tn_handover now p gnbInfos d (tk_count tk) u h)"
  have "?P (tn_end verbose name now p st d ueInfos gnbInfos)"
  proof (rule tn_end_induct)
    show "?P (tn_start now p st d ueInfos gnbInfos)" by (simp add: tn_start_def)
  next
    fix ueInfo and tk :: tn_tick
    assume "ueInfo \<in> set ueInfos" and P: "?P tk"
    then have "ui_nodeId ueInfo \<in> ui_nodeId ` set ueInfos" by blast
    with P show "?P (tn_ue verbose name now p st (realLoad d ueInfos gnbInfos) gnbInfos ueInfo tk)"
      by (intro conjI tn_ue_log sound_tn_ue [OF assms]) (erule conjunct1 conjunct2 | assumption)+
  qed
  then show ?thesis by (rule conjunct2)
qed

section \<open>Pacing and the time to trigger\<close>

definition tn_run ::
  "bool \<Rightarrow> string \<Rightarrow> tn_params \<Rightarrow> time \<Rightarrow> ho_input \<Rightarrow> tn_static \<Rightarrow> (uint64 \<times> handover_cmd) list \<times> tn_static" where
  "tn_run verbose name p now i st =
     (case i of (d, ueInfos, gnbInfos) \<Rightarrow>
        (tk_commands (tn_end verbose name now p st d ueInfos gnbInfos),
         fst (snd (tn_GetHandoverCommands verbose name now p st d ueInfos gnbInfos))))"

definition tn_events ::
  "bool \<Rightarrow> string \<Rightarrow> tn_params \<Rightarrow> time \<Rightarrow> ho_input \<Rightarrow> tn_static \<Rightarrow> load_event list" where
  "tn_events verbose name p now i st =
     (case i of (d, ueInfos, gnbInfos) \<Rightarrow>
        run_events (tn_decision now p (std_sort st) gnbInfos)
          (tn_ue verbose name now p st (realLoad d ueInfos gnbInfos) gnbInfos)
          tk_commands now ueInfos (tn_start now p st d ueInfos gnbInfos))"

lemma tn_GetHandoverCommands_static:
  "fst (snd (tn_GetHandoverCommands verbose name now p st d ueInfos gnbInfos)) =
     (let tk = tn_end verbose name now p st d ueInfos gnbInfos
      in st\<lparr>lastHoCmdTime := tk_last tk, pendingHoTarget := tk_pending tk,
            lowRsrpBlockUntil := tk_block tk, tttState := tk_ttt tk, m_decisionCsv := tk_csv tk\<rparr>)"
  by (simp add: tn_GetHandoverCommands_def Let_def)

interpretation tn_loop: handover_loop
  "tn_ue verbose name now p st rl gnbInfos" tk_commands tk_last now "m_minHoInterval p"
  for verbose name now p st rl gnbInfos
proof unfold_locales
  fix ue and t :: tn_tick
  let ?t = "tn_ue verbose name now p st rl gnbInfos ue t"
  show "tk_commands ?t = tk_commands t \<and> tk_last ?t = tk_last t \<or>
    (\<exists>h. tk_commands ?t = tk_commands t @ [(ui_nodeId ue, h)] \<and>
       tk_last ?t = smap_upd (ui_nodeId ue) now (tk_last t) \<and>
       (\<forall>s. map_of (tk_last t) (ui_nodeId ue) = Some s \<longrightarrow> m_minHoInterval p \<le> now - s))"
  proof (cases rule: tn_ue_cases [of t verbose name now p st rl gnbInfos ue])
    case (emit um c tk1)
    then show ?thesis using tn_emitsD(3) [OF emit(1)] by (auto simp: same_output_def ue_gated_def)
  qed (simp add: same_output_def)
qed

interpretation tn_module: handover_module "tn_run verbose name p" lastHoCmdTime "m_minHoInterval p"
  for verbose name p
proof unfold_locales
  fix es and st :: tn_static and now :: time and i :: ho_input
  assume pre: "paced (m_minHoInterval p) es" "remembered es (lastHoCmdTime st)" "\<forall>e\<in>set es. fst e \<le> now"
  obtain d ueInfos gnbInfos where i: "i = (d, ueInfos, gnbInfos)" by (cases i)
  have "tn_loop.paced_upto now p es (tn_start now p st d ueInfos gnbInfos)"
    using pre(1,2) by (simp add: tn_loop.paced_upto_def tn_start_def)
  from tn_loop.paced_steps [OF this pre(3), of verbose name st "realLoad d ueInfos gnbInfos" gnbInfos ueInfos]
  show "paced (m_minHoInterval p) (es @ map (Pair now) (fst (tn_run verbose name p now i st))) \<and>
    remembered (es @ map (Pair now) (fst (tn_run verbose name p now i st)))
      (lastHoCmdTime (snd (tn_run verbose name p now i st)))"
    by (simp add: tn_loop.paced_upto_def tn_run_def i tn_GetHandoverCommands_static Let_def tn_end_def)
qed

interpretation tn_trigger: trigger_loop
  "tn_decision now p (std_sort st) gnbInfos" "tn_ue verbose name now p st rl gnbInfos" tk_commands tk_ttt now
  "m_timeToTrigger p"
  for verbose name now p st rl gnbInfos
proof unfold_locales
  fix ue :: ue_info and t :: tn_tick
  assume "tn_decision now p (std_sort st) gnbInfos (ui_nodeId ue) t = None"
  from tn_ue_skip [OF this, of verbose name rl] show
    "tk_commands (tn_ue verbose name now p st rl gnbInfos ue t) = tk_commands t \<and>
     tk_ttt (tn_ue verbose name now p st rl gnbInfos ue t) = tk_ttt t" by auto
next
  fix ue :: ue_info and t :: tn_tick and ch
  assume d: "tn_decision now p (std_sort st) gnbInfos (ui_nodeId ue) t = Some ch" and ch: "\<forall>c. ch \<noteq> Target c"
  show "tk_commands (tn_ue verbose name now p st rl gnbInfos ue t) = tk_commands t \<and>
     tk_ttt (tn_ue verbose name now p st rl gnbInfos ue t) = smap_del (ui_nodeId ue) (tk_ttt t)"
    using tn_ue_decided [OF d refl refl] ch by (cases ch) (simp_all add: Let_def tn_act_def)
next
  fix ue :: ue_info and t :: tn_tick and c
  assume d: "tn_decision now p (std_sort st) gnbInfos (ui_nodeId ue) t = Some (Target c)"
  show "if now - ttt_since now (ui_nodeId ue) (fst c) (tk_ttt t) < m_timeToTrigger p
     then tk_commands (tn_ue verbose name now p st rl gnbInfos ue t) = tk_commands t \<and>
       tk_ttt (tn_ue verbose name now p st rl gnbInfos ue t) = ttt_restart now (ui_nodeId ue) (fst c) (tk_ttt t)
     else \<exists>h. tk_commands (tn_ue verbose name now p st rl gnbInfos ue t) = tk_commands t @ [(ui_nodeId ue, h)] \<and>
       cmd_targetCellId h = fst c \<and> tk_ttt (tn_ue verbose name now p st rl gnbInfos ue t) =
         smap_del (ui_nodeId ue) (ttt_restart now (ui_nodeId ue) (fst c) (tk_ttt t))"
    using tn_ue_decided [OF d refl refl] by (simp add: Let_def tn_act_def)
qed

interpretation tn_ttt: trigger_module "tn_events verbose name p" "tn_run verbose name p" tttState
  "m_timeToTrigger p"
  for verbose name p
proof unfold_locales
  fix es and st :: tn_static and now and i :: ho_input
  assume pre: "0 < m_timeToTrigger p" "ttt_inv es (tttState st)" "log_ok (m_timeToTrigger p) es"
  obtain d ueInfos gnbInfos where i: "i = (d, ueInfos, gnbInfos)" by (cases i)
  have "ttt_inv es (tk_ttt (tn_start now p st d ueInfos gnbInfos))" using pre(2) by (simp add: tn_start_def)
  from tn_trigger.steps_ttt [OF this pre(3,1)]
  show "ttt_inv (es @ tn_events verbose name p now i st) (tttState (snd (tn_run verbose name p now i st))) \<and>
      log_ok (m_timeToTrigger p) (es @ tn_events verbose name p now i st)"
    by (simp add: i tn_events_def tn_run_def tn_GetHandoverCommands_static Let_def tn_end_def)
next
  fix now and i :: ho_input and st :: tn_static
  obtain d ueInfos gnbInfos where i: "i = (d, ueInfos, gnbInfos)" by (cases i)
  show "map (Pair now) (fst (tn_run verbose name p now i st)) = log_commands (tn_events verbose name p now i st)"
    using tn_trigger.steps_commands [of now verbose name p st "realLoad d ueInfos gnbInfos" gnbInfos ueInfos
        "tn_start now p st d ueInfos gnbInfos"]
    by (simp add: i tn_events_def tn_run_def tn_end_def tn_start_def)
qed

lemma tn_handover_pacing:
  "sorted (map fst runs) \<Longrightarrow> paced (m_minHoInterval p) (history (tn_run verbose name p) st runs)"
  by (rule tn_module.paced_history)

section \<open>A concrete run\<close>

text \<open>The scenario of \<open>Lm_Rsrp\<close>, where cell 2 is an NTN cell for ten UEs and the file can be opened.\<close>

definition ex_tn_params :: tn_params where
  "ex_tn_params = SetDecisionCsvFilename ''d.csv''
     (SetCellIsNtn 2 True (tn_SetCellCapacity 2 10 OranLmNr2NrRsrpHandoverWithTnNtn))"

definition ex_tn_static :: tn_static where
  "ex_tn_static = \<lparr>lastHoCmdTime = [], pendingHoTarget = [], std_sort = sort_key (\<lambda>c. - snd c),
     lowRsrpBlockUntil = [], tttState = [], m_decisionCsv = \<lparr>csv_is_open = False, csv_lines = []\<rparr>,
     csv_can_open = (\<lambda>_. True)\<rparr>"

definition ex_row :: "time \<Rightarrow> uint16 \<Rightarrow> decision_row" where
  "ex_row now c = \<lparr>dr_time = now, dr_ueId = 1, dr_rnti = 5, dr_servingCell = 1, dr_servingRsrp = -100,
     dr_candidateCell = 2, dr_candidateRsrp = -80, dr_candidateLoad = 0, dr_candidateEffLoad = 0,
     dr_candidateCap = 10, dr_candidateIsNtn = True, dr_backhaulDlSnr = -999, dr_backhaulUlSnr = -999,
     dr_finalChosenCell = c\<rparr>"

definition ex_tn_waiting :: tn_static where
  "ex_tn_waiting = ex_tn_static\<lparr>tttState := [(1, 2, 3000000000)],
     m_decisionCsv := \<lparr>csv_is_open = True, csv_lines = [Csv_Header, Csv_Row (ex_row 3000000000 0)]\<rparr>\<rparr>"

lemma ex_tn_collect:
  "tn_collect [(5, 1, -100, 0, True, 0), (5, 2, -80, 0, False, 0)] =
     \<lparr>um_servingRsrp = -100, um_servingCellId = 1, um_servingRnti = 5, um_best = [(1, -100), (2, -80)]\<rparr>"
  using DBL_MAX_ge by (simp add: tn_collect_def tn_collect_one_def IsValidRsrp_def)

lemmas ex_tn_simps = tn_end_def tn_start_def tn_ue_def ex_ues_def ex_gnbs_def ex_measurements
  ex_tn_collect Let_def ue_gated_def low_blocked_def ex_tn_params_def SetDecisionCsvFilename_def SetCellIsNtn_def
  tn_SetCellCapacity_def OranLmNr2NrRsrpHandoverWithTnNtn_def cleanup_pending_def tn_effectiveLoad_def
  realLoad_def count_ue_def counted_cell_def count_inc_def smap_get_def tn_candidates_def CellKnown_def
  GetServingGnbNodeId_def GetCellCap_def tn_act_def tn_choose_def tn_select_def ttt_since_def ttt_restart_def
  smap_del_def ex_command_def tn_run_def tn_GetHandoverCommands_def ex_tn_static_def tn_emit_def IsValidRsrp_def
  log_rsrp_def clear_reached_def IsNtnCell_def CapacityOk_def ntn_better_def tn_better_def LogAllCandidates_def
  LogDecisionRow_def EnsureDecisionCsvOpen_def ex_row_def ex_tn_waiting_def

lemma ex_tn_second:
  "tk_commands (tn_end False [] 5000000000 ex_tn_params ex_tn_waiting ex_data ex_ues ex_gnbs) = [(1, ex_command)]"
  by (simp add: ex_tn_simps)

section \<open>Properties\<close>

lemma tn_commands_mem:
  "OranCommandNr2NrHandover h \<in> set (fst (tn_GetHandoverCommands verbose name now p st d ueInfos gnbInfos)) \<longleftrightarrow>
    h \<in> snd ` set (tk_commands (tn_end verbose name now p st d ueInfos gnbInfos))"
  by (auto simp: tn_GetHandoverCommands_def Let_def)

lemma tn_commands_to_cell:
  "length (filter (to_cell c) (fst (tn_GetHandoverCommands verbose name now p st d ueInfos gnbInfos))) =
    issued_to c (tk_commands (tn_end verbose name now p st d ueInfos gnbInfos))"
  by (simp add: tn_GetHandoverCommands_def Let_def issued_to_def filter_map comp_def to_cell_def)

text \<open>
  A run of the TN/NTN module never overfills a cell with a limit of its own or, without one, under the
  global limit: the UEs it serves, the handovers pending to it and the commands of the run to it are
  together at most the limit. In particular a cell whose own limit is 0 gets no command.
\<close>

lemma tn_capacity:
  assumes "length ueInfos + length (pendingHoTarget st) < 2 ^ 32"
    and "OranCommandNr2NrHandover h \<in>
      set (fst (tn_GetHandoverCommands verbose name now p st d ueInfos gnbInfos))"
    and "tn_limit p (cmd_targetCellId h) = Some cap"
  shows "cell_load d ueInfos (cleanup_pending now p st) (cmd_targetCellId h) +
      length (filter (to_cell (cmd_targetCellId h))
        (fst (tn_GetHandoverCommands verbose name now p st d ueInfos gnbInfos))) \<le> unat cap \<and> cap \<noteq> 0"
proof -
  obtain u where mem: "(u, h) \<in> set (tk_commands (tn_end verbose name now p st d ueInfos gnbInfos))"
    using assms(2) unfolding tn_commands_mem by auto
  then have "0 < length (filter (to_cell (cmd_targetCellId h))
      (fst (tn_GetHandoverCommands verbose name now p st d ueInfos gnbInfos)))"
    unfolding tn_commands_to_cell issued_to_def by (force simp: filter_empty_conv)
  moreover have "cell_load d ueInfos (cleanup_pending now p st) (cmd_targetCellId h) +
      length (filter (to_cell (cmd_targetCellId h))
        (fst (tn_GetHandoverCommands verbose name now p st d ueInfos gnbInfos))) \<le> unat cap"
    using tn_cap.limits_end [OF tn_limits_end [unfolded tn_start_effective] assms(1) mem assms(3)]
    unfolding tn_commands_to_cell .
  ultimately show ?thesis by auto
qed

text \<open>
  C16: Every command of the TN/NTN module is justified by the newest valid measurements of a UE of the run.
  A terrestrial target beats the serving cell by the margin for the kind of serving cell, and every stronger
  terrestrial cell is full. A non-terrestrial target is a fallback. With \<open>TryNextBest\<close>, every terrestrial
  cell that would have been good enough is full. Without it, the search ends at the first full one, so a terrestrial
  cell that would have been good enough is passed over only if it or one at least as strong is full. No target is
  below the smallest acceptable RSRP.
\<close>

theorem tn_handover_preference:
  assumes "sort_ok (std_sort st)"
    and "OranCommandNr2NrHandover h \<in>
      set (fst (tn_GetHandoverCommands verbose name now p st d ueInfos gnbInfos))"
  shows "\<exists>u\<in>ui_nodeId ` set ueInfos. sound_tn_handover now p gnbInfos d
    (tk_count (tn_end verbose name now p st d ueInfos gnbInfos)) u h"
  using assms(2) sound_tn_end [OF assms(1)] unfolding tn_commands_mem by fastforce

theorem tn_handover_preference_witness:
  "\<exists>u\<in>ui_nodeId ` set ex_ues. sound_tn_handover 5000000000 ex_tn_params ex_gnbs ex_data
    (tk_count (tn_end False [] 5000000000 ex_tn_params ex_tn_waiting ex_data ex_ues ex_gnbs)) u ex_command"
proof (rule tn_handover_preference)
  show "sort_ok (std_sort ex_tn_waiting)" by (simp add: ex_tn_waiting_def ex_tn_static_def sort_ok_sort_key)
  show "OranCommandNr2NrHandover ex_command \<in> set (fst (tn_GetHandoverCommands False []
      5000000000 ex_tn_params ex_tn_waiting ex_data ex_ues ex_gnbs))"
    by (simp add: tn_commands_mem ex_tn_second)
qed

text \<open>The time to trigger holds as for the cell-load module.\<close>

lemma tn_time_to_trigger:
  assumes "tttState st = []" and "0 < m_timeToTrigger p"
    and "(now, u, h) \<in> set (history (tn_run verbose name p) st runs)"
  shows "\<exists>xs ch ys t. module_log (tn_events verbose name p) (tn_run verbose name p) st runs =
      xs @ (now, u, ch, Some h) # ys \<and>
    streak xs u (cmd_targetCellId h) t \<and> m_timeToTrigger p \<le> now - t"
  using assms by (rule tn_ttt.time_to_trigger)

end
