(* ===== verification/Lm_Secrecy.thy ===== *)
theory Lm_Secrecy
  imports Lm_Lte
begin

text \<open>
  The logic module \<open>OranLmNrSecrecyAwareHandover\<close> (\<open>oran-lm-nr-secrecy-aware-handover.cc\<close>): a UE
  is handed to a stronger cell only if the estimated secrecy capacity there is large enough; when the
  serving cell is in outage, the module looks for the cell with the largest secrecy capacity instead.
  What an eavesdropper hears is taken from the repository, from a risk map read from a file, or fixed. The
  lines of a file, or that it cannot be opened, are the field \<open>sec_read_file\<close>. A chosen cell that no
  known gNB serves ends the simulation. The attributes the command class does not have
  (\<open>SourceE2NodeId\<close> and others) are not set by \<open>SetUintegerAttrIfExists\<close>.
\<close>

section \<open>Attributes and state\<close>

record sec_params =
  sp_hysteresisDb :: double
  sp_rsrpThresholdDb :: double
  sp_warmup :: time
  sp_minHoInterval :: time
  sp_hoAttemptTimeout :: time
  sp_secrecyRateThr :: double
  sp_eavSinrDb :: double
  sp_requireSinr :: bool
  sp_leakageModel :: string
  sp_riskMapFile :: string
  sp_riskMinEavSinrDb :: double
  sp_riskMaxEavSinrDb :: double

definition OranLmNrSecrecyAwareHandover :: sec_params where
  "OranLmNrSecrecyAwareHandover =
     \<lparr>sp_hysteresisDb = 2, sp_rsrpThresholdDb = 2, sp_warmup = 2000000000, sp_minHoInterval = 2000000000,
      sp_hoAttemptTimeout = 2000000000, sp_secrecyRateThr = 0, sp_eavSinrDb = - 5, sp_requireSinr = True,
      sp_leakageModel = ''oracle'', sp_riskMapFile = [], sp_riskMinEavSinrDb = - 15,
      sp_riskMaxEavSinrDb = 5\<rparr>"

text \<open>
  The two static maps of \<open>GetHandoverCommands\<close>, the order \<open>std::sort\<close> gives, the two members for the
  risk map, and what the file system holds.
\<close>

record sec_static =
  ss_lastHoCmdTime :: "(uint64 \<times> time) list"
  ss_pendingHoTarget :: "(uint64 \<times> uint16) list"
  ss_sort :: "cand list \<Rightarrow> cand list"
  ss_riskMapLoaded :: bool
  ss_cellRisk :: "(uint16 \<times> double) list"
  sec_read_file :: "string \<Rightarrow> string list option"

section \<open>The risk map\<close>

text \<open>
  Extraction from an \<open>istringstream\<close>: white space is skipped; an integer has an optional sign and
  digits, and a negative value wraps around; a number has digits with an optional decimal point and an
  optional exponent. A value out of range, or no digits where digits are due, fails.
\<close>

definition is_space :: "char \<Rightarrow> bool" where
  "is_space c \<longleftrightarrow> c = CHR '' '' \<or> c \<in> {CHR 0x09, CHR 0x0A, CHR 0x0B, CHR 0x0C, CHR 0x0D}"

fun extract_sign :: "string \<Rightarrow> bool \<times> string" where
  "extract_sign [] = (False, [])"
| "extract_sign (c # s) =
     (if c = CHR ''-'' then (True, s) else if c = CHR ''+'' then (False, s) else (False, c # s))"

definition extract_uint16 :: "string \<Rightarrow> (uint16 \<times> string) option" where
  "extract_uint16 s =
     (case extract_sign (dropWhile is_space s) of (neg, s1) \<Rightarrow>
        let ds = takeWhile is_digit s1; n = read_nat ds
        in if ds = [] \<or> n > 65535 then None
           else Some (if neg then - of_nat n else of_nat n, dropWhile is_digit s1))"

definition extract_exponent :: "string \<Rightarrow> (bool \<times> nat \<times> string) option" where
  "extract_exponent s =
     (case s of
        [] \<Rightarrow> Some (False, 0, [])
      | c # s1 \<Rightarrow>
          if c = CHR ''e'' \<or> c = CHR ''E''
          then (case extract_sign s1 of (neg, s2) \<Rightarrow>
                  let ds = takeWhile is_digit s2
                  in if ds = [] then None else Some (neg, read_nat ds, dropWhile is_digit s2))
          else Some (False, 0, s))"

definition extract_double :: "string \<Rightarrow> (double \<times> string) option" where
  "extract_double s =
     (case extract_sign (dropWhile is_space s) of (neg, s1) \<Rightarrow>
        let ip = takeWhile is_digit s1; s2 = dropWhile is_digit s1;
            dot = (s2 \<noteq> [] \<and> hd s2 = CHR ''.'');
            fp = (if dot then takeWhile is_digit (tl s2) else []);
            s3 = (if dot then dropWhile is_digit (tl s2) else s2)
        in if ip = [] \<and> fp = [] then None
           else case extract_exponent s3 of
                  None \<Rightarrow> None
                | Some (eneg, e, s4) \<Rightarrow>
                    let m = real (read_nat (ip @ fp)) / 10 ^ length fp;
                        v = (if eneg then m / 10 ^ e else m * 10 ^ e)
                    in if v > DBL_MAX then None else Some (if neg then - v else v, s4))"

definition risk_line :: "string \<Rightarrow> (uint16 \<times> double) list \<Rightarrow> (uint16 \<times> double) list" where
  "risk_line line m =
     (if line = [] \<or> hd line = CHR ''#'' then m
      else case extract_uint16 line of
             None \<Rightarrow> m
           | Some (cellId, rest) \<Rightarrow>
               (case extract_double rest of
                  None \<Rightarrow> m
                | Some (risk, _) \<Rightarrow> smap_upd cellId (max 0 (min 1 risk)) m))"

definition LoadRiskMapIfNeeded :: "sec_params \<Rightarrow> sec_static \<Rightarrow> sec_static" where
  "LoadRiskMapIfNeeded p st =
     (if ss_riskMapLoaded st then st
      else let st1 = st\<lparr>ss_riskMapLoaded := True, ss_cellRisk := []\<rparr>
           in if sp_riskMapFile p = [] then st1
              else case sec_read_file st (sp_riskMapFile p) of
                     None \<Rightarrow> st1
                   | Some lines \<Rightarrow> st1\<lparr>ss_cellRisk := fold risk_line lines []\<rparr>)"

section \<open>Secrecy\<close>

definition DbToLin :: "double \<Rightarrow> double" where
  "DbToLin db = 10 powr (db / 10)"

definition SecrecyCapacity :: "double \<Rightarrow> double \<Rightarrow> double" where
  "SecrecyCapacity gbLin geLin =
     (let gb = max 0 gbLin; ge = max 0 geLin; cb = log 2 (1 + gb); ce = log 2 (1 + ge)
      in max 0 (cb - ce))"

definition GetServingDlDataSinrLin :: "oran_data \<Rightarrow> uint64 \<Rightarrow> uint16 \<Rightarrow> uint16 \<Rightarrow> bool \<times> double" where
  "GetServingDlDataSinrLin d ue servingCellId servingRnti =
     (case List.find (\<lambda>(rnti, cellId, bwpId, sinrLin, sinrDb, isCtrl).
                        \<not> isCtrl \<and> bwpId = 0 \<and> cellId = servingCellId \<and> rnti = servingRnti) (GetNrUeSinr d ue) of
        Some (rnti, cellId, bwpId, sinrLin, sinrDb, isCtrl) \<Rightarrow> (sinrLin > 0, sinrLin)
      | None \<Rightarrow> (False, - 1))"

text \<open>The newest data SINR of one eavesdropper for a cell, and its first control SINR before that.\<close>

fun eve_local ::
  "uint16 \<Rightarrow> double option \<Rightarrow> (uint16 \<times> uint16 \<times> double \<times> double \<times> bool) list \<Rightarrow> double option \<times> double option" where
  "eve_local cellId ctrl [] = (None, ctrl)"
| "eve_local cellId ctrl ((recCellId, bwpId, sinrLin, sinrDb, isCtrl) # recs) =
     (if bwpId \<noteq> 0 \<or> recCellId \<noteq> cellId then eve_local cellId ctrl recs
      else if \<not> isCtrl then (Some sinrLin, ctrl)
      else eve_local cellId (if ctrl = None then Some sinrLin else ctrl) recs)"

record eve_scan =
  es_bestData :: double
  es_foundData :: bool
  es_bestCtrl :: double
  es_foundCtrl :: bool

definition eve_step :: "oran_data \<Rightarrow> uint16 \<Rightarrow> uint64 \<Rightarrow> eve_scan \<Rightarrow> eve_scan" where
  "eve_step d cellId eveId s =
     (case eve_local cellId None (GetNrEveSinr d eveId) of
        (Some x, _) \<Rightarrow> s\<lparr>es_bestData := max (es_bestData s) x, es_foundData := True\<rparr>
      | (None, Some x) \<Rightarrow> s\<lparr>es_bestCtrl := max (es_bestCtrl s) x, es_foundCtrl := True\<rparr>
      | (None, None) \<Rightarrow> s)"

definition GetWorstEveSinrLinForCell :: "oran_data \<Rightarrow> uint16 \<Rightarrow> bool \<times> double" where
  "GetWorstEveSinrLinForCell d cellId =
     (let s = fold (eve_step d cellId) (GetNrEveNodeIds d)
                \<lparr>es_bestData = 0, es_foundData = False, es_bestCtrl = 0, es_foundCtrl = False\<rparr>
      in if es_foundData s then (True, es_bestData s)
         else if es_foundCtrl s then (True, es_bestCtrl s)
         else (False, 0))"

definition riskToGe :: "sec_params \<Rightarrow> (uint16 \<times> double) list \<Rightarrow> uint16 \<Rightarrow> double" where
  "riskToGe p risks cId =
     (let risk = smap_get 1 risks cId
      in DbToLin (sp_riskMinEavSinrDb p + risk * (sp_riskMaxEavSinrDb p - sp_riskMinEavSinrDb p)))"

definition GetLeakageSinrLinForCell ::
  "sec_params \<Rightarrow> (uint16 \<times> double) list \<Rightarrow> oran_data \<Rightarrow> uint16 \<Rightarrow> bool \<times> double" where
  "GetLeakageSinrLinForCell p risks d cellId =
     (if sp_leakageModel p = ''fixed'' then (True, DbToLin (sp_eavSinrDb p))
      else if sp_leakageModel p = ''riskmap'' then (True, riskToGe p risks cellId)
      else if sp_leakageModel p = ''oracle''
      then (case GetWorstEveSinrLinForCell d cellId of
              (ok, ge) \<Rightarrow> if \<not> ok then (False, DbToLin (sp_eavSinrDb p)) else (True, ge))
      else if sp_leakageModel p = ''hybrid''
      then (case GetWorstEveSinrLinForCell d cellId of
              (haveOracle, geOracle) \<Rightarrow>
                let ge = max (DbToLin (sp_eavSinrDb p)) (riskToGe p risks cellId)
                in (haveOracle, if haveOracle then max ge geOracle else ge))
      else (True, DbToLin (sp_eavSinrDb p)))"

section \<open>The decision for one UE\<close>

definition kEps :: double where
  "kEps = 1 / 1000000"

definition kOutageMinRsrpGainDb :: double where
  "kOutageMinRsrpGainDb = 1 / 10"

record sec_meas =
  sm_servingRsrp :: double
  sm_servingCellId :: uint16
  sm_servingRnti :: uint16
  sm_cands :: "cand list"

definition sec_collect_one :: "measurement \<Rightarrow> sec_meas \<Rightarrow> sec_meas" where
  "sec_collect_one m s =
     (case m of (rnti, cellId, rsrp, rsrq, isServingCell, ccId) \<Rightarrow>
        if ccId \<noteq> 0 then s
        else let s1 = s\<lparr>sm_cands := sm_cands s @ [(cellId, rsrp)]\<rparr>
             in if isServingCell
                then s1\<lparr>sm_servingRsrp := rsrp, sm_servingCellId := cellId, sm_servingRnti := rnti\<rparr>
                else s1)"

definition sec_collect :: "measurement list \<Rightarrow> sec_meas" where
  "sec_collect ms =
     fold sec_collect_one ms
       \<lparr>sm_servingRsrp = - DBL_MAX, sm_servingCellId = 0, sm_servingRnti = 0, sm_cands = []\<rparr>"

text \<open>What the decision knows of the serving cell: its RSRP, the SINR of the UE and of the eavesdropper.\<close>

record serving =
  sv_cellId :: uint16
  sv_rsrp :: double
  sv_sinrLin :: double
  sv_geLin :: double

definition secrecyOk :: "sec_params \<Rightarrow> double \<Rightarrow> bool" where
  "secrecyOk p cs = (if sp_secrecyRateThr p \<le> 0 then cs > 0 else cs \<ge> sp_secrecyRateThr p)"

definition currentCs :: "serving \<Rightarrow> double" where
  "currentCs sv = SecrecyCapacity (sv_sinrLin sv) (sv_geLin sv)"

definition currentOutage :: "sec_params \<Rightarrow> serving \<Rightarrow> bool" where
  "currentOutage p sv =
     (if sp_secrecyRateThr p \<le> 0 then currentCs sv \<le> 0 else currentCs sv < sp_secrecyRateThr p)"

text \<open>
  The estimated secrecy capacity of a candidate, given what is known of the eavesdropper there: if
  nothing, the eavesdropper is taken to be at least as good as at the serving cell.
\<close>

definition candidate_cs :: "sec_params \<Rightarrow> serving \<Rightarrow> (uint16 \<Rightarrow> bool \<times> double) \<Rightarrow> cand \<Rightarrow> double" where
  "candidate_cs p sv eve c =
     (let gainDb = snd c - sv_rsrp sv; gbLin = sv_sinrLin sv * DbToLin gainDb
      in case eve (fst c) of (haveEve, ge) \<Rightarrow>
           SecrecyCapacity gbLin (if \<not> haveEve then max (sv_geLin sv) (DbToLin (sp_eavSinrDb p)) else ge))"

fun normal_choice :: "sec_params \<Rightarrow> serving \<Rightarrow> (uint16 \<Rightarrow> bool \<times> double) \<Rightarrow> cand list \<Rightarrow> uint16" where
  "normal_choice p sv eve [] = sv_cellId sv"
| "normal_choice p sv eve (c # cs) =
     (if fst c = sv_cellId sv then normal_choice p sv eve cs
      else if \<not> snd c - sv_rsrp sv > max (sp_hysteresisDb p) (sp_rsrpThresholdDb p) then normal_choice p sv eve cs
      else if \<not> secrecyOk p (candidate_cs p sv eve c) then normal_choice p sv eve cs
      else fst c)"

type_synonym best = "uint16 \<times> double \<times> double"

definition outage_step :: "sec_params \<Rightarrow> serving \<Rightarrow> (uint16 \<Rightarrow> bool \<times> double) \<Rightarrow> cand \<Rightarrow> best \<Rightarrow> best" where
  "outage_step p sv eve c b =
     (case b of (bestCellId, bestRsrp, bestCs) \<Rightarrow>
        if fst c = sv_cellId sv then b
        else let cs = candidate_cs p sv eve c
             in if cs > bestCs + kEps \<or> (\<bar>cs - bestCs\<bar> \<le> kEps \<and> snd c > bestRsrp + kEps)
                then (fst c, snd c, cs) else b)"

definition outage_choice :: "sec_params \<Rightarrow> serving \<Rightarrow> (uint16 \<Rightarrow> bool \<times> double) \<Rightarrow> cand list \<Rightarrow> uint16" where
  "outage_choice p sv eve cs =
     (case fold (outage_step p sv eve) cs (sv_cellId sv, sv_rsrp sv, currentCs sv) of
        (bestCellId, bestRsrp, bestCs) \<Rightarrow>
          if bestCellId \<noteq> sv_cellId sv \<and>
             (bestCs > currentCs sv + kEps \<or> bestRsrp > sv_rsrp sv + kOutageMinRsrpGainDb)
          then bestCellId else sv_cellId sv)"

section \<open>One run of the module\<close>

record sec_tick =
  st_last :: "(uint64 \<times> time) list"
  st_pending :: "(uint64 \<times> uint16) list"
  st_commands :: "(uint64 \<times> handover_cmd) list"
  st_data :: oran_data

definition sec_emit ::
  "bool \<Rightarrow> string \<Rightarrow> time \<Rightarrow> gnb_info list \<Rightarrow> uint64 \<Rightarrow> uint64 \<Rightarrow> uint16 \<Rightarrow> uint16 \<Rightarrow> uint16 \<Rightarrow> sec_tick \<Rightarrow> sec_tick res" where
  "sec_emit verbose name now gnbInfos u oldCellNodeId rnti cur chosen tk =
     abort_if (GetServingGnbNodeId gnbInfos chosen = 0) NoGnbForCell
       (let h = \<lparr>cmd_targetE2NodeId = oldCellNodeId, cmd_targetCellId = chosen, cmd_targetRnti = rnti\<rparr>;
            d1 = LogCommandLm now name (OranCommandNr2NrHandover h) (st_data tk)
        in Inr (tk\<lparr>st_commands := st_commands tk @ [(u, h)],
                  st_last := smap_upd u now (st_last tk),
                  st_pending := smap_upd u chosen (st_pending tk),
                  st_data := log_rsrp verbose name now
                    (''HO(secrecy) t='' @ seconds_to_string now @ '' UE='' @ show_uint64 u @
                     '' rnti='' @ show_cell rnti @ '' '' @ show_cell cur @ ''->'' @ show_cell chosen) d1\<rparr>))"

text \<open>What is known of the serving cell of a UE; nothing when the SINR is required and not known.\<close>

definition serving_of ::
  "sec_params \<Rightarrow> (uint16 \<times> double) list \<Rightarrow> oran_data \<Rightarrow> uint64 \<Rightarrow> sec_meas \<Rightarrow> serving option" where
  "serving_of p risks d u sm =
     (case GetServingDlDataSinrLin d u (sm_servingCellId sm) (sm_servingRnti sm) of
        (hasSinr, sinr) \<Rightarrow>
          if \<not> hasSinr \<and> sp_requireSinr p then None
          else (case GetLeakageSinrLinForCell p risks d (sm_servingCellId sm) of
                  (haveEve, ge) \<Rightarrow>
                    Some \<lparr>sv_cellId = sm_servingCellId sm, sv_rsrp = sm_servingRsrp sm,
                          sv_sinrLin = (if \<not> hasSinr then DbToLin (- 10) else sinr),
                          sv_geLin = (if \<not> haveEve then DbToLin (sp_eavSinrDb p) else ge)\<rparr>))"

definition sec_choice ::
  "sec_params \<Rightarrow> (uint16 \<times> double) list \<Rightarrow> oran_data \<Rightarrow> serving \<Rightarrow> cand list \<Rightarrow> uint16" where
  "sec_choice p risks d sv cands =
     (if \<not> currentOutage p sv
      then normal_choice p sv (GetLeakageSinrLinForCell p risks d) cands
      else outage_choice p sv (GetWorstEveSinrLinForCell d) cands)"

definition recently :: "time \<Rightarrow> time \<Rightarrow> (uint64 \<times> time) list \<Rightarrow> uint64 \<Rightarrow> bool" where
  "recently now gap lastT u = (case map_of lastT u of None \<Rightarrow> False | Some t \<Rightarrow> now - t < gap)"

definition sec_ue ::
  "bool \<Rightarrow> string \<Rightarrow> time \<Rightarrow> sec_params \<Rightarrow> sec_static \<Rightarrow> gnb_info list \<Rightarrow> ue_info \<Rightarrow> sec_tick \<Rightarrow> sec_tick res" where
  "sec_ue verbose name now p st gnbInfos ueInfo tk =
     (let u = ui_nodeId ueInfo; sm = sec_collect (GetNrUeRsrpRsrq (st_data tk) u);
          cur = sm_servingCellId sm; rnti = sm_servingRnti sm
      in if cur = 0 \<or> rnti = 0 then Inr tk
         else
           let tk1 = tk\<lparr>st_pending := clear_reached u cur (st_pending tk)\<rparr>
           in if map_of (st_pending tk1) u \<noteq> None \<and> recently now (sp_hoAttemptTimeout p) (st_last tk1) u
              then Inr tk1
              else
                let oldCellNodeId = GetServingGnbNodeId gnbInfos cur
                in if oldCellNodeId = 0 then Inr tk1
                   else case serving_of p (ss_cellRisk st) (st_data tk1) u sm of
                          None \<Rightarrow> Inr tk1
                        | Some sv \<Rightarrow>
                            if \<not> currentOutage p sv \<and> recently now (sp_minHoInterval p) (st_last tk1) u
                            then Inr tk1
                            else
                              let chosen = sec_choice p (ss_cellRisk st) (st_data tk1) sv (ss_sort st (sm_cands sm))
                              in if chosen = cur then Inr tk1
                                 else sec_emit verbose name now gnbInfos u oldCellNodeId rnti cur chosen tk1)"

definition sec_start :: "sec_static \<Rightarrow> oran_data \<Rightarrow> sec_tick" where
  "sec_start st d =
     \<lparr>st_last = ss_lastHoCmdTime st, st_pending = ss_pendingHoTarget st, st_commands = [], st_data = d\<rparr>"

definition sec_GetHandoverCommands ::
  "bool \<Rightarrow> string \<Rightarrow> time \<Rightarrow> sec_params \<Rightarrow> sec_static \<Rightarrow> oran_data \<Rightarrow> ue_info list \<Rightarrow> gnb_info list \<Rightarrow>
   (oran_command list \<times> sec_static \<times> oran_data) res" where
  "sec_GetHandoverCommands verbose name now p st d ueInfos gnbInfos =
     (if now < sp_warmup p then Inr ([], st, d)
      else res_bind (res_fold (sec_ue verbose name now p st gnbInfos) ueInfos (sec_start st d)) (\<lambda>tk.
             Inr (map (OranCommandNr2NrHandover \<circ> snd) (st_commands tk),
                  st\<lparr>ss_lastHoCmdTime := st_last tk, ss_pendingHoTarget := st_pending tk\<rparr>, st_data tk)))"

definition sec_GetUeInfos :: "time \<Rightarrow> oran_data \<Rightarrow> ue_info list" where
  "sec_GetUeInfos now d = List.map_filter (GetUeInfo now d) (GetNrUeE2NodeIds d)"

definition sec_GetGnbInfos :: "time \<Rightarrow> oran_data \<Rightarrow> gnb_info list" where
  "sec_GetGnbInfos now d = List.map_filter (GetGnbInfo now d) (GetNrGnbE2NodeIds d)"

definition sec_Run ::
  "bool \<Rightarrow> bool \<Rightarrow> bool \<Rightarrow> string \<Rightarrow> time \<Rightarrow> sec_params \<Rightarrow> sec_static \<Rightarrow> oran_data \<Rightarrow>
   (oran_command list \<times> sec_static \<times> oran_data) res" where
  "sec_Run active ric verbose name now p st d =
     (if active
      then abort_if (\<not> ric) NullNearRtRic
             (sec_GetHandoverCommands verbose name now p (LoadRiskMapIfNeeded p st) d
                (sec_GetUeInfos now d) (sec_GetGnbInfos now d))
      else Inr ([], st, d))"

section \<open>The risk map\<close>

definition risks_ok :: "(uint16 \<times> double) list \<Rightarrow> bool" where
  "risks_ok m \<longleftrightarrow> smap_ok m \<and> (\<forall>c r. map_of m c = Some r \<longrightarrow> 0 \<le> r \<and> r \<le> 1)"

lemma risks_ok_Nil [simp]: "risks_ok []"
  by (simp add: risks_ok_def)

lemma risks_ok_line: "risks_ok m \<Longrightarrow> risks_ok (risk_line line m)"
  by (auto simp: risks_ok_def risk_line_def split: option.splits prod.splits if_splits)

lemma risks_ok_lines: "risks_ok m \<Longrightarrow> risks_ok (fold risk_line lines m)"
  by (induction lines arbitrary: m) (simp_all add: risks_ok_line)

lemma risks_ok_load: "risks_ok (ss_cellRisk st) \<Longrightarrow> risks_ok (ss_cellRisk (LoadRiskMapIfNeeded p st))"
  by (simp add: LoadRiskMapIfNeeded_def Let_def risks_ok_lines split: option.split)

text \<open>The estimate from the risk map lies between the two configured values.\<close>

lemma DbToLin_mono: "x \<le> y \<Longrightarrow> DbToLin x \<le> DbToLin y"
  by (simp add: DbToLin_def powr_mono)

lemma DbToLin_pos [simp]: "0 < DbToLin x"
  by (simp add: DbToLin_def)

lemma riskToGe_bounds:
  assumes "risks_ok risks" and "sp_riskMinEavSinrDb p \<le> sp_riskMaxEavSinrDb p"
  shows "DbToLin (sp_riskMinEavSinrDb p) \<le> riskToGe p risks c" and "riskToGe p risks c \<le> DbToLin (sp_riskMaxEavSinrDb p)"
proof -
  let ?r = "smap_get 1 risks c" and ?d = "sp_riskMaxEavSinrDb p - sp_riskMinEavSinrDb p"
  have r: "0 \<le> ?r" "?r \<le> 1" using assms(1) by (auto simp: risks_ok_def smap_get_def split: option.splits)
  have "0 \<le> ?r * ?d" using r assms(2) by simp
  moreover have "?r * ?d \<le> 1 * ?d" using r assms(2) by (intro mult_right_mono) auto
  ultimately show "DbToLin (sp_riskMinEavSinrDb p) \<le> riskToGe p risks c"
    and "riskToGe p risks c \<le> DbToLin (sp_riskMaxEavSinrDb p)"
    by (auto simp: riskToGe_def Let_def intro!: DbToLin_mono)
qed

text \<open>Reading back what was printed.\<close>

lemma dropWhile_space_digit: "is_digit c \<Longrightarrow> dropWhile is_space (c # s) = c # s"
  by (auto simp: is_space_def is_digit_def)

lemma extract_sign_digit: "is_digit c \<Longrightarrow> extract_sign (c # s) = (False, c # s)"
  by (auto simp: is_digit_def)

lemma show_nat_Cons: "\<exists>c s. show_nat n = c # s \<and> is_digit c"
proof -
  have "show_nat n \<noteq> []" by (subst show_nat.simps) simp
  with show_nat_digits [of n] show ?thesis by (cases "show_nat n") auto
qed

lemma numeral_start:
  "extract_sign (dropWhile is_space (show_nat n @ s)) = (False, show_nat n @ s)"
  using show_nat_Cons [of n] dropWhile_space_digit extract_sign_digit by (metis append_Cons)

lemma numeral_span:
  assumes "s = [] \<or> \<not> is_digit (hd s)"
  shows "takeWhile is_digit (show_nat n @ s) = show_nat n" and "dropWhile is_digit (show_nat n @ s) = s"
  using assms show_nat_digits [of n]
  by (cases s; simp add: takeWhile_append2 dropWhile_append2 list_all_iff takeWhile_eq_all_conv [THEN iffD2])+

lemma extract_show_cell:
  assumes "s = [] \<or> \<not> is_digit (hd s)"
  shows "extract_uint16 (show_cell c @ s) = Some (c, s)"
proof -
  have "\<not> 65535 < unat c" using unsigned_less [of c, where 'a = nat] by simp
  moreover have "show_nat (unat c) \<noteq> []" using show_nat_Cons by (metis list.distinct(1))
  ultimately show ?thesis
    using assms by (simp add: extract_uint16_def show_cell_def numeral_start numeral_span read_show_nat Let_def)
qed

lemma read_nat_append: "read_nat (xs @ ys) = read_nat xs * 10 ^ length ys + read_nat ys"
  by (induction ys rule: rev_induct) (simp_all add: read_nat_def algebra_simps)

lemma read_nat_zeros: "read_nat (replicate k (CHR ''0'')) = 0"
  by (induction k) (simp_all add: read_nat_def)

lemma length_show_nat: "n < 10 ^ k \<Longrightarrow> 0 < k \<Longrightarrow> length (show_nat n) \<le> k"
proof (induction k arbitrary: n)
  case (Suc k)
  show ?case
  proof (cases "n < 10")
    case True
    then show ?thesis by (subst show_nat.simps) simp
  next
    case False
    then have "0 < k" using Suc.prems by (cases k) auto
    then show ?thesis using False Suc.IH [of "n div 10"] Suc.prems by (subst show_nat.simps) auto
  qed
qed simp

lemma pad6_show_nat:
  assumes "n < 1000000"
  shows "length (pad6 (show_nat n)) = 6" and "list_all is_digit (pad6 (show_nat n))" and "read_nat (pad6 (show_nat n)) = n"
proof -
  show "length (pad6 (show_nat n)) = 6" using length_show_nat [of n 6] assms by (simp add: pad6_def)
  show "list_all is_digit (pad6 (show_nat n))"
    using show_nat_digits [of n] by (auto simp: pad6_def list_all_iff is_digit_def)
  show "read_nat (pad6 (show_nat n)) = n" by (simp add: pad6_def read_nat_append read_nat_zeros read_show_nat)
qed

lemma show_millionths:
  "show_double (real k / 1000000) = show_nat (k div 1000000) @ ''.'' @ pad6 (show_nat (k mod 1000000))"
  by (simp add: show_double_def)

lemma extract_show_double:
  assumes "k \<le> 1000000"
  shows "extract_double ('' '' @ show_double (real k / 1000000)) = Some (real k / 1000000, [])"
proof -
  let ?f = "pad6 (show_nat (k mod 1000000))" and ?i = "show_nat (k div 1000000)"
  have f: "length ?f = 6" "read_nat ?f = k mod 1000000" "takeWhile is_digit ?f = ?f" "dropWhile is_digit ?f = []"
    using pad6_show_nat [of "k mod 1000000"] by (simp_all add: takeWhile_eq_all_conv dropWhile_eq_Nil_conv list_all_iff)
  have dot: "\<not> is_digit (CHR ''.'')" by (simp add: is_digit_def)
  have i: "takeWhile is_digit (?i @ CHR ''.'' # ?f) = ?i" "dropWhile is_digit (?i @ CHR ''.'' # ?f) = CHR ''.'' # ?f"
    using numeral_span [of "CHR ''.'' # ?f"] dot by simp_all
  have val: "real (read_nat (?i @ ?f)) / 10 ^ length ?f = real k / 1000000"
    unfolding read_nat_append f read_show_nat by (simp add: f(1))
  have start: "extract_sign (dropWhile is_space ('' '' @ ?i @ ''.'' @ ?f)) = (False, ?i @ CHR ''.'' # ?f)"
    using numeral_start by (simp add: is_space_def)
  have small: "\<not> real k / 1000000 > DBL_MAX" using DBL_MAX_ge assms by simp
  have "?f \<noteq> []" using f(1) by auto
  then show ?thesis
    unfolding show_millionths extract_double_def start prod.case Let_def i list.sel if_True
    using val small by (simp add: f extract_exponent_def)
qed

definition risk_file :: "(uint16 \<times> nat) list \<Rightarrow> string list" where
  "risk_file m = map (\<lambda>(c, k). show_cell c @ '' '' @ show_double (real k / 1000000)) m"

lemma smap_upd_last: "\<forall>x\<in>set m. fst x < k \<Longrightarrow> smap_upd k v m = m @ [(k, v)]"
  by (induction m) auto

lemma risk_line_show:
  assumes "k \<le> 1000000"
  shows "risk_line (show_cell c @ '' '' @ show_double (real k / 1000000)) m = smap_upd c (real k / 1000000) m"
proof -
  obtain x s where x: "show_cell c = x # s" "is_digit x" using show_nat_Cons unfolding show_cell_def by blast
  have "x \<noteq> CHR ''#''" using x(2) by (auto simp: is_digit_def)
  moreover have "extract_uint16 (show_cell c @ '' '' @ show_double (real k / 1000000)) =
      Some (c, '' '' @ show_double (real k / 1000000))"
    by (rule extract_show_cell) (simp add: is_digit_def)
  moreover have "max 0 (min 1 (real k / 1000000)) = real k / 1000000" using assms by simp
  ultimately show ?thesis using extract_show_double [OF assms] x(1) by (simp add: risk_line_def)
qed

lemma risk_file_load:
  assumes "smap_ok m" and "\<forall>(c, k)\<in>set m. k \<le> 1000000"
  shows "fold risk_line (risk_file m) [] = map (\<lambda>(c, k). (c, real k / 1000000)) m"
  using assms
proof (induction m rule: rev_induct)
  case (snoc e m)
  obtain c k where e: "e = (c, k)" by (cases e)
  have ok: "smap_ok m" "\<forall>x\<in>set m. fst x < c"
    using snoc.prems(1) by (auto simp: smap_ok_def sorted_wrt_append e)
  then have "smap_upd c (real k / 1000000) (map (\<lambda>(c, k). (c, real k / 1000000)) m) =
      map (\<lambda>(c, k). (c, real k / 1000000)) m @ [(c, real k / 1000000)]"
    by (intro smap_upd_last) auto
  then show ?case
    using snoc.IH [OF ok(1)] snoc.prems(2) risk_line_show [of k c] by (simp add: risk_file_def e)
qed (simp add: risk_file_def)

section \<open>Secrecy capacity\<close>

lemma SecrecyCapacity_nonneg [simp]: "0 \<le> SecrecyCapacity gb ge"
  by (simp add: SecrecyCapacity_def Let_def)

lemma log2_mono: "x \<le> y \<Longrightarrow> log 2 (1 + max 0 x) \<le> log 2 (1 + max 0 y)"
  by (subst log_le_cancel_iff) auto

lemma SecrecyCapacity_mono:
  assumes "gb \<le> gb'" and "ge' \<le> ge"
  shows "SecrecyCapacity gb ge \<le> SecrecyCapacity gb' ge'"
proof -
  have "log 2 (1 + max 0 gb) - log 2 (1 + max 0 ge) \<le> log 2 (1 + max 0 gb') - log 2 (1 + max 0 ge')"
    using log2_mono [OF assms(1)] log2_mono [OF assms(2)] by linarith
  then show ?thesis unfolding SecrecyCapacity_def Let_def by (rule max.mono [OF order_refl])
qed

text \<open>There is secrecy exactly when the UE hears the cell better than the eavesdropper.\<close>

lemma SecrecyCapacity_pos: "0 < SecrecyCapacity gb ge \<longleftrightarrow> max 0 ge < max 0 gb"
proof -
  have "log 2 (1 + max 0 ge) < log 2 (1 + max 0 gb) \<longleftrightarrow> 1 + max 0 ge < 1 + max 0 gb"
    by (rule log_less_cancel_iff) auto
  then show ?thesis by (simp add: SecrecyCapacity_def Let_def less_max_iff_disj)
qed

lemma SecrecyCapacity_none: "SecrecyCapacity gb ge \<le> 0 \<longleftrightarrow> max 0 gb \<le> max 0 ge"
  using SecrecyCapacity_pos [of gb ge] by linarith

lemma secrecyOk_outage: "currentOutage p sv \<longleftrightarrow> \<not> secrecyOk p (currentCs sv)"
  by (auto simp: currentOutage_def secrecyOk_def)

section \<open>The worst eavesdropper\<close>

text \<open>The data and control SINR an eavesdropper contributes for a cell.\<close>

definition eve_data :: "oran_data \<Rightarrow> uint16 \<Rightarrow> uint64 \<Rightarrow> double option" where
  "eve_data d c e = fst (eve_local c None (GetNrEveSinr d e))"

definition eve_ctrl :: "oran_data \<Rightarrow> uint16 \<Rightarrow> uint64 \<Rightarrow> double option" where
  "eve_ctrl d c e = (if eve_data d c e = None then snd (eve_local c None (GetNrEveSinr d e)) else None)"

definition worst :: "double option list \<Rightarrow> bool \<times> double" where
  "worst xs = (let ys = List.map_filter id xs in (ys \<noteq> [], Max (set (0 # ys))))"

lemma Max_insert_0:
  "finite A \<Longrightarrow> max (0::real) (Max (insert x A)) = max (Max (insert 0 A)) x"
  by (cases "A = {}") (simp_all add: max.commute max.left_commute)

lemma worst_snoc: "worst (xs @ [x]) = (case x of None \<Rightarrow> worst xs
    | Some v \<Rightarrow> (True, max (snd (worst xs)) v))"
  by (auto simp: worst_def Let_def map_filter_def Max_insert_0 split: option.splits)

lemma eve_fold:
  "fold (eve_step d c) es \<lparr>es_bestData = 0, es_foundData = False, es_bestCtrl = 0, es_foundCtrl = False\<rparr> =
     \<lparr>es_bestData = snd (worst (map (eve_data d c) es)), es_foundData = fst (worst (map (eve_data d c) es)),
      es_bestCtrl = snd (worst (map (eve_ctrl d c) es)), es_foundCtrl = fst (worst (map (eve_ctrl d c) es))\<rparr>"
proof (induction es rule: rev_induct)
  case Nil
  show ?case by (simp add: worst_def Let_def)
next
  case (snoc e es)
  obtain x y where l: "eve_local c None (GetNrEveSinr d e) = (x, y)" by (cases "eve_local c None (GetNrEveSinr d e)")
  then have e: "eve_data d c e = x" "eve_ctrl d c e = (if x = None then y else None)"
    by (simp_all add: eve_data_def eve_ctrl_def)
  let ?S = "fold (eve_step d c) es \<lparr>es_bestData = 0, es_foundData = False, es_bestCtrl = 0, es_foundCtrl = False\<rparr>"
  have step: "eve_step d c e ?S = (case (x, y) of
      (Some v, _) \<Rightarrow> ?S\<lparr>es_bestData := max (es_bestData ?S) v, es_foundData := True\<rparr>
    | (None, Some v) \<Rightarrow> ?S\<lparr>es_bestCtrl := max (es_bestCtrl ?S) v, es_foundCtrl := True\<rparr> | (None, None) \<Rightarrow> ?S)"
    unfolding eve_step_def [of d c e] l ..
  show ?case
    using step unfolding snoc.IH by (cases x; cases y) (simp_all add: snoc.IH worst_snoc e)
qed

lemma GetWorstEve_spec:
  "GetWorstEveSinrLinForCell d c =
     (let ds = worst (map (eve_data d c) (GetNrEveNodeIds d)); cs = worst (map (eve_ctrl d c) (GetNrEveNodeIds d))
      in if fst ds then (True, snd ds) else if fst cs then (True, snd cs) else (False, 0))"
  by (simp add: GetWorstEveSinrLinForCell_def eve_fold Let_def)

section \<open>The two searches\<close>

definition allowed :: "sec_params \<Rightarrow> serving \<Rightarrow> (uint16 \<Rightarrow> bool \<times> double) \<Rightarrow> cand \<Rightarrow> bool" where
  "allowed p sv eve c \<longleftrightarrow> fst c \<noteq> sv_cellId sv \<and>
     snd c - sv_rsrp sv > max (sp_hysteresisDb p) (sp_rsrpThresholdDb p) \<and> secrecyOk p (candidate_cs p sv eve c)"

lemma find_sorted:
  fixes xs :: "('a \<times> 'b::linorder) list"
  assumes "List.find P xs = Some c" and "sorted_wrt (\<lambda>a b. snd b \<le> snd a) xs" and "x \<in> set xs" and "snd c < snd x"
  shows "\<not> P x"
  using assms by (induction xs) (auto split: if_splits dest: leD)

text \<open>
  The contract of a search in normal operation: it takes the first candidate that passes a gate, and
  otherwise stays. In a list sorted by signal, all stronger candidates then fail the gate.
\<close>

locale gated_search =
  fixes stay :: uint16
    and passes :: "cand \<Rightarrow> bool"
    and choice :: "cand list \<Rightarrow> uint16"
  assumes choice_Nil: "choice [] = stay"
    and choice_Cons: "choice (c # cs) = (if passes c then fst c else choice cs)"
begin

lemma choice_find: "choice cs = (case List.find passes cs of None \<Rightarrow> stay | Some c \<Rightarrow> fst c)"
  by (induction cs) (simp_all add: choice_Nil choice_Cons)

lemma choice_other:
  assumes "choice cs \<noteq> stay" and "sorted_wrt (\<lambda>a b. snd b \<le> snd a) cs"
  shows "\<exists>c\<in>set cs. choice cs = fst c \<and> passes c \<and> (\<forall>x\<in>set cs. snd c < snd x \<longrightarrow> \<not> passes x)"
proof -
  from assms(1) obtain c where c: "List.find passes cs = Some c"
    by (auto simp: choice_find split: option.splits)
  then have "c \<in> set cs" "passes c" by (auto simp: find_Some_iff)
  with c find_sorted [OF c assms(2)] show ?thesis by (auto simp: choice_find)
qed

end

interpretation normal: gated_search "sv_cellId sv" "allowed p sv eve" "normal_choice p sv eve" for p sv eve
  by unfold_locales (simp_all add: allowed_def)

text \<open>Each step of the search in outage gives up at most \<open>kEps\<close> of the best secrecy capacity so far.\<close>

definition near_best :: "sec_params \<Rightarrow> serving \<Rightarrow> (uint16 \<Rightarrow> bool \<times> double) \<Rightarrow> cand list \<Rightarrow> best \<Rightarrow> bool" where
  "near_best p sv eve cs b \<longleftrightarrow>
     (\<forall>x\<in>set cs. fst x \<noteq> sv_cellId sv \<longrightarrow> candidate_cs p sv eve x \<le> snd (snd b) + real (length cs) * kEps) \<and>
     (b = (sv_cellId sv, sv_rsrp sv, currentCs sv) \<or>
      (\<exists>c\<in>set cs. fst c \<noteq> sv_cellId sv \<and> b = (fst c, snd c, candidate_cs p sv eve c)))"

lemma near_best_step:
  assumes "near_best p sv eve cs b"
  shows "near_best p sv eve (cs @ [c]) (outage_step p sv eve c b)"
proof -
  let ?b = "outage_step p sv eve c b" and ?n = "real (length cs) * kEps"
  obtain bc br bs where b: "b = (bc, br, bs)" by (cases b)
  have eps: "0 < kEps" by (simp add: kEps_def)
  have drop: "bs - kEps \<le> snd (snd ?b)" using eps by (auto simp: outage_step_def b Let_def abs_le_iff)
  have new: "candidate_cs p sv eve c \<le> snd (snd ?b) + kEps" if "fst c \<noteq> sv_cellId sv"
    using that eps by (auto simp: outage_step_def b Let_def)
  have old: "candidate_cs p sv eve x \<le> bs + ?n" if "x \<in> set cs" "fst x \<noteq> sv_cellId sv" for x
    using assms that by (auto simp: near_best_def b)
  have "0 \<le> ?n" using eps by simp
  have "candidate_cs p sv eve x \<le> snd (snd ?b) + real (length (cs @ [c])) * kEps"
    if "x \<in> set (cs @ [c])" "fst x \<noteq> sv_cellId sv" for x
  proof -
    have "real (length (cs @ [c])) * kEps = ?n + kEps" by (simp add: algebra_simps)
    moreover have "candidate_cs p sv eve x \<le> snd (snd ?b) + (?n + kEps)"
      using that old [of x] new drop \<open>0 \<le> ?n\<close> by (cases "x \<in> set cs") force+
    ultimately show ?thesis by simp
  qed
  moreover have "?b = (sv_cellId sv, sv_rsrp sv, currentCs sv) \<or>
      (\<exists>x\<in>set (cs @ [c]). fst x \<noteq> sv_cellId sv \<and> ?b = (fst x, snd x, candidate_cs p sv eve x))"
    using assms by (auto simp: near_best_def outage_step_def b Let_def)
  ultimately show ?thesis by (simp add: near_best_def)
qed

lemma near_best_fold:
  "near_best p sv eve cs (fold (outage_step p sv eve) cs (sv_cellId sv, sv_rsrp sv, currentCs sv))"
proof (induction cs rule: rev_induct)
  case Nil
  show ?case by (simp add: near_best_def)
qed (simp add: near_best_step)

lemma outage_choice_other:
  assumes "outage_choice p sv eve cs \<noteq> sv_cellId sv"
  shows "\<exists>c\<in>set cs. outage_choice p sv eve cs = fst c \<and>
    (candidate_cs p sv eve c > currentCs sv + kEps \<or> snd c > sv_rsrp sv + kOutageMinRsrpGainDb) \<and>
    (\<forall>x\<in>set cs. fst x \<noteq> sv_cellId sv \<longrightarrow>
       candidate_cs p sv eve x \<le> candidate_cs p sv eve c + real (length cs) * kEps)"
proof -
  obtain b r s where f: "fold (outage_step p sv eve) cs (sv_cellId sv, sv_rsrp sv, currentCs sv) = (b, r, s)"
    by (cases "fold (outage_step p sv eve) cs (sv_cellId sv, sv_rsrp sv, currentCs sv)")
  have o: "outage_choice p sv eve cs = b" "b \<noteq> sv_cellId sv" "s > currentCs sv + kEps \<or> r > sv_rsrp sv + kOutageMinRsrpGainDb"
    using assms by (auto simp: outage_choice_def f split: if_splits)
  note nb = near_best_fold [of p sv eve cs, unfolded f near_best_def]
  with o(2) obtain c where "c \<in> set cs" "(b, r, s) = (fst c, snd c, candidate_cs p sv eve c)" by auto
  with nb o show ?thesis by (intro bexI [of _ c]) auto
qed

section \<open>What a run reads and changes\<close>

lemma GetNrUeSinr_lm_log: "only_lm_log d d' \<Longrightarrow> GetNrUeSinr d' n = GetNrUeSinr d n"
  using IsNodeRegistered_lm_log [of d d' n]
  by (auto simp: only_lm_log_def lm_log_append_def GetNrUeSinr_def scan_rows_def)

lemma GetNrEveSinr_lm_log: "only_lm_log d d' \<Longrightarrow> GetNrEveSinr d' = GetNrEveSinr d"
  by (auto simp: only_lm_log_def lm_log_append_def GetNrEveSinr_def scan_rows_def)

lemma GetNrEveNodeIds_lm_log: "only_lm_log d d' \<Longrightarrow> GetNrEveNodeIds d' = GetNrEveNodeIds d"
  by (auto simp: only_lm_log_def lm_log_append_def GetNrEveNodeIds_def)

lemma GetWorstEve_lm_log:
  assumes "only_lm_log d d'"
  shows "GetWorstEveSinrLinForCell d' = GetWorstEveSinrLinForCell d"
  unfolding fun_eq_iff GetWorstEve_spec eve_data_def eve_ctrl_def GetNrEveSinr_lm_log [OF assms]
    GetNrEveNodeIds_lm_log [OF assms] by simp

lemma leakage_lm_log:
  assumes "only_lm_log d d'"
  shows "GetLeakageSinrLinForCell p m d' = GetLeakageSinrLinForCell p m d"
  unfolding fun_eq_iff GetLeakageSinrLinForCell_def GetWorstEve_lm_log [OF assms] by simp

lemma serving_of_lm_log:
  assumes "only_lm_log d d'"
  shows "serving_of p m d' u sm = serving_of p m d u sm"
  unfolding serving_of_def GetServingDlDataSinrLin_def GetNrUeSinr_lm_log [OF assms] leakage_lm_log [OF assms] ..

lemma sec_choice_lm_log:
  assumes "only_lm_log d d'"
  shows "sec_choice p m d' sv cs = sec_choice p m d sv cs"
  unfolding sec_choice_def leakage_lm_log [OF assms] GetWorstEve_lm_log [OF assms] ..

lemma serving_of_cell:
  "serving_of p m d u sm = Some sv \<Longrightarrow> sv_cellId sv = sm_servingCellId sm \<and> sv_rsrp sv = sm_servingRsrp sm"
  by (auto simp: serving_of_def split: prod.splits if_splits)

text \<open>
  Two limits of the leakage models. Without data of an eavesdropper at the serving cell, the hybrid model
  drops the estimate from the risk map: the caller replaces it by the fixed value. In outage the configured
  model is not asked at all.
\<close>

lemma hybrid_without_data:
  assumes "sp_leakageModel p = ''hybrid''" and "\<not> fst (GetWorstEveSinrLinForCell d (sm_servingCellId sm))"
    and "serving_of p risks d u sm = Some sv"
  shows "sv_geLin sv = DbToLin (sp_eavSinrDb p)"
  using assms by (auto simp: serving_of_def GetLeakageSinrLinForCell_def split: prod.splits if_splits)

lemma outage_choice_params: "outage_choice (p\<lparr>sp_leakageModel := m\<rparr>) sv eve cs = outage_choice p sv eve cs"
proof -
  have "candidate_cs (p\<lparr>sp_leakageModel := m\<rparr>) sv eve = candidate_cs p sv eve"
    by (intro ext) (simp add: candidate_cs_def split: prod.split)
  then have "outage_step (p\<lparr>sp_leakageModel := m\<rparr>) sv eve = outage_step p sv eve"
    unfolding fun_eq_iff outage_step_def by simp
  then show ?thesis by (simp add: outage_choice_def)
qed

lemma outage_ignores_leakage_model:
  assumes "currentOutage p sv"
  shows "sec_choice (p\<lparr>sp_leakageModel := m\<rparr>) risks' d sv cs = sec_choice p risks d sv cs"
  using assms by (simp add: sec_choice_def outage_choice_params currentOutage_def)

text \<open>The decision for a UE that would be handed over, from the data at the start of the run.\<close>

definition decides ::
  "sec_params \<Rightarrow> sec_static \<Rightarrow> gnb_info list \<Rightarrow> oran_data \<Rightarrow> uint64 \<Rightarrow> serving \<Rightarrow> uint16 \<Rightarrow> bool" where
  "decides p st gnbInfos d u sv chosen \<longleftrightarrow>
     (let sm = sec_collect (GetNrUeRsrpRsrq d u)
      in serving_of p (ss_cellRisk st) d u sm = Some sv \<and> GetServingGnbNodeId gnbInfos (sv_cellId sv) \<noteq> 0 \<and>
         chosen = sec_choice p (ss_cellRisk st) d sv (ss_sort st (sm_cands sm)) \<and> chosen \<noteq> sv_cellId sv)"

lemma sec_ue_cases:
  assumes "only_lm_log d (st_data tk)"
  obtains (idle) pend where "sec_ue verbose name now p st gnbInfos ueInfo tk = Inr (tk\<lparr>st_pending := pend\<rparr>)"
      "pend = st_pending tk \<or> (\<exists>c. pend = clear_reached (ui_nodeId ueInfo) c (st_pending tk))"
  | (order) sv chosen pend where "decides p st gnbInfos d (ui_nodeId ueInfo) sv chosen"
      "pend = clear_reached (ui_nodeId ueInfo) (sv_cellId sv) (st_pending tk)"
      "sec_ue verbose name now p st gnbInfos ueInfo tk =
         sec_emit verbose name now gnbInfos (ui_nodeId ueInfo) (GetServingGnbNodeId gnbInfos (sv_cellId sv))
           (sm_servingRnti (sec_collect (GetNrUeRsrpRsrq d (ui_nodeId ueInfo)))) (sv_cellId sv) chosen
           (tk\<lparr>st_pending := pend\<rparr>)"
proof -
  let ?u = "ui_nodeId ueInfo" and ?r = "sec_ue verbose name now p st gnbInfos ueInfo tk"
  let ?sm = "sec_collect (GetNrUeRsrpRsrq d ?u)"
  let ?pend = "clear_reached ?u (sm_servingCellId ?sm) (st_pending tk)"
  note frame = GetNrUeRsrpRsrq_lm_log [OF assms] serving_of_lm_log [OF assms] sec_choice_lm_log [OF assms]
  show thesis
  proof (cases "?r = Inr tk \<or> ?r = Inr (tk\<lparr>st_pending := ?pend\<rparr>)")
    case True
    then show thesis using idle [of "st_pending tk"] idle [of ?pend] by auto
  next
    case False
    then have a: "sm_servingCellId ?sm \<noteq> 0" "sm_servingRnti ?sm \<noteq> 0" by (auto simp: sec_ue_def Let_def frame)
    have b: "\<not> (map_of ?pend ?u \<noteq> None \<and> recently now (sp_hoAttemptTimeout p) (st_last tk) ?u)"
      by (rule notI) (use False a in \<open>simp add: sec_ue_def Let_def frame cong: if_cong\<close>)
    have c: "GetServingGnbNodeId gnbInfos (sm_servingCellId ?sm) \<noteq> 0"
      by (rule notI) (use False a b in \<open>simp add: sec_ue_def Let_def frame cong: if_cong\<close>)
    obtain sv where sv: "serving_of p (ss_cellRisk st) d ?u ?sm = Some sv"
      using False a b c by (cases "serving_of p (ss_cellRisk st) d ?u ?sm") (simp_all add: sec_ue_def Let_def frame cong: if_cong)
    have e: "\<not> (\<not> currentOutage p sv \<and> recently now (sp_minHoInterval p) (st_last tk) ?u)"
      by (rule notI) (use False a b c sv in \<open>simp add: sec_ue_def Let_def frame cong: if_cong\<close>)
    have f: "sec_choice p (ss_cellRisk st) d sv (ss_sort st (sm_cands ?sm)) \<noteq> sm_servingCellId ?sm"
      by (rule notI) (use False a b c sv e in \<open>simp add: sec_ue_def Let_def frame cong: if_cong\<close>)
    from a b c e f sv serving_of_cell [OF sv] show thesis
      by (intro order [OF _ refl, of sv]) (auto simp: decides_def sec_ue_def Let_def frame cong: if_cong)
  qed
qed

lemma sec_emit_eq:
  assumes "sec_emit v n now gnbInfos u g r cur ch tk = Inr tk'"
  obtains d' where "GetServingGnbNodeId gnbInfos ch \<noteq> 0" "only_lm_log (st_data tk) d'"
    "tk' = tk\<lparr>st_commands := st_commands tk @ [(u, \<lparr>cmd_targetE2NodeId = g, cmd_targetCellId = ch, cmd_targetRnti = r\<rparr>)],
              st_last := smap_upd u now (st_last tk), st_pending := smap_upd u ch (st_pending tk), st_data := d'\<rparr>"
proof -
  let ?cmd = "OranCommandNr2NrHandover \<lparr>cmd_targetE2NodeId = g, cmd_targetCellId = ch, cmd_targetRnti = r\<rparr>"
  obtain msg where "GetServingGnbNodeId gnbInfos ch \<noteq> 0"
    "tk' = tk\<lparr>st_commands := st_commands tk @ [(u, \<lparr>cmd_targetE2NodeId = g, cmd_targetCellId = ch, cmd_targetRnti = r\<rparr>)],
              st_last := smap_upd u now (st_last tk), st_pending := smap_upd u ch (st_pending tk),
              st_data := log_rsrp v n now msg (LogCommandLm now n ?cmd (st_data tk))\<rparr>"
    using assms by (auto simp: sec_emit_def Let_def)
  with only_lm_log_trans [OF only_lm_log_command only_lm_log_action] show thesis by (intro that)
qed

text \<open>A property of the round that a handover order and the clearing of a pending one keep.\<close>

lemma sec_fold_invariant:
  assumes fold: "res_fold (sec_ue verbose name now p st gnbInfos) ueInfos (sec_start st d) = Inr tk'"
    and start: "P (sec_start st d)"
    and idle: "\<And>tk u pend. P tk \<Longrightarrow> pend = st_pending tk \<or> (\<exists>c. pend = clear_reached u c (st_pending tk)) \<Longrightarrow>
      P (tk\<lparr>st_pending := pend\<rparr>)"
    and order: "\<And>tk u sv ch d'. P tk \<Longrightarrow> u \<in> ui_nodeId ` set ueInfos \<Longrightarrow> decides p st gnbInfos d u sv ch \<Longrightarrow>
      GetServingGnbNodeId gnbInfos ch \<noteq> 0 \<Longrightarrow>
      P (tk\<lparr>st_commands := st_commands tk @ [(u, \<lparr>cmd_targetE2NodeId = GetServingGnbNodeId gnbInfos (sv_cellId sv),
             cmd_targetCellId = ch, cmd_targetRnti = sm_servingRnti (sec_collect (GetNrUeRsrpRsrq d u))\<rparr>)],
           st_last := smap_upd u now (st_last tk), st_pending := smap_upd u ch (st_pending tk), st_data := d'\<rparr>)"
  shows "P tk' \<and> only_lm_log d (st_data tk')"
  using fold
proof (rule res_fold_invariant [where P = "\<lambda>tk. P tk \<and> only_lm_log d (st_data tk)"])
  show "P (sec_start st d) \<and> only_lm_log d (st_data (sec_start st d))" using start by (simp add: sec_start_def)
next
  fix x tk tk1
  assume x: "x \<in> set ueInfos" and inv: "P tk \<and> only_lm_log d (st_data tk)"
    and step: "sec_ue verbose name now p st gnbInfos x tk = Inr tk1"
  from inv have "only_lm_log d (st_data tk)" ..
  then show "P tk1 \<and> only_lm_log d (st_data tk1)"
  proof (cases rule: sec_ue_cases [of d tk verbose name now p st gnbInfos x])
    case (idle pend)
    with step inv show ?thesis using assms(3) [of tk pend] by auto
  next
    case (order sv chosen pend)
    with step have "sec_emit verbose name now gnbInfos (ui_nodeId x) (GetServingGnbNodeId gnbInfos (sv_cellId sv))
        (sm_servingRnti (sec_collect (GetNrUeRsrpRsrq d (ui_nodeId x)))) (sv_cellId sv) chosen
        (tk\<lparr>st_pending := pend\<rparr>) = Inr tk1" by simp
    then show ?thesis
    proof (rule sec_emit_eq)
      fix d' assume e: "GetServingGnbNodeId gnbInfos chosen \<noteq> 0" "only_lm_log (st_data (tk\<lparr>st_pending := pend\<rparr>)) d'"
        "tk1 = tk\<lparr>st_pending := pend\<rparr>\<lparr>st_commands := st_commands (tk\<lparr>st_pending := pend\<rparr>) @ [(ui_nodeId x,
            \<lparr>cmd_targetE2NodeId = GetServingGnbNodeId gnbInfos (sv_cellId sv), cmd_targetCellId = chosen,
             cmd_targetRnti = sm_servingRnti (sec_collect (GetNrUeRsrpRsrq d (ui_nodeId x)))\<rparr>)],
          st_last := smap_upd (ui_nodeId x) now (st_last (tk\<lparr>st_pending := pend\<rparr>)),
          st_pending := smap_upd (ui_nodeId x) chosen (st_pending (tk\<lparr>st_pending := pend\<rparr>)), st_data := d'\<rparr>"
      have "P (tk\<lparr>st_pending := pend\<rparr>)" using inv order(2) assms(3) [of tk pend] by blast
      from assms(4) [OF this _ order(1) e(1), of d'] x have "P tk1" unfolding e(3) by blast
      moreover have "only_lm_log d d'" using inv e(2) by (auto intro: only_lm_log_trans)
      ultimately show ?thesis by (simp add: e(3))
    qed
  qed
qed

section \<open>The handover orders of a run\<close>

definition normal_target ::
  "sec_params \<Rightarrow> serving \<Rightarrow> (uint16 \<Rightarrow> bool \<times> double) \<Rightarrow> cand list \<Rightarrow> uint16 \<Rightarrow> bool" where
  "normal_target p sv eve cands t \<longleftrightarrow>
     (\<exists>c\<in>set cands. t = fst c \<and> allowed p sv eve c \<and> (\<forall>x\<in>set cands. snd c < snd x \<longrightarrow> \<not> allowed p sv eve x))"

definition outage_target ::
  "sec_params \<Rightarrow> serving \<Rightarrow> (uint16 \<Rightarrow> bool \<times> double) \<Rightarrow> cand list \<Rightarrow> uint16 \<Rightarrow> bool" where
  "outage_target p sv eve cands t \<longleftrightarrow>
     (\<exists>c\<in>set cands. t = fst c \<and>
       (candidate_cs p sv eve c > currentCs sv + kEps \<or> snd c > sv_rsrp sv + kOutageMinRsrpGainDb) \<and>
       (\<forall>x\<in>set cands. fst x \<noteq> sv_cellId sv \<longrightarrow>
          candidate_cs p sv eve x \<le> candidate_cs p sv eve c + real (length cands) * kEps))"

definition sound_secrecy_handover ::
  "sec_params \<Rightarrow> (uint16 \<times> double) list \<Rightarrow> gnb_info list \<Rightarrow> oran_data \<Rightarrow> uint64 \<Rightarrow> handover_cmd \<Rightarrow> bool" where
  "sound_secrecy_handover p risks gnbInfos d u h \<longleftrightarrow>
     (let sm = sec_collect (GetNrUeRsrpRsrq d u)
      in \<exists>sv. serving_of p risks d u sm = Some sv \<and> cmd_targetRnti h = sm_servingRnti sm \<and>
           cmd_targetE2NodeId h = GetServingGnbNodeId gnbInfos (sv_cellId sv) \<and> cmd_targetE2NodeId h \<noteq> 0 \<and>
           cmd_targetCellId h \<noteq> sv_cellId sv \<and> GetServingGnbNodeId gnbInfos (cmd_targetCellId h) \<noteq> 0 \<and>
           (if currentOutage p sv
            then outage_target p sv (GetWorstEveSinrLinForCell d) (sm_cands sm) (cmd_targetCellId h)
            else normal_target p sv (GetLeakageSinrLinForCell p risks d) (sm_cands sm) (cmd_targetCellId h)))"

lemma decides_target:
  assumes "decides p st gnbInfos d u sv ch" and "sort_ok (ss_sort st)"
  shows "if currentOutage p sv
    then outage_target p sv (GetWorstEveSinrLinForCell d) (sm_cands (sec_collect (GetNrUeRsrpRsrq d u))) ch
    else normal_target p sv (GetLeakageSinrLinForCell p (ss_cellRisk st) d)
      (sm_cands (sec_collect (GetNrUeRsrpRsrq d u))) ch"
proof -
  let ?cs = "sm_cands (sec_collect (GetNrUeRsrpRsrq d u))"
  have ch: "ch = sec_choice p (ss_cellRisk st) d sv (ss_sort st ?cs)" "ch \<noteq> sv_cellId sv"
    using assms(1) unfolding decides_def Let_def by auto
  note srt = sort_ok_D [OF assms(2), of ?cs]
  have len: "length (ss_sort st ?cs) = length ?cs" using assms(2) by (metis sort_ok_def size_mset)
  show ?thesis
  proof (cases "currentOutage p sv")
    case True
    with outage_choice_other [of p sv "GetWorstEveSinrLinForCell d" "ss_sort st ?cs"] ch show ?thesis
      unfolding srt(1) len by (simp add: sec_choice_def outage_target_def)
  next
    case False
    with normal.choice_other [of p sv "GetLeakageSinrLinForCell p (ss_cellRisk st) d" "ss_sort st ?cs"] ch srt(2)
    show ?thesis unfolding srt(1) by (simp add: sec_choice_def normal_target_def)
  qed
qed

lemma sec_commands_eq:
  assumes "sec_GetHandoverCommands verbose name now p st d ueInfos gnbInfos = Inr (cs, st', d')"
  shows "(now < sp_warmup p \<and> cs = [] \<and> st' = st \<and> d' = d) \<or> (sp_warmup p \<le> now \<and>
    (\<exists>tk. res_fold (sec_ue verbose name now p st gnbInfos) ueInfos (sec_start st d) = Inr tk \<and>
       cs = map (OranCommandNr2NrHandover \<circ> snd) (st_commands tk) \<and>
       st' = st\<lparr>ss_lastHoCmdTime := st_last tk, ss_pendingHoTarget := st_pending tk\<rparr> \<and> d' = st_data tk))"
  using assms by (auto simp: sec_GetHandoverCommands_def res_bind_eq_Inr split: if_splits)

lemma decides_sound:
  assumes "decides p st gnbInfos d u sv ch" and "sort_ok (ss_sort st)" and "GetServingGnbNodeId gnbInfos ch \<noteq> 0"
  shows "sound_secrecy_handover p (ss_cellRisk st) gnbInfos d u
    \<lparr>cmd_targetE2NodeId = GetServingGnbNodeId gnbInfos (sv_cellId sv), cmd_targetCellId = ch,
     cmd_targetRnti = sm_servingRnti (sec_collect (GetNrUeRsrpRsrq d u))\<rparr>"
proof -
  from assms(1) have "ch \<noteq> sv_cellId sv" "GetServingGnbNodeId gnbInfos (sv_cellId sv) \<noteq> 0"
      "serving_of p (ss_cellRisk st) d u (sec_collect (GetNrUeRsrpRsrq d u)) = Some sv"
    unfolding decides_def Let_def by auto
  with decides_target [OF assms(1,2)] assms(3) show ?thesis
    unfolding sound_secrecy_handover_def Let_def by (intro exI [of _ sv]) simp
qed

lemma sound_secrecy_fold:
  assumes "res_fold (sec_ue verbose name now p st gnbInfos) ueInfos (sec_start st d) = Inr tk"
    and "sort_ok (ss_sort st)"
  shows "\<forall>(u, h)\<in>set (st_commands tk). u \<in> ui_nodeId ` set ueInfos \<and>
    sound_secrecy_handover p (ss_cellRisk st) gnbInfos d u h"
proof -
  let ?P = "\<lambda>tk. \<forall>(u, h)\<in>set (st_commands tk). u \<in> ui_nodeId ` set ueInfos \<and>
    sound_secrecy_handover p (ss_cellRisk st) gnbInfos d u h"
  have "?P tk \<and> only_lm_log d (st_data tk)"
    using assms(1)
  proof (rule sec_fold_invariant [where P = ?P])
    fix tk :: sec_tick and u sv ch d'
    assume P: "?P tk" and u: "u \<in> ui_nodeId ` set ueInfos" and dec: "decides p st gnbInfos d u sv ch"
      and g: "GetServingGnbNodeId gnbInfos ch \<noteq> 0"
    from decides_sound [OF dec assms(2) g] P u show "?P (tk\<lparr>st_commands := st_commands tk @ [(u, \<lparr>cmd_targetE2NodeId =
        GetServingGnbNodeId gnbInfos (sv_cellId sv), cmd_targetCellId = ch,
        cmd_targetRnti = sm_servingRnti (sec_collect (GetNrUeRsrpRsrq d u))\<rparr>)],
        st_last := smap_upd u now (st_last tk), st_pending := smap_upd u ch (st_pending tk), st_data := d'\<rparr>)" by simp
  qed (simp_all add: sec_start_def)
  then show ?thesis ..
qed

text \<open>The tables of the module.\<close>

definition sec_static_ok :: "sec_static \<Rightarrow> bool" where
  "sec_static_ok st \<longleftrightarrow> risks_ok (ss_cellRisk st) \<and> smap_ok (ss_lastHoCmdTime st) \<and> smap_ok (ss_pendingHoTarget st) \<and>
     dom (map_of (ss_pendingHoTarget st)) \<subseteq> dom (map_of (ss_lastHoCmdTime st))"

lemma sec_static_ok_load: "sec_static_ok st \<Longrightarrow> sec_static_ok (LoadRiskMapIfNeeded p st)"
  using risks_ok_load [of st p] by (auto simp: sec_static_ok_def LoadRiskMapIfNeeded_def Let_def split: option.split)

lemma sec_tables_fold:
  assumes "res_fold (sec_ue verbose name now p st gnbInfos) ueInfos (sec_start st d) = Inr tk" and "sec_static_ok st"
  shows "smap_ok (st_last tk) \<and> smap_ok (st_pending tk) \<and> dom (map_of (st_pending tk)) \<subseteq> dom (map_of (st_last tk))"
    and "only_lm_log d (st_data tk)"
proof -
  let ?P = "\<lambda>tk. smap_ok (st_last tk) \<and> smap_ok (st_pending tk) \<and> dom (map_of (st_pending tk)) \<subseteq> dom (map_of (st_last tk))"
  have "?P tk \<and> only_lm_log d (st_data tk)"
    using assms(1)
  proof (rule sec_fold_invariant [where P = ?P])
    show "?P (sec_start st d)" using assms(2) by (simp add: sec_start_def sec_static_ok_def)
  qed (auto simp: clear_reached_def dom_def subset_iff split: if_splits)
  then show "?P tk" and "only_lm_log d (st_data tk)" by auto
qed

lemma sec_ue_log:
  assumes "sec_ue verbose name now p st gnbInfos x tk = Inr tk'" and "only_lm_log d (st_data tk)"
  shows "only_lm_log d (st_data tk')"
  using assms(2)
proof (cases rule: sec_ue_cases [of d tk verbose name now p st gnbInfos x])
  case (order sv chosen pend)
  with assms(1) show ?thesis
    by (auto elim!: sec_emit_eq intro: only_lm_log_trans [OF assms(2)])
qed (use assms in auto)

lemma sec_Run_log:
  assumes "sec_Run active ric verbose name now p st d = Inr (cs, st', d')"
  shows "only_lm_log d d'"
proof (cases "active \<and> sp_warmup p \<le> now")
  case True
  then obtain tk where f: "res_fold (sec_ue verbose name now p (LoadRiskMapIfNeeded p st) (sec_GetGnbInfos now d))
      (sec_GetUeInfos now d) (sec_start (LoadRiskMapIfNeeded p st) d) = Inr tk" and d': "d' = st_data tk"
    using assms by (auto simp: sec_Run_def dest: sec_commands_eq)
  have "only_lm_log d (st_data (sec_start (LoadRiskMapIfNeeded p st) d))" by (simp add: sec_start_def)
  from f this show ?thesis unfolding d'
    by (rule res_fold_invariant [where P = "\<lambda>tk. only_lm_log d (st_data tk)"]) (rule sec_ue_log)
next
  case False
  with assms show ?thesis by (cases active) (auto simp: sec_Run_def sec_GetHandoverCommands_def)
qed

lemma decides_measured:
  assumes "decides p st gnbInfos d u sv ch" and "sort_ok (ss_sort st)"
  shows "ch \<in> fst ` set (sm_cands (sec_collect (GetNrUeRsrpRsrq d u)))"
  using decides_target [OF assms] by (auto simp: outage_target_def normal_target_def split: if_splits)

text \<open>The only abort of a run is a decision for a cell of no known gNB.\<close>

lemma sec_fold_abort:
  assumes "res_fold (sec_ue verbose name now p st gnbInfos) ueInfos (sec_start st d) = Inl e"
  shows "e = NoGnbForCell \<and> (\<exists>u\<in>ui_nodeId ` set ueInfos. \<exists>sv ch. decides p st gnbInfos d u sv ch \<and>
    GetServingGnbNodeId gnbInfos ch = 0)"
proof -
  have "only_lm_log d (st_data (sec_start st d))" by (simp add: sec_start_def)
  from res_fold_abort [where P = "\<lambda>tk. only_lm_log d (st_data tk)", OF assms this] sec_ue_log
  obtain x tk where x: "x \<in> set ueInfos" and log: "only_lm_log d (st_data tk)"
    and e: "sec_ue verbose name now p st gnbInfos x tk = Inl e" by blast
  from log show ?thesis
  proof (cases rule: sec_ue_cases [of d tk verbose name now p st gnbInfos x])
    case (order sv chosen pend)
    with e have "GetServingGnbNodeId gnbInfos chosen = 0 \<and> e = NoGnbForCell"
      by (simp add: sec_emit_def abort_if_def Let_def split: if_splits)
    with order(1) x show ?thesis by blast
  qed (use e in auto)
qed

lemma ss_sort_load: "ss_sort (LoadRiskMapIfNeeded p st) = ss_sort st"
  by (simp add: LoadRiskMapIfNeeded_def Let_def split: option.split)

lemma sec_commands_abort:
  assumes "sec_GetHandoverCommands verbose name now p st d ueInfos gnbInfos = Inl e" and "sort_ok (ss_sort st)"
  shows "e = NoGnbForCell \<and> sp_warmup p \<le> now \<and> (\<exists>u\<in>ui_nodeId ` set ueInfos. \<exists>sv ch. decides p st gnbInfos d u sv ch \<and>
    ch \<in> fst ` set (sm_cands (sec_collect (GetNrUeRsrpRsrq d u))) \<and> GetServingGnbNodeId gnbInfos ch = 0)"
proof -
  have "res_fold (sec_ue verbose name now p st gnbInfos) ueInfos (sec_start st d) = Inl e" and w: "sp_warmup p \<le> now"
    using assms(1) by (auto simp: sec_GetHandoverCommands_def res_bind_def split: if_splits sum.splits)
  from sec_fold_abort [OF this(1)] obtain u sv ch where e: "e = NoGnbForCell" and u: "u \<in> ui_nodeId ` set ueInfos"
    and dec: "decides p st gnbInfos d u sv ch" "GetServingGnbNodeId gnbInfos ch = 0" by (elim conjE bexE exE)
  from dec decides_measured [OF dec(1) assms(2)] show ?thesis
    by (intro conjI e w bexI [OF _ u] exI [of _ sv] exI [of _ ch])
qed

section \<open>A concrete run\<close>

text \<open>
  The scenario of \<open>Lm_Rsrp\<close>, where the UE has a data SINR of 1 at its serving cell and every
  eavesdropper is assumed to hear at minus ten decibels.
\<close>

definition ex_sec_data :: oran_data where
  "ex_sec_data = ex_data\<lparr>d_db := (d_db ex_data)\<lparr>t_nruesinr :=
     [\<lparr>sn_nodeid = 1, sn_time = 7, sn_rnti = 5, sn_cellid = 1, sn_bwpid = 0, sn_sinr_lin = 1, sn_sinr_db = 0,
       sn_is_ctrl = False\<rparr>]\<rparr>\<rparr>"

definition ex_sec_params :: sec_params where
  "ex_sec_params = OranLmNrSecrecyAwareHandover\<lparr>sp_leakageModel := ''fixed'', sp_eavSinrDb := - 10\<rparr>"

definition ex_sec_static :: sec_static where
  "ex_sec_static = \<lparr>ss_lastHoCmdTime = [], ss_pendingHoTarget = [], ss_sort = sort_key (\<lambda>c. - snd c),
     ss_riskMapLoaded = False, ss_cellRisk = [], sec_read_file = (\<lambda>_. None)\<rparr>"

lemma ex_sec_reads:
  "GetNrUeRsrpRsrq ex_sec_data 1 = [(5, 1, -100, 0, True, 0), (5, 2, -80, 0, False, 0)]"
  "GetNrUeSinr ex_sec_data 1 = [(5, 1, 0, 1, 0, False)]"
  by (simp_all add: GetNrUeRsrpRsrq_def GetNrUeSinr_def ex_sec_data_def ex_data_def IsNodeRegistered_def limit1_def
      order_desc_def newest_def scan_rows_def measurement_of_def rsrprsrq_row_def InitDb_def)

lemma DbToLin_values [simp]: "DbToLin (- 10) = 1 / 10" "DbToLin 20 = 100"
  by (simp_all add: DbToLin_def powr_minus_divide)

lemmas ex_sec_simps = ex_sec_reads sec_collect_def sec_collect_one_def serving_of_def GetServingDlDataSinrLin_def
  GetLeakageSinrLinForCell_def ex_sec_params_def OranLmNrSecrecyAwareHandover_def ex_sec_static_def currentOutage_def
  currentCs_def SecrecyCapacity_none SecrecyCapacity_pos sec_choice_def candidate_cs_def secrecyOk_def Let_def

lemma ex_sec_run:
  "sec_GetHandoverCommands False [] 3000000000 ex_sec_params ex_sec_static ex_sec_data ex_ues ex_gnbs =
     Inr ([OranCommandNr2NrHandover ex_command],
       ex_sec_static\<lparr>ss_lastHoCmdTime := [(1, 3000000000)], ss_pendingHoTarget := [(1, 2)]\<rparr>,
       LogCommandLm 3000000000 [] (OranCommandNr2NrHandover ex_command) ex_sec_data)"
  by (simp add: sec_GetHandoverCommands_def sec_ue_def sec_start_def sec_emit_def log_rsrp_def ex_ues_def ex_gnbs_def
      ex_sec_simps GetServingGnbNodeId_def clear_reached_def recently_def ex_command_def)

section \<open>Properties\<close>

text \<open>
  C8: Every command of the secrecy-aware module is justified by the newest measurements of a UE of the run,
  after the warm-up: it goes to the gNB of the serving cell with the UE's RNTI, and its target is another
  measured cell of a known gNB. Out of outage the target beats the serving cell by more than both margins,
  its estimated secrecy capacity is sufficient, and every stronger cell fails one of the two. In outage
  the target gains secrecy capacity or signal, and no measured cell has a secrecy capacity that is larger
  by more than the tolerance of the search.
\<close>

theorem secrecy_handover_sound:
  assumes "sec_GetHandoverCommands verbose name now p st d ueInfos gnbInfos = Inr (cs, st', d')"
    and "sort_ok (ss_sort st)" and "OranCommandNr2NrHandover h \<in> set cs"
  shows "sp_warmup p \<le> now \<and> (\<exists>u\<in>ui_nodeId ` set ueInfos. sound_secrecy_handover p (ss_cellRisk st) gnbInfos d u h)"
  using sec_commands_eq [OF assms(1)] assms(3) sound_secrecy_fold [OF _ assms(2)] by fastforce

theorem secrecy_handover_sound_witness:
  "sp_warmup ex_sec_params \<le> 3000000000 \<and> (\<exists>u\<in>ui_nodeId ` set ex_ues.
     sound_secrecy_handover ex_sec_params (ss_cellRisk ex_sec_static) ex_gnbs ex_sec_data u ex_command)"
proof (rule secrecy_handover_sound [OF ex_sec_run])
  show "sort_ok (ss_sort ex_sec_static)" by (simp add: ex_sec_static_def sort_ok_sort_key)
  show "OranCommandNr2NrHandover ex_command \<in> set [OranCommandNr2NrHandover ex_command]" by simp
qed

text \<open>
  C28: A run of the secrecy-aware module aborts in two cases only: it is active and has no Near-RT RIC, or,
  after the warm-up, it decides for a measured cell that no known gNB serves, since the search does not ask
  whether the gNB of a candidate is known. So a run of a module with a Near-RT RIC returns whenever the gNBs of
  all measured cells are known.
\<close>

theorem secrecy_unknown_cell_aborts:
  assumes "sec_Run active ric verbose name now p st d = Inl e" and "sort_ok (ss_sort st)"
  shows "active \<and>
    (if \<not> ric then e = NullNearRtRic
     else e = NoGnbForCell \<and> sp_warmup p \<le> now \<and>
       (\<exists>u\<in>ui_nodeId ` set (sec_GetUeInfos now d). \<exists>sv ch.
          decides p (LoadRiskMapIfNeeded p st) (sec_GetGnbInfos now d) d u sv ch \<and>
          ch \<in> fst ` set (sm_cands (sec_collect (GetNrUeRsrpRsrq d u))) \<and>
          GetServingGnbNodeId (sec_GetGnbInfos now d) ch = 0))"
proof -
  let ?st = "LoadRiskMapIfNeeded p st"
  have active and null: "\<not> ric \<Longrightarrow> e = NullNearRtRic"
    and run: "ric \<Longrightarrow> sec_GetHandoverCommands verbose name now p ?st d (sec_GetUeInfos now d) (sec_GetGnbInfos now d) = Inl e"
    using assms(1) by (auto simp: sec_Run_def abort_if_def split: if_splits)
  moreover have "sort_ok (ss_sort ?st)" using assms(2) by (simp add: ss_sort_load)
  ultimately show ?thesis using sec_commands_abort [OF run] by simp
qed

text \<open>UE 1 is attached to cell 1 of gNB 10, the only registered gNB, and hears cell 2 twenty decibels stronger.\<close>

definition ex_unknown_data :: oran_data where
  "ex_unknown_data = ex_sec_data\<lparr>d_db := (d_db ex_sec_data)
     \<lparr>t_noderegistration := [\<lparr>reg_nodeid = 1, reg_registered = True, reg_time = 0\<rparr>,
                             \<lparr>reg_nodeid = 10, reg_registered = True, reg_time = 0\<rparr>],
      t_nodelocation := [\<lparr>loc_nodeid = 1, loc_pos = ex_pos, loc_time = 5\<rparr>, \<lparr>loc_nodeid = 10, loc_pos = ex_pos, loc_time = 5\<rparr>],
      t_nrgnb := [(10, 1)], t_nrue := [(1, 1)],
      t_nruecell := [\<lparr>uc_nodeid = 1, uc_cellid = 1, uc_rnti = 5, uc_time = 6\<rparr>]\<rparr>\<rparr>"

lemma ex_unknown_measurements:
  "GetNrUeRsrpRsrq ex_unknown_data 1 = [(5, 1, -100, 0, True, 0), (5, 2, -80, 0, False, 0)]"
  "GetNrUeSinr ex_unknown_data 1 = [(5, 1, 0, 1, 0, False)]"
  by (simp_all add: GetNrUeRsrpRsrq_def GetNrUeSinr_def ex_unknown_data_def ex_sec_data_def ex_data_def IsNodeRegistered_def
      limit1_def order_desc_def newest_def scan_rows_def measurement_of_def rsrprsrq_row_def InitDb_def)

lemma ex_unknown_infos:
  "sec_GetUeInfos 3000000000 ex_unknown_data = ex_ues"
  "sec_GetGnbInfos 3000000000 ex_unknown_data = [hd ex_gnbs]"
  by (simp_all add: sec_GetUeInfos_def sec_GetGnbInfos_def GetNrUeE2NodeIds_def GetNrGnbE2NodeIds_def joined_ids_def
      last_registrations_def group_ids_def group_max_def GetUeInfo_def GetGnbInfo_def GetNrUeCellInfo_def uecell_info_def
      GetNrGnbCellInfo_def cell_of_node_def GetNodePositions_def sql_limit_def IsNodeRegistered_def limit1_def order_desc_def
      map_filter_simps ex_unknown_data_def ex_sec_data_def ex_data_def ex_ues_def ex_gnbs_def InitDb_def scan_rows_def)

theorem secrecy_unknown_cell_aborts_witness:
  "sec_Run True True False [] 3000000000 ex_sec_params ex_sec_static ex_unknown_data = Inl NoGnbForCell \<and>
   (\<exists>u\<in>ui_nodeId ` set (sec_GetUeInfos 3000000000 ex_unknown_data). \<exists>sv ch.
      decides ex_sec_params (LoadRiskMapIfNeeded ex_sec_params ex_sec_static)
        (sec_GetGnbInfos 3000000000 ex_unknown_data) ex_unknown_data u sv ch \<and>
      ch \<in> fst ` set (sm_cands (sec_collect (GetNrUeRsrpRsrq ex_unknown_data u))) \<and>
      GetServingGnbNodeId (sec_GetGnbInfos 3000000000 ex_unknown_data) ch = 0)"
proof -
  have run: "sec_Run True True False [] 3000000000 ex_sec_params ex_sec_static ex_unknown_data = Inl NoGnbForCell"
    by (simp add: sec_Run_def ex_unknown_infos LoadRiskMapIfNeeded_def sec_GetHandoverCommands_def sec_ue_def sec_start_def
        sec_emit_def ex_ues_def ex_gnbs_def ex_unknown_measurements ex_sec_simps GetServingGnbNodeId_def clear_reached_def
        recently_def)
  have "sort_ok (ss_sort ex_sec_static)" by (simp add: ex_sec_static_def sort_ok_sort_key)
  from secrecy_unknown_cell_aborts [OF run this] run show ?thesis by simp
qed

text \<open>
  C29: A run of the secrecy-aware module keeps the types of its tables: the risk of a cell stays between 0
  and 1, whatever the risk map file holds, the keys of the tables stay in order, and a UE with a pending
  target has a time of its last command. In the repository it changes only the logs.
\<close>

theorem secrecy_tables_ok:
  assumes "sec_Run active ric verbose name now p st d = Inr (cs, st', d')" and "sec_static_ok st"
  shows "sec_static_ok st' \<and> only_lm_log d d'"
proof (cases active)
  case True
  let ?st = "LoadRiskMapIfNeeded p st"
  have ok: "sec_static_ok ?st" using assms(2) by (rule sec_static_ok_load)
  from True assms(1) have "sec_GetHandoverCommands verbose name now p ?st d (sec_GetUeInfos now d) (sec_GetGnbInfos now d) =
      Inr (cs, st', d')" by (simp add: sec_Run_def)
  from sec_commands_eq [OF this] show ?thesis
  proof (elim disjE conjE exE)
    fix tk
    assume f: "res_fold (sec_ue verbose name now p ?st (sec_GetGnbInfos now d)) (sec_GetUeInfos now d)
        (sec_start ?st d) = Inr tk"
      and e: "st' = ?st\<lparr>ss_lastHoCmdTime := st_last tk, ss_pendingHoTarget := st_pending tk\<rparr>" "d' = st_data tk"
    from sec_tables_fold [OF f ok] ok show ?thesis by (simp add: e sec_static_ok_def)
  qed (use ok in simp)
qed (use assms in \<open>simp add: sec_Run_def\<close>)

theorem secrecy_tables_ok_witness:
  "sec_static_ok (LoadRiskMapIfNeeded (ex_sec_params\<lparr>sp_riskMapFile := ''r''\<rparr>)
     (ex_sec_static\<lparr>sec_read_file := (\<lambda>_. Some [''3 7.5'', ''# cell'', ''2 -1''])\<rparr>)) \<and> only_lm_log ex_data ex_data"
proof (rule secrecy_tables_ok)
  show "sec_Run True True False [] 0 (ex_sec_params\<lparr>sp_riskMapFile := ''r''\<rparr>)
      (ex_sec_static\<lparr>sec_read_file := (\<lambda>_. Some [''3 7.5'', ''# cell'', ''2 -1''])\<rparr>) ex_data =
    Inr ([], LoadRiskMapIfNeeded (ex_sec_params\<lparr>sp_riskMapFile := ''r''\<rparr>)
      (ex_sec_static\<lparr>sec_read_file := (\<lambda>_. Some [''3 7.5'', ''# cell'', ''2 -1''])\<rparr>), ex_data)"
    by (simp add: sec_Run_def sec_GetHandoverCommands_def ex_sec_params_def OranLmNrSecrecyAwareHandover_def)
  show "sec_static_ok (ex_sec_static\<lparr>sec_read_file := (\<lambda>_. Some [''3 7.5'', ''# cell'', ''2 -1''])\<rparr>)"
    by (simp add: sec_static_ok_def ex_sec_static_def)
qed

text \<open>
  A risk map that is written one cell to a line, with its risk in millionths, is read back exactly.
\<close>

lemma risk_map_roundtrip:
  assumes "smap_ok m" and "\<forall>(c, k)\<in>set m. k \<le> 1000000" and "\<not> ss_riskMapLoaded st"
    and "sp_riskMapFile p \<noteq> []" and "sec_read_file st (sp_riskMapFile p) = Some (risk_file m)"
  shows "LoadRiskMapIfNeeded p st =
    st\<lparr>ss_riskMapLoaded := True, ss_cellRisk := map (\<lambda>(c, k). (c, real k / 1000000)) m\<rparr>"
  using assms risk_file_load [OF assms(1,2)] by (simp add: LoadRiskMapIfNeeded_def)

end
