(* ===== verification/Lm_Learned.thy ===== *)
theory Lm_Learned
  imports Lm_Lte
begin

text \<open>
  The logic modules that ask a trained classifier where two UEs belong
  (\<open>oran-lm-{nr-2-nr,lte-2-lte}-{onnx,torch}-handover.cc\<close>). The four classes have the same text but for the
  radio technology and the library that runs the model. A loaded model is a parameter: the scores an ONNX
  session returns for an input, or the class that LibTorch (\<open>forward\<close>, \<open>softmax\<close>, \<open>argmax\<close>)
  gives. \<open>float\<close> is, as \<open>double\<close>, a real number.
\<close>

section \<open>What the modules read\<close>

datatype radio_tech = TechNr | TechLte

definition tech_ueIds :: "radio_tech \<Rightarrow> oran_data \<Rightarrow> uint64 list" where
  "tech_ueIds t = (case t of TechNr \<Rightarrow> GetNrUeE2NodeIds | TechLte \<Rightarrow> GetLteUeE2NodeIds)"

definition tech_ueCellInfo :: "radio_tech \<Rightarrow> oran_data \<Rightarrow> uint64 \<Rightarrow> bool \<times> uint16 \<times> uint16" where
  "tech_ueCellInfo t = (case t of TechNr \<Rightarrow> GetNrUeCellInfo | TechLte \<Rightarrow> GetLteUeCellInfo)"

definition tech_stationIds :: "radio_tech \<Rightarrow> oran_data \<Rightarrow> uint64 list" where
  "tech_stationIds t = (case t of TechNr \<Rightarrow> GetNrGnbE2NodeIds | TechLte \<Rightarrow> GetLteEnbE2NodeIds)"

definition tech_stationCellInfo :: "radio_tech \<Rightarrow> oran_data \<Rightarrow> uint64 \<Rightarrow> bool \<times> uint16" where
  "tech_stationCellInfo t = (case t of TechNr \<Rightarrow> GetNrGnbCellInfo | TechLte \<Rightarrow> GetLteEnbCellInfo)"

definition tech_command :: "radio_tech \<Rightarrow> handover_cmd \<Rightarrow> oran_command" where
  "tech_command t = (case t of TechNr \<Rightarrow> OranCommandNr2NrHandover | TechLte \<Rightarrow> OranCommandLte2LteHandover)"

record ml_ue_info =
  mu_nodeId :: uint64
  mu_cellId :: uint16
  mu_rnti :: uint16
  mu_loss :: double
  mu_position :: vector

record station_info =
  bs_nodeId :: uint64
  bs_cellId :: uint16
  bs_position :: vector

definition ml_GetUeInfo :: "radio_tech \<Rightarrow> time \<Rightarrow> oran_data \<Rightarrow> uint64 \<Rightarrow> ml_ue_info option" where
  "ml_GetUeInfo t now d ueId =
     (let (found, cellId, rnti) = tech_ueCellInfo t d ueId;
          nodePositions = GetNodePositions d ueId 0 now 1
      in if found
         then if nodePositions \<noteq> []
              then Some \<lparr>mu_nodeId = ueId, mu_cellId = cellId, mu_rnti = rnti, mu_loss = GetAppLoss d ueId,
                         mu_position = snd (last nodePositions)\<rparr>
              else None
         else None)"

definition ml_GetUeInfos :: "radio_tech \<Rightarrow> time \<Rightarrow> oran_data \<Rightarrow> ml_ue_info list" where
  "ml_GetUeInfos t now d = List.map_filter (ml_GetUeInfo t now d) (tech_ueIds t d)"

definition ml_GetStationInfo :: "radio_tech \<Rightarrow> time \<Rightarrow> oran_data \<Rightarrow> uint64 \<Rightarrow> station_info option" where
  "ml_GetStationInfo t now d stationId =
     (let (found, cellId) = tech_stationCellInfo t d stationId;
          nodePositions = GetNodePositions d stationId 0 now 1
      in if found
         then if nodePositions \<noteq> []
              then Some \<lparr>bs_nodeId = stationId, bs_cellId = cellId, bs_position = snd (last nodePositions)\<rparr>
              else None
         else None)"

definition ml_GetStationInfos :: "radio_tech \<Rightarrow> time \<Rightarrow> oran_data \<Rightarrow> station_info list" where
  "ml_GetStationInfos t now d = List.map_filter (ml_GetStationInfo t now d) (tech_stationIds t d)"

section \<open>The input of the model\<close>

text \<open>The three maps by UE; the key is the node identifier as \<open>uint16_t\<close>.\<close>

record ml_features =
  mf_distance1 :: "(uint16 \<times> double) list"
  mf_distance2 :: "(uint16 \<times> double) list"
  mf_loss :: "(uint16 \<times> double) list"

definition flat_distance :: "vector \<Rightarrow> vector \<Rightarrow> double" where
  "flat_distance p q = sqrt ((vec_x p - vec_x q) ^ 2 + (vec_y p - vec_y q) ^ 2)"

definition ml_key :: "ml_ue_info \<Rightarrow> uint16" where
  "ml_key u = ucast (mu_nodeId u)"

definition ml_station_step :: "ml_ue_info \<Rightarrow> station_info \<Rightarrow> ml_features \<Rightarrow> ml_features" where
  "ml_station_step u s f =
     (let d = flat_distance (mu_position u) (bs_position s)
      in if bs_cellId s = 1 then f\<lparr>mf_distance1 := smap_upd (ml_key u) d (mf_distance1 f)\<rparr>
         else f\<lparr>mf_distance2 := smap_upd (ml_key u) d (mf_distance2 f)\<rparr>)"

definition ml_ue_step :: "station_info list \<Rightarrow> ml_ue_info \<Rightarrow> ml_features \<Rightarrow> ml_features" where
  "ml_ue_step stations u f =
     (let f1 = fold (ml_station_step u) stations f
      in f1\<lparr>mf_loss := smap_upd (ml_key u) (mu_loss u) (mf_loss f1)\<rparr>)"

definition ml_features_of :: "ml_ue_info list \<Rightarrow> station_info list \<Rightarrow> ml_features" where
  "ml_features_of ues stations = fold (ml_ue_step stations) ues \<lparr>mf_distance1 = [], mf_distance2 = [], mf_loss = []\<rparr>"

text \<open>A key that is not in a map reads 0.\<close>

definition ml_row :: "ml_features \<Rightarrow> uint16 \<Rightarrow> double list" where
  "ml_row f k = [smap_get 0 (mf_distance1 f) k, smap_get 0 (mf_distance2 f) k, smap_get 0 (mf_loss f) k]"

definition ml_inputv :: "ml_features \<Rightarrow> double list" where
  "ml_inputv f = ml_row f 1 @ ml_row f 2 @ ml_row f 3 @ ml_row f 4"

definition ml_input_text :: "double list \<Rightarrow> string" where
  "ml_input_text v = ''ML input tensor: ('' @ concat (map (\<lambda>x. show_double x @ '', '') v) @ '')''"

section \<open>The model\<close>

type_synonym onnx_session = "double list \<Rightarrow> double list"
type_synonym torch_model = "double list \<Rightarrow> int"

definition SetOnnxModelPath ::
  "(string \<Rightarrow> bool) \<Rightarrow> (string \<Rightarrow> onnx_session option) \<Rightarrow> string \<Rightarrow> onnx_session res" where
  "SetOnnxModelPath good open_session path =
     abort_if (\<not> good path) FileNotFound
       (case open_session path of None \<Rightarrow> Inl ModelNotLoaded | Some s \<Rightarrow> Inr s)"

definition SetTorchModelPath ::
  "(string \<Rightarrow> bool) \<Rightarrow> (string \<Rightarrow> torch_model option) \<Rightarrow> string \<Rightarrow> torch_model res" where
  "SetTorchModelPath good load path =
     abort_if (\<not> good path) FileNotFound
       (case load path of None \<Rightarrow> Inl ModelNotLoaded | Some m \<Rightarrow> Inr m)"

text \<open>The loop over the scores; an empty output has no first element to start from.\<close>

fun max_loop :: "double list \<Rightarrow> nat \<Rightarrow> double \<Rightarrow> nat \<Rightarrow> nat" where
  "max_loop [] i maxValue maxIndex = maxIndex"
| "max_loop (x # xs) i maxValue maxIndex =
     (if x > maxValue then max_loop xs (Suc i) x i else max_loop xs (Suc i) maxValue maxIndex)"

definition onnx_configuration :: "onnx_session \<Rightarrow> double list \<Rightarrow> int res" where
  "onnx_configuration session inputv =
     (case session inputv of
        [] \<Rightarrow> Inl IndexOutOfRange
      | x # xs \<Rightarrow> Inr (sint (of_nat (max_loop (x # xs) 0 x 0) :: uint32)))"

definition torch_configuration :: "torch_model \<Rightarrow> double list \<Rightarrow> int res" where
  "torch_configuration model inputv = Inr (model inputv)"

section \<open>The commands\<close>

definition ml_move ::
  "radio_tech \<Rightarrow> (string \<Rightarrow> oran_data \<Rightarrow> oran_data) \<Rightarrow> string \<Rightarrow> time \<Rightarrow> ml_ue_info \<Rightarrow> uint64 \<Rightarrow> uint16 \<Rightarrow>
   oran_command list \<times> oran_data \<Rightarrow> oran_command list \<times> oran_data" where
  "ml_move t lg name now u targetE2NodeId targetCellId acc =
     (let c = tech_command t \<lparr>cmd_targetE2NodeId = targetE2NodeId, cmd_targetCellId = targetCellId, cmd_targetRnti = mu_rnti u\<rparr>
      in (fst acc @ [c],
          lg (''Moving UE '' @ show_nat (unat (mu_nodeId u)) @ '' to Cell ID '' @ show_cell targetCellId)
            (LogCommandLm now name c (snd acc))))"

definition ml_ue ::
  "radio_tech \<Rightarrow> (string \<Rightarrow> oran_data \<Rightarrow> oran_data) \<Rightarrow> string \<Rightarrow> time \<Rightarrow> int \<Rightarrow> ml_ue_info \<Rightarrow>
   oran_command list \<times> oran_data \<Rightarrow> oran_command list \<times> oran_data" where
  "ml_ue t lg name now configuration u acc =
     (if mu_nodeId u = 2
      then if mu_cellId u = 1 \<and> (configuration = 2 \<or> configuration = 3) then ml_move t lg name now u 5 2 acc
           else if mu_cellId u = 2 \<and> (configuration = 0 \<or> configuration = 1) then ml_move t lg name now u 6 1 acc
           else acc
      else if mu_nodeId u = 3
      then if mu_cellId u = 1 \<and> (configuration = 1 \<or> configuration = 3) then ml_move t lg name now u 5 2 acc
           else if mu_cellId u = 2 \<and> (configuration = 0 \<or> configuration = 2) then ml_move t lg name now u 6 1 acc
           else acc
      else acc)"

definition ml_GetHandoverCommands ::
  "radio_tech \<Rightarrow> (double list \<Rightarrow> int res) \<Rightarrow> (string \<Rightarrow> oran_data \<Rightarrow> oran_data) \<Rightarrow> string \<Rightarrow> time \<Rightarrow> oran_data \<Rightarrow>
   ml_ue_info list \<Rightarrow> station_info list \<Rightarrow> (oran_command list \<times> oran_data) res" where
  "ml_GetHandoverCommands t classify lg name now d ueInfos stations =
     (let inputv = ml_inputv (ml_features_of ueInfos stations);
          d1 = lg (ml_input_text inputv) d
      in res_bind (classify inputv) (\<lambda>configuration.
           let d2 = lg (''ML Chooses configuration '' @ show_int configuration) d1
           in Inr (fold (ml_ue t lg name now configuration) ueInfos ([], d2))))"

definition ml_Run ::
  "radio_tech \<Rightarrow> (double list \<Rightarrow> int res) \<Rightarrow> bool \<Rightarrow> bool \<Rightarrow> bool \<Rightarrow> string \<Rightarrow> time \<Rightarrow> oran_data \<Rightarrow>
   (oran_command list \<times> oran_data) res" where
  "ml_Run t classify active ric verbose name now d =
     (if active
      then abort_if (\<not> ric) NullNearRtRic
             (ml_GetHandoverCommands t classify (log_rsrp verbose name now) name now d
                (ml_GetUeInfos t now d) (ml_GetStationInfos t now d))
      else Inr ([], d))"

text \<open>The four classes.\<close>

definition nr_onnx_Run :: "onnx_session \<Rightarrow> bool \<Rightarrow> bool \<Rightarrow> bool \<Rightarrow> string \<Rightarrow> time \<Rightarrow> oran_data \<Rightarrow> (oran_command list \<times> oran_data) res" where
  "nr_onnx_Run session = ml_Run TechNr (onnx_configuration session)"

definition lte_onnx_Run :: "onnx_session \<Rightarrow> bool \<Rightarrow> bool \<Rightarrow> bool \<Rightarrow> string \<Rightarrow> time \<Rightarrow> oran_data \<Rightarrow> (oran_command list \<times> oran_data) res" where
  "lte_onnx_Run session = ml_Run TechLte (onnx_configuration session)"

definition nr_torch_Run :: "torch_model \<Rightarrow> bool \<Rightarrow> bool \<Rightarrow> bool \<Rightarrow> string \<Rightarrow> time \<Rightarrow> oran_data \<Rightarrow> (oran_command list \<times> oran_data) res" where
  "nr_torch_Run model = ml_Run TechNr (torch_configuration model)"

definition lte_torch_Run :: "torch_model \<Rightarrow> bool \<Rightarrow> bool \<Rightarrow> bool \<Rightarrow> string \<Rightarrow> time \<Rightarrow> oran_data \<Rightarrow> (oran_command list \<times> oran_data) res" where
  "lte_torch_Run model = ml_Run TechLte (torch_configuration model)"

section \<open>The input, exactly\<close>

text \<open>The distance to the last station of a kind, 0 if there is none.\<close>

definition last_distance :: "(station_info \<Rightarrow> bool) \<Rightarrow> station_info list \<Rightarrow> ml_ue_info \<Rightarrow> double" where
  "last_distance P stations u =
     (case List.find P (rev stations) of None \<Rightarrow> 0 | Some s \<Rightarrow> flat_distance (mu_position u) (bs_position s))"

definition input_row :: "ml_ue_info list \<Rightarrow> station_info list \<Rightarrow> uint16 \<Rightarrow> double list" where
  "input_row ues stations k =
     (case List.find (\<lambda>u. ml_key u = k) (rev ues) of
        None \<Rightarrow> [0, 0, 0]
      | Some u \<Rightarrow> [last_distance (\<lambda>s. bs_cellId s = 1) stations u, last_distance (\<lambda>s. bs_cellId s \<noteq> 1) stations u, mu_loss u])"

lemma station_fold:
  "smap_get 0 (mf_distance1 (fold (ml_station_step u) ss f)) k =
     (if k = ml_key u \<and> (\<exists>s\<in>set ss. bs_cellId s = 1) then last_distance (\<lambda>s. bs_cellId s = 1) ss u
      else smap_get 0 (mf_distance1 f) k)"
  "smap_get 0 (mf_distance2 (fold (ml_station_step u) ss f)) k =
     (if k = ml_key u \<and> (\<exists>s\<in>set ss. bs_cellId s \<noteq> 1) then last_distance (\<lambda>s. bs_cellId s \<noteq> 1) ss u
      else smap_get 0 (mf_distance2 f) k)"
  "mf_loss (fold (ml_station_step u) ss f) = mf_loss f"
  by (induction ss rule: rev_induct) (auto simp: ml_station_step_def last_distance_def Let_def)

lemma last_distance_none: "\<not> (\<exists>s\<in>set ss. P s) \<Longrightarrow> last_distance P ss u = 0"
  using find_None_iff [of P "rev ss"] by (simp add: last_distance_def)

lemma ue_step_row:
  "ml_row (ml_ue_step ss u f) k =
     (if k = ml_key u
      then [if \<exists>s\<in>set ss. bs_cellId s = 1 then last_distance (\<lambda>s. bs_cellId s = 1) ss u else smap_get 0 (mf_distance1 f) k,
            if \<exists>s\<in>set ss. bs_cellId s \<noteq> 1 then last_distance (\<lambda>s. bs_cellId s \<noteq> 1) ss u else smap_get 0 (mf_distance2 f) k,
            mu_loss u]
      else ml_row f k)"
  by (simp add: ml_row_def ml_ue_step_def Let_def station_fold)

lemma features_row: "ml_row (ml_features_of ues ss) k = input_row ues ss k"
proof (induction ues rule: rev_induct)
  case Nil
  then show ?case by (simp add: ml_features_of_def ml_row_def input_row_def smap_get_def)
next
  case (snoc u ues)
  let ?f = "ml_features_of ues ss"
  have "ml_row (ml_features_of (ues @ [u]) ss) k = ml_row (ml_ue_step ss u ?f) k" by (simp add: ml_features_of_def)
  moreover have "smap_get 0 (mf_distance1 ?f) k = 0" if "\<not> (\<exists>s\<in>set ss. bs_cellId s = 1)"
    using snoc.IH last_distance_none [OF that] by (auto simp: ml_row_def input_row_def split: option.splits)
  moreover have "smap_get 0 (mf_distance2 ?f) k = 0" if "\<not> (\<exists>s\<in>set ss. bs_cellId s \<noteq> 1)"
    using snoc.IH last_distance_none [OF that] by (auto simp: ml_row_def input_row_def split: option.splits)
  ultimately show ?case
    using snoc.IH last_distance_none [of ss "\<lambda>s. bs_cellId s = 1" u] last_distance_none [of ss "\<lambda>s. bs_cellId s \<noteq> 1" u]
    by (auto simp: ue_step_row input_row_def)
qed

lemma inputv_exact:
  "ml_inputv (ml_features_of ues ss) = concat (map (input_row ues ss) [1, 2, 3, 4])"
  by (simp add: ml_inputv_def features_row)

section \<open>The class with the highest score\<close>

definition first_max :: "double list \<Rightarrow> nat \<Rightarrow> bool" where
  "first_max xs n \<longleftrightarrow> n < length xs \<and> (\<forall>j<length xs. xs ! j \<le> xs ! n) \<and> (\<forall>j<n. xs ! j < xs ! n)"

lemma first_maxD:
  assumes "first_max xs n"
  shows "n < length xs" and "j < length xs \<Longrightarrow> xs ! j \<le> xs ! n"
  using assms by (auto simp: first_max_def)

lemma first_max_snoc:
  assumes "first_max ys n"
  shows "first_max (ys @ [x]) (if x > ys ! n then length ys else n)"
  using assms by (auto simp: first_max_def nth_append less_Suc_eq intro: le_less_trans order_trans dest: less_imp_le)

lemma max_loop_first_max:
  assumes "first_max ys n"
  shows "first_max (ys @ xs) (max_loop xs (length ys) (ys ! n) n)"
  using assms
proof (induction xs arbitrary: ys n)
  case (Cons x xs)
  have n: "n < length ys" using Cons.prems by (simp add: first_max_def)
  let ?m = "if x > ys ! n then length ys else n"
  have "max_loop (x # xs) (length ys) (ys ! n) n = max_loop xs (length (ys @ [x])) ((ys @ [x]) ! ?m) ?m"
    using n by (simp add: nth_append)
  with Cons.IH [OF first_max_snoc [OF Cons.prems, of x]] show ?case by simp
qed simp

lemma sint_index: "n < 2 ^ 31 \<Longrightarrow> sint (of_nat n :: uint32) = int n"
  by (simp add: signed_of_nat signed_take_bit_int_eq_self)

lemma onnx_configuration_max:
  assumes "session v \<noteq> []" and "length (session v) \<le> 2 ^ 31"
  obtains n where "onnx_configuration session v = Inr (int n)" and "first_max (session v) n"
proof -
  obtain x xs where s: "session v = x # xs" using assms(1) by (cases "session v") auto
  have "first_max [x] 0" by (simp add: first_max_def)
  from max_loop_first_max [OF this, of xs] have m: "first_max (session v) (max_loop (x # xs) 0 x 0)" by (simp add: s)
  then have "max_loop (x # xs) 0 x 0 < 2 ^ 31" using assms(2) by (simp add: first_max_def)
  then have "onnx_configuration session v = Inr (int (max_loop (x # xs) 0 x 0))"
    by (simp add: onnx_configuration_def s sint_index del: max_loop.simps)
  with m that show thesis by blast
qed

section \<open>The commands, exactly\<close>

text \<open>
  The two bits of the configuration: the first is the cell of UE 2, the second the cell of UE 3. The station
  of cell 1 has identifier 5, the station of cell 2 identifier 6, and a command goes to the serving station.
\<close>

definition assigned_cell :: "int \<Rightarrow> uint64 \<Rightarrow> uint16" where
  "assigned_cell configuration n = (if n = 2 then 1 + of_int (configuration div 2) else 1 + of_int (configuration mod 2))"

definition learned_order :: "radio_tech \<Rightarrow> int \<Rightarrow> ml_ue_info \<Rightarrow> oran_command list" where
  "learned_order t configuration u =
     (if mu_nodeId u \<in> {2, 3} \<and> configuration \<in> {0..3} \<and> mu_cellId u \<in> {1, 2} \<and>
         mu_cellId u \<noteq> assigned_cell configuration (mu_nodeId u)
      then [tech_command t \<lparr>cmd_targetE2NodeId = (if mu_cellId u = 1 then 5 else 6),
              cmd_targetCellId = assigned_cell configuration (mu_nodeId u), cmd_targetRnti = mu_rnti u\<rparr>]
      else [])"

lemma ml_move_commands:
  "fst (ml_move t lg name now u n c acc) =
     fst acc @ [tech_command t \<lparr>cmd_targetE2NodeId = n, cmd_targetCellId = c, cmd_targetRnti = mu_rnti u\<rparr>]"
  by (simp add: ml_move_def Let_def)

lemma assigned_cells:
  "assigned_cell 0 2 = 1" "assigned_cell 1 2 = 1" "assigned_cell 2 2 = 2" "assigned_cell 3 2 = 2"
  "assigned_cell 0 3 = 1" "assigned_cell 1 3 = 2" "assigned_cell 2 3 = 1" "assigned_cell 3 3 = 2"
  by (simp_all add: assigned_cell_def)

lemma ml_ue_outside:
  assumes "mu_nodeId u \<notin> {2, 3} \<or> mu_cellId u \<notin> {1, 2} \<or> configuration \<notin> {0, 1, 2, 3}"
  shows "ml_ue t lg name now configuration u acc = acc"
  using assms by (elim disjE) (simp_all add: ml_ue_def)

lemma ml_ue_commands: "fst (ml_ue t lg name now configuration u acc) = fst acc @ learned_order t configuration u"
proof (cases "mu_nodeId u \<notin> {2, 3} \<or> mu_cellId u \<notin> {1, 2} \<or> configuration \<notin> {0, 1, 2, 3}")
  case True
  have "configuration \<in> {0..3} \<longleftrightarrow> configuration \<in> {0, 1, 2, 3}" by auto
  with True have "learned_order t configuration u = []" unfolding learned_order_def by metis
  with ml_ue_outside [OF True] show ?thesis by simp
next
  case False
  then have "configuration = 0 \<or> configuration = 1 \<or> configuration = 2 \<or> configuration = 3"
    and n: "mu_nodeId u = 2 \<or> mu_nodeId u = 3" and c: "mu_cellId u = 1 \<or> mu_cellId u = 2" by simp_all
  then show ?thesis
    by (elim disjE) (simp_all add: ml_ue_def learned_order_def ml_move_commands assigned_cells)
qed

lemma ml_move_log:
  "logs_only lg \<Longrightarrow> only_lm_log d (snd acc) \<Longrightarrow> only_lm_log d (snd (ml_move t lg name now u n c acc))"
  unfolding ml_move_def Let_def snd_conv
  by (erule logs_onlyD) (erule only_lm_log_trans [OF _ only_lm_log_command])

lemma ml_ue_log:
  "logs_only lg \<Longrightarrow> only_lm_log d (snd acc) \<Longrightarrow> only_lm_log d (snd (ml_ue t lg name now configuration u acc))"
  by (simp add: ml_ue_def ml_move_log)

lemma ml_fold_commands:
  "fst (fold (ml_ue t lg name now configuration) us acc) = fst acc @ concat (map (learned_order t configuration) us)"
  by (induction us arbitrary: acc) (simp_all add: ml_ue_commands)

lemma ml_commands_exact:
  assumes "classify (ml_inputv (ml_features_of us ss)) = Inr configuration"
  shows "\<exists>d'. only_lm_log d d' \<and> ml_GetHandoverCommands t classify (log_rsrp verbose name now) name now d us ss =
    Inr (concat (map (learned_order t configuration) us), d')"
proof -
  let ?lg = "log_rsrp verbose name now" and ?v = "ml_inputv (ml_features_of us ss)"
  let ?d = "?lg (''ML Chooses configuration '' @ show_int configuration) (?lg (ml_input_text ?v) d)"
  let ?r = "fold (ml_ue t ?lg name now configuration) us ([], ?d)"
  have "only_lm_log d ?d" by (intro logs_onlyD [OF logs_only_log_rsrp, of d _ verbose name now] only_lm_log_refl)
  then have "only_lm_log d (snd ?r)" by (intro fold_ue_log ml_ue_log logs_only_log_rsrp) simp_all
  moreover have "ml_GetHandoverCommands t classify ?lg name now d us ss = Inr ?r"
    using assms by (simp add: ml_GetHandoverCommands_def Let_def)
  moreover have "fst ?r = concat (map (learned_order t configuration) us)" by (simp add: ml_fold_commands)
  ultimately show ?thesis by (intro exI [of _ "snd ?r"]) (simp add: prod_eq_iff)
qed

text \<open>A run that returns only writes the log of the module, and it returns if the classifier does.\<close>

lemma ml_Run_log:
  assumes "ml_Run t classify active ric verbose name now d = Inr (cs, d')"
  shows "only_lm_log d d'"
proof (cases active)
  case True
  let ?us = "ml_GetUeInfos t now d" and ?ss = "ml_GetStationInfos t now d"
  from True assms have run: "ml_GetHandoverCommands t classify (log_rsrp verbose name now) name now d ?us ?ss = Inr (cs, d')"
    by (simp add: ml_Run_def)
  then obtain conf where "classify (ml_inputv (ml_features_of ?us ?ss)) = Inr conf"
    by (auto simp: ml_GetHandoverCommands_def Let_def)
  from ml_commands_exact [of classify ?us ?ss, OF this, of d t verbose name now] run show ?thesis by auto
qed (use assms in \<open>simp add: ml_Run_def\<close>)

lemma ml_Run_returns:
  assumes "\<And>v. \<exists>c. classify v = Inr c"
  shows "\<exists>out. ml_Run t classify active True verbose name now d = Inr out"
proof -
  obtain c where "classify (ml_inputv (ml_features_of (ml_GetUeInfos t now d) (ml_GetStationInfos t now d))) = Inr c"
    using assms by blast
  from ml_commands_exact [of classify "ml_GetUeInfos t now d", OF this, of d t verbose name now] show ?thesis
    by (auto simp: ml_Run_def)
qed

lemma onnx_configuration_returns: "session v \<noteq> [] \<Longrightarrow> \<exists>c. onnx_configuration session v = Inr c"
  by (cases "session v") (simp_all add: onnx_configuration_def)

section \<open>Property\<close>

text \<open>
  C14: A run of the module with an ONNX classifier does exactly what the model says. The model is asked with
  twelve numbers: for each of the UEs 1 to 4 the distance to the last station of cell 1, to the last other
  station, and its loss, with zeros for what is not known. The index of its first highest score is the
  configuration, whose two bits are the cells of UE 2 and UE 3: a UE that is in the other cell is
  handed over, by a command to its serving station, and no other command is issued. In the repository only
  the log changes.
\<close>

theorem learned_commands_exact:
  assumes "session (concat (map (input_row ueInfos stations) [1, 2, 3, 4])) = scores"
    and "scores \<noteq> []" and "length scores \<le> 2 ^ 31"
  shows "\<exists>n d'. first_max scores n \<and> only_lm_log d d' \<and>
    ml_GetHandoverCommands t (onnx_configuration session) (log_rsrp verbose name now) name now d ueInfos stations =
      Inr (concat (map (learned_order t (int n)) ueInfos), d')"
proof -
  let ?v = "ml_inputv (ml_features_of ueInfos stations)"
  have s: "session ?v = scores" using assms(1) by (simp add: inputv_exact)
  obtain n where n: "onnx_configuration session ?v = Inr (int n)" "first_max scores n"
    using onnx_configuration_max [of session ?v] assms(2,3) unfolding s by blast
  from ml_commands_exact [of "onnx_configuration session" ueInfos, OF n(1), of d t verbose name now] n(2) show ?thesis
    by auto
qed

definition ex_ml_ues :: "ml_ue_info list" where
  "ex_ml_ues = map (\<lambda>n. \<lparr>mu_nodeId = n, mu_cellId = 1, mu_rnti = 7, mu_loss = 0, mu_position = ex_pos\<rparr>) [2, 3]"

theorem learned_commands_exact_witness:
  "\<exists>d'. ml_GetHandoverCommands TechNr (onnx_configuration (\<lambda>v. [v ! 2, 1, 5, 2])) (log_rsrp False [] 9) [] 9 ex_data ex_ml_ues [] =
     Inr ([OranCommandNr2NrHandover \<lparr>cmd_targetE2NodeId = 5, cmd_targetCellId = 2, cmd_targetRnti = 7\<rparr>], d')"
proof -
  have input: "concat (map (input_row ex_ml_ues []) [1, 2, 3, 4]) = [0, 0, 0, 0, 0, 0, 0, 0, 0, 0, 0, 0]"
    by (simp add: input_row_def ex_ml_ues_def ml_key_def last_distance_def)
  obtain n d' where n: "first_max [0, 1, 5, 2] n" and run:
    "ml_GetHandoverCommands TechNr (onnx_configuration (\<lambda>v. [v ! 2, 1, 5, 2])) (log_rsrp False [] 9) [] 9 ex_data ex_ml_ues [] =
       Inr (concat (map (learned_order TechNr (int n)) ex_ml_ues), d')"
    using learned_commands_exact [of "\<lambda>v. [v ! 2, 1, 5, 2]" ex_ml_ues "[]" "[0, 1, 5, 2]" ex_data TechNr False "[]" 9]
    unfolding input by auto
  have "n < length [0, 1, 5, 2 :: double]" "[0, 1, 5, 2] ! 2 \<le> [0, 1, 5, 2 :: double] ! n"
    by (rule first_maxD [OF n], rule first_maxD(2) [OF n]) simp
  then have "n = 2" by (cases "n = 0"; cases "n = 1"; cases "n = 3") auto
  with run show ?thesis by (simp add: learned_order_def ex_ml_ues_def assigned_cells tech_command_def)
qed

end
