(* ===== verification/Lm_Secrecy_Onnx.thy ===== *)
theory Lm_Secrecy_Onnx
  imports Lm_Secrecy Lm_Learned
begin

text \<open>
  The logic module \<open>OranLmNrOnnxSecrecyAwareHandover\<close>
  (\<open>oran-lm-nr-onnx-secrecy-aware-handover.cc\<close>): the secrecy-aware module of \<open>Lm_Secrecy\<close> with
  a trigger in front of it. While the secrecy of the serving cell is sufficient, a trained model is asked
  for the probability of a handover, and only above a threshold a better cell is looked for. The methods
  that read the repository, the risk map and the leakage models have the text of those of \<open>Lm_Secrecy\<close>
  and are used from there. A loaded session is a parameter: the values of its output \<open>probabilities\<close>.
\<close>

section \<open>Attributes and state\<close>

record osec_params =
  op_sec :: sec_params
  op_enableMlTrigger :: bool
  op_sessionTn :: "onnx_session option"
  op_sessionNtn :: "onnx_session option"
  op_tnCellIdMax :: uint16
  op_hoProbThr :: double
  op_mlSecrecyTarget :: double

definition OranLmNrOnnxSecrecyAwareHandover :: osec_params where
  "OranLmNrOnnxSecrecyAwareHandover =
     \<lparr>op_sec = \<lparr>sp_hysteresisDb = 2, sp_rsrpThresholdDb = 2, sp_warmup = 2000000000, sp_minHoInterval = 2000000000,
        sp_hoAttemptTimeout = 2000000000, sp_secrecyRateThr = 1 / 10, sp_eavSinrDb = - 5, sp_requireSinr = True,
        sp_leakageModel = ''oracle'', sp_riskMapFile = [], sp_riskMinEavSinrDb = - 15, sp_riskMaxEavSinrDb = 5\<rparr>,
      op_enableMlTrigger = False, op_sessionTn = None, op_sessionNtn = None, op_tnCellIdMax = 10,
      op_hoProbThr = 1 / 5, op_mlSecrecyTarget = 1 / 10\<rparr>"

record prev_state =
  ps_hasPrev :: bool
  ps_ueSinrDb :: double
  ps_secrecy :: double
  ps_outage :: double

definition PrevState :: prev_state where
  "PrevState = \<lparr>ps_hasPrev = False, ps_ueSinrDb = - 100, ps_secrecy = 0, ps_outage = 0\<rparr>"

type_synonym prev_map = "(uint64 \<times> prev_state) list"

record osec_static =
  os_sec :: sec_static
  os_prev :: prev_map

section \<open>The model\<close>

definition load_session ::
  "(string \<Rightarrow> bool) \<Rightarrow> (string \<Rightarrow> onnx_session option) \<Rightarrow> string \<Rightarrow> onnx_session option res" where
  "load_session good open_session path =
     (if path = [] then Inr None
      else abort_if (\<not> good path) FileNotFound
             (case open_session path of None \<Rightarrow> Inl ModelNotLoaded | Some s \<Rightarrow> Inr (Some s)))"

definition SetOnnxModelPathTn ::
  "(string \<Rightarrow> bool) \<Rightarrow> (string \<Rightarrow> onnx_session option) \<Rightarrow> string \<Rightarrow> osec_params \<Rightarrow> osec_params res" where
  "SetOnnxModelPathTn good open_session path p =
     res_bind (load_session good open_session path) (\<lambda>s. Inr (p\<lparr>op_sessionTn := s\<rparr>))"

definition SetOnnxModelPathNtn ::
  "(string \<Rightarrow> bool) \<Rightarrow> (string \<Rightarrow> onnx_session option) \<Rightarrow> string \<Rightarrow> osec_params \<Rightarrow> osec_params res" where
  "SetOnnxModelPathNtn good open_session path p =
     res_bind (load_session good open_session path) (\<lambda>s. Inr (p\<lparr>op_sessionNtn := s\<rparr>))"

definition PickSessionForCell :: "osec_params \<Rightarrow> uint16 \<Rightarrow> onnx_session option" where
  "PickSessionForCell p servingCellId =
     (if servingCellId \<noteq> 0 \<and> servingCellId \<le> op_tnCellIdMax p then op_sessionTn p else op_sessionNtn p)"

definition LinToDbForMl :: "double \<Rightarrow> double" where
  "LinToDbForMl xLin = (if xLin \<le> 0 then - 100 else 10 * log 10 xLin)"

definition clamp_probability :: "double \<Rightarrow> double" where
  "clamp_probability p = (let p1 = (if p < 0 then 0 else p) in if p1 > 1 then 1 else p1)"

definition InferHoProbability :: "onnx_session \<Rightarrow> double list \<Rightarrow> double res" where
  "InferHoProbability sess x =
     (let d = sess x
      in if length d = 1 then Inr (clamp_probability (d ! 0))
         else if length d = 2 then Inr (clamp_probability (d ! 1))
         else Inl UnexpectedOutput)"

section \<open>The trigger\<close>

definition sec_thr :: "osec_params \<Rightarrow> double" where
  "sec_thr p = (if sp_secrecyRateThr (op_sec p) > 0 then sp_secrecyRateThr (op_sec p) else op_mlSecrecyTarget p)"

definition osec_outage :: "osec_params \<Rightarrow> serving \<Rightarrow> bool" where
  "osec_outage p sv = (currentCs sv < sec_thr p)"

definition current_state :: "osec_params \<Rightarrow> serving \<Rightarrow> prev_state" where
  "current_state p sv =
     \<lparr>ps_hasPrev = True, ps_ueSinrDb = LinToDbForMl (sv_sinrLin sv), ps_secrecy = currentCs sv,
      ps_outage = (if currentCs sv < op_mlSecrecyTarget p then 1 else 0)\<rparr>"

definition gate_input :: "serving \<Rightarrow> prev_state \<Rightarrow> prev_state \<Rightarrow> double list" where
  "gate_input sv ps cur =
     [ps_ueSinrDb cur, LinToDbForMl (sv_geLin sv), ps_secrecy cur, ps_outage cur, ps_ueSinrDb ps, ps_secrecy ps,
      ps_outage ps, ps_ueSinrDb cur - ps_ueSinrDb ps, ps_secrecy cur - ps_secrecy ps]"

text \<open>Whether the trigger blocks the UE, and the remembered state of the UEs.\<close>

definition ml_gate :: "osec_params \<Rightarrow> uint64 \<Rightarrow> serving \<Rightarrow> prev_map \<Rightarrow> (bool \<times> prev_map) res" where
  "ml_gate p u sv prev =
     (if op_enableMlTrigger p \<and> \<not> osec_outage p sv
      then case PickSessionForCell p (sv_cellId sv) of
             None \<Rightarrow> Inr (False, prev)
           | Some sess \<Rightarrow>
               let ps = smap_get PrevState prev u; cur = current_state p sv
               in if ps_hasPrev ps
                  then res_bind (InferHoProbability sess (gate_input sv ps cur)) (\<lambda>pHo.
                         Inr (\<not> pHo > op_hoProbThr p, smap_upd u cur prev))
                  else Inr (False, smap_upd u cur prev)
      else Inr (False, prev))"

section \<open>One run of the module\<close>

fun osec_normal_choice :: "osec_params \<Rightarrow> serving \<Rightarrow> (uint16 \<Rightarrow> bool \<times> double) \<Rightarrow> cand list \<Rightarrow> uint16" where
  "osec_normal_choice p sv eve [] = sv_cellId sv"
| "osec_normal_choice p sv eve (c # cs) =
     (if fst c = sv_cellId sv then osec_normal_choice p sv eve cs
      else if \<not> snd c - sv_rsrp sv > max (sp_hysteresisDb (op_sec p)) (sp_rsrpThresholdDb (op_sec p))
      then osec_normal_choice p sv eve cs
      else if candidate_cs (op_sec p) sv eve c < sec_thr p then osec_normal_choice p sv eve cs
      else fst c)"

definition osec_choice ::
  "osec_params \<Rightarrow> (uint16 \<times> double) list \<Rightarrow> oran_data \<Rightarrow> serving \<Rightarrow> cand list \<Rightarrow> uint16" where
  "osec_choice p risks d sv cands =
     (if \<not> osec_outage p sv
      then osec_normal_choice p sv (GetLeakageSinrLinForCell (op_sec p) risks d) cands
      else outage_choice (op_sec p) sv (GetWorstEveSinrLinForCell d) cands)"

definition osec_emit ::
  "string \<Rightarrow> time \<Rightarrow> gnb_info list \<Rightarrow> uint64 \<Rightarrow> uint64 \<Rightarrow> uint16 \<Rightarrow> uint16 \<Rightarrow> sec_tick \<Rightarrow> sec_tick res" where
  "osec_emit name now gnbInfos u oldCellNodeId rnti chosen tk =
     abort_if (GetServingGnbNodeId gnbInfos chosen = 0) NoGnbForCell
       (let h = \<lparr>cmd_targetE2NodeId = oldCellNodeId, cmd_targetCellId = chosen, cmd_targetRnti = rnti\<rparr>
        in Inr (tk\<lparr>st_data := LogCommandLm now name (OranCommandNr2NrHandover h) (st_data tk),
                  st_commands := st_commands tk @ [(u, h)],
                  st_last := smap_upd u now (st_last tk),
                  st_pending := smap_upd u chosen (st_pending tk)\<rparr>))"

definition osec_ue ::
  "string \<Rightarrow> time \<Rightarrow> osec_params \<Rightarrow> sec_static \<Rightarrow> gnb_info list \<Rightarrow> ue_info \<Rightarrow> sec_tick \<times> prev_map \<Rightarrow>
   (sec_tick \<times> prev_map) res" where
  "osec_ue name now p st gnbInfos ueInfo s =
     (let tk = fst s; prev = snd s; u = ui_nodeId ueInfo; sm = sec_collect (GetNrUeRsrpRsrq (st_data tk) u);
          cur = sm_servingCellId sm; rnti = sm_servingRnti sm
      in if cur = 0 \<or> rnti = 0 then Inr (tk, prev)
         else
           let tk1 = tk\<lparr>st_pending := clear_reached u cur (st_pending tk)\<rparr>
           in if map_of (st_pending tk1) u \<noteq> None \<and> recently now (sp_hoAttemptTimeout (op_sec p)) (st_last tk1) u
              then Inr (tk1, prev)
              else
                let oldCellNodeId = GetServingGnbNodeId gnbInfos cur
                in if oldCellNodeId = 0 then Inr (tk1, prev)
                   else case serving_of (op_sec p) (ss_cellRisk st) (st_data tk1) u sm of
                          None \<Rightarrow> Inr (tk1, prev)
                        | Some sv \<Rightarrow>
                            res_bind (ml_gate p u sv prev) (\<lambda>(blocked, prev1).
                              if blocked then Inr (tk1, prev1)
                              else if \<not> osec_outage p sv \<and> recently now (sp_minHoInterval (op_sec p)) (st_last tk1) u
                              then Inr (tk1, prev1)
                              else
                                let chosen = osec_choice p (ss_cellRisk st) (st_data tk1) sv (ss_sort st (sm_cands sm))
                                in if chosen = cur then Inr (tk1, prev1)
                                   else res_bind (osec_emit name now gnbInfos u oldCellNodeId rnti chosen tk1) (\<lambda>tk2.
                                          Inr (tk2, prev1))))"

definition osec_GetHandoverCommands ::
  "string \<Rightarrow> time \<Rightarrow> osec_params \<Rightarrow> osec_static \<Rightarrow> oran_data \<Rightarrow> ue_info list \<Rightarrow> gnb_info list \<Rightarrow>
   (oran_command list \<times> osec_static \<times> oran_data) res" where
  "osec_GetHandoverCommands name now p st d ueInfos gnbInfos =
     (if now < sp_warmup (op_sec p) then Inr ([], st, d)
      else res_bind (res_fold (osec_ue name now p (os_sec st) gnbInfos) ueInfos (sec_start (os_sec st) d, os_prev st))
             (\<lambda>(tk, prev).
                Inr (map (OranCommandNr2NrHandover \<circ> snd) (st_commands tk),
                     st\<lparr>os_sec := (os_sec st)\<lparr>ss_lastHoCmdTime := st_last tk, ss_pendingHoTarget := st_pending tk\<rparr>,
                        os_prev := prev\<rparr>, st_data tk)))"

definition osec_Run ::
  "bool \<Rightarrow> bool \<Rightarrow> string \<Rightarrow> time \<Rightarrow> osec_params \<Rightarrow> osec_static \<Rightarrow> oran_data \<Rightarrow>
   (oran_command list \<times> osec_static \<times> oran_data) res" where
  "osec_Run active ric name now p st d =
     (if \<not> active then Inr ([], st, d)
      else abort_if (\<not> ric) NullNearRtRic
             (osec_GetHandoverCommands name now p (st\<lparr>os_sec := LoadRiskMapIfNeeded (op_sec p) (os_sec st)\<rparr>) d
                (sec_GetUeInfos now d) (sec_GetGnbInfos now d)))"

section \<open>The secrecy-aware module behind the trigger\<close>

text \<open>The attributes of the secrecy-aware module with the threshold this module uses.\<close>

definition effective :: "osec_params \<Rightarrow> sec_params" where
  "effective p = (op_sec p)\<lparr>sp_secrecyRateThr := sec_thr p\<rparr>"

lemma effective_fields [simp]:
  "sp_hysteresisDb (effective p) = sp_hysteresisDb (op_sec p)"
  "sp_rsrpThresholdDb (effective p) = sp_rsrpThresholdDb (op_sec p)"
  "sp_warmup (effective p) = sp_warmup (op_sec p)"
  "sp_minHoInterval (effective p) = sp_minHoInterval (op_sec p)"
  "sp_hoAttemptTimeout (effective p) = sp_hoAttemptTimeout (op_sec p)"
  "sp_eavSinrDb (effective p) = sp_eavSinrDb (op_sec p)"
  "sp_requireSinr (effective p) = sp_requireSinr (op_sec p)"
  "sp_leakageModel (effective p) = sp_leakageModel (op_sec p)"
  "sp_riskMapFile (effective p) = sp_riskMapFile (op_sec p)"
  by (simp_all add: effective_def)

lemma effective_reads [simp]:
  "candidate_cs (effective p) = candidate_cs (op_sec p)"
  "riskToGe (effective p) = riskToGe (op_sec p)"
  "GetLeakageSinrLinForCell (effective p) = GetLeakageSinrLinForCell (op_sec p)"
  "serving_of (effective p) = serving_of (op_sec p)"
  "outage_choice (effective p) = outage_choice (op_sec p)"
  "LoadRiskMapIfNeeded (effective p) = LoadRiskMapIfNeeded (op_sec p)"
proof -
  show c: "candidate_cs (effective p) = candidate_cs (op_sec p)"
    by (intro ext) (simp add: candidate_cs_def split: prod.split)
  show r: "riskToGe (effective p) = riskToGe (op_sec p)"
    by (intro ext) (simp add: riskToGe_def effective_def)
  show l: "GetLeakageSinrLinForCell (effective p) = GetLeakageSinrLinForCell (op_sec p)"
    by (intro ext) (simp add: GetLeakageSinrLinForCell_def r split: prod.split)
  show "serving_of (effective p) = serving_of (op_sec p)"
    by (intro ext) (simp add: serving_of_def l split: prod.split)
  have "outage_step (effective p) = outage_step (op_sec p)"
    by (intro ext) (simp add: outage_step_def c split: prod.split)
  then show "outage_choice (effective p) = outage_choice (op_sec p)"
    by (intro ext) (simp add: outage_choice_def)
  show "LoadRiskMapIfNeeded (effective p) = LoadRiskMapIfNeeded (op_sec p)"
    by (intro ext) (simp add: LoadRiskMapIfNeeded_def Let_def split: option.split)
qed

lemma effective_secrecyOk: "0 < sec_thr p \<Longrightarrow> secrecyOk (effective p) cs \<longleftrightarrow> \<not> cs < sec_thr p"
  by (auto simp: secrecyOk_def effective_def)

lemma effective_outage: "0 < sec_thr p \<Longrightarrow> currentOutage (effective p) sv = osec_outage p sv"
  by (simp add: secrecyOk_outage effective_secrecyOk osec_outage_def)

lemma osec_normal_choice_eq:
  "0 < sec_thr p \<Longrightarrow> osec_normal_choice p sv eve cs = normal_choice (effective p) sv eve cs"
  by (induction cs) (simp_all add: effective_secrecyOk)

lemma osec_choice_eq: "0 < sec_thr p \<Longrightarrow> osec_choice p risks d sv cs = sec_choice (effective p) risks d sv cs"
  by (simp add: osec_choice_def sec_choice_def effective_outage osec_normal_choice_eq)

lemma osec_emit_eq: "osec_emit name now gnbInfos u g r ch tk = sec_emit False name now gnbInfos u g r cur ch tk"
  by (cases tk) (simp add: osec_emit_def sec_emit_def log_rsrp_def Let_def)

text \<open>The serving cell of a UE that reaches the trigger.\<close>

definition gate_serving ::
  "time \<Rightarrow> osec_params \<Rightarrow> sec_static \<Rightarrow> gnb_info list \<Rightarrow> uint64 \<Rightarrow> sec_tick \<Rightarrow> serving option" where
  "gate_serving now p st gnbInfos u tk =
     (let sm = sec_collect (GetNrUeRsrpRsrq (st_data tk) u); cur = sm_servingCellId sm;
          pend = clear_reached u cur (st_pending tk)
      in if cur = 0 \<or> sm_servingRnti sm = 0 \<or>
            (map_of pend u \<noteq> None \<and> recently now (sp_hoAttemptTimeout (op_sec p)) (st_last tk) u) \<or>
            GetServingGnbNodeId gnbInfos cur = 0
         then None
         else serving_of (op_sec p) (ss_cellRisk st) (st_data tk) u sm)"

text \<open>
  A UE is handled as by the secrecy-aware module, which logs no text, unless it reaches the trigger and is
  blocked there.
\<close>

lemma osec_ue_eq:
  assumes "0 < sec_thr p"
  shows "osec_ue name now p st gnbInfos x (tk, prev) =
    (case gate_serving now p st gnbInfos (ui_nodeId x) tk of
       None \<Rightarrow> res_bind (sec_ue False name now (effective p) st gnbInfos x tk) (\<lambda>tk'. Inr (tk', prev))
     | Some sv \<Rightarrow> res_bind (ml_gate p (ui_nodeId x) sv prev) (\<lambda>(blocked, prev1).
         if blocked then Inr (tk\<lparr>st_pending := clear_reached (ui_nodeId x) (sv_cellId sv) (st_pending tk)\<rparr>, prev1)
         else res_bind (sec_ue False name now (effective p) st gnbInfos x tk) (\<lambda>tk'. Inr (tk', prev1))))"
proof (cases "gate_serving now p st gnbInfos (ui_nodeId x) tk")
  case None
  then show ?thesis
    unfolding osec_ue_def sec_ue_def gate_serving_def Let_def fst_conv snd_conv
    by (auto split: if_splits)
next
  case (Some sv)
  let ?sm = "sec_collect (GetNrUeRsrpRsrq (st_data tk) (ui_nodeId x))"
  have sv: "serving_of (op_sec p) (ss_cellRisk st) (st_data tk) (ui_nodeId x) ?sm = Some sv"
    using Some by (auto simp: gate_serving_def Let_def split: if_splits)
  note cell = serving_of_cell [OF this, THEN conjunct1]
  show ?thesis
    using Some sv unfolding osec_ue_def sec_ue_def gate_serving_def Let_def fst_conv snd_conv
    by (auto simp: osec_emit_eq [where cur = "sv_cellId sv"] osec_choice_eq [OF assms] effective_outage [OF assms] cell
        intro!: arg_cong [where f = "res_bind (ml_gate p (ui_nodeId x) sv prev)"] ext split: if_splits)
qed

section \<open>The handover orders of a run\<close>

text \<open>The trigger lets a UE pass, by the state remembered before the run.\<close>

definition trigger_open :: "osec_params \<Rightarrow> prev_map \<Rightarrow> uint64 \<Rightarrow> serving \<Rightarrow> bool" where
  "trigger_open p prev u sv \<longleftrightarrow>
     (op_enableMlTrigger p \<and> \<not> osec_outage p sv \<and> ps_hasPrev (smap_get PrevState prev u) \<longrightarrow>
      (\<forall>sess. PickSessionForCell p (sv_cellId sv) = Some sess \<longrightarrow>
         (\<exists>pHo. InferHoProbability sess (gate_input sv (smap_get PrevState prev u) (current_state p sv)) = Inr pHo \<and>
            op_hoProbThr p < pHo)))"

lemma ml_gate_open: "ml_gate p u sv prev = Inr (False, prev1) \<Longrightarrow> trigger_open p prev u sv"
  by (auto simp: ml_gate_def trigger_open_def Let_def split: if_splits option.splits)

lemma ml_gate_prev: "ml_gate p u sv prev = Inr (b, prev1) \<Longrightarrow> u' \<noteq> u \<Longrightarrow> map_of prev1 u' = map_of prev u'"
  by (auto simp: ml_gate_def Let_def split: if_splits option.splits)

lemma trigger_open_lookup: "map_of prev u = map_of prev' u \<Longrightarrow> trigger_open p prev u sv = trigger_open p prev' u sv"
  by (simp add: trigger_open_def smap_get_def)

definition sound_triggered_handover ::
  "osec_params \<Rightarrow> (uint16 \<times> double) list \<Rightarrow> prev_map \<Rightarrow> gnb_info list \<Rightarrow> oran_data \<Rightarrow> uint64 \<Rightarrow> handover_cmd \<Rightarrow> bool" where
  "sound_triggered_handover p risks prev gnbInfos d u h \<longleftrightarrow>
     sound_secrecy_handover (effective p) risks gnbInfos d u h \<and>
     (\<forall>sv. serving_of (op_sec p) risks d u (sec_collect (GetNrUeRsrpRsrq d u)) = Some sv \<longrightarrow> trigger_open p prev u sv)"

lemma gate_serving_of:
  assumes "gate_serving now p st gnbInfos u tk = Some sv" and "only_lm_log d (st_data tk)"
  shows "serving_of (op_sec p) (ss_cellRisk st) d u (sec_collect (GetNrUeRsrpRsrq d u)) = Some sv"
  using assms(1) by (auto simp: gate_serving_def Let_def GetNrUeRsrpRsrq_lm_log [OF assms(2)] serving_of_lm_log [OF assms(2)]
      split: if_splits)

lemma sec_ue_idle:
  "gate_serving now p st gnbInfos (ui_nodeId x) tk = None \<Longrightarrow>
     \<exists>pend. sec_ue verbose name now (effective p) st gnbInfos x tk = Inr (tk\<lparr>st_pending := pend\<rparr>)"
  unfolding sec_ue_def gate_serving_def Let_def
  by (auto split: if_splits intro: exI [of _ "st_pending tk"])

text \<open>What one UE changes: at most its own remembered state, and at most one command, which is justified.\<close>

lemma osec_ue_step:
  assumes "osec_ue name now p st gnbInfos x (tk, prev) = Inr (tk', prev')" and "0 < sec_thr p" and "sort_ok (ss_sort st)"
    and log: "only_lm_log d (st_data tk)"
  shows "only_lm_log d (st_data tk')" and "u \<noteq> ui_nodeId x \<Longrightarrow> map_of prev' u = map_of prev u"
    and "\<exists>new. st_commands tk' = st_commands tk @ new \<and>
      (\<forall>(u, h)\<in>set new. u = ui_nodeId x \<and> sound_triggered_handover p (ss_cellRisk st) prev gnbInfos d u h)"
proof -
  let ?u = "ui_nodeId x" and ?s = "sec_ue False name now (effective p) st gnbInfos x tk"
  let ?g = "gate_serving now p st gnbInfos ?u tk"
  note eq = assms(1) [unfolded osec_ue_eq [OF assms(2)]]
  show "map_of prev' u = map_of prev u" if "u \<noteq> ?u"
    using eq that by (auto dest: ml_gate_prev split: option.splits if_splits)
  consider (idle) pend where "tk' = tk\<lparr>st_pending := pend\<rparr>"
    | (gate) sv where "?s = Inr tk'" "?g = Some sv" "ml_gate p ?u sv prev = Inr (False, prev')"
    using eq sec_ue_idle [of now p st gnbInfos x tk False name] by (auto split: option.splits if_splits)
  then have "only_lm_log d (st_data tk') \<and> (\<exists>new. st_commands tk' = st_commands tk @ new \<and>
      (\<forall>(u, h)\<in>set new. u = ?u \<and> sound_triggered_handover p (ss_cellRisk st) prev gnbInfos d u h))"
  proof cases
    case idle
    then show ?thesis using log by simp
  next
    case gate
    have trig: "\<forall>sv. serving_of (op_sec p) (ss_cellRisk st) d ?u (sec_collect (GetNrUeRsrpRsrq d ?u)) = Some sv \<longrightarrow>
        trigger_open p prev ?u sv"
      using gate_serving_of [OF gate(2) log] ml_gate_open [OF gate(3)] by simp
    from log show ?thesis
    proof (cases rule: sec_ue_cases [of d tk False name now "effective p" st gnbInfos x])
      case (idle pend)
      with gate(1) log show ?thesis by auto
    next
      case (order sv chosen pend)
      from gate(1) [unfolded order(3)] obtain d' where e: "GetServingGnbNodeId gnbInfos chosen \<noteq> 0"
        "only_lm_log (st_data (tk\<lparr>st_pending := pend\<rparr>)) d'" "st_data tk' = d'"
        "st_commands tk' = st_commands tk @ [(?u, \<lparr>cmd_targetE2NodeId = GetServingGnbNodeId gnbInfos (sv_cellId sv),
           cmd_targetCellId = chosen, cmd_targetRnti = sm_servingRnti (sec_collect (GetNrUeRsrpRsrq d ?u))\<rparr>)]"
        by (rule sec_emit_eq) auto
      with trig decides_sound [OF order(1) assms(3) e(1)] only_lm_log_trans [OF log, of d'] show ?thesis
        by (simp add: sound_triggered_handover_def)
    qed
  qed
  then show "only_lm_log d (st_data tk')" and "\<exists>new. st_commands tk' = st_commands tk @ new \<and>
      (\<forall>(u, h)\<in>set new. u = ?u \<and> sound_triggered_handover p (ss_cellRisk st) prev gnbInfos d u h)" by auto
qed

lemma osec_fold_sound:
  assumes "res_fold (osec_ue name now p st gnbInfos) ueInfos (tk, prev) = Inr (tk', prev')"
    and "0 < sec_thr p" and "sort_ok (ss_sort st)" and "distinct (map ui_nodeId ueInfos)" and "only_lm_log d (st_data tk)"
    and "\<forall>u\<in>ui_nodeId ` set ueInfos. map_of prev u = map_of prev0 u"
  shows "only_lm_log d (st_data tk') \<and> (\<exists>new. st_commands tk' = st_commands tk @ new \<and>
    (\<forall>(u, h)\<in>set new. u \<in> ui_nodeId ` set ueInfos \<and> sound_triggered_handover p (ss_cellRisk st) prev0 gnbInfos d u h))"
  using assms(1,4-6)
proof (induction ueInfos arbitrary: tk prev)
  case (Cons x ues)
  from Cons.prems(1) obtain tk1 prev1 where step: "osec_ue name now p st gnbInfos x (tk, prev) = Inr (tk1, prev1)"
    and rest: "res_fold (osec_ue name now p st gnbInfos) ues (tk1, prev1) = Inr (tk', prev')" by auto
  note st = osec_ue_step [OF step assms(2,3) Cons.prems(3)]
  have "\<forall>u\<in>ui_nodeId ` set ues. map_of prev1 u = map_of prev0 u"
  proof
    fix u assume u: "u \<in> ui_nodeId ` set ues"
    moreover have "ui_nodeId x \<notin> ui_nodeId ` set ues" using Cons.prems(2) by simp
    ultimately have "u \<noteq> ui_nodeId x" by blast
    with st(2) u Cons.prems(4) show "map_of prev1 u = map_of prev0 u" by auto
  qed
  with Cons.IH [OF rest _ st(1)] Cons.prems(2) obtain new where new: "only_lm_log d (st_data tk')"
    "st_commands tk' = st_commands tk1 @ new"
    "\<forall>(u, h)\<in>set new. u \<in> ui_nodeId ` set ues \<and> sound_triggered_handover p (ss_cellRisk st) prev0 gnbInfos d u h"
    by auto
  from st(3) obtain new1 where new1: "st_commands tk1 = st_commands tk @ new1"
    "\<forall>(u, h)\<in>set new1. u = ui_nodeId x \<and> sound_triggered_handover p (ss_cellRisk st) prev gnbInfos d u h" by blast
  have "map_of prev (ui_nodeId x) = map_of prev0 (ui_nodeId x)" using Cons.prems(4) by simp
  note same = trigger_open_lookup [OF this, of p]
  have "sound_triggered_handover p (ss_cellRisk st) prev gnbInfos d (ui_nodeId x) h =
      sound_triggered_handover p (ss_cellRisk st) prev0 gnbInfos d (ui_nodeId x) h" for h
    by (simp only: sound_triggered_handover_def same)
  with new new1 show ?case by (intro conjI exI [of _ "new1 @ new"]) auto
qed simp

text \<open>Without the trigger.\<close>

lemma osec_fold_untriggered:
  assumes "\<not> op_enableMlTrigger p" and "0 < sec_thr p"
  shows "res_fold (osec_ue name now p st gnbInfos) ueInfos (tk, prev) =
    res_bind (res_fold (sec_ue False name now (effective p) st gnbInfos) ueInfos tk) (\<lambda>tk'. Inr (tk', prev))"
proof (induction ueInfos arbitrary: tk)
  case (Cons x ues)
  have "ml_gate p u sv prev = Inr (False, prev)" for u sv using assms(1) by (simp add: ml_gate_def)
  then have "osec_ue name now p st gnbInfos x (tk, prev) =
      res_bind (sec_ue False name now (effective p) st gnbInfos x tk) (\<lambda>tk'. Inr (tk', prev))"
    by (simp add: osec_ue_eq [OF assms(2)] split: option.split)
  then show ?case
    by (cases "sec_ue False name now (effective p) st gnbInfos x tk") (simp_all add: Cons.IH)
qed simp

text \<open>In the repository a run changes only the log, whatever the threshold is.\<close>

lemma osec_ue_log:
  assumes "osec_ue name now p st gnbInfos x s = Inr s'"
  shows "only_lm_log (st_data (fst s)) (st_data (fst s'))"
  using assms by (auto simp: osec_ue_def osec_emit_def Let_def only_lm_log_command split: if_splits option.splits)

lemma osec_Run_log:
  assumes "osec_Run active ric name now p st d = Inr (cs, st', d')"
  shows "only_lm_log d d'"
proof (cases "active \<and> \<not> now < sp_warmup (op_sec p)")
  case True
  let ?st = "LoadRiskMapIfNeeded (op_sec p) (os_sec st)"
  from True assms obtain s where f: "res_fold (osec_ue name now p ?st (sec_GetGnbInfos now d)) (sec_GetUeInfos now d)
      (sec_start ?st d, os_prev st) = Inr s" and d': "d' = st_data (fst s)"
    by (auto simp: osec_Run_def osec_GetHandoverCommands_def)
  show ?thesis unfolding d'
    using f by (rule res_fold_invariant [where P = "\<lambda>s. only_lm_log d (st_data (fst s))"])
      (auto simp: sec_start_def dest: osec_ue_log intro: only_lm_log_trans)
next
  case False
  with assms show ?thesis by (cases active) (auto simp: osec_Run_def osec_GetHandoverCommands_def)
qed

section \<open>Properties\<close>

text \<open>
  C9: Every command of the triggered secrecy-aware module is one the secrecy-aware module would justify with
  the secrecy threshold of the module, and its UE was let through by the trigger: out of outage, when the
  trigger is on, a model is loaded for the kind of the serving cell and the UE was seen before, the model
  gave a probability above the threshold for the nine numbers of the UE.
\<close>

theorem triggered_handover_sound:
  assumes "osec_GetHandoverCommands name now p st d ueInfos gnbInfos = Inr (cs, st', d')"
    and "0 < sec_thr p" and "sort_ok (ss_sort (os_sec st))" and "distinct (map ui_nodeId ueInfos)"
    and "OranCommandNr2NrHandover h \<in> set cs"
  shows "sp_warmup (op_sec p) \<le> now \<and> (\<exists>u\<in>ui_nodeId ` set ueInfos.
    sound_triggered_handover p (ss_cellRisk (os_sec st)) (os_prev st) gnbInfos d u h)"
proof -
  have warm: "\<not> now < sp_warmup (op_sec p)" using assms(1,5) by (auto simp: osec_GetHandoverCommands_def)
  with assms(1) obtain tk prev where
    f: "res_fold (osec_ue name now p (os_sec st) gnbInfos) ueInfos (sec_start (os_sec st) d, os_prev st) = Inr (tk, prev)"
    and cs: "cs = map (OranCommandNr2NrHandover \<circ> snd) (st_commands tk)"
    by (auto simp: osec_GetHandoverCommands_def)
  have "only_lm_log d (st_data (sec_start (os_sec st) d))" by (simp add: sec_start_def)
  from osec_fold_sound [OF f assms(2-4) this, of "os_prev st"] assms(5) warm show ?thesis
    by (fastforce simp: cs sec_start_def)
qed

text \<open>
  The scenario of \<open>Lm_Secrecy\<close> with the trigger on: the UE was seen before, and the model for
  terrestrial cells gives a probability of nine tenths.
\<close>

definition ex_osec_params :: osec_params where
  "ex_osec_params = OranLmNrOnnxSecrecyAwareHandover
     \<lparr>op_sec := (op_sec OranLmNrOnnxSecrecyAwareHandover)\<lparr>sp_leakageModel := ''fixed'', sp_eavSinrDb := - 10\<rparr>,
      op_enableMlTrigger := True, op_sessionTn := Some (\<lambda>x. [1 / 10, 9 / 10])\<rparr>"

definition ex_osec_static :: osec_static where
  "ex_osec_static = \<lparr>os_sec = ex_sec_static, os_prev = [(1, PrevState\<lparr>ps_hasPrev := True\<rparr>)]\<rparr>"

lemma ex_capacity: "1 / 2 \<le> SecrecyCapacity 1 (1 / 10)" "1 / 2 \<le> SecrecyCapacity 100 (1 / 10)"
proof -
  have "2 * log 2 (11 / 10) = log 2 ((11 / 10) ^ 2)" by (simp add: log_nat_power)
  also have "\<dots> \<le> log 2 2" by (subst log_le_cancel_iff) (simp_all add: power2_eq_square)
  finally have "log 2 (11 / 10) \<le> 1 / 2" by simp
  then show half: "1 / 2 \<le> SecrecyCapacity 1 (1 / 10)" by (simp add: SecrecyCapacity_def Let_def)
  have "SecrecyCapacity 1 (1 / 10) \<le> SecrecyCapacity 100 (1 / 10)" by (rule SecrecyCapacity_mono) simp_all
  with half show "1 / 2 \<le> SecrecyCapacity 100 (1 / 10)" by simp
qed

lemma ex_capacity_thr: "\<not> SecrecyCapacity 1 (1 / 10) * 10 < 1" "\<not> SecrecyCapacity 100 (1 / 10) * 10 < 1"
  using ex_capacity by linarith+

lemma ex_osec_run:
  "\<exists>st' d'. osec_GetHandoverCommands [] 3000000000 ex_osec_params ex_osec_static ex_sec_data ex_ues ex_gnbs =
     Inr ([OranCommandNr2NrHandover ex_command], st', d')"
  by (simp add: osec_GetHandoverCommands_def osec_ue_def sec_start_def osec_emit_def ex_ues_def ex_gnbs_def
      ex_osec_params_def ex_osec_static_def OranLmNrOnnxSecrecyAwareHandover_def PrevState_def ml_gate_def osec_outage_def
      sec_thr_def osec_choice_def PickSessionForCell_def InferHoProbability_def clamp_probability_def smap_get_def
      ex_sec_reads sec_collect_def sec_collect_one_def serving_of_def GetServingDlDataSinrLin_def
      GetLeakageSinrLinForCell_def ex_sec_static_def currentCs_def candidate_cs_def ex_capacity_thr
      GetServingGnbNodeId_def clear_reached_def recently_def ex_command_def Let_def)

theorem triggered_handover_sound_witness:
  "sp_warmup (op_sec ex_osec_params) \<le> 3000000000 \<and> (\<exists>u\<in>ui_nodeId ` set ex_ues.
     sound_triggered_handover ex_osec_params (ss_cellRisk (os_sec ex_osec_static)) (os_prev ex_osec_static) ex_gnbs
       ex_sec_data u ex_command)"
proof -
  obtain st' d' where run: "osec_GetHandoverCommands [] 3000000000 ex_osec_params ex_osec_static ex_sec_data ex_ues ex_gnbs =
     Inr ([OranCommandNr2NrHandover ex_command], st', d')" using ex_osec_run by blast
  show ?thesis
  proof (rule triggered_handover_sound [OF run])
    show "0 < sec_thr ex_osec_params"
      by (simp add: sec_thr_def ex_osec_params_def OranLmNrOnnxSecrecyAwareHandover_def)
    show "sort_ok (ss_sort (os_sec ex_osec_static))" by (simp add: ex_osec_static_def ex_sec_static_def sort_ok_sort_key)
  qed (simp_all add: ex_ues_def)
qed

text \<open>
  C15: Without its trigger the module is the secrecy-aware module: it gives the same commands and leaves the
  same tables and repository, with the threshold of the secrecy capacity set to its own.
\<close>

theorem untriggered_is_secrecy_aware:
  assumes "\<not> op_enableMlTrigger p" and "0 < sec_thr p"
  shows "osec_Run active ric name now p st d =
    res_bind (sec_Run active ric False name now (effective p) (os_sec st) d) (\<lambda>(cs, s, d'). Inr (cs, st\<lparr>os_sec := s\<rparr>, d'))"
proof -
  have "osec_GetHandoverCommands name now p (st\<lparr>os_sec := s\<rparr>) d us gs =
      res_bind (sec_GetHandoverCommands False name now (effective p) s d us gs) (\<lambda>(cs, s', d'). Inr (cs, st\<lparr>os_sec := s'\<rparr>, d'))"
    for s us gs
    by (cases "res_fold (sec_ue False name now (effective p) s gs) us (sec_start s d)")
      (simp_all add: osec_GetHandoverCommands_def sec_GetHandoverCommands_def osec_fold_untriggered [OF assms])
  then show ?thesis by (simp add: osec_Run_def sec_Run_def abort_if_def)
qed

theorem untriggered_is_secrecy_aware_witness:
  "osec_Run True True [] 3000000000 OranLmNrOnnxSecrecyAwareHandover ex_osec_static ex_sec_data =
     res_bind (sec_Run True True False [] 3000000000 (effective OranLmNrOnnxSecrecyAwareHandover) ex_sec_static ex_sec_data)
       (\<lambda>(cs, s, d'). Inr (cs, ex_osec_static\<lparr>os_sec := s\<rparr>, d'))"
proof -
  have "os_sec ex_osec_static = ex_sec_static" by (simp add: ex_osec_static_def)
  moreover have "\<not> op_enableMlTrigger OranLmNrOnnxSecrecyAwareHandover" "0 < sec_thr OranLmNrOnnxSecrecyAwareHandover"
    by (simp_all add: sec_thr_def OranLmNrOnnxSecrecyAwareHandover_def)
  ultimately show ?thesis
    using untriggered_is_secrecy_aware [of OranLmNrOnnxSecrecyAwareHandover True True "[]" 3000000000 ex_osec_static ex_sec_data]
    by simp
qed

end
