(* ===== verification/Transport_Block.thy ===== *)
theory Transport_Block
  imports Oran_Prelude
begin

text \<open>
  How many resource blocks a transport block takes (\<open>GetDlRbSizeFromMcs\<close> of the two cell-load
  reporters, which have the same function and the same tables). The search runs down a column of the table of
  block sizes; nothing stops it at the end of the table, where the program reads on behind the array.
\<close>

definition McsToItbsDl :: "nat list" where
  "McsToItbsDl = [0, 1, 2, 3, 4, 5, 6, 7, 8, 9, 9, 10, 11, 12, 13, 14, 15, 15, 16, 17, 18, 19, 20, 21, 22, 23, 24, 25, 26]"

text \<open>The size in bits of a block by the number of resource blocks, less one, and the index of the block size.\<close>

definition TransportBlockSizeTable :: "int list list" where
  "TransportBlockSizeTable =
    [[16, 24, 32, 40, 56, 72, 88, 104, 120, 136, 144, 176, 208, 224, 256, 280, 328, 336, 376, 408, 440, 488, 520, 552, 584, 616, 712],
     [32, 56, 72, 104, 120, 144, 176, 224, 256, 296, 328, 376, 440, 488, 552, 600, 632, 696, 776, 840, 904, 1000, 1064, 1128, 1192, 1256, 1480],
     [56, 88, 144, 176, 208, 224, 256, 328, 392, 456, 504, 584, 680, 744, 840, 904, 968, 1064, 1160, 1288, 1384, 1480, 1608, 1736, 1800, 1864, 2216],
     [88, 144, 176, 208, 256, 328, 392, 472, 536, 616, 680, 776, 904, 1000, 1128, 1224, 1288, 1416, 1544, 1736, 1864, 1992, 2152, 2280, 2408, 2536, 2984],
     [120, 176, 208, 256, 328, 424, 504, 584, 680, 776, 872, 1000, 1128, 1256, 1416, 1544, 1608, 1800, 1992, 2152, 2344, 2472, 2664, 2856, 2984, 3112, 3752],
     [152, 208, 256, 328, 408, 504, 600, 712, 808, 936, 1032, 1192, 1352, 1544, 1736, 1800, 1928, 2152, 2344, 2600, 2792, 2984, 3240, 3496, 3624, 3752, 4392],
     [176, 224, 296, 392, 488, 600, 712, 840, 968, 1096, 1224, 1384, 1608, 1800, 1992, 2152, 2280, 2536, 2792, 2984, 3240, 3496, 3752, 4008, 4264, 4392, 5160],
     [208, 256, 328, 440, 552, 680, 808, 968, 1096, 1256, 1384, 1608, 1800, 2024, 2280, 2472, 2600, 2856, 3112, 3496, 3752, 4008, 4264, 4584, 4968, 5160, 5992],
     [224, 328, 376, 504, 632, 776, 936, 1096, 1256, 1416, 1544, 1800, 2024, 2280, 2600, 2728, 2984, 3240, 3624, 3880, 4136, 4584, 4776, 5160, 5544, 5736, 6712],
     [256, 344, 424, 568, 696, 872, 1032, 1224, 1384, 1544, 1736, 2024, 2280, 2536, 2856, 3112, 3240, 3624, 4008, 4264, 4584, 4968, 5352, 5736, 5992, 6200, 7480],
     [288, 376, 472, 616, 776, 968, 1128, 1320, 1544, 1736, 1928, 2216, 2472, 2856, 3112, 3368, 3624, 4008, 4392, 4776, 5160, 5544, 5992, 6200, 6712, 6968, 8248],
     [328, 424, 520, 680, 840, 1032, 1224, 1480, 1672, 1864, 2088, 2408, 2728, 3112, 3496, 3624, 3880, 4392, 4776, 5160, 5544, 5992, 6456, 6968, 7224, 7480, 8760],
     [344, 456, 568, 744, 904, 1128, 1352, 1608, 1800, 2024, 2280, 2600, 2984, 3368, 3752, 4008, 4264, 4776, 5160, 5544, 5992, 6456, 6968, 7480, 7992, 8248, 9528],
     [376, 488, 616, 808, 1000, 1224, 1480, 1672, 1928, 2216, 2472, 2792, 3240, 3624, 4008, 4264, 4584, 5160, 5544, 5992, 6456, 6968, 7480, 7992, 8504, 8760, 10296],
     [392, 520, 648, 872, 1064, 1320, 1544, 1800, 2088, 2344, 2664, 2984, 3368, 3880, 4264, 4584, 4968, 5352, 5992, 6456, 6968, 7480, 7992, 8504, 9144, 9528, 11064],
     [424, 568, 696, 904, 1128, 1384, 1672, 1928, 2216, 2536, 2792, 3240, 3624, 4136, 4584, 4968, 5160, 5736, 6200, 6968, 7480, 7992, 8504, 9144, 9912, 10296, 11832],
     [456, 600, 744, 968, 1192, 1480, 1736, 2088, 2344, 2664, 2984, 3496, 3880, 4392, 4968, 5160, 5544, 6200, 6712, 7224, 7992, 8504, 9144, 9912, 10296, 10680, 12576],
     [488, 632, 776, 1032, 1288, 1544, 1864, 2216, 2536, 2856, 3112, 3624, 4136, 4584, 5160, 5544, 5992, 6456, 7224, 7736, 8248, 9144, 9528, 10296, 11064, 11448, 13536],
     [504, 680, 840, 1096, 1352, 1672, 1992, 2344, 2664, 2984, 3368, 3880, 4392, 4968, 5544, 5736, 6200, 6712, 7480, 8248, 8760, 9528, 10296, 11064, 11448, 12216, 14112],
     [536, 712, 872, 1160, 1416, 1736, 2088, 2472, 2792, 3112, 3496, 4008, 4584, 5160, 5736, 6200, 6456, 7224, 7992, 8504, 9144, 9912, 10680, 11448, 12216, 12576, 14688],
     [568, 744, 936, 1224, 1480, 1864, 2216, 2536, 2984, 3368, 3752, 4264, 4776, 5352, 5992, 6456, 6712, 7480, 8248, 9144, 9912, 10680, 11448, 12216, 12960, 13536, 15264],
     [600, 776, 968, 1256, 1544, 1928, 2280, 2664, 3112, 3496, 3880, 4392, 4968, 5736, 6200, 6712, 7224, 7992, 8760, 9528, 10296, 11064, 11832, 12576, 13536, 14112, 16416],
     [616, 808, 1000, 1320, 1608, 2024, 2408, 2792, 3240, 3624, 4008, 4584, 5352, 5992, 6456, 6968, 7480, 8248, 9144, 9912, 10680, 11448, 12576, 12960, 14112, 14688, 16992],
     [648, 872, 1064, 1384, 1736, 2088, 2472, 2984, 3368, 3752, 4264, 4776, 5544, 6200, 6968, 7224, 7736, 8760, 9528, 10296, 11064, 12216, 12960, 13536, 14688, 15264, 17568],
     [680, 904, 1096, 1416, 1800, 2216, 2600, 3112, 3496, 4008, 4392, 4968, 5736, 6456, 7224, 7736, 7992, 9144, 9912, 10680, 11448, 12576, 13536, 14112, 15264, 15840, 18336],
     [712, 936, 1160, 1480, 1864, 2280, 2728, 3240, 3624, 4136, 4584, 5352, 5992, 6712, 7480, 7992, 8504, 9528, 10296, 11064, 12216, 12960, 14112, 14688, 15840, 16416, 19080],
     [744, 968, 1192, 1544, 1928, 2344, 2792, 3368, 3752, 4264, 4776, 5544, 6200, 6968, 7736, 8248, 8760, 9912, 10680, 11448, 12576, 13536, 14688, 15264, 16416, 16992, 19848],
     [776, 1000, 1256, 1608, 1992, 2472, 2984, 3368, 3880, 4392, 4968, 5736, 6456, 7224, 7992, 8504, 9144, 10296, 11064, 12216, 12960, 14112, 15264, 15840, 16992, 17568, 20616],
     [776, 1032, 1288, 1672, 2088, 2536, 2984, 3496, 4008, 4584, 5160, 5992, 6712, 7480, 8248, 8760, 9528, 10296, 11448, 12576, 13536, 14688, 15840, 16416, 17568, 18336, 21384],
     [808, 1064, 1320, 1736, 2152, 2664, 3112, 3624, 4264, 4776, 5352, 5992, 6712, 7736, 8504, 9144, 9912, 10680, 11832, 12960, 14112, 15264, 16416, 16992, 18336, 19080, 22152],
     [840, 1128, 1384, 1800, 2216, 2728, 3240, 3752, 4392, 4968, 5544, 6200, 6968, 7992, 8760, 9528, 9912, 11064, 12216, 13536, 14688, 15840, 16992, 17568, 19080, 19848, 22920],
     [872, 1160, 1416, 1864, 2280, 2792, 3368, 3880, 4584, 5160, 5736, 6456, 7224, 8248, 9144, 9912, 10296, 11448, 12576, 13536, 14688, 15840, 16992, 18336, 19848, 20616, 23688],
     [904, 1192, 1480, 1928, 2344, 2856, 3496, 4008, 4584, 5160, 5736, 6712, 7480, 8504, 9528, 10296, 10680, 11832, 12960, 14112, 15264, 16416, 17568, 19080, 19848, 20616, 24496],
     [936, 1224, 1544, 1992, 2408, 2984, 3496, 4136, 4776, 5352, 5992, 6968, 7736, 8760, 9912, 10296, 11064, 12216, 13536, 14688, 15840, 16992, 18336, 19848, 20616, 21384, 25456],
     [968, 1256, 1544, 2024, 2472, 3112, 3624, 4264, 4968, 5544, 6200, 6968, 7992, 9144, 9912, 10680, 11448, 12576, 14112, 15264, 16416, 17568, 19080, 19848, 21384, 22152, 25456],
     [1000, 1288, 1608, 2088, 2600, 3112, 3752, 4392, 4968, 5736, 6200, 7224, 8248, 9144, 10296, 11064, 11832, 12960, 14112, 15264, 16992, 18336, 19080, 20616, 22152, 22920, 26416],
     [1032, 1352, 1672, 2152, 2664, 3240, 3880, 4584, 5160, 5736, 6456, 7480, 8504, 9528, 10680, 11448, 12216, 13536, 14688, 15840, 16992, 18336, 19848, 21384, 22920, 23688, 27376],
     [1032, 1384, 1672, 2216, 2728, 3368, 4008, 4584, 5352, 5992, 6712, 7736, 8760, 9912, 11064, 11832, 12216, 13536, 15264, 16416, 17568, 19080, 20616, 22152, 22920, 24496, 28336],
     [1064, 1416, 1736, 2280, 2792, 3496, 4136, 4776, 5544, 6200, 6712, 7736, 8760, 9912, 11064, 11832, 12576, 14112, 15264, 16992, 18336, 19848, 21384, 22152, 23688, 24496, 29296],
     [1096, 1416, 1800, 2344, 2856, 3496, 4136, 4968, 5544, 6200, 6968, 7992, 9144, 10296, 11448, 12216, 12960, 14688, 15840, 16992, 18336, 19848, 21384, 22920, 24496, 25456, 29296],
     [1128, 1480, 1800, 2408, 2984, 3624, 4264, 4968, 5736, 6456, 7224, 8248, 9528, 10680, 11832, 12576, 13536, 14688, 16416, 17568, 19080, 20616, 22152, 23688, 25456, 26416, 30576],
     [1160, 1544, 1864, 2472, 2984, 3752, 4392, 5160, 5992, 6712, 7480, 8504, 9528, 10680, 12216, 12960, 13536, 15264, 16416, 18336, 19848, 21384, 22920, 24496, 25456, 26416, 30576],
     [1192, 1544, 1928, 2536, 3112, 3752, 4584, 5352, 5992, 6712, 7480, 8760, 9912, 11064, 12216, 12960, 14112, 15264, 16992, 18336, 19848, 21384, 22920, 24496, 26416, 27376, 31704],
     [1224, 1608, 1992, 2536, 3112, 3880, 4584, 5352, 6200, 6968, 7736, 8760, 9912, 11448, 12576, 13536, 14112, 15840, 17568, 19080, 20616, 22152, 23688, 25456, 26416, 28336, 32856],
     [1256, 1608, 2024, 2600, 3240, 4008, 4776, 5544, 6200, 6968, 7992, 9144, 10296, 11448, 12960, 13536, 14688, 16416, 17568, 19080, 20616, 22920, 24496, 25456, 27376, 28336, 32856],
     [1256, 1672, 2088, 2664, 3240, 4008, 4776, 5736, 6456, 7224, 7992, 9144, 10680, 11832, 12960, 14112, 14688, 16416, 18336, 19848, 21384, 22920, 24496, 26416, 28336, 29296, 34008],
     [1288, 1736, 2088, 2728, 3368, 4136, 4968, 5736, 6456, 7480, 8248, 9528, 10680, 12216, 13536, 14688, 15264, 16992, 18336, 20616, 22152, 23688, 25456, 27376, 28336, 29296, 35160],
     [1320, 1736, 2152, 2792, 3496, 4264, 4968, 5992, 6712, 7480, 8504, 9528, 11064, 12216, 13536, 14688, 15840, 17568, 19080, 20616, 22152, 24496, 25456, 27376, 29296, 30576, 35160],
     [1352, 1800, 2216, 2856, 3496, 4392, 5160, 5992, 6968, 7736, 8504, 9912, 11064, 12576, 14112, 15264, 15840, 17568, 19080, 21384, 22920, 24496, 26416, 28336, 29296, 31704, 36696],
     [1384, 1800, 2216, 2856, 3624, 4392, 5160, 6200, 6968, 7992, 8760, 9912, 11448, 12960, 14112, 15264, 16416, 18336, 19848, 21384, 22920, 25456, 27376, 28336, 30576, 31704, 36696],
     [1416, 1864, 2280, 2984, 3624, 4584, 5352, 6200, 7224, 7992, 9144, 10296, 11832, 12960, 14688, 15840, 16416, 18336, 19848, 22152, 23688, 25456, 27376, 29296, 31704, 32856, 37888],
     [1416, 1864, 2344, 2984, 3752, 4584, 5352, 6456, 7224, 8248, 9144, 10680, 11832, 13536, 14688, 15840, 16992, 19080, 20616, 22152, 24496, 26416, 28336, 29296, 31704, 32856, 37888],
     [1480, 1928, 2344, 3112, 3752, 4776, 5544, 6456, 7480, 8248, 9144, 10680, 12216, 13536, 15264, 16416, 16992, 19080, 21384, 22920, 24496, 26416, 28336, 30576, 32856, 34008, 39232],
     [1480, 1992, 2408, 3112, 3880, 4776, 5736, 6712, 7480, 8504, 9528, 11064, 12216, 14112, 15264, 16416, 17568, 19848, 21384, 22920, 25456, 27376, 29296, 30576, 32856, 34008, 40576],
     [1544, 1992, 2472, 3240, 4008, 4776, 5736, 6712, 7736, 8760, 9528, 11064, 12576, 14112, 15840, 16992, 17568, 19848, 22152, 23688, 25456, 27376, 29296, 31704, 34008, 35160, 40576],
     [1544, 2024, 2536, 3240, 4008, 4968, 5992, 6712, 7736, 8760, 9912, 11448, 12576, 14688, 15840, 16992, 18336, 20616, 22152, 24496, 26416, 28336, 30576, 31704, 34008, 35160, 40576],
     [1608, 2088, 2536, 3368, 4136, 4968, 5992, 6968, 7992, 9144, 9912, 11448, 12960, 14688, 16416, 17568, 18336, 20616, 22920, 24496, 26416, 28336, 30576, 32856, 35160, 36696, 42368],
     [1608, 2088, 2600, 3368, 4136, 5160, 5992, 6968, 7992, 9144, 10296, 11832, 12960, 14688, 16416, 17568, 19080, 20616, 22920, 25456, 27376, 29296, 31704, 32856, 35160, 36696, 42368],
     [1608, 2152, 2664, 3496, 4264, 5160, 6200, 7224, 8248, 9144, 10296, 11832, 13536, 15264, 16992, 18336, 19080, 21384, 23688, 25456, 27376, 29296, 31704, 34008, 36696, 37888, 43816],
     [1672, 2152, 2664, 3496, 4264, 5352, 6200, 7224, 8504, 9528, 10680, 12216, 13536, 15264, 16992, 18336, 19848, 21384, 23688, 25456, 28336, 30576, 32856, 34008, 36696, 37888, 43816],
     [1672, 2216, 2728, 3624, 4392, 5352, 6456, 7480, 8504, 9528, 10680, 12216, 14112, 15840, 17568, 18336, 19848, 22152, 24496, 26416, 28336, 30576, 32856, 35160, 36696, 39232, 45352],
     [1736, 2280, 2792, 3624, 4392, 5544, 6456, 7480, 8760, 9912, 11064, 12576, 14112, 15840, 17568, 19080, 19848, 22152, 24496, 26416, 29296, 31704, 34008, 35160, 37888, 39232, 45352],
     [1736, 2280, 2856, 3624, 4584, 5544, 6456, 7736, 8760, 9912, 11064, 12576, 14112, 16416, 18336, 19080, 20616, 22920, 24496, 27376, 29296, 31704, 34008, 36696, 37888, 40576, 46888],
     [1800, 2344, 2856, 3752, 4584, 5736, 6712, 7736, 9144, 10296, 11448, 12960, 14688, 16416, 18336, 19848, 20616, 22920, 25456, 27376, 29296, 31704, 34008, 36696, 39232, 40576, 46888],
     [1800, 2344, 2856, 3752, 4584, 5736, 6712, 7992, 9144, 10296, 11448, 12960, 14688, 16992, 18336, 19848, 21384, 23688, 25456, 28336, 30576, 32856, 35160, 37888, 39232, 40576, 48936],
     [1800, 2408, 2984, 3880, 4776, 5736, 6968, 7992, 9144, 10296, 11448, 13536, 15264, 16992, 19080, 20616, 21384, 23688, 26416, 28336, 30576, 32856, 35160, 37888, 40576, 42368, 48936],
     [1864, 2472, 2984, 3880, 4776, 5992, 6968, 8248, 9528, 10680, 11832, 13536, 15264, 16992, 19080, 20616, 22152, 24496, 26416, 29296, 31704, 34008, 36696, 37888, 40576, 42368, 48936],
     [1864, 2472, 3112, 4008, 4968, 5992, 6968, 8248, 9528, 10680, 11832, 13536, 15264, 17568, 19848, 20616, 22152, 24496, 27376, 29296, 31704, 34008, 36696, 39232, 42368, 43816, 51024],
     [1928, 2536, 3112, 4008, 4968, 5992, 7224, 8504, 9528, 11064, 12216, 14112, 15840, 17568, 19848, 21384, 22152, 24496, 27376, 29296, 31704, 35160, 36696, 39232, 42368, 43816, 51024],
     [1928, 2536, 3112, 4136, 4968, 6200, 7224, 8504, 9912, 11064, 12216, 14112, 15840, 18336, 19848, 21384, 22920, 25456, 27376, 30576, 32856, 35160, 37888, 40576, 42368, 43816, 52752],
     [1992, 2600, 3240, 4136, 5160, 6200, 7480, 8760, 9912, 11064, 12576, 14112, 16416, 18336, 20616, 22152, 22920, 25456, 28336, 30576, 32856, 35160, 37888, 40576, 43816, 45352, 52752],
     [1992, 2600, 3240, 4264, 5160, 6200, 7480, 8760, 9912, 11448, 12576, 14688, 16416, 18336, 20616, 22152, 23688, 26416, 28336, 30576, 34008, 36696, 39232, 40576, 43816, 45352, 52752],
     [2024, 2664, 3240, 4264, 5160, 6456, 7736, 8760, 10296, 11448, 12960, 14688, 16416, 19080, 20616, 22152, 23688, 26416, 29296, 31704, 34008, 36696, 39232, 42368, 45352, 46888, 55056],
     [2088, 2728, 3368, 4392, 5352, 6456, 7736, 9144, 10296, 11832, 12960, 14688, 16992, 19080, 21384, 22920, 24496, 26416, 29296, 31704, 34008, 36696, 40576, 42368, 45352, 46888, 55056],
     [2088, 2728, 3368, 4392, 5352, 6712, 7736, 9144, 10680, 11832, 12960, 15264, 16992, 19080, 21384, 22920, 24496, 27376, 29296, 32856, 35160, 37888, 40576, 43816, 45352, 46888, 55056],
     [2088, 2792, 3368, 4392, 5544, 6712, 7992, 9144, 10680, 11832, 13536, 15264, 17568, 19848, 22152, 23688, 24496, 27376, 30576, 32856, 35160, 37888, 40576, 43816, 46888, 48936, 55056],
     [2152, 2792, 3496, 4584, 5544, 6712, 7992, 9528, 10680, 12216, 13536, 15840, 17568, 19848, 22152, 23688, 25456, 27376, 30576, 32856, 35160, 39232, 42368, 43816, 46888, 48936, 57336],
     [2152, 2856, 3496, 4584, 5544, 6968, 8248, 9528, 11064, 12216, 13536, 15840, 17568, 19848, 22152, 23688, 25456, 28336, 30576, 34008, 36696, 39232, 42368, 45352, 46888, 48936, 57336],
     [2216, 2856, 3496, 4584, 5736, 6968, 8248, 9528, 11064, 12576, 14112, 15840, 18336, 20616, 22920, 24496, 25456, 28336, 31704, 34008, 36696, 39232, 42368, 45352, 48936, 51024, 57336],
     [2216, 2856, 3624, 4776, 5736, 6968, 8248, 9912, 11064, 12576, 14112, 16416, 18336, 20616, 22920, 24496, 26416, 29296, 31704, 34008, 36696, 40576, 43816, 45352, 48936, 51024, 59256],
     [2280, 2984, 3624, 4776, 5736, 7224, 8504, 9912, 11448, 12960, 14112, 16416, 18336, 20616, 22920, 24496, 26416, 29296, 31704, 35160, 37888, 40576, 43816, 46888, 48936, 51024, 59256],
     [2280, 2984, 3624, 4776, 5992, 7224, 8504, 9912, 11448, 12960, 14688, 16416, 19080, 21384, 23688, 25456, 26416, 29296, 32856, 35160, 37888, 40576, 43816, 46888, 51024, 52752, 59256],
     [2280, 2984, 3752, 4776, 5992, 7224, 8760, 10296, 11448, 12960, 14688, 16992, 19080, 21384, 23688, 25456, 27376, 30576, 32856, 35160, 39232, 42368, 45352, 46888, 51024, 52752, 61664],
     [2344, 3112, 3752, 4968, 5992, 7480, 8760, 10296, 11832, 13536, 14688, 16992, 19080, 21384, 24496, 25456, 27376, 30576, 32856, 36696, 39232, 42368, 45352, 48936, 51024, 52752, 61664],
     [2344, 3112, 3880, 4968, 5992, 7480, 8760, 10296, 11832, 13536, 14688, 16992, 19080, 22152, 24496, 26416, 27376, 30576, 34008, 36696, 39232, 42368, 45352, 48936, 52752, 55056, 61664],
     [2408, 3112, 3880, 4968, 6200, 7480, 9144, 10680, 12216, 13536, 15264, 17568, 19848, 22152, 24496, 26416, 28336, 30576, 34008, 36696, 40576, 43816, 46888, 48936, 52752, 55056, 63776],
     [2408, 3240, 3880, 5160, 6200, 7736, 9144, 10680, 12216, 13536, 15264, 17568, 19848, 22152, 25456, 26416, 28336, 31704, 34008, 37888, 40576, 43816, 46888, 51024, 52752, 55056, 63776],
     [2472, 3240, 4008, 5160, 6200, 7736, 9144, 10680, 12216, 14112, 15264, 17568, 19848, 22920, 25456, 27376, 28336, 31704, 35160, 37888, 40576, 43816, 46888, 51024, 52752, 55056, 63776],
     [2472, 3240, 4008, 5160, 6456, 7736, 9144, 11064, 12576, 14112, 15840, 18336, 20616, 22920, 25456, 27376, 29296, 31704, 35160, 37888, 42368, 45352, 48936, 51024, 55056, 57336, 66592],
     [2536, 3240, 4008, 5352, 6456, 7992, 9528, 11064, 12576, 14112, 15840, 18336, 20616, 22920, 25456, 27376, 29296, 32856, 35160, 39232, 42368, 45352, 48936, 51024, 55056, 57336, 66592],
     [2536, 3368, 4136, 5352, 6456, 7992, 9528, 11064, 12576, 14112, 15840, 18336, 20616, 23688, 26416, 28336, 29296, 32856, 36696, 39232, 42368, 45352, 48936, 52752, 55056, 57336, 66592],
     [2536, 3368, 4136, 5352, 6456, 7992, 9528, 11448, 12960, 14688, 16416, 18336, 21384, 23688, 26416, 28336, 30576, 32856, 36696, 39232, 42368, 46888, 48936, 52752, 57336, 59256, 68808],
     [2600, 3368, 4136, 5352, 6712, 8248, 9528, 11448, 12960, 14688, 16416, 19080, 21384, 23688, 26416, 28336, 30576, 34008, 36696, 40576, 43816, 46888, 51024, 52752, 57336, 59256, 68808],
     [2600, 3496, 4264, 5544, 6712, 8248, 9912, 11448, 12960, 14688, 16416, 19080, 21384, 24496, 27376, 29296, 30576, 34008, 37888, 40576, 43816, 46888, 51024, 55056, 57336, 59256, 68808],
     [2664, 3496, 4264, 5544, 6712, 8248, 9912, 11448, 13536, 15264, 16992, 19080, 21384, 24496, 27376, 29296, 30576, 34008, 37888, 40576, 43816, 46888, 51024, 55056, 57336, 61664, 71112],
     [2664, 3496, 4264, 5544, 6968, 8504, 9912, 11832, 13536, 15264, 16992, 19080, 22152, 24496, 27376, 29296, 31704, 35160, 37888, 40576, 45352, 48936, 51024, 55056, 59256, 61664, 71112],
     [2728, 3496, 4392, 5736, 6968, 8504, 10296, 11832, 13536, 15264, 16992, 19848, 22152, 25456, 28336, 29296, 31704, 35160, 37888, 42368, 45352, 48936, 52752, 55056, 59256, 61664, 71112],
     [2728, 3624, 4392, 5736, 6968, 8760, 10296, 11832, 13536, 15264, 16992, 19848, 22152, 25456, 28336, 30576, 31704, 35160, 39232, 42368, 45352, 48936, 52752, 57336, 59256, 61664, 73712],
     [2728, 3624, 4392, 5736, 6968, 8760, 10296, 12216, 14112, 15840, 17568, 19848, 22920, 25456, 28336, 30576, 31704, 35160, 39232, 42368, 46888, 48936, 52752, 57336, 61664, 63776, 73712],
     [2792, 3624, 4584, 5736, 7224, 8760, 10296, 12216, 14112, 15840, 17568, 19848, 22920, 25456, 28336, 30576, 32856, 36696, 39232, 43816, 46888, 51024, 55056, 57336, 61664, 63776, 75376],
     [2792, 3752, 4584, 5992, 7224, 8760, 10680, 12216, 14112, 15840, 17568, 20616, 22920, 26416, 29296, 30576, 32856, 36696, 40576, 43816, 46888, 51024, 55056, 57336, 61664, 63776, 75376],
     [2856, 3752, 4584, 5992, 7224, 9144, 10680, 12576, 14112, 16416, 18336, 20616, 23688, 26416, 29296, 31704, 32856, 36696, 40576, 43816, 46888, 51024, 55056, 59256, 61664, 63776, 75376],
     [2856, 3752, 4584, 5992, 7480, 9144, 10680, 12576, 14688, 16416, 18336, 20616, 23688, 26416, 29296, 31704, 34008, 36696, 40576, 43816, 48936, 51024, 55056, 59256, 63776, 66592, 75376],
     [2856, 3752, 4584, 5992, 7480, 9144, 10680, 12576, 14688, 16416, 18336, 21384, 23688, 26416, 29296, 31704, 34008, 37888, 40576, 45352, 48936, 52752, 57336, 59256, 63776, 66592, 75376],
     [2984, 3880, 4776, 6200, 7480, 9144, 11064, 12960, 14688, 16416, 18336, 21384, 23688, 27376, 30576, 31704, 34008, 37888, 42368, 45352, 48936, 52752, 57336, 59256, 63776, 66592, 75376],
     [2984, 3880, 4776, 6200, 7480, 9528, 11064, 12960, 14688, 16992, 18336, 21384, 24496, 27376, 30576, 32856, 34008, 37888, 42368, 45352, 48936, 52752, 57336, 61664, 63776, 66592, 75376],
     [2984, 3880, 4776, 6200, 7736, 9528, 11064, 12960, 15264, 16992, 19080, 21384, 24496, 27376, 30576, 32856, 35160, 39232, 42368, 46888, 48936, 52752, 57336, 61664, 66592, 68808, 75376],
     [2984, 4008, 4776, 6200, 7736, 9528, 11448, 12960, 15264, 16992, 19080, 22152, 24496, 27376, 30576, 32856, 35160, 39232, 42368, 46888, 51024, 55056, 59256, 61664, 66592, 68808, 75376],
     [2984, 4008, 4968, 6456, 7736, 9528, 11448, 13536, 15264, 16992, 19080, 22152, 24496, 28336, 31704, 34008, 35160, 39232, 43816, 46888, 51024, 55056, 59256, 61664, 66592, 68808, 75376],
     [3112, 4008, 4968, 6456, 7992, 9528, 11448, 13536, 15264, 17568, 19080, 22152, 25456, 28336, 31704, 34008, 35160, 39232, 43816, 46888, 51024, 55056, 59256, 63776, 66592, 71112, 75376]]"

text \<open>The loop from a number of resource blocks; an access behind the end of an array is an error.\<close>

function rb_search :: "nat \<Rightarrow> int \<Rightarrow> nat \<Rightarrow> nat res" where
  "rb_search itbs TbSize nprb =
     (if nprb \<ge> length TransportBlockSizeTable \<or> itbs \<ge> length (TransportBlockSizeTable ! nprb) then Inl IndexOutOfRange
      else if TbSize > TransportBlockSizeTable ! nprb ! itbs div 8 then rb_search itbs TbSize (Suc nprb)
      else Inr (Suc nprb))"
  by auto
termination
  by (relation "measure (\<lambda>(itbs, TbSize, nprb). length TransportBlockSizeTable - nprb)") auto

definition GetDlRbSizeFromMcs :: "nat \<Rightarrow> int \<Rightarrow> nat res" where
  "GetDlRbSizeFromMcs mcs TbSize =
     (if mcs \<ge> length McsToItbsDl then Inl IndexOutOfRange else rb_search (McsToItbsDl ! mcs) TbSize 0)"

declare rb_search.simps [simp del]

section \<open>The tables\<close>

lemma table_size: "length TransportBlockSizeTable = 110" "length McsToItbsDl = 29"
  by code_simp+

lemma table_rows: "list_all (\<lambda>r. length r = 27 \<and> list_all (\<lambda>x. x \<le> 75376) r) TransportBlockSizeTable"
  by code_simp

lemma table_adjacent: "successively (list_all2 (\<le>)) TransportBlockSizeTable"
  by code_simp

lemma table_columns: "sorted_wrt (list_all2 (\<le>)) TransportBlockSizeTable"
proof -
  have "transp (list_all2 ((\<le>) :: int \<Rightarrow> int \<Rightarrow> bool))"
    by (rule transpI) (erule (1) list_all2_trans [rotated], simp)
  then show ?thesis using table_adjacent by (simp add: successively_conv_sorted_wrt)
qed

lemma mcs_index: "list_all (\<lambda>i. i < 27) McsToItbsDl"
  by code_simp

definition block_bytes :: "nat \<Rightarrow> nat \<Rightarrow> int" where
  "block_bytes mcs n = TransportBlockSizeTable ! (n - 1) ! (McsToItbsDl ! mcs) div 8"

lemma row_length: "n < 110 \<Longrightarrow> length (TransportBlockSizeTable ! n) = 27"
  using table_rows by (simp add: list_all_length table_size)

lemma mcs_index_less: "mcs < 29 \<Longrightarrow> McsToItbsDl ! mcs < 27"
  using mcs_index by (simp add: list_all_length table_size)

text \<open>More resource blocks carry at least as many bytes, and none more than 9422.\<close>

lemma block_bytes_mono:
  assumes "mcs < 29" and "m \<le> n" and "n \<le> 110" and "1 \<le> m"
  shows "block_bytes mcs m \<le> block_bytes mcs n"
proof -
  let ?j = "McsToItbsDl ! mcs"
  have "m = n \<or> list_all2 (\<le>) (TransportBlockSizeTable ! (m - 1)) (TransportBlockSizeTable ! (n - 1))"
  proof (cases "m = n")
    case False
    then have "m - 1 < n - 1" "n - 1 < length TransportBlockSizeTable" using assms by (auto simp: table_size)
    then show ?thesis using sorted_wrt_nth_less [OF table_columns] by blast
  qed simp
  then have "TransportBlockSizeTable ! (m - 1) ! ?j \<le> TransportBlockSizeTable ! (n - 1) ! ?j"
    using mcs_index_less [OF assms(1)] row_length [of "m - 1"] assms by (auto simp: list_all2_conv_all_nth)
  then show ?thesis unfolding block_bytes_def by (rule zdiv_mono1) simp
qed

lemma block_bytes_max: "mcs < 29 \<Longrightarrow> n \<le> 110 \<Longrightarrow> 1 \<le> n \<Longrightarrow> block_bytes mcs n \<le> 9422"
proof -
  assume a: "mcs < 29" "n \<le> 110" "1 \<le> n"
  then have "length (TransportBlockSizeTable ! (n - 1)) = 27 \<and> list_all (\<lambda>x. x \<le> 75376) (TransportBlockSizeTable ! (n - 1))"
    using table_rows by (simp add: list_all_length table_size)
  then have "TransportBlockSizeTable ! (n - 1) ! (McsToItbsDl ! mcs) \<le> 75376"
    using mcs_index_less [OF a(1)] by (simp add: list_all_length)
  then show ?thesis unfolding block_bytes_def by simp
qed

section \<open>The search\<close>

lemma rb_search_spec:
  assumes "mcs < 29" and "k \<le> 110"
  shows "rb_search (McsToItbsDl ! mcs) tb k =
    (case List.find (\<lambda>n. tb \<le> block_bytes mcs n) [Suc k..<111] of None \<Rightarrow> Inl IndexOutOfRange | Some n \<Rightarrow> Inr n)"
  using assms(2)
proof (induction "110 - k" arbitrary: k)
  case 0
  then have "k = 110" by simp
  then show ?case by (subst rb_search.simps) (simp add: table_size)
next
  case (Suc d)
  then have k: "k < 110" "Suc k \<le> 110" "d = 110 - Suc k" by auto
  have u: "[Suc k..<111] = Suc k # [Suc (Suc k)..<111]" using k by (simp add: upt_conv_Cons)
  have "rb_search (McsToItbsDl ! mcs) tb k = (if tb > block_bytes mcs (Suc k)
      then rb_search (McsToItbsDl ! mcs) tb (Suc k) else Inr (Suc k))"
    using k(1) mcs_index_less [OF assms(1)] row_length [OF k(1)]
    by (subst rb_search.simps) (simp add: table_size block_bytes_def)
  then show ?case using Suc.hyps(1) [OF k(3,2)] by (simp add: u)
qed

lemma GetDlRbSizeFromMcs_find:
  "mcs < 29 \<Longrightarrow> GetDlRbSizeFromMcs mcs tb =
    (case List.find (\<lambda>n. tb \<le> block_bytes mcs n) [1..<111] of None \<Rightarrow> Inl IndexOutOfRange | Some n \<Rightarrow> Inr n)"
  using rb_search_spec [of mcs 0 tb] by (simp add: GetDlRbSizeFromMcs_def table_size)

lemma rb_size_exact:
  assumes "GetDlRbSizeFromMcs mcs tb = Inr m"
  shows "mcs < 29" and "1 \<le> m" and "m \<le> 110" and "1 \<le> n \<Longrightarrow> n \<le> 110 \<Longrightarrow> tb \<le> block_bytes mcs n \<longleftrightarrow> m \<le> n"
proof -
  show mcs: "mcs < 29" using assms by (simp add: GetDlRbSizeFromMcs_def table_size split: if_splits)
  obtain i where f: "i < 110" "m = Suc i"
    "tb \<le> block_bytes mcs m" "\<forall>j<i. \<not> tb \<le> block_bytes mcs (Suc j)"
    using assms unfolding GetDlRbSizeFromMcs_find [OF mcs]
    by (auto simp: find_Some_iff split: option.splits)
  show "1 \<le> m" "m \<le> 110" using f by auto
  show "tb \<le> block_bytes mcs n \<longleftrightarrow> m \<le> n" if n: "1 \<le> n" "n \<le> 110"
  proof
    assume "m \<le> n"
    with f(3) block_bytes_mono [OF mcs this n(2)] f(2) show "tb \<le> block_bytes mcs n" by simp
  next
    assume "tb \<le> block_bytes mcs n"
    with f(4) have "\<not> n - 1 < i" using n by auto
    with n f(2) show "m \<le> n" by simp
  qed
qed

lemma rb_size_fails:
  assumes "mcs < 29"
  shows "GetDlRbSizeFromMcs mcs tb = Inl IndexOutOfRange \<longleftrightarrow> block_bytes mcs 110 < tb"
proof -
  have "GetDlRbSizeFromMcs mcs tb = Inl IndexOutOfRange \<longleftrightarrow> (\<forall>n. 1 \<le> n \<and> n \<le> 110 \<longrightarrow> block_bytes mcs n < tb)"
  proof (cases "List.find (\<lambda>n. tb \<le> block_bytes mcs n) [1..<111]")
    case None
    moreover from None have "\<forall>n\<in>set [1..<111]. \<not> tb \<le> block_bytes mcs n" by (auto simp: find_None_iff)
    then have "\<forall>n. 1 \<le> n \<and> n \<le> 110 \<longrightarrow> block_bytes mcs n < tb" by (simp add: not_le)
    ultimately show ?thesis by (simp add: GetDlRbSizeFromMcs_find [OF assms])
  next
    case (Some n)
    then have "n \<in> set [1..<111]" "tb \<le> block_bytes mcs n" by (auto simp: find_Some_iff)
    then show ?thesis using Some by (auto simp: GetDlRbSizeFromMcs_find [OF assms] intro!: exI [of _ n])
  qed
  also have "\<dots> \<longleftrightarrow> block_bytes mcs 110 < tb"
    using block_bytes_mono [OF assms, of _ 110] by force
  finally show ?thesis .
qed

text \<open>
  For an index of the table the number of resource blocks computed for a transport block is between 1 and
  110 and exact: a number of resource blocks can carry the block if and only if it is at least the computed
  one. The search leaves the table if and only if the block is larger than what 110 resource blocks carry, so
  always for a block of more than 9422 bytes.
\<close>

lemma transport_block_size:
  assumes "mcs < 29"
  shows "(case GetDlRbSizeFromMcs mcs tb of
      Inr m \<Rightarrow> 1 \<le> m \<and> m \<le> 110 \<and> (\<forall>n. 1 \<le> n \<and> n \<le> 110 \<longrightarrow> (tb \<le> block_bytes mcs n \<longleftrightarrow> m \<le> n))
    | Inl e \<Rightarrow> e = IndexOutOfRange \<and> block_bytes mcs 110 < tb) \<and>
    (9422 < tb \<longrightarrow> GetDlRbSizeFromMcs mcs tb = Inl IndexOutOfRange)"
proof
  show "case GetDlRbSizeFromMcs mcs tb of
      Inr m \<Rightarrow> 1 \<le> m \<and> m \<le> 110 \<and> (\<forall>n. 1 \<le> n \<and> n \<le> 110 \<longrightarrow> (tb \<le> block_bytes mcs n \<longleftrightarrow> m \<le> n))
    | Inl e \<Rightarrow> e = IndexOutOfRange \<and> block_bytes mcs 110 < tb"
  proof (cases "GetDlRbSizeFromMcs mcs tb")
    case (Inl e)
    then have "e = IndexOutOfRange"
      by (simp add: GetDlRbSizeFromMcs_find [OF assms] split: option.splits)
    moreover have "block_bytes mcs 110 < tb" using rb_size_fails [OF assms, of tb] Inl calculation by simp
    ultimately show ?thesis by (simp add: Inl)
  next
    case (Inr m)
    with rb_size_exact [OF Inr] show ?thesis by simp
  qed
  show "9422 < tb \<longrightarrow> GetDlRbSizeFromMcs mcs tb = Inl IndexOutOfRange"
    using block_bytes_max [OF assms, of 110] rb_size_fails [OF assms, of tb] by simp
qed

end
