(* ===== verification/Reporters.thy ===== *)
theory Reporters
  imports Oran_Data Transport_Block
begin

text \<open>
  The reporters (\<open>oran-reporter-*.cc\<close>): what each class stores between reports, the methods that are
  connected to trace sources of the radio and application models, and \<open>GenerateReports\<close>. What a reporter
  reads of these models is the record \<open>node_env\<close>; the terminator is its E2 node identifier, if set.
  A division of a \<open>double\<close> by zero leaves the numbers of the model: the error \<open>NonFinite\<close>, where the
  program goes on with an infinity or NaN.
\<close>

section \<open>What the reporters read\<close>

record node_env =
  ne_node :: bool
  ne_mobility :: "vector option"
  ne_nrUeRrc :: "(uint16 \<times> uint16) option"
  ne_lteUeRrc :: "(uint16 \<times> uint16) option"
  ne_nrGnbPhy :: "uint32 option option"
  ne_lteEnb :: "(uint16 \<times> bool) option"
  ne_dlRbg :: "bool list"

section \<open>Location and cell\<close>

definition location_GenerateReports :: "node_env \<Rightarrow> time \<Rightarrow> bool \<Rightarrow> uint64 option \<Rightarrow> oran_report list res" where
  "location_GenerateReports env now active terminator =
     (if active
      then (case terminator of
              None \<Rightarrow> Inl NullTerminator
            | Some e2NodeId \<Rightarrow>
                abort_if (\<not> ne_node env) NullPointer
                  (case ne_mobility env of
                     None \<Rightarrow> Inl NullPointer
                   | Some pos \<Rightarrow>
                       Inr [OranReportLocation \<lparr>m_reporterE2NodeId = e2NodeId, m_time = now, m_location = pos\<rparr>]))
      else Inr [])"

definition cell_info_GenerateReports ::
  "(cell_info_report \<Rightarrow> oran_report) \<Rightarrow> (uint16 \<times> uint16) option \<Rightarrow> bool \<Rightarrow> time \<Rightarrow> bool \<Rightarrow> uint64 option \<Rightarrow>
   oran_report list res" where
  "cell_info_GenerateReports mk rrc node now active terminator =
     (if active
      then (case terminator of
              None \<Rightarrow> Inl NullTerminator
            | Some e2NodeId \<Rightarrow>
                abort_if (\<not> node) NullPointer
                  (case rrc of
                     None \<Rightarrow> Inl NullNetDevice
                   | Some (cellId, rnti) \<Rightarrow>
                       Inr [mk \<lparr>m_reporterE2NodeId = e2NodeId, m_time = now, m_cellId = cellId, m_rnti = rnti\<rparr>]))
      else Inr [])"

definition nr_cell_info_GenerateReports :: "node_env \<Rightarrow> time \<Rightarrow> bool \<Rightarrow> uint64 option \<Rightarrow> oran_report list res" where
  "nr_cell_info_GenerateReports env = cell_info_GenerateReports OranReportNrUeCellInfo (ne_nrUeRrc env) (ne_node env)"

definition lte_cell_info_GenerateReports :: "node_env \<Rightarrow> time \<Rightarrow> bool \<Rightarrow> uint64 option \<Rightarrow> oran_report list res" where
  "lte_cell_info_GenerateReports env = cell_info_GenerateReports OranReportLteUeCellInfo (ne_lteUeRrc env) (ne_node env)"

section \<open>Application loss\<close>

record app_loss =
  al_tx :: uint64
  al_rx :: uint64

definition OranReporterAppLoss_new :: app_loss where
  "OranReporterAppLoss_new = \<lparr>al_tx = 0, al_rx = 0\<rparr>"

definition AddTx :: "app_loss \<Rightarrow> app_loss" where
  "AddTx a = a\<lparr>al_tx := al_tx a + 1\<rparr>"

definition AddRx :: "app_loss \<Rightarrow> app_loss" where
  "AddRx a = a\<lparr>al_rx := al_rx a + 1\<rparr>"

definition app_loss_value :: "app_loss \<Rightarrow> double" where
  "app_loss_value a =
     (if al_rx a \<le> al_tx a \<and> al_tx a > 0 then real (unat (al_tx a - al_rx a)) / real (unat (al_tx a)) else 0)"

definition app_loss_GenerateReports ::
  "time \<Rightarrow> bool \<Rightarrow> uint64 option \<Rightarrow> app_loss \<Rightarrow> (oran_report list \<times> app_loss) res" where
  "app_loss_GenerateReports now active terminator a =
     (if active
      then (case terminator of
              None \<Rightarrow> Inl NullTerminator
            | Some e2NodeId \<Rightarrow>
                Inr ([OranReportAppLoss \<lparr>m_reporterE2NodeId = e2NodeId, m_time = now, m_loss = app_loss_value a\<rparr>],
                     \<lparr>al_tx = 0, al_rx = 0\<rparr>))
      else Inr ([], a))"

section \<open>Signal measurements\<close>

record rsrp_measurement =
  me_time :: time
  me_rnti :: uint16
  me_cellId :: uint16
  me_rsrp :: double
  me_rsrq :: double
  me_isServingCell :: bool
  me_componentCarrierId :: uint8

type_synonym rsrp_key = "uint16 \<times> uint16 \<times> uint8 \<times> bool"

definition measurement_key :: "rsrp_measurement \<Rightarrow> rsrp_key" where
  "measurement_key m = (me_rnti m, me_cellId m, me_componentCarrierId m, me_isServingCell m)"

definition nr_ReportRsrpRsrq ::
  "bool \<Rightarrow> uint64 option \<Rightarrow> rsrp_measurement \<Rightarrow> (rsrp_key \<times> rsrp_measurement) list \<Rightarrow>
   (rsrp_key \<times> rsrp_measurement) list res" where
  "nr_ReportRsrpRsrq active terminator m latest =
     (if active
      then abort_if (terminator = None) NullTerminator (Inr (smap_upd (measurement_key m) m latest))
      else Inr latest)"

definition rsrp_report :: "uint64 \<Rightarrow> rsrp_measurement \<Rightarrow> rsrp_rsrq_report" where
  "rsrp_report e2NodeId m =
     \<lparr>m_reporterE2NodeId = e2NodeId, m_time = me_time m, rr_rnti = me_rnti m, rr_cellId = me_cellId m,
      rr_rsrp = me_rsrp m, rr_rsrq = me_rsrq m, rr_isServingCell = me_isServingCell m,
      rr_componentCarrierId = ucast (me_componentCarrierId m)\<rparr>"

definition nr_rsrp_GenerateReports ::
  "bool \<Rightarrow> uint64 option \<Rightarrow> (rsrp_key \<times> rsrp_measurement) list \<Rightarrow>
   (oran_report list \<times> (rsrp_key \<times> rsrp_measurement) list) res" where
  "nr_rsrp_GenerateReports active terminator latest =
     (if active
      then (case terminator of
              None \<Rightarrow> if latest = [] then Inr ([], []) else Inl NullPointer
            | Some e2NodeId \<Rightarrow> Inr (map (OranReportNrUeRsrpRsrq \<circ> rsrp_report e2NodeId \<circ> snd) latest, []))
      else Inr ([], latest))"

definition lte_ReportRsrpRsrq ::
  "bool \<Rightarrow> uint64 option \<Rightarrow> rsrp_measurement \<Rightarrow> oran_report list \<Rightarrow> oran_report list res" where
  "lte_ReportRsrpRsrq active terminator m reports =
     (if active
      then (case terminator of
              None \<Rightarrow> Inl NullTerminator
            | Some e2NodeId \<Rightarrow> Inr (reports @ [OranReportLteUeRsrpRsrq (rsrp_report e2NodeId m)]))
      else Inr reports)"

text \<open>\<open>GenerateReports\<close> of the LTE measurements and of the SINR: the stored reports.\<close>

definition stored_GenerateReports :: "bool \<Rightarrow> oran_report list \<Rightarrow> oran_report list \<times> oran_report list" where
  "stored_GenerateReports active reports = (if active then (reports, []) else ([], reports))"

definition AddSinrReport ::
  "bool \<Rightarrow> uint64 option \<Rightarrow> time \<Rightarrow> uint16 \<Rightarrow> uint16 \<Rightarrow> double \<Rightarrow> uint16 \<Rightarrow> bool \<Rightarrow> oran_report list \<Rightarrow> oran_report list res" where
  "AddSinrReport active terminator now cellId rnti sinr bwpId isCtrl reports =
     (if \<not> active then Inr reports
      else case terminator of
             None \<Rightarrow> Inl NullTerminator
           | Some e2NodeId \<Rightarrow>
               Inr (reports @ [OranReportNrUeSinr
                 \<lparr>m_reporterE2NodeId = e2NodeId, m_time = now, si_rnti = rnti, si_cellId = cellId, si_bwpId = bwpId,
                  si_sinrLin = sinr, si_sinrDb = (if sinr > 0 then 10 * log 10 sinr else - 1000000000),
                  si_isCtrl = isCtrl\<rparr>]))"

definition ReportDlDataSinr ::
  "bool \<Rightarrow> uint64 option \<Rightarrow> time \<Rightarrow> uint16 \<Rightarrow> uint16 \<Rightarrow> double \<Rightarrow> uint16 \<Rightarrow> oran_report list \<Rightarrow> oran_report list res" where
  "ReportDlDataSinr active terminator now cellId rnti sinr bwpId =
     AddSinrReport active terminator now cellId rnti sinr bwpId False"

definition ReportDlCtrlSinr ::
  "bool \<Rightarrow> uint64 option \<Rightarrow> time \<Rightarrow> uint16 \<Rightarrow> uint16 \<Rightarrow> double \<Rightarrow> uint16 \<Rightarrow> oran_report list \<Rightarrow> oran_report list res" where
  "ReportDlCtrlSinr active terminator now cellId rnti sinr bwpId =
     AddSinrReport active terminator now cellId rnti sinr bwpId True"

section \<open>Cell load\<close>

text \<open>The counters of the two cell-load reporters; \<open>lc_ffr\<close> says that the LTE one has its FFR algorithm.\<close>

record load_counter =
  lc_rbUsageSum :: double
  lc_bandwidth :: uint8
  lc_timeLastReport :: time
  lc_ffr :: bool

definition load_counter_new :: load_counter where
  "load_counter_new = \<lparr>lc_rbUsageSum = 0, lc_bandwidth = 0, lc_timeLastReport = 0, lc_ffr = False\<rparr>"

record nr_sched_info =
  ni_mcs :: uint8
  ni_tbSize :: uint32

definition nr_init_bandwidth :: "node_env \<Rightarrow> load_counter \<Rightarrow> load_counter res" where
  "nr_init_bandwidth env c =
     (if lc_bandwidth c = 0
      then abort_if (\<not> ne_node env) NullPointer
             (case ne_nrGnbPhy env of
                None \<Rightarrow> Inl NullNetDevice
              | Some None \<Rightarrow> Inl NullPhy
              | Some (Some rbNum) \<Rightarrow>
                  let b = ucast rbNum :: uint8 in abort_if (b = 0) ZeroBandwidth (Inr (c\<lparr>lc_bandwidth := b\<rparr>)))
      else Inr c)"

definition nr_DlScheduled ::
  "node_env \<Rightarrow> uint64 option \<Rightarrow> nr_sched_info \<Rightarrow> load_counter \<Rightarrow> load_counter res" where
  "nr_DlScheduled env terminator info c =
     abort_if (terminator = None) NullTerminator
       (res_bind (nr_init_bandwidth env c) (\<lambda>c1.
        res_bind (GetDlRbSizeFromMcs (unat (ni_mcs info)) (sint (ni_tbSize info))) (\<lambda>nprbTb.
          Inr (c1\<lparr>lc_rbUsageSum := lc_rbUsageSum c1 + real nprbTb / real (unat (lc_bandwidth c1))\<rparr>))))"

definition nr_load_GenerateReports ::
  "time \<Rightarrow> bool \<Rightarrow> uint64 option \<Rightarrow> load_counter \<Rightarrow> (oran_report list \<times> load_counter) res" where
  "nr_load_GenerateReports now active terminator c =
     (if active
      then (case terminator of
              None \<Rightarrow> Inl NullTerminator
            | Some e2NodeId \<Rightarrow>
                let ms = GetMilliSeconds (now - lc_timeLastReport c);
                    avgLoad = (if ms > 0 then lc_rbUsageSum c / real_of_int ms else 0)
                in Inr ([OranReportNrCellLoad \<lparr>m_reporterE2NodeId = e2NodeId, m_time = now, m_cellLoad = avgLoad\<rparr>],
                        c\<lparr>lc_rbUsageSum := 0, lc_timeLastReport := now\<rparr>))
      else Inr ([], c))"

record lte_sched_info =
  li_mcsTb1 :: uint8
  li_sizeTb1 :: uint16
  li_mcsTb2 :: uint8
  li_sizeTb2 :: uint16

definition lte_init_ffr :: "node_env \<Rightarrow> load_counter \<Rightarrow> load_counter res" where
  "lte_init_ffr env c =
     (if \<not> lc_ffr c
      then abort_if (\<not> ne_node env) NullPointer
             (case ne_lteEnb env of
                None \<Rightarrow> Inl NullNetDevice
              | Some (dlBandwidth, ffr) \<Rightarrow> Inr (c\<lparr>lc_ffr := ffr, lc_bandwidth := ucast dlBandwidth\<rparr>))
      else Inr c)"

text \<open>The resource blocks of one or two transport blocks, and the available groups, twice for two blocks.\<close>

definition lte_scheduled :: "lte_sched_info \<Rightarrow> uint16 \<Rightarrow> (uint16 \<times> uint16) res" where
  "lte_scheduled info nAvailableRbgs =
     res_bind (GetDlRbSizeFromMcs (unat (li_mcsTb1 info)) (uint (li_sizeTb1 info))) (\<lambda>n1.
       if li_sizeTb2 info \<noteq> 0
       then res_bind (GetDlRbSizeFromMcs (unat (li_mcsTb2 info)) (uint (li_sizeTb2 info))) (\<lambda>n2.
              Inr (of_nat n1 + of_nat n2, nAvailableRbgs * 2))
       else Inr (of_nat n1, nAvailableRbgs))"

definition lte_DlScheduled ::
  "node_env \<Rightarrow> uint64 option \<Rightarrow> lte_sched_info \<Rightarrow> load_counter \<Rightarrow> load_counter res" where
  "lte_DlScheduled env terminator info c =
     abort_if (terminator = None) NullTerminator
       (res_bind (lte_init_ffr env c) (\<lambda>c1.
        abort_if (\<not> lc_ffr c1) NullPointer
          (let numRbg = of_nat (length (ne_dlRbg env)) :: uint16;
               nAvailable = of_nat (length (filter (\<lambda>reserved. \<not> reserved) (ne_dlRbg env))) :: uint16
           in abort_if (numRbg = 0) DivisionByZero
                (let rbgSize = of_nat (unat (lc_bandwidth c1) div unat numRbg) :: uint8
                 in res_bind (lte_scheduled info nAvailable) (\<lambda>(nScheduledRbs, nAvailableRbgs).
                      abort_if (rbgSize = 0 \<or> nAvailableRbgs = 0) NonFinite
                        (Inr (c1\<lparr>lc_rbUsageSum := lc_rbUsageSum c1 +
                           real (unat nScheduledRbs) / real (unat rbgSize) / real (unat nAvailableRbgs)\<rparr>)))))))"

definition lte_load_GenerateReports ::
  "time \<Rightarrow> bool \<Rightarrow> uint64 option \<Rightarrow> load_counter \<Rightarrow> (oran_report list \<times> load_counter) res" where
  "lte_load_GenerateReports now active terminator c =
     (let reset = c\<lparr>lc_rbUsageSum := 0, lc_timeLastReport := now\<rparr>
      in if active
         then (case terminator of
                 None \<Rightarrow> Inl NullTerminator
               | Some e2NodeId \<Rightarrow>
                   let numDlSubframes = of_int (GetMilliSeconds (now - lc_timeLastReport c)) :: uint32
                   in abort_if (numDlSubframes = 0) NonFinite
                        (Inr ([OranReportLteCellLoad \<lparr>m_reporterE2NodeId = e2NodeId, m_time = now,
                                 m_cellLoad = lc_rbUsageSum c / real (unat numDlSubframes)\<rparr>], reset)))
         else Inr ([], reset))"

section \<open>The virtual method, and the trace sources\<close>

datatype reporter_class =
    OranReporterLocation
  | OranReporterNrUeCellInfo
  | OranReporterLteUeCellInfo
  | OranReporterAppLoss app_loss
  | OranReporterNrUeRsrpRsrq "(rsrp_key \<times> rsrp_measurement) list"
  | OranReporterLteUeRsrpRsrq "oran_report list"
  | OranReporterNrUeSinr "oran_report list"
  | OranReporterNrCellLoad load_counter
  | OranReporterLteCellLoad load_counter

definition GenerateReports ::
  "node_env \<Rightarrow> time \<Rightarrow> bool \<Rightarrow> uint64 option \<Rightarrow> reporter_class \<Rightarrow> (oran_report list \<times> reporter_class) res" where
  "GenerateReports env now active terminator cls =
     (case cls of
        OranReporterLocation \<Rightarrow>
          res_bind (location_GenerateReports env now active terminator) (\<lambda>rs. Inr (rs, cls))
      | OranReporterNrUeCellInfo \<Rightarrow>
          res_bind (nr_cell_info_GenerateReports env now active terminator) (\<lambda>rs. Inr (rs, cls))
      | OranReporterLteUeCellInfo \<Rightarrow>
          res_bind (lte_cell_info_GenerateReports env now active terminator) (\<lambda>rs. Inr (rs, cls))
      | OranReporterAppLoss a \<Rightarrow>
          res_bind (app_loss_GenerateReports now active terminator a) (\<lambda>(rs, a1). Inr (rs, OranReporterAppLoss a1))
      | OranReporterNrUeRsrpRsrq ms \<Rightarrow>
          res_bind (nr_rsrp_GenerateReports active terminator ms) (\<lambda>(rs, ms1). Inr (rs, OranReporterNrUeRsrpRsrq ms1))
      | OranReporterLteUeRsrpRsrq xs \<Rightarrow>
          (case stored_GenerateReports active xs of (rs, xs1) \<Rightarrow> Inr (rs, OranReporterLteUeRsrpRsrq xs1))
      | OranReporterNrUeSinr xs \<Rightarrow>
          (case stored_GenerateReports active xs of (rs, xs1) \<Rightarrow> Inr (rs, OranReporterNrUeSinr xs1))
      | OranReporterNrCellLoad c \<Rightarrow>
          res_bind (nr_load_GenerateReports now active terminator c) (\<lambda>(rs, c1). Inr (rs, OranReporterNrCellLoad c1))
      | OranReporterLteCellLoad c \<Rightarrow>
          res_bind (lte_load_GenerateReports now active terminator c) (\<lambda>(rs, c1). Inr (rs, OranReporterLteCellLoad c1)))"

text \<open>The calls of the trace sources a method of a reporter is connected to.\<close>

datatype trace_input =
    Tr_Tx
  | Tr_Rx
  | Tr_RsrpRsrq uint16 uint16 double double bool uint8
  | Tr_DlDataSinr uint16 uint16 double uint16
  | Tr_DlCtrlSinr uint16 uint16 double uint16
  | Tr_NrDlScheduled nr_sched_info
  | Tr_LteDlScheduled lte_sched_info

definition reporter_trace ::
  "node_env \<Rightarrow> time \<Rightarrow> bool \<Rightarrow> uint64 option \<Rightarrow> trace_input \<Rightarrow> reporter_class \<Rightarrow> reporter_class res" where
  "reporter_trace env now active terminator inp cls =
     (case (cls, inp) of
        (OranReporterAppLoss a, Tr_Tx) \<Rightarrow> Inr (OranReporterAppLoss (AddTx a))
      | (OranReporterAppLoss a, Tr_Rx) \<Rightarrow> Inr (OranReporterAppLoss (AddRx a))
      | (OranReporterNrUeRsrpRsrq ms, Tr_RsrpRsrq rnti cellId rsrp rsrq serving cc) \<Rightarrow>
          res_bind (nr_ReportRsrpRsrq active terminator
              \<lparr>me_time = now, me_rnti = rnti, me_cellId = cellId, me_rsrp = rsrp, me_rsrq = rsrq,
               me_isServingCell = serving, me_componentCarrierId = cc\<rparr> ms) (\<lambda>x. Inr (OranReporterNrUeRsrpRsrq x))
      | (OranReporterLteUeRsrpRsrq rs, Tr_RsrpRsrq rnti cellId rsrp rsrq serving cc) \<Rightarrow>
          res_bind (lte_ReportRsrpRsrq active terminator
              \<lparr>me_time = now, me_rnti = rnti, me_cellId = cellId, me_rsrp = rsrp, me_rsrq = rsrq,
               me_isServingCell = serving, me_componentCarrierId = cc\<rparr> rs) (\<lambda>x. Inr (OranReporterLteUeRsrpRsrq x))
      | (OranReporterNrUeSinr rs, Tr_DlDataSinr cellId rnti sinr bwpId) \<Rightarrow>
          res_bind (ReportDlDataSinr active terminator now cellId rnti sinr bwpId rs) (\<lambda>x. Inr (OranReporterNrUeSinr x))
      | (OranReporterNrUeSinr rs, Tr_DlCtrlSinr cellId rnti sinr bwpId) \<Rightarrow>
          res_bind (ReportDlCtrlSinr active terminator now cellId rnti sinr bwpId rs) (\<lambda>x. Inr (OranReporterNrUeSinr x))
      | (OranReporterNrCellLoad c, Tr_NrDlScheduled info) \<Rightarrow>
          res_bind (nr_DlScheduled env terminator info c) (\<lambda>x. Inr (OranReporterNrCellLoad x))
      | (OranReporterLteCellLoad c, Tr_LteDlScheduled info) \<Rightarrow>
          res_bind (lte_DlScheduled env terminator info c) (\<lambda>x. Inr (OranReporterLteCellLoad x))
      | _ \<Rightarrow> Inr cls)"

section \<open>The reported loss\<close>

text \<open>A history of packets: sent or received.\<close>

definition packets :: "bool list \<Rightarrow> app_loss \<Rightarrow> app_loss" where
  "packets es = fold (\<lambda>sent. if sent then AddTx else AddRx) es"

lemma packets_count:
  "packets es a = \<lparr>al_tx = al_tx a + of_nat (length (filter (\<lambda>sent. sent) es)),
     al_rx = al_rx a + of_nat (length (filter Not es))\<rparr>"
proof (induction es arbitrary: a)
  case (Cons e es)
  have "packets (e # es) a = packets es (if e then AddTx a else AddRx a)" by (simp add: packets_def)
  then show ?case unfolding Cons.IH by (simp add: AddTx_def AddRx_def add.assoc)
qed (simp add: packets_def)

lemma app_loss_value_count:
  assumes "t < 2 ^ 64" and "r < 2 ^ 64"
  shows "app_loss_value \<lparr>al_tx = of_nat t, al_rx = of_nat r\<rparr> = (if r \<le> t \<and> 0 < t then real (t - r) / real t else 0)"
proof -
  have u: "unat (of_nat t :: uint64) = t" "unat (of_nat r :: uint64) = r"
    using assms by (simp_all add: unsigned_of_nat take_bit_nat_eq_self)
  have le: "(of_nat r :: uint64) \<le> of_nat t \<longleftrightarrow> r \<le> t" "(0 :: uint64) < of_nat t \<longleftrightarrow> 0 < t"
    by (simp_all add: word_le_nat_alt word_less_nat_alt u)
  have "unat (of_nat t - of_nat r :: uint64) = t - r" if "r \<le> t"
    using that le(1) by (simp add: unat_sub u)
  then show ?thesis by (simp add: app_loss_value_def le u)
qed

lemma app_loss_value_range: "0 \<le> app_loss_value a" "app_loss_value a \<le> 1"
proof -
  have "unat (al_tx a - al_rx a) \<le> unat (al_tx a)" if "al_rx a \<le> al_tx a"
    using that by (simp add: unat_sub)
  then show "0 \<le> app_loss_value a" "app_loss_value a \<le> 1"
    by (auto simp: app_loss_value_def divide_le_eq_1 simp del: of_nat_unat)
qed

section \<open>The newest measurement of each key\<close>

definition measured :: "rsrp_measurement list \<Rightarrow> (rsrp_key \<times> rsrp_measurement) list \<Rightarrow> (rsrp_key \<times> rsrp_measurement) list" where
  "measured ms latest = fold (\<lambda>m. smap_upd (measurement_key m) m) ms latest"

lemma nr_ReportRsrpRsrq_fold:
  "res_fold (nr_ReportRsrpRsrq True (Some e)) ms latest = Inr (measured ms latest)"
  by (induction ms arbitrary: latest) (simp_all add: nr_ReportRsrpRsrq_def measured_def)

lemma measured_map_of:
  "map_of (measured ms latest) = map_of latest ++ map_of (rev (map (\<lambda>m. (measurement_key m, m)) ms))"
  by (induction ms arbitrary: latest) (auto simp: measured_def map_add_def fun_eq_iff split: option.split)

lemma measured_ok: "smap_ok latest \<Longrightarrow> smap_ok (measured ms latest)"
  by (induction ms arbitrary: latest) (simp_all add: measured_def)

text \<open>An ordered map is determined by its lookups.\<close>

lemma smap_entries:
  assumes "smap_ok m"
  shows "m = map (\<lambda>k. (k, the (map_of m k))) (sorted_list_of_set (dom (map_of m)))"
proof -
  have keys: "map fst m = sorted_list_of_set (dom (map_of m))"
    using assms by (simp add: dom_map_of_conv_image_fst smap_ok_def strict_sorted_iff sorted_list_of_set.idem_if_sorted_distinct flip: set_map)
  have "m = map (\<lambda>k. (k, the (map_of m k))) (map fst m)"
    using smap_ok_map_of [OF assms] by (auto intro!: map_idI [symmetric] simp: comp_def) (metis option.sel)
  then show ?thesis unfolding keys .
qed

lemma measured_newest:
  "measured ms [] = map (\<lambda>k. (k, the (map_of (rev (map (\<lambda>m. (measurement_key m, m)) ms)) k)))
     (sorted_list_of_set (measurement_key ` set ms))"
proof -
  have "dom (map_of (measured ms [])) = measurement_key ` set ms"
    by (simp add: measured_map_of dom_map_of_conv_image_fst image_image)
  with smap_entries [OF measured_ok [OF smap_ok_Nil], of ms] show ?thesis
    unfolding measured_map_of by simp
qed

section \<open>Accounting of the cell load\<close>

text \<open>What a cell-load reporter is called for: a scheduled block, or a report.\<close>

datatype load_call = Scheduled nr_sched_info | Report

definition load_call_step ::
  "node_env \<Rightarrow> uint64 \<Rightarrow> time \<times> load_call \<Rightarrow> oran_report list \<times> load_counter \<Rightarrow> (oran_report list \<times> load_counter) res" where
  "load_call_step env e call s =
     (case snd call of
        Scheduled info \<Rightarrow> res_bind (nr_DlScheduled env (Some e) info (snd s)) (\<lambda>c. Inr (fst s, c))
      | Report \<Rightarrow> res_bind (nr_load_GenerateReports (fst call) True (Some e) (snd s)) (\<lambda>(rs, c). Inr (fst s @ rs, c)))"

text \<open>The times of the calls of \<open>GenerateReports\<close>, and what reported loads stand for over the gaps between them.\<close>

definition report_times :: "(time \<times> load_call) list \<Rightarrow> time list" where
  "report_times calls = map fst (filter (\<lambda>call. snd call = Report) calls)"

definition load_of :: "oran_report \<Rightarrow> time \<times> double" where
  "load_of r = (case r of OranReportNrCellLoad l \<Rightarrow> (m_time l, m_cellLoad l) | _ \<Rightarrow> (0, 0))"

fun reported_usage :: "time \<Rightarrow> time list \<Rightarrow> double list \<Rightarrow> double" where
  "reported_usage t (now # ts) (l # ls) = l * real_of_int (GetMilliSeconds (now - t)) + reported_usage now ts ls"
| "reported_usage t _ _ = 0"

text \<open>The number of resource blocks a load is a share of: what the counter holds or will take from the PHY.\<close>

definition counter_bandwidth :: "node_env \<Rightarrow> load_counter \<Rightarrow> uint8" where
  "counter_bandwidth env c =
     (if lc_bandwidth c \<noteq> 0 then lc_bandwidth c else case ne_nrGnbPhy env of Some (Some rbNum) \<Rightarrow> ucast rbNum | _ \<Rightarrow> 0)"

definition scheduled_rbs :: "(time \<times> load_call) list \<Rightarrow> nat" where
  "scheduled_rbs calls = (\<Sum>(t, c)\<leftarrow>calls. case c of
     Scheduled info \<Rightarrow> (case GetDlRbSizeFromMcs (unat (ni_mcs info)) (sint (ni_tbSize info)) of Inr n \<Rightarrow> n | Inl _ \<Rightarrow> 0)
   | Report \<Rightarrow> 0)"

text \<open>The reports come at least a millisecond after each other.\<close>

fun spaced :: "time \<Rightarrow> (time \<times> load_call) list \<Rightarrow> bool" where
  "spaced t [] = True"
| "spaced t ((now, Scheduled info) # calls) = spaced t calls"
| "spaced t ((now, Report) # calls) = (1000000 \<le> now - t \<and> spaced now calls)"

lemma GetMilliSeconds_pos: "1000000 \<le> t \<Longrightarrow> 0 < GetMilliSeconds t"
  by (simp add: GetMilliSeconds_def pos_imp_zdiv_pos_iff)

lemma nr_DlScheduled_eq:
  assumes "nr_DlScheduled env (Some e) info c = Inr c'"
  obtains n where "GetDlRbSizeFromMcs (unat (ni_mcs info)) (sint (ni_tbSize info)) = Inr n"
    and "lc_rbUsageSum c' = lc_rbUsageSum c + real n / real (unat (counter_bandwidth env c))"
    and "counter_bandwidth env c' = counter_bandwidth env c" and "lc_timeLastReport c' = lc_timeLastReport c"
  using assms
  by (auto simp: nr_DlScheduled_def nr_init_bandwidth_def counter_bandwidth_def Let_def abort_if_def
      split: if_splits option.splits elim!: res_bind_eq_InrE)

lemma load_calls_conserved:
  assumes "res_fold (load_call_step env e) calls (out, c) = Inr (out', c')" and "spaced (lc_timeLastReport c) calls"
  shows "\<exists>rs. out' = out @ rs \<and> map (fst \<circ> load_of) rs = report_times calls \<and>
    reported_usage (lc_timeLastReport c) (report_times calls) (map (snd \<circ> load_of) rs) + lc_rbUsageSum c' =
      lc_rbUsageSum c + real (scheduled_rbs calls) / real (unat (counter_bandwidth env c))"
  using assms
proof (induction calls arbitrary: out c)
  case Nil
  then show ?case by (simp add: scheduled_rbs_def report_times_def)
next
  case (Cons call calls)
  obtain now k where call: "call = (now, k)" by (cases call)
  from Cons.prems(1) obtain s1 where step: "load_call_step env e call (out, c) = Inr s1"
    and rest: "res_fold (load_call_step env e) calls s1 = Inr (out', c')" by auto
  show ?case
  proof (cases k)
    case (Scheduled info)
    from step obtain c1 where c1: "nr_DlScheduled env (Some e) info c = Inr c1" "s1 = (out, c1)"
      by (auto simp: load_call_step_def call Scheduled)
    obtain n where n: "GetDlRbSizeFromMcs (unat (ni_mcs info)) (sint (ni_tbSize info)) = Inr n"
      "lc_rbUsageSum c1 = lc_rbUsageSum c + real n / real (unat (counter_bandwidth env c))"
      "counter_bandwidth env c1 = counter_bandwidth env c" "lc_timeLastReport c1 = lc_timeLastReport c"
      using nr_DlScheduled_eq [OF c1(1)] .
    have "scheduled_rbs (call # calls) = n + scheduled_rbs calls" "report_times (call # calls) = report_times calls"
      by (simp_all add: scheduled_rbs_def report_times_def call Scheduled n(1))
    moreover have "spaced (lc_timeLastReport c1) calls" using Cons.prems(2) by (simp add: n(4) call Scheduled)
    note Cons.IH [OF rest [unfolded c1(2)] this, unfolded n(3,4)]
    then obtain rs where "out' = out @ rs" "map (fst \<circ> load_of) rs = report_times calls"
        "reported_usage (lc_timeLastReport c) (report_times calls) (map (snd \<circ> load_of) rs) + lc_rbUsageSum c' =
          lc_rbUsageSum c1 + real (scheduled_rbs calls) / real (unat (counter_bandwidth env c))"
      by blast
    ultimately show ?thesis by (intro exI [of _ rs]) (simp add: n(2) add_divide_distrib comp_def add.assoc)
  next
    case Report
    let ?t = "now - lc_timeLastReport c" and ?c = "c\<lparr>lc_rbUsageSum := 0, lc_timeLastReport := now\<rparr>"
    let ?r = "OranReportNrCellLoad \<lparr>m_reporterE2NodeId = e, m_time = now,
        m_cellLoad = lc_rbUsageSum c / real_of_int (GetMilliSeconds ?t)\<rparr>"
    have gap: "1000000 \<le> ?t" "spaced now calls" using Cons.prems(2) by (simp_all add: call Report)
    note pos = GetMilliSeconds_pos [OF gap(1)]
    have s1: "s1 = (out @ [?r], ?c)"
      using step pos by (simp add: load_call_step_def call Report nr_load_GenerateReports_def Let_def)
    have c1: "lc_rbUsageSum ?c = 0" "lc_timeLastReport ?c = now" "counter_bandwidth env ?c = counter_bandwidth env c"
      by (simp_all add: counter_bandwidth_def)
    note Cons.IH [OF rest [unfolded s1], unfolded c1, OF gap(2)]
    then obtain rs where
      rs: "out' = (out @ [?r]) @ rs" "map (fst \<circ> load_of) rs = report_times calls"
        "reported_usage now (report_times calls) (map (snd \<circ> load_of) rs) + lc_rbUsageSum c' =
          0 + real (scheduled_rbs calls) / real (unat (counter_bandwidth env c))"
      by blast
    have "scheduled_rbs (call # calls) = scheduled_rbs calls" "report_times (call # calls) = now # report_times calls"
      by (simp_all add: scheduled_rbs_def report_times_def call Report)
    then show ?thesis using rs pos by (intro exI [of _ "?r # rs"]) (simp add: load_of_def comp_def)
  qed
qed

section \<open>Properties\<close>

text \<open>
  The reports of the NR signal reporter hold exactly the newest measurement since the last report for each
  RNTI, cell, component carrier and serving flag, one report for each, in increasing order of the four, and
  the store is empty afterwards.
\<close>

lemma nr_rsrp_reports_newest:
  "res_bind (res_fold (nr_ReportRsrpRsrq True (Some e)) ms []) (nr_rsrp_GenerateReports True (Some e)) =
     Inr (map (\<lambda>k. OranReportNrUeRsrpRsrq (rsrp_report e (the (map_of (rev (map (\<lambda>m. (measurement_key m, m)) ms)) k))))
            (sorted_list_of_set (measurement_key ` set ms)), [])"
  by (simp add: nr_ReportRsrpRsrq_fold nr_rsrp_GenerateReports_def measured_newest)

text \<open>
  The loss an application reports is the share of the packets sent since the last report that was not
  received, or 0 when nothing was sent or more was received than sent; it is between 0 and 1, and the
  counters start again.
\<close>

lemma app_loss_exact:
  assumes "length es < 2 ^ 64"
  shows "app_loss_GenerateReports now True (Some e) (packets es OranReporterAppLoss_new) =
    (let t = length (filter (\<lambda>sent. sent) es); r = length (filter Not es)
     in Inr ([OranReportAppLoss \<lparr>m_reporterE2NodeId = e, m_time = now,
                m_loss = (if r \<le> t \<and> 0 < t then real (t - r) / real t else 0)\<rparr>], OranReporterAppLoss_new)) \<and>
    0 \<le> app_loss_value (packets es OranReporterAppLoss_new) \<and> app_loss_value (packets es OranReporterAppLoss_new) \<le> 1"
proof -
  have "length (filter (\<lambda>sent. sent) es) < 2 ^ 64" "length (filter Not es) < 2 ^ 64"
    using assms length_filter_le by (metis le_less_trans)+
  note loss = app_loss_value_count [OF this]
  show ?thesis
    using loss app_loss_value_range
    by (simp add: app_loss_GenerateReports_def packets_count OranReporterAppLoss_new_def Let_def)
qed

text \<open>
  C40: The NR cell-load reporter accounts for every scheduled resource block exactly once, from its first call on:
  over any calls that do not abort and in which the calls of \<open>GenerateReports\<close> are at least a millisecond apart,
  each of these makes one report with the time of the call, and the reported loads, each times the milliseconds
  since the call before, and what is left in the counter are together the counter at the start and the scheduled
  resource blocks as a share of the bandwidth, which the first scheduled block takes from the PHY.
\<close>

theorem nr_load_conserved:
  assumes "res_fold (load_call_step env e) calls ([], c) = Inr (out, c')" and "spaced (lc_timeLastReport c) calls"
  shows "map (fst \<circ> load_of) out = report_times calls \<and>
    reported_usage (lc_timeLastReport c) (report_times calls) (map (snd \<circ> load_of) out) + lc_rbUsageSum c' =
      lc_rbUsageSum c + real (scheduled_rbs calls) / real (unat (counter_bandwidth env c))"
  using load_calls_conserved [OF assms] by auto

definition ex_env :: node_env where
  "ex_env = \<lparr>ne_node = True, ne_mobility = None, ne_nrUeRrc = None, ne_lteUeRrc = None,
     ne_nrGnbPhy = Some (Some 273), ne_lteEnb = None, ne_dlRbg = []\<rparr>"

definition ex_block :: nr_sched_info where
  "ex_block = \<lparr>ni_mcs = 28, ni_tbSize = 186\<rparr>"

lemma ex_block_rbs: "GetDlRbSizeFromMcs 28 186 = Inr 3"
  by code_simp

theorem nr_load_conserved_witness:
  "\<exists>c'. res_fold (load_call_step ex_env 3)
       [(0, Scheduled ex_block), (2000000, Report), (3000000, Scheduled ex_block), (7000000, Report), (8000000, Scheduled ex_block)]
       ([], load_counter_new) =
         Inr ([OranReportNrCellLoad \<lparr>m_reporterE2NodeId = 3, m_time = 2000000, m_cellLoad = 3 / 34\<rparr>,
               OranReportNrCellLoad \<lparr>m_reporterE2NodeId = 3, m_time = 7000000, m_cellLoad = 3 / 85\<rparr>], c') \<and>
     3 / 34 * 2 + 3 / 85 * 5 + lc_rbUsageSum c' = 9 / 17"
proof -
  let ?calls = "[(0, Scheduled ex_block), (2000000, Report), (3000000, Scheduled ex_block), (7000000, Report),
    (8000000, Scheduled ex_block)]"
  obtain c' where run: "res_fold (load_call_step ex_env 3) ?calls ([], load_counter_new) =
      Inr ([OranReportNrCellLoad \<lparr>m_reporterE2NodeId = 3, m_time = 2000000, m_cellLoad = 3 / 34\<rparr>,
            OranReportNrCellLoad \<lparr>m_reporterE2NodeId = 3, m_time = 7000000, m_cellLoad = 3 / 85\<rparr>], c')"
    by (simp add: load_call_step_def nr_DlScheduled_def nr_init_bandwidth_def nr_load_GenerateReports_def ex_block_def
        ex_block_rbs load_counter_new_def ex_env_def Let_def GetMilliSeconds_def)
  from nr_load_conserved [OF run] have "3 / 34 * 2 + 3 / 85 * 5 + lc_rbUsageSum c' = 9 / 17"
    by (simp add: load_counter_new_def scheduled_rbs_def report_times_def load_of_def counter_bandwidth_def ex_env_def
        ex_block_def ex_block_rbs GetMilliSeconds_def)
  with run show ?thesis by blast
qed

text \<open>
  The number of resource blocks of a gNB is kept in eight bits: a gNB with 256 of them ends the simulation,
  and with more, the load is a share of the remainder modulo 256 only.
\<close>

lemma nr_bandwidth_truncated:
  assumes "lc_bandwidth c = 0" and "ne_node env" and "ne_nrGnbPhy env = Some (Some rbNum)"
    and "GetDlRbSizeFromMcs (unat (ni_mcs info)) (sint (ni_tbSize info)) = Inr n"
  shows "nr_DlScheduled env (Some e) info c =
    (if unat rbNum mod 256 = 0 then Inl ZeroBandwidth
     else Inr (c\<lparr>lc_bandwidth := of_nat (unat rbNum mod 256),
                 lc_rbUsageSum := lc_rbUsageSum c + real n / real (unat rbNum mod 256)\<rparr>))"
proof -
  have u: "unat (ucast rbNum :: uint8) = unat rbNum mod 256"
    by (simp add: unsigned_ucast_eq take_bit_eq_mod)
  then have z: "(ucast rbNum :: uint8) = 0 \<longleftrightarrow> unat rbNum mod 256 = 0"
    by (metis unsigned_0 word_unat_eq_iff)
  have "(ucast rbNum :: uint8) = of_nat (unat rbNum mod 256)" by (simp flip: u)
  then show ?thesis
    using assms z u by (simp add: nr_DlScheduled_def nr_init_bandwidth_def Let_def del: of_nat_unat)
qed

end
