(* ===== verification/Oran_World.thy ===== *)
theory Oran_World
  imports Engine_Methods Oran_Cmm Lm_Tn_Ntn Lm_Secrecy_Onnx Reporters
begin

text \<open>
  The objects of the control loop and the events they schedule. Objects are records; the pointers
  between them are indices (logic modules, E2 nodes) or flags that say whether the pointer is set.
  A \<open>RandomVariableStream\<close> is the sequence of its draws, as delays. Every method that may abort or
  schedule is a function from the state (the objects and the event engine) to a result. The predicate
  \<open>engine_safe\<close> says what such a method does to the engine; its rules carry the proof that the
  dispatcher of the components meets the contract \<open>event_handler\<close>.
\<close>

section \<open>Objects\<close>

record rv =
  rv_draws :: "nat \<Rightarrow> time"
  rv_pos :: nat

definition GetValue :: "rv \<Rightarrow> time \<times> rv" where
  "GetValue r = (rv_draws r (rv_pos r), r\<lparr>rv_pos := Suc (rv_pos r)\<rparr>)"

text \<open>
  The logic modules. The first two LTE ones carry the values of their uninitialised variable, the
  learning-based ones their loaded model.
\<close>

datatype lm_class =
    OranLmNoop
  | Lm_Nr2NrRsrp rsrp_params
  | Lm_Nr2NrRsrpCellLoad load_params
  | Lm_Nr2NrRsrpTnNtn tn_params
  | Lm_NrSecrecy sec_params
  | Lm_Lte2LteDistance "time \<Rightarrow> uint64 \<Rightarrow> uint64"
  | Lm_Lte2LteRsrp "time \<Rightarrow> uint64 \<Rightarrow> uint64"
  | Lm_Nr2NrOnnx onnx_session
  | Lm_Lte2LteOnnx onnx_session
  | Lm_Nr2NrTorch torch_model
  | Lm_Lte2LteTorch torch_model
  | Lm_NrOnnxSecrecy osec_params

text \<open>
  The function-local \<open>static\<close> maps of the NR modules, which all objects of a class share. The records of
  the TN/NTN and the secrecy-aware modules also have the members these change in a run (the file of decisions,
  the risk map, the remembered states of the UEs); this is exact for at most one object of each of these classes.
\<close>

record lm_static =
  ls_rsrp :: ho_static
  ls_load :: load_static
  ls_tn :: tn_static
  ls_sec :: sec_static
  ls_osec :: osec_static

record oran_lm =
  lm_nearRtRic :: bool
  lm_active :: bool
  lm_verbose :: bool
  lm_name :: string
  lm_class :: lm_class
  lm_cycle :: time
  lm_commands :: "oran_command list"
  lm_finishRunEvent :: event_id
  lm_processingDelayRv :: rv

text \<open>
  Reporters and their triggers. A trigger is periodic or hooked to trace sources of the node, with a flag that
  says whether its sinks are connected.
\<close>

datatype trace_source = LocationChange | NrUeHandover | LteUeHandover

datatype trigger_class = Periodic rv event_id | Traced trace_source bool

record report_trigger =
  tr_active :: bool
  tr_reporter :: bool
  tr_initialReport :: bool
  tr_class :: trigger_class

record reporter =
  rep_active :: bool
  rep_terminator :: bool
  rep_trigger :: "report_trigger option"
  rep_class :: reporter_class

text \<open>The part of the RRC of a base station the terminators use.\<close>

datatype ue_state = CONNECTED_NORMALLY | CONNECTION_RECONFIGURATION | Other_state

record e2_node =
  en_active :: bool
  en_nearRtRic :: bool
  en_type :: node_type
  en_node :: bool
  en_device :: bool
  en_imsi :: uint64
  en_cellId :: uint16
  en_e2NodeId :: uint64
  en_reports :: "oran_report list"
  en_reporters :: "reporter list"
  en_registrationEvent :: event_id
  en_sendEvent :: event_id
  en_registrationIntervalRv :: rv
  en_sendIntervalRv :: rv
  en_transmissionDelayRv :: rv
  en_ueManagers :: "uint16 \<Rightarrow> ue_state option"
  en_handoverRequests :: "(uint16 \<times> uint16) list"
  en_env :: "time \<Rightarrow> node_env"

record ric_e2_terminator =
  et_active :: bool
  et_nearRtRic :: bool
  et_data :: bool
  et_transmissionDelayRv :: rv
  et_nodeTerminators :: "(uint64 \<times> nat) list"

datatype late_policy = DROP | SAVE

record near_rt_ric =
  ric_active :: bool
  ric_e2Terminator :: bool
  ric_data :: bool
  ric_cmm :: bool
  ric_defaultLm :: "nat option"
  ric_additionalLms :: "(string \<times> nat) list"
  ric_queryTriggers :: "(string \<times> (oran_report \<Rightarrow> bool)) list"
  ric_lmQueryInterval :: time
  ric_lmQueryMaxWaitTime :: time
  ric_lateCommandPolicy :: late_policy
  ric_inactivityThreshold :: time
  ric_inactivityIntervalRv :: rv
  ric_lmQueryEvent :: event_id
  ric_inactivityEvent :: event_id
  ric_processEvent :: event_id
  ric_lmQueryCycle :: time
  ric_lmQueryCommands :: lm_commands

record oran_world =
  w_ric :: near_rt_ric
  w_e2t :: ric_e2_terminator
  w_data :: oran_data
  w_cmm :: oran_cmm
  w_lms :: "nat \<Rightarrow> oran_lm"
  w_static :: lm_static
  w_nodes :: "nat \<Rightarrow> e2_node"

section \<open>Constructors, with the default attributes\<close>

definition ConstantRandomVariable :: "time \<Rightarrow> rv" where
  "ConstantRandomVariable c = \<lparr>rv_draws = (\<lambda>_. c), rv_pos = 0\<rparr>"

definition OranLm :: "string \<Rightarrow> lm_class \<Rightarrow> oran_lm" where
  "OranLm name cls =
     \<lparr>lm_nearRtRic = False, lm_active = False, lm_verbose = False, lm_name = name, lm_class = cls,
      lm_cycle = 0, lm_commands = [], lm_finishRunEvent = EventId,
      lm_processingDelayRv = ConstantRandomVariable 0\<rparr>"

definition OranReportTriggerPeriodic :: report_trigger where
  "OranReportTriggerPeriodic =
     \<lparr>tr_active = False, tr_reporter = False, tr_initialReport = False,
      tr_class = Periodic (ConstantRandomVariable 1000000000) EventId\<rparr>"

definition traced_trigger :: "trace_source \<Rightarrow> report_trigger" where
  "traced_trigger src =
     \<lparr>tr_active = False, tr_reporter = False, tr_initialReport = False, tr_class = Traced src False\<rparr>"

definition OranReporter :: "reporter_class \<Rightarrow> reporter" where
  "OranReporter cls =
     \<lparr>rep_active = False, rep_terminator = False, rep_trigger = Some OranReportTriggerPeriodic,
      rep_class = cls\<rparr>"

definition OranE2NodeTerminator :: "node_type \<Rightarrow> (time \<Rightarrow> node_env) \<Rightarrow> e2_node" where
  "OranE2NodeTerminator ty env =
     \<lparr>en_active = False, en_nearRtRic = False, en_type = ty, en_node = False, en_device = False,
      en_imsi = 0, en_cellId = 0, en_e2NodeId = 0, en_reports = [], en_reporters = [],
      en_registrationEvent = EventId, en_sendEvent = EventId,
      en_registrationIntervalRv = ConstantRandomVariable 1000000000,
      en_sendIntervalRv = ConstantRandomVariable 1000000000,
      en_transmissionDelayRv = ConstantRandomVariable 0,
      en_ueManagers = (\<lambda>_. None), en_handoverRequests = [], en_env = env\<rparr>"

definition OranNearRtRicE2Terminator :: ric_e2_terminator where
  "OranNearRtRicE2Terminator =
     \<lparr>et_active = False, et_nearRtRic = False, et_data = False, et_transmissionDelayRv = ConstantRandomVariable 0,
      et_nodeTerminators = []\<rparr>"

definition OranNearRtRic :: near_rt_ric where
  "OranNearRtRic =
     \<lparr>ric_active = False, ric_e2Terminator = False, ric_data = False, ric_cmm = False,
      ric_defaultLm = None, ric_additionalLms = [], ric_queryTriggers = [],
      ric_lmQueryInterval = 5000000000, ric_lmQueryMaxWaitTime = 0, ric_lateCommandPolicy = DROP,
      ric_inactivityThreshold = 5000000000,
      ric_inactivityIntervalRv = ConstantRandomVariable 5000000000, ric_lmQueryEvent = EventId,
      ric_inactivityEvent = EventId, ric_processEvent = EventId, ric_lmQueryCycle = 0,
      ric_lmQueryCommands = []\<rparr>"

section \<open>Events\<close>

text \<open>
  The methods that are scheduled, with their object and arguments, and the calls of the trace sources: the
  radio and application models make them in events of their own.
\<close>

datatype oran_event =
    Ev_QueryLms
  | Ev_CheckForInactivity
  | Ev_ProcessLmQueryCommands
  | Ev_FinishRun nat
  | Ev_ReceiveRegistrationRequest node_type uint64 nat
  | Ev_ReceiveDeregistrationRequest uint64
  | Ev_ReceiveReport oran_report
  | Ev_ReceiveRegistrationResponse nat uint64
  | Ev_ReceiveDeregistrationResponse nat uint64
  | Ev_ReceiveCommand nat oran_command
  | Ev_Register nat
  | Ev_DoSendReports nat
  | Ev_TriggerReport nat nat
  | Ev_Trace nat nat trace_input
  | Ev_TraceSink nat nat

type_synonym oran_st = "oran_world \<times> oran_event simulator"

definition upd_node :: "nat \<Rightarrow> (e2_node \<Rightarrow> e2_node) \<Rightarrow> oran_world \<Rightarrow> oran_world" where
  "upd_node i f w = w\<lparr>w_nodes := (w_nodes w)(i := f (w_nodes w i))\<rparr>"

definition upd_lm :: "nat \<Rightarrow> (oran_lm \<Rightarrow> oran_lm) \<Rightarrow> oran_world \<Rightarrow> oran_world" where
  "upd_lm i f w = w\<lparr>w_lms := (w_lms w)(i := f (w_lms w i))\<rparr>"

definition upd_ric :: "(near_rt_ric \<Rightarrow> near_rt_ric) \<Rightarrow> oran_world \<Rightarrow> oran_world" where
  "upd_ric f w = w\<lparr>w_ric := f (w_ric w)\<rparr>"

definition upd_e2t :: "(ric_e2_terminator \<Rightarrow> ric_e2_terminator) \<Rightarrow> oran_world \<Rightarrow> oran_world" where
  "upd_e2t f w = w\<lparr>w_e2t := f (w_e2t w)\<rparr>"

definition upd_data :: "(oran_data \<Rightarrow> oran_data) \<Rightarrow> oran_world \<Rightarrow> oran_world" where
  "upd_data f w = w\<lparr>w_data := f (w_data w)\<rparr>"

lemmas engine_safe_unit_query [engine_intro] = engine_safe_query [where 'a = unit]
lemmas engine_safe_reports_query [engine_intro] = engine_safe_query [where 'a = "oran_report list \<times> reporter_class"]
lemmas engine_safe_class_query [engine_intro] = engine_safe_query [where 'a = reporter_class]

text \<open>Case distinctions on the data of an object, and the definition of a method.\<close>

lemma engine_safe_trigger [engine_intro]:
  assumes "\<And>rv e. engine_safe (f rv e)" and "\<And>src b. engine_safe (g src b)"
  shows "engine_safe (\<lambda>st. case c st of Periodic rv e \<Rightarrow> f rv e st | Traced src b \<Rightarrow> g src b st)"
proof (rule engine_safeI)
  fix st st'
  assume "(case c st of Periodic rv e \<Rightarrow> f rv e st | Traced src b \<Rightarrow> g src b st) = Inr st'"
  then show "engine_ext (snd st) (snd st')"
    using assms [THEN engine_safeD, of _ _ st st'] by (cases "c st") simp_all
qed

lemma engine_safe_command [engine_intro]:
  assumes "\<And>i. engine_safe (f i)" and "\<And>h. engine_safe (g h)" and "\<And>h. engine_safe (k h)"
  shows "engine_safe (\<lambda>st. case c st of OranCommand i \<Rightarrow> f i st | OranCommandLte2LteHandover h \<Rightarrow> g h st
      | OranCommandNr2NrHandover h \<Rightarrow> k h st)"
proof (rule engine_safeI)
  fix st st'
  assume "(case c st of OranCommand i \<Rightarrow> f i st | OranCommandLte2LteHandover h \<Rightarrow> g h st
      | OranCommandNr2NrHandover h \<Rightarrow> k h st) = Inr st'"
  then show "engine_ext (snd st) (snd st')"
    using assms [THEN engine_safeD, of _ st st'] by (cases "c st") simp_all
qed

lemma engine_safe_node_type [engine_intro]:
  "engine_safe f1 \<Longrightarrow> engine_safe f2 \<Longrightarrow> engine_safe f3 \<Longrightarrow> engine_safe f4 \<Longrightarrow> engine_safe f5 \<Longrightarrow>
    engine_safe (\<lambda>st. case c st of WIRED \<Rightarrow> f1 st | LTEUE \<Rightarrow> f2 st | LTEENB \<Rightarrow> f3 st | NRUE \<Rightarrow> f4 st
      | NRGNB \<Rightarrow> f5 st)"
  by (rule engine_safeI) (auto dest: engine_safeD split: node_type.splits)

text \<open>The static maps of the concrete runs.\<close>

definition ex_lm_static :: lm_static where
  "ex_lm_static = \<lparr>ls_rsrp = ex_static, ls_load = ex_load_static, ls_tn = ex_tn_static, ls_sec = ex_sec_static,
     ls_osec = ex_osec_static\<rparr>"

end
