(* ===== verification/E2_Node.thy ===== *)
theory E2_Node
  imports Oran_World
begin

text \<open>
  The E2 nodes: \<open>OranE2NodeTerminator\<close> and its subclasses, with the reporters
  (\<open>OranReporter\<close>) and report triggers (\<open>OranReportTrigger\<close> and its four subclasses)
  attached to a node. Node \<open>i\<close> is \<open>w_nodes w i\<close> and its reporter \<open>j\<close> the \<open>j\<close>-th of
  \<open>en_reporters\<close>. A trigger that was deactivated is detached from its reporter; an event of such a
  trigger finds no reporter.
\<close>

section \<open>Reporters and triggers\<close>

definition node_of :: "oran_st \<Rightarrow> nat \<Rightarrow> e2_node" where
  "node_of st i = w_nodes (fst st) i"

definition reporter_of :: "oran_st \<Rightarrow> nat \<Rightarrow> nat \<Rightarrow> reporter" where
  "reporter_of st i j = en_reporters (node_of st i) ! j"

definition upd_reporter :: "nat \<Rightarrow> nat \<Rightarrow> (reporter \<Rightarrow> reporter) \<Rightarrow> oran_world \<Rightarrow> oran_world" where
  "upd_reporter i j f =
     upd_node i (\<lambda>n. n\<lparr>en_reporters := (en_reporters n)[j := f (en_reporters n ! j)]\<rparr>)"

definition upd_trigger :: "nat \<Rightarrow> nat \<Rightarrow> (report_trigger \<Rightarrow> report_trigger) \<Rightarrow> oran_world \<Rightarrow> oran_world" where
  "upd_trigger i j f = upd_reporter i j (\<lambda>r. r\<lparr>rep_trigger := map_option f (rep_trigger r)\<rparr>)"

definition ScheduleNextTrigger :: "nat \<Rightarrow> nat \<Rightarrow> rv \<Rightarrow> oran_st \<Rightarrow> oran_st res" where
  "ScheduleNextTrigger i j intervalRv st =
     (case GetValue intervalRv of (delay, rv') \<Rightarrow>
        sched delay (Ev_TriggerReport i j)
          (\<lambda>eid. upd_trigger i j (\<lambda>t. t\<lparr>tr_class := Periodic rv' eid\<rparr>)) st)"

text \<open>What a reporter sees of its node and of its terminator.\<close>

definition env_of :: "oran_st \<Rightarrow> nat \<Rightarrow> node_env" where
  "env_of st i = (en_env (node_of st i) (now_of st))\<lparr>ne_node := en_node (node_of st i)\<rparr>"

definition terminator_of :: "oran_st \<Rightarrow> nat \<Rightarrow> nat \<Rightarrow> uint64 option" where
  "terminator_of st i j = (if rep_terminator (reporter_of st i j) then Some (en_e2NodeId (node_of st i)) else None)"

text \<open>The object of the node that has the trace source.\<close>

definition find_source :: "node_env \<Rightarrow> trace_source \<Rightarrow> unit res" where
  "find_source env src =
     abort_if (\<not> ne_node env) NullPointer
       (case src of
          LocationChange \<Rightarrow> abort_if (ne_mobility env = None) NoMobility (Inr ())
        | NrUeHandover \<Rightarrow> abort_if (ne_nrUeRrc env = None) NullNetDevice (Inr ())
        | LteUeHandover \<Rightarrow> abort_if (ne_lteUeRrc env = None) NullNetDevice (Inr ()))"

definition ConnectSink :: "nat \<Rightarrow> nat \<Rightarrow> trace_source \<Rightarrow> bool \<Rightarrow> oran_st \<Rightarrow> oran_st res" where
  "ConnectSink i j src connect st =
     abort_if (\<not> rep_terminator (reporter_of st i j)) NullPointer
       (res_bind (find_source (env_of st i) src) (\<lambda>_.
          Inr (on_world (upd_trigger i j (\<lambda>t. t\<lparr>tr_class := Traced src connect\<rparr>)) st)))"

definition trigger_Activate :: "nat \<Rightarrow> nat \<Rightarrow> oran_st \<Rightarrow> oran_st res" where
  "trigger_Activate i j st =
     (case rep_trigger (reporter_of st i j) of
        None \<Rightarrow> Inl NullPointer
      | Some t \<Rightarrow>
          res_bind (case tr_class t of
                      Periodic rv _ \<Rightarrow> if \<not> tr_active t then ScheduleNextTrigger i j rv st else Inr st
                    | Traced src _ \<Rightarrow> if \<not> tr_active t then ConnectSink i j src True st else Inr st)
            (\<lambda>st1. if \<not> tr_active t
                   then Inr (on_world (upd_trigger i j (\<lambda>t. t\<lparr>tr_active := True, tr_reporter := True\<rparr>)) st1)
                   else Inr st1))"

definition trigger_Deactivate :: "nat \<Rightarrow> nat \<Rightarrow> oran_st \<Rightarrow> oran_st res" where
  "trigger_Deactivate i j st =
     (case rep_trigger (reporter_of st i j) of
        None \<Rightarrow> Inl NullPointer
      | Some t \<Rightarrow>
          res_bind (case tr_class t of
                      Periodic _ eid \<Rightarrow> if tr_active t then Inr (cancel_pending eid st) else Inr st
                    | Traced src _ \<Rightarrow>
                        if tr_active t
                        then abort_if (\<not> tr_reporter t) NullPointer (ConnectSink i j src False st)
                        else Inr st)
            (\<lambda>st1. if tr_active t
                   then abort_if (\<not> tr_reporter t) NullReporter
                          (Inr (on_world (upd_reporter i j (\<lambda>r. r\<lparr>rep_trigger := None\<rparr>)) st1))
                   else Inr st1))"

definition reporter_Deactivate :: "nat \<Rightarrow> nat \<Rightarrow> oran_st \<Rightarrow> oran_st res" where
  "reporter_Deactivate i j st =
     (if rep_active (reporter_of st i j)
      then res_bind (trigger_Deactivate i j st)
             (\<lambda>st1. Inr (on_world (upd_reporter i j (\<lambda>r. r\<lparr>rep_active := False\<rparr>)) st1))
      else Inr st)"

definition reporter_Activate :: "nat \<Rightarrow> nat \<Rightarrow> oran_st \<Rightarrow> oran_st res" where
  "reporter_Activate i j st =
     (let r = reporter_of st i j
      in if \<not> rep_active r \<and> rep_terminator r \<and> rep_trigger r \<noteq> None
         then res_bind (Inr (on_world (upd_reporter i j (\<lambda>r. r\<lparr>rep_active := True\<rparr>)) st))
                (trigger_Activate i j)
         else reporter_Deactivate i j st)"

definition StoreReport :: "nat \<Rightarrow> oran_report \<Rightarrow> oran_st \<Rightarrow> oran_st res" where
  "StoreReport i report st =
     (if en_active (node_of st i)
      then Inr (on_world (upd_node i (\<lambda>n. n\<lparr>en_reports := en_reports n @ [report]\<rparr>)) st)
      else Inr st)"

definition PerformReport :: "nat \<Rightarrow> nat \<Rightarrow> oran_st \<Rightarrow> oran_st res" where
  "PerformReport i j st =
     (let r = reporter_of st i j
      in if rep_active r
         then if \<not> rep_terminator r then reporter_Deactivate i j st
              else res_bind (GenerateReports (env_of st i) (now_of st) (rep_active r) (terminator_of st i j) (rep_class r))
                     (\<lambda>(reports, cls).
                        res_bind (Inr (on_world (upd_reporter i j (\<lambda>r. r\<lparr>rep_class := cls\<rparr>)) st))
                          (res_fold (StoreReport i) reports))
         else Inr st)"

definition TriggerReport :: "nat \<Rightarrow> nat \<Rightarrow> oran_st \<Rightarrow> oran_st res" where
  "TriggerReport i j st =
     (case rep_trigger (reporter_of st i j) of
        None \<Rightarrow> Inl NullReporter
      | Some t \<Rightarrow>
          res_bind (case tr_class t of
                      Periodic rv _ \<Rightarrow> if tr_active t then ScheduleNextTrigger i j rv st else Inr st
                    | Traced _ _ \<Rightarrow> Inr st)
            (\<lambda>st1. abort_if (\<not> tr_reporter t) NullReporter (PerformReport i j st1)))"

text \<open>
  The sinks of the trace-hooked triggers (\<open>CourseChangedSink\<close>, \<open>HandoverCompleteSink\<close>,
  \<open>ConnectionEstablishedSink\<close>), which are called while they are connected, and the methods of a reporter
  that trace sources call.
\<close>

definition TraceSink :: "nat \<Rightarrow> nat \<Rightarrow> oran_st \<Rightarrow> oran_st res" where
  "TraceSink i j st =
     (case rep_trigger (reporter_of st i j) of
        None \<Rightarrow> Inr st
      | Some t \<Rightarrow>
          (case tr_class t of
             Periodic _ _ \<Rightarrow> Inr st
           | Traced _ conn \<Rightarrow> if conn then TriggerReport i j st else Inr st))"

definition ReceiveTrace :: "nat \<Rightarrow> nat \<Rightarrow> trace_input \<Rightarrow> oran_st \<Rightarrow> oran_st res" where
  "ReceiveTrace i j inp st =
     (let r = reporter_of st i j
      in res_bind (reporter_trace (env_of st i) (now_of st) (rep_active r) (terminator_of st i j) inp (rep_class r))
           (\<lambda>cls. Inr (on_world (upd_reporter i j (\<lambda>r. r\<lparr>rep_class := cls\<rparr>)) st)))"

definition NotifyRegistrationComplete :: "nat \<Rightarrow> nat \<Rightarrow> oran_st \<Rightarrow> oran_st res" where
  "NotifyRegistrationComplete i j st =
     (case rep_trigger (reporter_of st i j) of
        None \<Rightarrow> Inl NullTrigger
      | Some t \<Rightarrow> if tr_active t \<and> tr_initialReport t then TriggerReport i j st else Inr st)"

section \<open>The terminator\<close>

definition CancelNextRegistration :: "nat \<Rightarrow> oran_st \<Rightarrow> oran_st res" where
  "CancelNextRegistration i st = Inr (cancel_pending (en_registrationEvent (node_of st i)) st)"

definition CancelNextSend :: "nat \<Rightarrow> oran_st \<Rightarrow> oran_st res" where
  "CancelNextSend i st = Inr (cancel_pending (en_sendEvent (node_of st i)) st)"

definition ScheduleNextSend :: "nat \<Rightarrow> oran_st \<Rightarrow> oran_st res" where
  "ScheduleNextSend i st =
     (if en_active (node_of st i)
      then (case GetValue (en_sendIntervalRv (node_of st i)) of (delay, rv') \<Rightarrow>
              sched delay (Ev_DoSendReports i)
                (\<lambda>eid. upd_node i (\<lambda>n. n\<lparr>en_sendEvent := eid, en_sendIntervalRv := rv'\<rparr>)) st)
      else Inr st)"

text \<open>A message to the RIC or its E2 terminator, after a transmission delay of the node.\<close>

definition transmit :: "nat \<Rightarrow> oran_event \<Rightarrow> oran_st \<Rightarrow> oran_st res" where
  "transmit i ev st =
     (case GetValue (en_transmissionDelayRv (node_of st i)) of (delay, rv') \<Rightarrow>
        sched delay ev (\<lambda>_. upd_node i (\<lambda>n. n\<lparr>en_transmissionDelayRv := rv'\<rparr>)) st)"

definition Register :: "nat \<Rightarrow> oran_st \<Rightarrow> oran_st res" where
  "Register i st =
     (if en_active (node_of st i)
      then abort_if (\<not> en_nearRtRic (node_of st i)) NullNearRtRic
        (res_bind (CancelNextRegistration i st) (\<lambda>st1.
         res_bind (transmit i (Ev_ReceiveRegistrationRequest (en_type (node_of st1 i))
                                 (en_e2NodeId (node_of st1 i)) i) st1) (\<lambda>st2.
         case GetValue (en_registrationIntervalRv (node_of st2 i)) of (delay, rv') \<Rightarrow>
           sched delay (Ev_Register i)
             (\<lambda>eid. upd_node i (\<lambda>n. n\<lparr>en_registrationEvent := eid, en_registrationIntervalRv := rv'\<rparr>)) st2)))
      else Inr st)"

definition Deregister :: "nat \<Rightarrow> oran_st \<Rightarrow> oran_st res" where
  "Deregister i st =
     abort_if (\<not> en_nearRtRic (node_of st i)) NullNearRtRic
       (res_bind (CancelNextRegistration i st) (\<lambda>st1.
          transmit i (Ev_ReceiveDeregistrationRequest (en_e2NodeId (node_of st1 i))) st1))"

definition node_Deactivate :: "nat \<Rightarrow> oran_st \<Rightarrow> oran_st res" where
  "node_Deactivate i st =
     (if en_active (node_of st i)
      then res_bind (res_fold (reporter_Deactivate i) [0..<length (en_reporters (node_of st i))] st) (\<lambda>st1.
           res_bind (CancelNextSend i st1) (\<lambda>st2.
           res_bind (Deregister i st2) (\<lambda>st3.
             Inr (on_world (upd_node i (\<lambda>n. n\<lparr>en_active := False\<rparr>)) st3))))
      else Inr st)"

definition node_Activate :: "nat \<Rightarrow> oran_st \<Rightarrow> oran_st res" where
  "node_Activate i st =
     (if \<not> en_nearRtRic (node_of st i)
      then res_bind (Inr (on_world (upd_node i (\<lambda>n. n\<lparr>en_active := False\<rparr>)) st)) (node_Deactivate i)
      else if \<not> en_active (node_of st i)
      then res_bind (Inr (on_world (upd_node i (\<lambda>n. n\<lparr>en_active := True, en_reports := []\<rparr>)) st)) (\<lambda>st1.
           res_bind (Register i st1) (\<lambda>st2.
             res_fold (reporter_Activate i) [0..<length (en_reporters (node_of st2 i))] st2))
      else Inr st)"

definition ReceiveDeregistrationResponse :: "nat \<Rightarrow> uint64 \<Rightarrow> oran_st \<Rightarrow> oran_st res" where
  "ReceiveDeregistrationResponse i e2NodeId st =
     Inr (on_world (upd_node i (\<lambda>n. n\<lparr>en_e2NodeId := 0\<rparr>)) st)"

definition ReceiveRegistrationResponse :: "nat \<Rightarrow> uint64 \<Rightarrow> oran_st \<Rightarrow> oran_st res" where
  "ReceiveRegistrationResponse i e2NodeId st =
     (if en_active (node_of st i)
      then res_bind
             (if en_e2NodeId (node_of st i) \<noteq> e2NodeId
              then res_bind (Inr (on_world (upd_node i (\<lambda>n. n\<lparr>en_e2NodeId := e2NodeId\<rparr>)) st)) (\<lambda>st1.
                     if e2NodeId > 0
                     then res_fold (NotifyRegistrationComplete i)
                            [0..<length (en_reporters (node_of st1 i))] st1
                     else Inr st1)
              else Inr st)
             (ScheduleNextSend i)
      else Inr st)"

definition DoSendReports :: "nat \<Rightarrow> oran_st \<Rightarrow> oran_st res" where
  "DoSendReports i st =
     (if en_active (node_of st i)
      then abort_if (\<not> en_nearRtRic (node_of st i)) NullNearRtRic
        (res_bind (res_fold (\<lambda>r. transmit i (Ev_ReceiveReport r)) (en_reports (node_of st i)) st) (\<lambda>st1.
         res_bind (Inr (on_world (upd_node i (\<lambda>n. n\<lparr>en_reports := []\<rparr>)) st1))
           (ScheduleNextSend i)))
      else Inr st)"

text \<open>
  Configuration and destruction. \<open>dev\<close> says whether the device at the given index has the class the
  terminator looks for. The pointers to the random variables, which \<open>DoDispose\<close> also clears, are not
  used afterwards.
\<close>

definition AddReporter :: "nat \<Rightarrow> reporter \<Rightarrow> oran_st \<Rightarrow> oran_st" where
  "AddReporter i r = on_world (upd_node i (\<lambda>n. n\<lparr>en_reporters := en_reporters n @ [r]\<rparr>))"

definition Attach :: "nat \<Rightarrow> bool \<Rightarrow> bool \<Rightarrow> oran_st \<Rightarrow> oran_st" where
  "Attach i node dev = on_world (upd_node i (\<lambda>n. n\<lparr>en_node := node, en_device := dev\<rparr>))"

definition node_DoDispose :: "nat \<Rightarrow> oran_st \<Rightarrow> oran_st res" where
  "node_DoDispose i st =
     res_bind (CancelNextRegistration i st) (\<lambda>st1.
     res_bind (CancelNextSend i st1) (\<lambda>st2.
       Inr (on_world (upd_node i (\<lambda>n. n\<lparr>en_node := False, en_nearRtRic := False, en_reports := [], en_reporters := []\<rparr>)) st2)))"

section \<open>Commands\<close>

text \<open>\<open>GetNetDevice\<close> of the subclasses.\<close>

definition GetNetDevice :: "e2_node \<Rightarrow> unit res" where
  "GetNetDevice n =
     abort_if (\<not> en_node n) (if en_type n = NRGNB then NullNode else NullPointer)
       (abort_if (\<not> en_device n) NullNetDevice (Inr ()))"

definition SendHandoverRequest :: "nat \<Rightarrow> uint16 \<Rightarrow> uint16 \<Rightarrow> oran_st \<Rightarrow> oran_st res" where
  "SendHandoverRequest i rnti targetCellId st =
     Inr (on_world (upd_node i (\<lambda>n. n\<lparr>en_handoverRequests := en_handoverRequests n @ [(rnti, targetCellId)]\<rparr>)) st)"

definition nr_gnb_ReceiveCommand :: "nat \<Rightarrow> oran_command \<Rightarrow> oran_st \<Rightarrow> oran_st res" where
  "nr_gnb_ReceiveCommand i command st =
     (let n = node_of st i
      in if \<not> en_active n then Inr st
         else case command of
                OranCommandNr2NrHandover h \<Rightarrow>
                  res_bind (GetNetDevice n) (\<lambda>_.
                    case en_ueManagers n (cmd_targetRnti h) of
                      None \<Rightarrow> Inr st
                    | Some ue_st \<Rightarrow>
                        if ue_st \<noteq> CONNECTED_NORMALLY \<and> ue_st \<noteq> CONNECTION_RECONFIGURATION then Inr st
                        else SendHandoverRequest i (cmd_targetRnti h) (cmd_targetCellId h) st)
              | _ \<Rightarrow> Inr st)"

definition lte_enb_ReceiveCommand :: "nat \<Rightarrow> oran_command \<Rightarrow> oran_st \<Rightarrow> oran_st res" where
  "lte_enb_ReceiveCommand i command st =
     (let n = node_of st i
      in if en_active n
         then case command of
                OranCommandLte2LteHandover h \<Rightarrow>
                  res_bind (GetNetDevice n) (\<lambda>_.
                    SendHandoverRequest i (cmd_targetRnti h) (cmd_targetCellId h) st)
              | _ \<Rightarrow> Inr st
         else Inr st)"

text \<open>The virtual method; UEs and wired nodes support no command.\<close>

definition ReceiveCommand :: "nat \<Rightarrow> oran_command \<Rightarrow> oran_st \<Rightarrow> oran_st res" where
  "ReceiveCommand i command st =
     (case en_type (node_of st i) of
        NRGNB \<Rightarrow> nr_gnb_ReceiveCommand i command st
      | LTEENB \<Rightarrow> lte_enb_ReceiveCommand i command st
      | _ \<Rightarrow> Inr st)"

section \<open>The methods treat the engine well\<close>

lemma ScheduleNextTrigger_safe [engine_intro]: "engine_safe (ScheduleNextTrigger i j rv)"
  by (rule engine_safe_unfold [OF ScheduleNextTrigger_def [unfolded Let_def]]) (intro engine_intro)

lemma ConnectSink_safe [engine_intro]: "engine_safe (ConnectSink i j src b)"
  by (rule engine_safe_unfold [OF ConnectSink_def]) (intro engine_intro)

lemma trigger_Activate_safe [engine_intro]: "engine_safe (trigger_Activate i j)"
  by (rule engine_safe_unfold [OF trigger_Activate_def [unfolded Let_def]]) (intro engine_intro)

lemma trigger_Deactivate_safe [engine_intro]: "engine_safe (trigger_Deactivate i j)"
  by (rule engine_safe_unfold [OF trigger_Deactivate_def [unfolded Let_def]]) (intro engine_intro)

lemma reporter_Deactivate_safe [engine_intro]: "engine_safe (reporter_Deactivate i j)"
  by (rule engine_safe_unfold [OF reporter_Deactivate_def [unfolded Let_def]]) (intro engine_intro)

lemma reporter_Activate_safe [engine_intro]: "engine_safe (reporter_Activate i j)"
  by (rule engine_safe_unfold [OF reporter_Activate_def [unfolded Let_def]]) (intro engine_intro)

lemma StoreReport_safe [engine_intro]: "engine_safe (StoreReport i r)"
  by (rule engine_safe_unfold [OF StoreReport_def [unfolded Let_def]]) (intro engine_intro)

lemma PerformReport_safe [engine_intro]: "engine_safe (PerformReport i j)"
  by (rule engine_safe_unfold [OF PerformReport_def [unfolded Let_def]]) (intro engine_intro)

lemma TriggerReport_safe [engine_intro]: "engine_safe (TriggerReport i j)"
  by (rule engine_safe_unfold [OF TriggerReport_def [unfolded Let_def]]) (intro engine_intro)

lemma TraceSink_safe [engine_intro]: "engine_safe (TraceSink i j)"
  by (rule engine_safe_unfold [OF TraceSink_def]) (intro engine_intro)

lemma ReceiveTrace_safe [engine_intro]: "engine_safe (ReceiveTrace i j inp)"
  by (rule engine_safe_unfold [OF ReceiveTrace_def [unfolded Let_def]]) (intro engine_intro)

lemma NotifyRegistrationComplete_safe [engine_intro]: "engine_safe (NotifyRegistrationComplete i j)"
  by (rule engine_safe_unfold [OF NotifyRegistrationComplete_def [unfolded Let_def]]) (intro engine_intro)

lemma CancelNextRegistration_safe [engine_intro]: "engine_safe (CancelNextRegistration i)"
  by (rule engine_safe_unfold [OF CancelNextRegistration_def [unfolded Let_def]]) (intro engine_intro)

lemma CancelNextSend_safe [engine_intro]: "engine_safe (CancelNextSend i)"
  by (rule engine_safe_unfold [OF CancelNextSend_def [unfolded Let_def]]) (intro engine_intro)

lemma ScheduleNextSend_safe [engine_intro]: "engine_safe (ScheduleNextSend i)"
  by (rule engine_safe_unfold [OF ScheduleNextSend_def [unfolded Let_def]]) (intro engine_intro)

lemma transmit_safe [engine_intro]: "engine_safe (transmit i ev)" "engine_safe (\<lambda>st. transmit i (e st) st)"
  unfolding transmit_def by (intro engine_intro)+

lemma Register_safe [engine_intro]: "engine_safe (Register i)"
  by (rule engine_safe_unfold [OF Register_def [unfolded Let_def]]) (intro engine_intro)

lemma Deregister_safe [engine_intro]: "engine_safe (Deregister i)"
  by (rule engine_safe_unfold [OF Deregister_def [unfolded Let_def]]) (intro engine_intro)

lemma node_Deactivate_safe [engine_intro]: "engine_safe (node_Deactivate i)"
  by (rule engine_safe_unfold [OF node_Deactivate_def [unfolded Let_def]]) (intro engine_intro)

lemma node_Activate_safe [engine_intro]: "engine_safe (node_Activate i)"
  by (rule engine_safe_unfold [OF node_Activate_def [unfolded Let_def]]) (intro engine_intro)

lemma ReceiveDeregistrationResponse_safe [engine_intro]: "engine_safe (ReceiveDeregistrationResponse i e)"
  by (rule engine_safe_unfold [OF ReceiveDeregistrationResponse_def [unfolded Let_def]]) (intro engine_intro)

lemma ReceiveRegistrationResponse_safe [engine_intro]: "engine_safe (ReceiveRegistrationResponse i e)"
  by (rule engine_safe_unfold [OF ReceiveRegistrationResponse_def [unfolded Let_def]]) (intro engine_intro)

lemma DoSendReports_safe [engine_intro]: "engine_safe (DoSendReports i)"
  by (rule engine_safe_unfold [OF DoSendReports_def [unfolded Let_def]]) (intro engine_intro)

lemma SendHandoverRequest_safe [engine_intro]: "engine_safe (SendHandoverRequest i r c)"
  by (rule engine_safe_unfold [OF SendHandoverRequest_def [unfolded Let_def]]) (intro engine_intro)

lemma nr_gnb_ReceiveCommand_safe [engine_intro]: "engine_safe (nr_gnb_ReceiveCommand i c)"
  by (rule engine_safe_unfold [OF nr_gnb_ReceiveCommand_def [unfolded Let_def]]) (intro engine_intro)

lemma lte_enb_ReceiveCommand_safe [engine_intro]: "engine_safe (lte_enb_ReceiveCommand i c)"
  by (rule engine_safe_unfold [OF lte_enb_ReceiveCommand_def [unfolded Let_def]]) (intro engine_intro)

lemma ReceiveCommand_safe [engine_intro]: "engine_safe (ReceiveCommand i c)"
  by (rule engine_safe_unfold [OF ReceiveCommand_def [unfolded Let_def]]) (intro engine_intro)

section \<open>What a method does to the objects\<close>

lemma sched_world: "sched delay ev k st = Inr st' \<Longrightarrow> \<exists>eid. fst st' = k eid (fst st)"
  by (auto simp: sched_def)

lemma node_of_simps [simp]:
  "node_of (on_world (upd_node i f) st) j = (if j = i then f (node_of st i) else node_of st j)"
  "node_of (cancel_pending eid st) j = node_of st j"
  "node_of (cancel_id eid st) j = node_of st j"
  by (simp_all add: node_of_def on_world_def upd_node_def cancel_pending_def cancel_id_def)

lemma node_of_upd: "fst st' = upd_node i f (fst st) \<Longrightarrow> node_of st' = (node_of st)(i := f (node_of st i))"
  by (rule ext) (simp add: node_of_def upd_node_def)

lemma transmit_node:
  assumes "transmit i ev st = Inr st'"
  obtains rv where "node_of st' = (node_of st)(i := (node_of st i)\<lparr>en_transmissionDelayRv := rv\<rparr>)"
proof -
  obtain delay rv where "GetValue (en_transmissionDelayRv (node_of st i)) = (delay, rv)" by force
  with assms have "sched delay ev (\<lambda>_. upd_node i (\<lambda>n. n\<lparr>en_transmissionDelayRv := rv\<rparr>)) st = Inr st'"
    by (simp add: transmit_def)
  from sched_world [OF this] obtain eid :: event_id where
    "fst st' = upd_node i (\<lambda>n. n\<lparr>en_transmissionDelayRv := rv\<rparr>) (fst st)" by auto
  from that [OF node_of_upd [OF this]] show thesis .
qed

lemma Register_node:
  assumes "Register i st = Inr st'"
  shows "en_reporters (node_of st' i) = en_reporters (node_of st i)"
    and "en_active (node_of st' i) = en_active (node_of st i)"
    and "en_e2NodeId (node_of st' i) = en_e2NodeId (node_of st i)"
proof -
  have "en_reporters (node_of st' i) = en_reporters (node_of st i) \<and>
      en_active (node_of st' i) = en_active (node_of st i) \<and>
      en_e2NodeId (node_of st' i) = en_e2NodeId (node_of st i)"
  proof (cases "en_active (node_of st i)")
    case True
    let ?st1 = "cancel_pending (en_registrationEvent (node_of st i)) st"
    from assms True obtain st2 delay rv' where
      st2: "transmit i (Ev_ReceiveRegistrationRequest (en_type (node_of ?st1 i)) (en_e2NodeId (node_of ?st1 i)) i)
        ?st1 = Inr st2"
      and st': "sched delay (Ev_Register i)
        (\<lambda>eid. upd_node i (\<lambda>n. n\<lparr>en_registrationEvent := eid, en_registrationIntervalRv := rv'\<rparr>)) st2 = Inr st'"
      by (auto simp: Register_def CancelNextRegistration_def split: prod.splits)
    from sched_world [OF st'] obtain eid where
      "fst st' = upd_node i (\<lambda>n. n\<lparr>en_registrationEvent := eid, en_registrationIntervalRv := rv'\<rparr>) (fst st2)" ..
    from node_of_upd [OF this]
    have "node_of st' i = (node_of st2 i)\<lparr>en_registrationEvent := eid, en_registrationIntervalRv := rv'\<rparr>"
      by simp
    with st2 show ?thesis by (elim transmit_node) simp
  next
    case False
    with assms show ?thesis by (simp add: Register_def)
  qed
  then show "en_reporters (node_of st' i) = en_reporters (node_of st i)"
    "en_active (node_of st' i) = en_active (node_of st i)"
    "en_e2NodeId (node_of st' i) = en_e2NodeId (node_of st i)" by auto
qed

lemma Deregister_node:
  assumes "Deregister i st = Inr st'"
  shows "en_reporters (node_of st' i) = en_reporters (node_of st i)"
proof -
  have "transmit i (Ev_ReceiveDeregistrationRequest (en_e2NodeId (node_of st i)))
      (cancel_pending (en_registrationEvent (node_of st i)) st) = Inr st'"
    using assms by (auto simp: Deregister_def CancelNextRegistration_def)
  then show ?thesis by (rule transmit_node) simp
qed

lemma CancelNextSend_node: "CancelNextSend i st = Inr st' \<Longrightarrow> node_of st' i = node_of st i"
  by (auto simp: CancelNextSend_def)

text \<open>Deactivating a reporter detaches its trigger.\<close>

lemma upd_reporter_node:
  "en_reporters (node_of (on_world (upd_reporter i j f) st) i) =
     (en_reporters (node_of st i))[j := f (en_reporters (node_of st i) ! j)]"
  "en_active (node_of (on_world (upd_reporter i j f) st) i) = en_active (node_of st i)"
  by (simp_all add: upd_reporter_def)

lemma ConnectSink_reporters:
  assumes "ConnectSink i j src b st = Inr st'"
  shows "\<exists>tr. en_reporters (node_of st' i) = (en_reporters (node_of st i))[j := (reporter_of st i j)\<lparr>rep_trigger := tr\<rparr>]"
  using assms by (auto simp: ConnectSink_def upd_trigger_def reporter_of_def upd_reporter_node)

lemma trigger_Deactivate_reporters:
  assumes "trigger_Deactivate i j st = Inr st'" and "rep_trigger (reporter_of st i j) = Some t" and "tr_active t"
  shows "en_reporters (node_of st' i) =
    (en_reporters (node_of st i))[j := (reporter_of st i j)\<lparr>rep_trigger := None\<rparr>]"
proof (cases "tr_class t")
  case (Periodic rv eid)
  with assms show ?thesis by (auto simp: trigger_Deactivate_def reporter_of_def upd_reporter_node)
next
  case (Traced src b)
  with assms obtain st1 where st1: "ConnectSink i j src False st = Inr st1"
    and st': "st' = on_world (upd_reporter i j (\<lambda>r. r\<lparr>rep_trigger := None\<rparr>)) st1"
    by (auto simp: trigger_Deactivate_def)
  from ConnectSink_reporters [OF st1] obtain tr where
    "en_reporters (node_of st1 i) = (en_reporters (node_of st i))[j := (reporter_of st i j)\<lparr>rep_trigger := tr\<rparr>]" ..
  then show ?thesis
    by (cases "j < length (en_reporters (node_of st i))") (simp_all add: st' upd_reporter_node reporter_of_def not_less list_update_beyond)
qed

definition reporter_on :: "reporter \<Rightarrow> bool" where
  "reporter_on r \<longleftrightarrow> rep_active r \<and> (\<exists>t. rep_trigger r = Some t \<and> tr_active t)"

definition reporter_dead :: "reporter \<Rightarrow> bool" where
  "reporter_dead r \<longleftrightarrow> \<not> rep_active r \<and> rep_trigger r = None"

lemma reporter_Deactivate_reporters:
  assumes "reporter_Deactivate i j st = Inr st'" and "reporter_on (reporter_of st i j)"
    and "j < length (en_reporters (node_of st i))"
  shows "\<exists>r. reporter_dead r \<and> en_reporters (node_of st' i) = (en_reporters (node_of st i))[j := r]"
proof -
  from assms(2) obtain t where t: "rep_trigger (reporter_of st i j) = Some t" "tr_active t"
    and a: "rep_active (reporter_of st i j)" by (auto simp: reporter_on_def)
  from assms(1) a obtain st1 where st1: "trigger_Deactivate i j st = Inr st1"
    and st': "st' = on_world (upd_reporter i j (\<lambda>r. r\<lparr>rep_active := False\<rparr>)) st1"
    by (auto simp: reporter_Deactivate_def)
  show ?thesis
    using trigger_Deactivate_reporters [OF st1 t] assms(3)
    by (auto simp: st' upd_reporter_node reporter_dead_def
        intro!: exI [of _ "(reporter_of st i j)\<lparr>rep_trigger := None, rep_active := False\<rparr>"])
qed

lemma reporters_Deactivate:
  assumes "res_fold (reporter_Deactivate i) [k..<n] st = Inr st'"
    and "length (en_reporters (node_of st i)) = n"
    and "\<forall>j<n. if j < k then reporter_dead (reporter_of st i j) else reporter_on (reporter_of st i j)"
    and "k \<le> n"
  shows "length (en_reporters (node_of st' i)) = n \<and> (\<forall>j<n. reporter_dead (reporter_of st' i j))"
  using assms
proof (induction "n - k" arbitrary: k st)
  case 0
  then show ?case by auto
next
  case (Suc d)
  then have k: "k < n" by simp
  with Suc.prems(1) obtain st1 where st1: "reporter_Deactivate i k st = Inr st1"
    and r: "res_fold (reporter_Deactivate i) [Suc k..<n] st1 = Inr st'"
    by (auto simp: upt_rec)
  have on: "reporter_on (reporter_of st i k)" using Suc.prems(3) k by (metis less_irrefl)
  from reporter_Deactivate_reporters [OF st1 on] k Suc.prems(2) obtain x where
    x: "reporter_dead x" "en_reporters (node_of st1 i) = (en_reporters (node_of st i))[k := x]" by auto
  have "\<forall>j<n. if j < Suc k then reporter_dead (reporter_of st1 i j) else reporter_on (reporter_of st1 i j)"
    using Suc.prems(2,3) x by (auto simp: reporter_of_def nth_list_update less_Suc_eq split: if_splits)
  then show ?case
    using Suc.hyps(1) [of "Suc k" st1] Suc.hyps(2) r x(2) Suc.prems(2) k by auto
qed

lemma dead_reporter_Activate:
  "reporter_dead (reporter_of st i j) \<Longrightarrow> reporter_Activate i j st = Inr st"
  by (simp add: reporter_dead_def reporter_Activate_def reporter_Deactivate_def)

lemma dead_reporters_Activate:
  "\<forall>j\<in>set js. reporter_dead (reporter_of st i j) \<Longrightarrow> res_fold (reporter_Activate i) js st = Inr st"
  by (induction js) (auto simp: dead_reporter_Activate)

lemma reporters_dead_cong:
  "en_reporters (node_of st' i) = en_reporters (node_of st i) \<Longrightarrow> reporter_of st' i j = reporter_of st i j"
  by (simp add: reporter_of_def)

lemma node_Deactivate_dead:
  assumes "en_active (node_of st i)" and "\<forall>r\<in>set (en_reporters (node_of st i)). reporter_on r"
    and "node_Deactivate i st = Inr st'"
  shows "length (en_reporters (node_of st' i)) = length (en_reporters (node_of st i))"
    and "\<forall>j<length (en_reporters (node_of st i)). reporter_dead (reporter_of st' i j)"
    and "\<not> en_active (node_of st' i)"
proof -
  let ?n = "length (en_reporters (node_of st i))"
  from assms(1,3) obtain st1 st2 st3 where
    st1: "res_fold (reporter_Deactivate i) [0..<?n] st = Inr st1"
    and st2: "CancelNextSend i st1 = Inr st2" and st3: "Deregister i st2 = Inr st3"
    and st': "st' = on_world (upd_node i (\<lambda>n. n\<lparr>en_active := False\<rparr>)) st3"
    by (auto simp: node_Deactivate_def)
  have "length (en_reporters (node_of st1 i)) = ?n \<and> (\<forall>j<?n. reporter_dead (reporter_of st1 i j))"
    by (rule reporters_Deactivate [OF st1]) (use assms(2) in \<open>auto simp: reporter_of_def\<close>)
  moreover have "en_reporters (node_of st' i) = en_reporters (node_of st1 i)"
    using CancelNextSend_node [OF st2] Deregister_node [OF st3] by (simp add: st')
  ultimately show "length (en_reporters (node_of st' i)) = ?n"
    and "\<forall>j<?n. reporter_dead (reporter_of st' i j)" using reporters_dead_cong by metis+
  show "\<not> en_active (node_of st' i)" by (simp add: st')
qed

section \<open>Performing a report\<close>

lemma StoreReports:
  "en_active (node_of st i) \<Longrightarrow> res_fold (StoreReport i) rs st =
    Inr (on_world (upd_node i (\<lambda>n. n\<lparr>en_reports := en_reports n @ rs\<rparr>)) st)"
proof (induction rs arbitrary: st)
  case Nil
  show ?case by (simp add: on_world_def upd_node_def)
next
  case (Cons r rs)
  then show ?case by (simp add: StoreReport_def on_world_def upd_node_def node_of_def)
qed

text \<open>A report of an active reporter goes to the store of its node, and nowhere else.\<close>

lemma PerformReport_stores:
  assumes "en_active (node_of st i)" and "rep_active (reporter_of st i j)" and "rep_terminator (reporter_of st i j)"
    and "GenerateReports (env_of st i) (now_of st) True (Some (en_e2NodeId (node_of st i))) (rep_class (reporter_of st i j)) =
      Inr (rs, cls)"
  shows "PerformReport i j st = Inr (on_world (upd_node i (\<lambda>n. n\<lparr>
    en_reporters := (en_reporters n)[j := (en_reporters n ! j)\<lparr>rep_class := cls\<rparr>], en_reports := en_reports n @ rs\<rparr>)) st)"
proof -
  have "en_active (node_of (on_world (upd_reporter i j (\<lambda>r. r\<lparr>rep_class := cls\<rparr>)) st) i)"
    using assms(1) by (simp add: upd_reporter_node)
  from StoreReports [OF this, of rs] assms show ?thesis
    by (simp add: PerformReport_def Let_def terminator_of_def on_world_def upd_reporter_def upd_node_def)
qed

text \<open>After its deactivation a trace-hooked trigger is not called any more.\<close>

lemma TraceSink_after_Deactivate:
  assumes "trigger_Deactivate i j st = Inr st'" and "rep_trigger (reporter_of st i j) = Some t" and "tr_active t"
    and "j < length (en_reporters (node_of st i))"
  shows "TraceSink i j st' = Inr st'"
  using trigger_Deactivate_reporters [OF assms(1-3)] assms(4) by (simp add: TraceSink_def reporter_of_def)

section \<open>Sending reports\<close>

definition draws_ok :: "rv \<Rightarrow> bool" where
  "draws_ok r \<longleftrightarrow> (\<forall>k. 0 \<le> rv_draws r k)"

lemma GetValue_ok: "draws_ok r \<Longrightarrow> 0 \<le> fst (GetValue r) \<and> draws_ok (snd (GetValue r))"
  by (simp add: draws_ok_def GetValue_def)

lemma ScheduleNextSend_total:
  assumes "sim_inv (snd st)" and "en_active (node_of st i)" and "draws_ok (en_sendIntervalRv (node_of st i))"
    and "Suc (m_nextImpl (snd st)) + UID_VALID < 2 ^ 32"
  obtains st' where "ScheduleNextSend i st = Inr st'"
    and "IsPending (snd st') (en_sendEvent (node_of st' i))"
    and "id_impl (en_sendEvent (node_of st' i)) = Some (m_nextImpl (snd st))"
    and "\<forall>e0. issued (snd st) e0 \<longrightarrow> IsPending (snd st') e0 = IsPending (snd st) e0"
    and "en_reports (node_of st' i) = en_reports (node_of st i)"
    and "keeps_impls (snd st) (snd st')" and "new_events (snd st) (snd st') = [Ev_DoSendReports i]"
    and "sim_inv (snd st')" and "issued (snd st') (en_sendEvent (node_of st' i))"
    and "m_nextImpl (snd st') = Suc (m_nextImpl (snd st))"
    and "\<exists>eid. node_of st' i = (node_of st i)\<lparr>en_sendEvent := eid,
      en_sendIntervalRv := snd (GetValue (en_sendIntervalRv (node_of st i)))\<rparr>"
proof -
  let ?k = "\<lambda>eid. upd_node i (\<lambda>n. n\<lparr>en_sendEvent := eid,
      en_sendIntervalRv := snd (GetValue (en_sendIntervalRv (node_of st i)))\<rparr>)"
  obtain st' eid where r: "sched (fst (GetValue (en_sendIntervalRv (node_of st i)))) (Ev_DoSendReports i) ?k st = Inr st'"
    "fst st' = ?k eid (fst st)" "IsPending (snd st') eid" "id_impl eid = Some (m_nextImpl (snd st))"
    "sim_inv (snd st')" "issued (snd st') eid" "m_nextImpl (snd st') = Suc (m_nextImpl (snd st))"
    "\<forall>e0. issued (snd st) e0 \<longrightarrow> issued (snd st') e0 \<and> IsPending (snd st') e0 = IsPending (snd st) e0"
    by (rule sched_total [OF assms(1) GetValue_ok [OF assms(3), THEN conjunct1] assms(4)])
  have "ScheduleNextSend i st = Inr st'" using assms(2) r(1) by (simp add: ScheduleNextSend_def case_prod_beta)
  moreover have n: "node_of st' i = (node_of st i)\<lparr>en_sendEvent := eid,
      en_sendIntervalRv := snd (GetValue (en_sendIntervalRv (node_of st i)))\<rparr>"
    using node_of_upd [OF r(2)] by simp
  moreover have "\<forall>e0. issued (snd st) e0 \<longrightarrow> IsPending (snd st') e0 = IsPending (snd st) e0"
    using r(8) by blast
  moreover have "en_sendEvent (node_of st' i) = eid" "en_reports (node_of st' i) = en_reports (node_of st i)"
    unfolding n by simp_all
  ultimately show thesis
    by (intro that [of st'] exI [of _ eid]) (simp_all only: r sched_new_events [OF r(1)])
qed

lemma transmit_total:
  assumes "sim_inv (snd st)" and "draws_ok (en_transmissionDelayRv (node_of st i))"
    and "Suc (m_nextImpl (snd st)) + UID_VALID < 2 ^ 32"
  obtains st' rv where "transmit i ev st = Inr st'" and "sim_inv (snd st')"
    and "m_nextImpl (snd st') = Suc (m_nextImpl (snd st))"
    and "node_of st' = (node_of st)(i := (node_of st i)\<lparr>en_transmissionDelayRv := rv\<rparr>)" and "draws_ok rv"
    and "keeps_impls (snd st) (snd st')" and "new_events (snd st) (snd st') = [ev]"
proof -
  let ?rv = "snd (GetValue (en_transmissionDelayRv (node_of st i)))"
  let ?k = "\<lambda>eid :: event_id. upd_node i (\<lambda>n. n\<lparr>en_transmissionDelayRv := ?rv\<rparr>)"
  obtain st' eid where r: "sched (fst (GetValue (en_transmissionDelayRv (node_of st i)))) ev ?k st = Inr st'"
    "fst st' = ?k eid (fst st)" "sim_inv (snd st')" "m_nextImpl (snd st') = Suc (m_nextImpl (snd st))"
    by (rule sched_total [OF assms(1) GetValue_ok [OF assms(2), THEN conjunct1] assms(3)])
  have "transmit i ev st = Inr st'" using r(1) by (simp add: transmit_def case_prod_beta)
  then show thesis
    using that [of st' ?rv] r(3,4) node_of_upd [OF r(2)] GetValue_ok [OF assms(2)] sched_new_events [OF r(1)] by simp
qed

lemma transmit_all_total:
  assumes "sim_inv (snd st)" and "draws_ok (en_transmissionDelayRv (node_of st i))"
    and "length rs + m_nextImpl (snd st) + UID_VALID < 2 ^ 32"
  shows "\<exists>st' rv. res_fold (\<lambda>r. transmit i (Ev_ReceiveReport r)) rs st = Inr st' \<and> sim_inv (snd st') \<and>
    m_nextImpl (snd st') = length rs + m_nextImpl (snd st) \<and>
    node_of st' i = (node_of st i)\<lparr>en_transmissionDelayRv := rv\<rparr> \<and> keeps_impls (snd st) (snd st') \<and>
    new_events (snd st) (snd st') = map Ev_ReceiveReport rs"
  using assms
proof (induction rs arbitrary: st)
  case Nil
  then show ?case
    by (intro exI [of _ st] exI [of _ "en_transmissionDelayRv (node_of st i)"]) simp
next
  case (Cons r rs)
  obtain st1 rv where st1: "transmit i (Ev_ReceiveReport r) st = Inr st1" "sim_inv (snd st1)"
    "m_nextImpl (snd st1) = Suc (m_nextImpl (snd st))"
    "node_of st1 = (node_of st)(i := (node_of st i)\<lparr>en_transmissionDelayRv := rv\<rparr>)" "draws_ok rv"
    "keeps_impls (snd st) (snd st1)" "new_events (snd st) (snd st1) = [Ev_ReceiveReport r]"
    by (rule transmit_total [OF Cons.prems(1,2)]) (use Cons.prems(3) in auto)
  have "draws_ok (en_transmissionDelayRv (node_of st1 i))" by (simp add: st1(4,5))
  moreover have "length rs + m_nextImpl (snd st1) + UID_VALID < 2 ^ 32" using Cons.prems(3) st1(3) by simp
  ultimately obtain st' rv' where st': "res_fold (\<lambda>r. transmit i (Ev_ReceiveReport r)) rs st1 = Inr st'"
    "sim_inv (snd st')" "m_nextImpl (snd st') = length rs + m_nextImpl (snd st1)"
    "node_of st' i = (node_of st1 i)\<lparr>en_transmissionDelayRv := rv'\<rparr>" "keeps_impls (snd st1) (snd st')"
    "new_events (snd st1) (snd st') = map Ev_ReceiveReport rs"
    using Cons.IH [OF st1(2)] by blast
  have "node_of st' i = (node_of st i)\<lparr>en_transmissionDelayRv := rv'\<rparr>" using st'(4) st1(4) by simp
  moreover have "keeps_impls (snd st) (snd st')" by (rule keeps_impls_trans [OF st1(6) st'(5)])
  moreover have "new_events (snd st) (snd st') = map Ev_ReceiveReport (r # rs)"
    unfolding new_events_append [OF st1(6) st'(5)] st1(7) st'(6) by simp
  moreover have "m_nextImpl (snd st') = length (r # rs) + m_nextImpl (snd st)"
    unfolding st'(3) st1(3) by simp
  moreover have "res_fold (\<lambda>r. transmit i (Ev_ReceiveReport r)) (r # rs) st = Inr st'"
    using st'(1) st1(1) by simp
  ultimately show ?case using st'(2) by blast
qed

section \<open>Example objects\<close>

definition ex_world :: "e2_node \<Rightarrow> oran_world" where
  "ex_world n =
     \<lparr>w_ric = OranNearRtRic, w_e2t = OranNearRtRicE2Terminator,
      w_data = OranDataRepositorySqlite (InitDb (\<lambda>n. [0..<n]) (\<lambda>_. 0) (\<lambda>s. s)),
      w_cmm = OranCmm ''CmmNoop'' OranCmmNoop, w_lms = (\<lambda>_. OranLm ''LmNoop'' OranLmNoop),
      w_static = ex_lm_static, w_nodes = (\<lambda>_. n)\<rparr>"

text \<open>An active UE with one active periodic reporter, and no event in the queue.\<close>

definition ex_node :: e2_node where
  "ex_node = (OranE2NodeTerminator NRUE (\<lambda>_. ex_env))\<lparr>en_active := True, en_nearRtRic := True, en_e2NodeId := 3,
     en_reporters := [(OranReporter OranReporterNrUeCellInfo)\<lparr>rep_active := True, rep_terminator := True,
       rep_trigger := Some (OranReportTriggerPeriodic\<lparr>tr_active := True, tr_reporter := True\<rparr>)\<rparr>]\<rparr>"

definition ex_st :: oran_st where
  "ex_st = (ex_world ex_node, DefaultSimulatorImpl)"

lemmas ex_eval = ex_st_def ex_world_def ex_node_def OranE2NodeTerminator_def OranReporter_def
  OranReportTriggerPeriodic_def ConstantRandomVariable_def GetValue_def node_of_def reporter_of_def
  on_world_def upd_node_def upd_reporter_def upd_trigger_def cancel_pending_def cancel_id_def sched_def
  EventId_def

section \<open>Properties\<close>

lemma reactivation_aborts_from:
  assumes "en_reporters (node_of st i) \<noteq> []"
    and "\<forall>j<length (en_reporters (node_of st i)). reporter_dead (reporter_of st i j)"
    and "\<not> en_active (node_of st i)" and "en_nearRtRic (node_of st i)" and "en_e2NodeId (node_of st i) = 0"
    and "node_Activate i st = Inr st'" and "0 < e"
  shows "ReceiveRegistrationResponse i e st' = Inl NullTrigger"
proof -
  let ?st1 = "on_world (upd_node i (\<lambda>n. n\<lparr>en_active := True, en_reports := []\<rparr>)) st"
  from assms(3,4,6) obtain st2 where st2: "Register i ?st1 = Inr st2"
    and fold: "res_fold (reporter_Activate i) [0..<length (en_reporters (node_of st2 i))] st2 = Inr st'"
    by (auto simp: node_Activate_def)
  note reg = Register_node [OF st2]
  have reps: "en_reporters (node_of st2 i) = en_reporters (node_of st i)" using reg(1) by simp
  have same: "reporter_of st2 i j = reporter_of st i j" for j by (rule reporters_dead_cong [OF reps])
  have dead: "\<forall>j\<in>set [0..<length (en_reporters (node_of st2 i))]. reporter_dead (reporter_of st2 i j)"
    using assms(2) same reps by auto
  have st': "st' = st2" using fold dead_reporters_Activate [OF dead] by simp
  have "rep_trigger (reporter_of st2 i 0) = None" using assms(1,2) same by (simp add: reporter_dead_def)
  moreover have "[0..<length (en_reporters (node_of st2 i))] = 0 # [1..<length (en_reporters (node_of st2 i))]"
    using assms(1) reps by (simp add: upt_conv_Cons)
  moreover have "e \<noteq> 0" using assms(7) by auto
  ultimately show ?thesis
    using reg(2,3) assms(5,7) unfolding ReceiveRegistrationResponse_def st'
    by (simp add: NotifyRegistrationComplete_def reporter_of_def)
qed

text \<open>
  An E2 node with reporters cannot be activated a second time. Deactivating it detaches the
  triggers of its reporters for good, so when the RIC answers the registration of the second
  activation, \<open>OranReporter::NotifyRegistrationComplete\<close> finds no trigger and ends the simulation.
\<close>

lemma reactivation_aborts:
  assumes "en_active (node_of st i)" and "en_reporters (node_of st i) \<noteq> []"
    and "\<forall>r\<in>set (en_reporters (node_of st i)). reporter_on r"
    and "node_Deactivate i st = Inr st1" and "ReceiveDeregistrationResponse i x st1 = Inr st2"
    and "en_nearRtRic (node_of st2 i)" and "node_Activate i st2 = Inr st3" and "0 < e"
  shows "ReceiveRegistrationResponse i e st3 = Inl NullTrigger"
proof (rule reactivation_aborts_from [OF _ _ _ assms(6) _ assms(7,8)])
  note dead = node_Deactivate_dead [OF assms(1,3,4)]
  have st2: "node_of st2 i = (node_of st1 i)\<lparr>en_e2NodeId := 0\<rparr>"
    using assms(5) by (auto simp: ReceiveDeregistrationResponse_def)
  have rep: "reporter_of st2 i j = reporter_of st1 i j" for j by (simp add: reporter_of_def st2)
  have "length (en_reporters (node_of st1 i)) \<noteq> 0" using dead(1) assms(2) by simp
  then show "en_reporters (node_of st2 i) \<noteq> []" by (simp add: st2)
  show "\<forall>j<length (en_reporters (node_of st2 i)). reporter_dead (reporter_of st2 i j)"
    using dead(1,2) by (simp add: st2 rep)
  show "\<not> en_active (node_of st2 i)" "en_e2NodeId (node_of st2 i) = 0" using dead(3) by (simp_all add: st2)
qed

text \<open>
  C38: A send of an active node schedules exactly one delivery to the RIC for each stored report, in
  the order in which they were stored, followed by the next send, and empties the store: no report is
  lost, repeated or reordered by the node.
\<close>

theorem reports_sent_once:
  assumes inv: "sim_inv (snd st)" and act: "en_active (node_of st i)" and ric: "en_nearRtRic (node_of st i)"
    and rvs: "draws_ok (en_transmissionDelayRv (node_of st i))" "draws_ok (en_sendIntervalRv (node_of st i))"
    and few: "Suc (length (en_reports (node_of st i)) + m_nextImpl (snd st)) + UID_VALID < 2 ^ 32"
  shows "\<exists>st'. DoSendReports i st = Inr st' \<and>
    new_events (snd st) (snd st') = map Ev_ReceiveReport (en_reports (node_of st i)) @ [Ev_DoSendReports i] \<and>
    en_reports (node_of st' i) = []"
proof -
  let ?rs = "en_reports (node_of st i)"
  have "length ?rs + m_nextImpl (snd st) + UID_VALID < 2 ^ 32" using few by simp
  from transmit_all_total [OF inv rvs(1) this] obtain st1 rv where
    st1: "res_fold (\<lambda>r. transmit i (Ev_ReceiveReport r)) ?rs st = Inr st1" "sim_inv (snd st1)"
      "m_nextImpl (snd st1) = length ?rs + m_nextImpl (snd st)"
      "node_of st1 i = (node_of st i)\<lparr>en_transmissionDelayRv := rv\<rparr>" "keeps_impls (snd st) (snd st1)"
      "new_events (snd st) (snd st1) = map Ev_ReceiveReport ?rs"
    by blast
  let ?st2 = "on_world (upd_node i (\<lambda>n. n\<lparr>en_reports := []\<rparr>)) st1"
  have s2: "snd ?st2 = snd st1" by (simp add: on_world_def)
  have act2: "en_active (node_of ?st2 i)" using act st1(4) by simp
  have rv2: "draws_ok (en_sendIntervalRv (node_of ?st2 i))" using rvs(2) st1(4) by simp
  obtain st' where st': "ScheduleNextSend i ?st2 = Inr st'"
    "en_reports (node_of st' i) = en_reports (node_of ?st2 i)"
    "keeps_impls (snd ?st2) (snd st')" "new_events (snd ?st2) (snd st') = [Ev_DoSendReports i]"
    by (rule ScheduleNextSend_total [OF _ act2 rv2]) (use st1(2,3) few s2 in auto)
  have "DoSendReports i st = Inr st'"
    using act ric st1(1) st'(1) by (simp add: DoSendReports_def)
  moreover have "en_reports (node_of st' i) = []" using st'(2) by simp
  ultimately show ?thesis
    using new_events_append [OF st1(5)] st'(3,4) st1(6) unfolding s2 by auto
qed

theorem reports_sent_once_witness:
  "\<exists>st'. DoSendReports 0 (on_world (upd_node 0 (\<lambda>n. n\<lparr>en_reports :=
      [OranReport \<lparr>m_reporterE2NodeId = 3, m_time = 1\<rparr>]\<rparr>)) ex_st) = Inr st' \<and>
    new_events DefaultSimulatorImpl (snd st') =
      [Ev_ReceiveReport (OranReport \<lparr>m_reporterE2NodeId = 3, m_time = 1\<rparr>), Ev_DoSendReports 0]"
proof -
  let ?st = "on_world (upd_node 0 (\<lambda>n. n\<lparr>en_reports := [OranReport \<lparr>m_reporterE2NodeId = 3, m_time = 1\<rparr>]\<rparr>)) ex_st"
  have s: "snd ?st = DefaultSimulatorImpl" by (simp add: on_world_def ex_st_def)
  have n: "en_active (node_of ?st 0)" "en_nearRtRic (node_of ?st 0)"
    "draws_ok (en_transmissionDelayRv (node_of ?st 0))" "draws_ok (en_sendIntervalRv (node_of ?st 0))"
    "en_reports (node_of ?st 0) = [OranReport \<lparr>m_reporterE2NodeId = 3, m_time = 1\<rparr>]"
    by (simp_all add: ex_eval draws_ok_def)
  have "Suc (length (en_reports (node_of ?st 0)) + m_nextImpl (snd ?st)) + UID_VALID < 2 ^ 32"
    unfolding s n(5) by (simp add: DefaultSimulatorImpl_def UID_VALID_def)
  moreover have "sim_inv (snd ?st)" unfolding s by (rule sim_inv_init)
  ultimately show ?thesis using reports_sent_once [OF _ n(1-4)]
    unfolding s n(5) by auto
qed

text \<open>
  Every answer to a re-registration starts one more send loop. \<open>ReceiveRegistrationResponse\<close>
  schedules a send without looking at the one that is pending, whose identifier is overwritten: both
  are pending afterwards, and each of them goes on to schedule its successor.
\<close>

theorem reregistration_adds_send_loop:
  assumes inv: "sim_inv (snd st)" and act: "en_active (node_of st i)"
    and same: "en_e2NodeId (node_of st i) = e" and rv: "draws_ok (en_sendIntervalRv (node_of st i))"
    and old: "issued (snd st) (en_sendEvent (node_of st i))" "IsPending (snd st) (en_sendEvent (node_of st i))"
    and few: "Suc (m_nextImpl (snd st)) + UID_VALID < 2 ^ 32"
  shows "\<exists>st'. ReceiveRegistrationResponse i e st = Inr st' \<and>
    IsPending (snd st') (en_sendEvent (node_of st i)) \<and> IsPending (snd st') (en_sendEvent (node_of st' i)) \<and>
    id_impl (en_sendEvent (node_of st' i)) \<noteq> id_impl (en_sendEvent (node_of st i))"
proof -
  obtain st' where st': "ScheduleNextSend i st = Inr st'" "IsPending (snd st') (en_sendEvent (node_of st' i))"
    "id_impl (en_sendEvent (node_of st' i)) = Some (m_nextImpl (snd st))"
    "\<forall>e0. issued (snd st) e0 \<longrightarrow> IsPending (snd st') e0 = IsPending (snd st) e0"
    by (rule ScheduleNextSend_total [OF inv act rv few])
  have "ReceiveRegistrationResponse i e st = Inr st'"
    using act same st'(1) by (simp add: ReceiveRegistrationResponse_def)
  moreover have "id_impl (en_sendEvent (node_of st i)) \<noteq> Some (m_nextImpl (snd st))"
    using old(1) by (auto simp: issued_def)
  ultimately show ?thesis using st' old by metis
qed

end
