(* ===== verification/Repository_Laws.thy ===== *)
theory Repository_Laws
  imports Oran_Repository
begin

text \<open>
  What the data repository promises its clients. The save/get pairs are instances of
  \<open>latest_table\<close>; the registration methods implement a set of registered nodes with a counter for
  fresh identifiers (\<open>reg_spec\<close>); the tables of UEs keep identifiers and IMSIs unique; the
  measurements a query returns are those of the newest time.
\<close>

section \<open>The save/get pairs\<close>

definition nr_cell_upto :: "time \<Rightarrow> uint64 \<Rightarrow> oran_data \<Rightarrow> bool" where
  "nr_cell_upto t n d \<longleftrightarrow> (\<forall>r\<in>set (t_nruecell (d_db d)). uc_nodeid r = n \<longrightarrow> uc_time r \<le> t)"

definition lte_cell_upto :: "time \<Rightarrow> uint64 \<Rightarrow> oran_data \<Rightarrow> bool" where
  "lte_cell_upto t n d \<longleftrightarrow> (\<forall>r\<in>set (t_lteuecell (d_db d)). uc_nodeid r = n \<longrightarrow> uc_time r \<le> t)"

definition save_nr_cell :: "uint64 \<Rightarrow> uint16 \<times> uint16 \<Rightarrow> time \<Rightarrow> oran_data \<Rightarrow> oran_data" where
  "save_nr_cell n v t d = SaveNrUeCellInfo n (fst v) (snd v) t d"

definition save_lte_cell :: "uint64 \<Rightarrow> uint16 \<times> uint16 \<Rightarrow> time \<Rightarrow> oran_data \<Rightarrow> oran_data" where
  "save_lte_cell n v t d = SaveLteUeCellInfo n (fst v) (snd v) t d"

lemma IsNodeRegistered_active: "IsNodeRegistered d n \<Longrightarrow> d_active d"
  by (simp add: IsNodeRegistered_def)

lemma uecell_info_snoc:
  "\<forall>r\<in>set rows. uc_nodeid r = n \<longrightarrow> uc_time r \<le> uc_time r0 \<Longrightarrow> uc_nodeid r0 = n \<Longrightarrow>
    uecell_info (rows @ [r0]) n = (True, uc_cellid r0, uc_rnti r0)"
  by (simp add: uecell_info_def limit1_order_desc_snoc)

lemma uecell_info_other: "uc_nodeid r0 \<noteq> n \<Longrightarrow> uecell_info (rows @ [r0]) n = uecell_info rows n"
  by (simp add: uecell_info_def)

lemma last_value_snoc:
  "last_value (rows @ [r0]) n = (if nv_nodeid r0 = n then nv_value r0 else last_value rows n)"
  by (simp add: last_value_def limit1_def)

lemma registered_frame:
  "IsNodeRegistered (SaveNrUeCellInfo n c r t d) m = IsNodeRegistered d m"
  "IsNodeRegistered (SaveLteUeCellInfo n c r t d) m = IsNodeRegistered d m"
  "IsNodeRegistered (SaveAppLoss n x t d) m = IsNodeRegistered d m"
  "IsNodeRegistered (SaveLteCellLoad n x t d) m = IsNodeRegistered d m"
  "IsNodeRegistered (SaveNrCellLoad n x t d) m = IsNodeRegistered d m"
  "IsNodeRegistered (SavePosition n v t d) m = IsNodeRegistered d m"
  "IsNodeRegistered (SaveNrUeRsrpRsrq n t rnti c x y sv cc d) m = IsNodeRegistered d m"
  "IsNodeRegistered (SaveLteUeRsrpRsrq n t rnti c x y sv cc d) m = IsNodeRegistered d m"
  by (simp_all add: SaveNrUeCellInfo_def SaveLteUeCellInfo_def SaveAppLoss_def SaveLteCellLoad_def
      SaveNrCellLoad_def SavePosition_def SaveNrUeRsrpRsrq_def SaveLteUeRsrpRsrq_def IsNodeRegistered_def)

lemma save_unregistered:
  "\<not> IsNodeRegistered d n \<Longrightarrow> SaveNrUeCellInfo n c r t d = d"
  "\<not> IsNodeRegistered d n \<Longrightarrow> SaveLteUeCellInfo n c r t d = d"
  "\<not> IsNodeRegistered d n \<Longrightarrow> SaveAppLoss n x t d = d"
  "\<not> IsNodeRegistered d n \<Longrightarrow> SaveLteCellLoad n x t d = d"
  "\<not> IsNodeRegistered d n \<Longrightarrow> SaveNrCellLoad n x t d = d"
  by (simp_all add: SaveNrUeCellInfo_def SaveLteUeCellInfo_def SaveAppLoss_def SaveLteCellLoad_def
      SaveNrCellLoad_def)

lemma cell_upto_save:
  "nr_cell_upto t m d \<Longrightarrow> nr_cell_upto t m (SaveNrUeCellInfo n c r t d)"
  "lte_cell_upto t m d \<Longrightarrow> lte_cell_upto t m (SaveLteUeCellInfo n c r t d)"
  by (auto simp: nr_cell_upto_def lte_cell_upto_def SaveNrUeCellInfo_def SaveLteUeCellInfo_def)

lemma cell_upto_later:
  "nr_cell_upto t m d \<Longrightarrow> t \<le> t' \<Longrightarrow> nr_cell_upto t' m d"
  "lte_cell_upto t m d \<Longrightarrow> t \<le> t' \<Longrightarrow> lte_cell_upto t' m d"
  by (auto simp: nr_cell_upto_def lte_cell_upto_def)

lemmas table_laws = registered_frame save_unregistered cell_upto_save cell_upto_later

interpretation nr_cell: latest_table save_nr_cell GetNrUeCellInfo "Pair True" nr_cell_upto
proof unfold_locales
  fix d n t and v :: "uint16 \<times> uint16"
  assume "IsNodeRegistered d n" "nr_cell_upto t n d"
  then show "GetNrUeCellInfo (save_nr_cell n v t d) n = (True, v)"
    using IsNodeRegistered_active [of d n] registered_frame(1) [of n "fst v" "snd v" t d n]
    by (simp add: GetNrUeCellInfo_def save_nr_cell_def SaveNrUeCellInfo_def nr_cell_upto_def uecell_info_snoc)
next
  fix m n :: uint64 and t d and v :: "uint16 \<times> uint16"
  assume "m \<noteq> n"
  then show "GetNrUeCellInfo (save_nr_cell n v t d) m = GetNrUeCellInfo d m"
    using registered_frame(1) [of n "fst v" "snd v" t d m]
    by (simp add: GetNrUeCellInfo_def save_nr_cell_def SaveNrUeCellInfo_def uecell_info_other)
qed (simp_all add: save_nr_cell_def table_laws)

interpretation lte_cell: latest_table save_lte_cell GetLteUeCellInfo "Pair True" lte_cell_upto
proof unfold_locales
  fix d n t and v :: "uint16 \<times> uint16"
  assume "IsNodeRegistered d n" "lte_cell_upto t n d"
  then show "GetLteUeCellInfo (save_lte_cell n v t d) n = (True, v)"
    using IsNodeRegistered_active [of d n] registered_frame(2) [of n "fst v" "snd v" t d n]
    by (simp add: GetLteUeCellInfo_def save_lte_cell_def SaveLteUeCellInfo_def lte_cell_upto_def uecell_info_snoc)
next
  fix m n :: uint64 and t d and v :: "uint16 \<times> uint16"
  assume "m \<noteq> n"
  then show "GetLteUeCellInfo (save_lte_cell n v t d) m = GetLteUeCellInfo d m"
    using registered_frame(2) [of n "fst v" "snd v" t d m]
    by (simp add: GetLteUeCellInfo_def save_lte_cell_def SaveLteUeCellInfo_def uecell_info_other)
qed (simp_all add: save_lte_cell_def table_laws)

interpretation app_loss: latest_table SaveAppLoss GetAppLoss "\<lambda>x. x" "\<lambda>t n d. True"
proof unfold_locales
  fix d n t and v :: double
  assume "IsNodeRegistered d n"
  then show "GetAppLoss (SaveAppLoss n v t d) n = v"
    using IsNodeRegistered_active [of d n] registered_frame(3) [of n v t d n]
    by (simp add: GetAppLoss_def SaveAppLoss_def last_value_snoc)
next
  fix m n :: uint64 and t d and v :: double
  assume "m \<noteq> n"
  then show "GetAppLoss (SaveAppLoss n v t d) m = GetAppLoss d m"
    using registered_frame(3) [of n v t d m] by (simp add: GetAppLoss_def SaveAppLoss_def last_value_snoc)
qed (simp_all add: table_laws)

interpretation lte_load: latest_table SaveLteCellLoad GetLteCellLoad "\<lambda>x. x" "\<lambda>t n d. True"
proof unfold_locales
  fix d n t and v :: double
  assume "IsNodeRegistered d n"
  then show "GetLteCellLoad (SaveLteCellLoad n v t d) n = v"
    using IsNodeRegistered_active [of d n] registered_frame(4) [of n v t d n]
    by (simp add: GetLteCellLoad_def SaveLteCellLoad_def last_value_snoc)
next
  fix m n :: uint64 and t d and v :: double
  assume "m \<noteq> n"
  then show "GetLteCellLoad (SaveLteCellLoad n v t d) m = GetLteCellLoad d m"
    using registered_frame(4) [of n v t d m]
    by (simp add: GetLteCellLoad_def SaveLteCellLoad_def last_value_snoc)
qed (simp_all add: table_laws)

interpretation nr_load: latest_table SaveNrCellLoad GetNrCellLoad "\<lambda>x. x" "\<lambda>t n d. True"
proof unfold_locales
  fix d n t and v :: double
  assume "IsNodeRegistered d n"
  then show "GetNrCellLoad (SaveNrCellLoad n v t d) n = v"
    using IsNodeRegistered_active [of d n] registered_frame(5) [of n v t d n]
    by (simp add: GetNrCellLoad_def SaveNrCellLoad_def last_value_snoc)
next
  fix m n :: uint64 and t d and v :: double
  assume "m \<noteq> n"
  then show "GetNrCellLoad (SaveNrCellLoad n v t d) m = GetNrCellLoad d m"
    using registered_frame(5) [of n v t d m]
    by (simp add: GetNrCellLoad_def SaveNrCellLoad_def last_value_snoc)
qed (simp_all add: table_laws)

section \<open>Registration as a set\<close>

datatype reg_op =
    Reg_node node_type uint64
  | Reg_lte_ue uint64 uint64
  | Reg_nr_ue uint64 uint64
  | Reg_lte_enb uint64 uint16
  | Reg_nr_gnb uint64 uint16
  | Dereg uint64

definition apply_reg :: "time \<Rightarrow> reg_op \<Rightarrow> oran_data \<Rightarrow> uint64 \<times> oran_data" where
  "apply_reg now oper d =
     (case oper of
        Reg_node ty i \<Rightarrow> RegisterNode now ty i d
      | Reg_lte_ue i imsi \<Rightarrow> RegisterNodeLteUe now i imsi d
      | Reg_nr_ue i imsi \<Rightarrow> RegisterNodeNrUe now i imsi d
      | Reg_lte_enb i c \<Rightarrow> RegisterNodeLteEnb now i c d
      | Reg_nr_gnb i c \<Rightarrow> RegisterNodeNrGnb now i c d
      | Dereg n \<Rightarrow> DeregisterNode now n d)"

text \<open>The identifier an operation is given; the abstract state and its two operations.\<close>

definition op_id :: "reg_op \<Rightarrow> uint64" where
  "op_id oper =
     (case oper of Reg_node _ i \<Rightarrow> i | Reg_lte_ue i _ \<Rightarrow> i | Reg_nr_ue i _ \<Rightarrow> i | Reg_lte_enb i _ \<Rightarrow> i
      | Reg_nr_gnb i _ \<Rightarrow> i | Dereg i \<Rightarrow> i)"

definition is_dereg :: "reg_op \<Rightarrow> bool" where
  "is_dereg oper = (case oper of Dereg _ \<Rightarrow> True | _ \<Rightarrow> False)"

record reg_spec =
  members :: "uint64 set"
  last_id :: int

definition spec_reg :: "reg_op \<Rightarrow> reg_spec \<Rightarrow> reg_spec" where
  "spec_reg oper s =
     (let i = op_id oper
      in if is_dereg oper then s\<lparr>members := members s - {i}\<rparr>
         else if i = 0
         then s\<lparr>members := insert (word_of_int (last_id s + 1)) (members s), last_id := last_id s + 1\<rparr>
         else s\<lparr>members := insert i (members s), last_id := max (last_id s) (sint i)\<rparr>)"

definition reg_abs :: "oran_data \<Rightarrow> reg_spec" where
  "reg_abs d = \<lparr>members = {n. IsNodeRegistered d n}, last_id = node_seq (d_db d)\<rparr>"

definition reg_table :: "reg_op \<Rightarrow> oran_data \<Rightarrow> oran_data" where
  "reg_table oper d =
     (case oper of
        Reg_lte_ue i imsi \<Rightarrow> d\<lparr>d_db := (d_db d)\<lparr>t_lteue :=
          insert_replace (\<lambda>x. fst x = i \<or> snd x = imsi) (i, imsi) (t_lteue (d_db d))\<rparr>\<rparr>
      | Reg_nr_ue i imsi \<Rightarrow> d\<lparr>d_db := (d_db d)\<lparr>t_nrue :=
          insert_replace (\<lambda>x. fst x = i \<or> snd x = imsi) (i, imsi) (t_nrue (d_db d))\<rparr>\<rparr>
      | Reg_lte_enb i c \<Rightarrow> d\<lparr>d_db := (d_db d)\<lparr>t_lteenb :=
          insert_replace (\<lambda>x. fst x = i) (i, c) (t_lteenb (d_db d))\<rparr>\<rparr>
      | Reg_nr_gnb i c \<Rightarrow> d\<lparr>d_db := (d_db d)\<lparr>t_nrgnb :=
          insert_replace (\<lambda>x. fst x = i) (i, c) (t_nrgnb (d_db d))\<rparr>\<rparr>
      | _ \<Rightarrow> d)"

definition op_type :: "reg_op \<Rightarrow> node_type" where
  "op_type oper =
     (case oper of Reg_node ty _ \<Rightarrow> ty | Reg_lte_ue _ _ \<Rightarrow> LTEUE | Reg_nr_ue _ _ \<Rightarrow> NRUE
      | Reg_lte_enb _ _ \<Rightarrow> LTEENB | Reg_nr_gnb _ _ \<Rightarrow> NRGNB | Dereg _ \<Rightarrow> WIRED)"

lemma apply_reg_eq:
  assumes "d_active d" and "\<not> is_dereg oper"
  shows "apply_reg now oper d =
    (let p = RegisterNode now (op_type oper) (op_id oper) d in (fst p, reg_table oper (snd p)))"
  using assms
  by (cases oper)
    (simp_all add: apply_reg_def RegisterNodeLteUe_def RegisterNodeNrUe_def RegisterNodeLteEnb_def
      RegisterNodeNrGnb_def op_id_def op_type_def reg_table_def is_dereg_def Let_def case_prod_beta)

lemma reg_table_frame [simp]:
  "d_active (reg_table oper d) = d_active d"
  "t_noderegistration (d_db (reg_table oper d)) = t_noderegistration (d_db d)"
  "node_seq (d_db (reg_table oper d)) = node_seq (d_db d)"
  "bare (d_db (reg_table oper d)) = bare (d_db d)" "scan (d_db (reg_table oper d)) = scan (d_db d)"
  by (cases oper; simp add: reg_table_def)+

lemma RegisterNode_node_seq:
  assumes "d_active d"
  shows "node_seq (d_db (snd (RegisterNode now ty i d))) =
      (if i = 0 then node_seq (d_db d) + 1 else max (node_seq (d_db d)) (sint (bind_int i)))"
    and "fst (RegisterNode now ty i d) = (if i = 0 then word_of_int (node_seq (d_db d) + 1) else bind_int i)"
  using assms by (simp_all add: RegisterNode_eq Let_def insert_node_add_def insert_node_update_def)

lemma apply_reg_refines:
  assumes act: "d_active d" and up: "regs_upto now d" and small: "unat (op_id oper) < 2 ^ 31"
  shows "reg_abs (snd (apply_reg now oper d)) = spec_reg oper (reg_abs d)"
    and "regs_upto now (snd (apply_reg now oper d))" and "d_active (snd (apply_reg now oper d))"
proof -
  let ?d = "snd (apply_reg now oper d)"
  have "reg_abs ?d = spec_reg oper (reg_abs d) \<and> regs_upto now ?d \<and> d_active ?d"
  proof (cases "is_dereg oper")
    case True
    then obtain n where n: "oper = Dereg n" by (cases oper) (auto simp: is_dereg_def)
    obtain e d' where r: "DeregisterNode now n d = (e, d')" by (cases "DeregisterNode now n d")
    have "node_seq (d_db d') = node_seq (d_db d)"
      using r act by (auto simp: DeregisterNode_def)
    with DeregisterNode_registered [OF act up r] r show ?thesis
      by (auto simp: n apply_reg_def spec_reg_def op_id_def is_dereg_def reg_abs_def)
  next
    case False
    let ?i = "op_id oper"
    obtain e d' where r: "RegisterNode now (op_type oper) ?i d = (e, d')"
      by (cases "RegisterNode now (op_type oper) ?i d")
    have d: "?d = reg_table oper d'" by (simp add: apply_reg_eq [OF act False] r)
    note reg = RegisterNode_registered [OF act up r]
    have same: "IsNodeRegistered ?d m = IsNodeRegistered d' m" for m
      unfolding d by (rule IsNodeRegistered_cong) simp_all
    have "regs_upto now ?d" unfolding d using reg(2) regs_upto_cong [of "reg_table oper d'" d'] by simp
    moreover have "e = (if ?i = 0 then word_of_int (node_seq (d_db d) + 1) else ?i)"
        "node_seq (d_db d') = (if ?i = 0 then node_seq (d_db d) + 1 else max (node_seq (d_db d)) (sint ?i))"
      using RegisterNode_node_seq [OF act, of now "op_type oper" ?i] r bind_int_small [OF small] by auto
    ultimately show ?thesis
      using False reg same by (auto simp: d spec_reg_def reg_abs_def Let_def)
  qed
  then show "reg_abs ?d = spec_reg oper (reg_abs d)" "regs_upto now ?d" "d_active ?d" by auto
qed

lemma regs_upto_later: "regs_upto t d \<Longrightarrow> t \<le> t' \<Longrightarrow> regs_upto t' d"
  by (auto simp: regs_upto_def)

definition run_regs :: "(time \<times> reg_op) list \<Rightarrow> oran_data \<Rightarrow> oran_data" where
  "run_regs = fold (\<lambda>(now, oper) d. snd (apply_reg now oper d))"

lemma run_regs_refines:
  assumes "d_active d" and "regs_upto t0 d" and "sorted (t0 # map fst ops)"
    and "\<forall>x\<in>set ops. unat (op_id (snd x)) < 2 ^ 31"
  shows "reg_abs (run_regs ops d) = fold (spec_reg \<circ> snd) ops (reg_abs d)"
  using assms
proof (induction ops arbitrary: d t0)
  case (Cons x ops)
  obtain now oper where x: "x = (now, oper)" by (cases x)
  have up: "regs_upto now d" using Cons.prems(2,3) by (auto simp: x intro: regs_upto_later)
  have small: "unat (op_id oper) < 2 ^ 31" using Cons.prems(4) by (simp add: x)
  note step = apply_reg_refines [OF Cons.prems(1) up small]
  have "reg_abs (run_regs ops (snd (apply_reg now oper d))) =
      fold (spec_reg \<circ> snd) ops (reg_abs (snd (apply_reg now oper d)))"
    by (rule Cons.IH [OF step(3,2)]) (use Cons.prems(3,4) in \<open>auto simp: x\<close>)
  then show ?case by (simp add: run_regs_def x step(1) comp_def)
qed (simp add: run_regs_def)

section \<open>The invariant of the tables\<close>

definition ids_ok :: "oran_data \<Rightarrow> bool" where
  "ids_ok d \<longleftrightarrow>
     0 \<le> node_seq (d_db d) \<and>
     (\<forall>r\<in>set (t_noderegistration (d_db d)). reg_registered r \<longrightarrow>
        0 < sint (reg_nodeid r) \<and> sint (reg_nodeid r) \<le> node_seq (d_db d))"

definition ue_table_ok :: "('a \<times> 'b) list \<Rightarrow> bool" where
  "ue_table_ok rows \<longleftrightarrow> distinct (map fst rows) \<and> distinct (map snd rows)"

definition tables_ok :: "oran_data \<Rightarrow> bool" where
  "tables_ok d \<longleftrightarrow>
     ue_table_ok (t_lteue (d_db d)) \<and> ue_table_ok (t_nrue (d_db d)) \<and>
     distinct (map fst (t_lteenb (d_db d))) \<and> distinct (map fst (t_nrgnb (d_db d)))"

lemma distinct_map_filter: "distinct (map f xs) \<Longrightarrow> distinct (map f (filter P xs))"
  by (induction xs) auto

lemma insert_replace_ue:
  "ue_table_ok rows \<Longrightarrow> ue_table_ok (insert_replace (\<lambda>x. fst x = i \<or> snd x = j) (i, j) rows)"
  by (auto simp: ue_table_ok_def insert_replace_def distinct_map_filter)

lemma insert_replace_pk:
  "distinct (map fst rows) \<Longrightarrow> distinct (map fst (insert_replace (\<lambda>x. fst x = i) (i, j) rows))"
  by (auto simp: insert_replace_def distinct_map_filter)

lemma reg_table_ok: "tables_ok d \<Longrightarrow> tables_ok (reg_table oper d)"
  by (cases oper) (simp_all add: tables_ok_def reg_table_def insert_replace_ue insert_replace_pk)

lemma tables_ok_cong:
  "t_lteue (d_db d') = t_lteue (d_db d) \<Longrightarrow> t_nrue (d_db d') = t_nrue (d_db d) \<Longrightarrow>
    t_lteenb (d_db d') = t_lteenb (d_db d) \<Longrightarrow> t_nrgnb (d_db d') = t_nrgnb (d_db d) \<Longrightarrow>
    tables_ok d' = tables_ok d"
  by (simp add: tables_ok_def)

lemma RegisterNode_tables:
  "t_lteue (d_db (snd (RegisterNode now ty i d))) = t_lteue (d_db d)"
  "t_nrue (d_db (snd (RegisterNode now ty i d))) = t_nrue (d_db d)"
  "t_lteenb (d_db (snd (RegisterNode now ty i d))) = t_lteenb (d_db d)"
  "t_nrgnb (d_db (snd (RegisterNode now ty i d))) = t_nrgnb (d_db d)"
  "scan (d_db (snd (RegisterNode now ty i d))) = scan (d_db d)"
  "bare (d_db (snd (RegisterNode now ty i d))) = bare (d_db d)"
  by (simp_all add: RegisterNode_def insert_node_add_def insert_node_update_def Let_def)

lemma RegisterNode_regs:
  assumes "d_active d"
  shows "t_noderegistration (d_db (snd (RegisterNode now ty i d))) = t_noderegistration (d_db d) @
    [\<lparr>reg_nodeid = fst (RegisterNode now ty i d), reg_registered = True, reg_time = now\<rparr>]"
  using assms by (simp add: RegisterNode_eq Let_def)

lemma sint_word_of_int_small:
  assumes "0 \<le> k" and "k < 2 ^ 63"
  shows "sint (word_of_int k :: uint64) = k"
proof -
  have "signed_take_bit 63 k = k" using assms by (intro signed_take_bit_int_eq_self) simp_all
  then show ?thesis by (simp add: sint_sbintrunc')
qed

lemma sint_small:
  assumes "unat (i :: uint64) < 2 ^ 31" and "i \<noteq> 0"
  shows "0 < sint i"
proof -
  have i: "i = word_of_int (int (unat i))" by simp
  have "int (unat i) < int (2 ^ 31)" using assms(1) by (simp only: of_nat_less_iff)
  also have "\<dots> < 2 ^ 63" by simp
  finally have "sint (word_of_int (int (unat i)) :: uint64) = int (unat i)"
    by (intro sint_word_of_int_small) simp_all
  then have "sint i = int (unat i)" by (simp only: i [symmetric])
  moreover have "unat i \<noteq> 0" using assms(2) by (simp add: unat_eq_0)
  ultimately show ?thesis by linarith
qed

lemma apply_reg_ok:
  assumes act: "d_active d" and ids: "ids_ok d" and tab: "tables_ok d"
    and small: "unat (op_id oper) < 2 ^ 31" and seq: "node_seq (d_db d) + 1 < 2 ^ 63"
  shows "ids_ok (snd (apply_reg now oper d)) \<and> tables_ok (snd (apply_reg now oper d))"
proof (cases "is_dereg oper")
  case True
  then obtain n where n: "oper = Dereg n" by (cases oper) (auto simp: is_dereg_def)
  have "tables_ok (insert_registration n False now d)" using tab by (simp add: tables_ok_def)
  with act ids show ?thesis by (auto simp: n apply_reg_def DeregisterNode_def ids_ok_def)
next
  case False
  let ?i = "op_id oper" and ?p = "RegisterNode now (op_type oper) (op_id oper) d"
  have tabs: "tables_ok (snd ?p)" using tab by (simp add: tables_ok_def RegisterNode_tables)
  have e: "fst ?p = (if ?i = 0 then word_of_int (node_seq (d_db d) + 1) else ?i)"
    and q: "node_seq (d_db (snd ?p)) = (if ?i = 0 then node_seq (d_db d) + 1 else max (node_seq (d_db d)) (sint ?i))"
    using RegisterNode_node_seq [OF act, of now "op_type oper" ?i] bind_int_small [OF small] by auto
  have "0 \<le> node_seq (d_db d)" using ids by (simp add: ids_ok_def)
  then have s: "sint (word_of_int (node_seq (d_db d) + 1) :: uint64) = node_seq (d_db d) + 1"
    using seq by (intro sint_word_of_int_small) simp_all
  have "0 < sint (fst ?p) \<and> sint (fst ?p) \<le> node_seq (d_db (snd ?p))"
  proof (cases "?i = 0")
    case True
    then show ?thesis unfolding e q if_P [OF True] s using \<open>0 \<le> node_seq (d_db d)\<close> by simp
  qed (use sint_small [OF small] in \<open>simp add: e q\<close>)
  moreover have "node_seq (d_db d) \<le> node_seq (d_db (snd ?p))" by (simp add: q)
  ultimately have "ids_ok (snd ?p)"
    using ids by (auto simp: ids_ok_def RegisterNode_regs [OF act])
  then have "ids_ok (reg_table oper (snd ?p))" by (simp add: ids_ok_def)
  with tabs show ?thesis by (simp add: apply_reg_eq [OF act False] Let_def reg_table_ok)
qed

lemma registered_id:
  assumes "ids_ok d" and "IsNodeRegistered d n"
  shows "0 < sint n" and "sint n \<le> node_seq (d_db d)"
proof -
  from assms(2) obtain r where r: "limit1 (order_desc reg_time (node_regs d n)) = Some r" "reg_registered r"
    by (auto simp: IsNodeRegistered_alt)
  have "r \<in> set (t_noderegistration (d_db d))" "reg_nodeid r = n"
    using limit1_order_desc_max(1) [OF r(1)] by (auto simp: node_regs_def)
  with r(2) show "0 < sint n" "sint n \<le> node_seq (d_db d)" using assms(1) by (auto simp: ids_ok_def)
qed

section \<open>Measurements\<close>

definition save_measurement :: "uint64 \<Rightarrow> time \<Rightarrow> measurement \<Rightarrow> oran_data \<Rightarrow> oran_data" where
  "save_measurement n t m d =
     (case m of (rnti, c, x, y, sv, cc) \<Rightarrow> SaveNrUeRsrpRsrq n t rnti c x y sv cc d)"

lemma save_measurements_rows:
  assumes "IsNodeRegistered d n"
  shows "fold (save_measurement n t) ms d = d\<lparr>d_db := (d_db d)\<lparr>t_nruersrprsrq := t_nruersrprsrq (d_db d) @
    map (\<lambda>(rnti, c, x, y, sv, cc). rsrprsrq_row n t rnti c x y sv cc) ms\<rparr>\<rparr>"
  using assms
proof (induction ms arbitrary: d)
  case (Cons m ms)
  obtain rnti c x y sv cc where m: "m = (rnti, c, x, y, sv, cc)" by (cases m)
  let ?d = "SaveNrUeRsrpRsrq n t rnti c x y sv cc d"
  have "IsNodeRegistered ?d n" using Cons.prems by (simp add: registered_frame)
  have one: "save_measurement n t m d = ?d" by (simp add: m save_measurement_def)
  from Cons.IH [OF \<open>IsNodeRegistered ?d n\<close>] have "fold (save_measurement n t) (m # ms) d =
      ?d\<lparr>d_db := (d_db ?d)\<lparr>t_nruersrprsrq := t_nruersrprsrq (d_db ?d) @
        map (\<lambda>(rnti, c, x, y, sv, cc). rsrprsrq_row n t rnti c x y sv cc) ms\<rparr>\<rparr>"
    by (simp only: fold.simps comp_def one)
  also have "\<dots> = d\<lparr>d_db := (d_db d)\<lparr>t_nruersrprsrq := t_nruersrprsrq (d_db d) @
        map (\<lambda>(rnti, c, x, y, sv, cc). rsrprsrq_row n t rnti c x y sv cc) (m # ms)\<rparr>\<rparr>"
    using Cons.prems IsNodeRegistered_active by (simp add: m SaveNrUeRsrpRsrq_def)
  finally show ?case .
qed simp

lemma newest_append:
  assumes "\<forall>x\<in>set xs. t x < k" and "\<forall>y\<in>set ys. t y = k" and "ys \<noteq> []"
  shows "newest t (xs @ ys) = ys"
proof -
  obtain y where y: "y \<in> set ys" using assms(3) by (meson list.set_sel(1))
  have "filter (\<lambda>r. \<forall>x\<in>set (xs @ ys). t x \<le> t r) xs = []"
    using assms(1,2) y by (fastforce simp: filter_empty_conv not_le)
  moreover have "filter (\<lambda>r. \<forall>x\<in>set (xs @ ys). t x \<le> t r) ys = ys"
    using assms(1,2) by (fastforce simp: filter_id_conv)
  ultimately show ?thesis by (simp add: newest_eq)
qed

lemma measurements_batch:
  assumes reg: "IsNodeRegistered d n" and eng: "engine_ok (d_db d)" and ne: "ms \<noteq> []"
    and old: "\<forall>r\<in>set (t_nruersrprsrq (d_db d)). ms_nodeid r = n \<longrightarrow> ms_time r < t"
  shows "mset (GetNrUeRsrpRsrq (fold (save_measurement n t) ms d) n) = mset ms"
proof -
  let ?row = "\<lambda>(rnti, c, x, y, sv, cc). rsrprsrq_row n t rnti c x y sv cc"
  let ?d = "fold (save_measurement n t) ms d"
  have d: "?d = d\<lparr>d_db := (d_db d)\<lparr>t_nruersrprsrq := t_nruersrprsrq (d_db d) @ map ?row ms\<rparr>\<rparr>"
    by (rule save_measurements_rows [OF reg])
  have regd: "IsNodeRegistered ?d n" "d_active ?d"
    using reg IsNodeRegistered_active by (auto simp: d IsNodeRegistered_def)
  have eng': "engine_ok (d_db ?d)" using eng by (simp add: d engine_ok_def)
  have row: "\<forall>y\<in>set (map ?row ms). ms_nodeid y = n \<and> ms_time y = t"
    by (auto simp: rsrprsrq_row_def)
  let ?old = "filter (\<lambda>r. ms_nodeid r = n) (t_nruersrprsrq (d_db d))"
  have "filter (\<lambda>r. ms_nodeid r = n) (map ?row ms) = map ?row ms"
    by (rule filter_True) (use row in blast)
  then have "filter (\<lambda>r. ms_nodeid r = n) (t_nruersrprsrq (d_db ?d)) = ?old @ map ?row ms"
    unfolding d by simp
  moreover have "newest ms_time (?old @ map ?row ms) = map ?row ms"
  proof (rule newest_append [where k = t])
    show "\<forall>x\<in>set ?old. ms_time x < t" using old by simp
    show "\<forall>y\<in>set (map ?row ms). ms_time y = t" using row by blast
    show "map ?row ms \<noteq> []" using ne by simp
  qed
  ultimately have "mset (GetNrUeRsrpRsrq ?d n) = image_mset measurement_of (mset (map ?row ms))"
    using regd by (simp add: GetNrUeRsrpRsrq_def mset_scan_rows [OF eng'])
  also have "\<dots> = mset (map (measurement_of \<circ> ?row) ms)" by (simp add: multiset.map_comp)
  also have "measurement_of \<circ> ?row = id"
    by (auto simp: fun_eq_iff measurement_of_def rsrprsrq_row_def)
  finally show ?thesis by simp
qed

section \<open>Positions\<close>

lemma GetNodePositions_one:
  "GetNodePositions d n from to 1 =
     (if IsNodeRegistered d n
      then (case limit1 (order_desc loc_time
               (filter (\<lambda>r. loc_nodeid r = n \<and> from \<le> loc_time r \<and> loc_time r \<le> to)
                  (t_nodelocation (d_db d)))) of
              None \<Rightarrow> [] | Some r \<Rightarrow> [(loc_time r, loc_pos r)])
      else [])"
  using IsNodeRegistered_active [of d n]
  by (auto simp: GetNodePositions_def sql_limit_def limit1_def split: list.splits)

section \<open>Example data\<close>

definition empty_data :: oran_data where
  "empty_data = (OranDataRepositorySqlite (InitDb (\<lambda>n. [0..<n]) (\<lambda>_. 0) (\<lambda>s. s)))\<lparr>d_active := True, d_open := True\<rparr>"

lemma empty_data_simps [simp]:
  "d_active empty_data" "t_noderegistration (d_db empty_data) = []" "node_seq (d_db empty_data) = 0"
  "t_lteue (d_db empty_data) = []" "t_nrue (d_db empty_data) = []" "t_lteenb (d_db empty_data) = []"
  "t_nrgnb (d_db empty_data) = []" "t_nruecell (d_db empty_data) = []" "t_nruersrprsrq (d_db empty_data) = []"
  "t_nodelocation (d_db empty_data) = []"
  by (simp_all add: empty_data_def OranDataRepositorySqlite_def InitDb_def)

lemma empty_data_engine: "engine_ok (d_db empty_data)"
  by (auto simp: engine_ok_def empty_data_def OranDataRepositorySqlite_def InitDb_def)

text \<open>The storage after one gNB and one UE, both re-registered under the identifiers they got.\<close>

definition one_node :: oran_data where
  "one_node = empty_data\<lparr>d_db := (d_db empty_data)\<lparr>
     t_noderegistration := [\<lparr>reg_nodeid = 1, reg_registered = True, reg_time = 0\<rparr>], t_nrue := [(1, 77)]\<rparr>\<rparr>"

lemma one_node_simps [simp]:
  "d_active one_node" "t_nrue (d_db one_node) = [(1, 77)]" "t_nruecell (d_db one_node) = []"
  "t_nruersrprsrq (d_db one_node) = []" "t_nodelocation (d_db one_node) = []"
  "t_noderegistration (d_db one_node) = [\<lparr>reg_nodeid = 1, reg_registered = True, reg_time = 0\<rparr>]"
  by (simp_all add: one_node_def)

lemma one_node_registered [simp]: "IsNodeRegistered one_node 1"
  by (simp add: one_node_def IsNodeRegistered_def limit1_def order_desc_def)

lemma one_node_engine: "engine_ok (d_db one_node)"
  using empty_data_engine by (simp add: one_node_def engine_ok_def)

section \<open>Properties\<close>

text \<open>
  C3: The registration methods implement a set of registered nodes with a counter for fresh
  identifiers: after any sequence of registrations and deregistrations in time order,
  \<open>IsNodeRegistered\<close> answers membership in the set that the same operations compute, where a
  registration with identifier 0 takes the next free number. (Identifiers below \<open>2^31\<close>.)
\<close>

theorem registration_refines_set:
  assumes "d_active d" and "regs_upto t0 d" and "sorted (t0 # map fst ops)"
    and "\<forall>x\<in>set ops. unat (op_id (snd x)) < 2 ^ 31"
  shows "IsNodeRegistered (run_regs ops d) n \<longleftrightarrow> n \<in> members (fold (spec_reg \<circ> snd) ops (reg_abs d))"
proof -
  have "IsNodeRegistered (run_regs ops d) n \<longleftrightarrow> n \<in> members (reg_abs (run_regs ops d))"
    by (simp add: reg_abs_def)
  then show ?thesis by (simp only: run_regs_refines [OF assms])
qed

theorem registration_refines_set_witness:
  "IsNodeRegistered (run_regs [(1, Reg_nr_ue 0 77), (2, Dereg 1), (3, Reg_nr_gnb 0 5)] empty_data) 2 \<and>
   \<not> IsNodeRegistered (run_regs [(1, Reg_nr_ue 0 77), (2, Dereg 1), (3, Reg_nr_gnb 0 5)] empty_data) 1"
proof -
  let ?ops = "[(1, Reg_nr_ue 0 77), (2, Dereg 1), (3, Reg_nr_gnb 0 5)] :: (time \<times> reg_op) list"
  have h: "d_active empty_data" "regs_upto 0 empty_data" "sorted (0 # map fst ?ops)"
    "\<forall>x\<in>set ?ops. unat (op_id (snd x)) < 2 ^ 31"
    by (simp_all add: regs_upto_def op_id_def)
  show ?thesis
    using registration_refines_set [OF h, of 2] registration_refines_set [OF h, of 1]
    by (simp add: spec_reg_def op_id_def is_dereg_def reg_abs_def Let_def)
qed

text \<open>
  C39: Every registration operation keeps the tables well formed (an E2 node identifier and an IMSI
  occur at most once in a table of UEs, an identifier at most once in a table of base stations, and
  the identifiers of registered nodes are positive and not above the counter), and a first
  registration returns an identifier that is not zero and that no registered node has.
\<close>

theorem registration_invariant:
  assumes "d_active d" and "ids_ok d" and "tables_ok d"
    and "unat (op_id oper) < 2 ^ 31" and "node_seq (d_db d) + 1 < 2 ^ 63"
  shows "ids_ok (snd (apply_reg now oper d)) \<and> tables_ok (snd (apply_reg now oper d)) \<and>
    (\<not> is_dereg oper \<and> op_id oper = 0 \<longrightarrow>
      fst (apply_reg now oper d) \<noteq> 0 \<and> \<not> IsNodeRegistered d (fst (apply_reg now oper d)))"
proof -
  let ?k = "node_seq (d_db d) + 1" and ?e = "fst (apply_reg now oper d)"
  have "0 \<le> node_seq (d_db d)" using assms(2) by (simp add: ids_ok_def)
  then have s: "sint (word_of_int ?k :: uint64) = ?k" using assms(5) by (intro sint_word_of_int_small) simp_all
  have "?e \<noteq> 0 \<and> \<not> IsNodeRegistered d ?e" if "\<not> is_dereg oper" "op_id oper = 0"
  proof -
    have e: "?e = word_of_int ?k"
      using that RegisterNode_node_seq(2) [OF assms(1)] by (simp add: apply_reg_eq [OF assms(1)] Let_def)
    have "sint ?e = ?k" unfolding e by (rule s)
    then show ?thesis using registered_id(2) [OF assms(2), of ?e] \<open>0 \<le> node_seq (d_db d)\<close> by auto
  qed
  then show ?thesis using apply_reg_ok [OF assms, of now] by blast
qed

theorem registration_invariant_witness:
  "ids_ok (snd (apply_reg 1 (Reg_nr_ue 0 77) empty_data)) \<and> tables_ok (snd (apply_reg 1 (Reg_nr_ue 0 77) empty_data))"
  using registration_invariant [of empty_data "Reg_nr_ue 0 77" 1]
  by (simp add: ids_ok_def tables_ok_def ue_table_ok_def op_id_def)

text \<open>
  \<open>GetNrUeCellInfo\<close> returns the cell and RNTI of the last report saved for the node: whatever
  reports of whatever nodes come in time order before it, and whatever reports of other nodes come
  after it.
\<close>

lemma nr_cell_info_latest:
  assumes "IsNodeRegistered d n"
    and "sorted (map (snd \<circ> snd) (es @ [(n, (cellId, rnti), t)]))"
    and "nr_cell_upto t0 n d" and "\<forall>e\<in>set (es @ [(n, (cellId, rnti), t)]). t0 \<le> snd (snd e)"
    and "n \<notin> fst ` set fs"
  shows "GetNrUeCellInfo (save_all save_nr_cell (es @ (n, (cellId, rnti), t) # fs) d) n = (True, cellId, rnti)"
  using assms by (rule nr_cell.get_last)

text \<open>
  A query for the measurements of a registered UE returns exactly the batch that was saved at
  the newest time, each measurement as often as it was saved (the order is left to the database).
\<close>

lemma nr_measurements_newest_batch:
  assumes "IsNodeRegistered d n" and "engine_ok (d_db d)" and "ms \<noteq> []"
    and "\<forall>r\<in>set (t_nruersrprsrq (d_db d)). ms_nodeid r = n \<longrightarrow> ms_time r < t"
  shows "mset (GetNrUeRsrpRsrq (fold (save_measurement n t) ms d) n) = mset ms"
  using assms by (rule measurements_batch)

text \<open>
  \<open>GetNrUeE2NodeIds\<close> lists each node once, in increasing order, and lists exactly the nodes of
  the table of NR UEs that \<open>IsNodeRegistered\<close> accepts, as long as no node has a registration and
  a deregistration at one newest time step (there the two statements may disagree).
\<close>

theorem nr_ue_ids_registered:
  assumes "d_active d" and "engine_ok (d_db d)" and "\<forall>n. agree_newest d n"
  shows "set (GetNrUeE2NodeIds d) = {n \<in> fst ` set (t_nrue (d_db d)). IsNodeRegistered d n} \<and>
    sorted_wrt (\<lambda>a b. sint a < sint b) (GetNrUeE2NodeIds d)"
proof -
  have "n \<in> set (joined_ids (d_db d) (map fst (t_nrue (d_db d)))) \<longleftrightarrow>
      n \<in> fst ` set (t_nrue (d_db d)) \<and> IsNodeRegistered d n" for n
    using joined_ids_iff [OF assms(2,1), of n "map fst (t_nrue (d_db d))"] assms(3) by simp
  then show ?thesis
    using assms(1) last_registrations_sorted by (auto simp: GetNrUeE2NodeIds_def joined_ids_def)
qed

text \<open>
  A first registration of an NR UE does not make it visible to the logic modules.
  \<open>RegisterNodeNrUe\<close> writes the identifier it was given (zero) to the table of NR UEs and not the
  one it returns, so the node is registered but \<open>GetNrUeE2NodeIds\<close> does not list it; when it
  registers again under its identifier it is listed.
\<close>

theorem first_nr_registration_hidden:
  assumes act: "d_active d" and eng: "engine_ok (d_db d)" and up: "regs_upto now d"
    and reg: "RegisterNodeNrUe now 0 imsi d = (e, d')" and later: "now \<le> now'"
    and fresh: "node_regs d e = []" "e \<notin> fst ` set (t_nrue (d_db d))" "e \<noteq> 0" "unat e < 2 ^ 31"
  shows "IsNodeRegistered d' e \<and> e \<notin> set (GetNrUeE2NodeIds d') \<and>
    (0, imsi) \<in> set (t_nrue (d_db d')) \<and>
    fst (RegisterNodeNrUe now' e imsi d') = e \<and>
    e \<in> set (GetNrUeE2NodeIds (snd (RegisterNodeNrUe now' e imsi d')))"
proof -
  let ?d = "snd (RegisterNodeNrUe now' e imsi d')"
  have op: "apply_reg now (Reg_nr_ue 0 imsi) d = (e, d')" "apply_reg now' (Reg_nr_ue e imsi) d' = RegisterNodeNrUe now' e imsi d'"
    using reg by (simp_all add: apply_reg_def)
  have nd: "\<not> is_dereg (Reg_nr_ue i imsi)" "op_id (Reg_nr_ue i imsi) = i" for i
    by (simp_all add: is_dereg_def op_id_def)
  note eq1 = apply_reg_eq [OF act, of "Reg_nr_ue 0 imsi" now, OF nd(1), unfolded nd(2) op(1) Let_def]
  have e: "e = fst (RegisterNode now (op_type (Reg_nr_ue 0 imsi)) 0 d)"
    and d': "d' = reg_table (Reg_nr_ue 0 imsi) (snd (RegisterNode now (op_type (Reg_nr_ue 0 imsi)) 0 d))"
    using eq1 by simp_all
  have act': "d_active d'" and up': "regs_upto now d'" and in': "IsNodeRegistered d' e"
    using RegisterNode_registered [OF act up, of "op_type (Reg_nr_ue 0 imsi)" 0,
        OF surjective_pairing, folded e]
    unfolding d' by (simp_all add: regs_upto_def IsNodeRegistered_def)
  have rows: "t_noderegistration (d_db d') = t_noderegistration (d_db d) @
      [\<lparr>reg_nodeid = e, reg_registered = True, reg_time = now\<rparr>]"
    unfolding d' e by (simp add: RegisterNode_regs [OF act])
  have eng': "engine_ok (d_db d')" using eng unfolding d' by (simp add: engine_ok_def RegisterNode_tables)
  have tab: "t_nrue (d_db d') = insert_replace (\<lambda>x. fst x = 0 \<or> snd x = imsi) (0, imsi) (t_nrue (d_db d))"
    unfolding d' by (simp add: reg_table_def RegisterNode_tables)
  have hidden: "e \<notin> set (GetNrUeE2NodeIds d')"
  proof -
    have "e \<notin> fst ` set (t_nrue (d_db d'))" using fresh(2,3) by (auto simp: tab insert_replace_def)
    moreover have "agree_newest d' e"
      using fresh(1) by (auto simp: agree_newest_def newest_eq node_regs_def rows)
    ultimately show ?thesis
      using joined_ids_iff [OF eng' act'] act' by (simp add: GetNrUeE2NodeIds_def)
  qed
  have d2: "?d = reg_table (Reg_nr_ue e imsi) (snd (RegisterNode now' (op_type (Reg_nr_ue e imsi)) e d'))"
    and e2: "fst (RegisterNodeNrUe now' e imsi d') = e"
    using apply_reg_eq [OF act', of "Reg_nr_ue e imsi" now', OF nd(1), unfolded nd(2)] RegisterNode_node_seq(2) [OF act', of now' _ e]
      bind_int_small [OF fresh(4)] fresh(3) by (simp_all add: op(2) [symmetric] Let_def)
  have rows2: "t_noderegistration (d_db ?d) = t_noderegistration (d_db d') @
      [\<lparr>reg_nodeid = e, reg_registered = True, reg_time = now'\<rparr>]"
    unfolding d2 using RegisterNode_node_seq(2) [OF act', of now' _ e] bind_int_small [OF fresh(4)] fresh(3)
    by (simp add: RegisterNode_regs [OF act'])
  have regs2: "node_regs ?d e = [\<lparr>reg_nodeid = e, reg_registered = True, reg_time = now\<rparr>,
      \<lparr>reg_nodeid = e, reg_registered = True, reg_time = now'\<rparr>]"
    using fresh(1) by (simp add: node_regs_def rows rows2)
  have act2: "d_active ?d" using RegisterNode_registered(3) [OF act' regs_upto_later [OF up' later] surjective_pairing]
    unfolding d2 by simp
  have eng2: "engine_ok (d_db ?d)" using eng' unfolding d2 by (simp add: engine_ok_def RegisterNode_tables)
  have "agree_newest ?d e" by (auto simp: agree_newest_def newest_eq regs2)
  moreover have "IsNodeRegistered ?d e"
    using act2 by (simp add: IsNodeRegistered_alt regs2 limit1_def order_desc_def)
  moreover have "e \<in> fst ` set (t_nrue (d_db ?d))"
    unfolding d2 by (simp add: reg_table_def insert_replace_def)
  ultimately have "e \<in> set (GetNrUeE2NodeIds ?d)"
    using joined_ids_iff [OF eng2 act2] act2 by (simp add: GetNrUeE2NodeIds_def)
  moreover have "(0, imsi) \<in> set (t_nrue (d_db d'))" by (simp add: tab insert_replace_def)
  ultimately show ?thesis using in' hidden e2 by blast
qed

text \<open>
  The position a logic module asks for (one entry, up to now) is the newest one saved for the
  node, and a report that is not older than the positions before it is the one that is returned.
\<close>

lemma position_latest:
  assumes "IsNodeRegistered d n" and "from \<le> t" and "t \<le> now"
    and "\<forall>r\<in>set (t_nodelocation (d_db d)). loc_nodeid r = n \<longrightarrow> loc_time r \<le> t"
  shows "GetNodePositions (SavePosition n pos t d) n from now 1 = [(t, pos)]"
proof -
  have r: "IsNodeRegistered (SavePosition n pos t d) n" using assms(1) by (simp add: registered_frame)
  let ?rows = "filter (\<lambda>r. loc_nodeid r = n \<and> from \<le> loc_time r \<and> loc_time r \<le> now) (t_nodelocation (d_db d))"
  have "limit1 (order_desc loc_time (?rows @ [\<lparr>loc_nodeid = n, loc_pos = pos, loc_time = t\<rparr>])) =
      Some \<lparr>loc_nodeid = n, loc_pos = pos, loc_time = t\<rparr>"
    by (rule limit1_order_desc_snoc) (use assms(4) in simp)
  with r assms IsNodeRegistered_active [OF assms(1)] show ?thesis
    by (simp add: GetNodePositions_one) (simp add: SavePosition_def)
qed

end
