(* ===== verification/Ric_E2_Terminator.thy ===== *)
theory Ric_E2_Terminator
  imports E2_Node Repository_Laws
begin

text \<open>
  The E2 terminator of the Near-RT RIC (\<open>OranNearRtRicE2Terminator\<close>): it answers the registration
  and deregistration requests of the E2 nodes, stores their reports in the repository and sends them
  the commands. \<open>et_nodeTerminators\<close> is the map from E2 node identifiers to the terminators of the
  nodes. The call of \<open>NotifyReportReceived\<close> at the end of \<open>ReceiveReport\<close> belongs to the RIC
  (theory \<open>Near_Rt_Ric\<close>).
\<close>

section \<open>Operations\<close>

definition e2t_of :: "oran_st \<Rightarrow> ric_e2_terminator" where
  "e2t_of st = w_e2t (fst st)"

definition data_of :: "oran_st \<Rightarrow> oran_data" where
  "data_of st = w_data (fst st)"

definition e2t_Activate :: "oran_st \<Rightarrow> oran_st" where
  "e2t_Activate = on_world (upd_e2t (\<lambda>e. e\<lparr>et_active := True\<rparr>))"

definition e2t_Deactivate :: "oran_st \<Rightarrow> oran_st" where
  "e2t_Deactivate = on_world (upd_e2t (\<lambda>e. e\<lparr>et_active := False\<rparr>))"

text \<open>A message to an E2 node, after a transmission delay of the terminator.\<close>

definition e2t_transmit :: "oran_event \<Rightarrow> oran_st \<Rightarrow> oran_st res" where
  "e2t_transmit ev st =
     (case GetValue (et_transmissionDelayRv (e2t_of st)) of (delay, rv') \<Rightarrow>
        sched delay ev (\<lambda>_. upd_e2t (\<lambda>e. e\<lparr>et_transmissionDelayRv := rv'\<rparr>)) st)"

text \<open>
  The registration call of the type of the node. \<open>GetObject\<close> of another class than that of the
  terminator is a null pointer.
\<close>

definition register_by_type :: "time \<Rightarrow> node_type \<Rightarrow> uint64 \<Rightarrow> e2_node \<Rightarrow> oran_data \<Rightarrow> (uint64 \<times> oran_data) res" where
  "register_by_type now ty i n d =
     (if ty = WIRED then Inr (RegisterNode now ty i d)
      else abort_if (en_type n \<noteq> ty) NullPointer
        (res_bind (GetNetDevice n) (\<lambda>_. Inr
           (case ty of
              LTEUE \<Rightarrow> RegisterNodeLteUe now i (en_imsi n) d
            | NRUE \<Rightarrow> RegisterNodeNrUe now i (en_imsi n) d
            | LTEENB \<Rightarrow> RegisterNodeLteEnb now i (en_cellId n) d
            | NRGNB \<Rightarrow> RegisterNodeNrGnb now i (en_cellId n) d
            | WIRED \<Rightarrow> RegisterNode now ty i d))))"

definition ReceiveRegistrationRequest :: "node_type \<Rightarrow> uint64 \<Rightarrow> nat \<Rightarrow> oran_st \<Rightarrow> oran_st res" where
  "ReceiveRegistrationRequest ty i terminator st =
     (if et_active (e2t_of st)
      then abort_if (\<not> et_data (e2t_of st)) NullData
        (res_bind (register_by_type (now_of st) ty i (node_of st terminator) (data_of st)) (\<lambda>(e2NodeId, d).
           e2t_transmit (Ev_ReceiveRegistrationResponse terminator e2NodeId)
             (on_world (upd_e2t (\<lambda>e. e\<lparr>et_nodeTerminators :=
                  smap_upd e2NodeId terminator (et_nodeTerminators e)\<rparr>) \<circ> upd_data (\<lambda>_. d)) st)))
      else Inr st)"

definition ReceiveDeregistrationRequest :: "uint64 \<Rightarrow> oran_st \<Rightarrow> oran_st res" where
  "ReceiveDeregistrationRequest e2NodeId st =
     (if et_active (e2t_of st)
      then abort_if (\<not> et_data (e2t_of st)) NullData
        (case DeregisterNode (now_of st) e2NodeId (data_of st) of (deregistered, d) \<Rightarrow>
           let st1 = on_world (upd_data (\<lambda>_. d)) st
           in (case map_of (et_nodeTerminators (e2t_of st1)) e2NodeId of
                 None \<Rightarrow> Inr st1
               | Some i \<Rightarrow> e2t_transmit (Ev_ReceiveDeregistrationResponse i deregistered) st1))
      else Inr st)"

text \<open>The cascade of \<open>ReceiveReport\<close> on the class of the report; other reports are not stored.\<close>

definition save_report :: "oran_report \<Rightarrow> oran_data \<Rightarrow> oran_data" where
  "save_report report d =
     (case report of
        OranReport _ \<Rightarrow> d
      | OranReportLocation r \<Rightarrow> SavePosition (m_reporterE2NodeId r) (m_location r) (m_time r) d
      | OranReportLteCellLoad r \<Rightarrow> SaveLteCellLoad (m_reporterE2NodeId r) (m_cellLoad r) (m_time r) d
      | OranReportNrCellLoad r \<Rightarrow> SaveNrCellLoad (m_reporterE2NodeId r) (m_cellLoad r) (m_time r) d
      | OranReportLteUeCellInfo r \<Rightarrow>
          SaveLteUeCellInfo (m_reporterE2NodeId r) (m_cellId r) (m_rnti r) (m_time r) d
      | OranReportNrUeCellInfo r \<Rightarrow>
          SaveNrUeCellInfo (m_reporterE2NodeId r) (m_cellId r) (m_rnti r) (m_time r) d
      | OranReportAppLoss r \<Rightarrow> SaveAppLoss (m_reporterE2NodeId r) (m_loss r) (m_time r) d
      | OranReportLteUeRsrpRsrq r \<Rightarrow>
          SaveLteUeRsrpRsrq (m_reporterE2NodeId r) (m_time r) (rr_rnti r) (rr_cellId r) (lte_GetRsrp r)
            (lte_GetRsrq r) (rr_isServingCell r) (ucast (rr_componentCarrierId r)) d
      | OranReportNrUeRsrpRsrq r \<Rightarrow>
          SaveNrUeRsrpRsrq (m_reporterE2NodeId r) (m_time r) (rr_rnti r) (rr_cellId r) (nr_GetRsrp r)
            (nr_GetRsrq r) (rr_isServingCell r) (ucast (rr_componentCarrierId r)) d
      | OranReportNrUeSinr r \<Rightarrow>
          SaveNrUeSinr (m_reporterE2NodeId r) (m_time r) (si_rnti r) (si_cellId r) (si_bwpId r)
            (si_sinrLin r) (si_sinrDb r) (si_isCtrl r) d)"

definition SendCommand :: "oran_command \<Rightarrow> oran_st \<Rightarrow> oran_st res" where
  "SendCommand command st =
     (if et_active (e2t_of st)
      then abort_if (\<not> et_data (e2t_of st)) NullData
        (let st1 = on_world (upd_data (LogCommandE2Terminator (now_of st) command)) st
         in case map_of (et_nodeTerminators (e2t_of st1)) (GetTargetE2NodeId command) of
              None \<Rightarrow> Inr st1
            | Some i \<Rightarrow> e2t_transmit (Ev_ReceiveCommand i command) st1)
      else Inr st)"

definition ProcessCommands :: "oran_command list \<Rightarrow> oran_st \<Rightarrow> oran_st res" where
  "ProcessCommands commands st =
     (if et_active (e2t_of st) then res_fold SendCommand commands st else Inr st)"

definition e2t_DoDispose :: "oran_st \<Rightarrow> oran_st" where
  "e2t_DoDispose = on_world (upd_e2t (\<lambda>e. e\<lparr>et_nearRtRic := False, et_data := False, et_nodeTerminators := []\<rparr>))"

section \<open>The methods treat the engine well\<close>

lemma e2t_transmit_safe [engine_intro]: "engine_safe (e2t_transmit ev)" "engine_safe (\<lambda>st. e2t_transmit (e st) st)"
  unfolding e2t_transmit_def by (intro engine_intro)+

text \<open>A change of the objects before the rest of a method.\<close>

lemma engine_safe_after_world [engine_intro]:
  "engine_safe g \<Longrightarrow> engine_safe (\<lambda>st. g (on_world (f st) st))"
  by (rule engine_safeI) (auto dest: engine_safeD simp: on_world_def)

lemma ReceiveRegistrationRequest_safe [engine_intro]: "engine_safe (ReceiveRegistrationRequest ty i t)"
proof (rule engine_safeI)
  fix st st'
  assume "ReceiveRegistrationRequest ty i t st = Inr st'"
  then show "engine_ext (snd st) (snd st')"
    by (auto simp: ReceiveRegistrationRequest_def on_world_def
        dest!: engine_safeD [OF e2t_transmit_safe(1)] split: if_splits elim!: res_bind_eq_InrE)
qed

lemma ReceiveDeregistrationRequest_safe [engine_intro]: "engine_safe (ReceiveDeregistrationRequest e)"
proof (rule engine_safeI)
  fix st st'
  assume "ReceiveDeregistrationRequest e st = Inr st'"
  then show "engine_ext (snd st) (snd st')"
    by (auto simp: ReceiveDeregistrationRequest_def on_world_def Let_def
        dest!: engine_safeD [OF e2t_transmit_safe(1)] split: if_splits prod.splits option.splits)
qed

lemma SendCommand_safe [engine_intro]: "engine_safe (SendCommand c)"
proof (rule engine_safeI)
  fix st st'
  assume "SendCommand c st = Inr st'"
  then show "engine_ext (snd st) (snd st')"
    by (auto simp: SendCommand_def on_world_def Let_def
        dest!: engine_safeD [OF e2t_transmit_safe(1)] split: if_splits option.splits)
qed

lemma ProcessCommands_safe [engine_intro]: "engine_safe (ProcessCommands cs)"
  unfolding ProcessCommands_def by (intro engine_intro)

end
