(* ===== verification/Near_Rt_Ric.thy ===== *)
theory Near_Rt_Ric
  imports Ric_E2_Terminator
begin

text \<open>
  The Near-RT RIC (\<open>OranNearRtRic\<close>) and the base class of its logic modules (\<open>OranLm\<close>), which
  call each other: a query cycle runs the logic modules, a logic module that finishes hands its
  commands to the RIC, and the last one makes the RIC filter the commands and send them. Logic module
  \<open>k\<close> is \<open>w_lms w k\<close>. The dispatcher \<open>invoke\<close> calls the method of an event; it meets the contract
  \<open>event_handler\<close>, so the laws of the simulator hold of the whole control loop.
\<close>

section \<open>Logic modules\<close>

definition ric_of :: "oran_st \<Rightarrow> near_rt_ric" where
  "ric_of st = w_ric (fst st)"

definition lm_of :: "oran_st \<Rightarrow> nat \<Rightarrow> oran_lm" where
  "lm_of st k = w_lms (fst st) k"

definition IsRunning :: "nat \<Rightarrow> oran_st \<Rightarrow> bool" where
  "IsRunning k st = IsPending (snd st) (lm_finishRunEvent (lm_of st k))"

definition LogLogicToRepository :: "time \<Rightarrow> near_rt_ric \<Rightarrow> oran_lm \<Rightarrow> string \<Rightarrow> oran_data \<Rightarrow> oran_data res" where
  "LogLogicToRepository now ric lm msg d =
     abort_if (\<not> lm_nearRtRic lm) NullNearRtRic
       (if lm_verbose lm
        then abort_if (\<not> ric_data ric) NullPointer
               (Inr (LogActionLm now (lm_name lm)
                       (seconds_to_string now @ '' -- '' @ lm_name lm @ '' -- '' @ msg) d))
        else Inr d)"

definition noop_Run :: "time \<Rightarrow> near_rt_ric \<Rightarrow> oran_lm \<Rightarrow> oran_data \<Rightarrow> (oran_command list \<times> oran_data) res" where
  "noop_Run now ric lm d =
     abort_if (\<not> lm_nearRtRic lm) NullNearRtRic
       (res_bind (LogLogicToRepository now ric lm ''No action taken'' d) (\<lambda>d1. Inr ([], d1)))"

text \<open>The virtual method \<open>Run()\<close> of a logic module.\<close>

definition logic_Run :: "time \<Rightarrow> near_rt_ric \<Rightarrow> oran_lm \<Rightarrow> lm_static \<Rightarrow> oran_data \<Rightarrow>
    (oran_command list \<times> lm_static \<times> oran_data) res" where
  "logic_Run now ric lm sta d =
     (case lm_class lm of
        OranLmNoop \<Rightarrow> res_bind (noop_Run now ric lm d) (\<lambda>(cs, d1). Inr (cs, sta, d1))
      | Lm_Nr2NrRsrp p \<Rightarrow>
          res_bind (rsrp_Run (lm_active lm) (lm_nearRtRic lm) (lm_verbose lm) (lm_name lm) now p (ls_rsrp sta) d)
            (\<lambda>(cs, s, d1). Inr (cs, sta\<lparr>ls_rsrp := s\<rparr>, d1))
      | Lm_Nr2NrRsrpCellLoad p \<Rightarrow>
          res_bind (load_Run (lm_active lm) (lm_nearRtRic lm) (lm_verbose lm) (lm_name lm) now p (ls_load sta) d)
            (\<lambda>(cs, s, d1). Inr (cs, sta\<lparr>ls_load := s\<rparr>, d1))
      | Lm_Nr2NrRsrpTnNtn p \<Rightarrow>
          res_bind (tn_Run (lm_active lm) (lm_nearRtRic lm) (lm_verbose lm) (lm_name lm) now p (ls_tn sta) d)
            (\<lambda>(cs, s, d1). Inr (cs, sta\<lparr>ls_tn := s\<rparr>, d1))
      | Lm_NrSecrecy p \<Rightarrow>
          res_bind (sec_Run (lm_active lm) (lm_nearRtRic lm) (lm_verbose lm) (lm_name lm) now p (ls_sec sta) d)
            (\<lambda>(cs, s, d1). Inr (cs, sta\<lparr>ls_sec := s\<rparr>, d1))
      | Lm_Lte2LteDistance uninit \<Rightarrow>
          res_bind (distance_Run uninit (lm_active lm) (lm_nearRtRic lm) (lm_verbose lm) (lm_name lm) now d)
            (\<lambda>(cs, d1). Inr (cs, sta, d1))
      | Lm_Lte2LteRsrp uninit \<Rightarrow>
          res_bind (lte_rsrp_Run uninit (lm_active lm) (lm_nearRtRic lm) (lm_verbose lm) (lm_name lm) now d)
            (\<lambda>(cs, d1). Inr (cs, sta, d1))
      | Lm_Nr2NrOnnx session \<Rightarrow>
          res_bind (nr_onnx_Run session (lm_active lm) (lm_nearRtRic lm) (lm_verbose lm) (lm_name lm) now d)
            (\<lambda>(cs, d1). Inr (cs, sta, d1))
      | Lm_Lte2LteOnnx session \<Rightarrow>
          res_bind (lte_onnx_Run session (lm_active lm) (lm_nearRtRic lm) (lm_verbose lm) (lm_name lm) now d)
            (\<lambda>(cs, d1). Inr (cs, sta, d1))
      | Lm_Nr2NrTorch model \<Rightarrow>
          res_bind (nr_torch_Run model (lm_active lm) (lm_nearRtRic lm) (lm_verbose lm) (lm_name lm) now d)
            (\<lambda>(cs, d1). Inr (cs, sta, d1))
      | Lm_Lte2LteTorch model \<Rightarrow>
          res_bind (lte_torch_Run model (lm_active lm) (lm_nearRtRic lm) (lm_verbose lm) (lm_name lm) now d)
            (\<lambda>(cs, d1). Inr (cs, sta, d1))
      | Lm_NrOnnxSecrecy p \<Rightarrow>
          res_bind (osec_Run (lm_active lm) (lm_nearRtRic lm) (lm_name lm) now p (ls_osec sta) d)
            (\<lambda>(cs, s, d1). Inr (cs, sta\<lparr>ls_osec := s\<rparr>, d1)))"

definition lm_Activate :: "nat \<Rightarrow> oran_st \<Rightarrow> oran_st res" where
  "lm_Activate k st =
     abort_if (\<not> lm_nearRtRic (lm_of st k)) NullNearRtRic
       (Inr (on_world (upd_lm k (\<lambda>m. m\<lparr>lm_active := True\<rparr>)) st))"

text \<open>\<open>Run(cycle)\<close>.\<close>

definition lm_Run :: "nat \<Rightarrow> time \<Rightarrow> oran_st \<Rightarrow> oran_st res" where
  "lm_Run k cycle st =
     (let lm = lm_of st k
      in if lm_active lm
         then abort_if (IsRunning k st) LmAlreadyRunning
           (case GetValue (lm_processingDelayRv lm) of (delay, rv') \<Rightarrow>
            res_bind (logic_Run (now_of st) (ric_of st) lm (w_static (fst st)) (data_of st)) (\<lambda>(cs, sta, d).
              sched (if delay < 0 then 0 else delay) (Ev_FinishRun k)
                (\<lambda>eid w. upd_lm k (\<lambda>m. m\<lparr>lm_cycle := cycle, lm_commands := cs, lm_finishRunEvent := eid,
                     lm_processingDelayRv := rv'\<rparr>) (w\<lparr>w_static := sta, w_data := d\<rparr>)) st))
         else Inr st)"

definition cancel_msg :: "oran_lm \<Rightarrow> string" where
  "cancel_msg lm =
     ''Run canceld for cycle '' @ show_int (lm_cycle lm) @ '' with '' @
     show_nat (length (lm_commands lm)) @ '' command(s) lost'' @
     '' {'' @ butlast (concat (map (\<lambda>c. cmd_ToString c @ '','') (lm_commands lm))) @ ''}''"

definition CancelRun :: "nat \<Rightarrow> oran_st \<Rightarrow> oran_st res" where
  "CancelRun k st =
     (let lm = lm_of st k
      in if lm_active lm \<and> IsRunning k st
         then let st1 = cancel_id (lm_finishRunEvent lm) st
              in res_bind (if lm_commands lm \<noteq> []
                           then LogLogicToRepository (now_of st) (ric_of st) lm (cancel_msg lm) (data_of st)
                           else Inr (data_of st))
                   (\<lambda>d. Inr (on_world (upd_lm k (\<lambda>m. m\<lparr>lm_commands := []\<rparr>) \<circ> upd_data (\<lambda>_. d)) st1))
         else Inr st)"

definition lm_Deactivate :: "nat \<Rightarrow> oran_st \<Rightarrow> oran_st res" where
  "lm_Deactivate k st =
     (let st1 = on_world (upd_lm k (\<lambda>m. m\<lparr>lm_active := False\<rparr>)) st
      in if IsRunning k st1 then CancelRun k st1 else Inr st1)"

section \<open>The RIC\<close>

definition ric_Activate :: "oran_st \<Rightarrow> oran_st res" where
  "ric_Activate st =
     abort_if (\<not> ric_e2Terminator (ric_of st)) NullE2Terminator
      (case ric_defaultLm (ric_of st) of
         None \<Rightarrow> Inl NullDefaultLm
       | Some dlm \<Rightarrow>
           abort_if (\<not> ric_cmm (ric_of st)) NullCmm
            (abort_if (\<not> ric_data (ric_of st)) NullData
              (if \<not> ric_active (ric_of st)
               then let st1 = e2t_Activate (on_world (upd_ric (\<lambda>r. r\<lparr>ric_active := True\<rparr>)) st)
                    in res_bind (data_Activate (data_of st1)) (\<lambda>d.
                       res_bind (lm_Activate dlm (on_world (upd_data (\<lambda>_. d)) st1)) (\<lambda>st2.
                       res_bind (res_fold (\<lambda>e. lm_Activate (snd e)) (ric_additionalLms (ric_of st2)) st2) (\<lambda>st3.
                       res_bind (cmm_Activate (w_cmm (fst st3))) (\<lambda>c.
                         Inr (on_world (\<lambda>w. w\<lparr>w_cmm := c\<rparr>) st3)))))
               else Inr st)))"

definition ric_Deactivate :: "oran_st \<Rightarrow> oran_st res" where
  "ric_Deactivate st =
     res_bind
       (if ric_active (ric_of st)
        then abort_if (\<not> ric_e2Terminator (ric_of st)) NullE2Terminator
          (case ric_defaultLm (ric_of st) of
             None \<Rightarrow> Inl NullDefaultLm
           | Some dlm \<Rightarrow>
               abort_if (\<not> ric_cmm (ric_of st)) NullCmm
                (abort_if (\<not> ric_data (ric_of st)) NullData
                  (let st1 = on_world (upd_data data_Deactivate) (e2t_Deactivate st)
                   in res_bind (lm_Deactivate dlm st1) (\<lambda>st2.
                      res_bind (res_fold (\<lambda>e. lm_Deactivate (snd e)) (ric_additionalLms (ric_of st2)) st2) (\<lambda>st3.
                        Inr (on_world (\<lambda>w. w\<lparr>w_cmm := cmm_Deactivate (w_cmm w)\<rparr>) st3))))))
        else Inr st)
       (\<lambda>st1. Inr (on_world (upd_ric (\<lambda>r. r\<lparr>ric_active := False\<rparr>)) st1))"

definition sched_query :: "oran_st \<Rightarrow> oran_st res" where
  "sched_query st =
     sched (ric_lmQueryInterval (ric_of st)) Ev_QueryLms
       (\<lambda>eid. upd_ric (\<lambda>r. r\<lparr>ric_lmQueryEvent := eid\<rparr>)) st"

definition sched_inactivity :: "oran_st \<Rightarrow> oran_st res" where
  "sched_inactivity st =
     (case GetValue (ric_inactivityIntervalRv (ric_of st)) of (delay, rv') \<Rightarrow>
        sched delay Ev_CheckForInactivity
          (\<lambda>eid. upd_ric (\<lambda>r. r\<lparr>ric_inactivityEvent := eid, ric_inactivityIntervalRv := rv'\<rparr>)) st)"

definition ric_Start :: "oran_st \<Rightarrow> oran_st res" where
  "ric_Start st =
     res_bind (ric_Activate st) (\<lambda>st1.
       abort_if (IsPending (snd st1) (ric_lmQueryEvent (ric_of st1))) RicAlreadyStarted
        (abort_if (IsPending (snd st1) (ric_inactivityEvent (ric_of st1))) RicAlreadyStarted
          (res_bind (sched_query st1) sched_inactivity)))"

definition ric_Stop :: "oran_st \<Rightarrow> oran_st res" where
  "ric_Stop st =
     res_bind (ric_Deactivate st) (\<lambda>st1.
     res_bind (Inr (cancel_id (ric_lmQueryEvent (ric_of st1)) st1)) (\<lambda>st2.
     res_bind (Inr (cancel_id (ric_inactivityEvent (ric_of st2)) st2)) (\<lambda>st3.
       Inr (cancel_id (ric_processEvent (ric_of st3)) st3))))"

text \<open>The configuration of the RIC. A name is the key of a logic module or of a query trigger.\<close>

definition SetDefaultLogicModule :: "nat option \<Rightarrow> near_rt_ric \<Rightarrow> near_rt_ric res" where
  "SetDefaultLogicModule newDefaultLm r =
     abort_if (newDefaultLm = None) NullDefaultLm (Inr (r\<lparr>ric_defaultLm := newDefaultLm\<rparr>))"

definition GetAdditionalLogicModule :: "near_rt_ric \<Rightarrow> string \<Rightarrow> nat option" where
  "GetAdditionalLogicModule r name = map_of (ric_additionalLms r) name"

datatype add_lm_result = ADDLM_OK | ADDLM_ERR_NAME_EXISTS

datatype remove_lm_result = DELLM_OK | DELLM_ERR_NAME_INVALID

definition AddLogicModule :: "nat \<Rightarrow> oran_world \<Rightarrow> add_lm_result \<times> oran_world" where
  "AddLogicModule newLm w =
     (let name = lm_name (w_lms w newLm)
      in if map_of (ric_additionalLms (w_ric w)) name = None
         then (ADDLM_OK, upd_ric (\<lambda>r. r\<lparr>ric_additionalLms := smap_upd name newLm (ric_additionalLms r)\<rparr>) w)
         else (ADDLM_ERR_NAME_EXISTS, w))"

definition RemoveLogicModule :: "string \<Rightarrow> oran_world \<Rightarrow> remove_lm_result \<times> oran_world" where
  "RemoveLogicModule name w =
     (if map_of (ric_additionalLms (w_ric w)) name \<noteq> None
      then (DELLM_OK, upd_ric (\<lambda>r. r\<lparr>ric_additionalLms := smap_del name (ric_additionalLms r)\<rparr>) w)
      else (DELLM_ERR_NAME_INVALID, w))"

definition SetCmm :: "oran_cmm option \<Rightarrow> oran_world \<Rightarrow> oran_world res" where
  "SetCmm newCmm w =
     (case newCmm of
        None \<Rightarrow> Inl NullCmm
      | Some c \<Rightarrow> Inr (upd_ric (\<lambda>r. r\<lparr>ric_cmm := True\<rparr>) (w\<lparr>w_cmm := c\<rparr>)))"

definition AddQueryTrigger :: "string \<Rightarrow> (oran_report \<Rightarrow> bool) \<Rightarrow> near_rt_ric \<Rightarrow> bool \<times> near_rt_ric" where
  "AddQueryTrigger name trigger r =
     (if map_of (ric_queryTriggers r) name = None
      then (True, r\<lparr>ric_queryTriggers := smap_upd name trigger (ric_queryTriggers r)\<rparr>)
      else (False, r))"

definition RemoveQueryTrigger :: "string \<Rightarrow> near_rt_ric \<Rightarrow> bool \<times> near_rt_ric" where
  "RemoveQueryTrigger name r =
     (if map_of (ric_queryTriggers r) name \<noteq> None
      then (True, r\<lparr>ric_queryTriggers := smap_del name (ric_queryTriggers r)\<rparr>)
      else (False, r))"

definition noop_QueryLms :: "oran_report \<Rightarrow> bool" where
  "noop_QueryLms report = False"

text \<open>The callback of a custom trigger; the null callback never asks for a query.\<close>

definition custom_QueryLms :: "(oran_report \<Rightarrow> bool) option \<Rightarrow> oran_report \<Rightarrow> bool" where
  "custom_QueryLms customCb report = (case customCb of None \<Rightarrow> False | Some cb \<Rightarrow> cb report)"

text \<open>Destruction: the pointers are cleared and the events cancelled.\<close>

definition lm_DoDispose :: "nat \<Rightarrow> oran_st \<Rightarrow> oran_st" where
  "lm_DoDispose k st =
     cancel_id (lm_finishRunEvent (lm_of st k)) (on_world (upd_lm k (\<lambda>m. m\<lparr>lm_nearRtRic := False\<rparr>)) st)"

definition ric_DoDispose :: "oran_st \<Rightarrow> oran_st" where
  "ric_DoDispose st =
     (let st1 = on_world (upd_ric (\<lambda>r. r\<lparr>ric_e2Terminator := False, ric_data := False, ric_defaultLm := None,
                  ric_additionalLms := []\<rparr>)) st;
          st2 = cancel_id (ric_processEvent (ric_of st1)) (cancel_id (ric_inactivityEvent (ric_of st1))
                  (cancel_id (ric_lmQueryEvent (ric_of st1)) st1))
      in on_world (upd_ric (\<lambda>r. r\<lparr>ric_cmm := False, ric_lmQueryCommands := []\<rparr>)) st2)"

section \<open>The query cycle\<close>

definition ProcessLmQueryCommands :: "oran_st \<Rightarrow> oran_st res" where
  "ProcessLmQueryCommands st =
     (if ric_active (ric_of st)
      then let st1 = cancel_pending (ric_processEvent (ric_of st)) st
           in abort_if (\<not> ric_cmm (ric_of st) \<or> \<not> ric_e2Terminator (ric_of st)) NullPointer
             (res_bind (Filter (now_of st1) (w_cmm (fst st1)) (ric_lmQueryCommands (ric_of st1)) (data_of st1))
              (\<lambda>(cs, c, d).
               res_bind (ProcessCommands cs (on_world (\<lambda>w. w\<lparr>w_cmm := c, w_data := d\<rparr>) st1)) (\<lambda>st2.
                 Inr (on_world (upd_ric (\<lambda>r. r\<lparr>ric_lmQueryCommands := []\<rparr>)) st2))))
      else Inr st)"

text \<open>Whether the commands of the cycle are still awaited.\<close>

definition awaiting :: "oran_st \<Rightarrow> bool" where
  "awaiting st \<longleftrightarrow> IsPending (snd st) (ric_processEvent (ric_of st)) \<or> ric_lmQueryMaxWaitTime (ric_of st) = 0"

definition lm_key :: "oran_st \<Rightarrow> nat \<Rightarrow> string \<times> bool" where
  "lm_key st k = (lm_name (lm_of st k), ric_defaultLm (ric_of st) = Some k)"

definition append_commands :: "string \<times> bool \<Rightarrow> oran_command list \<Rightarrow> lm_commands \<Rightarrow> lm_commands" where
  "append_commands key cs q = smap_upd key (smap_get [] q key @ cs) q"

definition collect_commands :: "string \<times> bool \<Rightarrow> bool \<Rightarrow> late_policy \<Rightarrow> oran_command list \<Rightarrow> lm_commands \<Rightarrow> lm_commands" where
  "collect_commands key in_time policy cs q0 =
     (let q = (if map_of q0 key \<noteq> None then smap_upd key [] q0 else q0)
      in if in_time then append_commands key cs q
         else (case policy of DROP \<Rightarrow> q | SAVE \<Rightarrow> append_commands key cs q))"

definition NotifyLmFinished :: "time \<Rightarrow> oran_command list \<Rightarrow> nat \<Rightarrow> oran_st \<Rightarrow> oran_st res" where
  "NotifyLmFinished cycle commands k st =
     abort_if (cycle \<noteq> ric_lmQueryCycle (ric_of st)) UnexpectedCycle
       (let st1 = on_world (upd_ric (\<lambda>r. r\<lparr>ric_lmQueryCommands :=
              collect_commands (lm_key st k) (awaiting st) (ric_lateCommandPolicy r) commands
                (ric_lmQueryCommands r)\<rparr>)) st
        in if length (ric_lmQueryCommands (ric_of st1)) = length (ric_additionalLms (ric_of st1)) + 1 \<and>
              awaiting st1
           then ProcessLmQueryCommands st1 else Inr st1)"

definition FinishRun :: "nat \<Rightarrow> oran_st \<Rightarrow> oran_st res" where
  "FinishRun k st =
     (let lm = lm_of st k
      in if lm_active lm
         then abort_if (\<not> lm_nearRtRic lm) NullNearRtRic
           (res_bind (NotifyLmFinished (lm_cycle lm) (lm_commands lm) k st) (\<lambda>st1.
              Inr (on_world (upd_lm k (\<lambda>m. m\<lparr>lm_commands := []\<rparr>)) st1)))
         else Inr st)"

definition inactive_ids :: "time \<Rightarrow> time \<Rightarrow> (uint64 \<times> time) list \<Rightarrow> uint64 list" where
  "inactive_ids now threshold lastRegistrations =
     map fst (filter (\<lambda>e. now - snd e > threshold) lastRegistrations)"

definition CheckForInactivity :: "oran_st \<Rightarrow> oran_st res" where
  "CheckForInactivity st =
     (if ric_active (ric_of st)
      then abort_if (\<not> ric_data (ric_of st)) NullData
        (abort_if (\<not> ric_e2Terminator (ric_of st)) NullE2Terminator
          (res_bind (res_fold ReceiveDeregistrationRequest
                       (inactive_ids (now_of st) (ric_inactivityThreshold (ric_of st))
                          (GetLastRegistrationRequests (data_of st))) st) (\<lambda>st1.
           res_bind (Inr (cancel_pending (ric_inactivityEvent (ric_of st1)) st1)) sched_inactivity)))
      else Inr st)"

text \<open>A logic module that is still running is stopped before it runs again.\<close>

definition query_lm :: "nat \<Rightarrow> oran_st \<Rightarrow> oran_st res" where
  "query_lm k st =
     res_bind (if IsRunning k st then CancelRun k st else Inr st) (\<lambda>st1.
       lm_Run k (ric_lmQueryCycle (ric_of st1)) st1)"

definition sched_process :: "oran_st \<Rightarrow> oran_st res" where
  "sched_process st =
     (if ric_lmQueryMaxWaitTime (ric_of st) > 0
      then sched (ric_lmQueryMaxWaitTime (ric_of st)) Ev_ProcessLmQueryCommands
             (\<lambda>eid. upd_ric (\<lambda>r. r\<lparr>ric_processEvent := eid\<rparr>)) st
      else Inr st)"

definition QueryLms :: "oran_st \<Rightarrow> oran_st res" where
  "QueryLms st =
     (if ric_active (ric_of st)
      then abort_if (\<not> ric_e2Terminator (ric_of st)) NullE2Terminator
       (case ric_defaultLm (ric_of st) of
          None \<Rightarrow> Inl NullDefaultLm
        | Some dlm \<Rightarrow>
            abort_if (\<not> ric_cmm (ric_of st)) NullCmm
             (abort_if (\<not> ric_data (ric_of st)) NullData
               (res_bind (Inr (on_world (upd_ric (\<lambda>r. r\<lparr>ric_lmQueryCycle := now_of st\<rparr>)) st)) (\<lambda>st0.
                res_bind (CheckForInactivity st0) (\<lambda>st1.
                res_bind (sched_process st1) (\<lambda>st2.
                res_bind (query_lm dlm st2) (\<lambda>st3.
                res_bind (res_fold (\<lambda>e. query_lm (snd e)) (ric_additionalLms (ric_of st3)) st3)
                  sched_query)))))))
      else Inr st)"

definition NotifyReportReceived :: "oran_report \<Rightarrow> oran_st \<Rightarrow> oran_st res" where
  "NotifyReportReceived report st =
     (if (\<exists>t\<in>set (ric_queryTriggers (ric_of st)). snd t report)
      then QueryLms (cancel_pending (ric_lmQueryEvent (ric_of st)) st)
      else Inr st)"

definition ReceiveReport :: "oran_report \<Rightarrow> oran_st \<Rightarrow> oran_st res" where
  "ReceiveReport report st =
     (if et_active (e2t_of st)
      then abort_if (\<not> et_data (e2t_of st)) NullData
        (let st1 = on_world (upd_data (save_report report)) st
         in abort_if (\<not> et_nearRtRic (e2t_of st1)) NullPointer (NotifyReportReceived report st1))
      else Inr st)"

section \<open>The dispatcher\<close>

definition invoke :: "oran_event \<Rightarrow> oran_st \<Rightarrow> oran_st res" where
  "invoke ev st =
     (case ev of
        Ev_QueryLms \<Rightarrow> QueryLms st
      | Ev_CheckForInactivity \<Rightarrow> CheckForInactivity st
      | Ev_ProcessLmQueryCommands \<Rightarrow> ProcessLmQueryCommands st
      | Ev_FinishRun k \<Rightarrow> FinishRun k st
      | Ev_ReceiveRegistrationRequest ty i t \<Rightarrow> ReceiveRegistrationRequest ty i t st
      | Ev_ReceiveDeregistrationRequest i \<Rightarrow> ReceiveDeregistrationRequest i st
      | Ev_ReceiveReport r \<Rightarrow> ReceiveReport r st
      | Ev_ReceiveRegistrationResponse i e \<Rightarrow> ReceiveRegistrationResponse i e st
      | Ev_ReceiveDeregistrationResponse i e \<Rightarrow> ReceiveDeregistrationResponse i e st
      | Ev_ReceiveCommand i c \<Rightarrow> ReceiveCommand i c st
      | Ev_Register i \<Rightarrow> Register i st
      | Ev_DoSendReports i \<Rightarrow> DoSendReports i st
      | Ev_TriggerReport i j \<Rightarrow> TriggerReport i j st
      | Ev_Trace i j inp \<Rightarrow> ReceiveTrace i j inp st
      | Ev_TraceSink i j \<Rightarrow> TraceSink i j st)"

section \<open>The methods treat the engine well\<close>

text \<open>A cancellation before the rest of a method, and a method that is an option of an object.\<close>

lemma engine_safe_after_cancel [engine_intro]:
  assumes "engine_safe g"
  shows "engine_safe (\<lambda>st. g (cancel_pending (e st) st))" and "engine_safe (\<lambda>st. g (cancel_id (e st) st))"
proof -
  have *: "engine_ext (snd st) (snd st')" if "g (cancel_id eid st) = Inr st'" for eid st st'
    using engine_safeD [OF assms that] engine_ext_Cancel [of "snd st" eid]
    by (auto simp: cancel_id_def intro: engine_ext_trans)
  show "engine_safe (\<lambda>st. g (cancel_id (e st) st))" by (rule engine_safeI) (rule *)
  show "engine_safe (\<lambda>st. g (cancel_pending (e st) st))"
    by (rule engine_safeI) (auto simp: cancel_pending_def split: if_splits intro: * engine_safeD [OF assms])
qed

lemma lm_Activate_safe [engine_intro]: "engine_safe (lm_Activate k)"
  unfolding lm_Activate_def by (intro engine_intro)

lemma lm_Run_safe [engine_intro]: "engine_safe (lm_Run k c)" "engine_safe (\<lambda>st. lm_Run k (f st) st)"
  unfolding lm_Run_def Let_def by (intro engine_intro engine_safe_query)+

lemma CancelRun_safe [engine_intro]: "engine_safe (CancelRun k)"
  unfolding CancelRun_def Let_def
  by (intro engine_intro engine_safe_query engine_safe_after_cancel(2) [where g = "\<lambda>st. Inr (on_world (f x) st)" for f x])

lemma lm_Deactivate_safe [engine_intro]: "engine_safe (lm_Deactivate k)"
  unfolding lm_Deactivate_def Let_def by (intro engine_intro)

lemma e2t_active_safe [engine_intro]: "engine_safe g \<Longrightarrow> engine_safe (\<lambda>st. g (e2t_Activate st))"
  "engine_safe g \<Longrightarrow> engine_safe (\<lambda>st. g (e2t_Deactivate st))"
  unfolding e2t_Activate_def e2t_Deactivate_def by (intro engine_intro; assumption)+

lemma ric_Activate_safe [engine_intro]: "engine_safe ric_Activate"
  unfolding ric_Activate_def Let_def by (intro engine_intro engine_safe_query)

lemma ric_Deactivate_safe [engine_intro]: "engine_safe ric_Deactivate"
  unfolding ric_Deactivate_def Let_def by (intro engine_intro)

lemma sched_query_safe [engine_intro]: "engine_safe sched_query"
  by (rule engine_safe_unfold [OF sched_query_def]) (intro engine_intro)

lemma sched_inactivity_safe [engine_intro]: "engine_safe sched_inactivity"
  by (rule engine_safe_unfold [OF sched_inactivity_def]) (intro engine_intro)

lemma sched_process_safe [engine_intro]: "engine_safe sched_process"
  by (rule engine_safe_unfold [OF sched_process_def]) (intro engine_intro)

lemma ric_Start_safe: "engine_safe ric_Start"
  by (rule engine_safe_unfold [OF ric_Start_def]) (intro engine_intro)

lemma ric_Stop_safe: "engine_safe ric_Stop"
  by (rule engine_safe_unfold [OF ric_Stop_def]) (intro engine_intro)

lemma ProcessLmQueryCommands_safe [engine_intro]: "engine_safe ProcessLmQueryCommands"
  unfolding ProcessLmQueryCommands_def Let_def by (intro engine_intro engine_safe_query)

lemma NotifyLmFinished_safe [engine_intro]:
  "engine_safe (NotifyLmFinished c cs k)" "engine_safe (\<lambda>st. NotifyLmFinished (f st) (g st) k st)"
  unfolding NotifyLmFinished_def Let_def by (intro engine_intro)+

lemma FinishRun_safe [engine_intro]: "engine_safe (FinishRun k)"
  unfolding FinishRun_def Let_def by (intro engine_intro)

lemma CheckForInactivity_safe [engine_intro]: "engine_safe CheckForInactivity"
  by (rule engine_safe_unfold [OF CheckForInactivity_def]) (intro engine_intro)

lemma query_lm_safe [engine_intro]: "engine_safe (query_lm k)"
  by (rule engine_safe_unfold [OF query_lm_def]) (intro engine_intro)

lemma QueryLms_safe [engine_intro]: "engine_safe QueryLms"
  by (rule engine_safe_unfold [OF QueryLms_def]) (intro engine_intro)

lemma NotifyReportReceived_safe [engine_intro]: "engine_safe (NotifyReportReceived r)"
  unfolding NotifyReportReceived_def by (intro engine_intro)

lemma ReceiveReport_safe [engine_intro]: "engine_safe (ReceiveReport r)"
  unfolding ReceiveReport_def Let_def by (intro engine_intro)

lemma invoke_safe: "engine_safe (invoke ev)"
  unfolding invoke_def by (cases ev) (simp_all add: engine_intro)

text \<open>The control loop is a client of the event engine: its contract holds of the dispatcher.\<close>

interpretation control: event_handler invoke
  by (rule engine_safe_handler) (rule invoke_safe)

end
