(* ===== verification/Ric_Laws.thy ===== *)
theory Ric_Laws
  imports Near_Rt_Ric
begin

text \<open>
  The laws of the control loop of the Near-RT RIC: a query cycle of a configured RIC returns and
  leaves the next one pending, the check for inactivity deregisters exactly the nodes that are silent
  for longer than the threshold, the commands of a cycle do not depend on the order in which the logic
  modules finish, and a stopped RIC stays silent. The predicate \<open>progress\<close> composes methods that
  return; the locale \<open>logic_module\<close> is what the RIC relies on when it runs a logic module.
\<close>

section \<open>Methods that return\<close>

definition room :: "nat \<Rightarrow> oran_st \<Rightarrow> bool" where
  "room c st \<longleftrightarrow> m_nextImpl (snd st) + c + UID_VALID < 2 ^ 32"

text \<open>What every step of the engine keeps: the events that were created exist.\<close>

definition grows :: "oran_event simulator \<Rightarrow> oran_event simulator \<Rightarrow> bool" where
  "grows s s' \<longleftrightarrow> (\<forall>a. m_impls s a \<noteq> None \<longrightarrow> m_impls s' a \<noteq> None)"

definition ev_known :: "oran_event simulator \<Rightarrow> event_id \<Rightarrow> bool" where
  "ev_known s e \<longleftrightarrow> (case id_impl e of None \<Rightarrow> True | Some a \<Rightarrow> m_impls s a \<noteq> None)"

lemma ev_known_grows: "ev_known s e \<Longrightarrow> grows s s' \<Longrightarrow> ev_known s' e"
  by (simp add: ev_known_def grows_def split: option.splits)

lemma ev_known_EventId [simp]: "ev_known s EventId"
  by (simp add: ev_known_def EventId_def)

lemma Cancel_grows: "grows s (Cancel e s)"
  by (auto simp: grows_def Cancel_def impl_Cancel_def split: option.splits)

lemma Cancel_known_not_pending: "ev_known s e \<Longrightarrow> \<not> IsPending (Cancel e s) e"
  by (auto simp: ev_known_def IsPending_def Cancel_def IsExpired_def IsCancelled_def impl_Cancel_def
      split: option.splits if_splits)

text \<open>A method that returns from every state of \<open>P\<close>, in a state of \<open>P\<close>, with at most \<open>c\<close> new events.\<close>

definition progress :: "(oran_st \<Rightarrow> bool) \<Rightarrow> nat \<Rightarrow> (oran_st \<Rightarrow> oran_st res) \<Rightarrow> bool" where
  "progress P c f \<longleftrightarrow>
     (\<forall>st. P st \<longrightarrow> sim_inv (snd st) \<longrightarrow> room c st \<longrightarrow>
        (\<exists>st'. f st = Inr st' \<and> P st' \<and> sim_inv (snd st') \<and> m_nextImpl (snd st') \<le> m_nextImpl (snd st) + c))"

lemma progressI:
  "(\<And>st. P st \<Longrightarrow> sim_inv (snd st) \<Longrightarrow> room c st \<Longrightarrow>
      \<exists>st'. f st = Inr st' \<and> P st' \<and> sim_inv (snd st') \<and> m_nextImpl (snd st') \<le> m_nextImpl (snd st) + c) \<Longrightarrow>
    progress P c f"
  unfolding progress_def by blast

lemma progressE:
  assumes "progress P c f" and "P st" and "sim_inv (snd st)" and "room (c + r) st"
  obtains st' where "f st = Inr st'" and "P st'" and "sim_inv (snd st')" and "room r st'"
    and "m_nextImpl (snd st') \<le> m_nextImpl (snd st) + c"
proof -
  have "room c st" using assms(4) by (simp add: room_def)
  with assms obtain st' where st': "f st = Inr st'" "P st'" "sim_inv (snd st')"
    "m_nextImpl (snd st') \<le> m_nextImpl (snd st) + c" unfolding progress_def by blast
  have "room r st'" using assms(4) st'(4) by (simp add: room_def)
  with st' show thesis by (intro that)
qed

lemma progress_mono: "progress P c f \<Longrightarrow> c \<le> c' \<Longrightarrow> progress P c' f"
  unfolding progress_def room_def by (meson add_le_mono1 add_left_mono le_less_trans le_trans)

lemma progress_Inr: "progress P c Inr"
  unfolding progress_def by simp

lemma progress_world: "(\<And>st. P st \<Longrightarrow> P (on_world (g st) st)) \<Longrightarrow> progress P 0 (\<lambda>st. Inr (on_world (g st) st))"
  unfolding progress_def by (simp add: on_world_def)

definition stable :: "(oran_st \<Rightarrow> bool) \<Rightarrow> bool" where
  "stable P \<longleftrightarrow> (\<forall>w s s'. P (w, s) \<longrightarrow> grows s s' \<longrightarrow> P (w, s'))"

lemma progress_cancel: "stable P \<Longrightarrow> progress P 0 (\<lambda>st. Inr (cancel_id (e st) st))"
  unfolding progress_def cancel_id_def stable_def using Cancel_inv Cancel_grows by fastforce

lemma progress_cancel_pending: "stable P \<Longrightarrow> progress P 0 (\<lambda>st. Inr (cancel_pending (e st) st))"
  unfolding progress_def cancel_id_def cancel_pending_def stable_def using Cancel_inv Cancel_grows by fastforce

lemma sched_known:
  assumes "sched delay ev k st = Inr st'"
  obtains eid where "fst st' = k eid (fst st)" and "grows (snd st) (snd st')" and "ev_known (snd st') eid"
proof -
  from assms obtain eid s' where S: "Schedule delay ev (snd st) = Inr (eid, s')" and st': "st' = (k eid (fst st), s')"
    by (auto simp: sched_def)
  have "id_impl eid = Some (m_nextImpl (snd st))"
    using S by (auto simp: Schedule_def insert_event_def Let_def map_Insert_def abort_if_def split: if_splits)
  then show thesis
    using that [of eid] sched_impls(2) [OF assms] by (simp add: st' grows_def ev_known_def)
qed

lemma progress_sched:
  assumes "\<And>st. P st \<Longrightarrow> 0 \<le> delay st"
    and "\<And>st eid s'. P st \<Longrightarrow> grows (snd st) s' \<Longrightarrow> ev_known s' eid \<Longrightarrow> P (k st eid (fst st), s')"
  shows "progress P 1 (\<lambda>st. sched (delay st) (ev st) (k st) st)"
proof (rule progressI)
  fix st
  assume P: "P st" and inv: "sim_inv (snd st)" and rm: "room 1 st"
  have "Suc (m_nextImpl (snd st)) + UID_VALID < 2 ^ 32" using rm by (simp add: room_def)
  from sched_total [OF inv assms(1) [OF P] this, of "ev st" "k st"] obtain st' where
    st': "sched (delay st) (ev st) (k st) st = Inr st'" "sim_inv (snd st')"
      "m_nextImpl (snd st') = Suc (m_nextImpl (snd st))" by metis
  from sched_known [OF st'(1)] assms(2) [OF P] have "P st'" by (metis prod.collapse)
  with st' show "\<exists>st'. sched (delay st) (ev st) (k st) st = Inr st' \<and> P st' \<and> sim_inv (snd st') \<and>
      m_nextImpl (snd st') \<le> m_nextImpl (snd st) + 1"
    by auto
qed

lemma progress_bind:
  assumes "progress P c f" and "\<And>st0. progress P c' (g st0)"
  shows "progress P (c + c') (\<lambda>st. res_bind (f st) (g st))"
proof (rule progressI)
  fix st
  assume st: "P st" "sim_inv (snd st)" "room (c + c') st"
  then have "room c st" by (simp add: room_def)
  with st assms(1) obtain st1 where st1: "f st = Inr st1" "P st1" "sim_inv (snd st1)"
    "m_nextImpl (snd st1) \<le> m_nextImpl (snd st) + c" unfolding progress_def by blast
  have "room c' st1" using st(3) st1(4) by (simp add: room_def)
  with st1 assms(2) [of st] obtain st' where "g st st1 = Inr st'" "P st'" "sim_inv (snd st')"
    "m_nextImpl (snd st') \<le> m_nextImpl (snd st1) + c'" unfolding progress_def by blast
  then show "\<exists>st'. res_bind (f st) (g st) = Inr st' \<and> P st' \<and> sim_inv (snd st') \<and>
      m_nextImpl (snd st') \<le> m_nextImpl (snd st) + (c + c')"
    using st1 by auto
qed

text \<open>A method that agrees in each state with one that returns.\<close>

lemma progress_like:
  assumes "\<And>st. P st \<Longrightarrow> \<exists>g. progress P c g \<and> f st = g st"
  shows "progress P c f"
proof (rule progressI)
  fix st
  assume st: "P st" "sim_inv (snd st)" "room c st"
  from assms [OF st(1)] obtain g where "progress P c g" "f st = g st" by blast
  with st show "\<exists>st'. f st = Inr st' \<and> P st' \<and> sim_inv (snd st') \<and>
      m_nextImpl (snd st') \<le> m_nextImpl (snd st) + c"
    unfolding progress_def by metis
qed

lemma progress_if:
  "progress P c f \<Longrightarrow> progress P c g \<Longrightarrow> progress P c (\<lambda>st. if b st then f st else g st)"
  unfolding progress_def by simp

lemma progress_abort:
  "(\<And>st. P st \<Longrightarrow> \<not> b st) \<Longrightarrow> progress P c f \<Longrightarrow> progress P c (\<lambda>st. abort_if (b st) e (f st))"
  unfolding progress_def by (simp add: abort_if_def)

lemma progress_fold:
  assumes "\<And>x. x \<in> set xs \<Longrightarrow> progress P 1 (f x)"
  shows "progress P (length xs) (res_fold f xs)"
  using assms
proof (induction xs)
  case (Cons x xs)
  have "progress P (1 + length xs) (\<lambda>st. res_bind (f x st) (res_fold f xs))"
    by (rule progress_bind) (use Cons in auto)
  then show ?case by simp
qed (simp add: progress_def)

section \<open>The contract of a logic module\<close>

text \<open>
  What the RIC relies on: with the pointers set, a logic module returns, and it writes nothing to the
  repository but its own log. The secrecy-aware modules may abort, so only the second law is their own; an
  ONNX classifier must give an output.
\<close>

definition lm_can_run :: "oran_lm \<Rightarrow> bool" where
  "lm_can_run lm \<longleftrightarrow> lm_nearRtRic lm \<and> (case lm_class lm of
     Lm_NrSecrecy _ \<Rightarrow> False
   | Lm_NrOnnxSecrecy _ \<Rightarrow> False
   | Lm_Nr2NrOnnx session \<Rightarrow> \<forall>v. session v \<noteq> []
   | Lm_Lte2LteOnnx session \<Rightarrow> \<forall>v. session v \<noteq> []
   | _ \<Rightarrow> True)"

lemma lm_can_run_updates [simp]:
  "lm_can_run (lm\<lparr>lm_commands := cs\<rparr>) = lm_can_run lm"
  "lm_can_run (lm\<lparr>lm_cycle := c\<rparr>) = lm_can_run lm"
  "lm_can_run (lm\<lparr>lm_finishRunEvent := eid\<rparr>) = lm_can_run lm"
  "lm_can_run (lm\<lparr>lm_processingDelayRv := rv\<rparr>) = lm_can_run lm"
  by (simp_all add: lm_can_run_def)

lemma lm_can_run_ric: "lm_can_run lm \<Longrightarrow> lm_nearRtRic lm"
  by (simp add: lm_can_run_def)

locale logic_module =
  fixes run :: "time \<Rightarrow> near_rt_ric \<Rightarrow> oran_lm \<Rightarrow> lm_static \<Rightarrow> oran_data \<Rightarrow>
      (oran_command list \<times> lm_static \<times> oran_data) res"
  assumes returns: "lm_can_run lm \<Longrightarrow> ric_data ric \<Longrightarrow> \<exists>out. run now ric lm sta d = Inr out"
    and logs_only: "run now ric lm sta d = Inr (cs, sta', d') \<Longrightarrow> only_lm_log d d'"
begin

lemma keeps_registrations:
  "run now ric lm sta d = Inr (cs, sta', d') \<Longrightarrow> IsNodeRegistered d' n = IsNodeRegistered d n"
  using IsNodeRegistered_lm_log logs_only by blast

lemma run_cases:
  assumes "lm_can_run lm" and "ric_data ric"
  obtains cs sta' d' where "run now ric lm sta d = Inr (cs, sta', d')" and "only_lm_log d d'"
  using returns [OF assms, of now sta d] logs_only by (metis surj_pair)

end

lemma LogLogicToRepository_total:
  assumes "lm_nearRtRic lm" and "ric_data ric"
  shows "\<exists>d'. LogLogicToRepository now ric lm msg d = Inr d' \<and> only_lm_log d d'"
  using assms by (auto simp: LogLogicToRepository_def only_lm_log_def LogActionLm_eq
      intro: exI [of _ "[]"] lm_log_append_Nil [symmetric])

lemma LogLogicToRepository_log:
  "LogLogicToRepository now ric lm msg d = Inr d' \<Longrightarrow> only_lm_log d d'"
  by (auto simp: LogLogicToRepository_def only_lm_log_def LogActionLm_eq split: if_splits
      intro: lm_log_append_Nil [symmetric])

interpretation noop_lm: logic_module "\<lambda>now ric lm sta d. res_bind (noop_Run now ric lm d) (\<lambda>(cs, d1). Inr (cs, sta, d1))"
proof unfold_locales
  show "\<exists>out. res_bind (noop_Run now ric lm d) (\<lambda>(cs, d1). Inr (cs, sta, d1)) = Inr out"
    if "lm_can_run lm" "ric_data ric" for now ric lm sta d
    using LogLogicToRepository_total [OF lm_can_run_ric [OF that(1)] that(2), of now "''No action taken''" d] that
    by (auto simp: noop_Run_def lm_can_run_def)
  show "only_lm_log d d'"
    if "res_bind (noop_Run now ric lm d) (\<lambda>(cs, d1). Inr (cs, sta, d1)) = Inr (cs, sta', d')"
    for now ric lm sta d cs sta' d'
    using that by (auto simp: noop_Run_def dest: LogLogicToRepository_log)
qed

interpretation rsrp_lm: logic_module
  "\<lambda>now ric lm sta d. res_bind (rsrp_Run (lm_active lm) (lm_nearRtRic lm) (lm_verbose lm) (lm_name lm) now p (ls_rsrp sta) d)
     (\<lambda>(cs, s, d1). Inr (cs, sta\<lparr>ls_rsrp := s\<rparr>, d1))"
  for p
  by unfold_locales (auto simp: rsrp_Run_def GetHandoverCommands_def Let_def ho_end_log lm_can_run_def split: if_splits)

interpretation load_lm: logic_module
  "\<lambda>now ric lm sta d. res_bind (load_Run (lm_active lm) (lm_nearRtRic lm) (lm_verbose lm) (lm_name lm) now p (ls_load sta) d)
     (\<lambda>(cs, s, d1). Inr (cs, sta\<lparr>ls_load := s\<rparr>, d1))"
  for p
proof unfold_locales
  show "\<exists>out. res_bind (load_Run (lm_active lm) (lm_nearRtRic lm) (lm_verbose lm) (lm_name lm) now p (ls_load sta) d)
      (\<lambda>(cs, s, d1). Inr (cs, sta\<lparr>ls_load := s\<rparr>, d1)) = Inr out" if "lm_can_run lm" for now lm sta d
    using that by (simp add: load_Run_def lm_can_run_def split: prod.splits)
qed (auto dest: load_Run_log)

interpretation tn_lm: logic_module
  "\<lambda>now ric lm sta d. res_bind (tn_Run (lm_active lm) (lm_nearRtRic lm) (lm_verbose lm) (lm_name lm) now p (ls_tn sta) d)
     (\<lambda>(cs, s, d1). Inr (cs, sta\<lparr>ls_tn := s\<rparr>, d1))"
  for p
proof unfold_locales
  show "\<exists>out. res_bind (tn_Run (lm_active lm) (lm_nearRtRic lm) (lm_verbose lm) (lm_name lm) now p (ls_tn sta) d)
      (\<lambda>(cs, s, d1). Inr (cs, sta\<lparr>ls_tn := s\<rparr>, d1)) = Inr out" if "lm_can_run lm" for now lm sta d
    using that by (simp add: tn_Run_def lm_can_run_def split: prod.splits)
qed (auto dest: tn_Run_log)

interpretation distance_lm: logic_module
  "\<lambda>now ric lm sta d. res_bind (distance_Run uninit (lm_active lm) (lm_nearRtRic lm) (lm_verbose lm) (lm_name lm) now d)
     (\<lambda>(cs, d1). Inr (cs, sta, d1))"
  for uninit
proof unfold_locales
  show "\<exists>out. res_bind (distance_Run uninit (lm_active lm) (lm_nearRtRic lm) (lm_verbose lm) (lm_name lm) now d)
      (\<lambda>(cs, d1). Inr (cs, sta, d1)) = Inr out" if "lm_can_run lm" for now lm sta d
    using that by (simp add: distance_Run_def lm_can_run_def split: prod.splits)
qed (auto dest: distance_Run_log)

interpretation lte_rsrp_lm: logic_module
  "\<lambda>now ric lm sta d. res_bind (lte_rsrp_Run uninit (lm_active lm) (lm_nearRtRic lm) (lm_verbose lm) (lm_name lm) now d)
     (\<lambda>(cs, d1). Inr (cs, sta, d1))"
  for uninit
proof unfold_locales
  show "\<exists>out. res_bind (lte_rsrp_Run uninit (lm_active lm) (lm_nearRtRic lm) (lm_verbose lm) (lm_name lm) now d)
      (\<lambda>(cs, d1). Inr (cs, sta, d1)) = Inr out" if "lm_can_run lm" for now lm sta d
    using that by (simp add: lte_rsrp_Run_def lm_can_run_def split: prod.splits)
qed (auto dest: lte_rsrp_Run_log)

interpretation ml_lm: logic_module
  "\<lambda>now ric lm sta d. res_bind (ml_Run t (\<lambda>v. Inr (classify v)) (lm_active lm) (lm_nearRtRic lm) (lm_verbose lm) (lm_name lm) now d)
     (\<lambda>(cs, d1). Inr (cs, sta, d1))"
  for t classify
proof unfold_locales
  show "\<exists>out. res_bind (ml_Run t (\<lambda>v. Inr (classify v)) (lm_active lm) (lm_nearRtRic lm) (lm_verbose lm) (lm_name lm) now d)
      (\<lambda>(cs, d1). Inr (cs, sta, d1)) = Inr out" if "lm_can_run lm" for now lm sta d
    using ml_Run_returns [of "\<lambda>v. Inr (classify v)" t "lm_active lm" "lm_verbose lm" "lm_name lm" now d]
      lm_can_run_ric [OF that] by auto
qed (auto dest: ml_Run_log)

lemma onnx_total: "\<forall>v. session v \<noteq> [] \<Longrightarrow> \<exists>c. onnx_configuration session = (\<lambda>v. Inr (c v))"
  using onnx_configuration_returns [of session] by metis

lemmas ml_Run_defs = nr_onnx_Run_def lte_onnx_Run_def nr_torch_Run_def lte_torch_Run_def

lemma learned_returns:
  assumes "lm_can_run lm" and "ric_data ric"
  shows "lm_class lm = Lm_Nr2NrOnnx session \<Longrightarrow> \<exists>out. logic_Run now ric lm sta d = Inr out"
    and "lm_class lm = Lm_Lte2LteOnnx session \<Longrightarrow> \<exists>out. logic_Run now ric lm sta d = Inr out"
    and "lm_class lm = Lm_Nr2NrTorch model \<Longrightarrow> \<exists>out. logic_Run now ric lm sta d = Inr out"
    and "lm_class lm = Lm_Lte2LteTorch model \<Longrightarrow> \<exists>out. logic_Run now ric lm sta d = Inr out"
proof -
  have tot: "\<exists>c. onnx_configuration session = (\<lambda>v. Inr (c v))"
    if "lm_class lm = Lm_Nr2NrOnnx session \<or> lm_class lm = Lm_Lte2LteOnnx session"
    using assms(1) that by (intro onnx_total) (auto simp: lm_can_run_def)
  have torch: "torch_configuration model = (\<lambda>v. Inr (model v))" by (simp add: fun_eq_iff torch_configuration_def)
  note ret = ml_lm.returns [OF assms, of _ _ now d sta]
  show "\<exists>out. logic_Run now ric lm sta d = Inr out" if "lm_class lm = Lm_Nr2NrOnnx session"
    using tot that ret by (auto simp: logic_Run_def ml_Run_defs)
  show "\<exists>out. logic_Run now ric lm sta d = Inr out" if "lm_class lm = Lm_Lte2LteOnnx session"
    using tot that ret by (auto simp: logic_Run_def ml_Run_defs)
  show "\<exists>out. logic_Run now ric lm sta d = Inr out" if "lm_class lm = Lm_Nr2NrTorch model"
    using that ret by (simp add: logic_Run_def ml_Run_defs torch)
  show "\<exists>out. logic_Run now ric lm sta d = Inr out" if "lm_class lm = Lm_Lte2LteTorch model"
    using that ret by (simp add: logic_Run_def ml_Run_defs torch)
qed

interpretation lm: logic_module logic_Run
proof unfold_locales
  show "\<exists>out. logic_Run now ric lm sta d = Inr out" if "lm_can_run lm" "ric_data ric" for now ric lm sta d
    using noop_lm.returns [OF that] rsrp_lm.returns [OF that] distance_lm.returns [OF that]
      lte_rsrp_lm.returns [OF that] load_lm.returns [OF that] tn_lm.returns [OF that] learned_returns [OF that] that(1)
    by (cases "lm_class lm") (simp_all add: logic_Run_def lm_can_run_def)
  show "only_lm_log d d'" if "logic_Run now ric lm sta d = Inr (cs, sta', d')" for now ric lm sta d cs sta' d'
    using that noop_lm.logs_only [of now ric lm d sta] rsrp_lm.logs_only [of lm now _ sta d] load_lm.logs_only [of lm now _ sta d]
      tn_lm.logs_only [of lm now _ sta d] distance_lm.logs_only [of _ lm now d sta] lte_rsrp_lm.logs_only [of _ lm now d sta]
    by (cases "lm_class lm") (auto simp: logic_Run_def ml_Run_defs dest: sec_Run_log osec_Run_log ml_Run_log)
qed

section \<open>A configured RIC\<close>

definition ric_lms :: "near_rt_ric \<Rightarrow> nat set" where
  "ric_lms r = set_option (ric_defaultLm r) \<union> snd ` set (ric_additionalLms r)"

text \<open>
  The pointers are set, also those of the logic modules, which cannot abort, and no delay is negative (which
  \<open>Simulator::Schedule\<close> asserts).
\<close>

definition ric_ready :: "oran_world \<Rightarrow> bool" where
  "ric_ready w \<longleftrightarrow>
     ric_e2Terminator (w_ric w) \<and> ric_cmm (w_ric w) \<and> ric_data (w_ric w) \<and> ric_defaultLm (w_ric w) \<noteq> None \<and>
     0 \<le> ric_lmQueryInterval (w_ric w) \<and> draws_ok (ric_inactivityIntervalRv (w_ric w)) \<and>
     (\<forall>k\<in>ric_lms (w_ric w). lm_can_run (w_lms w k)) \<and>
     et_data (w_e2t w) \<and> draws_ok (et_transmissionDelayRv (w_e2t w))"

text \<open>What a query cycle does not change of the RIC: all but its events and its random variable.\<close>

definition ric_config :: "near_rt_ric \<Rightarrow> near_rt_ric" where
  "ric_config r = r\<lparr>ric_inactivityIntervalRv := ConstantRandomVariable 0, ric_lmQueryEvent := EventId,
     ric_inactivityEvent := EventId, ric_processEvent := EventId\<rparr>"

definition ready_as :: "near_rt_ric \<Rightarrow> oran_st \<Rightarrow> bool" where
  "ready_as cfg st \<longleftrightarrow>
     ric_ready (fst st) \<and> ric_config (ric_of st) = cfg \<and>
     (\<forall>k\<in>ric_lms cfg. ev_known (snd st) (lm_finishRunEvent (lm_of st k)))"

lemma ric_config_fields [simp]:
  "ric_lmQueryInterval (ric_config r) = ric_lmQueryInterval r"
  "ric_lmQueryCycle (ric_config r) = ric_lmQueryCycle r"
  "ric_lmQueryCommands (ric_config r) = ric_lmQueryCommands r"
  "ric_active (ric_config r) = ric_active r"
  "ric_defaultLm (ric_config r) = ric_defaultLm r"
  "ric_additionalLms (ric_config r) = ric_additionalLms r"
  "ric_lms (ric_config r) = ric_lms r"
  by (simp_all add: ric_config_def ric_lms_def)

lemma ready_as_fields:
  assumes "ready_as cfg st"
  shows "ric_lmQueryInterval (ric_of st) = ric_lmQueryInterval cfg"
    and "ric_lmQueryCycle (ric_of st) = ric_lmQueryCycle cfg"
    and "ric_lmQueryCommands (ric_of st) = ric_lmQueryCommands cfg"
    and "ric_active (ric_of st) = ric_active cfg" and "ric_defaultLm (ric_of st) = ric_defaultLm cfg"
    and "ric_additionalLms (ric_of st) = ric_additionalLms cfg" and "ric_lms (ric_of st) = ric_lms cfg"
  using assms unfolding ready_as_def by (metis ric_config_fields)+

lemma ready_as_stable: "stable (ready_as cfg)"
  unfolding stable_def ready_as_def by (auto simp: ric_of_def lm_of_def intro: ev_known_grows)

text \<open>The updates of a query cycle keep the RIC configured.\<close>

lemma ready_as_updates:
  assumes "ready_as cfg st" and "grows (snd st) s'"
  shows "ready_as cfg (upd_data f (fst st), s')"
    and "draws_ok rv \<Longrightarrow> ready_as cfg (upd_e2t (\<lambda>e. e\<lparr>et_transmissionDelayRv := rv\<rparr>) (fst st), s')"
    and "ready_as cfg (upd_ric (\<lambda>r. r\<lparr>ric_lmQueryEvent := eid\<rparr>) (fst st), s')"
    and "draws_ok rv \<Longrightarrow> ready_as cfg (upd_ric (\<lambda>r. r\<lparr>ric_inactivityEvent := eid, ric_inactivityIntervalRv := rv\<rparr>) (fst st), s')"
    and "ready_as cfg (upd_ric (\<lambda>r. r\<lparr>ric_processEvent := eid\<rparr>) (fst st), s')"
    and "ready_as cfg (upd_lm k (\<lambda>m. m\<lparr>lm_commands := cs\<rparr>) (fst st), s')"
    and "ev_known s' eid \<Longrightarrow> ready_as cfg (upd_lm k (\<lambda>m. m\<lparr>lm_cycle := c, lm_commands := cs,
      lm_finishRunEvent := eid, lm_processingDelayRv := rv'\<rparr>) ((fst st)\<lparr>w_static := sta, w_data := d\<rparr>), s')"
proof -
  have "ready_as cfg (fst st, s')"
    using assms ready_as_stable [of cfg] unfolding stable_def by (metis prod.collapse)
  then show "ready_as cfg (upd_data f (fst st), s')"
    and "draws_ok rv \<Longrightarrow> ready_as cfg (upd_e2t (\<lambda>e. e\<lparr>et_transmissionDelayRv := rv\<rparr>) (fst st), s')"
    and "ready_as cfg (upd_ric (\<lambda>r. r\<lparr>ric_lmQueryEvent := eid\<rparr>) (fst st), s')"
    and "draws_ok rv \<Longrightarrow> ready_as cfg (upd_ric (\<lambda>r. r\<lparr>ric_inactivityEvent := eid, ric_inactivityIntervalRv := rv\<rparr>) (fst st), s')"
    and "ready_as cfg (upd_ric (\<lambda>r. r\<lparr>ric_processEvent := eid\<rparr>) (fst st), s')"
    and "ready_as cfg (upd_lm k (\<lambda>m. m\<lparr>lm_commands := cs\<rparr>) (fst st), s')"
    and "ev_known s' eid \<Longrightarrow> ready_as cfg (upd_lm k (\<lambda>m. m\<lparr>lm_cycle := c, lm_commands := cs,
      lm_finishRunEvent := eid, lm_processingDelayRv := rv'\<rparr>) ((fst st)\<lparr>w_static := sta, w_data := d\<rparr>), s')"
    unfolding ready_as_def ric_ready_def
    by (simp_all add: upd_data_def upd_e2t_def upd_ric_def upd_lm_def ric_config_def ric_lms_def ric_of_def lm_of_def)
qed

lemma ready_as_rvs:
  assumes "ready_as cfg st"
  shows "draws_ok (et_transmissionDelayRv (e2t_of st))" and "draws_ok (ric_inactivityIntervalRv (ric_of st))"
    and "0 \<le> ric_lmQueryInterval (ric_of st)" and "et_data (e2t_of st)" and "ric_data (ric_of st)"
    and "k \<in> ric_lms cfg \<Longrightarrow> lm_nearRtRic (lm_of st k)"
    and "k \<in> ric_lms cfg \<Longrightarrow> ev_known (snd st) (lm_finishRunEvent (lm_of st k))"
    and "k \<in> ric_lms cfg \<Longrightarrow> lm_can_run (lm_of st k)"
  using assms ready_as_fields(7) [OF assms]
  by (simp_all add: ready_as_def ric_ready_def e2t_of_def ric_of_def lm_of_def lm_can_run_ric)

lemma e2t_transmit_progress: "progress (ready_as cfg) 1 (e2t_transmit ev)"
  unfolding e2t_transmit_def case_prod_beta
  by (rule progress_sched) (use ready_as_rvs(1) GetValue_ok ready_as_updates(2) in blast)+

lemma sched_query_progress: "progress (ready_as cfg) 1 sched_query"
  unfolding sched_query_def
  by (rule progress_sched) (use ready_as_rvs(3) ready_as_updates(3) in blast)+

lemma sched_inactivity_progress: "progress (ready_as cfg) 1 sched_inactivity"
  unfolding sched_inactivity_def case_prod_beta
  by (rule progress_sched) (use ready_as_rvs(2) GetValue_ok ready_as_updates(4) in blast)+

lemma sched_process_progress: "progress (ready_as cfg) 1 sched_process"
proof (rule progress_like)
  fix st
  let ?f = "\<lambda>st. sched \<bar>ric_lmQueryMaxWaitTime (ric_of st)\<bar> Ev_ProcessLmQueryCommands
       (\<lambda>eid. upd_ric (\<lambda>r. r\<lparr>ric_processEvent := eid\<rparr>)) st"
  have f: "progress (ready_as cfg) 1 ?f" by (rule progress_sched) (simp_all add: ready_as_updates)
  show "\<exists>g. progress (ready_as cfg) 1 g \<and> sched_process st = g st"
  proof (cases "0 < ric_lmQueryMaxWaitTime (ric_of st)")
    case True
    with f show ?thesis by (intro exI [of _ ?f]) (simp add: sched_process_def)
  next
    case False
    with progress_Inr show ?thesis by (intro exI [of _ Inr]) (simp add: sched_process_def)
  qed
qed

text \<open>The check for inactivity sends at most one answer for each registered node.\<close>

lemma grows_refl [simp]: "grows s s"
  by (simp add: grows_def)

lemma ready_as_world: "ready_as cfg st \<Longrightarrow> ready_as cfg (on_world (upd_data f) st)"
  using ready_as_updates(1) [of cfg st "snd st"] by (simp add: on_world_def)

lemma ReceiveDeregistrationRequest_progress: "progress (ready_as cfg) 1 (ReceiveDeregistrationRequest n)"
proof (rule progress_like)
  fix st :: oran_st
  assume P: "ready_as cfg st"
  let ?dr = "DeregisterNode (now_of st) n (data_of st)"
  let ?w = "\<lambda>st. Inr (on_world (upd_data (\<lambda>_. snd ?dr)) st) :: oran_st res"
  have w: "progress (ready_as cfg) 0 ?w" by (rule progress_world) (rule ready_as_world)
  note d = ready_as_rvs(4) [OF P]
  show "\<exists>g. progress (ready_as cfg) 1 g \<and> ReceiveDeregistrationRequest n st = g st"
  proof (cases "et_active (e2t_of st)")
    case False
    then show ?thesis using progress_Inr
      by (intro exI [of _ Inr]) (simp add: ReceiveDeregistrationRequest_def)
  next
    case act: True
    show ?thesis
    proof (cases "map_of (et_nodeTerminators (e2t_of st)) n")
      case None
      then show ?thesis using progress_mono [OF w] act d
        by (intro exI [of _ ?w])
          (simp add: ReceiveDeregistrationRequest_def Let_def e2t_of_def on_world_def upd_data_def split: prod.split)
    next
      case (Some i)
      let ?g = "\<lambda>st. res_bind (?w st) (e2t_transmit (Ev_ReceiveDeregistrationResponse i (fst ?dr)))"
      have "progress (ready_as cfg) (0 + 1) ?g" by (rule progress_bind [OF w e2t_transmit_progress])
      then show ?thesis using Some act d
        by (intro exI [of _ ?g])
          (simp add: ReceiveDeregistrationRequest_def Let_def e2t_of_def on_world_def upd_data_def split: prod.split)
    qed
  qed
qed

section \<open>Running the logic modules\<close>

lemma CancelRun_progress:
  assumes "k \<in> ric_lms cfg"
  shows "progress (ready_as cfg) 0 (CancelRun k)"
proof (rule progress_like)
  fix st :: oran_st
  assume P: "ready_as cfg st"
  from LogLogicToRepository_total [OF ready_as_rvs(6) [OF P assms] ready_as_rvs(5) [OF P]] obtain d' where
    d': "LogLogicToRepository (now_of st) (ric_of st) (lm_of st k) (cancel_msg (lm_of st k)) (data_of st) = Inr d'"
    by blast
  let ?d = "if lm_commands (lm_of st k) \<noteq> [] then d' else data_of st"
  let ?g = "\<lambda>st0. res_bind (Inr (cancel_id (lm_finishRunEvent (lm_of st k)) st0))
     (\<lambda>st1. Inr (on_world (upd_lm k (\<lambda>m. m\<lparr>lm_commands := []\<rparr>) \<circ> upd_data (\<lambda>_. ?d)) st1))"
  have "ready_as cfg (on_world (upd_lm k (\<lambda>m. m\<lparr>lm_commands := []\<rparr>) \<circ> upd_data (\<lambda>_. ?d)) st1)"
    if "ready_as cfg st1" for st1
    using ready_as_updates(6) [OF ready_as_world [OF that] grows_refl, of k "[]"] by (simp add: on_world_def)
  then have g: "progress (ready_as cfg) (0 + 0) ?g"
    by (intro progress_bind [OF progress_cancel [OF ready_as_stable]] progress_world)
  show "\<exists>g. progress (ready_as cfg) 0 g \<and> CancelRun k st = g st"
  proof (cases "lm_active (lm_of st k) \<and> IsRunning k st")
    case True
    then show ?thesis using g d' by (intro exI [of _ ?g]) (simp add: CancelRun_def Let_def)
  next
    case False
    then show ?thesis using progress_Inr by (intro exI [of _ Inr]) (auto simp: CancelRun_def Let_def)
  qed
qed

lemma CancelRun_stops:
  assumes "CancelRun k st = Inr st'" and "lm_active (lm_of st k)"
    and "ev_known (snd st) (lm_finishRunEvent (lm_of st k))"
  shows "\<not> IsRunning k st'" and "lm_active (lm_of st' k)"
proof -
  have *: "lm_finishRunEvent (lm_of st' k) = lm_finishRunEvent (lm_of st k) \<and> lm_active (lm_of st' k) \<and>
      (IsRunning k st \<longrightarrow> snd st' = Cancel (lm_finishRunEvent (lm_of st k)) (snd st)) \<and>
      (\<not> IsRunning k st \<longrightarrow> snd st' = snd st)"
    using assms(1,2)
    by (auto simp: CancelRun_def Let_def lm_of_def on_world_def cancel_id_def upd_lm_def upd_data_def split: if_splits
        elim!: res_bind_eq_InrE)
  show "lm_active (lm_of st' k)" using * by blast
  show "\<not> IsRunning k st'"
  proof (cases "IsRunning k st")
    case True
    then show ?thesis using * Cancel_known_not_pending [OF assms(3)] by (simp add: IsRunning_def)
  next
    case False
    then show ?thesis using * by (simp add: IsRunning_def)
  qed
qed

text \<open>A run of an idle, active logic module: its commands, and the event that hands them over.\<close>

lemma lm_Run_total:
  assumes "lm_active (lm_of st k)" and "\<not> IsRunning k st" and "lm_can_run (lm_of st k)" and "ric_data (ric_of st)"
    and "sim_inv (snd st)" and "room 1 st"
  obtains cs sta d eid st' where "logic_Run (now_of st) (ric_of st) (lm_of st k) (w_static (fst st)) (data_of st) = Inr (cs, sta, d)"
    and "lm_Run k cycle st = Inr st'" and "sim_inv (snd st')" and "m_nextImpl (snd st') = Suc (m_nextImpl (snd st))"
    and "ev_known (snd st') eid" and "grows (snd st) (snd st')" and "IsPending (snd st') eid"
    and "GetDelayLeft (snd st') eid = max 0 (fst (GetValue (lm_processingDelayRv (lm_of st k))))"
    and "fst st' = upd_lm k (\<lambda>m. m\<lparr>lm_cycle := cycle, lm_commands := cs, lm_finishRunEvent := eid,
      lm_processingDelayRv := snd (GetValue (lm_processingDelayRv (lm_of st k)))\<rparr>) ((fst st)\<lparr>w_static := sta, w_data := d\<rparr>)"
    and "only_lm_log (data_of st) d"
proof -
  obtain cs sta d where run: "logic_Run (now_of st) (ric_of st) (lm_of st k) (w_static (fst st)) (data_of st) = Inr (cs, sta, d)"
    and log: "only_lm_log (data_of st) d"
    by (rule lm.run_cases [OF assms(3,4)])
  let ?v = "fst (GetValue (lm_processingDelayRv (lm_of st k)))"
  let ?k = "\<lambda>eid w. upd_lm k (\<lambda>m. m\<lparr>lm_cycle := cycle, lm_commands := cs, lm_finishRunEvent := eid,
      lm_processingDelayRv := snd (GetValue (lm_processingDelayRv (lm_of st k)))\<rparr>) (w\<lparr>w_static := sta, w_data := d\<rparr>)"
  have rm: "Suc (m_nextImpl (snd st)) + UID_VALID < 2 ^ 32" using assms(6) by (simp add: room_def)
  have v: "0 \<le> max 0 ?v" by simp
  obtain st' eid where st': "sched (max 0 ?v) (Ev_FinishRun k) ?k st = Inr st'" "fst st' = ?k eid (fst st)"
    "sim_inv (snd st')" "IsPending (snd st') eid" "GetDelayLeft (snd st') eid = max 0 ?v"
    "m_nextImpl (snd st') = Suc (m_nextImpl (snd st))" "id_impl eid = Some (m_nextImpl (snd st))"
    by (rule sched_total [OF assms(5) v rm])
  have r: "lm_Run k cycle st = Inr st'"
    using assms(1,2) run st'(1) by (simp add: lm_Run_def Let_def case_prod_beta max_def split: if_splits)
  have g: "grows (snd st) (snd st')" and n: "ev_known (snd st') eid"
    using sched_impls(2) [OF st'(1)] st'(7) by (simp_all add: grows_def ev_known_def)
  show thesis by (rule that [OF run r st'(3,6) n g st'(4,5,2) log])
qed

lemma lm_Run_inactive: "\<not> lm_active (lm_of st k) \<Longrightarrow> lm_Run k cycle st = Inr st"
  by (simp add: lm_Run_def Let_def)

lemma query_lm_progress:
  assumes k: "k \<in> ric_lms cfg"
  shows "progress (ready_as cfg) 1 (query_lm k)"
proof (rule progressI)
  fix st
  assume st: "ready_as cfg st" "sim_inv (snd st)" "room 1 st"
  have "progress (ready_as cfg) 0 (\<lambda>st. if IsRunning k st then CancelRun k st else Inr st)"
    by (rule progress_if [OF CancelRun_progress [OF k] progress_Inr])
  from progressE [OF this st(1,2), of 1] st(3) obtain st1 where
    st1: "(if IsRunning k st then CancelRun k st else Inr st) = Inr st1" "ready_as cfg st1" "sim_inv (snd st1)"
      "room 1 st1" "m_nextImpl (snd st1) \<le> m_nextImpl (snd st) + 0" by auto
  have idle: "\<not> IsRunning k st1" if "lm_active (lm_of st k)"
    using CancelRun_stops(1) [OF _ that ready_as_rvs(7) [OF st(1) k]] st1(1) by (auto split: if_splits)
  have act: "lm_active (lm_of st1 k) = lm_active (lm_of st k)"
    using st1(1) CancelRun_stops(2) [OF _ _ ready_as_rvs(7) [OF st(1) k], of st1]
    by (cases "lm_active (lm_of st k)") (auto simp: CancelRun_def Let_def split: if_splits)
  let ?c = "ric_lmQueryCycle (ric_of st1)"
  have "\<exists>st'. lm_Run k ?c st1 = Inr st' \<and> ready_as cfg st' \<and> sim_inv (snd st') \<and>
      m_nextImpl (snd st') \<le> Suc (m_nextImpl (snd st1))"
  proof (cases "lm_active (lm_of st1 k)")
    case True
    from lm_Run_total [OF True _ ready_as_rvs(8) [OF st1(2) k] ready_as_rvs(5) [OF st1(2)] st1(3,4), of ?c]
      idle act True obtain cs sta d eid st' where
      st': "lm_Run k ?c st1 = Inr st'" "sim_inv (snd st')" "m_nextImpl (snd st') = Suc (m_nextImpl (snd st1))"
        "ev_known (snd st') eid" "grows (snd st1) (snd st')"
        "fst st' = upd_lm k (\<lambda>m. m\<lparr>lm_cycle := ?c, lm_commands := cs, lm_finishRunEvent := eid,
          lm_processingDelayRv := snd (GetValue (lm_processingDelayRv (lm_of st1 k)))\<rparr>)
          ((fst st1)\<lparr>w_static := sta, w_data := d\<rparr>)" by metis
    have "ready_as cfg (fst st', snd st')" unfolding st'(6) by (rule ready_as_updates(7) [OF st1(2) st'(5,4)])
    then have "ready_as cfg st'" unfolding prod.collapse .
    then show ?thesis using st'(1-3) by auto
  qed (use st1 in \<open>auto simp: lm_Run_inactive\<close>)
  then show "\<exists>st'. query_lm k st = Inr st' \<and> ready_as cfg st' \<and> sim_inv (snd st') \<and>
      m_nextImpl (snd st') \<le> m_nextImpl (snd st) + 1"
    using st1(1,5) by (auto simp: query_lm_def)
qed

section \<open>The query cycle\<close>

lemma CheckForInactivity_active:
  assumes "ready_as cfg st" and "ric_active cfg"
  shows "CheckForInactivity st =
    res_bind (res_fold ReceiveDeregistrationRequest
      (inactive_ids (now_of st) (ric_inactivityThreshold (ric_of st)) (GetLastRegistrationRequests (data_of st))) st)
      (\<lambda>st1. res_bind (Inr (cancel_pending (ric_inactivityEvent (ric_of st1)) st1)) sched_inactivity)"
  using assms ready_as_fields(4) [OF assms(1)]
  by (simp add: CheckForInactivity_def ready_as_def ric_ready_def ric_of_def)

lemma CheckForInactivity_total:
  assumes "ready_as cfg st" and "ric_active cfg" and "sim_inv (snd st)"
    and "room (length (GetLastRegistrationRequests (data_of st)) + 1 + r) st"
  obtains st' where "CheckForInactivity st = Inr st'" and "ready_as cfg st'" and "sim_inv (snd st')" and "room r st'"
proof -
  let ?ids = "inactive_ids (now_of st) (ric_inactivityThreshold (ric_of st)) (GetLastRegistrationRequests (data_of st))"
  let ?f = "\<lambda>st. res_bind (res_fold ReceiveDeregistrationRequest ?ids st)
      (\<lambda>st1. res_bind (Inr (cancel_pending (ric_inactivityEvent (ric_of st1)) st1)) sched_inactivity)"
  have p: "progress (ready_as cfg) (length ?ids + (0 + 1)) ?f"
    by (intro progress_bind progress_fold ReceiveDeregistrationRequest_progress
        progress_cancel_pending [OF ready_as_stable] sched_inactivity_progress)
  have "length ?ids \<le> length (GetLastRegistrationRequests (data_of st))" by (simp add: inactive_ids_def)
  then have "room (length ?ids + (0 + 1) + r) st" using assms(4) by (simp add: room_def)
  from progressE [OF p assms(1,3) this] obtain st' where
    st': "?f st = Inr st'" "ready_as cfg st'" "sim_inv (snd st')" "room r st'" .
  show thesis by (rule that [OF _ st'(2-4)]) (unfold CheckForInactivity_active [OF assms(1,2)], rule st'(1))
qed

text \<open>All of a query cycle but the last step, which schedules the next one.\<close>

definition query_events :: "oran_st \<Rightarrow> nat" where
  "query_events st = length (GetLastRegistrationRequests (data_of st)) + length (ric_additionalLms (ric_of st)) + 4"

lemma QueryLms_total:
  assumes ready: "ready_as cfg st" and act: "ric_active cfg" and inv: "sim_inv (snd st)"
    and rm: "room (query_events st) st"
  obtains st5 st' where "QueryLms st = Inr st'" and "sched_query st5 = Inr st'"
    and "ready_as (cfg\<lparr>ric_lmQueryCycle := now_of st\<rparr>) st5" and "sim_inv (snd st5)" and "room 1 st5"
proof -
  let ?cfg = "cfg\<lparr>ric_lmQueryCycle := now_of st\<rparr>"
  let ?n = "length (ric_additionalLms cfg)"
  let ?st0 = "on_world (upd_ric (\<lambda>r. r\<lparr>ric_lmQueryCycle := now_of st\<rparr>)) st"
  note f = ready_as_fields [OF ready]
  have st0: "ready_as ?cfg ?st0" using ready
    by (simp add: ready_as_def ric_ready_def on_world_def upd_ric_def ric_of_def lm_of_def ric_config_def ric_lms_def)
      (auto simp: ric_config_def)
  have s0: "snd ?st0 = snd st" "data_of ?st0 = data_of st"
    by (simp_all add: on_world_def data_of_def upd_ric_def)
  obtain dlm where dlm: "ric_defaultLm cfg = Some dlm"
    using ready f(5) by (auto simp: ready_as_def ric_ready_def ric_of_def)
  have lms: "dlm \<in> ric_lms ?cfg" "\<And>e. e \<in> set (ric_additionalLms cfg) \<Longrightarrow> snd e \<in> ric_lms ?cfg"
    using dlm by (auto simp: ric_lms_def)
  have "room (length (GetLastRegistrationRequests (data_of ?st0)) + 1 + (?n + 3)) ?st0"
    using rm f(6) by (simp add: room_def query_events_def s0)
  from CheckForInactivity_total [OF st0 _ _ this] act inv obtain st1 where
    st1: "CheckForInactivity ?st0 = Inr st1" "ready_as ?cfg st1" "sim_inv (snd st1)" "room (?n + 3) st1"
    unfolding s0 by auto
  have "room (1 + (?n + 2)) st1" using st1(4) by (simp add: room_def)
  from progressE [OF sched_process_progress st1(2,3) this] obtain st2 where
    st2: "sched_process st1 = Inr st2" "ready_as ?cfg st2" "sim_inv (snd st2)" "room (?n + 2) st2" .
  have "room (1 + (?n + 1)) st2" using st2(4) by (simp add: room_def)
  from progressE [OF query_lm_progress [OF lms(1)] st2(2,3) this] obtain st3 where
    st3: "query_lm dlm st2 = Inr st3" "ready_as ?cfg st3" "sim_inv (snd st3)" "room (?n + 1) st3" .
  have "progress (ready_as ?cfg) ?n (res_fold (\<lambda>e. query_lm (snd e)) (ric_additionalLms cfg))"
    by (rule progress_fold) (rule query_lm_progress [OF lms(2)])
  from progressE [OF this st3(2-4)] obtain st5 where
    st5: "res_fold (\<lambda>e. query_lm (snd e)) (ric_additionalLms cfg) st3 = Inr st5" "ready_as ?cfg st5"
      "sim_inv (snd st5)" "room 1 st5" .
  from st5(4) have "room (1 + 0) st5" by simp
  from progressE [OF sched_query_progress st5(2,3) this] obtain st' where st': "sched_query st5 = Inr st'" .
  have "QueryLms st = Inr st'"
    using ready act f(4,5,6) dlm st1(1) st2(1) st3(1) st5(1) st' ready_as_fields(6) [OF st3(2)]
    by (simp add: QueryLms_def ready_as_def ric_ready_def ric_of_def)
  then show thesis using st' st5(2-4) by (rule that)
qed


end
