(* ===== verification/Control_Loop.thy ===== *)
theory Control_Loop
  imports Ric_Laws
begin

text \<open>
  The properties of the control loop: the query cycle of the RIC, the check for inactivity, the
  collection of the commands of a cycle and their delivery, and what stopping the RIC does.
\<close>

section \<open>Deregistration of silent nodes\<close>

lemma sched_now: "sched delay ev k st = Inr st' \<Longrightarrow> now_of st' = now_of st"
  by (auto simp: sched_def Schedule_def insert_event_def now_of_def Now_def Let_def abort_if_def split: if_splits)

lemma cancel_frame [simp]:
  "fst (cancel_pending e st) = fst st" "fst (cancel_id e st) = fst st"
  "now_of (cancel_pending e st) = now_of st" "now_of (cancel_id e st) = now_of st"
  by (simp_all add: cancel_pending_def cancel_id_def now_of_def)

lemma e2t_transmit_frame:
  assumes "e2t_transmit ev st = Inr st'"
  shows "data_of st' = data_of st" and "now_of st' = now_of st" and "et_active (e2t_of st') = et_active (e2t_of st)"
    and "et_data (e2t_of st') = et_data (e2t_of st)" and "et_nodeTerminators (e2t_of st') = et_nodeTerminators (e2t_of st)"
    and "ric_of st' = ric_of st" and "lm_of st' = lm_of st" and "node_of st' = node_of st"
proof -
  obtain delay rv' where s: "sched delay ev (\<lambda>_. upd_e2t (\<lambda>e. e\<lparr>et_transmissionDelayRv := rv'\<rparr>)) st = Inr st'"
    using assms by (auto simp: e2t_transmit_def split: prod.splits)
  then have w: "fst st' = upd_e2t (\<lambda>e. e\<lparr>et_transmissionDelayRv := rv'\<rparr>) (fst st)"
    using sched_world [OF s] by blast
  show "now_of st' = now_of st" by (rule sched_now [OF s])
  show "data_of st' = data_of st" "et_active (e2t_of st') = et_active (e2t_of st)"
    "et_data (e2t_of st') = et_data (e2t_of st)" "et_nodeTerminators (e2t_of st') = et_nodeTerminators (e2t_of st)"
    "ric_of st' = ric_of st" "lm_of st' = lm_of st" "node_of st' = node_of st"
    by (simp_all add: data_of_def e2t_of_def ric_of_def lm_of_def node_of_def w upd_e2t_def fun_eq_iff)
qed

lemma ReceiveDeregistrationRequest_data:
  assumes r: "ReceiveDeregistrationRequest n st = Inr st'" and a: "et_active (e2t_of st)"
  shows "data_of st' = snd (DeregisterNode (now_of st) n (data_of st)) \<and> now_of st' = now_of st \<and>
    et_active (e2t_of st')"
proof -
  let ?st1 = "on_world (upd_data (\<lambda>_. snd (DeregisterNode (now_of st) n (data_of st)))) st"
  have st1: "data_of ?st1 = snd (DeregisterNode (now_of st) n (data_of st)) \<and> now_of ?st1 = now_of st \<and>
      et_active (e2t_of ?st1)"
    using a by (simp add: data_of_def on_world_def upd_data_def now_of_def e2t_of_def)
  from r a have "st' = ?st1 \<or> (\<exists>ev. e2t_transmit ev ?st1 = Inr st')"
    by (auto simp: ReceiveDeregistrationRequest_def Let_def split: prod.splits option.splits)
  then show ?thesis using st1 e2t_transmit_frame(1-3) by metis
qed

lemma deregister_all_data:
  assumes "res_fold ReceiveDeregistrationRequest ns st = Inr st'" and "et_active (e2t_of st)"
  shows "data_of st' = fold (\<lambda>n d. snd (DeregisterNode (now_of st) n d)) ns (data_of st)"
  using assms
proof (induction ns arbitrary: st)
  case (Cons n ns)
  from Cons.prems(1) obtain st1 where st1: "ReceiveDeregistrationRequest n st = Inr st1"
    "res_fold ReceiveDeregistrationRequest ns st1 = Inr st'" by auto
  show ?case using Cons.IH [OF st1(2)] ReceiveDeregistrationRequest_data [OF st1(1) Cons.prems(2)] by simp
qed simp

lemma deregister_all_registered:
  assumes "d_active d" and "regs_upto now d"
  shows "IsNodeRegistered (fold (\<lambda>n d. snd (DeregisterNode now n d)) ns d) m \<longleftrightarrow> m \<notin> set ns \<and> IsNodeRegistered d m"
  using assms
proof (induction ns arbitrary: d)
  case (Cons n ns)
  obtain e d1 where d1: "DeregisterNode now n d = (e, d1)" by force
  note r = DeregisterNode_registered [OF Cons.prems d1]
  show ?case using Cons.IH [OF r(3,2)] r(1) by (auto simp: d1)
qed simp

text \<open>For a registered node, the list holds the time of its newest request.\<close>

lemma inactive_ids_iff:
  assumes eng: "engine_ok (d_db d)" and act: "d_active d" and ag: "agree_newest d m" and reg: "IsNodeRegistered d m"
  shows "m \<in> set (inactive_ids now thr (GetLastRegistrationRequests d)) \<longleftrightarrow>
    (\<forall>r\<in>set (node_regs d m). now - reg_time r > thr)"
proof -
  let ?rows = "t_noderegistration (d_db d)"
  let ?g = "group_max (d_db d) ?rows m"
  have ne: "node_regs d m \<noteq> []"
  proof
    assume "node_regs d m = []"
    with reg show False by (simp add: IsNodeRegistered_alt)
  qed
  then have f: "filter (\<lambda>r. reg_nodeid r = m) ?rows \<noteq> []" by (simp add: node_regs_def)
  note g = group_max_spec [OF eng f]
  have gm: "?g \<in> set (node_regs d m)" using g(1,2) by (simp add: node_regs_def)
  have mx: "reg_time r \<le> reg_time ?g" if "r \<in> set (node_regs d m)" for r
    using that g(3) by (simp add: node_regs_def)
  have gr: "reg_registered ?g"
    using group_max_registered [OF eng act ag _ ne, of ?rows] reg by (simp add: node_regs_def)
  have "m \<in> set (inactive_ids now thr (GetLastRegistrationRequests d)) \<longleftrightarrow>
      (\<exists>t. (m, t) \<in> set (last_registrations (d_db d) ?rows) \<and> now - t > thr)"
    using act by (force simp: inactive_ids_def GetLastRegistrationRequests_def)
  also have "\<dots> \<longleftrightarrow> now - reg_time ?g > thr"
    using g(1,2) gr unfolding last_registrations_iff by (metis image_eqI)
  finally show ?thesis using gm mx by force
qed

section \<open>An example RIC\<close>

text \<open>
  A RIC at ten seconds, with a no-op logic module and a node that has registered at time 0 only. The
  terminator of the node is known to the E2 terminator.
\<close>

definition ex_sim :: "oran_event simulator" where
  "ex_sim = DefaultSimulatorImpl\<lparr>m_currentTs := 10000000000\<rparr>"

definition ex_ric :: near_rt_ric where
  "ex_ric = OranNearRtRic\<lparr>ric_active := True, ric_e2Terminator := True, ric_data := True, ric_cmm := True,
     ric_defaultLm := Some 0\<rparr>"

definition ex_loop :: oran_st where
  "ex_loop =
     (\<lparr>w_ric = ex_ric,
       w_e2t = OranNearRtRicE2Terminator\<lparr>et_active := True, et_nearRtRic := True, et_data := True,
         et_nodeTerminators := [(1, 0)]\<rparr>,
       w_data = one_node,
       w_cmm = (OranCmm ''OranCmmNoop'' OranCmmNoop)\<lparr>cmm_nearRtRic := True, cmm_active := True\<rparr>,
       w_lms = (\<lambda>_. (OranLm ''OranLmNoop'' OranLmNoop)\<lparr>lm_nearRtRic := True, lm_active := True\<rparr>),
       w_static = ex_lm_static, w_nodes = (\<lambda>_. ex_node)\<rparr>, ex_sim)"

lemmas ex_loop_eval = ex_loop_def ex_ric_def OranNearRtRic_def OranNearRtRicE2Terminator_def OranLm_def
  OranCmm_def ConstantRandomVariable_def ric_of_def lm_of_def e2t_of_def data_of_def

lemma ex_sim_inv: "sim_inv ex_sim"
  by (simp add: ex_sim_def sim_inv_def DefaultSimulatorImpl_def UID_VALID_def)

lemma ex_loop_sim [simp]: "snd ex_loop = ex_sim" "now_of ex_loop = 10000000000" "m_nextImpl ex_sim = 0"
  by (simp_all add: ex_loop_def now_of_def ex_sim_def Now_def DefaultSimulatorImpl_def)

lemma ex_loop_ready: "ric_ready (fst ex_loop)"
  by (simp add: ric_ready_def ex_loop_eval draws_ok_def ric_lms_def lm_can_run_def)

lemma ex_loop_data: "data_of ex_loop = one_node"
  by (simp add: ex_loop_eval)

lemma one_node_last: "GetLastRegistrationRequests one_node = [(1, 0)]"
  by (simp add: GetLastRegistrationRequests_def last_registrations_def group_ids_def group_max_def Let_def
      one_node_def empty_data_def OranDataRepositorySqlite_def InitDb_def)

section \<open>Commands of a cycle\<close>

lemma smap_ext:
  assumes "smap_ok m" and "smap_ok m'" and "map_of m = map_of m'"
  shows "m = m'"
proof -
  have "set m = set m'" using assms by (metis (no_types, lifting) smap_ok_map_of subset_antisym subset_eq surj_pair)
  moreover have "sorted (map fst m) \<and> distinct (map fst m)" "sorted (map fst m') \<and> distinct (map fst m')"
    using assms(1,2) by (simp_all add: smap_ok_def strict_sorted_iff)
  moreover have "inj_on fst (set m \<union> set m')" using calculation by (simp add: distinct_map)
  ultimately show ?thesis by (intro map_sorted_distinct_set_unique [of fst]) auto
qed

text \<open>The commands of the logic modules \<open>ks\<close>, as the map the RIC collects them in.\<close>

definition cycle_commands :: "(nat \<Rightarrow> string \<times> bool) \<Rightarrow> (nat \<Rightarrow> oran_command list) \<Rightarrow> nat list \<Rightarrow> lm_commands" where
  "cycle_commands key cs ks = map (\<lambda>k. (key k, cs k)) (sort_key key ks)"

lemma cycle_commands_map:
  assumes "distinct ks" and "inj_on key (set ks)"
  shows "smap_ok (cycle_commands key cs ks)"
    and "map_of (cycle_commands key cs ks) x = (if x \<in> key ` set ks then Some (cs (inv_into (set ks) key x)) else None)"
proof -
  have f: "map fst (cycle_commands key cs ks) = map key (sort_key key ks)" by (simp add: cycle_commands_def comp_def)
  have dst: "distinct (map key (sort_key key ks))" using assms by (simp add: distinct_map)
  then show ok: "smap_ok (cycle_commands key cs ks)"
    unfolding smap_ok_def f strict_sorted_iff using sorted_sort_key by blast
  show "map_of (cycle_commands key cs ks) x = (if x \<in> key ` set ks then Some (cs (inv_into (set ks) key x)) else None)"
  proof (cases "x \<in> key ` set ks")
    case True
    then obtain k where k: "k \<in> set ks" "x = key k" by blast
    then have "(x, cs k) \<in> set (cycle_commands key cs ks)" by (auto simp: cycle_commands_def)
    then show ?thesis using ok k assms(2) by (simp add: smap_ok_map_of inv_into_f_f)
  next
    case False
    then have "x \<notin> fst ` set (cycle_commands key cs ks)" by (auto simp: cycle_commands_def)
    then show ?thesis using False by (simp add: map_of_eq_None_iff)
  qed
qed

lemma collect_commands_cycle:
  assumes "distinct (k # ks)" and "inj_on key (set (k # ks))"
  shows "collect_commands (key k) True p (cs k) (cycle_commands key cs ks) = cycle_commands key cs (ks @ [k])"
proof -
  have d: "distinct ks" "inj_on key (set ks)" "distinct (ks @ [k])" "inj_on key (set (ks @ [k]))"
    using assms by (auto simp: inj_on_def)
  have fresh: "map_of (cycle_commands key cs ks) (key k) = None"
    using assms by (subst cycle_commands_map(2) [OF d(1,2)]) (auto simp: inj_on_def)
  have "inv_into (set (ks @ [k])) key x = inv_into (set ks) key x" if "x \<in> key ` set ks" for x
    using that assms by (metis d(2,4) f_inv_into_f inv_into_f_eq inv_into_into set_append UnCI)
  moreover have "inv_into (set (ks @ [k])) key (key k) = k" using d(4) by (intro inv_into_f_f) auto
  moreover have "key k \<notin> key ` set ks" using assms by (auto simp: inj_on_def)
  ultimately have "(map_of (cycle_commands key cs ks))(key k \<mapsto> cs k) = map_of (cycle_commands key cs (ks @ [k]))"
    by (intro ext) (simp add: cycle_commands_map(2) [OF d(1,2)] cycle_commands_map(2) [OF d(3,4)])
  then have "smap_upd (key k) (cs k) (cycle_commands key cs ks) = cycle_commands key cs (ks @ [k])"
    using cycle_commands_map(1) [OF d(1,2), of cs] cycle_commands_map(1) [OF d(3,4), of cs]
    by (intro smap_ext) auto
  then show ?thesis using fresh by (simp add: collect_commands_def append_commands_def smap_get_def)
qed

lemma res_bind_fold_Nil [simp]: "res_bind r (res_fold f []) = r"
  by (cases r) simp_all

definition with_commands :: "lm_commands \<Rightarrow> oran_st \<Rightarrow> oran_st" where
  "with_commands q = on_world (upd_ric (\<lambda>r. r\<lparr>ric_lmQueryCommands := q\<rparr>))"

lemma with_commands_simps [simp]:
  "ric_lmQueryCommands (ric_of (with_commands q st)) = q"
  "ric_additionalLms (ric_of (with_commands q st)) = ric_additionalLms (ric_of st)"
  "ric_lmQueryCycle (ric_of (with_commands q st)) = ric_lmQueryCycle (ric_of st)"
  "lm_key (with_commands q st) k = lm_key st k"
  "awaiting (with_commands q st) = awaiting st"
  "with_commands q (with_commands q' st) = with_commands q st"
  "ric_lateCommandPolicy (ric_of (with_commands q st)) = ric_lateCommandPolicy (ric_of st)"
  by (simp_all add: with_commands_def on_world_def upd_ric_def ric_of_def lm_key_def lm_of_def awaiting_def)

lemma NotifyLmFinished_eq:
  assumes "cycle = ric_lmQueryCycle (ric_of st)"
  shows "NotifyLmFinished cycle cs k st =
    (let st1 = with_commands (collect_commands (lm_key st k) (awaiting st) (ric_lateCommandPolicy (ric_of st)) cs
        (ric_lmQueryCommands (ric_of st))) st
     in if length (ric_lmQueryCommands (ric_of st1)) = length (ric_additionalLms (ric_of st)) + 1 \<and> awaiting st
        then ProcessLmQueryCommands st1 else Inr st1)"
proof -
  have eq: "on_world (upd_ric (\<lambda>r. r\<lparr>ric_lmQueryCommands := collect_commands (lm_key st k) (awaiting st)
      (ric_lateCommandPolicy r) cs (ric_lmQueryCommands r)\<rparr>)) st =
    with_commands (collect_commands (lm_key st k) (awaiting st) (ric_lateCommandPolicy (ric_of st)) cs
      (ric_lmQueryCommands (ric_of st))) st"
    by (simp add: with_commands_def on_world_def upd_ric_def ric_of_def)
  show ?thesis unfolding NotifyLmFinished_def Let_def eq assms with_commands_simps
    by (simp only: simp_thms abort_if_simps)
qed

lemma length_cycle_commands [simp]: "length (cycle_commands key cs ks) = length ks"
  by (simp add: cycle_commands_def)

lemma notify_step:
  assumes "distinct (k # ks)" and "inj_on (lm_key st) (set (k # ks))" and "awaiting st"
  shows "NotifyLmFinished (ric_lmQueryCycle (ric_of st)) (cs k) k (with_commands (cycle_commands (lm_key st) cs ks) st) =
    (if Suc (length ks) = length (ric_additionalLms (ric_of st)) + 1
     then ProcessLmQueryCommands (with_commands (cycle_commands (lm_key st) cs (ks @ [k])) st)
     else Inr (with_commands (cycle_commands (lm_key st) cs (ks @ [k])) st))"
  using assms(3) by (subst NotifyLmFinished_eq) (simp_all add: Let_def collect_commands_cycle [OF assms(1,2)])

lemma notify_prefix:
  assumes "distinct ks" and "inj_on (lm_key st) (set ks)" and "awaiting st"
    and "length ks < length (ric_additionalLms (ric_of st)) + 1"
  shows "res_fold (\<lambda>k. NotifyLmFinished (ric_lmQueryCycle (ric_of st)) (cs k) k) ks (with_commands [] st) =
    Inr (with_commands (cycle_commands (lm_key st) cs ks) st)"
  using assms
proof (induction ks rule: rev_induct)
  case Nil
  then show ?case by (simp add: cycle_commands_def)
next
  case (snoc k ks)
  have "distinct (k # ks)" "inj_on (lm_key st) (set (k # ks))" using snoc.prems by auto
  note step = notify_step [OF this snoc.prems(3), of cs]
  have "inj_on (lm_key st) (set ks)" using snoc.prems(2) by (auto simp: inj_on_def)
  then show ?case using snoc step by (simp add: res_fold_append)
qed

text \<open>Sending commands.\<close>

definition deliveries :: "(uint64 \<times> nat) list \<Rightarrow> oran_command list \<Rightarrow> oran_event list" where
  "deliveries terms cs =
     concat (map (\<lambda>c. case map_of terms (GetTargetE2NodeId c) of None \<Rightarrow> [] | Some i \<Rightarrow> [Ev_ReceiveCommand i c]) cs)"

definition e2t_ready :: "(uint64 \<times> nat) list \<Rightarrow> oran_st \<Rightarrow> bool" where
  "e2t_ready terms st \<longleftrightarrow> et_active (e2t_of st) \<and> et_data (e2t_of st) \<and>
     draws_ok (et_transmissionDelayRv (e2t_of st)) \<and> et_nodeTerminators (e2t_of st) = terms"

lemma e2t_transmit_total:
  assumes "e2t_ready terms st" and "sim_inv (snd st)" and "room 1 st"
  shows "\<exists>st'. e2t_transmit ev st = Inr st' \<and> e2t_ready terms st' \<and> sim_inv (snd st') \<and>
    m_nextImpl (snd st') = Suc (m_nextImpl (snd st)) \<and> keeps_impls (snd st) (snd st') \<and>
    new_events (snd st) (snd st') = [ev] \<and> ric_of st' = ric_of st"
proof -
  let ?rv = "et_transmissionDelayRv (e2t_of st)"
  let ?k = "\<lambda>_ :: event_id. upd_e2t (\<lambda>e. e\<lparr>et_transmissionDelayRv := snd (GetValue ?rv)\<rparr>)"
  have v: "0 \<le> fst (GetValue ?rv)" "draws_ok (snd (GetValue ?rv))"
    using assms(1) GetValue_ok by (auto simp: e2t_ready_def)
  have rm: "Suc (m_nextImpl (snd st)) + UID_VALID < 2 ^ 32" using assms(3) by (simp add: room_def)
  obtain st' eid where st': "sched (fst (GetValue ?rv)) ev ?k st = Inr st'" "fst st' = ?k eid (fst st)"
    "sim_inv (snd st')" "m_nextImpl (snd st') = Suc (m_nextImpl (snd st))"
    by (rule sched_total [OF assms(2) v(1) rm])
  have "e2t_of st' = (e2t_of st)\<lparr>et_transmissionDelayRv := snd (GetValue ?rv)\<rparr>" "ric_of st' = ric_of st"
    using st'(2) by (simp_all add: e2t_of_def ric_of_def upd_e2t_def)
  moreover from this(1) have "e2t_ready terms st'" using assms(1) v(2) by (simp add: e2t_ready_def)
  moreover have "e2t_transmit ev st = Inr st'" using st'(1) by (simp add: e2t_transmit_def case_prod_beta)
  ultimately show ?thesis using st'(3,4) sched_new_events [OF st'(1)] by blast
qed

lemma SendCommand_total:
  assumes "e2t_ready terms st" and "sim_inv (snd st)" and "room 1 st"
  shows "\<exists>st'. SendCommand c st = Inr st' \<and> e2t_ready terms st' \<and> sim_inv (snd st') \<and>
    m_nextImpl (snd st') \<le> Suc (m_nextImpl (snd st)) \<and> keeps_impls (snd st) (snd st') \<and>
    new_events (snd st) (snd st') = deliveries terms [c] \<and> ric_of st' = ric_of st"
proof -
  let ?st1 = "on_world (upd_data (LogCommandE2Terminator (now_of st) c)) st"
  have s1: "e2t_ready terms ?st1" "snd ?st1 = snd st" "ric_of ?st1 = ric_of st" "e2t_of ?st1 = e2t_of st"
    using assms(1) by (simp_all add: e2t_ready_def on_world_def e2t_of_def upd_data_def ric_of_def)
  have "room 1 ?st1" "sim_inv (snd ?st1)" using assms(2,3) by (simp_all add: room_def s1(2))
  from e2t_transmit_total [OF s1(1) this(2,1)] s1 show ?thesis
  proof (cases "map_of terms (GetTargetE2NodeId c)")
    case None
    have "SendCommand c st = Inr ?st1"
      using assms(1) None s1(4) by (simp add: SendCommand_def Let_def e2t_ready_def)
    then show ?thesis using None s1 assms(2) by (simp add: deliveries_def)
  next
    case (Some i)
    obtain st' where st': "e2t_transmit (Ev_ReceiveCommand i c) ?st1 = Inr st'" "e2t_ready terms st'" "sim_inv (snd st')"
      "m_nextImpl (snd st') = Suc (m_nextImpl (snd st))" "keeps_impls (snd st) (snd st')"
      "new_events (snd st) (snd st') = [Ev_ReceiveCommand i c]" "ric_of st' = ric_of st"
      using e2t_transmit_total [OF s1(1) \<open>sim_inv (snd ?st1)\<close> \<open>room 1 ?st1\<close>] unfolding s1(2,3) by blast
    have "SendCommand c st = Inr st'"
      using assms(1) Some s1(4) st'(1) by (simp add: SendCommand_def Let_def e2t_ready_def)
    then show ?thesis using st' Some by (intro exI [of _ st']) (simp add: deliveries_def)
  qed
qed

lemma SendCommands_total:
  assumes "e2t_ready terms st" and "sim_inv (snd st)" and "room (length cs) st"
  shows "\<exists>st'. res_fold SendCommand cs st = Inr st' \<and> keeps_impls (snd st) (snd st') \<and>
    new_events (snd st) (snd st') = deliveries terms cs \<and> ric_of st' = ric_of st"
  using assms
proof (induction cs arbitrary: st)
  case Nil
  then show ?case by (simp add: deliveries_def)
next
  case (Cons c cs)
  have "room 1 st" using Cons.prems(3) by (simp add: room_def)
  from SendCommand_total [OF Cons.prems(1,2) this] obtain st1 where st1: "SendCommand c st = Inr st1"
    "e2t_ready terms st1" "sim_inv (snd st1)" "m_nextImpl (snd st1) \<le> Suc (m_nextImpl (snd st))"
    "keeps_impls (snd st) (snd st1)" "new_events (snd st) (snd st1) = deliveries terms [c]" "ric_of st1 = ric_of st" by blast
  have "room (length cs) st1" using Cons.prems(3) st1(4) by (simp add: room_def)
  from Cons.IH [OF st1(2,3) this] obtain st' where st': "res_fold SendCommand cs st1 = Inr st'"
    "keeps_impls (snd st1) (snd st')" "new_events (snd st1) (snd st') = deliveries terms cs" "ric_of st' = ric_of st1" by blast
  have "new_events (snd st) (snd st') = deliveries terms (c # cs)"
    unfolding new_events_append [OF st1(5) st'(2)] st1(6) st'(3) by (simp add: deliveries_def)
  moreover have "res_fold SendCommand (c # cs) st = Inr st'" using st1(1) st'(1) by simp
  ultimately show ?case using keeps_impls_trans [OF st1(5) st'(2)] st'(4) st1(7) by (intro exI [of _ st']) simp
qed

section \<open>Stopping\<close>

text \<open>\<open>CancelRun\<close> does nothing once the module is inactive, so deactivation only clears the flag.\<close>

lemma lm_Deactivate_eq: "lm_Deactivate k st = Inr (on_world (upd_lm k (\<lambda>m. m\<lparr>lm_active := False\<rparr>)) st)"
  by (simp add: lm_Deactivate_def CancelRun_def Let_def lm_of_def on_world_def upd_lm_def)

lemma lm_Deactivate_all:
  "\<exists>st'. res_fold (\<lambda>e. lm_Deactivate (snd e)) es st = Inr st' \<and> snd st' = snd st \<and> ric_of st' = ric_of st \<and>
    e2t_of st' = e2t_of st \<and> (\<forall>k. lm_active (lm_of st' k) \<longleftrightarrow> lm_active (lm_of st k) \<and> k \<notin> snd ` set es)"
proof (induction es arbitrary: st)
  case (Cons e es)
  let ?st1 = "on_world (upd_lm (snd e) (\<lambda>m. m\<lparr>lm_active := False\<rparr>)) st"
  have "snd ?st1 = snd st" "ric_of ?st1 = ric_of st" "e2t_of ?st1 = e2t_of st"
    "\<And>k. lm_active (lm_of ?st1 k) \<longleftrightarrow> lm_active (lm_of st k) \<and> k \<noteq> snd e"
    by (simp_all add: on_world_def upd_lm_def ric_of_def e2t_of_def lm_of_def)
  with Cons [of ?st1] show ?case by (auto simp: lm_Deactivate_eq)
qed simp

lemma ric_Deactivate_frame:
  assumes "ric_Deactivate st = Inr st'" and "ric_active (ric_of st)"
  shows "snd st' = snd st" and "ric_of st' = (ric_of st)\<lparr>ric_active := False\<rparr>" and "\<not> et_active (e2t_of st')"
    and "k \<in> ric_lms (ric_of st) \<Longrightarrow> \<not> lm_active (lm_of st' k)"
proof -
  let ?st1 = "on_world (upd_data data_Deactivate) (e2t_Deactivate st)"
  from assms obtain dlm where dlm: "ric_defaultLm (ric_of st) = Some dlm"
    by (cases "ric_defaultLm (ric_of st)") (auto simp: ric_Deactivate_def Let_def)
  let ?st2 = "on_world (upd_lm dlm (\<lambda>m. m\<lparr>lm_active := False\<rparr>)) ?st1"
  have st2: "snd ?st2 = snd st" "ric_of ?st2 = ric_of st" "\<not> et_active (e2t_of ?st2)" "\<not> lm_active (lm_of ?st2 dlm)"
    by (simp_all add: on_world_def upd_lm_def upd_data_def e2t_Deactivate_def upd_e2t_def ric_of_def e2t_of_def lm_of_def)
  from lm_Deactivate_all [of "ric_additionalLms (ric_of st)" ?st2] obtain st3 where
    st3: "res_fold (\<lambda>e. lm_Deactivate (snd e)) (ric_additionalLms (ric_of st)) ?st2 = Inr st3" "snd st3 = snd st"
      "ric_of st3 = ric_of st" "e2t_of st3 = e2t_of ?st2"
      "\<forall>k. lm_active (lm_of st3 k) \<longleftrightarrow> lm_active (lm_of ?st2 k) \<and> k \<notin> snd ` set (ric_additionalLms (ric_of st))"
    unfolding st2(1,2) by blast
  have st': "st' = on_world (upd_ric (\<lambda>r. r\<lparr>ric_active := False\<rparr>)) (on_world (\<lambda>w. w\<lparr>w_cmm := cmm_Deactivate (w_cmm w)\<rparr>) st3)"
    using assms dlm st3(1) by (auto simp: ric_Deactivate_def Let_def lm_Deactivate_eq st2(2))
  show "snd st' = snd st" "ric_of st' = (ric_of st)\<lparr>ric_active := False\<rparr>"
    using st3(2,3) by (simp_all add: st' on_world_def upd_ric_def ric_of_def)
  show "\<not> et_active (e2t_of st')"
    using st3(4) st2(3) by (simp add: st' on_world_def upd_ric_def e2t_of_def)
  show "\<not> lm_active (lm_of st' k)" if "k \<in> ric_lms (ric_of st)"
  proof -
    have "lm_of st' = lm_of st3" by (simp add: st' on_world_def upd_ric_def lm_of_def fun_eq_iff)
    moreover have "k = dlm \<or> k \<in> snd ` set (ric_additionalLms (ric_of st))" using that dlm by (simp add: ric_lms_def)
    ultimately show ?thesis using st3(5) st2(4) by metis
  qed
qed

lemma Cancel_pending_mono: "IsPending (Cancel e' s) e \<Longrightarrow> IsPending s e"
  by (auto simp: IsPending_def Cancel_def IsExpired_def IsCancelled_def impl_Cancel_def split: option.splits if_splits)

section \<open>Properties\<close>

text \<open>
  C17: \<open>QueryLms\<close> of an active RIC returns when its pointers are set, its delays are not negative, the engine
  has room for the new events, and every logic module is of a kind whose run cannot abort: any but the two
  secrecy-aware ones, which end the simulation for a cell of an unknown gNB, and an ONNX classifier gives an
  output. It makes the current time the cycle and leaves the next query pending, due after exactly
  \<open>LmQueryInterval\<close>, so the control loop of such a RIC never stops by itself.
\<close>

theorem query_cycle_rearms:
  assumes "ric_ready (fst st)" and "\<forall>k\<in>ric_lms (ric_of st). ev_known (snd st) (lm_finishRunEvent (lm_of st k))"
    and "ric_active (ric_of st)" and "sim_inv (snd st)" and "room (query_events st) st"
  shows "\<exists>st'. QueryLms st = Inr st' \<and> ric_lmQueryCycle (ric_of st') = now_of st \<and>
    IsPending (snd st') (ric_lmQueryEvent (ric_of st')) \<and>
    GetDelayLeft (snd st') (ric_lmQueryEvent (ric_of st')) = ric_lmQueryInterval (ric_of st)"
proof -
  let ?cfg = "ric_config (ric_of st)"
  have ready: "ready_as ?cfg st" using assms(1,2) by (simp add: ready_as_def)
  have act: "ric_active ?cfg" using assms(3) by simp
  obtain st5 st' where st': "QueryLms st = Inr st'" "sched_query st5 = Inr st'"
    and st5: "ready_as (?cfg\<lparr>ric_lmQueryCycle := now_of st\<rparr>) st5" "sim_inv (snd st5)" "room 1 st5"
    by (rule QueryLms_total [OF ready act assms(4,5)])
  note f = ready_as_fields(1,2) [OF st5(1)]
  have rm: "Suc (m_nextImpl (snd st5)) + UID_VALID < 2 ^ 32" using st5(3) by (simp add: room_def)
  let ?k = "\<lambda>eid. upd_ric (\<lambda>r. r\<lparr>ric_lmQueryEvent := eid\<rparr>)"
  from sched_total [OF st5(2) ready_as_rvs(3) [OF st5(1)] rm, of Ev_QueryLms ?k] obtain st'' eid where
    s: "sched (ric_lmQueryInterval (ric_of st5)) Ev_QueryLms ?k st5 = Inr st''" "fst st'' = ?k eid (fst st5)"
      "IsPending (snd st'') eid" "GetDelayLeft (snd st'') eid = ric_lmQueryInterval (ric_of st5)" by metis
  have eq: "st'' = st'" using s(1) st'(2) by (simp add: sched_query_def)
  have "ric_of st' = (ric_of st5)\<lparr>ric_lmQueryEvent := eid\<rparr>"
    using s(2) by (simp add: eq ric_of_def upd_ric_def)
  then show ?thesis using st'(1) s(3,4) f by (simp add: eq)
qed

theorem query_cycle_rearms_witness:
  "\<exists>st'. QueryLms ex_loop = Inr st' \<and> ric_lmQueryCycle (ric_of st') = 10000000000 \<and>
    IsPending (snd st') (ric_lmQueryEvent (ric_of st')) \<and>
    GetDelayLeft (snd st') (ric_lmQueryEvent (ric_of st')) = 5000000000"
proof -
  have "\<forall>k\<in>ric_lms (ric_of ex_loop). ev_known (snd ex_loop) (lm_finishRunEvent (lm_of ex_loop k))"
    "ric_active (ric_of ex_loop)" "ric_lmQueryInterval (ric_of ex_loop) = 5000000000"
    by (simp_all add: ex_loop_eval)
  moreover have "room (query_events ex_loop) ex_loop"
    by (simp add: room_def query_events_def ex_loop_data one_node_last UID_VALID_def)
      (simp add: ex_loop_eval)
  ultimately show ?thesis
    using query_cycle_rearms [OF ex_loop_ready] ex_sim_inv by simp
qed



text \<open>
  C19: The commands of a cycle do not depend on the order in which the logic modules finish, when their
  (name, is default) keys differ. When every logic module of the RIC has handed over its commands, in any order,
  and none was late, the last
  notification processes exactly the map from the (name, is default) keys to the commands, in the
  order of the keys; until then nothing is sent.
\<close>

theorem finish_order_irrelevant:
  assumes "ric_lmQueryCommands (ric_of st) = []" and "awaiting st"
    and "distinct ks" and "inj_on (lm_key st) (set ks)" and "length ks = length (ric_additionalLms (ric_of st)) + 1"
  shows "res_fold (\<lambda>k. NotifyLmFinished (ric_lmQueryCycle (ric_of st)) (cs k) k) ks st =
    ProcessLmQueryCommands (with_commands (cycle_commands (lm_key st) cs ks) st) \<and>
    (\<forall>ks'. mset ks' = mset ks \<longrightarrow> cycle_commands (lm_key st) cs ks' = cycle_commands (lm_key st) cs ks)"
proof (intro conjI allI impI)
  have st: "with_commands [] st = st"
    using assms(1) by (cases st) (simp add: with_commands_def on_world_def upd_ric_def ric_of_def)
  obtain xs k where ks: "ks = xs @ [k]" using assms(5) by (cases ks rule: rev_cases) auto
  have d: "distinct (k # xs)" "inj_on (lm_key st) (set (k # xs))" "distinct xs" "inj_on (lm_key st) (set xs)"
    using assms(3,4) by (auto simp: ks inj_on_def)
  have "res_fold (\<lambda>k. NotifyLmFinished (ric_lmQueryCycle (ric_of st)) (cs k) k) xs st =
      Inr (with_commands (cycle_commands (lm_key st) cs xs) st)"
    using notify_prefix [OF d(3,4) assms(2), of cs] assms(5) unfolding st by (simp add: ks)
  then show "res_fold (\<lambda>k. NotifyLmFinished (ric_lmQueryCycle (ric_of st)) (cs k) k) ks st =
      ProcessLmQueryCommands (with_commands (cycle_commands (lm_key st) cs ks) st)"
    using notify_step [OF d(1,2) assms(2), of cs] assms(5) by (simp add: ks res_fold_append)
next
  fix ks' assume "mset ks' = mset ks"
  then have "set ks' = set ks" "distinct ks'" using assms(3) mset_eq_imp_distinct_iff mset_eq_setD by blast+
  then have "sort_key (lm_key st) ks' = sort_key (lm_key st) ks"
    using assms(3,4) by (intro map_sorted_distinct_set_unique [of "lm_key st"]) (auto simp: distinct_map)
  then show "cycle_commands (lm_key st) cs ks' = cycle_commands (lm_key st) cs ks" by (simp add: cycle_commands_def)
qed

theorem finish_order_irrelevant_witness:
  "let st = on_world (upd_ric (\<lambda>r. r\<lparr>ric_additionalLms := [(''OranLmNoop'', 1)]\<rparr>)) ex_loop;
       cs = (\<lambda>k :: nat. [OranCommand (of_nat k)]);
       notify = (\<lambda>k. NotifyLmFinished 0 (cs k) k)
   in res_fold notify [0, 1] st = res_fold notify [1, 0] st"
proof -
  let ?st = "on_world (upd_ric (\<lambda>r. r\<lparr>ric_additionalLms := [(''OranLmNoop'', 1)]\<rparr>)) ex_loop"
  let ?cs = "\<lambda>k :: nat. [OranCommand (of_nat k)]"
  have q: "ric_lmQueryCommands (ric_of ?st) = []" "awaiting ?st" "ric_lmQueryCycle (ric_of ?st) = 0"
    "length (ric_additionalLms (ric_of ?st)) = 1" "lm_key ?st 0 \<noteq> lm_key ?st 1"
    by (simp_all add: awaiting_def lm_key_def ex_loop_eval on_world_def upd_ric_def)
  have inj: "inj_on (lm_key ?st) (set [0, 1])" "inj_on (lm_key ?st) (set [1, 0])"
    using q(5) by (auto simp: inj_on_def)
  have "length [0 :: nat, 1] = length (ric_additionalLms (ric_of ?st)) + 1"
    "length [1 :: nat, 0] = length (ric_additionalLms (ric_of ?st)) + 1" using q(4) by simp_all
  note l = this
  have d: "distinct [0 :: nat, 1]" "distinct [1 :: nat, 0]" by simp_all
  note f = finish_order_irrelevant [OF q(1,2) d(1) inj(1) l(1), of ?cs]
  note g = finish_order_irrelevant [OF q(1,2) d(2) inj(2) l(2), of ?cs, THEN conjunct1]
  have "cycle_commands (lm_key ?st) ?cs [1, 0] = cycle_commands (lm_key ?st) ?cs [0, 1]"
    by (rule f [THEN conjunct2, THEN spec, THEN mp]) simp
  then show ?thesis unfolding Let_def using f [THEN conjunct1] g unfolding q(3) by argo
qed

text \<open>
  C20: Processing the commands of a cycle schedules exactly one delivery for each command that the
  conflict mitigation module lets through and whose target is a registered terminator, in the order of
  the module, and empties the collection. Commands for unknown nodes are dropped.
\<close>

theorem filtered_commands_delivered:
  assumes act: "ric_active (ric_of st)" "ric_cmm (ric_of st)" "ric_e2Terminator (ric_of st)"
    and e2t: "e2t_ready terms st" and inv: "sim_inv (snd st)"
    and filt: "Filter (now_of st) (w_cmm (fst st)) (ric_lmQueryCommands (ric_of st)) (data_of st) = Inr (out, c, d)"
    and rm: "room (length out) st"
  shows "\<exists>st'. ProcessLmQueryCommands st = Inr st' \<and> new_events (snd st) (snd st') = deliveries terms out \<and>
    ric_lmQueryCommands (ric_of st') = []"
proof -
  let ?st1 = "cancel_pending (ric_processEvent (ric_of st)) st"
  let ?st2 = "on_world (\<lambda>w. w\<lparr>w_cmm := c, w_data := d\<rparr>) ?st1"
  have st1: "fst ?st1 = fst st" "now_of ?st1 = now_of st" "m_nextImpl (snd ?st1) = m_nextImpl (snd st)" "sim_inv (snd ?st1)"
    using inv by (simp_all add: cancel_pending_def cancel_id_def now_of_def Cancel_inv)
  have st2: "e2t_ready terms ?st2" "sim_inv (snd ?st2)" "room (length out) ?st2" "snd ?st2 = snd ?st1"
    using e2t st1 rm by (simp_all add: e2t_ready_def e2t_of_def on_world_def room_def)
  from SendCommands_total [OF st2(1-3)] obtain st3 where st3: "res_fold SendCommand out ?st2 = Inr st3"
    "new_events (snd ?st2) (snd st3) = deliveries terms out" by blast
  let ?st' = "on_world (upd_ric (\<lambda>r. r\<lparr>ric_lmQueryCommands := []\<rparr>)) st3"
  have "ProcessCommands out ?st2 = Inr st3" using st3(1) st2(1) by (simp add: ProcessCommands_def e2t_ready_def)
  then have "ProcessLmQueryCommands st = Inr ?st'"
    using act filt by (simp add: ProcessLmQueryCommands_def Let_def ric_of_def data_of_def st1(1,2))
  moreover have "new_events (snd st) (snd ?st') = deliveries terms out"
    using st3(2) by (simp add: new_events_def st2(4) st1(3))
  moreover have "ric_lmQueryCommands (ric_of ?st') = []" by (simp add: ric_of_def on_world_def upd_ric_def)
  ultimately show ?thesis by blast
qed

theorem filtered_commands_delivered_witness:
  "\<exists>st'. ProcessLmQueryCommands (with_commands [((''OranLmNoop'', True), [OranCommand 1, OranCommand 2])] ex_loop) = Inr st' \<and>
    new_events ex_sim (snd st') = [Ev_ReceiveCommand 0 (OranCommand 1)] \<and> ric_lmQueryCommands (ric_of st') = []"
proof -
  let ?q = "[((''OranLmNoop'', True), [OranCommand 1, OranCommand 2])]"
  let ?st = "with_commands ?q ex_loop"
  have a: "ric_active (ric_of ?st)" "ric_cmm (ric_of ?st)" "ric_e2Terminator (ric_of ?st)" "e2t_ready [(1, 0)] ?st"
    and s: "snd ?st = ex_sim" and w: "w_cmm (fst ?st) = (OranCmm ''OranCmmNoop'' OranCmmNoop)\<lparr>cmm_nearRtRic := True, cmm_active := True\<rparr>"
    by (simp_all add: with_commands_def on_world_def upd_ric_def ex_loop_eval e2t_ready_def draws_ok_def)
  have f: "Filter (now_of ?st) (w_cmm (fst ?st)) (ric_lmQueryCommands (ric_of ?st)) (data_of ?st) =
      Inr ([OranCommand 1, OranCommand 2], w_cmm (fst ?st), data_of ?st)"
    unfolding w by (simp add: Filter_def noop_Filter_def OranCmm_def LogLogicToStorage_def log_logic_def)
  have r: "room (length [OranCommand 1, OranCommand 2]) ?st" by (simp add: room_def s UID_VALID_def)
  from filtered_commands_delivered [OF a _ f r] ex_sim_inv show ?thesis
    unfolding s by (simp add: deliveries_def GetTargetE2NodeId_def)
qed

text \<open>
  C22: A stopped RIC is silent: after \<open>Stop\<close> its three events are not pending, and every message that
  still arrives (a query, a check, a registration request, a deregistration request, a report, or a
  finished run of one of its logic modules) changes nothing.
\<close>

theorem stopped_ric_silent:
  assumes stop: "ric_Stop st = Inr st'" and act: "ric_active (ric_of st)"
    and known: "ev_known (snd st) (ric_lmQueryEvent (ric_of st))" "ev_known (snd st) (ric_inactivityEvent (ric_of st))"
      "ev_known (snd st) (ric_processEvent (ric_of st))"
  shows "\<not> IsPending (snd st') (ric_lmQueryEvent (ric_of st')) \<and>
    \<not> IsPending (snd st') (ric_inactivityEvent (ric_of st')) \<and>
    \<not> IsPending (snd st') (ric_processEvent (ric_of st')) \<and>
    (\<forall>ev\<in>{Ev_QueryLms, Ev_CheckForInactivity, Ev_ProcessLmQueryCommands, Ev_ReceiveRegistrationRequest ty i t,
        Ev_ReceiveDeregistrationRequest i, Ev_ReceiveReport r} \<union> Ev_FinishRun ` ric_lms (ric_of st').
      invoke ev st' = Inr st')"
proof -
  from stop obtain st1 where st1: "ric_Deactivate st = Inr st1"
    and st': "st' = cancel_id (ric_processEvent (ric_of st1)) (cancel_id (ric_inactivityEvent (ric_of st1))
      (cancel_id (ric_lmQueryEvent (ric_of st1)) st1))"
    by (auto simp: ric_Stop_def ric_of_def)
  note f = ric_Deactivate_frame [OF st1 act]
  have w: "ric_of st' = ric_of st1" "e2t_of st' = e2t_of st1" "lm_of st' = lm_of st1"
    by (simp_all add: st' ric_of_def e2t_of_def lm_of_def fun_eq_iff)
  have s: "snd st' = Cancel (ric_processEvent (ric_of st)) (Cancel (ric_inactivityEvent (ric_of st))
      (Cancel (ric_lmQueryEvent (ric_of st)) (snd st)))"
    by (simp add: st' cancel_id_def f(1,2))
  have "\<not> IsPending (snd st') (ric_lmQueryEvent (ric_of st))"
    unfolding s using Cancel_known_not_pending [OF known(1)] Cancel_pending_mono by blast
  moreover have "\<not> IsPending (snd st') (ric_inactivityEvent (ric_of st))"
    unfolding s using Cancel_known_not_pending [OF ev_known_grows [OF known(2) Cancel_grows]] Cancel_pending_mono by blast
  moreover have "\<not> IsPending (snd st') (ric_processEvent (ric_of st))"
    unfolding s using Cancel_known_not_pending [OF ev_known_grows [OF ev_known_grows [OF known(3) Cancel_grows] Cancel_grows]] .
  moreover have "\<not> ric_active (ric_of st')" "\<not> et_active (e2t_of st')" "ric_lms (ric_of st') = ric_lms (ric_of st)"
    using f(2,3) by (simp_all add: w ric_lms_def)
  moreover have "\<forall>k\<in>ric_lms (ric_of st). \<not> lm_active (lm_of st' k)" using f(4) by (simp add: w)
  ultimately show ?thesis using f(2)
    by (auto simp: w invoke_def QueryLms_def CheckForInactivity_def ProcessLmQueryCommands_def
        ReceiveRegistrationRequest_def ReceiveDeregistrationRequest_def ReceiveReport_def FinishRun_def Let_def)
qed

theorem stopped_ric_silent_witness:
  "\<exists>st'. ric_Stop ex_loop = Inr st' \<and> invoke Ev_QueryLms st' = Inr st' \<and> invoke (Ev_FinishRun 0) st' = Inr st'"
proof -
  obtain st' where st': "ric_Stop ex_loop = Inr st'"
    by (simp add: ric_Stop_def ric_Deactivate_def Let_def lm_Deactivate_eq ex_loop_eval e2t_Deactivate_def
        on_world_def upd_e2t_def upd_data_def upd_lm_def)
  have a: "ric_active (ric_of ex_loop)" "ev_known (snd ex_loop) (ric_lmQueryEvent (ric_of ex_loop))"
    "ev_known (snd ex_loop) (ric_inactivityEvent (ric_of ex_loop))"
    "ev_known (snd ex_loop) (ric_processEvent (ric_of ex_loop))"
    by (simp_all add: ex_loop_eval)
  from st' obtain st1 where st1: "ric_Deactivate ex_loop = Inr st1" "ric_of st' = ric_of st1"
    by (auto simp: ric_Stop_def ric_of_def)
  then have "0 \<in> ric_lms (ric_of st')"
    using ric_Deactivate_frame(2) [OF st1(1) a(1)] by (simp add: ric_lms_def ex_loop_eval)
  then show ?thesis using stopped_ric_silent [OF st' a] st' by blast
qed

text \<open>
  Deactivating a logic module does not cancel its run: \<open>Deactivate\<close> clears the active flag before
  it calls \<open>CancelRun\<close>, which then does nothing. The run stays pending with its commands, and
  activating the module again restores exactly the state before, so the commands are still delivered.
\<close>

theorem deactivation_keeps_run:
  assumes "lm_active (lm_of st k)" and "lm_nearRtRic (lm_of st k)" and "IsRunning k st"
  shows "\<exists>st'. lm_Deactivate k st = Inr st' \<and> IsRunning k st' \<and>
    lm_commands (lm_of st' k) = lm_commands (lm_of st k) \<and> lm_Activate k st' = Inr st"
proof -
  let ?st' = "on_world (upd_lm k (\<lambda>m. m\<lparr>lm_active := False\<rparr>)) st"
  have n: "lm_of ?st' k = (lm_of st k)\<lparr>lm_active := False\<rparr>" "snd ?st' = snd st"
    by (simp_all add: lm_of_def on_world_def upd_lm_def)
  have "(w_lms (fst st) k)\<lparr>lm_active := True\<rparr> = w_lms (fst st) k"
    using assms(1) by (cases "w_lms (fst st) k") (simp add: lm_of_def)
  then have "lm_Activate k ?st' = Inr st"
    using assms(2) n(1) by (cases st) (simp add: lm_Activate_def on_world_def upd_lm_def lm_of_def)
  then show ?thesis using assms(3) n by (auto simp: lm_Deactivate_eq IsRunning_def)
qed

text \<open>
  Commands that were late in one cycle never reach the nodes. With the policy \<open>SAVE\<close> a late batch is
  stored under the key of its logic module, but the next notification of that module empties the entry
  before it stores the new batch: what the conflict mitigation module gets is the new batch alone.
\<close>

lemma saved_late_commands_lost:
  assumes "\<not> awaiting st" and "ric_lateCommandPolicy (ric_of st) = SAVE"
  shows "\<exists>st1. NotifyLmFinished (ric_lmQueryCycle (ric_of st)) late k st = Inr st1 \<and>
    map_of (ric_lmQueryCommands (ric_of st1)) (lm_key st k) = Some late \<and>
    (\<forall>st2. ric_lmQueryCommands (ric_of st2) = ric_lmQueryCommands (ric_of st1) \<longrightarrow> lm_key st2 k = lm_key st k \<longrightarrow>
       awaiting st2 \<longrightarrow>
       (\<exists>q. map_of q = (map_of (ric_lmQueryCommands (ric_of st)))(lm_key st k \<mapsto> fresh) \<and>
          NotifyLmFinished (ric_lmQueryCycle (ric_of st2)) fresh k st2
            \<in> {Inr (with_commands q st2), ProcessLmQueryCommands (with_commands q st2)}))"
proof -
  let ?q1 = "collect_commands (lm_key st k) False SAVE late (ric_lmQueryCommands (ric_of st))"
  have q1: "map_of ?q1 = (map_of (ric_lmQueryCommands (ric_of st)))(lm_key st k \<mapsto> late)"
    by (auto simp: collect_commands_def append_commands_def smap_get_def Let_def)
  have n1: "NotifyLmFinished (ric_lmQueryCycle (ric_of st)) late k st = Inr (with_commands ?q1 st)"
    using assms by (simp add: NotifyLmFinished_eq Let_def)
  have "\<exists>q. map_of q = (map_of (ric_lmQueryCommands (ric_of st)))(lm_key st k \<mapsto> fresh) \<and>
      NotifyLmFinished (ric_lmQueryCycle (ric_of st2)) fresh k st2
        \<in> {Inr (with_commands q st2), ProcessLmQueryCommands (with_commands q st2)}"
    if "ric_lmQueryCommands (ric_of st2) = ?q1" "lm_key st2 k = lm_key st k" "awaiting st2" for st2
  proof -
    let ?q = "collect_commands (lm_key st k) True (ric_lateCommandPolicy (ric_of st2)) fresh ?q1"
    have "map_of ?q = (map_of (ric_lmQueryCommands (ric_of st)))(lm_key st k \<mapsto> fresh)"
      unfolding collect_commands_def [of _ True] by (simp add: Let_def append_commands_def smap_get_def q1)
    then show ?thesis using that by (intro exI [of _ ?q]) (simp add: NotifyLmFinished_eq Let_def)
  qed
  then show ?thesis using n1 q1 by (intro exI [of _ "with_commands ?q1 st"]) simp
qed

text \<open>
  The events of the control loop run in the strict order of their keys (time, then order of
  scheduling), whatever methods of the RIC, the E2 nodes and the logic modules they call, and the
  engine's invariant holds after every one.
\<close>

lemma control_loop_ordered:
  assumes "sim_inv (snd st)" and "steps invoke n st = Inr (ks, st')" and "few_events (snd st')"
  shows "sorted_wrt (<) (current_key (snd st) # ks) \<and> sim_inv (snd st') \<and>
    current_key (snd st') = last (current_key (snd st) # ks)"
  using assms by (rule control.steps_ordered)

text \<open>
  C24: Other threads may hand events to the control loop at any moment: along every interleaving the engine's
  invariant holds, the clock never goes back, the events enter the event list in the order they were handed
  over and never timed from an earlier clock than the one at the hand-over, and when the loop runs out of
  events the count of unscheduled ones is zero, so the consistency test at the end of \<open>Run\<close> passes.
\<close>

theorem control_loop_with_threads:
  assumes "mt_run invoke st tr st'" and "sim_inv (mt_sim st)" and "few_events (mt_sim st')"
    and "stamps_fit tr" and "backlog st = []"
  shows "sim_inv (mt_sim st') \<and> Now (mt_sim st) \<le> Now (mt_sim st') \<and>
    (\<forall>i < length (inserted tr). i < length (handed tr) \<and>
      snd (inserted tr ! i) = snd (handed tr ! i) \<and> fst (handed tr ! i) \<le> fst (inserted tr ! i)) \<and>
    (m_events (mt_sim st') = [] \<longrightarrow> m_unscheduledEvents (mt_sim st') = 0)"
  using assms by (rule control.interleaved_run)

definition ex_handed :: "oran_event event_with_context" where
  "ex_handed = \<lparr>ew_context = 1, ew_timestamp = 5, ew_event = Ev_ReceiveDeregistrationResponse 0 1\<rparr>"

definition ex_threads :: "oran_event threads" where
  "ex_threads = \<lparr>th_sim = snd ex_loop, m_eventsWithContext = [], m_eventsWithContextEmpty = True,
     m_eventsWithContextMutex = False\<rparr>"

theorem control_loop_with_threads_witness:
  "\<exists>tr st'. mt_run invoke (At_Flag, fst ex_loop, ex_threads) tr st' \<and>
    handed tr = [(10000000000, ex_handed)] \<and> inserted tr = [(10000000000, ex_handed)] \<and> sim_inv (mt_sim st')"
proof -
  let ?t = "hand_over ex_handed ex_threads"
  have t: "th_sim ?t = ex_sim" "m_eventsWithContext ?t = [ex_handed]" "\<not> m_eventsWithContextEmpty ?t" "flag_ok ?t"
    "\<not> m_eventsWithContextMutex ?t" "Now ex_sim = 10000000000"
    by (simp_all add: hand_over_defs ex_threads_def flag_ok_def) (simp add: Now_def ex_sim_def)
  from move_event_total [OF ex_sim_inv] obtain sim where sim: "move_event ex_handed ex_sim = Inr sim" by blast
  then have few: "few_events sim"
    using move_event_creates [OF sim] by (simp add: few_events_def UID_VALID_def)
  obtain t' where t': "ProcessEventsWithContext ?t = Inr t'" "th_sim t' = sim"
    using t(1-3) sim by (simp add: ProcessEventsWithContext_def)
  from process_run [OF t'(1) t(4,5), of invoke "fst ex_loop"] t obtain tr where
    tr: "mt_run invoke (At_Flag, fst ex_loop, ?t) tr (At_Loop, fst ex_loop, t')" "handed tr = []"
      "inserted tr = [(10000000000, ex_handed)]" by auto
  have "Now (th_sim ex_threads) = 10000000000" using t(1,6) by (simp add: hand_over_defs)
  then have run: "mt_run invoke (At_Flag, fst ex_loop, ex_threads) (Handed 10000000000 ex_handed # Silent # tr)
      (At_Loop, fst ex_loop, t')"
    using hand_over_run [OF _ tr(1)] by (simp add: Now_def ex_threads_def)
  have "sim_inv (th_sim t')"
    using control_loop_with_threads [OF run] few t'(2) tr(3) ex_sim_inv
    by (simp add: stamps_fit_def backlog_def ex_threads_def ex_handed_def)
  with run tr(2,3) show ?thesis by (metis handed.simps(2,5) inserted.simps(3,5) snd_conv)
qed

end
