(* ===== verification/Handshake.thy ===== *)
theory Handshake
  imports Control_Loop
begin

text \<open>
  The registration handshake between an E2 node and the RIC, and the way of a report from a node to
  the repository: what the two sides agree on when the messages have been exchanged.
\<close>

section \<open>The request\<close>

definition node_op :: "uint64 \<Rightarrow> e2_node \<Rightarrow> reg_op" where
  "node_op i n =
     (case en_type n of
        LTEUE \<Rightarrow> Reg_lte_ue i (en_imsi n)
      | NRUE \<Rightarrow> Reg_nr_ue i (en_imsi n)
      | LTEENB \<Rightarrow> Reg_lte_enb i (en_cellId n)
      | NRGNB \<Rightarrow> Reg_nr_gnb i (en_cellId n)
      | WIRED \<Rightarrow> Reg_node WIRED i)"

lemma register_by_type_ok:
  assumes "GetNetDevice n = Inr ()"
  shows "register_by_type now (en_type n) i n d = Inr (apply_reg now (node_op i n) d)"
  using assms by (simp add: register_by_type_def node_op_def apply_reg_def split: node_type.split)

lemma node_op_simps [simp]: "\<not> is_dereg (node_op i n)" "op_id (node_op i n) = i"
  by (simp_all add: node_op_def is_dereg_def op_id_def split: node_type.split)

lemma apply_reg_registers:
  assumes act: "d_active d" and up: "regs_upto now d" and "\<not> is_dereg oper"
  shows "IsNodeRegistered (snd (apply_reg now oper d)) (fst (apply_reg now oper d))"
proof -
  obtain e d' where r: "RegisterNode now (op_type oper) (op_id oper) d = (e, d')" by force
  have "IsNodeRegistered (reg_table oper d') e = IsNodeRegistered d' e" by (rule IsNodeRegistered_cong) simp_all
  then show ?thesis
    using RegisterNode_registered(1) [OF act up r] by (simp add: apply_reg_eq [OF act assms(3)] r)
qed

section \<open>The answer\<close>

definition keeps_id :: "nat \<Rightarrow> (oran_st \<Rightarrow> oran_st res) \<Rightarrow> bool" where
  "keeps_id i f \<longleftrightarrow> (\<forall>st st'. f st = Inr st' \<longrightarrow> en_e2NodeId (node_of st' i) = en_e2NodeId (node_of st i))"

named_theorems id_intro \<open>methods that leave the identifier of a node alone\<close>

lemma keeps_idD: "keeps_id i f \<Longrightarrow> f st = Inr st' \<Longrightarrow> en_e2NodeId (node_of st' i) = en_e2NodeId (node_of st i)"
  unfolding keeps_id_def by blast

lemma keeps_id_world: "(\<And>w. en_e2NodeId (w_nodes (g w) i) = en_e2NodeId (w_nodes w i)) \<Longrightarrow> keeps_id i (\<lambda>st. Inr (on_world g st))"
  by (simp add: keeps_id_def node_of_def on_world_def)

lemma keeps_id_Inr [id_intro]: "keeps_id i Inr" "keeps_id i (\<lambda>st. Inr st)" "keeps_id i (\<lambda>st. Inl (e st))"
  by (simp_all add: keeps_id_def)

lemma keeps_id_reporter [id_intro]:
  "keeps_id i (\<lambda>st. Inr (on_world (upd_reporter i j f) st))"
  "keeps_id i (\<lambda>st. Inr (on_world (upd_node i (\<lambda>n. n\<lparr>en_reports := g n\<rparr>)) st))"
  by (rule keeps_id_world, simp add: upd_reporter_def upd_node_def)+

lemma keeps_id_cancel [id_intro]: "keeps_id i (\<lambda>st. Inr (cancel_pending (e st) st))"
  by (simp add: keeps_id_def)

lemma keeps_id_sched [id_intro]:
  assumes "\<And>st eid w. en_e2NodeId (w_nodes (k st eid w) i) = en_e2NodeId (w_nodes w i)"
  shows "keeps_id i (\<lambda>st. sched (delay st) (ev st) (k st) st)"
  unfolding keeps_id_def
proof (intro allI impI)
  fix st st'
  assume "sched (delay st) (ev st) (k st) st = Inr st'"
  from sched_world [OF this] obtain eid where "fst st' = k st eid (fst st)" ..
  then show "en_e2NodeId (node_of st' i) = en_e2NodeId (node_of st i)"
    using assms [of st eid "fst st"] by (simp add: node_of_def)
qed

lemma keeps_id_bind [id_intro]:
  assumes "keeps_id i f" and "\<And>st0. keeps_id i (g st0)"
  shows "keeps_id i (\<lambda>st. res_bind (f st) (g st))"
  unfolding keeps_id_def
proof (intro allI impI)
  fix st st'
  assume "res_bind (f st) (g st) = Inr st'"
  then obtain st1 where "f st = Inr st1" "g st st1 = Inr st'" by (elim res_bind_eq_InrE)
  then show "en_e2NodeId (node_of st' i) = en_e2NodeId (node_of st i)"
    using keeps_idD [OF assms(1)] keeps_idD [OF assms(2)] by metis
qed

lemma keeps_id_if [id_intro]:
  "keeps_id i f \<Longrightarrow> keeps_id i g \<Longrightarrow> keeps_id i (\<lambda>st. if b st then f st else g st)"
  "keeps_id i f \<Longrightarrow> keeps_id i (\<lambda>st. abort_if (b st) e (f st))"
  by (simp_all add: keeps_id_def abort_if_def)

lemma keeps_id_case [id_intro]:
  "keeps_id i f \<Longrightarrow> (\<And>x. keeps_id i (g x)) \<Longrightarrow> keeps_id i (\<lambda>st. case c st of None \<Rightarrow> f st | Some x \<Rightarrow> g x st)"
  "(\<And>x y. keeps_id i (h x y)) \<Longrightarrow> keeps_id i (\<lambda>st. case p st of (x, y) \<Rightarrow> h x y st)"
  "(\<And>x y. keeps_id i (t x y)) \<Longrightarrow> (\<And>x y. keeps_id i (u x y)) \<Longrightarrow>
    keeps_id i (\<lambda>st. case k st of Periodic x y \<Rightarrow> t x y st | Traced x y \<Rightarrow> u x y st)"
  by (simp_all add: keeps_id_def split: option.split prod.split trigger_class.split)

lemma keeps_id_fold [id_intro]:
  assumes "\<And>x. keeps_id i (f x)"
  shows "keeps_id i (res_fold f xs)"
proof (induction xs)
  case (Cons x xs)
  have "keeps_id i (\<lambda>st. res_bind (f x st) (res_fold f xs))" by (rule keeps_id_bind [OF assms Cons])
  then show ?case by simp
qed (simp add: keeps_id_def)

lemma keeps_id_fold_state [id_intro]:
  assumes "\<And>x. keeps_id i (f x)"
  shows "keeps_id i (\<lambda>st. res_fold f (xs st) st)"
proof -
  have "keeps_id i (res_fold f ys)" for ys by (rule keeps_id_fold) (rule assms)
  then show ?thesis unfolding keeps_id_def by blast
qed

lemma upd_trigger_id: "en_e2NodeId (w_nodes (upd_trigger i j f w) i) = en_e2NodeId (w_nodes w i)"
  by (simp add: upd_trigger_def upd_reporter_def upd_node_def)

lemma ScheduleNextTrigger_id [id_intro]: "keeps_id i (ScheduleNextTrigger i j rv)"
  unfolding ScheduleNextTrigger_def by (intro id_intro upd_trigger_id)

lemma keeps_id_query:
  "(\<And>x. keeps_id i (g x)) \<Longrightarrow> keeps_id i (\<lambda>st. res_bind (q st) (\<lambda>x. g x st))"
  by (auto simp: keeps_id_def elim!: res_bind_eq_InrE)

lemmas keeps_id_queries [id_intro] = keeps_id_query [where 'a = unit]
  keeps_id_query [where 'a = "oran_report list \<times> reporter_class"]

lemma ConnectSink_id [id_intro]: "keeps_id i (ConnectSink i j src b)"
  unfolding ConnectSink_def upd_trigger_def by (intro id_intro)

lemma trigger_Deactivate_id [id_intro]: "keeps_id i (trigger_Deactivate i j)"
  unfolding trigger_Deactivate_def by (intro id_intro)

lemma reporter_Deactivate_id [id_intro]: "keeps_id i (reporter_Deactivate i j)"
  unfolding reporter_Deactivate_def by (intro id_intro)

lemma StoreReport_id [id_intro]: "keeps_id i (StoreReport i r)"
  unfolding StoreReport_def by (intro id_intro)

lemma PerformReport_id [id_intro]: "keeps_id i (PerformReport i j)"
  unfolding PerformReport_def Let_def by (intro id_intro)

lemma TriggerReport_id [id_intro]: "keeps_id i (TriggerReport i j)"
  unfolding TriggerReport_def by (intro id_intro)

lemma NotifyRegistrationComplete_id [id_intro]: "keeps_id i (NotifyRegistrationComplete i j)"
  unfolding NotifyRegistrationComplete_def by (intro id_intro)

lemma ScheduleNextSend_id [id_intro]: "keeps_id i (ScheduleNextSend i)"
  unfolding ScheduleNextSend_def by (intro id_intro) (simp add: upd_node_def)

lemma ReceiveRegistrationResponse_id:
  assumes r: "ReceiveRegistrationResponse i e st = Inr st'" and a: "en_active (node_of st i)"
  shows "en_e2NodeId (node_of st' i) = e"
proof -
  let ?st1 = "on_world (upd_node i (\<lambda>n. n\<lparr>en_e2NodeId := e\<rparr>)) st"
  let ?rest = "\<lambda>st1. if e > 0 then res_fold (NotifyRegistrationComplete i) [0..<length (en_reporters (node_of st1 i))] st1
    else Inr st1"
  have rest: "keeps_id i ?rest" by (intro id_intro)
  show ?thesis
  proof (cases "en_e2NodeId (node_of st i) = e")
    case True
    with r a have "ScheduleNextSend i st = Inr st'" by (simp add: ReceiveRegistrationResponse_def)
    from keeps_idD [OF ScheduleNextSend_id this] True show ?thesis by simp
  next
    case False
    have "res_bind (?rest ?st1) (ScheduleNextSend i) = Inr st'"
      using r a False by (simp add: ReceiveRegistrationResponse_def)
    then obtain st2 where st2: "?rest ?st1 = Inr st2" "ScheduleNextSend i st2 = Inr st'" by (elim res_bind_eq_InrE)
    have "en_e2NodeId (node_of ?st1 i) = e" by simp
    then show ?thesis using keeps_idD [OF rest st2(1)] keeps_idD [OF ScheduleNextSend_id st2(2)] by simp
  qed
qed

section \<open>Properties\<close>

text \<open>
  C21: The registration handshake makes both sides agree. The E2 terminator of the RIC answers the request
  of a node with exactly one message, which carries the identifier under which the repository now has
  the node as registered and under which the RIC knows its terminator; an active node that receives
  the answer has that identifier.
\<close>

theorem registration_handshake:
  assumes e2t: "e2t_ready terms st" and dev: "GetNetDevice (node_of st i) = Inr ()"
    and data: "d_active (data_of st)" "regs_upto (now_of st) (data_of st)"
    and inv: "sim_inv (snd st)" and rm: "room 1 st"
  shows "\<exists>st1 e. ReceiveRegistrationRequest (en_type (node_of st i)) (en_e2NodeId (node_of st i)) i st = Inr st1 \<and>
    new_events (snd st) (snd st1) = [Ev_ReceiveRegistrationResponse i e] \<and>
    IsNodeRegistered (data_of st1) e \<and> map_of (et_nodeTerminators (e2t_of st1)) e = Some i \<and>
    (\<forall>st2 st3. en_active (node_of st2 i) \<longrightarrow> ReceiveRegistrationResponse i e st2 = Inr st3 \<longrightarrow>
       en_e2NodeId (node_of st3 i) = e)"
proof -
  let ?n = "node_of st i"
  obtain e d where r: "apply_reg (now_of st) (node_op (en_e2NodeId ?n) ?n) (data_of st) = (e, d)" by force
  let ?st0 = "on_world (upd_e2t (\<lambda>t. t\<lparr>et_nodeTerminators := smap_upd e i (et_nodeTerminators t)\<rparr>) \<circ> upd_data (\<lambda>_. d)) st"
  have st0: "e2t_ready (smap_upd e i terms) ?st0" "snd ?st0 = snd st" "data_of ?st0 = d"
    using e2t by (simp_all add: e2t_ready_def on_world_def e2t_of_def upd_e2t_def upd_data_def data_of_def)
  have "sim_inv (snd ?st0)" "room 1 ?st0" using inv rm by (simp_all add: st0(2) room_def)
  from e2t_transmit_total [OF st0(1) this, of "Ev_ReceiveRegistrationResponse i e"] obtain st1 where
    st1: "e2t_transmit (Ev_ReceiveRegistrationResponse i e) ?st0 = Inr st1" "e2t_ready (smap_upd e i terms) st1"
      "new_events (snd st) (snd st1) = [Ev_ReceiveRegistrationResponse i e]" unfolding st0(2) by blast
  have "ReceiveRegistrationRequest (en_type ?n) (en_e2NodeId ?n) i st = Inr st1"
    using e2t st1(1) by (simp add: ReceiveRegistrationRequest_def e2t_ready_def register_by_type_ok [OF dev] r)
  moreover have "IsNodeRegistered (data_of st1) e"
    using apply_reg_registers [OF data, of "node_op (en_e2NodeId ?n) ?n"] e2t_transmit_frame(1) [OF st1(1)]
    by (simp add: r st0(3))
  moreover have "map_of (et_nodeTerminators (e2t_of st1)) e = Some i" using st1(2) by (simp add: e2t_ready_def)
  ultimately show ?thesis using st1(3) ReceiveRegistrationResponse_id by blast
qed

theorem registration_handshake_witness:
  "\<exists>st1 e. ReceiveRegistrationRequest NRUE 3 0 (on_world (upd_node 0 (\<lambda>n. n\<lparr>en_node := True, en_device := True\<rparr>)) ex_loop) = Inr st1 \<and>
    IsNodeRegistered (data_of st1) e \<and> map_of (et_nodeTerminators (e2t_of st1)) e = Some 0"
proof -
  let ?st = "on_world (upd_node 0 (\<lambda>n. n\<lparr>en_node := True, en_device := True\<rparr>)) ex_loop"
  have n: "GetNetDevice (node_of ?st 0) = Inr ()" "en_type (node_of ?st 0) = NRUE" "en_e2NodeId (node_of ?st 0) = 3"
    "e2t_ready [(1, 0)] ?st" "data_of ?st = one_node"
    by (simp_all add: ex_loop_eval on_world_def upd_node_def node_of_def ex_node_def OranE2NodeTerminator_def
        GetNetDevice_def e2t_ready_def draws_ok_def)
  have s: "snd ?st = ex_sim" "now_of ?st = 10000000000"
    by (simp_all add: on_world_def now_of_def ex_loop_def ex_sim_def Now_def)
  have "d_active (data_of ?st)" "regs_upto (now_of ?st) (data_of ?st)" "sim_inv (snd ?st)" "room 1 ?st"
    by (simp_all add: n(5) s regs_upto_def ex_sim_inv room_def UID_VALID_def)
  from registration_handshake [OF n(4,1) this] show ?thesis unfolding n(2,3) by blast
qed

end
