(* ===== verification/Schedulers.thy ===== *)
theory Schedulers
  imports Simulator
begin

text \<open>
  The event lists of \<open>src/src/core/model\<close>. \<open>scheduler.h\<close> declares the virtual methods
  every event list has: they are the record \<open>event_list\<close>. What the interface promises its client, the
  simulator, is the abstract event list \<open>agenda\<close>: a set of pending events and the time of the
  last one taken out; \<open>RemoveNext\<close> always takes the one with the least key. The locale
  \<open>scheduler\<close> states that an implementation simulates the agenda, \<open>removable_scheduler\<close>
  adds \<open>Remove\<close>, and its client lemma says that a whole session of calls returns what the agenda
  returns. This theory has the map, the list and the priority queue; the binary heap and the calendar
  queue have their own theories.
\<close>

section \<open>Events and their order\<close>

datatype sch_event = Event (ev_impl: nat) (ev_key: ev_key) (ev_context: nat)

abbreviation ev_uid :: "sch_event \<Rightarrow> nat" where
  "ev_uid e \<equiv> key_uid (ev_key e)"

abbreviation ev_ts :: "sch_event \<Rightarrow> time" where
  "ev_ts e \<equiv> key_ts (ev_key e)"

text \<open>
  The source compares events by their keys only. The library's order on events refines that
  comparison to a linear one; on events with different keys the two agree.
\<close>

instantiation sch_event :: linorder
begin

definition less_eq_sch_event :: "sch_event \<Rightarrow> sch_event \<Rightarrow> bool" where
  "less_eq_sch_event a b \<longleftrightarrow>
     (ev_key a, ev_context a, ev_impl a) \<le> (ev_key b, ev_context b, ev_impl b)"

definition less_sch_event :: "sch_event \<Rightarrow> sch_event \<Rightarrow> bool" where
  "less_sch_event a b \<longleftrightarrow>
     (ev_key a, ev_context a, ev_impl a) < (ev_key b, ev_context b, ev_impl b)"

instance
  by standard
    (auto simp: less_eq_sch_event_def less_sch_event_def order_less_le intro: sch_event.expand
      simp del: less_eq_prod_simp less_prod_simp)

end

section \<open>The interface\<close>

record 's event_list =
  s_Insert :: "sch_event \<Rightarrow> 's \<Rightarrow> 's res"
  s_IsEmpty :: "'s \<Rightarrow> bool"
  s_PeekNext :: "'s \<Rightarrow> sch_event res"
  s_RemoveNext :: "'s \<Rightarrow> (sch_event \<times> 's) res"
  s_Remove :: "sch_event \<Rightarrow> 's \<Rightarrow> 's res"

text \<open>A session of calls and what each of them returns.\<close>

datatype sched_call =
  CallInsert sch_event | CallIsEmpty | CallPeekNext | CallRemoveNext | CallRemove sch_event

datatype sched_out = OutVoid | OutBool bool | OutEvent sch_event

fun sched_step :: "'s event_list \<Rightarrow> sched_call \<Rightarrow> 's \<Rightarrow> (sched_out \<times> 's) res" where
  "sched_step S (CallInsert e) s = res_bind (s_Insert S e s) (\<lambda>s'. Inr (OutVoid, s'))"
| "sched_step S CallIsEmpty s = Inr (OutBool (s_IsEmpty S s), s)"
| "sched_step S CallPeekNext s = res_bind (s_PeekNext S s) (\<lambda>e. Inr (OutEvent e, s))"
| "sched_step S CallRemoveNext s = res_bind (s_RemoveNext S s) (\<lambda>(e, s'). Inr (OutEvent e, s'))"
| "sched_step S (CallRemove e) s = res_bind (s_Remove S e s) (\<lambda>s'. Inr (OutVoid, s'))"

fun sched_run :: "'s event_list \<Rightarrow> sched_call list \<Rightarrow> 's \<Rightarrow> (sched_out list \<times> 's) res" where
  "sched_run S [] s = Inr ([], s)"
| "sched_run S (c # cs) s =
     res_bind (sched_step S c s) (\<lambda>(out, s').
       res_bind (sched_run S cs s') (\<lambda>(outs, s''). Inr (out # outs, s'')))"

section \<open>The abstract event list\<close>

record agenda =
  pending :: "sch_event set"
  clock :: time

definition empty_agenda :: agenda where
  "empty_agenda = \<lparr>pending = {}, clock = 0\<rparr>"

definition earliest :: "agenda \<Rightarrow> sch_event" where
  "earliest A = Min (pending A)"

text \<open>
  What the simulator guarantees of an event it inserts: the time stamp is not before the event being
  processed and is a non-negative \<open>int64_t\<close>, and the number is a valid \<open>uint32_t\<close> no
  pending event has.
\<close>

definition admissible :: "sch_event \<Rightarrow> agenda \<Rightarrow> bool" where
  "admissible e A \<longleftrightarrow>
     clock A \<le> ev_ts e \<and> ev_ts e < 2 ^ 63 \<and> UID_VALID \<le> ev_uid e \<and> ev_uid e < 2 ^ 32 \<and>
     ev_uid e \<notin> ev_uid ` pending A"

lemma admissible_code [code]:
  "admissible e A \<longleftrightarrow>
     clock A \<le> ev_ts e \<and> ev_ts e < 9223372036854775808 \<and> UID_VALID \<le> ev_uid e \<and>
     int (ev_uid e) < 4294967296 \<and> ev_uid e \<notin> ev_uid ` pending A"
  by (simp add: admissible_def)

fun spec_out :: "sched_call \<Rightarrow> agenda \<Rightarrow> sched_out" where
  "spec_out CallIsEmpty A = OutBool (pending A = {})"
| "spec_out CallPeekNext A = OutEvent (earliest A)"
| "spec_out CallRemoveNext A = OutEvent (earliest A)"
| "spec_out _ A = OutVoid"

fun spec_step :: "sched_call \<Rightarrow> agenda \<Rightarrow> agenda" where
  "spec_step (CallInsert e) A = A\<lparr>pending := insert e (pending A)\<rparr>"
| "spec_step CallRemoveNext A =
     A\<lparr>pending := pending A - {earliest A}, clock := ev_ts (earliest A)\<rparr>"
| "spec_step (CallRemove e) A = A\<lparr>pending := pending A - {e}\<rparr>"
| "spec_step _ A = A"

text \<open>
  The calls the interface allows: only an admissible event is inserted, the next event is asked for
  only when there is one, and only a pending event is removed.
\<close>

fun allowed :: "sched_call \<Rightarrow> agenda \<Rightarrow> bool" where
  "allowed (CallInsert e) A = admissible e A"
| "allowed CallIsEmpty A = True"
| "allowed (CallRemove e) A = (e \<in> pending A)"
| "allowed _ A = (pending A \<noteq> {})"

fun spec_run :: "sched_call list \<Rightarrow> agenda \<Rightarrow> sched_out list" where
  "spec_run [] A = []"
| "spec_run (c # cs) A = spec_out c A # spec_run cs (spec_step c A)"

fun allowed_run :: "sched_call list \<Rightarrow> agenda \<Rightarrow> bool" where
  "allowed_run [] A = True"
| "allowed_run (c # cs) A = (allowed c A \<and> allowed_run cs (spec_step c A))"

definition agenda_ok :: "agenda \<Rightarrow> bool" where
  "agenda_ok A \<longleftrightarrow>
     finite (pending A) \<and> inj_on ev_uid (pending A) \<and> 0 \<le> clock A \<and>
     (\<forall>e \<in> pending A. clock A \<le> ev_ts e \<and> ev_ts e < 2 ^ 63 \<and>
        UID_VALID \<le> ev_uid e \<and> ev_uid e < 2 ^ 32)"

lemma agenda_ok_D:
  assumes "agenda_ok A"
  shows "finite (pending A)" and "inj_on ev_uid (pending A)" and "0 \<le> clock A"
    and "e \<in> pending A \<Longrightarrow> clock A \<le> ev_ts e"
    and "e \<in> pending A \<Longrightarrow> ev_ts e < 2 ^ 63"
    and "e \<in> pending A \<Longrightarrow> UID_VALID \<le> ev_uid e \<and> ev_uid e < 2 ^ 32"
  using assms unfolding agenda_ok_def by blast+

lemma agenda_ok_empty: "agenda_ok empty_agenda"
  by (simp add: agenda_ok_def empty_agenda_def)

text \<open>Two pending events have different keys, so the order of the keys decides.\<close>

lemma agenda_key_inj:
  assumes "agenda_ok A" and "e \<in> pending A" and "f \<in> pending A" and "ev_key e = ev_key f"
  shows "e = f"
  using inj_onD [OF agenda_ok_D(2) [OF assms(1)]] assms(2,3,4) by force

lemma ev_le_keyD: "e \<le> f \<Longrightarrow> ev_key e \<le> ev_key f"
  by (auto simp: less_eq_sch_event_def)

lemma ev_le_iff:
  assumes "agenda_ok A" and "e \<in> pending A" and "f \<in> pending A"
  shows "e \<le> f \<longleftrightarrow> ev_key e \<le> ev_key f"
  using agenda_key_inj [OF assms] by (auto simp: less_eq_sch_event_def order_less_le)

lemma earliest_in: "agenda_ok A \<Longrightarrow> pending A \<noteq> {} \<Longrightarrow> earliest A \<in> pending A"
  unfolding earliest_def by (intro Min_in agenda_ok_D(1))

lemma earliest_eqI:
  assumes "agenda_ok A" and "e \<in> pending A" and "\<And>f. f \<in> pending A \<Longrightarrow> ev_key e \<le> ev_key f"
  shows "earliest A = e"
  unfolding earliest_def
  by (rule Min_eqI) (use assms agenda_ok_D(1) ev_le_iff in blast)+

lemma earliest_le:
  assumes "agenda_ok A" and "f \<in> pending A"
  shows "ev_key (earliest A) \<le> ev_key f"
  using Min_le [OF agenda_ok_D(1) [OF assms(1)] assms(2)]
  by (simp add: earliest_def ev_le_keyD)

lemma key_ts_mono: "k \<le> l \<Longrightarrow> key_ts k \<le> key_ts l"
  by (auto simp: less_eq_ev_key_def less_ev_key_def)

lemma spec_step_ok:
  assumes ok: "agenda_ok A" and al: "allowed c A"
  shows "agenda_ok (spec_step c A)"
proof (cases c)
  case (CallInsert e)
  with assms show ?thesis by (auto simp: agenda_ok_def admissible_def)
next
  case CallRemoveNext
  have "0 \<le> ev_ts (earliest A)"
    using agenda_ok_D(3,4) [OF ok] earliest_in [OF ok] al CallRemoveNext by fastforce
  then show ?thesis
    using agenda_ok_D(1,2,5,6) [OF ok] key_ts_mono [OF earliest_le [OF ok]] CallRemoveNext
    by (auto simp: agenda_ok_def intro: inj_on_subset)
next
  case (CallRemove e)
  with ok show ?thesis by (auto simp: agenda_ok_def intro: inj_on_subset)
qed (use ok in simp_all)

text \<open>The numbers bound the length of the list.\<close>

lemma agenda_card:
  assumes "agenda_ok A"
  shows "card (pending A) < 2 ^ 32"
proof -
  have "ev_uid ` pending A \<subseteq> {UID_VALID..<2 ^ 32}"
    using agenda_ok_D(6) [OF assms] by auto
  then have "card (ev_uid ` pending A) \<le> card {UID_VALID..<2 ^ 32}"
    by (rule card_mono [OF finite_atLeastLessThan])
  then show ?thesis
    using card_image [OF agenda_ok_D(2) [OF assms]] by (simp add: UID_VALID_def)
qed

section \<open>The contract\<close>

definition simulates_call :: "'s event_list \<Rightarrow> ('s \<Rightarrow> agenda \<Rightarrow> bool) \<Rightarrow> sched_call \<Rightarrow> bool" where
  "simulates_call S R c \<longleftrightarrow>
     (\<forall>s A. R s A \<longrightarrow> allowed c A \<longrightarrow>
        (\<exists>s'. sched_step S c s = Inr (spec_out c A, s') \<and> R s' (spec_step c A)))"

lemma simulates_callI [intro?]:
  assumes "\<And>s A. R s A \<Longrightarrow> allowed c A \<Longrightarrow>
    \<exists>s'. sched_step S c s = Inr (spec_out c A, s') \<and> R s' (spec_step c A)"
  shows "simulates_call S R c"
  using assms by (simp add: simulates_call_def)

lemma sched_run_simulates:
  assumes "\<And>c. c \<in> set cs \<Longrightarrow> simulates_call S R c" and "R s A" and "allowed_run cs A"
  shows "\<exists>s'. sched_run S cs s = Inr (spec_run cs A, s') \<and> R s' (fold spec_step cs A)"
  using assms
proof (induction cs arbitrary: s A)
  case Nil
  then show ?case by simp
next
  case (Cons c cs)
  have "simulates_call S R c" by (rule Cons.prems(1)) simp
  then obtain t where t: "sched_step S c s = Inr (spec_out c A, t)" "R t (spec_step c A)"
    using Cons.prems(2,3) by (auto simp: simulates_call_def)
  obtain s' where "sched_run S cs t = Inr (spec_run cs (spec_step c A), s')"
    "R s' (fold spec_step cs (spec_step c A))"
    using Cons.IH [OF Cons.prems(1) t(2)] Cons.prems(3) by auto
  with t(1) show ?case by simp
qed

locale scheduler =
  fixes S :: "'s event_list" and new :: 's and R :: "'s \<Rightarrow> agenda \<Rightarrow> bool"
  assumes new_R: "R new empty_agenda"
    and R_ok: "R s A \<Longrightarrow> agenda_ok A"
    and Insert_R: "R s A \<Longrightarrow> admissible e A \<Longrightarrow>
      \<exists>s'. s_Insert S e s = Inr s' \<and> R s' (spec_step (CallInsert e) A)"
    and IsEmpty_R: "R s A \<Longrightarrow> s_IsEmpty S s \<longleftrightarrow> pending A = {}"
    and PeekNext_R: "R s A \<Longrightarrow> pending A \<noteq> {} \<Longrightarrow> s_PeekNext S s = Inr (earliest A)"
    and RemoveNext_R: "R s A \<Longrightarrow> pending A \<noteq> {} \<Longrightarrow>
      \<exists>s'. s_RemoveNext S s = Inr (earliest A, s') \<and> R s' (spec_step CallRemoveNext A)"
begin

lemma simulates_core:
  assumes "\<And>e. c \<noteq> CallRemove e"
  shows "simulates_call S R c"
proof
  fix s A assume R: "R s A" and al: "allowed c A"
  show "\<exists>s'. sched_step S c s = Inr (spec_out c A, s') \<and> R s' (spec_step c A)"
  proof (cases c)
    case (CallInsert e)
    with Insert_R [OF R, of e] al show ?thesis by auto
  next
    case CallIsEmpty
    with IsEmpty_R [OF R] R show ?thesis by simp
  next
    case CallPeekNext
    with PeekNext_R [OF R] R al show ?thesis by simp
  next
    case CallRemoveNext
    with RemoveNext_R [OF R] al show ?thesis by auto
  next
    case (CallRemove e)
    with assms show ?thesis by blast
  qed
qed

lemma run_core:
  assumes "allowed_run cs empty_agenda" and "\<forall>e. CallRemove e \<notin> set cs"
  shows "\<exists>s'. sched_run S cs new = Inr (spec_run cs empty_agenda, s') \<and>
    R s' (fold spec_step cs empty_agenda)"
  by (rule sched_run_simulates [OF simulates_core new_R assms(1)]) (use assms(2) in blast)

end

locale removable_scheduler = scheduler +
  assumes Remove_R: "R s A \<Longrightarrow> e \<in> pending A \<Longrightarrow>
      \<exists>s'. s_Remove S e s = Inr s' \<and> R s' (spec_step (CallRemove e) A)"
begin

lemma simulates: "simulates_call S R c"
proof (cases "\<exists>e. c = CallRemove e")
  case True
  then obtain e where c: "c = CallRemove e" ..
  show ?thesis
  proof
    fix s A assume "R s A" and "allowed c A"
    with Remove_R [of s A e] c
    show "\<exists>s'. sched_step S c s = Inr (spec_out c A, s') \<and> R s' (spec_step c A)" by auto
  qed
next
  case False
  then show ?thesis by (intro simulates_core) blast
qed

lemma run:
  assumes "allowed_run cs empty_agenda"
  shows "\<exists>s'. sched_run S cs new = Inr (spec_run cs empty_agenda, s') \<and>
    R s' (fold spec_step cs empty_agenda)"
  by (rule sched_run_simulates [OF simulates new_R assms])

end

section \<open>ListScheduler\<close>

fun list_Insert :: "sch_event \<Rightarrow> sch_event list \<Rightarrow> sch_event list" where
  "list_Insert ev [] = [ev]"
| "list_Insert ev (e # es) = (if ev_key ev < ev_key e then ev # e # es else e # list_Insert ev es)"

definition list_IsEmpty :: "sch_event list \<Rightarrow> bool" where
  "list_IsEmpty es \<longleftrightarrow> es = []"

definition list_PeekNext :: "sch_event list \<Rightarrow> sch_event res" where
  "list_PeekNext es = (case es of [] \<Rightarrow> Inl EmptyScheduler | e # _ \<Rightarrow> Inr e)"

definition list_RemoveNext :: "sch_event list \<Rightarrow> (sch_event \<times> sch_event list) res" where
  "list_RemoveNext es = (case es of [] \<Rightarrow> Inl EmptyScheduler | e # es' \<Rightarrow> Inr (e, es'))"

fun list_Remove :: "sch_event \<Rightarrow> sch_event list \<Rightarrow> sch_event list res" where
  "list_Remove ev [] = Inl EventNotFound"
| "list_Remove ev (e # es) =
     (if ev_uid e = ev_uid ev
      then abort_if (ev_impl ev \<noteq> ev_impl e) ImplMismatch (Inr es)
      else res_bind (list_Remove ev es) (\<lambda>es'. Inr (e # es')))"

definition ListScheduler :: "sch_event list event_list" where
  "ListScheduler =
     \<lparr>s_Insert = (\<lambda>e es. Inr (list_Insert e es)), s_IsEmpty = list_IsEmpty,
      s_PeekNext = list_PeekNext, s_RemoveNext = list_RemoveNext, s_Remove = list_Remove\<rparr>"

text \<open>The list holds the pending events in the order of their keys.\<close>

definition chronological :: "sch_event list \<Rightarrow> bool" where
  "chronological es \<longleftrightarrow> sorted_wrt (<) (map ev_key es)"

definition list_R :: "sch_event list \<Rightarrow> agenda \<Rightarrow> bool" where
  "list_R es A \<longleftrightarrow> agenda_ok A \<and> chronological es \<and> set es = pending A"

lemma chronological_Nil [simp]: "chronological []"
  by (simp add: chronological_def)

lemma chronological_Cons [simp]:
  "chronological (e # es) \<longleftrightarrow> (\<forall>f \<in> set es. ev_key e < ev_key f) \<and> chronological es"
  by (auto simp: chronological_def)

lemma chronological_distinct: "chronological es \<Longrightarrow> distinct es"
  by (induction es) auto

lemma set_list_Insert [simp]: "set (list_Insert e es) = insert e (set es)"
  by (induction es) auto

lemma chronological_Insert:
  "chronological es \<Longrightarrow> ev_key e \<notin> ev_key ` set es \<Longrightarrow> chronological (list_Insert e es)"
  by (induction es) (auto intro: less_trans)

lemma chronological_remove1: "chronological es \<Longrightarrow> chronological (remove1 e es)"
  by (induction es) (auto dest: notin_set_remove1)

lemma list_Remove_remove1:
  "inj_on ev_uid (set es) \<Longrightarrow> e \<in> set es \<Longrightarrow> list_Remove e es = Inr (remove1 e es)"
  by (induction es) (auto simp: inj_on_def)

lemma admissible_fresh:
  assumes "admissible e A"
  shows "ev_key e \<notin> ev_key ` pending A" and "e \<notin> pending A"
  using assms by (auto simp: admissible_def)

lemma list_R_D:
  assumes "list_R es A"
  shows "agenda_ok A" and "chronological es" and "set es = pending A"
  using assms by (simp_all add: list_R_def)

lemma list_R_I:
  "list_R es A \<Longrightarrow> allowed c A \<Longrightarrow> chronological es' \<Longrightarrow> set es' = pending (spec_step c A) \<Longrightarrow>
     list_R es' (spec_step c A)"
  by (simp add: list_R_def spec_step_ok)

lemma list_R_Nil: "list_R [] empty_agenda"
  by (simp add: list_R_def agenda_ok_empty) (simp add: empty_agenda_def)

lemma list_R_Cons:
  assumes "list_R es A" and "pending A \<noteq> {}"
  obtains es' where "es = earliest A # es'" and "list_R es' (spec_step CallRemoveNext A)"
proof -
  note D = list_R_D [OF assms(1)]
  obtain e es' where es: "es = e # es'" using D(3) assms(2) by (cases es) auto
  have "ev_key e \<le> ev_key f" if "f \<in> pending A" for f
    using D(2,3) that by (cases "f = e") (auto simp: es less_imp_le)
  then have e: "earliest A = e"
    by (intro earliest_eqI [OF D(1)]) (use D(3) in \<open>auto simp: es\<close>)
  then have "list_R es' (spec_step CallRemoveNext A)"
    by (intro list_R_I [OF assms(1)]) (use assms(2) D(2,3) in \<open>auto simp: es\<close>)
  with that es e show ?thesis by blast
qed

lemma list_R_Insert:
  assumes "list_R es A" and "admissible e A"
  shows "list_R (list_Insert e es) (spec_step (CallInsert e) A)"
  by (rule list_R_I [OF assms(1)])
    (use assms list_R_D [OF assms(1)] admissible_fresh [OF assms(2)] in
      \<open>simp_all add: chronological_Insert\<close>)

lemma list_R_remove1:
  assumes "list_R es A" and "e \<in> pending A"
  shows "list_R (remove1 e es) (spec_step (CallRemove e) A)"
  by (rule list_R_I [OF assms(1)])
    (use assms list_R_D [OF assms(1)] in \<open>simp_all add: chronological_remove1 chronological_distinct\<close>)

interpretation list_sched: removable_scheduler ListScheduler "[]" list_R
proof unfold_locales
  fix es A e
  assume R: "list_R es A"
  note D = list_R_D [OF R]
  show "agenda_ok A" by (rule D(1))
  show "s_IsEmpty ListScheduler es \<longleftrightarrow> pending A = {}"
    using D(3) by (auto simp: ListScheduler_def list_IsEmpty_def)
  show "\<exists>es'. s_Insert ListScheduler e es = Inr es' \<and> list_R es' (spec_step (CallInsert e) A)"
    if "admissible e A"
    using list_R_Insert [OF R that] by (simp add: ListScheduler_def)
  show "s_PeekNext ListScheduler es = Inr (earliest A)" if "pending A \<noteq> {}"
    by (rule list_R_Cons [OF R that]) (simp add: ListScheduler_def list_PeekNext_def)
  show "\<exists>es'. s_RemoveNext ListScheduler es = Inr (earliest A, es') \<and>
      list_R es' (spec_step CallRemoveNext A)" if "pending A \<noteq> {}"
    by (rule list_R_Cons [OF R that]) (simp add: ListScheduler_def list_RemoveNext_def)
  show "\<exists>es'. s_Remove ListScheduler e es = Inr es' \<and> list_R es' (spec_step (CallRemove e) A)"
    if "e \<in> pending A"
    using list_R_remove1 [OF R that] list_Remove_remove1 [of es e] agenda_ok_D(2) [OF D(1)] D(3) that
    by (simp add: ListScheduler_def)
qed (rule list_R_Nil)

section \<open>MapScheduler\<close>

text \<open>
  The map of \<open>Simulator\<close> has the time stamp and the number as its key, as the comparison of
  \<open>EventKey\<close> has, and the context beside the implementation.
\<close>

definition map_event :: "ev_key \<times> nat \<times> nat \<Rightarrow> sch_event" where
  "map_event p = (case p of (k, c, a) \<Rightarrow> Event a k c)"

definition map_IsEmpty :: "(ev_key \<times> nat \<times> nat) list \<Rightarrow> bool" where
  "map_IsEmpty m \<longleftrightarrow> m = []"

definition map_PeekNext :: "(ev_key \<times> nat \<times> nat) list \<Rightarrow> sch_event res" where
  "map_PeekNext m = (case m of [] \<Rightarrow> Inl EmptyScheduler | p # _ \<Rightarrow> Inr (map_event p))"

definition MapScheduler :: "(ev_key \<times> nat \<times> nat) list event_list" where
  "MapScheduler =
     \<lparr>s_Insert = (\<lambda>e. map_Insert (ev_key e) (ev_context e, ev_impl e)), s_IsEmpty = map_IsEmpty,
      s_PeekNext = map_PeekNext,
      s_RemoveNext = (\<lambda>m. res_bind (map_RemoveNext m) (\<lambda>(p, m'). Inr (map_event p, m'))),
      s_Remove = (\<lambda>e. map_Remove (ev_key e) (ev_impl e))\<rparr>"

definition map_R :: "(ev_key \<times> nat \<times> nat) list \<Rightarrow> agenda \<Rightarrow> bool" where
  "map_R m A \<longleftrightarrow> list_R (map map_event m) A"

lemma map_event_simps [simp]:
  "ev_key (map_event p) = fst p"
  "map_event (ev_key e, ev_context e, ev_impl e) = e"
  by (simp_all add: map_event_def split: prod.splits)

lemma map_smap_upd:
  "k \<notin> fst ` set m \<Longrightarrow>
     map map_event (smap_upd k v m) = list_Insert (map_event (k, v)) (map map_event m)"
  by (induction m) auto

lemma chronological_map_event: "chronological (map map_event m) \<longleftrightarrow> smap_ok m"
  by (simp add: chronological_def smap_ok_def comp_def)

lemma map_smap_del:
  assumes "smap_ok m" and "(k, v) \<in> set m"
  shows "map map_event (smap_del k m) = remove1 (map_event (k, v)) (map map_event m)"
  using assms
proof (induction m)
  case Nil
  then show ?case by simp
next
  case (Cons p m)
  show ?case
  proof (cases "p = (k, v)")
    case True
    with Cons.prems(1) have "map_of m k = None" by (auto simp: smap_ok_Cons map_of_eq_None_iff)
    with True smap_del_absent [of m k] show ?thesis by (simp add: smap_del_def)
  next
    case False
    with Cons.prems have "fst p \<noteq> k" by (auto simp: smap_ok_Cons)
    moreover have "map_event p \<noteq> map_event (k, v)" using calculation by (metis fst_conv map_event_simps(1))
    ultimately show ?thesis using Cons False by (simp add: smap_del_def smap_ok_Cons)
  qed
qed

interpretation map_sched: removable_scheduler MapScheduler "[]" map_R
proof unfold_locales
  fix m A e
  assume R': "map_R m A"
  then have R: "list_R (map map_event m) A" by (simp add: map_R_def)
  note D = list_R_D [OF R]
  have ok: "smap_ok m" using D(2) by (simp add: chronological_map_event)
  show "agenda_ok A" by (rule D(1))
  show "s_IsEmpty MapScheduler m \<longleftrightarrow> pending A = {}"
    using D(3) by (auto simp: MapScheduler_def map_IsEmpty_def)
  show "\<exists>m'. s_Insert MapScheduler e m = Inr m' \<and> map_R m' (spec_step (CallInsert e) A)"
    if ad: "admissible e A"
  proof -
    have "ev_key ` pending A = fst ` set m"
      unfolding D(3) [symmetric] by (simp add: image_image)
    then have "ev_key e \<notin> fst ` set m" using admissible_fresh(1) [OF ad] by simp
    then show ?thesis
      using list_R_Insert [OF R ad]
      by (simp add: MapScheduler_def map_Insert_def map_R_def map_smap_upd map_of_eq_None_iff)
  qed
  show "s_PeekNext MapScheduler m = Inr (earliest A)" if "pending A \<noteq> {}"
    by (rule list_R_Cons [OF R that]) (auto simp: MapScheduler_def map_PeekNext_def)
  show "\<exists>m'. s_RemoveNext MapScheduler m = Inr (earliest A, m') \<and>
      map_R m' (spec_step CallRemoveNext A)" if "pending A \<noteq> {}"
    by (rule list_R_Cons [OF R that]) (auto simp: MapScheduler_def map_RemoveNext_def map_R_def)
  show "\<exists>m'. s_Remove MapScheduler e m = Inr m' \<and> map_R m' (spec_step (CallRemove e) A)"
    if e: "e \<in> pending A"
  proof -
    have "e \<in> map_event ` set m" using D(3) e by simp
    then have m: "(ev_key e, ev_context e, ev_impl e) \<in> set m"
      by (auto simp: map_event_def)
    then have "map_of m (ev_key e) = Some (ev_context e, ev_impl e)"
      using ok by (simp add: smap_ok_map_of)
    then show ?thesis
      using list_R_remove1 [OF R e] map_smap_del [OF ok m]
      by (simp add: MapScheduler_def map_Remove_def map_R_def)
  qed
qed (simp add: map_R_def list_R_Nil)

section \<open>PriorityQueueScheduler\<close>

text \<open>
  \<open>std::priority_queue\<close> with \<open>std::greater\<close>: \<open>top\<close> is an element no other element is
  less than. The vector below it is in an order the standard leaves open; here it is the order of
  insertion, and the first least element is the top.
\<close>

fun pq_top :: "sch_event list \<Rightarrow> sch_event res" where
  "pq_top [] = Inl EmptyScheduler"
| "pq_top [e] = Inr e"
| "pq_top (e # f # c) = pq_top ((if ev_key f < ev_key e then f else e) # c)"

definition pq_Insert :: "sch_event \<Rightarrow> sch_event list \<Rightarrow> sch_event list" where
  "pq_Insert ev c = c @ [ev]"

definition pq_IsEmpty :: "sch_event list \<Rightarrow> bool" where
  "pq_IsEmpty c \<longleftrightarrow> c = []"

definition pq_PeekNext :: "sch_event list \<Rightarrow> sch_event res" where
  "pq_PeekNext c = pq_top c"

definition pq_RemoveNext :: "sch_event list \<Rightarrow> (sch_event \<times> sch_event list) res" where
  "pq_RemoveNext c = res_bind (pq_top c) (\<lambda>ev. Inr (ev, remove1 ev c))"

fun pq_remove :: "sch_event \<Rightarrow> sch_event list \<Rightarrow> bool \<times> sch_event list" where
  "pq_remove ev [] = (False, [])"
| "pq_remove ev (e # c) =
     (if ev_uid e = ev_uid ev then (True, c) else (let (b, c') = pq_remove ev c in (b, e # c')))"

definition pq_Remove :: "sch_event \<Rightarrow> sch_event list \<Rightarrow> sch_event list" where
  "pq_Remove ev c = snd (pq_remove ev c)"

definition PriorityQueueScheduler :: "sch_event list event_list" where
  "PriorityQueueScheduler =
     \<lparr>s_Insert = (\<lambda>e c. Inr (pq_Insert e c)), s_IsEmpty = pq_IsEmpty,
      s_PeekNext = pq_PeekNext, s_RemoveNext = pq_RemoveNext,
      s_Remove = (\<lambda>e c. Inr (pq_Remove e c))\<rparr>"

definition bag_R :: "sch_event list \<Rightarrow> agenda \<Rightarrow> bool" where
  "bag_R c A \<longleftrightarrow> agenda_ok A \<and> distinct c \<and> set c = pending A"

lemma bag_R_I:
  "bag_R c A \<Longrightarrow> allowed call A \<Longrightarrow> distinct c' \<Longrightarrow> set c' = pending (spec_step call A) \<Longrightarrow>
     bag_R c' (spec_step call A)"
  by (simp add: bag_R_def spec_step_ok)

lemma pq_top_least:
  "c \<noteq> [] \<Longrightarrow> \<exists>e. pq_top c = Inr e \<and> e \<in> set c \<and> (\<forall>f \<in> set c. ev_key e \<le> ev_key f)"
proof (induction c rule: pq_top.induct)
  case (3 e f c)
  then obtain g where g: "pq_top (e # f # c) = Inr g"
    "g \<in> set ((if ev_key f < ev_key e then f else e) # c)"
    "\<forall>h \<in> set ((if ev_key f < ev_key e then f else e) # c). ev_key g \<le> ev_key h" by auto
  show ?case
    by (rule exI [of _ g]) (use g in \<open>auto split: if_splits\<close>)
qed auto

lemma pq_top_earliest:
  assumes "bag_R c A" and "pending A \<noteq> {}"
  shows "pq_top c = Inr (earliest A)"
proof -
  have A: "agenda_ok A" "set c = pending A" using assms(1) by (simp_all add: bag_R_def)
  obtain e where e: "pq_top c = Inr e" "e \<in> set c" "\<forall>f \<in> set c. ev_key e \<le> ev_key f"
    using pq_top_least [of c] A(2) assms(2) by fastforce
  with earliest_eqI [OF A(1), of e] A(2) show ?thesis by simp
qed

lemma pq_Remove_remove1:
  "inj_on ev_uid (set c) \<Longrightarrow> e \<in> set c \<Longrightarrow> pq_Remove e c = remove1 e c"
  unfolding pq_Remove_def
  by (induction c) (auto simp: inj_on_def split: prod.splits)

interpretation pq_sched: removable_scheduler PriorityQueueScheduler "[]" bag_R
proof unfold_locales
  fix c A e
  assume R: "bag_R c A"
  then have D: "agenda_ok A" "distinct c" "set c = pending A" by (simp_all add: bag_R_def)
  show "agenda_ok A" by (rule D(1))
  show "s_IsEmpty PriorityQueueScheduler c \<longleftrightarrow> pending A = {}"
    using D(3) by (auto simp: PriorityQueueScheduler_def pq_IsEmpty_def)
  show "\<exists>c'. s_Insert PriorityQueueScheduler e c = Inr c' \<and> bag_R c' (spec_step (CallInsert e) A)"
    if ad: "admissible e A"
  proof -
    have "bag_R (c @ [e]) (spec_step (CallInsert e) A)"
      by (rule bag_R_I [OF R]) (use ad D admissible_fresh [OF ad] in auto)
    then show ?thesis by (simp add: PriorityQueueScheduler_def pq_Insert_def)
  qed
  show "s_PeekNext PriorityQueueScheduler c = Inr (earliest A)" if "pending A \<noteq> {}"
    by (simp add: PriorityQueueScheduler_def pq_PeekNext_def pq_top_earliest [OF R that])
  show "\<exists>c'. s_RemoveNext PriorityQueueScheduler c = Inr (earliest A, c') \<and>
      bag_R c' (spec_step CallRemoveNext A)" if "pending A \<noteq> {}"
  proof -
    have "bag_R (remove1 (earliest A) c) (spec_step CallRemoveNext A)"
      by (rule bag_R_I [OF R]) (use that D in auto)
    then show ?thesis
      by (simp add: PriorityQueueScheduler_def pq_RemoveNext_def pq_top_earliest [OF R that])
  qed
  show "\<exists>c'. s_Remove PriorityQueueScheduler e c = Inr c' \<and> bag_R c' (spec_step (CallRemove e) A)"
    if e: "e \<in> pending A"
  proof -
    have "bag_R (remove1 e c) (spec_step (CallRemove e) A)"
      by (rule bag_R_I [OF R]) (use e D in auto)
    then show ?thesis
      using pq_Remove_remove1 [of c e] agenda_ok_D(2) [OF D(1)] D(3) e
      by (simp add: PriorityQueueScheduler_def)
  qed
qed (simp add: bag_R_def agenda_ok_empty, simp add: empty_agenda_def)

end
