(* ===== verification/Heap_Scheduler.thy ===== *)
theory Heap_Scheduler
  imports Schedulers
begin

text \<open>
  \<open>HeapScheduler\<close> (\<open>heap-scheduler.cc\<close>): a binary heap in a vector whose element 0 is
  wasted so that the indices start at one. Reading or exchanging outside the vector is
  \<open>IndexOutOfRange\<close>. \<open>TopDown\<close> called with index 0 can loop forever, so its loop is a
  partial function and a loop that does not end is \<open>NonTermination\<close>; the lemmas below show that
  it ends for every index from one on. \<open>Insert\<close>, \<open>PeekNext\<close> and \<open>RemoveNext\<close> keep the
  contract of \<open>scheduler\<close>; \<open>Remove\<close> does not, because it only sifts down.
\<close>

type_synonym heap = "sch_event list"

section \<open>Indices and exchanges\<close>

definition HeapScheduler_new :: heap where
  "HeapScheduler_new = [Event 0 (EvKey 0 0) 0]"

definition Parent :: "nat \<Rightarrow> nat" where
  "Parent k = k div 2"

definition Sibling :: "nat \<Rightarrow> nat" where
  "Sibling k = k + 1"

definition LeftChild :: "nat \<Rightarrow> nat" where
  "LeftChild k = k * 2"

definition RightChild :: "nat \<Rightarrow> nat" where
  "RightChild k = k * 2 + 1"

definition Root :: nat where
  "Root = 1"

definition IsRoot :: "nat \<Rightarrow> bool" where
  "IsRoot k \<longleftrightarrow> k = Root"

definition Last :: "heap \<Rightarrow> nat" where
  "Last h = length h - 1"

definition IsBottom :: "heap \<Rightarrow> nat \<Rightarrow> bool" where
  "IsBottom h k \<longleftrightarrow> length h \<le> k"

definition heap_at :: "heap \<Rightarrow> nat \<Rightarrow> sch_event res" where
  "heap_at h i = (if i < length h then Inr (h ! i) else Inl IndexOutOfRange)"

definition Exch :: "nat \<Rightarrow> nat \<Rightarrow> heap \<Rightarrow> heap res" where
  "Exch a b h =
     abort_if (\<not> (b < length h \<and> a < length h)) IndexOutOfRange (Inr (h[a := h ! b, b := h ! a]))"

definition IsLessStrictly :: "heap \<Rightarrow> nat \<Rightarrow> nat \<Rightarrow> bool res" where
  "IsLessStrictly h a b =
     res_bind (heap_at h a) (\<lambda>x. res_bind (heap_at h b) (\<lambda>y. Inr (ev_key x < ev_key y)))"

definition Smallest :: "heap \<Rightarrow> nat \<Rightarrow> nat \<Rightarrow> nat res" where
  "Smallest h a b = res_bind (IsLessStrictly h a b) (\<lambda>lt. Inr (if lt then a else b))"

definition heap_IsEmpty :: "heap \<Rightarrow> bool" where
  "heap_IsEmpty h \<longleftrightarrow> length h = 1"

lemmas heap_index_defs = Parent_def LeftChild_def RightChild_def Root_def IsRoot_def IsBottom_def Last_def

lemma res_bind_cong [fundef_cong]:
  "r = r' \<Longrightarrow> (\<And>x. r' = Inr x \<Longrightarrow> f x = g x) \<Longrightarrow> res_bind r f = res_bind r' g"
  by (cases r') simp_all

lemma IsLessStrictly_eq:
  "a < length h \<Longrightarrow> b < length h \<Longrightarrow> IsLessStrictly h a b = Inr (ev_key (h ! a) < ev_key (h ! b))"
  by (simp add: IsLessStrictly_def heap_at_def)

lemma Smallest_eq:
  "a < length h \<Longrightarrow> b < length h \<Longrightarrow>
     Smallest h a b = Inr (if ev_key (h ! a) < ev_key (h ! b) then a else b)"
  by (simp add: Smallest_def IsLessStrictly_eq)

lemma Exch_eq: "a < length h \<Longrightarrow> b < length h \<Longrightarrow> Exch a b h = Inr (h[a := h ! b, b := h ! a])"
  by (simp add: Exch_def)

section \<open>The operations\<close>

function BottomUp_loop :: "nat \<Rightarrow> heap \<Rightarrow> heap res" where
  "BottomUp_loop index h =
     (if IsRoot index then Inr h
      else res_bind (IsLessStrictly h index (Parent index)) (\<lambda>lt.
        if lt then res_bind (Exch index (Parent index) h) (\<lambda>h'. BottomUp_loop (Parent index) h')
        else Inr h))"
  by pat_completeness auto
termination
proof (relation "measure fst")
  fix index :: nat and h h' :: heap and lt
  assume "IsLessStrictly h index (Parent index) = Inr lt" and lt
  then have "index \<noteq> 0"
    by (intro notI) (auto simp: IsLessStrictly_def heap_at_def Parent_def split: if_splits)
  then show "((Parent index, h'), index, h) \<in> measure fst" by (simp add: Parent_def)
qed simp

definition BottomUp :: "heap \<Rightarrow> heap res" where
  "BottomUp h = BottomUp_loop (Last h) h"

partial_function (option) TopDown_loop :: "nat \<Rightarrow> heap \<Rightarrow> heap res option" where
  "TopDown_loop index h =
     (if \<not> IsBottom h (RightChild index)
      then (case Smallest h (LeftChild index) (RightChild index) of
              Inl e \<Rightarrow> Some (Inl e)
            | Inr tmp \<Rightarrow>
                (case IsLessStrictly h index tmp of
                   Inl e \<Rightarrow> Some (Inl e)
                 | Inr lt \<Rightarrow>
                     if lt then Some (Inr h)
                     else (case Exch index tmp h of
                             Inl e \<Rightarrow> Some (Inl e)
                           | Inr h' \<Rightarrow> TopDown_loop tmp h')))
      else if IsBottom h index then Some (Inr h)
      else if IsBottom h (LeftChild index) then Some (Inr h)
      else Some (res_bind (IsLessStrictly h index (LeftChild index)) (\<lambda>lt.
        if lt then Inr h else Exch index (LeftChild index) h)))"

definition TopDown :: "nat \<Rightarrow> heap \<Rightarrow> heap res" where
  "TopDown start h = (case TopDown_loop start h of None \<Rightarrow> Inl NonTermination | Some r \<Rightarrow> r)"

definition heap_Insert :: "sch_event \<Rightarrow> heap \<Rightarrow> heap res" where
  "heap_Insert ev h = BottomUp (h @ [ev])"

definition heap_PeekNext :: "heap \<Rightarrow> sch_event res" where
  "heap_PeekNext h = heap_at h Root"

definition heap_RemoveNext :: "heap \<Rightarrow> (sch_event \<times> heap) res" where
  "heap_RemoveNext h =
     res_bind (heap_at h Root) (\<lambda>next.
       res_bind (Exch Root (Last h) h) (\<lambda>h1.
         res_bind (TopDown Root (butlast h1)) (\<lambda>h2. Inr (next, h2))))"

function heap_Remove_loop :: "nat \<Rightarrow> sch_event \<Rightarrow> heap \<Rightarrow> heap res" where
  "heap_Remove_loop i ev h =
     (if i < length h
      then if ev_uid ev = ev_uid (h ! i)
           then abort_if (ev_impl (h ! i) \<noteq> ev_impl ev) ImplMismatch
                  (res_bind (Exch i (Last h) h) (\<lambda>h1. TopDown i (butlast h1)))
           else heap_Remove_loop (i + 1) ev h
      else Inl EventNotFound)"
  by pat_completeness auto
termination
  by (relation "measure (\<lambda>(i, ev, h). length h - i)") auto

definition heap_Remove :: "sch_event \<Rightarrow> heap \<Rightarrow> heap res" where
  "heap_Remove ev h = heap_Remove_loop 1 ev h"

declare TopDown_loop.simps [code]
declare BottomUp_loop.simps [simp del] heap_Remove_loop.simps [simp del]

definition HeapScheduler :: "heap event_list" where
  "HeapScheduler =
     \<lparr>s_Insert = heap_Insert, s_IsEmpty = heap_IsEmpty, s_PeekNext = heap_PeekNext,
      s_RemoveNext = heap_RemoveNext, s_Remove = heap_Remove\<rparr>"

section \<open>The heap order\<close>

definition heap_edge :: "heap \<Rightarrow> nat \<Rightarrow> bool" where
  "heap_edge h i \<longleftrightarrow> ev_key (h ! (i div 2)) \<le> ev_key (h ! i)"

definition heap_ok :: "heap \<Rightarrow> bool" where
  "heap_ok h \<longleftrightarrow> h \<noteq> [] \<and> (\<forall>i. 2 \<le> i \<longrightarrow> i < length h \<longrightarrow> heap_edge h i)"

lemma heap_ok_code [code]:
  "heap_ok h \<longleftrightarrow> h \<noteq> [] \<and> (\<forall>i \<in> set [2..<length h]. heap_edge h i)"
  by (auto simp: heap_ok_def)

text \<open>The order may fail between \<open>j\<close> and its parent only, and the grandchildren are in order.\<close>

definition up_inv :: "nat \<Rightarrow> heap \<Rightarrow> bool" where
  "up_inv j h \<longleftrightarrow>
     (\<forall>i. 2 \<le> i \<longrightarrow> i < length h \<longrightarrow> i \<noteq> j \<longrightarrow> heap_edge h i) \<and>
     (\<forall>c. 2 \<le> j \<longrightarrow> c < length h \<longrightarrow> c div 2 = j \<longrightarrow> ev_key (h ! (j div 2)) \<le> ev_key (h ! c))"

text \<open>The order may fail between \<open>j\<close> and its children only.\<close>

definition down_inv :: "nat \<Rightarrow> heap \<Rightarrow> bool" where
  "down_inv j h \<longleftrightarrow>
     (\<forall>i. 2 \<le> i \<longrightarrow> i < length h \<longrightarrow> i div 2 \<noteq> j \<longrightarrow> heap_edge h i) \<and>
     (\<forall>c. 2 \<le> j \<longrightarrow> c < length h \<longrightarrow> c div 2 = j \<longrightarrow> ev_key (h ! (j div 2)) \<le> ev_key (h ! c))"

lemma heap_root_least:
  assumes "heap_ok h" and "1 \<le> i" and "i < length h"
  shows "ev_key (h ! 1) \<le> ev_key (h ! i)"
  using assms(2,3)
proof (induction i rule: less_induct)
  case (less i)
  show ?case
  proof (cases "i = 1")
    case False
    with less.prems have i: "2 \<le> i" "i div 2 < i" "1 \<le> i div 2" by auto
    have "ev_key (h ! 1) \<le> ev_key (h ! (i div 2))"
      using less.IH [OF i(2,3)] i(2) less.prems by simp
    also have "\<dots> \<le> ev_key (h ! i)"
      using assms(1) i(1) less.prems by (simp add: heap_ok_def heap_edge_def)
    finally show ?thesis .
  qed simp
qed

abbreviation swap_at :: "nat \<Rightarrow> nat \<Rightarrow> heap \<Rightarrow> heap" where
  "swap_at a b h \<equiv> h[a := h ! b, b := h ! a]"

lemma nth_swap_at:
  "a < length h \<Longrightarrow> b < length h \<Longrightarrow>
     swap_at a b h ! i = (if i = b then h ! a else if i = a then h ! b else h ! i)"
  by (simp add: nth_list_update)

lemma mset_tl_swap:
  assumes "1 \<le> a" and "1 \<le> b" and "a < length h" and "b < length h"
  shows "mset (tl (swap_at a b h)) = mset (tl h)"
proof (cases h)
  case (Cons x xs)
  with assms obtain a' b' where ab: "a = Suc a'" "b = Suc b'" by (metis Suc_le_D One_nat_def)
  with assms Cons show ?thesis
    using mset_swap [of b' xs a'] by simp
qed (use assms in simp)

lemma up_inv_step:
  assumes inv: "up_inv j h" and j: "2 \<le> j" "j < length h"
    and less: "ev_key (h ! j) < ev_key (h ! (j div 2))"
  shows "up_inv (j div 2) (swap_at j (j div 2) h)"
proof -
  let ?p = "j div 2" and ?h = "swap_at j (j div 2) h"
  have p: "?p < length h" "1 \<le> ?p" "?p < j" "?p \<noteq> j" using j by auto
  have at: "?h ! i = (if i = ?p then h ! j else if i = j then h ! ?p else h ! i)" for i
    using j(2) p(1) by (rule nth_swap_at)
  have edge: "heap_edge h i" if "2 \<le> i" "i < length h" "i \<noteq> j" for i
    using inv that by (simp add: up_inv_def)
  have grand: "ev_key (h ! ?p) \<le> ev_key (h ! c)" if "c < length h" "c div 2 = j" for c
    using inv that j(1) by (simp add: up_inv_def)
  have "heap_edge ?h i" if i: "2 \<le> i" "i < length h" "i \<noteq> ?p" for i
  proof -
    consider "i = j" | "i div 2 = j" "i \<noteq> j" | "i div 2 = ?p" "i \<noteq> j"
      | "i div 2 \<noteq> j" "i div 2 \<noteq> ?p" "i \<noteq> j" by blast
    then show ?thesis
    proof cases
      case 1
      with less p show ?thesis by (simp add: heap_edge_def at)
    next
      case 2
      with grand [OF i(2)] p(3) i(3) show ?thesis by (simp add: heap_edge_def at)
    next
      case 3
      with edge [OF i(1,2)] less i(3) show ?thesis by (auto simp: heap_edge_def at)
    next
      case 4
      with edge [OF i(1,2)] i(3) show ?thesis by (auto simp: heap_edge_def at)
    qed
  qed
  moreover have "ev_key (?h ! (?p div 2)) \<le> ev_key (?h ! c)"
    if c: "2 \<le> ?p" "c < length h" "c div 2 = ?p" for c
  proof -
    have pp: "?p div 2 < ?p" using c(1) by simp
    have le: "ev_key (h ! (?p div 2)) \<le> ev_key (h ! ?p)"
      using edge [of ?p] p c(1) by (simp add: heap_edge_def)
    have "ev_key (h ! ?p) \<le> ev_key (h ! c)" if "c \<noteq> j"
      using edge [of c] that c by (simp add: heap_edge_def)
    with le pp p c(1,3) show ?thesis by (auto simp: at)
  qed
  ultimately show ?thesis by (simp add: up_inv_def)
qed

lemma up_inv_done:
  assumes "up_inv j h" and "h \<noteq> []" and "j < 2 \<or> heap_edge h j"
  shows "heap_ok h"
  using assms unfolding up_inv_def heap_ok_def by (metis leD)

lemma BottomUp_loop_ok:
  assumes "up_inv j h" and "1 \<le> j" and "j < length h"
  shows "\<exists>h'. BottomUp_loop j h = Inr h' \<and> heap_ok h' \<and> mset (tl h') = mset (tl h)"
  using assms
proof (induction j arbitrary: h rule: less_induct)
  case (less j)
  have ne: "h \<noteq> []" using less.prems(3) by auto
  show ?case
  proof (cases "j = 1")
    case True
    with up_inv_done [OF less.prems(1) ne] show ?thesis
      by (simp add: BottomUp_loop.simps [of "Suc 0"] IsRoot_def Root_def)
  next
    case False
    with less.prems(2) have j: "2 \<le> j" and j1: "j \<noteq> Suc 0" by simp_all
    then have p: "j div 2 < j" "1 \<le> j div 2" "j div 2 < length h" using less.prems(3) by auto
    show ?thesis
    proof (cases "ev_key (h ! j) < ev_key (h ! (j div 2))")
      case True
      have st: "up_inv (j div 2) (swap_at j (j div 2) h)"
        by (rule up_inv_step [OF less.prems(1) j less.prems(3) True])
      obtain h' where "BottomUp_loop (j div 2) (swap_at j (j div 2) h) = Inr h'"
        "heap_ok h'" "mset (tl h') = mset (tl (swap_at j (j div 2) h))"
        using less.IH [OF p(1) st p(2)] p(3) by auto
      moreover have "BottomUp_loop j h = BottomUp_loop (j div 2) (swap_at j (j div 2) h)"
        using True j1 p(3) less.prems(3)
        by (simp add: BottomUp_loop.simps [of j] IsRoot_def Root_def Parent_def IsLessStrictly_eq Exch_eq)
      ultimately show ?thesis using mset_tl_swap [of j "j div 2" h] p(2,3) less.prems(2,3) by simp
    next
      case lt: False
      then have "heap_edge h j" by (simp add: heap_edge_def)
      with up_inv_done [OF less.prems(1) ne] lt False p less.prems(3) show ?thesis
        by (simp add: BottomUp_loop.simps [of j] IsRoot_def Root_def Parent_def IsLessStrictly_eq)
    qed
  qed
qed

lemma down_inv_step:
  assumes inv: "down_inv j h" and j: "1 \<le> j" and t: "t div 2 = j" "t < length h"
    and le: "ev_key (h ! t) \<le> ev_key (h ! j)"
    and least: "\<And>c. c < length h \<Longrightarrow> c div 2 = j \<Longrightarrow> ev_key (h ! t) \<le> ev_key (h ! c)"
  shows "down_inv t (swap_at j t h)"
proof -
  let ?h = "swap_at j t h"
  have jt: "j < t" "j < length h" "2 \<le> t" using j t by auto
  have at: "?h ! i = (if i = t then h ! j else if i = j then h ! t else h ! i)" for i
    using jt(2) t(2) by (rule nth_swap_at)
  have edge: "heap_edge h i" if "2 \<le> i" "i < length h" "i div 2 \<noteq> j" for i
    using inv that by (simp add: down_inv_def)
  have "heap_edge ?h i" if i: "2 \<le> i" "i < length h" "i div 2 \<noteq> t" for i
  proof -
    consider "i = t" | "i = j" | "i \<noteq> t" "i \<noteq> j" "i div 2 = j" | "i \<noteq> t" "i \<noteq> j" "i div 2 \<noteq> j"
      by blast
    then show ?thesis
    proof cases
      case 1
      with le jt(1) t(1) show ?thesis by (simp add: heap_edge_def at)
    next
      case 2
      have "ev_key (h ! (j div 2)) \<le> ev_key (h ! t)"
        using inv 2 i(1) t by (simp add: down_inv_def)
      with 2 jt(1) i(1,3) show ?thesis by (simp add: heap_edge_def at)
    next
      case 3
      with least [OF i(2)] jt(1) show ?thesis by (simp add: heap_edge_def at)
    next
      case 4
      with edge [OF i(1,2)] i(3) show ?thesis by (simp add: heap_edge_def at)
    qed
  qed
  moreover have "ev_key (?h ! (t div 2)) \<le> ev_key (?h ! c)" if c: "c < length h" "c div 2 = t" for c
  proof -
    have "heap_edge h c" by (rule edge) (use c jt in auto)
    with c jt t(1) show ?thesis by (auto simp: heap_edge_def at)
  qed
  ultimately show ?thesis unfolding down_inv_def length_list_update by blast
qed

lemma down_inv_done:
  assumes "down_inv j h" and "h \<noteq> []"
    and "\<And>c. c < length h \<Longrightarrow> c div 2 = j \<Longrightarrow> ev_key (h ! j) \<le> ev_key (h ! c)"
  shows "heap_ok h"
  unfolding heap_ok_def
proof (intro conjI allI impI)
  fix i assume i: "2 \<le> i" "i < length h"
  show "heap_edge h i"
    using assms(1) assms(3) [of i] i by (cases "i div 2 = j") (simp_all add: down_inv_def heap_edge_def)
qed (rule assms(2))

lemma children_cases:
  fixes c j :: nat
  assumes "c div 2 = j"
  shows "c = LeftChild j \<or> c = RightChild j"
  using assms by (auto simp: LeftChild_def RightChild_def)

text \<open>One round of the loop: the smaller of two children, a single child, or none.\<close>

definition smaller_child :: "heap \<Rightarrow> nat \<Rightarrow> nat" where
  "smaller_child h j =
     (if ev_key (h ! LeftChild j) < ev_key (h ! RightChild j) then LeftChild j else RightChild j)"

lemma child_props:
  assumes "1 \<le> j"
  shows "LeftChild j div 2 = j" and "RightChild j div 2 = j" and "j < LeftChild j"
    and "LeftChild j < RightChild j" and "smaller_child h j div 2 = j" and "j < smaller_child h j"
    and "smaller_child h j \<le> RightChild j"
  using assms by (simp_all add: smaller_child_def LeftChild_def RightChild_def)

lemma smaller_child_least: "c div 2 = j \<Longrightarrow> ev_key (h ! smaller_child h j) \<le> ev_key (h ! c)"
  using children_cases [of c j] by (auto simp: smaller_child_def)

lemma TopDown_loop_both:
  assumes "1 \<le> j" and "RightChild j < length h"
  shows "TopDown_loop j h =
    (if ev_key (h ! j) < ev_key (h ! smaller_child h j) then Some (Inr h)
     else TopDown_loop (smaller_child h j) (swap_at j (smaller_child h j) h))"
proof -
  have "smaller_child h j < length h" "LeftChild j < length h" "j < length h"
    using child_props(3,4) [OF assms(1)] child_props(7) [OF assms(1), of h] assms(2) by simp_all
  with assms(2) show ?thesis
    by (subst TopDown_loop.simps)
      (simp add: IsBottom_def Smallest_eq IsLessStrictly_eq Exch_eq smaller_child_def [symmetric])
qed

lemma TopDown_loop_left:
  assumes "1 \<le> j" and "\<not> RightChild j < length h" and "LeftChild j < length h"
  shows "TopDown_loop j h =
    Some (Inr (if ev_key (h ! j) < ev_key (h ! LeftChild j) then h else swap_at j (LeftChild j) h))"
  using assms child_props(3) [OF assms(1)]
  by (subst TopDown_loop.simps) (simp add: IsBottom_def IsLessStrictly_eq Exch_eq)

lemma TopDown_loop_leaf:
  assumes "\<not> LeftChild j < length h"
  shows "TopDown_loop j h = Some (Inr h)"
  using assms by (subst TopDown_loop.simps) (simp add: IsBottom_def LeftChild_def RightChild_def)

lemma heap_ok_left:
  assumes inv: "down_inv j h" and j: "1 \<le> j" and ne: "h \<noteq> []"
    and r: "\<not> RightChild j < length h" and l: "LeftChild j < length h"
  shows "heap_ok (if ev_key (h ! j) < ev_key (h ! LeftChild j) then h else swap_at j (LeftChild j) h)"
proof -
  note ch = child_props [OF j]
  have only: "c = LeftChild j" if "c < length h" "c div 2 = j" for c
    using children_cases [OF that(2)] that(1) r by auto
  show ?thesis
  proof (cases "ev_key (h ! j) < ev_key (h ! LeftChild j)")
    case True
    have "heap_ok h"
      by (rule down_inv_done [OF inv ne]) (use True only in \<open>auto intro: less_imp_le\<close>)
    with True show ?thesis by simp
  next
    case False
    have st: "down_inv (LeftChild j) (swap_at j (LeftChild j) h)"
      by (rule down_inv_step [OF inv j ch(1) l]) (use False only in auto)
    have "heap_ok (swap_at j (LeftChild j) h)"
      by (rule down_inv_done [OF st]) (use ne r j in \<open>auto simp: LeftChild_def RightChild_def\<close>)
    with False show ?thesis by simp
  qed
qed

lemma TopDown_loop_ok:
  assumes "down_inv j h" and "1 \<le> j" and "h \<noteq> []"
  shows "\<exists>h'. TopDown_loop j h = Some (Inr h') \<and> heap_ok h' \<and> mset (tl h') = mset (tl h)"
  using assms
proof (induction "length h - j" arbitrary: j h rule: less_induct)
  case less
  note inv = less.prems(1) and j = less.prems(2) and ne = less.prems(3)
  note ch = child_props [OF j]
  consider (both) "RightChild j < length h" | (left) "\<not> RightChild j < length h" "LeftChild j < length h"
    | (leaf) "\<not> LeftChild j < length h" by blast
  then show ?case
  proof cases
    case both
    define t where "t = smaller_child h j"
    have t: "t div 2 = j" "t < length h" "j < t" using ch(5,6,7) [of h] both by (simp_all add: t_def)
    note eq = TopDown_loop_both [OF j both, folded t_def]
    note least = smaller_child_least [of _ j h, folded t_def]
    show ?thesis
    proof (cases "ev_key (h ! j) < ev_key (h ! t)")
      case True
      have "heap_ok h"
        by (rule down_inv_done [OF inv ne]) (use True least in \<open>blast intro: less_le_trans less_imp_le\<close>)
      with eq True show ?thesis by simp
    next
      case False
      have meas: "length (swap_at j t h) - t < length h - j" using t by simp
      have "down_inv t (swap_at j t h)"
        by (rule down_inv_step [OF inv j t(1,2)]) (use False least in auto)
      then obtain h' where "TopDown_loop t (swap_at j t h) = Some (Inr h')" "heap_ok h'"
        "mset (tl h') = mset (tl (swap_at j t h))"
        using less.hyps [of "swap_at j t h" t] meas t(3) j ne by fastforce
      with eq False show ?thesis using mset_tl_swap [of j t h] j t by simp
    qed
  next
    case left
    with heap_ok_left [OF inv j ne left] TopDown_loop_left [OF j left] mset_tl_swap [of j "LeftChild j" h] ch(3) j
    show ?thesis by simp
  next
    case leaf
    have "LeftChild (c div 2) \<le> c" for c by (simp add: LeftChild_def)
    then have "heap_ok h"
      by (intro down_inv_done [OF inv ne]) (use leaf in \<open>metis le_less_trans\<close>)
    with TopDown_loop_leaf [OF leaf] show ?thesis by simp
  qed
qed

lemma TopDown_ok:
  assumes "down_inv j h" and "1 \<le> j" and "h \<noteq> []"
  shows "\<exists>h'. TopDown j h = Inr h' \<and> heap_ok h' \<and> mset (tl h') = mset (tl h)"
  using TopDown_loop_ok [OF assms] by (auto simp: TopDown_def)

section \<open>The contract without removal\<close>

definition heap_R :: "heap \<Rightarrow> agenda \<Rightarrow> bool" where
  "heap_R h A \<longleftrightarrow> agenda_ok A \<and> heap_ok h \<and> mset (tl h) = mset_set (pending A)"

lemma heap_R_D:
  assumes "heap_R h A"
  shows "agenda_ok A" and "heap_ok h" and "mset (tl h) = mset_set (pending A)" and "h \<noteq> []"
    and "set (tl h) = pending A"
proof -
  show A: "agenda_ok A" "heap_ok h" "mset (tl h) = mset_set (pending A)"
    using assms by (simp_all add: heap_R_def)
  then show "h \<noteq> []" by (simp add: heap_ok_def)
  show "set (tl h) = pending A"
    using A(3) agenda_ok_D(1) [OF A(1)] by (metis finite_set_mset_mset_set set_mset_mset)
qed

lemma heap_R_at:
  assumes "heap_R h A" and "1 \<le> i" and "i < length h"
  shows "h ! i \<in> pending A"
proof -
  have "tl h ! (i - 1) \<in> set (tl h)" using assms(2,3) by (intro nth_mem) simp
  moreover have "tl h ! (i - 1) = h ! i"
    using assms(2) heap_R_D(4) [OF assms(1)] by (cases h) auto
  ultimately show ?thesis by (simp add: heap_R_D(5) [OF assms(1)])
qed

lemma heap_R_index:
  assumes "heap_R h A" and "e \<in> pending A"
  obtains i where "1 \<le> i" and "i < length h" and "h ! i = e"
proof -
  have "e \<in> set (tl h)" using assms by (simp add: heap_R_D(5))
  then obtain k where "k < length (tl h)" "tl h ! k = e" by (auto simp: in_set_conv_nth)
  with heap_R_D(4) [OF assms(1)] that [of "Suc k"] show ?thesis by (cases h) auto
qed

lemma heap_R_root:
  assumes "heap_R h A" and "pending A \<noteq> {}"
  shows "1 < length h" and "h ! 1 = earliest A"
proof -
  obtain e where e: "e \<in> pending A" using assms(2) by auto
  obtain i where "1 \<le> i" "i < length h" using heap_R_index [OF assms(1) e] .
  then show len: "1 < length h" by simp
  have "ev_key (h ! 1) \<le> ev_key f" if "f \<in> pending A" for f
    using heap_R_index [OF assms(1) that] heap_root_least [OF heap_R_D(2) [OF assms(1)]] by metis
  then show "h ! 1 = earliest A"
    using earliest_eqI [OF heap_R_D(1) [OF assms(1)] heap_R_at [OF assms(1) _ len]] by simp
qed

text \<open>
  Replacing the element at \<open>i\<close> by the last one and dropping the last one, as \<open>RemoveNext\<close> and
  \<open>Remove\<close> do.
\<close>

lemma nth_drop_swap:
  assumes "i < length h - 1" and "j < length h - 1"
  shows "butlast (swap_at i (length h - 1) h) ! j = (if j = i then last h else h ! j)"
  using assms by (cases "h = []") (auto simp: nth_butlast nth_list_update last_conv_nth)

lemma mset_drop_swap:
  assumes "1 \<le> i" and "i < length h"
  shows "mset (tl (butlast (swap_at i (length h - 1) h))) = mset (tl h) - {# h ! i #}"
proof -
  let ?h = "swap_at i (length h - 1) h"
  have len: "1 < length h" using assms by simp
  then have "tl ?h \<noteq> []" by (metis length_list_update length_tl list.size(3) zero_less_diff less_irrefl)
  then have "mset (tl ?h) = add_mset (last (tl ?h)) (mset (butlast (tl ?h)))"
    by (metis append_butlast_last_id mset_append mset.simps union_mset_add_mset_right add.right_neutral)
  moreover have "last (tl ?h) = h ! i"
  proof -
    have "last (tl ?h) = last ?h" using \<open>tl ?h \<noteq> []\<close> by (simp add: last_tl)
    also have "\<dots> = ?h ! (length h - 1)"
      using len by (subst last_conv_nth) auto
    also have "\<dots> = h ! i" using len by (simp add: nth_list_update)
    finally show ?thesis .
  qed
  moreover have "mset (tl ?h) = mset (tl h)"
    using mset_tl_swap [of i "length h - 1" h] assms len by simp
  ultimately show ?thesis by (metis add_mset_remove_trivial butlast_tl)
qed

lemma down_inv_drop_swap:
  assumes ok: "heap_ok h" and i: "1 \<le> i" "i < length h"
    and par: "i = 1 \<or> i = length h - 1 \<or> ev_key (h ! (i div 2)) \<le> ev_key (last h)"
  shows "down_inv i (butlast (swap_at i (length h - 1) h))"
proof -
  define g where "g = butlast (swap_at i (length h - 1) h)"
  have len: "length g = length h - 1" by (simp add: g_def)
  have edge: "ev_key (h ! (k div 2)) \<le> ev_key (h ! k)" if "2 \<le> k" "k < length h" for k
    using ok that by (simp add: heap_ok_def heap_edge_def)
  have at: "g ! k = (if k = i then last h else h ! k)" if "k < length h - 1" for k
  proof (cases "i = length h - 1")
    case True
    with that i show ?thesis by (simp add: g_def nth_butlast nth_list_update)
  next
    case False
    with i that show ?thesis unfolding g_def by (intro nth_drop_swap) auto
  qed
  have "heap_edge g k" if k: "2 \<le> k" "k < length h - 1" "k div 2 \<noteq> i" for k
  proof -
    have "k div 2 < length h - 1" "k < length h" using k(2) by simp_all
    with edge [of k] k par i(1) show ?thesis by (auto simp: heap_edge_def at)
  qed
  moreover have "ev_key (g ! (i div 2)) \<le> ev_key (g ! c)"
    if c: "2 \<le> i" "c < length h - 1" "c div 2 = i" for c
  proof -
    have "ev_key (h ! (i div 2)) \<le> ev_key (h ! i)" using edge [of i] c(1) i(2) by simp
    also have "\<dots> \<le> ev_key (h ! c)" using edge [of c] c by simp
    finally show ?thesis using c by (auto simp: at)
  qed
  ultimately show ?thesis unfolding g_def [symmetric] down_inv_def len by blast
qed

lemma drop_at_ok:
  assumes R: "heap_R h A" and i: "1 \<le> i" "i < length h"
    and par: "i = 1 \<or> i = length h - 1 \<or> ev_key (h ! (i div 2)) \<le> ev_key (last h)"
  shows "\<exists>h'. res_bind (Exch i (Last h) h) (\<lambda>h1. TopDown i (butlast h1)) = Inr h' \<and> heap_ok h' \<and>
    mset (tl h') = mset_set (pending A - {h ! i})"
proof -
  note D = heap_R_D [OF R]
  let ?h = "butlast (swap_at i (length h - 1) h)"
  have "0 < length ?h" using i by simp
  then have ne: "?h \<noteq> []" by (rule length_greater_0_conv [THEN iffD1])
  obtain h' where "TopDown i ?h = Inr h'" "heap_ok h'" "mset (tl h') = mset (tl ?h)"
    using TopDown_ok [OF down_inv_drop_swap [OF D(2) i par] i(1) ne] by blast
  moreover have "mset (tl ?h) = mset_set (pending A - {h ! i})"
    using mset_drop_swap [OF i] D(3) agenda_ok_D(1) [OF D(1)] heap_R_at [OF R i]
    by (simp add: mset_set_Diff)
  ultimately show ?thesis using i by (simp add: Exch_eq Last_def)
qed

interpretation heap_sched: scheduler HeapScheduler HeapScheduler_new heap_R
proof unfold_locales
  show "heap_R HeapScheduler_new empty_agenda"
    by (simp add: heap_R_def agenda_ok_empty heap_ok_def HeapScheduler_new_def)
      (simp add: empty_agenda_def)
  fix h A e
  assume R: "heap_R h A"
  note D = heap_R_D [OF R]
  show "agenda_ok A" by (rule D(1))
  show "s_IsEmpty HeapScheduler h \<longleftrightarrow> pending A = {}"
    using D(4,5) by (cases h) (auto simp: HeapScheduler_def heap_IsEmpty_def)
  show "\<exists>h'. s_Insert HeapScheduler e h = Inr h' \<and> heap_R h' (spec_step (CallInsert e) A)"
    if ad: "admissible e A"
  proof -
    have pos: "0 < length h" using D(4) by simp
    have "up_inv (length h) (h @ [e])"
      using D(2) by (auto simp: up_inv_def heap_ok_def heap_edge_def nth_append)
    then obtain h' where h': "BottomUp_loop (length h) (h @ [e]) = Inr h'" "heap_ok h'"
      "mset (tl h') = mset (tl (h @ [e]))"
      using BottomUp_loop_ok [of "length h" "h @ [e]"] pos by auto
    have "mset (tl (h @ [e])) = mset_set (insert e (pending A))"
      using D(3,4) agenda_ok_D(1) [OF D(1)] admissible_fresh(2) [OF ad] by simp
    then show ?thesis
      using h' spec_step_ok [OF D(1), of "CallInsert e"] ad
      by (simp add: HeapScheduler_def heap_Insert_def BottomUp_def Last_def heap_R_def)
  qed
  show "s_PeekNext HeapScheduler h = Inr (earliest A)" if "pending A \<noteq> {}"
    using heap_R_root [OF R that] by (simp add: HeapScheduler_def heap_PeekNext_def heap_at_def Root_def)
  show "\<exists>h'. s_RemoveNext HeapScheduler h = Inr (earliest A, h') \<and>
      heap_R h' (spec_step CallRemoveNext A)" if ne: "pending A \<noteq> {}"
  proof -
    note root = heap_R_root [OF R ne]
    obtain h' where "res_bind (Exch 1 (Last h) h) (\<lambda>h1. TopDown 1 (butlast h1)) = Inr h'" "heap_ok h'"
      "mset (tl h') = mset_set (pending A - {h ! 1})"
      using drop_at_ok [OF R le_refl root(1) disjI1 [OF refl]] by metis
    moreover from this(1) have "heap_RemoveNext h = Inr (h ! 1, h')"
      using root(1) by (auto simp: heap_RemoveNext_def heap_at_def Root_def)
    ultimately show ?thesis
      using root(2) spec_step_ok [OF D(1), of CallRemoveNext] ne
      by (simp add: HeapScheduler_def heap_R_def)
  qed
qed

text \<open>
  C26: the binary heap implements the event list of the interface for every session that removes no event
  by name: every call returns, stays inside the vector, and returns what the abstract event list
  returns; in particular the events come out in the order of their keys.
\<close>

theorem heap_session_refines:
  assumes "allowed_run cs empty_agenda" and "\<forall>e. CallRemove e \<notin> set cs"
  shows "\<exists>h. sched_run HeapScheduler cs HeapScheduler_new = Inr (spec_run cs empty_agenda, h)"
  using heap_sched.run_core [OF assms] by blast

section \<open>Removal\<close>

lemma heap_Remove_loop_at:
  assumes R: "heap_R h A" and i: "i < length h" and k: "1 \<le> k" "k \<le> i"
  shows "heap_Remove_loop k (h ! i) h = res_bind (Exch i (Last h) h) (\<lambda>h1. TopDown i (butlast h1))"
  using k
proof (induction "i - k" arbitrary: k)
  case 0
  then show ?case using i by (simp add: heap_Remove_loop.simps [of k])
next
  case (Suc n)
  then have lt: "k < i" "k < length h" using i by simp_all
  have dist: "distinct (tl h)"
    using heap_R_D(3) [OF R] agenda_ok_D(1) [OF heap_R_D(1) [OF R]]
    by (metis distinct_count_atmost_1 count_mset_set set_mset_mset finite_set_mset_mset_set count_mset)
  have "tl h ! (k - 1) \<noteq> tl h ! (i - 1)"
    using nth_eq_iff_index_eq [OF dist, of "k - 1" "i - 1"] lt Suc.prems i by simp
  moreover have "tl h ! (k - 1) = h ! k" "tl h ! (i - 1) = h ! i"
    using Suc.prems lt heap_R_D(4) [OF R] by (cases h; auto)+
  ultimately have "h ! i \<noteq> h ! k" by simp
  then have "ev_uid (h ! i) \<noteq> ev_uid (h ! k)"
    using inj_onD [OF agenda_ok_D(2) [OF heap_R_D(1) [OF R]]] heap_R_at [OF R] Suc.prems lt i
    by (metis le_trans)
  with Suc.hyps(1) [of "Suc k"] Suc.hyps(2) Suc.prems lt i show ?case
    by (simp add: heap_Remove_loop.simps [of k])
qed

text \<open>
  \<open>HeapScheduler::Remove\<close> does what the interface promises whenever the last element of the
  vector, which takes the place of the removed one, does not belong above it: when the removed event
  is the root or the last one, or its parent is not later than the last one. Then exactly that event
  is gone and the heap is ordered.
\<close>

lemma heap_remove_below_parent:
  assumes "heap_R h A" and "1 \<le> i" and "i < length h"
    and "i = 1 \<or> i = length h - 1 \<or> ev_key (h ! (i div 2)) \<le> ev_key (last h)"
  shows "\<exists>h'. heap_Remove (h ! i) h = Inr h' \<and> heap_R h' (spec_step (CallRemove (h ! i)) A)"
proof -
  obtain h' where h': "res_bind (Exch i (Last h) h) (\<lambda>h1. TopDown i (butlast h1)) = Inr h'"
    "heap_ok h'" "mset (tl h') = mset_set (pending A - {h ! i})"
    using drop_at_ok [OF assms] by metis
  have "heap_Remove (h ! i) h = Inr h'"
    unfolding heap_Remove_def heap_Remove_loop_at [OF assms(1,3) le_refl assms(2)] by (rule h'(1))
  moreover have "agenda_ok (spec_step (CallRemove (h ! i)) A)"
    by (rule spec_step_ok [OF heap_R_D(1)]) (use assms heap_R_at in simp_all)
  ultimately show ?thesis using h' by (simp add: heap_R_def)
qed

definition ex_event :: "nat \<Rightarrow> sch_event" where
  "ex_event t = Event t (EvKey (int t) (t + 4)) 0"

definition ex_heap :: heap where
  "ex_heap = [Event 0 (EvKey 0 0) 0, ex_event 1, ex_event 3, ex_event 2, ex_event 5]"

definition ex_agenda :: agenda where
  "ex_agenda = \<lparr>pending = {ex_event 1, ex_event 2, ex_event 3, ex_event 5}, clock = 0\<rparr>"

lemma ex_heap_R: "heap_R ex_heap ex_agenda"
proof -
  have "agenda_ok ex_agenda"
    by (simp add: agenda_ok_def ex_agenda_def ex_event_def UID_VALID_def)
  moreover have "heap_ok ex_heap" by code_simp
  ultimately show ?thesis
    by (simp add: heap_R_def ex_heap_def ex_agenda_def ex_event_def)
qed

definition heap_session :: "sched_call list" where
  "heap_session =
     map (\<lambda>t. CallInsert (ex_event t)) [6, 4, 7, 5, 2, 3, 1] @
     CallRemove (ex_event 6) # replicate 4 CallRemoveNext"

definition insert_session :: "sched_call list" where
  "insert_session =
     map (\<lambda>t. CallInsert (ex_event t)) [3, 1, 2] @ [CallPeekNext, CallRemoveNext, CallRemoveNext]"

theorem heap_session_refines_witness:
  "\<exists>h. sched_run HeapScheduler insert_session HeapScheduler_new =
     Inr (replicate 3 OutVoid @ map (\<lambda>t. OutEvent (ex_event t)) [1, 1, 2], h)"
proof -
  have "allowed_run insert_session empty_agenda" by code_simp
  moreover have "\<forall>e. CallRemove e \<notin> set insert_session" by (auto simp: insert_session_def)
  moreover have "spec_run insert_session empty_agenda =
     replicate 3 OutVoid @ map (\<lambda>t. OutEvent (ex_event t)) [1, 1, 2]" by code_simp
  ultimately show ?thesis using heap_session_refines [of insert_session] by simp
qed

text \<open>
  \<open>HeapScheduler::Remove\<close> breaks the order of the events in general. Seven events are inserted
  at the times 6, 4, 7, 5, 2, 3, 1 and the one at 6 is removed: the last element, at 3, takes its place
  below the one at 4 and is never sifted up. The next events are returned at 1, 2, 4 and 3; the
  interface promises 1, 2, 3 and 4.
\<close>

lemma heap_remove_reorders:
  "allowed_run heap_session empty_agenda \<and>
   spec_run heap_session empty_agenda =
     replicate 8 OutVoid @ map (\<lambda>t. OutEvent (ex_event t)) [1, 2, 3, 4] \<and>
   (\<exists>h. sched_run HeapScheduler heap_session HeapScheduler_new =
     Inr (replicate 8 OutVoid @ map (\<lambda>t. OutEvent (ex_event t)) [1, 2, 4, 3], h))"
proof (intro conjI)
  show "allowed_run heap_session empty_agenda" by code_simp
  show "spec_run heap_session empty_agenda =
     replicate 8 OutVoid @ map (\<lambda>t. OutEvent (ex_event t)) [1, 2, 3, 4]" by code_simp
  have "map_sum id fst (sched_run HeapScheduler heap_session HeapScheduler_new) =
    Inr (replicate 8 OutVoid @ map (\<lambda>t. OutEvent (ex_event t)) [1, 2, 4, 3])" by code_simp
  then show "\<exists>h. sched_run HeapScheduler heap_session HeapScheduler_new =
     Inr (replicate 8 OutVoid @ map (\<lambda>t. OutEvent (ex_event t)) [1, 2, 4, 3], h)"
    by (cases "sched_run HeapScheduler heap_session HeapScheduler_new") auto
qed

section \<open>Bounds and termination\<close>

lemma TopDown_loop_total:
  assumes "1 \<le> j"
  shows "\<exists>h'. TopDown_loop j h = Some (Inr h') \<and> length h' = length h \<and> mset (tl h') = mset (tl h)"
  using assms
proof (induction "length h - j" arbitrary: j h rule: less_induct)
  case less
  note ch = child_props [OF less.prems]
  consider (both) "RightChild j < length h" | (left) "\<not> RightChild j < length h" "LeftChild j < length h"
    | (leaf) "\<not> LeftChild j < length h" by blast
  then show ?case
  proof cases
    case both
    define t where "t = smaller_child h j"
    have t: "t < length h" "j < t" using ch(6,7) [of h] both by (simp_all add: t_def)
    then have "length (swap_at j t h) - t < length h - j" by simp
    from less.hyps [OF this] show ?thesis
      using mset_tl_swap [of j t h] less.prems t by (auto simp: TopDown_loop_both [OF less.prems both, folded t_def])
  next
    case left
    with TopDown_loop_left [OF less.prems left] mset_tl_swap [of j "LeftChild j" h] ch(3) less.prems
    show ?thesis by simp
  qed (simp add: TopDown_loop_leaf)
qed

lemma TopDown_loop_zero:
  assumes "2 \<le> length h" and "ev_key (h ! 0) < ev_key (h ! 1)"
  shows "TopDown_loop 0 h = None"
proof (rule ccontr)
  assume "TopDown_loop 0 h \<noteq> None"
  then obtain r where r: "TopDown_loop 0 h = Some r" by auto
  have "\<not> (j = 0 \<and> g = h)" if "TopDown_loop j g = Some r'" for j g r'
  proof (rule TopDown_loop.raw_induct [where P = "\<lambda>j g _. \<not> (j = 0 \<and> g = h)", OF _ that], rule notI)
    fix f j g y
    assume IH: "\<And>j g y. f j g = Some y \<Longrightarrow> \<not> (j = 0 \<and> g = h)" and jg: "j = 0 \<and> g = h"
      and body: "(if \<not> IsBottom g (RightChild j)
        then (case Smallest g (LeftChild j) (RightChild j) of
                Inl e \<Rightarrow> Some (Inl e)
              | Inr tmp \<Rightarrow>
                  (case IsLessStrictly g j tmp of
                     Inl e \<Rightarrow> Some (Inl e)
                   | Inr lt \<Rightarrow>
                       if lt then Some (Inr g)
                       else (case Exch j tmp g of Inl e \<Rightarrow> Some (Inl e) | Inr h' \<Rightarrow> f tmp h')))
        else if IsBottom g j then Some (Inr g)
        else if IsBottom g (LeftChild j) then Some (Inr g)
        else Some (res_bind (IsLessStrictly g j (LeftChild j)) (\<lambda>lt.
          if lt then Inr g else Exch j (LeftChild j) g))) = Some y"
    have "0 < length h" "Suc 0 < length h" using assms(1) by auto
    then have "f 0 h = Some y"
      using body assms jg
      by (simp add: IsBottom_def LeftChild_def RightChild_def Smallest_eq IsLessStrictly_eq Exch_eq)
    with IH show False by blast
  qed
  with r show False by blast
qed

text \<open>
  Sifting down ends and stays inside the vector, whatever the vector holds, for every start index
  from one on; it only permutes the elements behind the wasted one. From index 0, which is its own left
  child, it does not end when the wasted element is the smaller one.
\<close>

lemma sift_down_terminates:
  "(\<forall>start \<ge> 1. \<forall>h. \<exists>h'. TopDown start h = Inr h' \<and> length h' = length h \<and> mset (tl h') = mset (tl h)) \<and>
   TopDown 0 [ex_event 0, ex_event 1] = Inl NonTermination"
proof
  have "\<exists>h'. TopDown start h = Inr h' \<and> length h' = length h \<and> mset (tl h') = mset (tl h)"
    if "1 \<le> start" for start h
    using TopDown_loop_total [OF that, of h] by (auto simp: TopDown_def)
  then show "\<forall>start \<ge> 1. \<forall>h. \<exists>h'. TopDown start h = Inr h' \<and> length h' = length h \<and>
    mset (tl h') = mset (tl h)" by blast
  have "TopDown_loop 0 [ex_event 0, ex_event 1] = None"
    by (rule TopDown_loop_zero) (simp_all add: ex_event_def less_ev_key_def)
  then show "TopDown 0 [ex_event 0, ex_event 1] = Inl NonTermination" by (simp add: TopDown_def)
qed

end
