(* ===== verification/Calendar_Scheduler.thy ===== *)
theory Calendar_Scheduler
  imports Schedulers
begin

text \<open>
  \<open>CalendarScheduler\<close> (\<open>calendar-scheduler.cc\<close>): events are hashed by their time stamp into
  buckets of a width, as the days of a year are; the next event is searched from the bucket of the last
  one, first within the current year and then by comparing the fronts of all buckets. The number and the
  width of the buckets follow the number of events. \<open>uint64_t\<close> values are integers reduced modulo
  \<open>2 ^ 64\<close> where the source computes, \<open>uint32_t\<close> values natural numbers. The search is a
  do-while loop that ends only if it comes back to the bucket it started from: it is a partial function,
  and a loop that does not end is \<open>NonTermination\<close>. The theory shows that the calendar keeps the
  contract of \<open>removable_scheduler\<close>, whatever resizing does and also when the window of a bucket wraps
  around.
\<close>

type_synonym bucket = "sch_event list"

record calendar =
  m_buckets :: "bucket list"
  m_nBuckets :: nat
  m_width :: int
  m_lastBucket :: nat
  m_bucketTop :: int
  m_lastPrio :: int
  m_qSize :: nat
  m_reverse :: bool

section \<open>Buckets\<close>

text \<open>\<open>SetReverse\<close> chooses the three operations on a bucket.\<close>

definition NextEvent :: "bool \<Rightarrow> bucket \<Rightarrow> sch_event" where
  "NextEvent r b = (if r then last b else hd b)"

definition Order :: "bool \<Rightarrow> ev_key \<Rightarrow> ev_key \<Rightarrow> bool" where
  "Order r k l \<longleftrightarrow> (if r then l < k else k < l)"

definition Pop :: "bool \<Rightarrow> bucket \<Rightarrow> bucket" where
  "Pop r b = (if r then butlast b else tl b)"

fun bucket_insert :: "bool \<Rightarrow> sch_event \<Rightarrow> bucket \<Rightarrow> bucket" where
  "bucket_insert r ev [] = [ev]"
| "bucket_insert r ev (e # b) =
     (if Order r (ev_key ev) (ev_key e) then ev # e # b else e # bucket_insert r ev b)"

section \<open>The operations\<close>

definition Hash :: "int \<Rightarrow> nat \<Rightarrow> int \<Rightarrow> nat" where
  "Hash width nBuckets ts = nat ((ts div width) mod int nBuckets)"

definition window_top :: "int \<Rightarrow> int \<Rightarrow> int" where
  "window_top width prio = ((prio div width + 1) * width) mod 2 ^ 64"

definition Init :: "nat \<Rightarrow> int \<Rightarrow> int \<Rightarrow> calendar \<Rightarrow> calendar" where
  "Init nBuckets width startPrio c =
     c\<lparr>m_buckets := replicate nBuckets [],
       m_nBuckets := nBuckets,
       m_width := width,
       m_lastPrio := startPrio,
       m_lastBucket := Hash width nBuckets startPrio,
       m_bucketTop := window_top width startPrio\<rparr>"

definition CalendarScheduler_new :: "bool \<Rightarrow> calendar" where
  "CalendarScheduler_new reverse =
     Init 2 1 0 \<lparr>m_buckets = [], m_nBuckets = 0, m_width = 0, m_lastBucket = 0, m_bucketTop = 0,
                 m_lastPrio = 0, m_qSize = 0, m_reverse = reverse\<rparr>"

definition DoInsert :: "sch_event \<Rightarrow> calendar \<Rightarrow> calendar" where
  "DoInsert ev c =
     (let b = Hash (m_width c) (m_nBuckets c) (ev_ts ev)
      in c\<lparr>m_buckets := (m_buckets c)[b := bucket_insert (m_reverse c) ev (m_buckets c ! b)]\<rparr>)"

definition cal_IsEmpty :: "calendar \<Rightarrow> bool" where
  "cal_IsEmpty c \<longleftrightarrow> m_qSize c = 0"

text \<open>
  The search that \<open>PeekNext\<close> and \<open>DoRemoveNext\<close> have in common. They differ in what they
  remember of the least front so far: \<open>key_of\<close> reads its key, \<open>keep\<close> is what is stored for a
  smaller front.
\<close>

datatype 'a search = Found nat int sch_event | Exhausted 'a

partial_function (option) search_loop ::
  "('a \<Rightarrow> ev_key) \<Rightarrow> (sch_event \<Rightarrow> nat \<Rightarrow> 'a) \<Rightarrow> calendar \<Rightarrow> nat \<Rightarrow> int \<Rightarrow> 'a \<Rightarrow> 'a search option" where
  "search_loop key_of keep c i bucketTop acc =
     (let b = m_buckets c ! i;
          next = NextEvent (m_reverse c) b
      in if b \<noteq> [] \<and> ev_ts next < bucketTop then Some (Found i bucketTop next)
         else let acc' = (if b \<noteq> [] \<and> ev_key next < key_of acc then keep next i else acc);
                  i' = (i + 1) mod m_nBuckets c;
                  bucketTop' = (bucketTop + m_width c) mod 2 ^ 64
              in if i' \<noteq> m_lastBucket c then search_loop key_of keep c i' bucketTop' acc'
                 else Some (Exhausted acc'))"

definition cal_PeekNext :: "calendar \<Rightarrow> sch_event res" where
  "cal_PeekNext c =
     abort_if (cal_IsEmpty c) EmptyScheduler
       (case search_loop ev_key (\<lambda>next i. next) c (m_lastBucket c) (m_bucketTop c)
               (Event 0 (EvKey (2 ^ 64 - 1) (2 ^ 32 - 1)) 0) of
          None \<Rightarrow> Inl NonTermination
        | Some (Found i bucketTop next) \<Rightarrow> Inr next
        | Some (Exhausted minEvent) \<Rightarrow> Inr minEvent)"

definition cal_pop :: "nat \<Rightarrow> calendar \<Rightarrow> calendar" where
  "cal_pop i c = c\<lparr>m_buckets := (m_buckets c)[i := Pop (m_reverse c) (m_buckets c ! i)]\<rparr>"

definition DoRemoveNext :: "calendar \<Rightarrow> (sch_event \<times> calendar) res" where
  "DoRemoveNext c =
     abort_if (cal_IsEmpty c) EmptyScheduler
       (case search_loop fst (\<lambda>next i. (ev_key next, Some i)) c (m_lastBucket c) (m_bucketTop c)
               (EvKey (2 ^ 64 - 1) 0, None) of
          None \<Rightarrow> Inl NonTermination
        | Some (Found i bucketTop next) \<Rightarrow>
            Inr (next, cal_pop i (c\<lparr>m_lastBucket := i, m_lastPrio := ev_ts next,
                                    m_bucketTop := bucketTop\<rparr>))
        | Some (Exhausted (minKey, minBucket)) \<Rightarrow>
            (case minBucket of
               None \<Rightarrow> Inl IndexOutOfRange
             | Some i \<Rightarrow>
                 Inr (NextEvent (m_reverse c) (m_buckets c ! i),
                      cal_pop i (c\<lparr>m_lastPrio := key_ts minKey,
                                   m_lastBucket := Hash (m_width c) (m_nBuckets c) (key_ts minKey),
                                   m_bucketTop := window_top (m_width c) (key_ts minKey)\<rparr>))))"

fun gather :: "nat \<Rightarrow> calendar \<Rightarrow> (sch_event list \<times> calendar) res" where
  "gather 0 c = Inr ([], c)"
| "gather (Suc n) c =
     res_bind (DoRemoveNext c) (\<lambda>(e, c1).
       res_bind (gather n c1) (\<lambda>(es, c2). Inr (e # es, c2)))"

definition nSamples :: "nat \<Rightarrow> nat" where
  "nSamples qSize = min (if qSize \<le> 5 then qSize else 5 + qSize div 10) 25"

fun separations :: "sch_event list \<Rightarrow> int list" where
  "separations (cur # next # es) = (ev_ts next - ev_ts cur) mod 2 ^ 64 # separations (next # es)"
| "separations _ = []"

definition sum64 :: "int list \<Rightarrow> int" where
  "sum64 xs = foldl (\<lambda>s x. (s + x) mod 2 ^ 64) 0 xs"

definition samples_width :: "sch_event list \<Rightarrow> nat \<Rightarrow> int" where
  "samples_width samples n =
     (let seps = separations samples;
          twiceAvg = (sum64 seps div int (n - 1) * 2) mod 2 ^ 64;
          total = sum64 (filter (\<lambda>d. d \<le> twiceAvg) seps)
      in max ((total * 3) mod 2 ^ 64) 1)"

definition CalculateNewWidth :: "calendar \<Rightarrow> (int \<times> calendar) res" where
  "CalculateNewWidth c =
     (if m_qSize c < 2 then Inr (1, c)
      else let n = nSamples (m_qSize c)
           in res_bind (gather n c) (\<lambda>(samples, c1).
                let c2 = fold DoInsert samples c1
                in Inr (samples_width samples n,
                        c2\<lparr>m_lastBucket := m_lastBucket c, m_bucketTop := m_bucketTop c,
                           m_lastPrio := m_lastPrio c\<rparr>)))"

definition DoResize :: "nat \<Rightarrow> int \<Rightarrow> calendar \<Rightarrow> calendar" where
  "DoResize newSize newWidth c =
     fold (\<lambda>b c. fold DoInsert b c) (m_buckets c) (Init newSize newWidth (m_lastPrio c) c)"

definition Resize :: "nat \<Rightarrow> calendar \<Rightarrow> calendar res" where
  "Resize newSize c =
     res_bind (CalculateNewWidth c) (\<lambda>(newWidth, c'). Inr (DoResize newSize newWidth c'))"

definition ResizeUp :: "calendar \<Rightarrow> calendar res" where
  "ResizeUp c =
     (if (m_nBuckets c * 2) mod 2 ^ 32 < m_qSize c \<and> m_nBuckets c < 32768
      then Resize ((m_nBuckets c * 2) mod 2 ^ 32) c else Inr c)"

definition ResizeDown :: "calendar \<Rightarrow> calendar res" where
  "ResizeDown c =
     (if m_qSize c < m_nBuckets c div 2 then Resize (m_nBuckets c div 2) c else Inr c)"

definition cal_Insert :: "sch_event \<Rightarrow> calendar \<Rightarrow> calendar res" where
  "cal_Insert ev c = ResizeUp ((DoInsert ev c)\<lparr>m_qSize := (m_qSize c + 1) mod 2 ^ 32\<rparr>)"

definition cal_RemoveNext :: "calendar \<Rightarrow> (sch_event \<times> calendar) res" where
  "cal_RemoveNext c =
     abort_if (cal_IsEmpty c) EmptyScheduler
       (res_bind (DoRemoveNext c) (\<lambda>(ev, c1).
          res_bind (ResizeDown (c1\<lparr>m_qSize := m_qSize c1 - 1\<rparr>)) (\<lambda>c2. Inr (ev, c2))))"

text \<open>The search for the event in its bucket is the one of \<open>ListScheduler::Remove\<close>.\<close>

definition cal_Remove :: "sch_event \<Rightarrow> calendar \<Rightarrow> calendar res" where
  "cal_Remove ev c =
     abort_if (cal_IsEmpty c) EmptyScheduler
       (let i = Hash (m_width c) (m_nBuckets c) (ev_ts ev)
        in res_bind (list_Remove ev (m_buckets c ! i)) (\<lambda>b.
             ResizeDown (c\<lparr>m_buckets := (m_buckets c)[i := b], m_qSize := m_qSize c - 1\<rparr>)))"

definition CalendarScheduler :: "calendar event_list" where
  "CalendarScheduler =
     \<lparr>s_Insert = cal_Insert, s_IsEmpty = cal_IsEmpty, s_PeekNext = cal_PeekNext,
      s_RemoveNext = cal_RemoveNext, s_Remove = cal_Remove\<rparr>"

declare search_loop.simps [code]

section \<open>Order inside a bucket\<close>

definition bucket_ok :: "bool \<Rightarrow> bucket \<Rightarrow> bool" where
  "bucket_ok r b \<longleftrightarrow> sorted_wrt (Order r) (map ev_key b)"

lemma Order_trans: "Order r x y \<Longrightarrow> Order r y z \<Longrightarrow> Order r x z"
  by (auto simp: Order_def split: if_splits)

lemma Order_total: "x \<noteq> y \<Longrightarrow> \<not> Order r x y \<Longrightarrow> Order r y x"
  by (auto simp: Order_def split: if_splits)

lemma bucket_ok_Nil [simp]: "bucket_ok r []"
  by (simp add: bucket_ok_def)

lemma bucket_ok_Cons [simp]:
  "bucket_ok r (e # b) \<longleftrightarrow> (\<forall>f \<in> set b. Order r (ev_key e) (ev_key f)) \<and> bucket_ok r b"
  by (simp add: bucket_ok_def)

lemma set_bucket_insert [simp]: "set (bucket_insert r e b) = insert e (set b)"
  by (induction b) auto

lemma bucket_ok_insert:
  "bucket_ok r b \<Longrightarrow> ev_key e \<notin> ev_key ` set b \<Longrightarrow> bucket_ok r (bucket_insert r e b)"
  by (induction b) (auto intro: Order_trans Order_total)

lemma bucket_ok_remove1: "bucket_ok r b \<Longrightarrow> bucket_ok r (remove1 e b)"
  by (induction b) (auto dest: notin_set_remove1)

lemma bucket_ok_distinct: "bucket_ok r b \<Longrightarrow> distinct b"
  by (induction b) (auto simp: Order_def split: if_splits)

lemma NextEvent_in: "b \<noteq> [] \<Longrightarrow> NextEvent r b \<in> set b"
  by (simp add: NextEvent_def)

lemma NextEvent_least:
  assumes "bucket_ok r b" and "f \<in> set b"
  shows "ev_key (NextEvent r b) \<le> ev_key f"
proof (cases r)
  case True
  obtain b' x where b: "b = b' @ [x]" using assms(2) by (metis list.set_cases rev_exhaust append_is_Nil_conv list.distinct(1))
  with assms True show ?thesis
    by (auto simp: NextEvent_def bucket_ok_def sorted_wrt_append Order_def less_imp_le)
next
  case False
  with assms show ?thesis by (cases b) (auto simp: NextEvent_def Order_def less_imp_le)
qed

lemma Pop_remove1:
  assumes "bucket_ok r b" and "b \<noteq> []"
  shows "Pop r b = remove1 (NextEvent r b) b"
proof (cases r)
  case True
  obtain b' x where b: "b = b' @ [x]" using assms(2) by (metis rev_exhaust)
  with bucket_ok_distinct [OF assms(1)] True show ?thesis
    by (simp add: Pop_def NextEvent_def remove1_append)
next
  case False
  with assms(2) show ?thesis by (cases b) (simp_all add: Pop_def NextEvent_def)
qed

section \<open>The invariant\<close>

text \<open>The number of buckets is a power of two of at most 32768.\<close>

definition bucket_count :: "nat \<Rightarrow> bool" where
  "bucket_count n \<longleftrightarrow> (\<exists>k \<le> 15. n = 2 ^ k)"

lemma bucket_count_pos: "bucket_count n \<Longrightarrow> 1 \<le> n"
  by (auto simp: bucket_count_def)

lemma bucket_count_le: "bucket_count n \<Longrightarrow> n \<le> 32768"
  unfolding bucket_count_def using power_increasing [of _ 15 "2::nat"] by fastforce

lemma bucket_count_double:
  assumes "bucket_count n" and "n < 32768"
  shows "bucket_count (2 * n)"
proof -
  obtain k where k: "n = 2 ^ k" "k \<le> 15" using assms(1) by (auto simp: bucket_count_def)
  with assms(2) have "k \<noteq> 15" by auto
  with k show ?thesis unfolding bucket_count_def by (intro exI [of _ "Suc k"]) simp
qed

lemma bucket_count_halve:
  assumes "bucket_count n" and "0 < n div 2"
  shows "bucket_count (n div 2)"
proof -
  obtain k where k: "n = 2 ^ k" "k \<le> 15" using assms(1) by (auto simp: bucket_count_def)
  with assms(2) obtain j where "k = Suc j" by (cases k) auto
  with k show ?thesis unfolding bucket_count_def by (intro exI [of _ j]) simp
qed

definition cal_buckets :: "calendar \<Rightarrow> sch_event set \<Rightarrow> bool" where
  "cal_buckets c M \<longleftrightarrow>
     bucket_count (m_nBuckets c) \<and> length (m_buckets c) = m_nBuckets c \<and>
     1 \<le> m_width c \<and> m_width c < 2 ^ 64 \<and>
     (\<forall>i < m_nBuckets c. bucket_ok (m_reverse c) (m_buckets c ! i) \<and>
        set (m_buckets c ! i) = {e \<in> M. Hash (m_width c) (m_nBuckets c) (ev_ts e) = i})"

definition cal_window :: "calendar \<Rightarrow> bool" where
  "cal_window c \<longleftrightarrow>
     m_lastBucket c = Hash (m_width c) (m_nBuckets c) (m_lastPrio c) \<and>
     m_bucketTop c = window_top (m_width c) (m_lastPrio c)"

definition cal_ok :: "calendar \<Rightarrow> agenda \<Rightarrow> bool" where
  "cal_ok c A \<longleftrightarrow>
     agenda_ok A \<and> cal_buckets c (pending A) \<and> cal_window c \<and> m_lastPrio c = clock A"

definition cal_R :: "calendar \<Rightarrow> agenda \<Rightarrow> bool" where
  "cal_R c A \<longleftrightarrow> cal_ok c A \<and> m_qSize c = card (pending A)"

abbreviation bucket_of :: "calendar \<Rightarrow> sch_event \<Rightarrow> nat" where
  "bucket_of c e \<equiv> Hash (m_width c) (m_nBuckets c) (ev_ts e)"

lemma cal_buckets_D:
  assumes "cal_buckets c M"
  shows "1 \<le> m_nBuckets c" and "bucket_count (m_nBuckets c)" and "length (m_buckets c) = m_nBuckets c"
    and "1 \<le> m_width c" and "m_width c < 2 ^ 64"
    and "i < m_nBuckets c \<Longrightarrow> bucket_ok (m_reverse c) (m_buckets c ! i)"
    and "i < m_nBuckets c \<Longrightarrow> set (m_buckets c ! i) = {e \<in> M. bucket_of c e = i}"
  using assms bucket_count_pos unfolding cal_buckets_def by blast+

lemma Hash_less: "1 \<le> n \<Longrightarrow> Hash w n ts < n"
  by (simp add: Hash_def nat_less_iff)

lemma cal_ok_D:
  assumes "cal_ok c A"
  shows "agenda_ok A" and "cal_buckets c (pending A)" and "cal_window c" and "m_lastPrio c = clock A"
  using assms by (simp_all add: cal_ok_def)

text \<open>Replacing one bucket.\<close>

lemma cal_buckets_update:
  assumes "cal_buckets c M" and "i < m_nBuckets c" and "bucket_ok (m_reverse c) b"
    and "set b = {e \<in> M'. bucket_of c e = i}"
    and "\<And>e. bucket_of c e \<noteq> i \<Longrightarrow> e \<in> M' \<longleftrightarrow> e \<in> M"
  shows "cal_buckets (c\<lparr>m_buckets := (m_buckets c)[i := b]\<rparr>) M'"
  using assms unfolding cal_buckets_def by (auto simp: nth_list_update)

lemma cal_buckets_frame:
  "cal_buckets (c\<lparr>m_lastBucket := x\<rparr>) M = cal_buckets c M"
  "cal_buckets (c\<lparr>m_bucketTop := y\<rparr>) M = cal_buckets c M"
  "cal_buckets (c\<lparr>m_lastPrio := z\<rparr>) M = cal_buckets c M"
  "cal_buckets (c\<lparr>m_qSize := q\<rparr>) M = cal_buckets c M"
  by (simp_all add: cal_buckets_def)

lemma DoInsert_buckets:
  assumes "cal_buckets c M" and "ev_key e \<notin> ev_key ` M"
  shows "cal_buckets (DoInsert e c) (insert e M)"
proof -
  note D = cal_buckets_D [OF assms(1)]
  have i: "bucket_of c e < m_nBuckets c" using D(1) by (rule Hash_less)
  have "ev_key e \<notin> ev_key ` set (m_buckets c ! bucket_of c e)"
    using assms(2) by (auto simp: D(7) [OF i])
  then have "bucket_ok (m_reverse c) (bucket_insert (m_reverse c) e (m_buckets c ! bucket_of c e))"
    by (rule bucket_ok_insert [OF D(6) [OF i]])
  then show ?thesis
    unfolding DoInsert_def Let_def
    by (rule cal_buckets_update [OF assms(1) i]) (auto simp: D(7) [OF i])
qed

lemma DoInsert_frame [simp]:
  "m_nBuckets (DoInsert e c) = m_nBuckets c" "m_width (DoInsert e c) = m_width c"
  "m_lastBucket (DoInsert e c) = m_lastBucket c" "m_bucketTop (DoInsert e c) = m_bucketTop c"
  "m_lastPrio (DoInsert e c) = m_lastPrio c" "m_qSize (DoInsert e c) = m_qSize c"
  "m_reverse (DoInsert e c) = m_reverse c"
  by (simp_all add: DoInsert_def Let_def)

lemma fold_DoInsert_frame [simp]:
  "m_nBuckets (fold DoInsert es c) = m_nBuckets c" "m_width (fold DoInsert es c) = m_width c"
  "m_lastBucket (fold DoInsert es c) = m_lastBucket c" "m_bucketTop (fold DoInsert es c) = m_bucketTop c"
  "m_lastPrio (fold DoInsert es c) = m_lastPrio c" "m_qSize (fold DoInsert es c) = m_qSize c"
  by (induction es arbitrary: c) simp_all

lemma fold_DoInsert_buckets:
  assumes "cal_buckets c M" and "inj_on ev_key (M \<union> set es)" and "distinct es" and "set es \<inter> M = {}"
  shows "cal_buckets (fold DoInsert es c) (M \<union> set es)"
  using assms
proof (induction es arbitrary: c M)
  case Nil
  then show ?case by simp
next
  case (Cons e es)
  have "ev_key e \<notin> ev_key ` M"
    using Cons.prems(2,4) by (auto simp: inj_on_def)
  then have "cal_buckets (DoInsert e c) (insert e M)"
    by (rule DoInsert_buckets [OF Cons.prems(1)])
  then have "cal_buckets (fold DoInsert es (DoInsert e c)) (insert e M \<union> set es)"
    by (rule Cons.IH) (use Cons.prems in auto)
  then show ?case by (simp add: insert_commute)
qed

section \<open>The search\<close>

lemma nat_mod_Suc:
  assumes "1 \<le> n"
  shows "nat ((x + 1) mod int n) = (nat (x mod int n) + 1) mod n"
proof -
  have "int ((nat (x mod int n) + 1) mod n) = (x mod int n + 1) mod int n"
    using assms by (simp add: zmod_int ac_simps)
  also have "\<dots> = (x + 1) mod int n" by (simp add: mod_add_left_eq)
  finally show ?thesis by (metis nat_int)
qed

lemma mod_round:
  fixes q :: int
  assumes "0 < k" and "k \<le> n"
  shows "nat ((q + int k) mod int n) = nat (q mod int n) \<longleftrightarrow> k = n"
proof
  assume "nat ((q + int k) mod int n) = nat (q mod int n)"
  then have "(q + int k) mod int n = q mod int n"
    using assms by (simp add: nat_eq_iff)
  then have "int n dvd int k" by (simp add: mod_eq_dvd_iff)
  then show "k = n" using assms by (simp add: nat_dvd_not_less le_less) (meson nat_dvd_not_less)
qed simp

text \<open>The bucket and the top of the window the search is at after \<open>k\<close> rounds.\<close>

definition at_bucket :: "calendar \<Rightarrow> nat \<Rightarrow> nat" where
  "at_bucket c k = nat ((m_lastPrio c div m_width c + int k) mod int (m_nBuckets c))"

definition top_at :: "calendar \<Rightarrow> nat \<Rightarrow> int" where
  "top_at c k = ((m_lastPrio c div m_width c + int k + 1) * m_width c) mod 2 ^ 64"

definition at_front :: "calendar \<Rightarrow> nat \<Rightarrow> sch_event" where
  "at_front c k = NextEvent (m_reverse c) (m_buckets c ! at_bucket c k)"

definition hit :: "calendar \<Rightarrow> nat \<Rightarrow> bool" where
  "hit c k \<longleftrightarrow> m_buckets c ! at_bucket c k \<noteq> [] \<and> ev_ts (at_front c k) < top_at c k"

lemma at_start:
  assumes "cal_window c"
  shows "m_lastBucket c = at_bucket c 0" and "m_bucketTop c = top_at c 0"
  using assms by (simp_all add: cal_window_def at_bucket_def top_at_def Hash_def window_top_def)

lemma at_Suc:
  assumes "1 \<le> m_nBuckets c"
  shows "(at_bucket c k + 1) mod m_nBuckets c = at_bucket c (Suc k)"
    and "(top_at c k + m_width c) mod 2 ^ 64 = top_at c (Suc k)"
proof -
  show "(at_bucket c k + 1) mod m_nBuckets c = at_bucket c (Suc k)"
    using nat_mod_Suc [OF assms, of "m_lastPrio c div m_width c + int k"]
    by (simp add: at_bucket_def ac_simps)
  have "(m_lastPrio c div m_width c + int k + 1) * m_width c + m_width c =
      (m_lastPrio c div m_width c + int (Suc k) + 1) * m_width c" by (simp add: algebra_simps)
  then show "(top_at c k + m_width c) mod 2 ^ 64 = top_at c (Suc k)"
    by (simp add: top_at_def mod_add_left_eq)
qed

lemma at_round:
  "0 < k \<Longrightarrow> k \<le> m_nBuckets c \<Longrightarrow> at_bucket c k = at_bucket c 0 \<longleftrightarrow> k = m_nBuckets c"
  using mod_round [of k "m_nBuckets c" "m_lastPrio c div m_width c"] by (simp add: at_bucket_def)

definition remember ::
  "('a \<Rightarrow> ev_key) \<Rightarrow> (sch_event \<Rightarrow> nat \<Rightarrow> 'a) \<Rightarrow> calendar \<Rightarrow> nat \<Rightarrow> 'a \<Rightarrow> 'a" where
  "remember key_of keep c k acc =
     (if m_buckets c ! at_bucket c k \<noteq> [] \<and> ev_key (at_front c k) < key_of acc
      then keep (at_front c k) (at_bucket c k) else acc)"

lemma search_loop_step:
  assumes "cal_window c" and "1 \<le> m_nBuckets c" and "k < m_nBuckets c"
  shows "search_loop key_of keep c (at_bucket c k) (top_at c k) acc =
    (if hit c k then Some (Found (at_bucket c k) (top_at c k) (at_front c k))
     else if Suc k < m_nBuckets c
       then search_loop key_of keep c (at_bucket c (Suc k)) (top_at c (Suc k)) (remember key_of keep c k acc)
       else Some (Exhausted (remember key_of keep c k acc)))"
proof -
  have "at_bucket c (Suc k) \<noteq> m_lastBucket c \<longleftrightarrow> Suc k < m_nBuckets c"
    using at_round [of "Suc k" c] assms(3) at_start(1) [OF assms(1)] by auto
  then show ?thesis
    unfolding search_loop.simps [of _ _ _ "at_bucket c k"] Let_def at_Suc [OF assms(2)]
      remember_def hit_def at_front_def by simp
qed

lemma search_loop_found:
  assumes "cal_window c" and "1 \<le> m_nBuckets c" and "j < m_nBuckets c" and "hit c j"
    and "\<And>k. k < j \<Longrightarrow> \<not> hit c k" and "k \<le> j"
  shows "search_loop key_of keep c (at_bucket c k) (top_at c k) acc =
    Some (Found (at_bucket c j) (top_at c j) (at_front c j))"
  using assms(6)
proof (induction "j - k" arbitrary: k acc)
  case 0
  with assms(3,4) search_loop_step [OF assms(1,2), of k] show ?case by simp
next
  case (Suc n)
  then have k: "k < j" "n = j - Suc k" by simp_all
  with Suc.hyps(1) [OF k(2), of "remember key_of keep c k acc"] assms(3,5)
    search_loop_step [OF assms(1,2), of k key_of keep acc]
  show ?case by simp
qed

lemma search_loop_exhausted:
  assumes "cal_window c" and "1 \<le> m_nBuckets c" and "\<And>k. k < m_nBuckets c \<Longrightarrow> \<not> hit c k"
    and "\<And>k acc. k < m_nBuckets c \<Longrightarrow> P k acc \<Longrightarrow> P (Suc k) (remember key_of keep c k acc)"
    and "P k acc" and "k < m_nBuckets c"
  shows "\<exists>acc'. search_loop key_of keep c (at_bucket c k) (top_at c k) acc = Some (Exhausted acc') \<and>
    P (m_nBuckets c) acc'"
  using assms(5,6)
proof (induction "m_nBuckets c - k" arbitrary: k acc)
  case 0
  then show ?case by simp
next
  case (Suc n)
  note step = search_loop_step [OF assms(1,2) Suc.prems(2), of key_of keep acc] assms(3) [OF Suc.prems(2)]
  have n: "n = m_nBuckets c - Suc k" using Suc.hyps(2) by simp
  have P: "P (Suc k) (remember key_of keep c k acc)" by (rule assms(4)) fact+
  show ?case
  proof (cases "Suc k < m_nBuckets c")
    case True
    with Suc.hyps(1) [OF n P True] step show ?thesis by simp
  next
    case False
    with Suc.prems(2) have "Suc k = m_nBuckets c" by simp
    with P False step show ?thesis by simp
  qed
qed

lemma le_div_int:
  fixes w :: int
  assumes "1 \<le> w"
  shows "q \<le> t div w \<longleftrightarrow> q * w \<le> t"
proof
  assume "q \<le> t div w"
  then have "q * w \<le> t div w * w" using assms by (intro mult_right_mono) auto
  also have "\<dots> \<le> t" using assms by (metis minus_mod_eq_div_mult pos_mod_sign diff_le_eq le_add_same_cancel1 int_one_le_iff_zero_less)
  finally show "q * w \<le> t" .
next
  assume "q * w \<le> t"
  then have "q * w div w \<le> t div w" using assms by (intro zdiv_mono1) auto
  with assms show "q \<le> t div w" by simp
qed

text \<open>How many windows an event lies after the one of the last event.\<close>

definition ahead :: "calendar \<Rightarrow> sch_event \<Rightarrow> int" where
  "ahead c e = ev_ts e div m_width c - m_lastPrio c div m_width c"

lemma ahead_nonneg:
  assumes "cal_ok c A" and "e \<in> pending A"
  shows "0 \<le> ahead c e"
proof -
  note D = cal_ok_D [OF assms(1)]
  have "m_lastPrio c \<le> ev_ts e" using agenda_ok_D(4) [OF D(1) assms(2)] D(4) by simp
  then show ?thesis
    using cal_buckets_D(4) [OF D(2)] by (simp add: ahead_def zdiv_mono1)
qed

lemma ahead_less:
  assumes "1 \<le> m_width c" and "ahead c e < ahead c f"
  shows "ev_key e < ev_key f"
proof -
  have "ev_ts e < ev_ts f"
  proof (rule ccontr)
    assume "\<not> ev_ts e < ev_ts f"
    then have "ev_ts f div m_width c \<le> ev_ts e div m_width c"
      using assms(1) by (intro zdiv_mono1) auto
    with assms(2) show False by (simp add: ahead_def)
  qed
  then show ?thesis by (simp add: less_ev_key_def)
qed

lemma ahead_round:
  assumes "cal_ok c A" and "e \<in> pending A" and "bucket_of c e = at_bucket c k" and "k < m_nBuckets c"
  shows "ahead c e = int k \<or> int k + int (m_nBuckets c) \<le> ahead c e"
proof -
  let ?n = "int (m_nBuckets c)" and ?q = "m_lastPrio c div m_width c"
  have n: "0 < ?n" using assms(4) by simp
  have "(ev_ts e div m_width c) mod ?n = (?q + int k) mod ?n"
    using assms(3) n by (simp add: Hash_def at_bucket_def nat_eq_iff)
  then have "?n dvd ev_ts e div m_width c - (?q + int k)" by (simp add: mod_eq_dvd_iff)
  then have "?n dvd ahead c e - int k" by (simp add: ahead_def algebra_simps)
  then obtain m where m: "ahead c e - int k = ?n * m" by (rule dvdE)
  have "- ?n < ?n * m" using ahead_nonneg [OF assms(1,2)] m assms(4) by linarith
  then have "?n * (- 1) < ?n * m" by simp
  then have "0 \<le> m" using n by (simp only: mult_less_cancel_left_pos)
  then have "m = 0 \<or> 1 \<le> m" by linarith
  then show ?thesis
  proof
    assume "1 \<le> m"
    then have "?n * 1 \<le> ?n * m" using n by (intro mult_left_mono) auto
    with m show ?thesis by simp
  qed (use m in simp)
qed

lemma round_of_event:
  assumes "cal_ok c A" and "e \<in> pending A"
  obtains k where "k < m_nBuckets c" and "bucket_of c e = at_bucket c k" and "int k \<le> ahead c e"
proof -
  let ?n = "int (m_nBuckets c)" and ?q = "m_lastPrio c div m_width c"
  define k where "k = nat (ahead c e mod ?n)"
  have n: "0 < ?n" using cal_buckets_D(1) [OF cal_ok_D(2) [OF assms(1)]] by simp
  have k: "int k = ahead c e mod ?n" using n by (simp add: k_def)
  have "(?q + int k) mod ?n = (?q + ahead c e) mod ?n" by (simp add: k mod_add_right_eq)
  then have "bucket_of c e = at_bucket c k" by (simp add: at_bucket_def Hash_def ahead_def)
  moreover have "k < m_nBuckets c" using k n by (metis of_nat_less_iff pos_mod_bound)
  moreover have "int k \<le> ahead c e"
    unfolding k by (rule zmod_le_nonneg_dividend [OF ahead_nonneg [OF assms]])
  ultimately show ?thesis using that by blast
qed

lemma at_front_props:
  assumes "cal_ok c A" and "m_buckets c ! at_bucket c k \<noteq> []"
  shows "at_front c k \<in> pending A" and "bucket_of c (at_front c k) = at_bucket c k"
    and "f \<in> pending A \<Longrightarrow> bucket_of c f = at_bucket c k \<Longrightarrow> ev_key (at_front c k) \<le> ev_key f"
proof -
  note B = cal_buckets_D [OF cal_ok_D(2) [OF assms(1)]]
  have i: "at_bucket c k < m_nBuckets c" using B(1) by (simp add: at_bucket_def nat_less_iff)
  have "at_front c k \<in> set (m_buckets c ! at_bucket c k)"
    unfolding at_front_def using assms(2) by (rule NextEvent_in)
  then show "at_front c k \<in> pending A" "bucket_of c (at_front c k) = at_bucket c k"
    by (simp_all add: B(7) [OF i])
  show "ev_key (at_front c k) \<le> ev_key f" if "f \<in> pending A" "bucket_of c f = at_bucket c k"
    unfolding at_front_def using NextEvent_least [OF B(6) [OF i]] that B(7) [OF i] by simp
qed

text \<open>A front below the top of its window, wrapped around or not, lies in that window.\<close>

lemma hit_ahead:
  assumes "cal_ok c A" and "k < m_nBuckets c" and "hit c k"
  shows "ahead c (at_front c k) = int k"
proof -
  note B = cal_buckets_D [OF cal_ok_D(2) [OF assms(1)]]
  let ?q = "m_lastPrio c div m_width c" and ?f = "at_front c k"
  have ne: "m_buckets c ! at_bucket c k \<noteq> []" using assms(3) by (simp add: hit_def)
  note f = at_front_props [OF assms(1) ne]
  have q: "0 \<le> ?q"
    using agenda_ok_D(3) [OF cal_ok_D(1) [OF assms(1)]] cal_ok_D(4) [OF assms(1)] B(4)
    by (simp add: pos_imp_zdiv_nonneg_iff)
  have "ev_ts ?f < top_at c k" using assms(3) by (simp add: hit_def)
  also have "\<dots> \<le> (?q + int k + 1) * m_width c"
    unfolding top_at_def using q B(4) by (intro zmod_le_nonneg_dividend) simp
  finally have "ev_ts ?f div m_width c < ?q + int k + 1"
    using le_div_int [OF B(4), of "?q + int k + 1" "ev_ts ?f"] by linarith
  then have "ahead c ?f \<le> int k" by (simp add: ahead_def)
  with ahead_round [OF assms(1) f(1,2) assms(2)] B(1) show ?thesis by linarith
qed

text \<open>
  A front that is not below the top of its window lies in a later year, or nothing lies beyond that
  window because its top is not a \<open>uint64_t\<close>.
\<close>

lemma no_hit_ahead:
  assumes "cal_ok c A" and "k < m_nBuckets c" and "\<not> hit c k" and "g \<in> pending A"
    and "bucket_of c g = at_bucket c k" and "f \<in> pending A" and "int k < ahead c f"
  shows "int k + int (m_nBuckets c) \<le> ahead c g"
proof -
  note B = cal_buckets_D [OF cal_ok_D(2) [OF assms(1)]]
  let ?q = "m_lastPrio c div m_width c" and ?w = "m_width c"
  have i: "at_bucket c k < m_nBuckets c" using B(1) by (simp add: at_bucket_def nat_less_iff)
  have ne: "m_buckets c ! at_bucket c k \<noteq> []"
    using assms(4,5) B(7) [OF i] by (metis (mono_tags, lifting) empty_iff mem_Collect_eq list.set(1))
  have front: "ev_ts (at_front c k) \<le> ev_ts g"
    by (rule key_ts_mono [OF at_front_props(3) [OF assms(1) ne assms(4,5)]])
  have q: "0 \<le> ?q"
    using agenda_ok_D(3) [OF cal_ok_D(1) [OF assms(1)]] cal_ok_D(4) [OF assms(1)] B(4)
    by (simp add: pos_imp_zdiv_nonneg_iff)
  have "?q + int k + 1 \<le> ev_ts f div ?w" using assms(7) by (simp add: ahead_def)
  then have "(?q + int k + 1) * ?w \<le> ev_ts f" by (simp only: le_div_int [OF B(4)])
  moreover have "ev_ts f < 2 ^ 63" by (rule agenda_ok_D(5) [OF cal_ok_D(1) [OF assms(1)] assms(6)])
  ultimately have lt: "(?q + int k + 1) * ?w < 2 ^ 64" by simp
  have "0 \<le> (?q + int k + 1) * ?w" using q B(4) by simp
  with lt have "top_at c k = (?q + int k + 1) * ?w" by (simp add: top_at_def)
  with assms(3) ne front have "(?q + int k + 1) * ?w \<le> ev_ts g" by (simp add: hit_def)
  then have "?q + int k + 1 \<le> ev_ts g div ?w" by (simp only: le_div_int [OF B(4)])
  then have "int k < ahead c g" by (simp add: ahead_def)
  with ahead_round [OF assms(1,4,5,2)] show ?thesis by linarith
qed

lemma bucket_not_empty:
  assumes "cal_buckets c M" and "e \<in> M"
  shows "m_buckets c ! bucket_of c e \<noteq> []"
proof -
  have "bucket_of c e < m_nBuckets c" using cal_buckets_D(1) [OF assms(1)] by (rule Hash_less)
  from cal_buckets_D(7) [OF assms(1) this] assms(2) show ?thesis by force
qed

lemma first_hit_earliest:
  assumes ok: "cal_ok c A" and j: "j < m_nBuckets c" "hit c j" "\<And>k. k < j \<Longrightarrow> \<not> hit c k"
  shows "at_front c j = earliest A" and "top_at c j = window_top (m_width c) (ev_ts (earliest A))"
    and "at_bucket c j = bucket_of c (earliest A)"
proof -
  note B = cal_buckets_D [OF cal_ok_D(2) [OF ok]]
  have ne: "m_buckets c ! at_bucket c j \<noteq> []" using j(2) by (simp add: hit_def)
  note f = at_front_props [OF ok ne]
  have af: "ahead c (at_front c j) = int j" by (rule hit_ahead [OF ok j(1,2)])
  have "ev_key (at_front c j) \<le> ev_key g" if g: "g \<in> pending A" for g
  proof -
    obtain k where k: "k < m_nBuckets c" "bucket_of c g = at_bucket c k" "int k \<le> ahead c g"
      using round_of_event [OF ok g] .
    consider "k < j" | "k = j" | "j < k" by linarith
    then show ?thesis
    proof cases
      case 1
      then have "int k + int (m_nBuckets c) \<le> ahead c g"
        by (intro no_hit_ahead [OF ok k(1) _ g k(2) f(1)]) (use j(3) af in auto)
      with ahead_less [OF B(4), of "at_front c j" g] af j(1) show ?thesis by auto
    next
      case 2
      with f(3) [OF g] k(2) show ?thesis by simp
    next
      case 3
      with ahead_less [OF B(4), of "at_front c j" g] af k(3) show ?thesis by auto
    qed
  qed
  with f(1) show e: "at_front c j = earliest A"
    by (intro earliest_eqI [symmetric] cal_ok_D(1) [OF ok])
  show "at_bucket c j = bucket_of c (earliest A)" using f(2) by (simp add: e)
  have "ev_ts (at_front c j) div m_width c = m_lastPrio c div m_width c + int j"
    using af by (simp add: ahead_def)
  then show "top_at c j = window_top (m_width c) (ev_ts (earliest A))"
    by (simp add: top_at_def window_top_def e)
qed

lemma least_front_earliest:
  assumes ok: "cal_ok c A" and j: "j < m_nBuckets c" "m_buckets c ! at_bucket c j \<noteq> []"
    and least: "\<And>k. k < m_nBuckets c \<Longrightarrow> m_buckets c ! at_bucket c k \<noteq> [] \<Longrightarrow>
      ev_key (at_front c j) \<le> ev_key (at_front c k)"
  shows "at_front c j = earliest A" and "at_bucket c j = bucket_of c (earliest A)"
proof -
  note f = at_front_props [OF ok j(2)]
  have "ev_key (at_front c j) \<le> ev_key g" if g: "g \<in> pending A" for g
  proof -
    obtain k where k: "k < m_nBuckets c" "bucket_of c g = at_bucket c k" "int k \<le> ahead c g"
      using round_of_event [OF ok g] .
    have ne: "m_buckets c ! at_bucket c k \<noteq> []"
      using bucket_not_empty [OF cal_ok_D(2) [OF ok] g] k(2) by simp
    from least [OF k(1) ne] at_front_props(3) [OF ok ne g k(2)] show ?thesis by simp
  qed
  with f(1) show e: "at_front c j = earliest A"
    by (intro earliest_eqI [symmetric] cal_ok_D(1) [OF ok])
  show "at_bucket c j = bucket_of c (earliest A)" using f(2) by (simp add: e)
qed

definition least_so_far ::
  "('a \<Rightarrow> ev_key) \<Rightarrow> (sch_event \<Rightarrow> nat \<Rightarrow> 'a) \<Rightarrow> 'a \<Rightarrow> calendar \<Rightarrow> nat \<Rightarrow> 'a \<Rightarrow> bool" where
  "least_so_far key_of keep start c k acc \<longleftrightarrow>
     (\<forall>j < k. m_buckets c ! at_bucket c j \<noteq> [] \<longrightarrow> key_of acc \<le> ev_key (at_front c j)) \<and>
     (acc = start \<or>
      (\<exists>j < m_nBuckets c. m_buckets c ! at_bucket c j \<noteq> [] \<and> acc = keep (at_front c j) (at_bucket c j)))"

lemma remember_least:
  assumes "\<And>e i. key_of (keep e i) = ev_key e" and "k < m_nBuckets c"
    and "least_so_far key_of keep start c k acc"
  shows "least_so_far key_of keep start c (Suc k) (remember key_of keep c k acc)"
proof (cases "m_buckets c ! at_bucket c k \<noteq> [] \<and> ev_key (at_front c k) < key_of acc")
  case True
  have "ev_key (at_front c k) \<le> ev_key (at_front c j)"
    if "j < Suc k" "m_buckets c ! at_bucket c j \<noteq> []" for j
  proof (cases "j = k")
    case False
    with that assms(3) have "key_of acc \<le> ev_key (at_front c j)" by (simp add: least_so_far_def)
    with True show ?thesis by (meson less_imp_le order_less_le_trans)
  qed simp
  with True assms(1,2) show ?thesis by (auto simp: least_so_far_def remember_def)
next
  case False
  with assms(3) show ?thesis by (auto simp: least_so_far_def remember_def less_Suc_eq)
qed

lemma search_earliest:
  assumes ok: "cal_ok c A" and ne: "pending A \<noteq> {}"
    and keep: "\<And>e i. key_of (keep e i) = ev_key e"
    and start: "\<And>e. e \<in> pending A \<Longrightarrow> ev_key e < key_of start"
  shows "search_loop key_of keep c (m_lastBucket c) (m_bucketTop c) start \<in>
    {Some (Found (bucket_of c (earliest A)) (window_top (m_width c) (ev_ts (earliest A))) (earliest A)),
     Some (Exhausted (keep (earliest A) (bucket_of c (earliest A))))}"
proof -
  note n = cal_buckets_D(1) [OF cal_ok_D(2) [OF ok]] and w = cal_ok_D(3) [OF ok]
  show ?thesis
  proof (cases "\<exists>j < m_nBuckets c. hit c j")
    case True
    define j where "j = (LEAST j. j < m_nBuckets c \<and> hit c j)"
    have j: "j < m_nBuckets c \<and> hit c j" unfolding j_def using True by (rule LeastI_ex)
    have first: "\<not> hit c k" if "k < j" for k
      using not_less_Least [OF that [unfolded j_def]] that j by auto
    show ?thesis
      unfolding at_start [OF w]
      using search_loop_found [OF w n j [THEN conjunct1] j [THEN conjunct2] first le0, of key_of keep start]
        first_hit_earliest [OF ok j [THEN conjunct1] j [THEN conjunct2] first] by simp
  next
    case False
    have init: "least_so_far key_of keep start c 0 start" by (simp add: least_so_far_def)
    have step: "least_so_far key_of keep start c (Suc k) (remember key_of keep c k acc)"
      if "k < m_nBuckets c" "least_so_far key_of keep start c k acc" for k acc
      using keep that by (rule remember_least)
    have no: "\<not> hit c k" if "k < m_nBuckets c" for k using False that by blast
    have "0 < m_nBuckets c" using n by simp
    from search_loop_exhausted [where P = "least_so_far key_of keep start c", OF w n no step init this]
    obtain acc where acc: "search_loop key_of keep c (at_bucket c 0) (top_at c 0) start = Some (Exhausted acc)"
      "least_so_far key_of keep start c (m_nBuckets c) acc" by auto
    obtain e where e: "e \<in> pending A" using ne by auto
    then obtain k where k: "k < m_nBuckets c" "bucket_of c e = at_bucket c k" using round_of_event [OF ok] by metis
    have nek: "m_buckets c ! at_bucket c k \<noteq> []"
      using bucket_not_empty [OF cal_ok_D(2) [OF ok] e] k(2) by simp
    have "key_of acc < key_of start"
      using acc(2) k(1) nek start [OF at_front_props(1) [OF ok nek]]
      by (auto simp: least_so_far_def intro: le_less_trans)
    then obtain j where j: "j < m_nBuckets c" "m_buckets c ! at_bucket c j \<noteq> []"
      "acc = keep (at_front c j) (at_bucket c j)"
      using acc(2) by (auto simp: least_so_far_def)
    have "at_front c j = earliest A" "at_bucket c j = bucket_of c (earliest A)"
      by (rule least_front_earliest [OF ok j(1,2)]; use acc(2) j(3) keep in \<open>auto simp: least_so_far_def\<close>)+
    with acc(1) j(3) show ?thesis unfolding at_start [OF w] by simp
  qed
qed

section \<open>Taking the next event\<close>

definition cal_advance :: "sch_event \<Rightarrow> calendar \<Rightarrow> calendar" where
  "cal_advance e c =
     cal_pop (bucket_of c e)
       (c\<lparr>m_lastBucket := bucket_of c e, m_lastPrio := ev_ts e,
          m_bucketTop := window_top (m_width c) (ev_ts e)\<rparr>)"

lemma front_of_earliest:
  assumes ok: "cal_ok c A" and ne: "pending A \<noteq> {}"
  shows "NextEvent (m_reverse c) (m_buckets c ! bucket_of c (earliest A)) = earliest A"
proof -
  note A = cal_ok_D(1) [OF ok] and B = cal_buckets_D [OF cal_ok_D(2) [OF ok]]
  have e: "earliest A \<in> pending A" by (rule earliest_in [OF A ne])
  obtain k where k: "bucket_of c (earliest A) = at_bucket c k" using round_of_event [OF ok e] by metis
  have nek: "m_buckets c ! at_bucket c k \<noteq> []"
    using bucket_not_empty [OF cal_ok_D(2) [OF ok] e] k by simp
  have "ev_key (at_front c k) = ev_key (earliest A)"
    using at_front_props(3) [OF ok nek e k] earliest_le [OF A at_front_props(1) [OF ok nek]] by simp
  then have "at_front c k = earliest A"
    by (rule agenda_key_inj [OF A at_front_props(1) [OF ok nek] e])
  then show ?thesis by (simp add: at_front_def k)
qed

lemma calendar_update_swap:
  "c\<lparr>m_lastPrio := x, m_lastBucket := y\<rparr> = c\<lparr>m_lastBucket := y, m_lastPrio := x\<rparr>"
  by (cases c) simp

lemma DoRemoveNext_eq:
  assumes ok: "cal_ok c A" and ne: "pending A \<noteq> {}" and q: "0 < m_qSize c"
  shows "DoRemoveNext c = Inr (earliest A, cal_advance (earliest A) c)"
proof -
  have "ev_key e < fst (EvKey (2 ^ 64 - 1) 0, None::nat option)" if "e \<in> pending A" for e
    using agenda_ok_D(5) [OF cal_ok_D(1) [OF ok] that] by (simp add: less_ev_key_def)
  with search_earliest [OF ok ne, of fst "\<lambda>next i. (ev_key next, Some i)" "(EvKey (2 ^ 64 - 1) 0, None)"]
  show ?thesis
    using q front_of_earliest [OF ok ne]
    by (auto simp: DoRemoveNext_def cal_IsEmpty_def cal_advance_def calendar_update_swap)
qed

lemma cal_PeekNext_eq:
  assumes ok: "cal_ok c A" and ne: "pending A \<noteq> {}" and q: "0 < m_qSize c"
  shows "cal_PeekNext c = Inr (earliest A)"
proof -
  let ?start = "Event 0 (EvKey (2 ^ 64 - 1) (2 ^ 32 - 1)) 0"
  have "ev_key e < ev_key ?start" if "e \<in> pending A" for e
    using agenda_ok_D(5) [OF cal_ok_D(1) [OF ok] that] by (simp add: less_ev_key_def)
  with search_earliest [OF ok ne, of ev_key "\<lambda>next i. next" ?start]
  show ?thesis using q by (auto simp: cal_PeekNext_def cal_IsEmpty_def)
qed

lemma cal_advance_frame [simp]:
  "m_nBuckets (cal_advance e c) = m_nBuckets c" "m_width (cal_advance e c) = m_width c"
  "m_lastPrio (cal_advance e c) = ev_ts e" "m_qSize (cal_advance e c) = m_qSize c"
  "m_lastBucket (cal_advance e c) = bucket_of c e"
  "m_bucketTop (cal_advance e c) = window_top (m_width c) (ev_ts e)"
  by (simp_all add: cal_advance_def cal_pop_def)

lemma cal_advance_ok:
  assumes ok: "cal_ok c A" and ne: "pending A \<noteq> {}"
  shows "cal_ok (cal_advance (earliest A) c) (spec_step CallRemoveNext A)"
proof -
  note A = cal_ok_D(1) [OF ok] and C = cal_ok_D(2) [OF ok]
  note B = cal_buckets_D [OF C]
  let ?e = "earliest A" and ?i = "bucket_of c (earliest A)"
  have e: "?e \<in> pending A" by (rule earliest_in [OF A ne])
  have i: "?i < m_nBuckets c" using B(1) by (rule Hash_less)
  let ?c = "c\<lparr>m_lastBucket := ?i, m_lastPrio := ev_ts ?e, m_bucketTop := window_top (m_width c) (ev_ts ?e)\<rparr>"
  have pop: "Pop (m_reverse c) (m_buckets c ! ?i) = remove1 ?e (m_buckets c ! ?i)"
    using Pop_remove1 [OF B(6) [OF i] bucket_not_empty [OF C e]] front_of_earliest [OF ok ne] by simp
  have "cal_buckets ?c (pending A)" using C by (simp add: cal_buckets_frame)
  then have "cal_buckets (cal_advance ?e c) (pending A - {?e})"
    unfolding cal_advance_def cal_pop_def
    by (rule cal_buckets_update)
      (use i pop B(6,7) [OF i] in \<open>auto simp: bucket_ok_remove1 bucket_ok_distinct\<close>)
  moreover have "agenda_ok (spec_step CallRemoveNext A)" using spec_step_ok [OF A, of CallRemoveNext] ne by simp
  ultimately show ?thesis by (simp add: cal_ok_def cal_window_def)
qed

section \<open>Resizing\<close>

lemma agenda_inj_key: "agenda_ok A \<Longrightarrow> inj_on ev_key (pending A)"
  by (meson agenda_key_inj inj_onI)

lemma gather_ok:
  assumes "cal_ok c A" and "n \<le> card (pending A)" and "0 < m_qSize c"
  shows "\<exists>es c'. gather n c = Inr (es, c') \<and> distinct es \<and> set es \<subseteq> pending A \<and>
    cal_buckets c' (pending A - set es) \<and> m_nBuckets c' = m_nBuckets c \<and> m_width c' = m_width c \<and>
    m_qSize c' = m_qSize c"
  using assms
proof (induction n arbitrary: c A)
  case 0
  then show ?case by (simp add: cal_ok_D(2))
next
  case (Suc n)
  note A = cal_ok_D(1) [OF Suc.prems(1)]
  have ne: "pending A \<noteq> {}" using Suc.prems(2) by auto
  let ?e = "earliest A" and ?A = "spec_step CallRemoveNext A"
  have e: "?e \<in> pending A" by (rule earliest_in [OF A ne])
  have "n \<le> card (pending ?A)" using Suc.prems(2) e agenda_ok_D(1) [OF A] by simp
  then obtain es c' where es: "gather n (cal_advance ?e c) = Inr (es, c')" "distinct es"
    "set es \<subseteq> pending A - {?e}" "cal_buckets c' (pending A - {?e} - set es)"
    "m_nBuckets c' = m_nBuckets c" "m_width c' = m_width c" "m_qSize c' = m_qSize c"
    using Suc.IH [OF cal_advance_ok [OF Suc.prems(1) ne]] Suc.prems(3) by auto
  have "pending A - {?e} - set es = pending A - set (?e # es)" by auto
  with es DoRemoveNext_eq [OF Suc.prems(1) ne Suc.prems(3)] e show ?case
    by (intro exI [of _ "?e # es"] exI [of _ c']) auto
qed

lemma nSamples_le: "2 \<le> q \<Longrightarrow> nSamples q \<le> q"
  by (simp add: nSamples_def min_def) linarith

lemma samples_width_bounds: "1 \<le> samples_width es n" "samples_width es n < 2 ^ 64"
  by (simp_all add: samples_width_def Let_def)

lemma CalculateNewWidth_ok:
  assumes ok: "cal_ok c A" and q: "m_qSize c = card (pending A)"
  shows "\<exists>w c'. CalculateNewWidth c = Inr (w, c') \<and> 1 \<le> w \<and> w < 2 ^ 64 \<and> cal_ok c' A \<and>
    m_nBuckets c' = m_nBuckets c \<and> m_qSize c' = m_qSize c"
proof (cases "m_qSize c < 2")
  case True
  with ok show ?thesis by (simp add: CalculateNewWidth_def)
next
  case False
  note A = cal_ok_D(1) [OF ok]
  let ?n = "nSamples (m_qSize c)"
  have "?n \<le> card (pending A)" using nSamples_le [of "m_qSize c"] False q by simp
  then obtain es c1 where es: "gather ?n c = Inr (es, c1)" "distinct es" "set es \<subseteq> pending A"
    "cal_buckets c1 (pending A - set es)" "m_nBuckets c1 = m_nBuckets c" "m_width c1 = m_width c"
    "m_qSize c1 = m_qSize c"
    using gather_ok [OF ok] False by force
  let ?c = "(fold DoInsert es c1)\<lparr>m_lastBucket := m_lastBucket c, m_bucketTop := m_bucketTop c,
    m_lastPrio := m_lastPrio c\<rparr>"
  have un: "pending A - set es \<union> set es = pending A" using es(3) by blast
  have "cal_buckets (fold DoInsert es c1) (pending A - set es \<union> set es)"
    by (rule fold_DoInsert_buckets [OF es(4)])
      (use es(2) agenda_inj_key [OF A] un in auto)
  then have "cal_buckets (fold DoInsert es c1) (pending A)" by (simp only: un)
  then have "cal_ok ?c A"
    using A cal_ok_D(3,4) [OF ok] es(5,6) by (simp add: cal_ok_def cal_buckets_frame cal_window_def)
  moreover have "CalculateNewWidth c = Inr (samples_width es ?n, ?c)"
    using False es(1) by (simp add: CalculateNewWidth_def Let_def)
  ultimately show ?thesis using es(5,7) samples_width_bounds by auto
qed

lemma distinct_concat_nth:
  assumes "\<And>i. i < length bs \<Longrightarrow> distinct (bs ! i)"
    and "\<And>i j. i < j \<Longrightarrow> j < length bs \<Longrightarrow> set (bs ! i) \<inter> set (bs ! j) = {}"
  shows "distinct (concat bs)"
  using assms
proof (induction bs)
  case Nil
  then show ?case by simp
next
  case (Cons b bs)
  have "distinct (concat bs)"
    by (rule Cons.IH) (use Cons.prems(1) [of "Suc _"] Cons.prems(2) [of "Suc _" "Suc _"] in auto)
  moreover have "distinct b" using Cons.prems(1) [of 0] by simp
  moreover have "set b \<inter> set c = {}" if c: "c \<in> set bs" for c
  proof -
    obtain j where "j < length bs" "c = bs ! j" using c by (auto simp: in_set_conv_nth)
    with Cons.prems(2) [of 0 "Suc j"] show ?thesis by simp
  qed
  ultimately show ?case by auto
qed

lemma cal_buckets_concat:
  assumes "cal_buckets c M"
  shows "distinct (concat (m_buckets c))" and "set (concat (m_buckets c)) = M"
proof -
  note B = cal_buckets_D [OF assms]
  show "distinct (concat (m_buckets c))"
    by (rule distinct_concat_nth) (use B(3,6,7) in \<open>auto intro: bucket_ok_distinct\<close>)
  have "bucket_of c e < m_nBuckets c" for e using B(1) by (rule Hash_less)
  then show "set (concat (m_buckets c)) = M"
    using B(3,7) by (fastforce simp: in_set_conv_nth)
qed

lemma fold_fold_concat: "fold (\<lambda>b c. fold f b c) bs c = fold f (concat bs) c"
  by (induction bs arbitrary: c) simp_all

lemma DoResize_ok:
  assumes ok: "cal_ok c A" and n: "bucket_count n" and w: "1 \<le> w" "w < 2 ^ 64"
  shows "cal_ok (DoResize n w c) A" and "m_qSize (DoResize n w c) = m_qSize c"
proof -
  note A = cal_ok_D(1) [OF ok]
  note cc = cal_buckets_concat [OF cal_ok_D(2) [OF ok]]
  let ?c = "Init n w (m_lastPrio c) c"
  have "cal_buckets ?c {}" using n w by (simp add: cal_buckets_def Init_def)
  then have "cal_buckets (fold DoInsert (concat (m_buckets c)) ?c) ({} \<union> set (concat (m_buckets c)))"
    by (rule fold_DoInsert_buckets) (use cc agenda_inj_key [OF A] in simp_all)
  then show "cal_ok (DoResize n w c) A"
    using A cal_ok_D(4) [OF ok] cc(2)
    by (simp add: cal_ok_def DoResize_def fold_fold_concat cal_window_def) (simp add: Init_def)
  show "m_qSize (DoResize n w c) = m_qSize c"
    by (simp add: DoResize_def fold_fold_concat) (simp add: Init_def)
qed

lemma Resize_ok:
  assumes R: "cal_R c A" and n: "bucket_count n"
  shows "\<exists>c'. Resize n c = Inr c' \<and> cal_R c' A"
proof -
  have ok: "cal_ok c A" "m_qSize c = card (pending A)" using R by (simp_all add: cal_R_def)
  obtain w c1 where c1: "CalculateNewWidth c = Inr (w, c1)" "1 \<le> w" "w < 2 ^ 64" "cal_ok c1 A"
    "m_qSize c1 = m_qSize c" using CalculateNewWidth_ok [OF ok] by metis
  from DoResize_ok [OF c1(4) n c1(2,3)] c1(1,5) ok(2) show ?thesis by (simp add: Resize_def cal_R_def)
qed

lemma cal_R_buckets: "cal_R c A \<Longrightarrow> bucket_count (m_nBuckets c)"
  by (simp add: cal_R_def cal_ok_def cal_buckets_def)

lemma ResizeUp_ok: "cal_R c A \<Longrightarrow> \<exists>c'. ResizeUp c = Inr c' \<and> cal_R c' A"
  using bucket_count_double [OF cal_R_buckets [of c A]] Resize_ok [of c A "m_nBuckets c * 2"]
  by (auto simp: ResizeUp_def mult.commute)

lemma ResizeDown_ok: "cal_R c A \<Longrightarrow> \<exists>c'. ResizeDown c = Inr c' \<and> cal_R c' A"
  using bucket_count_halve [OF cal_R_buckets [of c A]] Resize_ok [of c A "m_nBuckets c div 2"]
  by (auto simp: ResizeDown_def)

section \<open>The contract\<close>

lemma cal_new_R: "cal_R (CalendarScheduler_new r) empty_agenda"
proof -
  have "{e. False} = ({} :: sch_event set)" by simp
  then show ?thesis
    by (simp add: cal_R_def cal_ok_def agenda_ok_empty CalendarScheduler_new_def Init_def
        cal_buckets_def cal_window_def nth_Cons less_2_cases_iff)
      (auto simp: empty_agenda_def bucket_count_def intro: exI [of _ 1])
qed

lemma cal_Insert_ok:
  assumes R: "cal_R c A" and ad: "admissible e A"
  shows "\<exists>c'. cal_Insert e c = Inr c' \<and> cal_R c' (spec_step (CallInsert e) A)"
proof -
  have ok: "cal_ok c A" and q: "m_qSize c = card (pending A)" using R by (simp_all add: cal_R_def)
  let ?A = "spec_step (CallInsert e) A"
  have A': "agenda_ok ?A" by (rule spec_step_ok [OF cal_ok_D(1) [OF ok]]) (simp add: ad)
  have card: "card (pending ?A) = card (pending A) + 1"
    using admissible_fresh(2) [OF ad] agenda_ok_D(1) [OF cal_ok_D(1) [OF ok]] by simp
  have "cal_ok ((DoInsert e c)\<lparr>m_qSize := x\<rparr>) ?A" for x
    using DoInsert_buckets [OF cal_ok_D(2) [OF ok] admissible_fresh(1) [OF ad]] A' cal_ok_D(3,4) [OF ok]
    by (simp add: cal_ok_def cal_buckets_frame cal_window_def)
  moreover have "(m_qSize c + 1) mod 2 ^ 32 = card (pending ?A)"
    using agenda_card [OF A'] unfolding card q by simp
  ultimately show ?thesis unfolding cal_Insert_def by (intro ResizeUp_ok) (simp add: cal_R_def)
qed

lemma cal_RemoveNext_ok:
  assumes R: "cal_R c A" and ne: "pending A \<noteq> {}"
  shows "\<exists>c'. cal_RemoveNext c = Inr (earliest A, c') \<and> cal_R c' (spec_step CallRemoveNext A)"
proof -
  have ok: "cal_ok c A" and q: "m_qSize c = card (pending A)" using R by (simp_all add: cal_R_def)
  note A = cal_ok_D(1) [OF ok]
  have e: "earliest A \<in> pending A" by (rule earliest_in [OF A ne])
  have pos: "0 < m_qSize c" using q ne agenda_ok_D(1) [OF A] by (simp add: card_gt_0_iff)
  let ?c = "(cal_advance (earliest A) c)\<lparr>m_qSize := m_qSize c - 1\<rparr>"
  have "cal_ok ?c (spec_step CallRemoveNext A)"
    using cal_advance_ok [OF ok ne] by (simp add: cal_ok_def cal_buckets_frame cal_window_def)
  moreover have "m_qSize c - 1 = card (pending (spec_step CallRemoveNext A))"
    using q e agenda_ok_D(1) [OF A] by simp
  ultimately have "cal_R ?c (spec_step CallRemoveNext A)" by (simp add: cal_R_def)
  from ResizeDown_ok [OF this] show ?thesis
    using DoRemoveNext_eq [OF ok ne pos] pos by (auto simp: cal_RemoveNext_def cal_IsEmpty_def)
qed

lemma cal_Remove_ok:
  assumes R: "cal_R c A" and e: "e \<in> pending A"
  shows "\<exists>c'. cal_Remove e c = Inr c' \<and> cal_R c' (spec_step (CallRemove e) A)"
proof -
  have ok: "cal_ok c A" and q: "m_qSize c = card (pending A)" using R by (simp_all add: cal_R_def)
  note A = cal_ok_D(1) [OF ok] and B = cal_buckets_D [OF cal_ok_D(2) [OF ok]]
  let ?i = "bucket_of c e" and ?A = "spec_step (CallRemove e) A"
  let ?b = "remove1 e (m_buckets c ! ?i)"
  have i: "?i < m_nBuckets c" using B(1) by (rule Hash_less)
  have fin: "finite (pending A)" by (rule agenda_ok_D(1) [OF A])
  have rem: "list_Remove e (m_buckets c ! ?i) = Inr ?b"
    by (rule list_Remove_remove1)
      (use e agenda_ok_D(2) [OF A] B(7) [OF i] in \<open>auto intro: inj_on_subset\<close>)
  have "cal_buckets (c\<lparr>m_buckets := (m_buckets c)[?i := ?b]\<rparr>) (pending A - {e})"
    by (rule cal_buckets_update [OF cal_ok_D(2) [OF ok] i])
      (use B(6,7) [OF i] in \<open>auto simp: bucket_ok_remove1 bucket_ok_distinct\<close>)
  moreover have "agenda_ok ?A" by (rule spec_step_ok [OF A]) (simp add: e)
  ultimately have "cal_ok (c\<lparr>m_buckets := (m_buckets c)[?i := ?b], m_qSize := x\<rparr>) ?A" for x
    using cal_ok_D(3,4) [OF ok] by (simp add: cal_ok_def cal_buckets_frame cal_window_def)
  moreover have "m_qSize c - 1 = card (pending ?A)" using q e fin by simp
  moreover have "m_qSize c \<noteq> 0" using q e fin by auto
  ultimately show ?thesis
    using ResizeDown_ok [of "c\<lparr>m_buckets := (m_buckets c)[?i := ?b], m_qSize := m_qSize c - 1\<rparr>" ?A]
    by (simp add: cal_Remove_def cal_IsEmpty_def rem cal_R_def Let_def)
qed

interpretation calendar_sched: removable_scheduler CalendarScheduler "CalendarScheduler_new r" cal_R
proof unfold_locales
  show "cal_R (CalendarScheduler_new r) empty_agenda" by (rule cal_new_R)
  fix c A e
  assume R: "cal_R c A"
  then have ok: "cal_ok c A" and q: "m_qSize c = card (pending A)" by (simp_all add: cal_R_def)
  show "agenda_ok A" by (rule cal_ok_D(1) [OF ok])
  then have fin: "finite (pending A)" by (rule agenda_ok_D(1))
  show "s_IsEmpty CalendarScheduler c \<longleftrightarrow> pending A = {}"
    using q fin by (simp add: CalendarScheduler_def cal_IsEmpty_def)
  show "s_PeekNext CalendarScheduler c = Inr (earliest A)" if "pending A \<noteq> {}"
    using cal_PeekNext_eq [OF ok that] q fin that by (simp add: CalendarScheduler_def card_gt_0_iff)
  show "\<exists>c'. s_Insert CalendarScheduler e c = Inr c' \<and> cal_R c' (spec_step (CallInsert e) A)"
    if "admissible e A"
    using cal_Insert_ok [OF R that] by (simp add: CalendarScheduler_def)
  show "\<exists>c'. s_RemoveNext CalendarScheduler c = Inr (earliest A, c') \<and>
      cal_R c' (spec_step CallRemoveNext A)" if "pending A \<noteq> {}"
    using cal_RemoveNext_ok [OF R that] by (simp add: CalendarScheduler_def)
  show "\<exists>c'. s_Remove CalendarScheduler e c = Inr c' \<and> cal_R c' (spec_step (CallRemove e) A)"
    if "e \<in> pending A"
    using cal_Remove_ok [OF R that] by (simp add: CalendarScheduler_def)
qed

section \<open>Properties\<close>

definition ex_cal_event :: "nat \<Rightarrow> int \<Rightarrow> sch_event" where
  "ex_cal_event u t = Event u (EvKey t u) 0"

definition ex_cal_session :: "sched_call list" where
  "ex_cal_session =
     [CallInsert (ex_cal_event 4 70), CallInsert (ex_cal_event 5 3), CallInsert (ex_cal_event 6 3),
      CallInsert (ex_cal_event 7 9000), CallInsert (ex_cal_event 8 11), CallRemoveNext,
      CallRemove (ex_cal_event 8 11), CallInsert (ex_cal_event 9 5), CallRemoveNext, CallPeekNext,
      CallRemoveNext, CallIsEmpty]"

lemma ex_cal_session_allowed: "allowed_run ex_cal_session empty_agenda"
  by code_simp

text \<open>
  C27: after any allowed session the calendar has between 1 and 32768 buckets, a power of two of them,
  of a non-zero width that is a \<open>uint64_t\<close>; the bucket the next search starts at exists; and
  \<open>m_qSize\<close>, a \<open>uint32_t\<close>, counts the pending events without wrapping around.
\<close>

theorem calendar_bounds:
  assumes "allowed_run cs empty_agenda"
    and "sched_run CalendarScheduler cs (CalendarScheduler_new reverse) = Inr (outs, c)"
  shows "bucket_count (m_nBuckets c) \<and> m_nBuckets c \<le> 32768 \<and> length (m_buckets c) = m_nBuckets c \<and>
    1 \<le> m_width c \<and> m_width c < 2 ^ 64 \<and> m_lastBucket c < m_nBuckets c \<and>
    m_qSize c = card (pending (fold spec_step cs empty_agenda)) \<and> m_qSize c < 2 ^ 32 \<and>
    distinct (concat (m_buckets c)) \<and> length (concat (m_buckets c)) = m_qSize c"
proof -
  let ?A = "fold spec_step cs empty_agenda"
  have R: "cal_R c ?A" using calendar_sched.run [OF assms(1), of reverse] assms(2) by auto
  then have ok: "cal_ok c ?A" and q: "m_qSize c = card (pending ?A)" by (simp_all add: cal_R_def)
  note B = cal_buckets_D [OF cal_ok_D(2) [OF ok]] and cc = cal_buckets_concat [OF cal_ok_D(2) [OF ok]]
  have "m_lastBucket c < m_nBuckets c"
    using cal_ok_D(3) [OF ok] Hash_less [OF B(1)] by (simp add: cal_window_def)
  moreover have "length (concat (m_buckets c)) = card (pending ?A)"
    using distinct_card [OF cc(1)] cc(2) by simp
  ultimately show ?thesis
    using B(2,3,4,5) bucket_count_le [OF B(2)] q agenda_card [OF cal_ok_D(1) [OF ok]] cc(1) by simp
qed

theorem calendar_bounds_witness:
  "\<exists>outs c. sched_run CalendarScheduler ex_cal_session (CalendarScheduler_new False) = Inr (outs, c) \<and>
    m_nBuckets c \<le> 32768 \<and> m_lastBucket c < m_nBuckets c"
proof -
  obtain c where "sched_run CalendarScheduler ex_cal_session (CalendarScheduler_new False) =
      Inr (spec_run ex_cal_session empty_agenda, c)"
    using calendar_sched.run [OF ex_cal_session_allowed] by blast
  with calendar_bounds [OF ex_cal_session_allowed this] show ?thesis by blast
qed

text \<open>
  C30: the search of \<open>PeekNext\<close> and \<open>DoRemoveNext\<close>, which runs until it is back at the bucket it
  started from, always ends, whatever the buckets hold and whatever it remembers of them, as long as
  there is a bucket and the search starts at the bucket and the window of \<open>m_lastPrio\<close>.
\<close>

theorem calendar_search_terminates:
  assumes "cal_window c" and "1 \<le> m_nBuckets c"
  shows "\<exists>r. search_loop key_of keep c (m_lastBucket c) (m_bucketTop c) acc = Some r"
proof (cases "\<exists>j < m_nBuckets c. hit c j")
  case True
  define j where "j = (LEAST j. j < m_nBuckets c \<and> hit c j)"
  have j: "j < m_nBuckets c" "hit c j"
    using LeastI_ex [OF True] by (simp_all add: j_def)
  have first: "\<not> hit c k" if "k < j" for k
    using not_less_Least [OF that [unfolded j_def]] that j by auto
  from search_loop_found [OF assms j first le0, of key_of keep acc] show ?thesis unfolding at_start [OF assms(1)] by simp
next
  case False
  then have no: "\<not> hit c k" if "k < m_nBuckets c" for k using that by blast
  have "0 < m_nBuckets c" using assms(2) by simp
  from search_loop_exhausted [where P = "\<lambda>_ _. True" and acc = acc, OF assms no _ _ this]
  show ?thesis unfolding at_start [OF assms(1)] by fastforce
qed

theorem calendar_search_terminates_witness:
  "\<exists>r. search_loop ev_key (\<lambda>next i. next) (CalendarScheduler_new True)
     (m_lastBucket (CalendarScheduler_new True)) (m_bucketTop (CalendarScheduler_new True))
     (ex_cal_event 4 70) = Some r"
  by (rule calendar_search_terminates) (code_simp, code_simp)

end
