(* ===== verification/Event_List.thy ===== *)
theory Event_List
  imports Heap_Scheduler Calendar_Scheduler
begin

text \<open>
  The simulator as the client of the event list. The queue of \<open>Simulator\<close> is seen as an
  \<open>agenda\<close>: scheduling, processing and removing an event are calls the interface of
  \<open>Schedulers\<close> allows, so the laws proved there apply to them. \<open>SetScheduler\<close> moves the
  events from one event list to another, and \<open>Destroy\<close> runs the events kept for the end.
\<close>

section \<open>The simulator keeps the rules of the interface\<close>

definition agenda_of :: "'e simulator \<Rightarrow> agenda" where
  "agenda_of s = \<lparr>pending = map_event ` set (m_events s), clock = m_currentTs s\<rparr>"

lemma agenda_of_simps [simp]:
  "pending (agenda_of s) = map_event ` set (m_events s)"
  "clock (agenda_of s) = m_currentTs s"
  by (simp_all add: agenda_of_def)

lemma agenda_of_map_R:
  "sim_inv s \<Longrightarrow> agenda_ok (agenda_of s) \<Longrightarrow> map_R (m_events s) (agenda_of s)"
  by (simp add: map_R_def list_R_def chronological_map_event sim_inv_D(1))

lemma agenda_eqI:
  "pending A = pending B \<Longrightarrow> clock A = clock B \<Longrightarrow> (A :: agenda) = B"
  by (cases A; cases B) simp

lemma map_R_pending: "map_R m A \<Longrightarrow> map_event ` set m = pending A"
  by (simp add: map_R_def list_R_def)

lemma schedule_allowed:
  assumes inv: "sim_inv s" and ok: "agenda_ok (agenda_of s)"
    and sch: "Schedule delay ev s = Inr (eid, s')" and few: "few_events s"
    and ts: "delay + m_currentTs s < 2 ^ 63"
  defines "e \<equiv> Event (m_nextImpl s) (id_key eid) (id_context eid)"
  shows "allowed (CallInsert e) (agenda_of s)" and "agenda_of s' = spec_step (CallInsert e) (agenda_of s)"
proof -
  have eid: "id_key eid = EvKey (delay + m_currentTs s) (m_uid s)" "id_context eid = m_currentContext s"
    and d: "0 \<le> delay" and cur: "m_currentTs s' = m_currentTs s"
    and q: "m_events s' = smap_upd (id_key eid) (id_context eid, m_nextImpl s) (m_events s)"
    using sch by (auto simp: Schedule_eq [OF inv] id_key_def split: if_splits)
  have "key_uid k < m_uid s" if "(k, c, a) \<in> set (m_events s)" for k c a
    using sim_inv_D(2) [OF inv that] by simp
  then have "m_uid s \<notin> ev_uid ` map_event ` set (m_events s)"
    by (fastforce simp: map_event_def)
  moreover have "UID_VALID \<le> m_uid s" "m_uid s < 2 ^ 32"
    using few sim_inv_D(5) [OF inv] by (simp_all add: few_events_def)
  ultimately show al: "allowed (CallInsert e) (agenda_of s)"
    using d ts by (simp add: e_def eid admissible_def)
  then obtain q' where "s_Insert MapScheduler e (m_events s) = Inr q'"
    "map_R q' (spec_step (CallInsert e) (agenda_of s))"
    using map_sched.Insert_R [OF agenda_of_map_R [OF inv ok], of e] by auto
  moreover from this(1) have "q' = m_events s'"
    by (auto simp: MapScheduler_def map_Insert_def e_def q split: if_splits)
  ultimately show "agenda_of s' = spec_step (CallInsert e) (agenda_of s)"
    using map_R_pending by (intro agenda_eqI) (fastforce simp: cur)+
qed

lemma begin_event_allowed:
  assumes inv: "sim_inv s" and ok: "agenda_ok (agenda_of s)" and beg: "begin_event s = Inr (x, s')"
  shows "allowed CallRemoveNext (agenda_of s)" and "agenda_of s' = spec_step CallRemoveNext (agenda_of s)"
    and "current_key s' = ev_key (earliest (agenda_of s))"
proof -
  obtain c a where q: "m_events s = (current_key s', c, a) # m_events s'"
    using begin_event_spec(3) [OF inv beg] by blast
  then show al: "allowed CallRemoveNext (agenda_of s)" by simp
  obtain q' where "s_RemoveNext MapScheduler (m_events s) = Inr (earliest (agenda_of s), q')"
    "map_R q' (spec_step CallRemoveNext (agenda_of s))"
    using map_sched.RemoveNext_R [OF agenda_of_map_R [OF inv ok]] al by auto
  moreover from this(1) have e: "earliest (agenda_of s) = map_event (current_key s', c, a)" "q' = m_events s'"
    by (simp_all add: MapScheduler_def map_RemoveNext_def q)
  ultimately show "agenda_of s' = spec_step CallRemoveNext (agenda_of s)"
    using map_R_pending by (intro agenda_eqI) (fastforce simp: current_key_def)+
  show "current_key s' = ev_key (earliest (agenda_of s))" by (simp add: e)
qed

lemma remove_allowed:
  assumes inv: "sim_inv s" and ok: "agenda_ok (agenda_of s)" and rem: "Remove eid s = Inr s'"
    and pend: "IsPending s eid" and uid: "id_uid eid \<noteq> UID_DESTROY"
  shows "\<exists>e. ev_key e = id_key eid \<and> id_impl eid = Some (ev_impl e) \<and>
    allowed (CallRemove e) (agenda_of s) \<and> agenda_of s' = spec_step (CallRemove e) (agenda_of s)"
proof -
  obtain a where a: "id_impl eid = Some a"
    using pend uid by (auto simp: IsPending_def IsExpired_def split: option.splits if_splits)
  then obtain q where q: "map_Remove (id_key eid) a (m_events s) = Inr q"
    and s': "s' = (impl_Cancel a (s\<lparr>m_events := q\<rparr>))\<lparr>m_unscheduledEvents := m_unscheduledEvents s - 1\<rparr>"
    using rem pend uid by (auto simp: Remove_def IsPending_def id_key_def)
  from q obtain c where c: "map_of (m_events s) (id_key eid) = Some (c, a)"
    by (auto simp: map_Remove_def split: option.splits if_splits)
  define e where "e = Event a (id_key eid) c"
  have "map_event (id_key eid, c, a) \<in> map_event ` set (m_events s)"
    using map_of_SomeD [OF c] by (rule imageI)
  then have al: "e \<in> pending (agenda_of s)" by (simp add: e_def map_event_def)
  obtain q' where "s_Remove MapScheduler e (m_events s) = Inr q'"
    "map_R q' (spec_step (CallRemove e) (agenda_of s))"
    using map_sched.Remove_R [OF agenda_of_map_R [OF inv ok] al] by auto
  moreover from this(1) have "q' = q" using q by (simp add: MapScheduler_def e_def)
  ultimately have "agenda_of s' = spec_step (CallRemove e) (agenda_of s)"
    using map_R_pending by (intro agenda_eqI) (fastforce simp: s' impl_Cancel_def)+
  with al a show ?thesis by (intro exI [of _ e]) (simp add: e_def)
qed

text \<open>
  The simulator only makes calls the interface of the event list allows, and they have the effect
  the interface promises. While fewer than \<open>2 ^ 32 - 4\<close> events were created and time stamps are
  \<open>int64_t\<close>, scheduling inserts an admissible event, processing takes the earliest event and makes
  its key the current one, and removing a pending event removes exactly it; nothing else changes the set
  of pending events, and the set stays well formed.
\<close>

lemma simulator_keeps_interface:
  assumes "sim_inv s" and "agenda_ok (agenda_of s)"
  shows "(\<forall>delay ev eid s'. Schedule delay ev s = Inr (eid, s') \<longrightarrow> few_events s \<longrightarrow>
            delay + Now s < 2 ^ 63 \<longrightarrow>
            (let c = CallInsert (Event (m_nextImpl s) (id_key eid) (id_context eid))
             in allowed c (agenda_of s) \<and> agenda_of s' = spec_step c (agenda_of s) \<and>
                agenda_ok (agenda_of s'))) \<and>
         (\<forall>x s'. begin_event s = Inr (x, s') \<longrightarrow>
            allowed CallRemoveNext (agenda_of s) \<and> agenda_of s' = spec_step CallRemoveNext (agenda_of s) \<and>
            current_key s' = ev_key (earliest (agenda_of s)) \<and> agenda_ok (agenda_of s')) \<and>
         (\<forall>eid s'. Remove eid s = Inr s' \<longrightarrow> IsPending s eid \<longrightarrow> id_uid eid \<noteq> UID_DESTROY \<longrightarrow>
            (\<exists>e. ev_key e = id_key eid \<and> id_impl eid = Some (ev_impl e) \<and>
               allowed (CallRemove e) (agenda_of s) \<and> agenda_of s' = spec_step (CallRemove e) (agenda_of s) \<and>
               agenda_ok (agenda_of s')))"
proof (intro conjI allI impI)
  fix delay eid s' and ev :: 'a
  assume "Schedule delay ev s = Inr (eid, s')" "few_events s" "delay + Now s < 2 ^ 63"
  note sch = schedule_allowed [OF assms this(1,2) this(3) [unfolded Now_def]]
  from sch spec_step_ok [OF assms(2) sch(1)]
  show "let c = CallInsert (Event (m_nextImpl s) (id_key eid) (id_context eid))
    in allowed c (agenda_of s) \<and> agenda_of s' = spec_step c (agenda_of s) \<and> agenda_ok (agenda_of s')"
    unfolding Let_def by metis
next
  fix x s' assume beg: "begin_event s = Inr (x, s')"
  note b = begin_event_allowed [OF assms beg]
  show "allowed CallRemoveNext (agenda_of s)" "agenda_of s' = spec_step CallRemoveNext (agenda_of s)"
    "current_key s' = ev_key (earliest (agenda_of s))" by (fact b)+
  show "agenda_ok (agenda_of s')" unfolding b(2) by (rule spec_step_ok [OF assms(2) b(1)])
next
  fix eid s' assume "Remove eid s = Inr s'" "IsPending s eid" "id_uid eid \<noteq> UID_DESTROY"
  from remove_allowed [OF assms this] spec_step_ok [OF assms(2)]
  show "\<exists>e. ev_key e = id_key eid \<and> id_impl eid = Some (ev_impl e) \<and>
    allowed (CallRemove e) (agenda_of s) \<and> agenda_of s' = spec_step (CallRemove e) (agenda_of s) \<and>
    agenda_ok (agenda_of s')" by metis
qed

section \<open>Changing the event list\<close>

text \<open>
  \<open>SetScheduler\<close> takes the events one by one out of the old list and inserts them into the new one.
\<close>

partial_function (option) SetScheduler_loop ::
  "'s event_list \<Rightarrow> 't event_list \<Rightarrow> 's \<Rightarrow> 't \<Rightarrow> 't res option" where
  "SetScheduler_loop S T s t =
     (if s_IsEmpty S s then Some (Inr t)
      else (case s_RemoveNext S s of
              Inl e \<Rightarrow> Some (Inl e)
            | Inr (next, s') \<Rightarrow>
                (case s_Insert T next t of
                   Inl e \<Rightarrow> Some (Inl e)
                 | Inr t' \<Rightarrow> SetScheduler_loop S T s' t')))"

definition SetScheduler :: "'s event_list \<Rightarrow> 's \<Rightarrow> 't event_list \<Rightarrow> 't \<Rightarrow> 't res" where
  "SetScheduler S s T new_T =
     (case SetScheduler_loop S T s new_T of None \<Rightarrow> Inl NonTermination | Some r \<Rightarrow> r)"

text \<open>An event list that implements the whole interface.\<close>

definition conforms :: "'s event_list \<Rightarrow> 's \<Rightarrow> bool" where
  "conforms S new \<longleftrightarrow> (\<exists>R. removable_scheduler S new R)"

lemma conforms_all:
  "conforms MapScheduler []" "conforms ListScheduler []" "conforms PriorityQueueScheduler []"
  "conforms CalendarScheduler (CalendarScheduler_new reverse)"
  unfolding conforms_def
  using map_sched.removable_scheduler_axioms list_sched.removable_scheduler_axioms
    pq_sched.removable_scheduler_axioms calendar_sched.removable_scheduler_axioms by blast+

text \<open>The clock only restricts what may be inserted.\<close>

lemma earlier_clock:
  assumes "pending A = pending B" and "clock B \<le> clock A" and "allowed_run cs A"
  shows "allowed_run cs B \<and> spec_run cs B = spec_run cs A"
  using assms
proof (induction cs arbitrary: A B)
  case Nil
  then show ?case by simp
next
  case (Cons c cs)
  have e: "earliest B = earliest A" using Cons.prems(1) by (simp add: earliest_def)
  have "allowed c B \<and> spec_out c B = spec_out c A"
    using Cons.prems e by (cases c) (auto simp: admissible_def)
  moreover have "pending (spec_step c A) = pending (spec_step c B)"
    "clock (spec_step c B) \<le> clock (spec_step c A)"
    using Cons.prems e by (cases c; simp)+
  ultimately show ?case using Cons.IH [of "spec_step c A" "spec_step c B"] Cons.prems(3) by simp
qed

lemma SetScheduler_loop_moves:
  assumes S: "scheduler S new_S R" and T: "scheduler T new_T Q"
    and R: "R s A" and Q: "Q t B" and B: "clock B = 0"
    and ok: "agenda_ok \<lparr>pending = pending A \<union> pending B, clock = 0\<rparr>" and disj: "pending A \<inter> pending B = {}"
  shows "\<exists>t'. SetScheduler_loop S T s t = Some (Inr t') \<and>
    Q t' \<lparr>pending = pending A \<union> pending B, clock = 0\<rparr>"
  using R Q B ok disj
proof (induction "card (pending A)" arbitrary: s t A B)
  case 0
  have "finite (pending A)"
    using agenda_ok_D(1) [OF scheduler.R_ok [OF S 0(2)]] .
  with 0(1) have "pending A = {}" by simp
  moreover have "B = \<lparr>pending = pending B, clock = 0\<rparr>" using 0(4) by (cases B) simp
  ultimately show ?case
    using 0(3) scheduler.IsEmpty_R [OF S 0(2)] by (subst SetScheduler_loop.simps) simp
next
  case (Suc n)
  note A = scheduler.R_ok [OF S Suc.prems(1)]
  have ne: "pending A \<noteq> {}" using Suc.hyps(2) by auto
  define e where "e = earliest A"
  have e: "e \<in> pending A" unfolding e_def by (rule earliest_in [OF A ne])
  obtain s' where s': "s_RemoveNext S s = Inr (e, s')" "R s' (spec_step CallRemoveNext A)"
    using scheduler.RemoveNext_R [OF S Suc.prems(1) ne] by (auto simp: e_def)
  note D = agenda_ok_D [OF Suc.prems(4)]
  have "ev_uid e \<notin> ev_uid ` pending B"
    using inj_onD [OF D(2), of e] e Suc.prems(5) by auto
  moreover have "0 \<le> ev_ts e" "ev_ts e < 2 ^ 63" "UID_VALID \<le> ev_uid e \<and> ev_uid e < 2 ^ 32"
    using D(4,5,6) [of e] e by simp_all
  ultimately have "admissible e B" using Suc.prems(3) by (simp add: admissible_def)
  then obtain t' where t': "s_Insert T e t = Inr t'" "Q t' (spec_step (CallInsert e) B)"
    using scheduler.Insert_R [OF T Suc.prems(2)] by blast
  let ?A = "spec_step CallRemoveNext A" and ?B = "spec_step (CallInsert e) B"
  have un: "pending ?A \<union> pending ?B = pending A \<union> pending B" using e by (auto simp: e_def)
  have card: "n = card (pending ?A)"
    using Suc.hyps(2) e agenda_ok_D(1) [OF A] by (simp add: e_def)
  have "\<exists>u. SetScheduler_loop S T s' t' = Some (Inr u) \<and> Q u \<lparr>pending = pending ?A \<union> pending ?B, clock = 0\<rparr>"
    by (rule Suc.hyps(1) [OF card s'(2) t'(2)])
      (use Suc.prems un in \<open>auto simp: e_def\<close>)
  then show ?case
    using s'(1) t'(1) scheduler.IsEmpty_R [OF S Suc.prems(1)] ne un
    by (subst SetScheduler_loop.simps) simp
qed

lemma sched_run_append:
  "sched_run S (cs @ ds) s =
     res_bind (sched_run S cs s) (\<lambda>(outs, s').
       res_bind (sched_run S ds s') (\<lambda>(outs', s''). Inr (outs @ outs', s'')))"
proof (induction cs arbitrary: s)
  case Nil
  show ?case by (cases "sched_run S ds s") (auto split: prod.splits)
next
  case (Cons c cs)
  then show ?case
    by (cases "sched_step S c s") (auto simp: res_bind_def split: sum.splits prod.splits)
qed

lemma spec_run_append: "spec_run (cs @ ds) A = spec_run cs A @ spec_run ds (fold spec_step cs A)"
  by (induction cs arbitrary: A) simp_all

lemma allowed_run_append:
  "allowed_run (cs @ ds) A \<longleftrightarrow> allowed_run cs A \<and> allowed_run ds (fold spec_step cs A)"
  by (induction cs arbitrary: A) simp_all

text \<open>
  The event list can be changed in the middle of a simulation. After any allowed calls on one
  conforming event list, \<open>SetScheduler\<close> to another one returns, and the calls that follow return what
  they would have returned without the change. The map, the list, the priority queue and the calendar
  conform.
\<close>

lemma set_scheduler_invisible:
  assumes "conforms S new_S" and "conforms T new_T" and "allowed_run (cs @ ds) empty_agenda"
  shows "\<exists>outs s t outs' t'. sched_run S cs new_S = Inr (outs, s) \<and> SetScheduler S s T new_T = Inr t \<and>
    sched_run T ds t = Inr (outs', t') \<and> outs @ outs' = spec_run (cs @ ds) empty_agenda"
proof -
  obtain R Q where S: "removable_scheduler S new_S R" and T: "removable_scheduler T new_T Q"
    using assms(1,2) by (auto simp: conforms_def)
  note S' = removable_scheduler.axioms(1) [OF S] and T' = removable_scheduler.axioms(1) [OF T]
  let ?A = "fold spec_step cs empty_agenda"
  have al: "allowed_run cs empty_agenda" "allowed_run ds ?A" using assms(3) by (simp_all add: allowed_run_append)
  obtain s where s: "sched_run S cs new_S = Inr (spec_run cs empty_agenda, s)" "R s ?A"
    using removable_scheduler.run [OF S al(1)] by blast
  have ok: "agenda_ok ?A" by (rule scheduler.R_ok [OF S' s(2)])
  let ?B = "\<lparr>pending = pending ?A, clock = 0\<rparr>"
  have "agenda_ok ?B" using ok by (force simp: agenda_ok_def)
  then obtain t where t: "SetScheduler_loop S T s new_T = Some (Inr t)" "Q t ?B"
    using SetScheduler_loop_moves [OF S' T' s(2) scheduler.new_R [OF T']] by (auto simp: empty_agenda_def)
  have B: "allowed_run ds ?B \<and> spec_run ds ?B = spec_run ds ?A"
    by (rule earlier_clock) (use al(2) agenda_ok_D(3) [OF ok] in simp_all)
  obtain t' where "sched_run T ds t = Inr (spec_run ds ?B, t')"
    using sched_run_simulates [OF removable_scheduler.simulates [OF T] t(2)] B by blast
  with s(1) t(1) B show ?thesis by (auto simp: SetScheduler_def spec_run_append)
qed

section \<open>The events of the end\<close>

text \<open>
  \<open>Destroy\<close> runs the events of \<open>ScheduleDestroy\<close>, in the order they were scheduled. Such an
  event may schedule another one, so the loop need not end.
\<close>

partial_function (option) Destroy ::
  "('e \<Rightarrow> 's \<times> 'e simulator \<Rightarrow> ('s \<times> 'e simulator) res) \<Rightarrow>
   's \<times> 'e simulator \<Rightarrow> ('s \<times> 'e simulator) res option" where
  "Destroy invoke st =
     (case m_destroyEvents (snd st) of
        [] \<Rightarrow> Some (Inr st)
      | eid # es \<Rightarrow>
          let sim = (snd st)\<lparr>m_destroyEvents := es\<rparr>
          in (case Option.bind (id_impl eid) (m_impls sim) of
                None \<Rightarrow> Some (Inl NullPointer)
              | Some i \<Rightarrow>
                  if m_cancel i then Destroy invoke (fst st, sim)
                  else (case invoke (m_notify i) (fst st, sim) of
                          Inl e \<Rightarrow> Some (Inl e)
                        | Inr st' \<Rightarrow> Destroy invoke st')))"

text \<open>It ends, with no event left, when the events do not schedule others for the end.\<close>

lemma Destroy_ends:
  assumes inv: "\<And>e st st'. invoke e st = Inr st' \<Longrightarrow> m_destroyEvents (snd st') = m_destroyEvents (snd st)"
  shows "\<exists>r. Destroy invoke st = Some r \<and> (\<forall>st'. r = Inr st' \<longrightarrow> m_destroyEvents (snd st') = [])"
proof (induction "m_destroyEvents (snd st)" arbitrary: st)
  case Nil
  then show ?case by (subst Destroy.simps) (auto dest: sym)
next
  case (Cons eid es)
  note q = Cons.hyps(2) [symmetric]
  let ?sim = "(snd st)\<lparr>m_destroyEvents := es\<rparr>"
  have es: "m_destroyEvents ?sim = es" by simp
  show ?case
  proof (cases "Option.bind (id_impl eid) (m_impls (snd st))")
    case None
    then show ?thesis by (subst Destroy.simps) (simp add: q Let_def)
  next
    case (Some i)
    show ?thesis
    proof (cases "m_cancel i")
      case True
      with Some Cons.hyps(1) [of "(fst st, ?sim)"] es show ?thesis
        by (subst Destroy.simps) (simp add: q Let_def)
    next
      case False
      show ?thesis
      proof (cases "invoke (m_notify i) (fst st, ?sim)")
        case (Inl e)
        with Some False show ?thesis
          by (subst Destroy.simps) (simp add: q Let_def)
      next
        case (Inr st')
        with Cons.hyps(1) [of st'] inv [OF Inr] es Some False show ?thesis
          by (subst Destroy.simps) (simp add: q Let_def)
      qed
    qed
  qed
qed

end
