(* ===== verification/Measurement_Mapping.thy ===== *)
theory Measurement_Mapping
  imports Oran_Prelude
begin

text \<open>
  The quantisation of radio measurements in RRC messages (\<open>EutranMeasurementMapping\<close>,
  \<open>src/src/nr/model/nr-common.cc\<close>; \<open>lte-common.cc\<close> has the same text). The ranges of the information elements
  are natural numbers below 256 (\<open>uint8_t\<close>) or integers (\<open>int8_t\<close>). A measurement is a \<open>double\<close>; one that is
  not a number is \<open>None\<close>.
\<close>

section \<open>Operations\<close>

definition RsrpRange2Dbm :: "nat \<Rightarrow> double res" where
  "RsrpRange2Dbm level = abort_if (97 < level) ValueOutOfRange (Inr (real level - 141))"

definition Dbm2RsrpRange :: "double \<Rightarrow> nat" where
  "Dbm2RsrpRange dbm = nat (min (max \<lfloor>dbm + 141\<rfloor> 0) 97)"

definition RsrqRange2Db :: "nat \<Rightarrow> double res" where
  "RsrqRange2Db level = abort_if (34 < level) ValueOutOfRange (Inr ((real level - 40) * (1 / 2)))"

definition Db2RsrqRange :: "double \<Rightarrow> nat" where
  "Db2RsrqRange db = nat (min (max \<lfloor>db * 2 + 40\<rfloor> 0) 34)"

definition QuantizeRsrp :: "double \<Rightarrow> double res" where
  "QuantizeRsrp v = RsrpRange2Dbm (Dbm2RsrpRange v)"

definition QuantizeRsrq :: "double \<Rightarrow> double res" where
  "QuantizeRsrq v = RsrqRange2Db (Db2RsrqRange v)"

text \<open>\<open>lround\<close> rounds half away from zero.\<close>

definition lround :: "double \<Rightarrow> int" where
  "lround x = (if 0 \<le> x then \<lfloor>x + 1 / 2\<rfloor> else \<lceil>x - 1 / 2\<rceil>)"

definition IeValue2ActualHysteresis :: "nat \<Rightarrow> double res" where
  "IeValue2ActualHysteresis ie =
     abort_if (30 < ie) ValueOutOfRange
       (let actual = real ie * (1 / 2) in
        abort_if (\<not> 0 \<le> actual \<or> \<not> actual \<le> 15) ValueOutOfRange (Inr actual))"

definition ActualHysteresis2IeValue :: "double \<Rightarrow> nat res" where
  "ActualHysteresis2IeValue hysteresisDb =
     abort_if (hysteresisDb < 0 \<or> 15 < hysteresisDb) ValueOutOfRange
       (let ie = lround (hysteresisDb * 2) in abort_if (\<not> ie \<le> 30) ValueOutOfRange (Inr (nat ie)))"

definition IeValue2ActualA3Offset :: "int \<Rightarrow> double res" where
  "IeValue2ActualA3Offset ie =
     abort_if (ie < - 30 \<or> 30 < ie) ValueOutOfRange
       (let actual = of_int ie * (1 / 2) in
        abort_if (\<not> - 15 \<le> actual \<or> \<not> actual \<le> 15) ValueOutOfRange (Inr actual))"

definition ActualA3Offset2IeValue :: "double \<Rightarrow> int res" where
  "ActualA3Offset2IeValue a3OffsetDb =
     abort_if (a3OffsetDb < - 15 \<or> 15 < a3OffsetDb) ValueOutOfRange
       (let ie = lround (a3OffsetDb * 2) in
        abort_if (\<not> - 30 \<le> ie \<or> \<not> ie \<le> 30) ValueOutOfRange (Inr ie))"

definition IeValue2ActualQRxLevMin :: "int \<Rightarrow> double res" where
  "IeValue2ActualQRxLevMin ie =
     abort_if (ie < - 70 \<or> - 22 < ie) ValueOutOfRange
       (let actual = of_int ie * 2 in
        abort_if (\<not> - 140 \<le> actual \<or> \<not> actual \<le> - 44) ValueOutOfRange (Inr actual))"

definition IeValue2ActualQQualMin :: "int \<Rightarrow> double res" where
  "IeValue2ActualQQualMin ie =
     abort_if (ie < - 34 \<or> - 3 < ie) ValueOutOfRange
       (let actual = of_int ie in
        abort_if (\<not> - 34 \<le> actual \<or> \<not> actual \<le> (- 3 :: double)) ValueOutOfRange (Inr actual))"

section \<open>Laws\<close>

lemma hysteresis_value [simp]: "ie \<le> 30 \<Longrightarrow> IeValue2ActualHysteresis ie = Inr (real ie / 2)"
  by (simp add: IeValue2ActualHysteresis_def abort_if_def)

lemma hysteresis_aborts: "30 < ie \<Longrightarrow> IeValue2ActualHysteresis ie = Inl ValueOutOfRange"
  by (simp add: IeValue2ActualHysteresis_def abort_if_def)

lemma a3_offset_value [simp]: "- 30 \<le> ie \<Longrightarrow> ie \<le> 30 \<Longrightarrow> IeValue2ActualA3Offset ie = Inr (of_int ie / 2)"
proof -
  assume r: "- 30 \<le> ie" "ie \<le> 30"
  then have "(- 30 :: real) \<le> of_int ie" "of_int ie \<le> (30 :: real)" by simp_all
  with r show ?thesis by (simp add: IeValue2ActualA3Offset_def abort_if_def)
qed

lemma rsrp_range_bound: "Dbm2RsrpRange v \<le> 97"
  by (simp add: Dbm2RsrpRange_def nat_le_iff)

lemma rsrq_range_bound: "Db2RsrqRange v \<le> 34"
  by (simp add: Db2RsrqRange_def nat_le_iff)

lemma rsrp_range_mono: "v \<le> w \<Longrightarrow> Dbm2RsrpRange v \<le> Dbm2RsrpRange w"
  unfolding Dbm2RsrpRange_def by (intro nat_mono min.mono max.mono floor_mono) simp_all

lemma rsrq_range_mono: "v \<le> w \<Longrightarrow> Db2RsrqRange v \<le> Db2RsrqRange w"
  unfolding Db2RsrqRange_def by (intro nat_mono min.mono max.mono floor_mono) simp_all

lemma lround_nat [simp]: "lround (real n) = int n"
  by (simp add: lround_def)

lemma lround_int [simp]: "lround (of_int n) = n"
  by (simp add: lround_def) linarith

lemma lround_close: "\<bar>of_int (lround x) - x\<bar> \<le> 1 / 2"
  by (cases "0 \<le> x"; simp only: lround_def if_True if_False abs_le_iff; linarith)

lemma lround_bounds: "of_int a \<le> x \<Longrightarrow> x \<le> of_int b \<Longrightarrow> a \<le> lround x \<and> lround x \<le> b"
  by (auto simp: lround_def) linarith+

section \<open>Properties\<close>

text \<open>
  Every reported power and quality is one of the values of its range; a value of the range is reported
  exactly, a measurement within it is rounded down by less than one step, one outside to the nearer end, and
  stronger cells are never reported as weaker ones.
\<close>

lemma measurement_quantised:
  "(r \<le> 97 \<longrightarrow> (\<exists>d. RsrpRange2Dbm r = Inr d \<and> Dbm2RsrpRange d = r)) \<and>
   (q \<le> 34 \<longrightarrow> (\<exists>d. RsrqRange2Db q = Inr d \<and> Db2RsrqRange d = q)) \<and>
   (\<exists>d. QuantizeRsrp v = Inr d \<and> (- 141 \<le> v \<and> v < - 43 \<longrightarrow> d \<le> v \<and> v < d + 1) \<and>
     (v < - 141 \<longrightarrow> d = - 141) \<and> (- 43 \<le> v \<longrightarrow> d = - 44)) \<and>
   (v \<le> w \<longrightarrow> Dbm2RsrpRange v \<le> Dbm2RsrpRange w \<and> Db2RsrqRange v \<le> Db2RsrqRange w)"
proof -
  have "\<exists>d. RsrpRange2Dbm r = Inr d \<and> Dbm2RsrpRange d = r" if "r \<le> 97"
    using that by (simp add: RsrpRange2Dbm_def Dbm2RsrpRange_def abort_if_def)
  moreover have "\<exists>d. RsrqRange2Db q = Inr d \<and> Db2RsrqRange d = q" if "q \<le> 34"
  proof -
    have "(real q - 40) * (1 / 2) * 2 + 40 = real q" by (simp add: field_simps)
    then have "Db2RsrqRange ((real q - 40) * (1 / 2)) = q"
      using that by (simp only: Db2RsrqRange_def floor_of_nat)
    moreover have "RsrqRange2Db q = Inr ((real q - 40) * (1 / 2))"
      using that by (simp add: RsrqRange2Db_def abort_if_def)
    ultimately show ?thesis by blast
  qed
  moreover have "QuantizeRsrp v = Inr (real (Dbm2RsrpRange v) - 141)"
    using rsrp_range_bound [of v] by (simp add: QuantizeRsrp_def RsrpRange2Dbm_def abort_if_def)
  moreover have "- 141 \<le> v \<and> v < - 43 \<longrightarrow> real (Dbm2RsrpRange v) - 141 \<le> v \<and> v < real (Dbm2RsrpRange v) - 141 + 1"
  proof
    assume v: "- 141 \<le> v \<and> v < - 43"
    then have "0 \<le> \<lfloor>v + 141\<rfloor>" "\<lfloor>v + 141\<rfloor> \<le> 97" by linarith+
    then have "real (Dbm2RsrpRange v) = of_int \<lfloor>v + 141\<rfloor>" by (simp add: Dbm2RsrpRange_def)
    then show "real (Dbm2RsrpRange v) - 141 \<le> v \<and> v < real (Dbm2RsrpRange v) - 141 + 1" by linarith
  qed
  moreover have "v < - 141 \<longrightarrow> Dbm2RsrpRange v = 0" "- 43 \<le> v \<longrightarrow> Dbm2RsrpRange v = 97"
  proof -
    have "\<lfloor>v + 141\<rfloor> \<le> 0" if "v < - 141" using that by linarith
    then show "v < - 141 \<longrightarrow> Dbm2RsrpRange v = 0" by (simp add: Dbm2RsrpRange_def)
    have "min (max \<lfloor>v + 141\<rfloor> 0) 97 = 97" if "- 43 \<le> v" using that by linarith
    then show "- 43 \<le> v \<longrightarrow> Dbm2RsrpRange v = 97" by (simp only: Dbm2RsrpRange_def) simp
  qed
  ultimately show ?thesis using rsrp_range_mono [of v w] rsrq_range_mono [of v w] by simp
qed

text \<open>
  C37: A hysteresis or an A3 offset in its range is encoded without abort, the decoded value differs from it by
  at most a quarter of a dB, and every encoded value is decoded and encoded again unchanged.
\<close>

theorem hysteresis_offset_roundtrip:
  "(0 \<le> h \<and> h \<le> 15 \<longrightarrow> (\<exists>ie d. ActualHysteresis2IeValue h = Inr ie \<and> IeValue2ActualHysteresis ie = Inr d \<and> \<bar>d - h\<bar> \<le> 1 / 4)) \<and>
   (- 15 \<le> off \<and> off \<le> 15 \<longrightarrow>
     (\<exists>ie d. ActualA3Offset2IeValue off = Inr ie \<and> IeValue2ActualA3Offset ie = Inr d \<and> \<bar>d - off\<bar> \<le> 1 / 4)) \<and>
   (n \<le> 30 \<longrightarrow> (\<exists>d. IeValue2ActualHysteresis n = Inr d \<and> ActualHysteresis2IeValue d = Inr n)) \<and>
   (- 30 \<le> k \<and> k \<le> 30 \<longrightarrow> (\<exists>d. IeValue2ActualA3Offset k = Inr d \<and> ActualA3Offset2IeValue d = Inr k))"
proof (intro conjI impI)
  assume h: "0 \<le> h \<and> h \<le> 15"
  then have b: "0 \<le> lround (h * 2)" "lround (h * 2) \<le> 30" using lround_bounds [of 0 "h * 2" 30] by simp_all
  then have "real (nat (lround (h * 2))) = of_int (lround (h * 2))" by simp
  then have "\<bar>real (nat (lround (h * 2))) / 2 - h\<bar> \<le> 1 / 4" using lround_close [of "h * 2"] by linarith
  moreover have "IeValue2ActualHysteresis (nat (lround (h * 2))) = Inr (real (nat (lround (h * 2))) / 2)"
    using b by (intro hysteresis_value) simp
  moreover have "ActualHysteresis2IeValue h = Inr (nat (lround (h * 2)))"
    using h b by (simp add: ActualHysteresis2IeValue_def abort_if_def)
  ultimately show "\<exists>ie d. ActualHysteresis2IeValue h = Inr ie \<and> IeValue2ActualHysteresis ie = Inr d \<and> \<bar>d - h\<bar> \<le> 1 / 4"
    by blast
next
  assume h: "- 15 \<le> off \<and> off \<le> 15"
  then have b: "- 30 \<le> lround (off * 2)" "lround (off * 2) \<le> 30" using lround_bounds [of "- 30" "off * 2" 30] by simp_all
  have "\<bar>of_int (lround (off * 2)) / 2 - off\<bar> \<le> 1 / 4" using lround_close [of "off * 2"] by linarith
  moreover have "IeValue2ActualA3Offset (lround (off * 2)) = Inr (of_int (lround (off * 2)) / 2)"
    using b by (rule a3_offset_value)
  moreover have "ActualA3Offset2IeValue off = Inr (lround (off * 2))"
    using h b by (simp add: ActualA3Offset2IeValue_def abort_if_def)
  ultimately show "\<exists>ie d. ActualA3Offset2IeValue off = Inr ie \<and> IeValue2ActualA3Offset ie = Inr d \<and> \<bar>d - off\<bar> \<le> 1 / 4"
    by blast
next
  assume "n \<le> 30"
  then show "\<exists>d. IeValue2ActualHysteresis n = Inr d \<and> ActualHysteresis2IeValue d = Inr n"
    by (intro exI [of _ "real n / 2"]) (simp add: ActualHysteresis2IeValue_def abort_if_def)
next
  assume k: "- 30 \<le> k \<and> k \<le> 30"
  then have "(- 30 :: real) \<le> of_int k" "of_int k \<le> (30 :: real)" by simp_all
  with k show "\<exists>d. IeValue2ActualA3Offset k = Inr d \<and> ActualA3Offset2IeValue d = Inr k"
    by (intro exI [of _ "of_int k / 2"]) (simp add: ActualA3Offset2IeValue_def abort_if_def)
qed

theorem hysteresis_offset_roundtrip_witness:
  "\<exists>ie d. ActualHysteresis2IeValue (11 / 4) = Inr ie \<and> IeValue2ActualHysteresis ie = Inr d \<and> \<bar>d - 11 / 4\<bar> \<le> 1 / 4"
  using hysteresis_offset_roundtrip [of "11 / 4" 0 0 0] by simp

end
