(* ===== verification/Ue_Measurements.thy ===== *)
theory Ue_Measurements
  imports Engine_Methods Measurement_Mapping
begin

text \<open>
  Measurement reporting of a UE (\<open>NrUeRrc\<close>, \<open>src/src/nr/model/nr-ue-rrc.cc\<close>): the configuration it received, the
  measured values, the events A1 to A5 with their entering and leaving conditions, the triggers that wait for
  the time to trigger, the cells reported, and the reports. A record holds the fields of the object and what it
  sent to the gNB and the PHY; the timers are events of the engine, so that a method works on a pair of record
  and engine. Identities are natural numbers, \<open>std::set\<close> is a sorted list. The RSRQ of a cell may be not a
  number (\<open>None\<close>); a comparison with it is false. A failed \<open>NS_ASSERT\<close> on a missing entry is \<open>MissingEntry\<close>,
  an iterator moved past the end of a list, which C++ leaves undefined, is \<open>IteratorPastEnd\<close>.
\<close>

section \<open>Data\<close>

datatype meas_quantity = RSRP | RSRQ

datatype trigger_type = EVENT | PERIODICAL

datatype meas_event_kind = EVENT_A1 | EVENT_A2 | EVENT_A3 | EVENT_A4 | EVENT_A5

datatype report_purpose = REPORT_STRONGEST_CELLS | REPORT_CGI

datatype report_interval =
    MS120 | MS240 | MS480 | MS640 | MS1024 | MS2048 | MS5120 | MS10240 | MIN1 | MIN6 | MIN12 | MIN30 | MIN60
  | SPARE3 | SPARE2 | SPARE1

record threshold_eutra =
  th_choice :: meas_quantity
  th_range :: nat

record report_config =
  rc_triggerType :: trigger_type
  rc_eventId :: meas_event_kind
  rc_threshold1 :: threshold_eutra
  rc_threshold2 :: threshold_eutra
  rc_reportOnLeave :: bool
  rc_a3Offset :: int
  rc_hysteresis :: nat
  rc_timeToTrigger :: nat
  rc_purpose :: report_purpose
  rc_triggerQuantity :: meas_quantity
  rc_maxReportCells :: nat
  rc_reportInterval :: report_interval

record meas_object =
  mo_carrierFreq :: nat
  mo_offsetFreq :: int
  mo_cellsToRemoveList :: "nat list"
  mo_cellsToAddModList :: "nat list"
  mo_blackCellsToRemoveList :: "nat list"
  mo_blackCellsToAddModList :: "nat list"
  mo_haveCellForWhichToReportCGI :: bool

record meas_id =
  mi_measId :: nat
  mi_measObjectId :: nat
  mi_reportConfigId :: nat

record meas_config =
  mc_measObjectToRemoveList :: "nat list"
  mc_measObjectToAddModList :: "(nat \<times> meas_object) list"
  mc_reportConfigToRemoveList :: "nat list"
  mc_reportConfigToAddModList :: "(nat \<times> report_config) list"
  mc_measIdToRemoveList :: "nat list"
  mc_measIdToAddModList :: "meas_id list"
  mc_quantityConfig :: "(nat \<times> nat) option"
  mc_haveMeasGapConfig :: bool
  mc_haveSmeasure :: bool
  mc_haveSpeedStatePars :: bool

record meas_values =
  mv_rsrp :: double
  mv_rsrq :: "double option"
  mv_carrierFreq :: nat

record pending_trigger =
  pt_measId :: nat
  pt_concernedCells :: "nat list"
  pt_timer :: event_id

record var_meas_report =
  vr_cellsTriggeredList :: "nat list"
  vr_numberOfReportsSent :: nat
  vr_periodicReportTimer :: event_id

record meas_cell =
  ce_physCellId :: nat
  ce_rsrpResult :: nat
  ce_rsrqResult :: nat

text \<open>The flags \<open>haveMeasResultNeighCells\<close> and \<open>haveMeasResultServFreqList\<close> are kept as in the message.\<close>

record meas_results =
  mr_measId :: nat
  mr_pcell_rsrp :: nat
  mr_pcell_rsrq :: nat
  mr_haveNeighCells :: bool
  mr_list :: "meas_cell list"
  mr_haveServFreqList :: bool
  mr_servFreqList :: "meas_cell list"

datatype meas_event =
    Ev_VarMeasReportListAdd nat "nat list"
  | Ev_VarMeasReportListErase nat "nat list" bool
  | Ev_SendMeasurementReport nat

datatype phy_call = SetRsrpFilterCoefficient nat nat | SynchronizeWithGnb nat nat

datatype ue_state =
    IDLE_START | IDLE_CELL_SEARCH | IDLE_WAIT_MIB_SIB1 | IDLE_WAIT_MIB | IDLE_WAIT_SIB1 | IDLE_CAMPED_NORMALLY
  | IDLE_WAIT_SIB2 | IDLE_RANDOM_ACCESS | IDLE_CONNECTING | CONNECTED_NORMALLY | CONNECTED_HANDOVER
  | CONNECTED_PHY_PROBLEM | CONNECTED_REESTABLISHING

text \<open>\<open>ue_carriers\<close> holds \<open>GetArfcn\<close> and \<open>GetCellId\<close> of the PHY of each component carrier.\<close>

record ue_rrc =
  ue_state :: ue_state
  ue_cellId :: nat
  ue_carriers :: "(nat \<times> nat) list"
  ue_initDlArfcn :: nat
  ue_acceptableCell :: "nat list"
  vc_measIdList :: "(nat \<times> meas_id) list"
  vc_measObjectList :: "(nat \<times> meas_object) list"
  vc_reportConfigList :: "(nat \<times> report_config) list"
  vc_quantityConfig :: "nat \<times> nat"
  vc_aRsrp :: double
  vc_aRsrq :: double
  m_storedMeasValues :: "(nat \<times> meas_values) list"
  m_enteringTriggerQueue :: "(nat \<times> pending_trigger list) list"
  m_leavingTriggerQueue :: "(nat \<times> pending_trigger list) list"
  m_varMeasReportList :: "(nat \<times> var_meas_report) list"
  ue_reports :: "meas_results list"
  ue_phy_calls :: "phy_call list"

type_synonym ue_st = "ue_rrc \<times> meas_event simulator"

text \<open>\<open>find\<close> on a map whose result is asserted or dereferenced.\<close>

definition entry_of :: "(nat \<times> 'v) list \<Rightarrow> nat \<Rightarrow> 'v res" where
  "entry_of m k = (case map_of m k of None \<Rightarrow> Inl MissingEntry | Some v \<Rightarrow> Inr v)"

section \<open>Waiting triggers\<close>

datatype trigger_queue = Entering | Leaving

definition queue_of :: "trigger_queue \<Rightarrow> ue_rrc \<Rightarrow> (nat \<times> pending_trigger list) list" where
  "queue_of q u = (case q of Entering \<Rightarrow> m_enteringTriggerQueue u | Leaving \<Rightarrow> m_leavingTriggerQueue u)"

definition set_queue :: "trigger_queue \<Rightarrow> (nat \<times> pending_trigger list) list \<Rightarrow> ue_rrc \<Rightarrow> ue_rrc" where
  "set_queue q m u =
     (case q of Entering \<Rightarrow> u\<lparr>m_enteringTriggerQueue := m\<rparr> | Leaving \<Rightarrow> u\<lparr>m_leavingTriggerQueue := m\<rparr>)"

definition upd_queue :: "trigger_queue \<Rightarrow> nat \<Rightarrow> pending_trigger list \<Rightarrow> ue_rrc \<Rightarrow> ue_rrc" where
  "upd_queue q measId ps u = set_queue q (smap_upd measId ps (queue_of q u)) u"

definition CancelTrigger :: "trigger_queue \<Rightarrow> nat \<Rightarrow> ue_st \<Rightarrow> ue_st res" where
  "CancelTrigger q measId st =
     (case map_of (queue_of q (fst st)) measId of
        None \<Rightarrow> Inl MissingEntry
      | Some ps \<Rightarrow>
          res_bind (res_fold (\<lambda>p st. abort_if (pt_measId p \<noteq> measId) MissingEntry (Inr (cancel_id (pt_timer p) st))) ps st)
            (\<lambda>st. Inr (on_world (upd_queue q measId []) st)))"

definition CancelEnteringTrigger :: "nat \<Rightarrow> ue_st \<Rightarrow> ue_st res" where
  "CancelEnteringTrigger = CancelTrigger Entering"

definition CancelLeavingTrigger :: "nat \<Rightarrow> ue_st \<Rightarrow> ue_st res" where
  "CancelLeavingTrigger = CancelTrigger Leaving"

text \<open>
  The inner loop assigns \<open>it3 = erase(it3)\<close> and then increments \<open>it3\<close>: the element after an erased one is
  skipped, and when the erased one was the last, the iterator is moved past the end.
\<close>

fun erase_cell :: "nat \<Rightarrow> nat list \<Rightarrow> nat list res" where
  "erase_cell c [] = Inr []"
| "erase_cell c (x # xs) =
     (if x = c
      then (case xs of [] \<Rightarrow> Inl IteratorPastEnd | y # ys \<Rightarrow> res_bind (erase_cell c ys) (\<lambda>zs. Inr (y # zs)))
      else res_bind (erase_cell c xs) (\<lambda>zs. Inr (x # zs)))"

fun cancel_cell :: "nat \<Rightarrow> nat \<Rightarrow> pending_trigger list \<Rightarrow> ue_st \<Rightarrow> (pending_trigger list \<times> ue_st) res" where
  "cancel_cell measId c [] st = Inr ([], st)"
| "cancel_cell measId c (p # ps) st =
     abort_if (pt_measId p \<noteq> measId) MissingEntry
       (res_bind (erase_cell c (pt_concernedCells p)) (\<lambda>cs.
         if cs = [] then cancel_cell measId c ps (cancel_id (pt_timer p) st)
         else res_bind (cancel_cell measId c ps st) (\<lambda>(ps', st'). Inr (p\<lparr>pt_concernedCells := cs\<rparr> # ps', st'))))"

definition CancelTrigger_cell :: "trigger_queue \<Rightarrow> nat \<Rightarrow> nat \<Rightarrow> ue_st \<Rightarrow> ue_st res" where
  "CancelTrigger_cell q measId c st =
     (case map_of (queue_of q (fst st)) measId of
        None \<Rightarrow> Inl MissingEntry
      | Some ps \<Rightarrow>
          res_bind (cancel_cell measId c ps st) (\<lambda>(ps', st'). Inr (on_world (upd_queue q measId ps') st')))"

definition CancelEnteringTrigger_cell :: "nat \<Rightarrow> nat \<Rightarrow> ue_st \<Rightarrow> ue_st res" where
  "CancelEnteringTrigger_cell = CancelTrigger_cell Entering"

definition CancelLeavingTrigger_cell :: "nat \<Rightarrow> nat \<Rightarrow> ue_st \<Rightarrow> ue_st res" where
  "CancelLeavingTrigger_cell = CancelTrigger_cell Leaving"

text \<open>
  The end of \<open>VarMeasReportListAdd\<close> and \<open>VarMeasReportListErase\<close>: take the first waiting trigger out of the
  queue and drop the cells from the ones behind it.
\<close>

definition pop_trigger :: "trigger_queue \<Rightarrow> nat \<Rightarrow> nat list \<Rightarrow> ue_st \<Rightarrow> ue_st res" where
  "pop_trigger q measId cells st =
     (case map_of (queue_of q (fst st)) measId of
        None \<Rightarrow> Inl MissingEntry
      | Some [] \<Rightarrow> Inr st
      | Some (p # ps) \<Rightarrow>
          (let st1 = on_world (upd_queue q measId ps) st in
           if ps = [] then Inr st1 else res_fold (CancelTrigger_cell q measId) cells st1))"

section \<open>Reports\<close>

definition interval_ms :: "report_interval \<Rightarrow> time res" where
  "interval_ms i =
     (case i of MS120 \<Rightarrow> Inr 120 | MS240 \<Rightarrow> Inr 240 | MS480 \<Rightarrow> Inr 480 | MS640 \<Rightarrow> Inr 640 | MS1024 \<Rightarrow> Inr 1024
      | MS2048 \<Rightarrow> Inr 2048 | MS5120 \<Rightarrow> Inr 5120 | MS10240 \<Rightarrow> Inr 10240 | MIN1 \<Rightarrow> Inr 60000 | MIN6 \<Rightarrow> Inr 360000
      | MIN12 \<Rightarrow> Inr 720000 | MIN30 \<Rightarrow> Inr 1800000 | MIN60 \<Rightarrow> Inr 3600000 | _ \<Rightarrow> Inl Unsupported)"

definition value_of :: "meas_quantity \<Rightarrow> meas_values \<Rightarrow> double option" where
  "value_of q v = (case q of RSRP \<Rightarrow> Some (mv_rsrp v) | RSRQ \<Rightarrow> mv_rsrq v)"

text \<open>Encoding a value that is not a number is undefined.\<close>

definition encode_cell :: "nat \<Rightarrow> meas_values \<Rightarrow> meas_cell res" where
  "encode_cell c v =
     (case mv_rsrq v of
        None \<Rightarrow> Inl CastOverflow
      | Some q \<Rightarrow> Inr \<lparr>ce_physCellId = c, ce_rsrpResult = Dbm2RsrpRange (mv_rsrp v), ce_rsrqResult = Db2RsrqRange q\<rparr>)"

text \<open>\<open>std::multimap::insert\<close> puts an element behind those with the same key.\<close>

fun mm_insert :: "double \<times> nat \<Rightarrow> (double \<times> nat) list \<Rightarrow> (double \<times> nat) list" where
  "mm_insert e [] = [e]"
| "mm_insert e (x # xs) = (if fst e < fst x then e # x # xs else x # mm_insert e xs)"

definition sort_neighbours :: "meas_quantity \<Rightarrow> ue_rrc \<Rightarrow> nat list \<Rightarrow> (double \<times> nat) list res" where
  "sort_neighbours q u cells =
     res_fold (\<lambda>c acc.
         if c = ue_cellId u then Inr acc
         else (case map_of (m_storedMeasValues u) c of
             None \<Rightarrow> Inl NullPointer
           | Some v \<Rightarrow> (case value_of q v of None \<Rightarrow> Inl CastOverflow | Some x \<Rightarrow> Inr (mm_insert (x, c) acc))))
       cells []"

definition encode_cells :: "ue_rrc \<Rightarrow> nat list \<Rightarrow> meas_cell list res" where
  "encode_cells u cells =
     res_fold (\<lambda>c acc. res_bind (entry_of (m_storedMeasValues u) c) (\<lambda>v.
         res_bind (encode_cell c v) (\<lambda>e. Inr (acc @ [e])))) cells []"

text \<open>The secondary carriers whose cell has been measured, with the index of the carrier.\<close>

definition serving_cells :: "ue_rrc \<Rightarrow> meas_cell list res" where
  "serving_cells u =
     res_fold (\<lambda>i acc.
         case map_of (m_storedMeasValues u) (snd (ue_carriers u ! i)) of
           None \<Rightarrow> Inr acc
         | Some v \<Rightarrow> res_bind (encode_cell i v) (\<lambda>e. Inr (acc @ [e])))
       [1..<length (ue_carriers u)] []"

definition make_report :: "nat \<Rightarrow> report_config \<Rightarrow> var_meas_report \<Rightarrow> ue_rrc \<Rightarrow> meas_results res" where
  "make_report measId rc r u =
     res_bind (entry_of (m_storedMeasValues u) (ue_cellId u)) (\<lambda>sv.
     res_bind (encode_cell (ue_cellId u) sv) (\<lambda>p.
     res_bind (serving_cells u) (\<lambda>scells.
     res_bind (sort_neighbours (rc_triggerQuantity rc) u (vr_cellsTriggeredList r)) (\<lambda>sorted_cells.
     res_bind (encode_cells u (take (rc_maxReportCells rc) (map snd (rev sorted_cells)))) (\<lambda>ncells.
       Inr \<lparr>mr_measId = measId, mr_pcell_rsrp = ce_rsrpResult p, mr_pcell_rsrq = ce_rsrqResult p,
            mr_haveNeighCells = (ncells \<noteq> []), mr_list = ncells,
            mr_haveServFreqList = (scells \<noteq> []), mr_servFreqList = scells\<rparr>)))))"

definition upd_report :: "nat \<Rightarrow> (var_meas_report \<Rightarrow> var_meas_report) \<Rightarrow> ue_rrc \<Rightarrow> ue_rrc" where
  "upd_report measId f u =
     u\<lparr>m_varMeasReportList := (case map_of (m_varMeasReportList u) measId of
         None \<Rightarrow> m_varMeasReportList u
       | Some r \<Rightarrow> smap_upd measId (f r) (m_varMeasReportList u))\<rparr>"

definition SendMeasurementReport :: "nat \<Rightarrow> ue_st \<Rightarrow> ue_st res" where
  "SendMeasurementReport measId st =
     res_bind (entry_of (vc_measIdList (fst st)) measId) (\<lambda>mi.
     res_bind (entry_of (vc_reportConfigList (fst st)) (mi_reportConfigId mi)) (\<lambda>rc.
       case map_of (m_varMeasReportList (fst st)) measId of
         None \<Rightarrow> Inr st
       | Some r \<Rightarrow>
           res_bind (make_report measId rc r (fst st)) (\<lambda>msg.
           res_bind (interval_ms (rc_reportInterval rc)) (\<lambda>ms.
           res_bind (sched (ms * 1000000) (Ev_SendMeasurementReport measId)
               (\<lambda>eid. upd_report measId (\<lambda>r. r\<lparr>vr_numberOfReportsSent := (vr_numberOfReportsSent r + 1) mod 2 ^ 32,
                                               vr_periodicReportTimer := eid\<rparr>))
               (cancel_id (vr_periodicReportTimer r) st)) (\<lambda>st1.
             Inr (on_world (\<lambda>u. u\<lparr>ue_reports := ue_reports u @ [msg]\<rparr>) st1))))))"

definition no_report :: var_meas_report where
  "no_report = \<lparr>vr_cellsTriggeredList = [], vr_numberOfReportsSent = 0, vr_periodicReportTimer = EventId\<rparr>"

definition VarMeasReportListAdd :: "nat \<Rightarrow> nat list \<Rightarrow> ue_st \<Rightarrow> ue_st res" where
  "VarMeasReportListAdd measId cells st =
     abort_if (cells = []) MissingEntry
       (let r = (case map_of (m_varMeasReportList (fst st)) measId of None \<Rightarrow> no_report | Some r \<Rightarrow> r);
            r' = r\<lparr>vr_cellsTriggeredList := fold insort_insert cells (vr_cellsTriggeredList r)\<rparr>;
            st1 = on_world (\<lambda>u. u\<lparr>m_varMeasReportList := smap_upd measId r' (m_varMeasReportList u)\<rparr>) st
        in res_bind (if IsPending (snd st1) (vr_periodicReportTimer r') then Inr st1
             else sched 1000 (Ev_SendMeasurementReport measId)
               (\<lambda>eid. upd_report measId (\<lambda>r. r\<lparr>vr_numberOfReportsSent := 0, vr_periodicReportTimer := eid\<rparr>)) st1)
             (pop_trigger Entering measId cells))"

definition VarMeasReportListErase :: "nat \<Rightarrow> nat list \<Rightarrow> bool \<Rightarrow> ue_st \<Rightarrow> ue_st res" where
  "VarMeasReportListErase measId cells reportOnLeave st =
     abort_if (cells = []) MissingEntry
       (res_bind (entry_of (m_varMeasReportList (fst st)) measId) (\<lambda>_.
        let st1 = on_world (upd_report measId (\<lambda>r.
              r\<lparr>vr_cellsTriggeredList := fold removeAll cells (vr_cellsTriggeredList r)\<rparr>)) st
        in res_bind (if reportOnLeave then SendMeasurementReport measId st1 else Inr st1) (\<lambda>st2.
           res_bind (entry_of (m_varMeasReportList (fst st2)) measId) (\<lambda>r.
             pop_trigger Leaving measId cells
               (if vr_cellsTriggeredList r = []
                then on_world (\<lambda>u. u\<lparr>m_varMeasReportList := smap_del measId (m_varMeasReportList u)\<rparr>)
                       (cancel_id (vr_periodicReportTimer r) st2)
                else st2)))))"

definition VarMeasReportListClear :: "nat \<Rightarrow> ue_st \<Rightarrow> ue_st res" where
  "VarMeasReportListClear measId st =
     res_bind (CancelEnteringTrigger measId
       (case map_of (m_varMeasReportList (fst st)) measId of
          None \<Rightarrow> st
        | Some r \<Rightarrow> on_world (\<lambda>u. u\<lparr>m_varMeasReportList := smap_del measId (m_varMeasReportList u)\<rparr>)
                      (cancel_id (vr_periodicReportTimer r) st)))
       (CancelLeavingTrigger measId)"

section \<open>Measured values\<close>

definition SaveUeMeasurements :: "nat \<Rightarrow> double \<Rightarrow> double option \<Rightarrow> bool \<Rightarrow> nat \<Rightarrow> ue_rrc \<Rightarrow> ue_rrc res" where
  "SaveUeMeasurements c rsrp rsrq useLayer3Filtering componentCarrierId u =
     (case map_of (m_storedMeasValues u) c of
        Some v \<Rightarrow>
          (let v' = (if useLayer3Filtering
               then v\<lparr>mv_rsrp := (1 - vc_aRsrp u) * mv_rsrp v + vc_aRsrp u * rsrp,
                      mv_rsrq := (case mv_rsrq v of
                          None \<Rightarrow> rsrq
                        | Some x \<Rightarrow> map_option (\<lambda>y. (1 - vc_aRsrq u) * x + vc_aRsrq u * y) rsrq)\<rparr>
               else v\<lparr>mv_rsrp := rsrp, mv_rsrq := rsrq\<rparr>)
           in Inr (u\<lparr>m_storedMeasValues := smap_upd c v' (m_storedMeasValues u)\<rparr>))
      | None \<Rightarrow>
          abort_if (length (ue_carriers u) \<le> componentCarrierId) IndexOutOfRange
            (Inr (u\<lparr>m_storedMeasValues := smap_upd c
               \<lparr>mv_rsrp = rsrp, mv_rsrq = rsrq, mv_carrierFreq = fst (ue_carriers u ! componentCarrierId)\<rparr>
               (m_storedMeasValues u)\<rparr>)))"

text \<open>\<open>m_storedMeasValues[c]\<close> creates a missing entry, with zeros.\<close>

definition zero_values :: meas_values where
  "zero_values = \<lparr>mv_rsrp = 0, mv_rsrq = Some 0, mv_carrierFreq = 0\<rparr>"

definition touch_stored :: "nat \<Rightarrow> ue_rrc \<Rightarrow> ue_rrc" where
  "touch_stored c u =
     (if map_of (m_storedMeasValues u) c = None
      then u\<lparr>m_storedMeasValues := smap_upd c zero_values (m_storedMeasValues u)\<rparr> else u)"

definition stored_value :: "nat \<Rightarrow> ue_rrc \<Rightarrow> meas_values" where
  "stored_value c u = smap_get zero_values (m_storedMeasValues u) c"

section \<open>Triggering of reports\<close>

text \<open>A comparison with something that is not a number is false.\<close>

definition holds :: "double option \<Rightarrow> (double \<Rightarrow> bool) \<Rightarrow> bool" where
  "holds x P = (case x of None \<Rightarrow> False | Some m \<Rightarrow> P m)"

definition threshold_value :: "meas_quantity \<Rightarrow> threshold_eutra \<Rightarrow> double res" where
  "threshold_value q th =
     abort_if (th_choice th \<noteq> q) Unsupported
       (case q of RSRP \<Rightarrow> RsrpRange2Dbm (th_range th) | RSRQ \<Rightarrow> RsrqRange2Db (th_range th))"

text \<open>The last carrier on the frequency, 0 when there is none.\<close>

definition serving_cell :: "nat \<Rightarrow> ue_rrc \<Rightarrow> nat" where
  "serving_cell freq u = fold (\<lambda>(arfcn, c) acc. if arfcn = freq then c else acc) (ue_carriers u) 0"

text \<open>The cells an evaluation found to enter and to leave.\<close>

type_synonym concerned = "nat list \<times> nat list"

definition has_triggered :: "var_meas_report option \<Rightarrow> nat \<Rightarrow> bool" where
  "has_triggered r c = (case r of None \<Rightarrow> False | Some r \<Rightarrow> c \<in> set (vr_cellsTriggeredList r))"

text \<open>
  Events A1 and A2 watch the serving cell. \<open>leaving\<close> is the cell the code puts on the list of leaving cells: the
  code for A1 takes \<open>m_cellId\<close> there, not the serving cell on the frequency.
\<close>

definition serving_event ::
  "bool \<Rightarrow> bool \<Rightarrow> nat \<Rightarrow> nat \<Rightarrow> var_meas_report option \<Rightarrow> nat \<Rightarrow> nat \<Rightarrow> ue_st \<Rightarrow> (concerned \<times> ue_st) res" where
  "serving_event entryCond leavingCond serving leaving r ttt measId st =
     res_bind (if entryCond then abort_if (r \<noteq> None \<and> \<not> has_triggered r serving) MissingEntry (Inr st)
               else if 0 < ttt then CancelEnteringTrigger measId st else Inr st) (\<lambda>st1.
     res_bind (if leavingCond then abort_if (r \<noteq> None \<and> \<not> has_triggered r leaving) MissingEntry (Inr st1)
               else if 0 < ttt then CancelLeavingTrigger measId st1 else Inr st1) (\<lambda>st2.
       Inr ((if entryCond \<and> r = None then [serving] else [],
             if leavingCond \<and> r \<noteq> None then [leaving] else []), st2)))"

definition eval_A1 :: "report_config \<Rightarrow> nat \<Rightarrow> var_meas_report option \<Rightarrow> nat \<Rightarrow> ue_st \<Rightarrow> (concerned \<times> ue_st) res" where
  "eval_A1 rc serving r measId st =
     res_bind (IeValue2ActualHysteresis (rc_hysteresis rc)) (\<lambda>hys.
     res_bind (threshold_value (rc_triggerQuantity rc) (rc_threshold1 rc)) (\<lambda>thresh.
       let ms = value_of (rc_triggerQuantity rc) (stored_value serving (fst st)) in
       serving_event (holds ms (\<lambda>m. m - hys > thresh)) (holds ms (\<lambda>m. m + hys < thresh))
         serving (ue_cellId (fst st)) r (rc_timeToTrigger rc) measId (on_world (touch_stored serving) st)))"

definition eval_A2 :: "report_config \<Rightarrow> nat \<Rightarrow> var_meas_report option \<Rightarrow> nat \<Rightarrow> ue_st \<Rightarrow> (concerned \<times> ue_st) res" where
  "eval_A2 rc serving r measId st =
     res_bind (IeValue2ActualHysteresis (rc_hysteresis rc)) (\<lambda>hys.
     res_bind (threshold_value (rc_triggerQuantity rc) (rc_threshold1 rc)) (\<lambda>thresh.
       let ms = value_of (rc_triggerQuantity rc) (stored_value serving (fst st)) in
       serving_event (holds ms (\<lambda>m. m + hys < thresh)) (holds ms (\<lambda>m. m - hys > thresh))
         serving serving r (rc_timeToTrigger rc) measId (on_world (touch_stored serving) st)))"

text \<open>One neighbour under event A3 or A4.\<close>

definition neighbour_event ::
  "bool \<Rightarrow> bool \<Rightarrow> bool \<Rightarrow> nat \<Rightarrow> nat \<Rightarrow> nat \<Rightarrow> concerned \<times> ue_st \<Rightarrow> (concerned \<times> ue_st) res" where
  "neighbour_event entryCond leavingCond hasTriggered ttt measId c x =
     (case x of ((en, lv), st) \<Rightarrow>
       res_bind (if \<not> entryCond \<and> 0 < ttt then CancelEnteringTrigger_cell measId c st else Inr st) (\<lambda>st1.
       res_bind (if \<not> leavingCond \<and> 0 < ttt then CancelLeavingTrigger_cell measId c st1 else Inr st1) (\<lambda>st2.
         Inr ((if entryCond \<and> \<not> hasTriggered then en @ [c] else en,
               if leavingCond \<and> hasTriggered then lv @ [c] else lv), st2))))"

definition eval_A3 :: "report_config \<Rightarrow> meas_object \<Rightarrow> var_meas_report option \<Rightarrow> nat \<Rightarrow> ue_st \<Rightarrow> (concerned \<times> ue_st) res" where
  "eval_A3 rc mo r measId st =
     res_bind (IeValue2ActualA3Offset (rc_a3Offset rc)) (\<lambda>off.
     res_bind (IeValue2ActualHysteresis (rc_hysteresis rc)) (\<lambda>hys.
       let q = rc_triggerQuantity rc;
           pcell = ue_cellId (fst st);
           mp = value_of q (stored_value pcell (fst st));
           ofn = of_int (mo_offsetFreq mo);
           ofp = of_int (mo_offsetFreq mo);
           st1 = on_world (touch_stored pcell) st
       in abort_if (th_choice (rc_threshold1 rc) \<noteq> q) Unsupported
         (res_fold (\<lambda>(c, v) x.
             if c = pcell \<or> mv_carrierFreq v \<noteq> mo_carrierFreq mo then Inr x
             else (let mn = value_of q v in
               neighbour_event
                 (holds mp (\<lambda>p. holds mn (\<lambda>n. n + ofn - hys > p + ofp + off)))
                 (holds mp (\<lambda>p. holds mn (\<lambda>n. n + ofn + hys < p + ofp + off)))
                 (has_triggered r c) (rc_timeToTrigger rc) measId c x))
           (m_storedMeasValues (fst st1)) (([], []), st1))))"

definition eval_A4 :: "report_config \<Rightarrow> meas_object \<Rightarrow> var_meas_report option \<Rightarrow> nat \<Rightarrow> ue_st \<Rightarrow> (concerned \<times> ue_st) res" where
  "eval_A4 rc mo r measId st =
     res_bind (IeValue2ActualHysteresis (rc_hysteresis rc)) (\<lambda>hys.
     res_bind (threshold_value (rc_triggerQuantity rc) (rc_threshold1 rc)) (\<lambda>thresh.
       let ofn = of_int (mo_offsetFreq mo) in
       res_fold (\<lambda>(c, v) x.
           if c = ue_cellId (fst st) then Inr x
           else (let mn = value_of (rc_triggerQuantity rc) v in
             neighbour_event (holds mn (\<lambda>n. n + ofn - hys > thresh)) (holds mn (\<lambda>n. n + ofn + hys < thresh))
               (has_triggered r c) (rc_timeToTrigger rc) measId c x))
         (m_storedMeasValues (fst st)) (([], []), st)))"

text \<open>
  Event A5. The first part finds the entering cells, the second, for a measurement already reported, the
  leaving ones: all reported cells when the serving cell is good again, otherwise those that became weak.
\<close>

definition A5_enter ::
  "bool \<Rightarrow> (meas_values \<Rightarrow> bool) \<Rightarrow> nat \<Rightarrow> var_meas_report option \<Rightarrow> nat \<Rightarrow> ue_st \<Rightarrow> (nat list \<times> ue_st) res" where
  "A5_enter cond1 cond2 ttt r measId st =
     (if cond1
      then res_fold (\<lambda>(c, v) (en, st).
          if c = ue_cellId (fst st) then Inr (en, st)
          else if cond2 v then Inr (if has_triggered r c then en else en @ [c], st)
          else if 0 < ttt then res_bind (CancelEnteringTrigger_cell measId c st) (\<lambda>st'. Inr (en, st'))
          else Inr (en, st))
        (m_storedMeasValues (fst st)) ([], st)
      else if 0 < ttt then res_bind (CancelEnteringTrigger measId st) (\<lambda>st'. Inr ([], st'))
      else Inr ([], st))"

definition A5_leave ::
  "bool \<Rightarrow> (meas_values \<Rightarrow> bool) \<Rightarrow> nat \<Rightarrow> var_meas_report option \<Rightarrow> nat \<Rightarrow> ue_st \<Rightarrow> (nat list \<times> ue_st) res" where
  "A5_leave cond1 cond2 ttt r measId st =
     (if r = None then Inr ([], st)
      else if cond1
      then res_fold (\<lambda>(c, v) (lv, st).
          if c = ue_cellId (fst st) \<or> \<not> has_triggered r c then Inr (lv, st)
          else if 0 < ttt \<and> \<not> cond2 v
          then res_bind (CancelLeavingTrigger_cell measId c st) (\<lambda>st'. Inr (lv @ [c], st'))
          else Inr (lv @ [c], st))
        (m_storedMeasValues (fst st)) ([], st)
      else res_bind (if 0 < ttt then CancelLeavingTrigger measId st else Inr st) (\<lambda>st1.
        res_fold (\<lambda>(c, v) (lv, st).
          if c = ue_cellId (fst st) \<or> \<not> has_triggered r c then Inr (lv, st)
          else Inr (if cond2 v then lv @ [c] else lv, st))
        (m_storedMeasValues (fst st1)) ([], st1)))"

definition eval_A5 :: "report_config \<Rightarrow> meas_object \<Rightarrow> var_meas_report option \<Rightarrow> nat \<Rightarrow> ue_st \<Rightarrow> (concerned \<times> ue_st) res" where
  "eval_A5 rc mo r measId st =
     res_bind (IeValue2ActualHysteresis (rc_hysteresis rc)) (\<lambda>hys.
     res_bind (threshold_value (rc_triggerQuantity rc) (rc_threshold1 rc)) (\<lambda>thresh1.
     res_bind (threshold_value (rc_triggerQuantity rc) (rc_threshold2 rc)) (\<lambda>thresh2.
       let q = rc_triggerQuantity rc;
           pcell = ue_cellId (fst st);
           mp = value_of q (stored_value pcell (fst st));
           ofn = of_int (mo_offsetFreq mo);
           ttt = rc_timeToTrigger rc
       in res_bind (A5_enter (holds mp (\<lambda>p. p + hys < thresh1))
              (\<lambda>v. holds (value_of q v) (\<lambda>n. n + ofn - hys > thresh2)) ttt r measId (on_world (touch_stored pcell) st)) (\<lambda>(en, st1).
          res_bind (A5_leave (holds mp (\<lambda>p. p - hys > thresh1))
              (\<lambda>v. holds (value_of q v) (\<lambda>n. n + ofn + hys < thresh2)) ttt r measId st1) (\<lambda>(lv, st2).
            Inr ((en, lv), st2))))))"

definition eval_event ::
  "report_config \<Rightarrow> meas_object \<Rightarrow> nat \<Rightarrow> var_meas_report option \<Rightarrow> nat \<Rightarrow> ue_st \<Rightarrow> (concerned \<times> ue_st) res" where
  "eval_event rc mo serving r measId st =
     (case rc_eventId rc of
        EVENT_A1 \<Rightarrow> eval_A1 rc serving r measId st
      | EVENT_A2 \<Rightarrow> eval_A2 rc serving r measId st
      | EVENT_A3 \<Rightarrow> eval_A3 rc mo r measId st
      | EVENT_A4 \<Rightarrow> eval_A4 rc mo r measId st
      | EVENT_A5 \<Rightarrow> eval_A5 rc mo r measId st)"

text \<open>Put a trigger at the end of a queue; its timer runs the method with the cells of now.\<close>

definition push_trigger :: "trigger_queue \<Rightarrow> nat \<Rightarrow> nat list \<Rightarrow> nat \<Rightarrow> meas_event \<Rightarrow> ue_st \<Rightarrow> ue_st res" where
  "push_trigger q measId cells ttt ev st =
     res_bind (entry_of (queue_of q (fst st)) measId) (\<lambda>ps.
       sched (int ttt * 1000000) ev
         (\<lambda>eid. upd_queue q measId (ps @ [\<lparr>pt_measId = measId, pt_concernedCells = cells, pt_timer = eid\<rparr>])) st)"

definition apply_entering :: "report_config \<Rightarrow> nat \<Rightarrow> nat list \<Rightarrow> ue_st \<Rightarrow> ue_st res" where
  "apply_entering rc measId en st =
     (if en = [] then Inr st
      else if rc_timeToTrigger rc = 0 then VarMeasReportListAdd measId en st
      else push_trigger Entering measId en (rc_timeToTrigger rc) (Ev_VarMeasReportListAdd measId en) st)"

definition apply_leaving :: "report_config \<Rightarrow> nat \<Rightarrow> nat list \<Rightarrow> ue_st \<Rightarrow> ue_st res" where
  "apply_leaving rc measId lv st =
     (if lv = [] then Inr st
      else (let onLeave = (rc_eventId rc = EVENT_A3 \<and> rc_reportOnLeave rc) in
        if rc_timeToTrigger rc = 0 then VarMeasReportListErase measId lv onLeave st
        else push_trigger Leaving measId lv (rc_timeToTrigger rc) (Ev_VarMeasReportListErase measId lv onLeave) st))"

definition MeasurementReportTriggering :: "nat \<Rightarrow> ue_st \<Rightarrow> ue_st res" where
  "MeasurementReportTriggering measId st =
     res_bind (entry_of (vc_measIdList (fst st)) measId) (\<lambda>mi.
     abort_if (mi_measId mi \<noteq> measId) MissingEntry
     (res_bind (entry_of (vc_reportConfigList (fst st)) (mi_reportConfigId mi)) (\<lambda>rc.
      res_bind (entry_of (vc_measObjectList (fst st)) (mi_measObjectId mi)) (\<lambda>mo.
      abort_if (rc_triggerType rc \<noteq> EVENT) Unsupported
        (let serving = serving_cell (mo_carrierFreq mo) (fst st) in
         if serving = 0 then Inr st
         else res_bind (eval_event rc mo serving (map_of (m_varMeasReportList (fst st)) measId) measId st) (\<lambda>((en, lv), st1).
              res_bind (apply_entering rc measId en st1) (apply_leaving rc measId lv)))))))"

text \<open>The strongest cell above the minimum that has not been tried yet.\<close>

fun strongest_untried :: "nat list \<Rightarrow> nat \<times> double option \<Rightarrow> (nat \<times> meas_values) list \<Rightarrow> nat" where
  "strongest_untried tried (best, mx) [] = best"
| "strongest_untried tried (best, mx) ((c, v) # vs) =
     strongest_untried tried
       (if (case mx of None \<Rightarrow> True | Some x \<Rightarrow> x < mv_rsrp v) \<and> mv_rsrp v > - 140 \<and> c \<notin> set tried
        then (c, Some (mv_rsrp v)) else (best, mx)) vs"

definition SynchronizeToStrongestCell :: "ue_rrc \<Rightarrow> ue_rrc" where
  "SynchronizeToStrongestCell u =
     (let c = strongest_untried (ue_acceptableCell u) (0, None) (m_storedMeasValues u) in
      if c = 0 then u
      else u\<lparr>ue_phy_calls := ue_phy_calls u @ [SynchronizeWithGnb c (ue_initDlArfcn u)],
             ue_state := IDLE_WAIT_MIB_SIB1\<rparr>)"

definition DoReportUeMeasurements :: "nat \<Rightarrow> (nat \<times> double \<times> double option) list \<Rightarrow> ue_st \<Rightarrow> ue_st res" where
  "DoReportUeMeasurements componentCarrierId ms st =
     res_bind (res_fold (\<lambda>(c, rsrp, rsrq) u.
          SaveUeMeasurements c rsrp rsrq (ue_state u = CONNECTED_NORMALLY) componentCarrierId u) ms (fst st)) (\<lambda>u.
       if ue_state u = IDLE_CELL_SEARCH then Inr (SynchronizeToStrongestCell u, snd st)
       else if ms = [] \<or> componentCarrierId = 0
       then res_fold (\<lambda>(measId, _). MeasurementReportTriggering measId) (vc_measIdList u) (u, snd st)
       else Inr (u, snd st))"

section \<open>Configuration\<close>

text \<open>
  The lists of a configuration are worked off in this order: objects, report configurations, quantities, then
  identities. Whatever changes under an identity clears its report and its waiting triggers.
\<close>

definition clear_where :: "(meas_id \<Rightarrow> bool) \<Rightarrow> ue_st \<Rightarrow> ue_st res" where
  "clear_where P st =
     res_fold (\<lambda>(k, mi) st. if P mi then VarMeasReportListClear (mi_measId mi) st else Inr st)
       (vc_measIdList (fst st)) st"

definition remove_where :: "(meas_id \<Rightarrow> bool) \<Rightarrow> ue_st \<Rightarrow> ue_st res" where
  "remove_where P st =
     res_fold (\<lambda>(k, mi) st.
         if P mi
         then abort_if (mi_measId mi \<noteq> k) MissingEntry
           (VarMeasReportListClear (mi_measId mi)
             (on_world (\<lambda>u. u\<lparr>vc_measIdList := smap_del k (vc_measIdList u)\<rparr>) st))
         else Inr st)
       (vc_measIdList (fst st)) st"

definition remove_object :: "nat \<Rightarrow> ue_st \<Rightarrow> ue_st res" where
  "remove_object i st =
     remove_where (\<lambda>mi. mi_measObjectId mi = i)
       (on_world (\<lambda>u. u\<lparr>vc_measObjectList := smap_del i (vc_measObjectList u)\<rparr>) st)"

text \<open>The assertion on the list of blacklisted cells to remove tests another list.\<close>

definition add_object :: "nat \<times> meas_object \<Rightarrow> ue_st \<Rightarrow> ue_st res" where
  "add_object im st =
     (case im of (i, mo) \<Rightarrow>
       abort_if (mo_cellsToRemoveList mo \<noteq> [] \<or> mo_cellsToAddModList mo \<noteq> [] \<or> mo_cellsToRemoveList mo \<noteq> [] \<or>
           mo_blackCellsToAddModList mo \<noteq> [] \<or> mo_haveCellForWhichToReportCGI mo) Unsupported
         (let st1 = on_world (\<lambda>u. u\<lparr>vc_measObjectList := smap_upd i mo (vc_measObjectList u)\<rparr>) st in
          if map_of (vc_measObjectList (fst st)) i \<noteq> None then clear_where (\<lambda>mi. mi_measObjectId mi = i) st1
          else Inr st1))"

definition remove_report_config :: "nat \<Rightarrow> ue_st \<Rightarrow> ue_st res" where
  "remove_report_config i st =
     remove_where (\<lambda>mi. mi_reportConfigId mi = i)
       (on_world (\<lambda>u. u\<lparr>vc_reportConfigList := smap_del i (vc_reportConfigList u)\<rparr>) st)"

definition add_report_config :: "nat \<times> report_config \<Rightarrow> ue_st \<Rightarrow> ue_st res" where
  "add_report_config ic st =
     (case ic of (i, rc) \<Rightarrow>
       abort_if (rc_triggerType rc \<noteq> EVENT) Unsupported
         (let st1 = on_world (\<lambda>u. u\<lparr>vc_reportConfigList := smap_upd i rc (vc_reportConfigList u)\<rparr>) st in
          if map_of (vc_reportConfigList (fst st)) i \<noteq> None then clear_where (\<lambda>mi. mi_reportConfigId mi = i) st1
          else Inr st1))"

definition set_quantity_config :: "nat \<times> nat \<Rightarrow> ue_st \<Rightarrow> ue_st res" where
  "set_quantity_config qc st =
     clear_where (\<lambda>_. True)
       (on_world (\<lambda>u. u\<lparr>vc_quantityConfig := qc,
            ue_phy_calls := ue_phy_calls u @ map (\<lambda>i. SetRsrpFilterCoefficient i (fst qc)) [0..<length (ue_carriers u)],
            vc_aRsrp := (1 / 2) powr (real (fst qc) / 4), vc_aRsrq := (1 / 2) powr (real (snd qc) / 4)\<rparr>) st)"

definition remove_meas_id :: "nat \<Rightarrow> ue_st \<Rightarrow> ue_st res" where
  "remove_meas_id i st =
     res_bind (VarMeasReportListClear i (on_world (\<lambda>u. u\<lparr>vc_measIdList := smap_del i (vc_measIdList u)\<rparr>) st)) (\<lambda>st1.
       Inr (on_world (\<lambda>u. u\<lparr>m_enteringTriggerQueue := smap_del i (m_enteringTriggerQueue u),
                            m_leavingTriggerQueue := smap_del i (m_leavingTriggerQueue u)\<rparr>) st1))"

definition add_meas_id :: "meas_id \<Rightarrow> ue_st \<Rightarrow> ue_st res" where
  "add_meas_id mi st =
     res_bind (entry_of (vc_measObjectList (fst st)) (mi_measObjectId mi)) (\<lambda>_.
     res_bind (entry_of (vc_reportConfigList (fst st)) (mi_reportConfigId mi)) (\<lambda>rc.
       let i = mi_measId mi;
           st1 = on_world (\<lambda>u. u\<lparr>vc_measIdList := smap_upd i mi (vc_measIdList u)\<rparr>) st;
           st2 = (case map_of (m_varMeasReportList (fst st1)) i of
               None \<Rightarrow> st1
             | Some r \<Rightarrow> on_world (\<lambda>u. u\<lparr>m_varMeasReportList := smap_del i (m_varMeasReportList u)\<rparr>)
                           (cancel_id (vr_periodicReportTimer r) st1))
       in abort_if (rc_triggerType rc = PERIODICAL) Unsupported
            (Inr (on_world (\<lambda>u. u\<lparr>m_enteringTriggerQueue := smap_upd i [] (m_enteringTriggerQueue u),
                                  m_leavingTriggerQueue := smap_upd i [] (m_leavingTriggerQueue u)\<rparr>) st2))))"

definition ApplyMeasConfig :: "meas_config \<Rightarrow> ue_st \<Rightarrow> ue_st res" where
  "ApplyMeasConfig mc st =
     res_bind (res_fold remove_object (mc_measObjectToRemoveList mc) st) (\<lambda>st.
     res_bind (res_fold add_object (mc_measObjectToAddModList mc) st) (\<lambda>st.
     res_bind (res_fold remove_report_config (mc_reportConfigToRemoveList mc) st) (\<lambda>st.
     res_bind (res_fold add_report_config (mc_reportConfigToAddModList mc) st) (\<lambda>st.
     res_bind (case mc_quantityConfig mc of None \<Rightarrow> Inr st | Some qc \<Rightarrow> set_quantity_config qc st) (\<lambda>st.
     res_bind (res_fold remove_meas_id (mc_measIdToRemoveList mc) st) (\<lambda>st.
     res_bind (res_fold add_meas_id (mc_measIdToAddModList mc) st) (\<lambda>st.
       abort_if (mc_haveMeasGapConfig mc \<or> mc_haveSmeasure mc \<or> mc_haveSpeedStatePars mc) Unsupported (Inr st))))))))"

definition ue_invoke :: "meas_event \<Rightarrow> ue_st \<Rightarrow> ue_st res" where
  "ue_invoke ev =
     (case ev of
        Ev_VarMeasReportListAdd measId cells \<Rightarrow> VarMeasReportListAdd measId cells
      | Ev_VarMeasReportListErase measId cells onLeave \<Rightarrow> VarMeasReportListErase measId cells onLeave
      | Ev_SendMeasurementReport measId \<Rightarrow> SendMeasurementReport measId)"

section \<open>The engine under the methods\<close>

lemma SendMeasurementReport_safe: "engine_safe (SendMeasurementReport measId)"
  by (rule engine_safe_extends, unfold SendMeasurementReport_def,
      (rule extends_bind | rule extends_query | rule extends_rules | (simp; fail))+)

lemma cancel_cell_engine:
  "cancel_cell measId c ps st = Inr (ps', st') \<Longrightarrow> engine_ext (snd st) (snd st') \<and> fst st' = fst st"
proof (induction measId c ps st arbitrary: ps' st' rule: cancel_cell.induct)
  case (2 measId c p ps st)
  from "2.prems" obtain cs where cs: "\<not> pt_measId p \<noteq> measId" "erase_cell c (pt_concernedCells p) = Inr cs"
    and rest: "(if cs = [] then cancel_cell measId c ps (cancel_id (pt_timer p) st)
       else res_bind (cancel_cell measId c ps st) (\<lambda>(ps', st'). Inr (p\<lparr>pt_concernedCells := cs\<rparr> # ps', st'))) = Inr (ps', st')"
    by (auto simp: abort_if_def split: if_splits elim!: res_bind_eq_InrE)
  show ?case
  proof (cases "cs = []")
    case True
    with rest have "cancel_cell measId c ps (cancel_id (pt_timer p) st) = Inr (ps', st')" by simp
    from "2.IH"(1) [OF True this]
    show ?thesis using engine_ext_trans [OF engine_ext_cancel_id [of "snd st" st "pt_timer p"]]
      by (simp add: cancel_id_def)
  next
    case False
    with rest obtain qs where "cancel_cell measId c ps st = Inr (qs, st')"
      by (auto elim!: res_bind_eq_InrE)
    from "2.IH"(2) [OF False this] show ?thesis .
  qed
qed simp

lemma CancelTrigger_safe: "engine_safe (CancelTrigger q measId)"
  by (rule engine_safe_unfold [OF CancelTrigger_def]) (intro engine_intro)

lemma CancelTrigger_cell_safe: "engine_safe (CancelTrigger_cell q measId c)"
proof (rule engine_safeI)
  fix st st' :: ue_st
  assume "CancelTrigger_cell q measId c st = Inr st'"
  then obtain ps ps' st1 where "cancel_cell measId c ps st = Inr (ps', st1)" and "snd st' = snd st1"
    by (auto simp: CancelTrigger_cell_def on_world_def split: option.splits elim!: res_bind_eq_InrE)
  with cancel_cell_engine show "engine_ext (snd st) (snd st')" by metis
qed

lemma pop_trigger_safe: "engine_safe (pop_trigger q measId cells)"
  by (rule engine_safe_extends, unfold pop_trigger_def Let_def,
      (rule extends_bind | rule extends_query | rule extends_rules | rule extends_call [OF engine_safe_fold [OF CancelTrigger_cell_safe]] | (simp; fail))+)

lemma VarMeasReportListAdd_safe: "engine_safe (VarMeasReportListAdd measId cells)"
  by (rule engine_safe_extends, unfold VarMeasReportListAdd_def Let_def,
      (rule extends_bind | rule extends_query | rule extends_rules | rule extends_call [OF pop_trigger_safe] | (simp; fail))+)

lemma VarMeasReportListErase_safe: "engine_safe (VarMeasReportListErase measId cells l)"
  by (rule engine_safe_extends, unfold VarMeasReportListErase_def Let_def,
      (rule extends_bind | rule extends_query | rule extends_rules | rule extends_call [OF pop_trigger_safe] extends_call [OF SendMeasurementReport_safe] | (simp; fail))+)

lemma ue_invoke_safe: "engine_safe (ue_invoke ev)"
  by (cases ev) (simp_all add: ue_invoke_def VarMeasReportListAdd_safe VarMeasReportListErase_safe
      SendMeasurementReport_safe)

text \<open>The timers of a UE may run on the event loop.\<close>

interpretation ue: event_handler ue_invoke
  by (rule engine_safe_handler) (rule ue_invoke_safe)

end
