(* ===== verification/Ue_Reporting.thy ===== *)
theory Ue_Reporting
  imports Ue_Measurements
begin

text \<open>
  What the measurement reporting of a UE guarantees: the cells reported for an event A3 or A4 without time to
  trigger follow the hysteresis rule, a report lists the strongest of them, and every operation keeps the
  configuration consistent (no identity without its object, its report configuration and its queues).
\<close>

section \<open>Loops over the measured cells\<close>

lemma set_fold_insort_insert [simp]: "set (fold insort_insert xs ys) = set xs \<union> set ys"
  by (induction xs arbitrary: ys) (auto simp: set_insort_insert)

lemma set_fold_removeAll [simp]: "set (fold removeAll xs ys) = set ys - set xs"
  by (induction xs arbitrary: ys) auto

lemma neighbour_event_zero [simp]:
  "neighbour_event e l h 0 measId c ((en, lv), st) =
     Inr ((if e \<and> \<not> h then en @ [c] else en, if l \<and> h then lv @ [c] else lv), st)"
  by (simp add: neighbour_event_def)

lemma neighbour_loop:
  "res_fold (\<lambda>(c, v) x. if skip c v then Inr x else neighbour_event (E v) (L v) (H c) 0 measId c x) vs ((en, lv), st) =
     Inr ((en @ map fst (filter (\<lambda>(c, v). \<not> skip c v \<and> E v \<and> \<not> H c) vs),
           lv @ map fst (filter (\<lambda>(c, v). \<not> skip c v \<and> L v \<and> H c) vs)), st)"
proof (induction vs arbitrary: en lv)
  case (Cons a vs)
  obtain c v where [simp]: "a = (c, v)" by fastforce
  show ?case by (simp add: Cons.IH)
qed simp

lemma on_world_touched: "map_of (m_storedMeasValues (fst st)) c = Some v \<Longrightarrow> on_world (touch_stored c) st = st"
  by (simp add: on_world_def touch_stored_def)

text \<open>The conditions of the events A3 and A4 for a measured neighbour.\<close>

definition a3_better :: "report_config \<Rightarrow> meas_values \<Rightarrow> meas_values \<Rightarrow> bool" where
  "a3_better rc p n =
     holds (value_of (rc_triggerQuantity rc) p) (\<lambda>p. holds (value_of (rc_triggerQuantity rc) n)
       (\<lambda>n. n - real (rc_hysteresis rc) / 2 > p + of_int (rc_a3Offset rc) / 2))"

definition a3_worse :: "report_config \<Rightarrow> meas_values \<Rightarrow> meas_values \<Rightarrow> bool" where
  "a3_worse rc p n =
     holds (value_of (rc_triggerQuantity rc) p) (\<lambda>p. holds (value_of (rc_triggerQuantity rc) n)
       (\<lambda>n. n + real (rc_hysteresis rc) / 2 < p + of_int (rc_a3Offset rc) / 2))"

lemma a3_exclusive: "a3_better rc p n \<Longrightarrow> \<not> a3_worse rc p n"
  by (auto simp: a3_better_def a3_worse_def holds_def split: option.splits)

lemma eval_A3_zero:
  assumes "rc_timeToTrigger rc = 0" and "rc_hysteresis rc \<le> 30" and "- 30 \<le> rc_a3Offset rc" "rc_a3Offset rc \<le> 30"
    and "th_choice (rc_threshold1 rc) = rc_triggerQuantity rc"
    and pc: "map_of (m_storedMeasValues (fst st)) (ue_cellId (fst st)) = Some pv"
  shows "eval_A3 rc mo r measId st =
    Inr ((map fst (filter (\<lambda>(c, v). \<not> (c = ue_cellId (fst st) \<or> mv_carrierFreq v \<noteq> mo_carrierFreq mo) \<and>
             a3_better rc pv v \<and> \<not> has_triggered r c) (m_storedMeasValues (fst st))),
          map fst (filter (\<lambda>(c, v). \<not> (c = ue_cellId (fst st) \<or> mv_carrierFreq v \<noteq> mo_carrierFreq mo) \<and>
             a3_worse rc pv v \<and> has_triggered r c) (m_storedMeasValues (fst st)))), st)"
proof -
  let ?skip = "\<lambda>c v. c = ue_cellId (fst st) \<or> mv_carrierFreq v \<noteq> mo_carrierFreq mo"
  let ?q = "rc_triggerQuantity rc" and ?f = "of_int (mo_offsetFreq mo) :: real"
  have stored: "stored_value (ue_cellId (fst st)) (fst st) = pv"
    using pc by (simp add: stored_value_def smap_get_def)
  have cond: "holds (value_of ?q pv) (\<lambda>p. holds (value_of ?q v) (\<lambda>n. n + ?f - real (rc_hysteresis rc) / 2 > p + ?f + of_int (rc_a3Offset rc) / 2)) =
      a3_better rc pv v"
    "holds (value_of ?q pv) (\<lambda>p. holds (value_of ?q v) (\<lambda>n. n + ?f + real (rc_hysteresis rc) / 2 < p + ?f + of_int (rc_a3Offset rc) / 2)) =
      a3_worse rc pv v" for v
    by (auto simp: a3_better_def a3_worse_def holds_def split: option.splits)
  show ?thesis
    unfolding eval_A3_def a3_offset_value [OF assms(3,4)] hysteresis_value [OF assms(2)] res_bind_Inr Let_def
      stored cond on_world_touched [OF pc] assms(1)
    using assms(5) neighbour_loop [of ?skip "a3_better rc pv" "a3_worse rc pv" "has_triggered r" measId
        "m_storedMeasValues (fst st)" "[]" "[]" st]
    by simp
qed

text \<open>Event A4 looks at the neighbours on every carrier.\<close>

definition a4_better :: "report_config \<Rightarrow> meas_object \<Rightarrow> double \<Rightarrow> meas_values \<Rightarrow> bool" where
  "a4_better rc mo thresh n = holds (value_of (rc_triggerQuantity rc) n)
     (\<lambda>n. n + of_int (mo_offsetFreq mo) - real (rc_hysteresis rc) / 2 > thresh)"

definition a4_worse :: "report_config \<Rightarrow> meas_object \<Rightarrow> double \<Rightarrow> meas_values \<Rightarrow> bool" where
  "a4_worse rc mo thresh n = holds (value_of (rc_triggerQuantity rc) n)
     (\<lambda>n. n + of_int (mo_offsetFreq mo) + real (rc_hysteresis rc) / 2 < thresh)"

lemma a4_exclusive: "a4_better rc mo t n \<Longrightarrow> \<not> a4_worse rc mo t n"
  by (auto simp: a4_better_def a4_worse_def holds_def split: option.splits)

lemma eval_A4_zero:
  assumes "rc_timeToTrigger rc = 0" and "rc_hysteresis rc \<le> 30"
    and "threshold_value (rc_triggerQuantity rc) (rc_threshold1 rc) = Inr thresh"
  shows "eval_A4 rc mo r measId st =
    Inr ((map fst (filter (\<lambda>(c, v). \<not> c = ue_cellId (fst st) \<and>
             a4_better rc mo thresh v \<and> \<not> has_triggered r c) (m_storedMeasValues (fst st))),
          map fst (filter (\<lambda>(c, v). \<not> c = ue_cellId (fst st) \<and>
             a4_worse rc mo thresh v \<and> has_triggered r c) (m_storedMeasValues (fst st)))), st)"
  unfolding eval_A4_def hysteresis_value [OF assms(2)] assms(3) res_bind_Inr Let_def assms(1)
    a4_better_def [symmetric] a4_worse_def [symmetric]
  using neighbour_loop [of "\<lambda>c v. c = ue_cellId (fst st)" "a4_better rc mo thresh" "a4_worse rc mo thresh"
      "has_triggered r" measId "m_storedMeasValues (fst st)" "[]" "[]" st]
  by simp

section \<open>The cells reported\<close>

definition triggered :: "ue_rrc \<Rightarrow> nat \<Rightarrow> nat \<Rightarrow> bool" where
  "triggered u measId = has_triggered (map_of (m_varMeasReportList u) measId)"

text \<open>Nothing but the report of an identity differs.\<close>

definition same_but_report :: "nat \<Rightarrow> ue_rrc \<Rightarrow> ue_rrc \<Rightarrow> bool" where
  "same_but_report measId u u' \<longleftrightarrow>
     u' = u\<lparr>m_varMeasReportList := m_varMeasReportList u'\<rparr> \<and>
     (\<forall>i. i \<noteq> measId \<longrightarrow> map_of (m_varMeasReportList u') i = map_of (m_varMeasReportList u) i)"

lemma triggered_upd_report:
  "(\<And>r. vr_cellsTriggeredList (f r) = vr_cellsTriggeredList r) \<Longrightarrow>
    triggered (upd_report measId f u) measId c = triggered u measId c"
  by (auto simp: triggered_def upd_report_def has_triggered_def split: option.splits)

lemma Add_zero:
  assumes "cells \<noteq> []" and "map_of (m_enteringTriggerQueue u) measId = Some []"
    and "sim_inv sim" and "Suc (m_nextImpl sim) + UID_VALID < 2 ^ 32"
  obtains u' sim' where "VarMeasReportListAdd measId cells (u, sim) = Inr (u', sim')"
    and "\<And>c. triggered u' measId c \<longleftrightarrow> c \<in> set cells \<or> triggered u measId c" and "same_but_report measId u u'"
proof -
  define r where "r = (case map_of (m_varMeasReportList u) measId of None \<Rightarrow> no_report | Some r \<Rightarrow> r)"
  define r' where "r' = r\<lparr>vr_cellsTriggeredList := fold insort_insert cells (vr_cellsTriggeredList r)\<rparr>"
  have timer: "vr_periodicReportTimer r = vr_periodicReportTimer r'" by (simp add: r'_def)
  define st1 where "st1 = on_world (\<lambda>u. u\<lparr>m_varMeasReportList := smap_upd measId r' (m_varMeasReportList u)\<rparr>) (u, sim)"
  have r: "c \<in> set (vr_cellsTriggeredList r) \<longleftrightarrow> triggered u measId c" for c
    by (auto simp: r_def triggered_def has_triggered_def no_report_def split: option.splits)
  have 1: "triggered (fst st1) measId c \<longleftrightarrow> c \<in> set cells \<or> triggered u measId c" for c
    using r [of c] by (simp add: st1_def on_world_def triggered_def [of "m_varMeasReportList_update _ _"] has_triggered_def r'_def)
  have 2: "same_but_report measId u (fst st1)"
    by (auto simp: st1_def on_world_def same_but_report_def)
  have pop: "pop_trigger Entering measId cells st2 = Inr st2"
    if "m_enteringTriggerQueue (fst st2) = m_enteringTriggerQueue u" for st2
    using that assms(2) by (simp add: pop_trigger_def queue_of_def)
  show thesis
  proof (cases "IsPending (snd st1) (vr_periodicReportTimer r')")
    case True
    have "VarMeasReportListAdd measId cells (u, sim) = Inr st1"
      using True assms(1) pop [of st1] unfolding VarMeasReportListAdd_def Let_def fst_conv r_def [symmetric]
      unfolding r'_def [symmetric] st1_def [symmetric] by (simp add: st1_def on_world_def)
    then show thesis using that [of "fst st1" "snd st1"] 1 2 by simp
  next
    case False
    let ?k = "\<lambda>eid. upd_report measId (\<lambda>r. r\<lparr>vr_numberOfReportsSent := 0, vr_periodicReportTimer := eid\<rparr>)"
    have "sim_inv (snd st1)" "Suc (m_nextImpl (snd st1)) + UID_VALID < 2 ^ 32"
      using assms(3,4) by (simp_all add: st1_def)
    then obtain st2 eid where s: "sched 1000 (Ev_SendMeasurementReport measId) ?k st1 = Inr st2"
      and f: "fst st2 = ?k eid (fst st1)"
      using sched_total [of st1 1000 "Ev_SendMeasurementReport measId" ?k] by (metis zero_le_numeral)
    have "m_enteringTriggerQueue (fst st2) = m_enteringTriggerQueue u"
      unfolding f by (simp add: upd_report_def st1_def on_world_def)
    then have "VarMeasReportListAdd measId cells (u, sim) = Inr st2"
      using False assms(1) pop [of st2] s unfolding VarMeasReportListAdd_def Let_def fst_conv r_def [symmetric]
      unfolding r'_def [symmetric] st1_def [symmetric] by simp
    moreover have "triggered (fst st2) measId c \<longleftrightarrow> c \<in> set cells \<or> triggered u measId c" for c
      unfolding f using 1 by (simp add: triggered_upd_report)
    moreover have "same_but_report measId u (fst st2)"
      unfolding f using 2 by (auto simp: same_but_report_def upd_report_def st1_def on_world_def)
    ultimately show thesis using that [of "fst st2" "snd st2"] by simp
  qed
qed

lemma Erase_zero:
  assumes "cells \<noteq> []" and "map_of (m_leavingTriggerQueue u) measId = Some []"
    and "map_of (m_varMeasReportList u) measId \<noteq> None"
  obtains u' sim' where "VarMeasReportListErase measId cells False (u, sim) = Inr (u', sim')"
    and "\<And>c. triggered u' measId c \<longleftrightarrow> triggered u measId c \<and> c \<notin> set cells" and "same_but_report measId u u'"
proof -
  obtain r where r: "map_of (m_varMeasReportList u) measId = Some r" using assms(3) by blast
  define r' where "r' = r\<lparr>vr_cellsTriggeredList := fold removeAll cells (vr_cellsTriggeredList r)\<rparr>"
  define u1 where "u1 = u\<lparr>m_varMeasReportList := smap_upd measId r' (m_varMeasReportList u)\<rparr>"
  define st2 where "st2 = (if vr_cellsTriggeredList r' = []
      then on_world (\<lambda>u. u\<lparr>m_varMeasReportList := smap_del measId (m_varMeasReportList u)\<rparr>)
             (cancel_id (vr_periodicReportTimer r') (u1, sim)) else (u1, sim))"
  have e: "map_of (m_varMeasReportList u1) measId = Some r'" by (simp add: u1_def)
  have up: "on_world (upd_report measId (\<lambda>r. r\<lparr>vr_cellsTriggeredList := fold removeAll cells (vr_cellsTriggeredList r)\<rparr>)) (u, sim) = (u1, sim)"
    using r by (simp add: on_world_def upd_report_def u1_def r'_def)
  have "pop_trigger Leaving measId cells st2 = Inr st2"
    using assms(2) by (simp add: pop_trigger_def queue_of_def st2_def u1_def on_world_def cancel_id_def)
  then have "VarMeasReportListErase measId cells False (u, sim) = Inr st2"
    using assms(1) r up by (simp add: VarMeasReportListErase_def Let_def entry_of_def e flip: st2_def)
  moreover have "triggered (fst st2) measId c \<longleftrightarrow> triggered u measId c \<and> c \<notin> set cells" for c
  proof -
    have "c \<in> set (vr_cellsTriggeredList r') \<longleftrightarrow> triggered u measId c \<and> c \<notin> set cells"
      using r by (auto simp: r'_def triggered_def has_triggered_def)
    then show ?thesis
      by (auto simp: st2_def u1_def triggered_def [of "m_varMeasReportList_update _ _"] has_triggered_def on_world_def cancel_id_def)
  qed
  moreover have "same_but_report measId u (fst st2)"
    by (auto simp: st2_def u1_def same_but_report_def on_world_def cancel_id_def)
  ultimately show thesis using that [of "fst st2" "snd st2"] by simp
qed

text \<open>
  The situation of an evaluation: the identity \<open>measId\<close> with its object and report configuration, a measured
  serving cell on the frequency, no time to trigger, no waiting trigger, and room for one more event.
\<close>

definition evaluates :: "nat \<Rightarrow> report_config \<Rightarrow> meas_object \<Rightarrow> ue_rrc \<Rightarrow> meas_event simulator \<Rightarrow> bool" where
  "evaluates measId rc mo u sim \<longleftrightarrow>
     (\<exists>mi. map_of (vc_measIdList u) measId = Some mi \<and> mi_measId mi = measId \<and>
        map_of (vc_reportConfigList u) (mi_reportConfigId mi) = Some rc \<and>
        map_of (vc_measObjectList u) (mi_measObjectId mi) = Some mo) \<and>
     rc_triggerType rc = EVENT \<and> rc_timeToTrigger rc = 0 \<and> rc_hysteresis rc \<le> 30 \<and>
     serving_cell (mo_carrierFreq mo) u \<noteq> 0 \<and> distinct (map fst (m_storedMeasValues u)) \<and>
     map_of (m_enteringTriggerQueue u) measId = Some [] \<and> map_of (m_leavingTriggerQueue u) measId = Some [] \<and>
     sim_inv sim \<and> Suc (m_nextImpl sim) + UID_VALID < 2 ^ 32"

lemma same_but_report_trans:
  "same_but_report i u u1 \<Longrightarrow> same_but_report i u1 u2 \<Longrightarrow> same_but_report i u u2"
  unfolding same_but_report_def by (metis (no_types, lifting) ue_rrc.surjective ue_rrc.update_convs(15))

lemma same_but_report_queues:
  "same_but_report i u u1 \<Longrightarrow> m_leavingTriggerQueue u1 = m_leavingTriggerQueue u"
  unfolding same_but_report_def by (metis ue_rrc.select_convs(14) ue_rrc.surjective ue_rrc.update_convs(15))

lemma triggering_applies:
  assumes ev: "evaluates measId rc mo u sim"
    and eval: "eval_event rc mo (serving_cell (mo_carrierFreq mo) u) (map_of (m_varMeasReportList u) measId) measId (u, sim) =
      Inr ((en, lv), (u, sim))"
    and en: "\<And>c. c \<in> set en \<Longrightarrow> \<not> triggered u measId c" and lv: "\<And>c. c \<in> set lv \<Longrightarrow> triggered u measId c"
    and silent: "\<not> (rc_eventId rc = EVENT_A3 \<and> rc_reportOnLeave rc)"
  obtains u' sim' where "MeasurementReportTriggering measId (u, sim) = Inr (u', sim')"
    and "same_but_report measId u u'"
    and "\<And>c. triggered u' measId c \<longleftrightarrow> c \<in> set en \<or> triggered u measId c \<and> c \<notin> set lv"
proof -
  from ev obtain mi where mi: "map_of (vc_measIdList u) measId = Some mi" "mi_measId mi = measId"
    "map_of (vc_reportConfigList u) (mi_reportConfigId mi) = Some rc"
    "map_of (vc_measObjectList u) (mi_measObjectId mi) = Some mo"
    by (auto simp: evaluates_def)
  have z: "rc_triggerType rc = EVENT" "rc_timeToTrigger rc = 0" "serving_cell (mo_carrierFreq mo) u \<noteq> 0"
    and q: "map_of (m_enteringTriggerQueue u) measId = Some []" "map_of (m_leavingTriggerQueue u) measId = Some []"
    and sim: "sim_inv sim" "Suc (m_nextImpl sim) + UID_VALID < 2 ^ 32"
    using ev by (simp_all add: evaluates_def)
  have MRT: "MeasurementReportTriggering measId (u, sim) =
      res_bind (apply_entering rc measId en (u, sim)) (apply_leaving rc measId lv)"
    using mi z eval by (simp add: MeasurementReportTriggering_def entry_of_def)
  obtain u1 sim1 where 1: "apply_entering rc measId en (u, sim) = Inr (u1, sim1)" "same_but_report measId u u1"
    "\<And>c. triggered u1 measId c \<longleftrightarrow> c \<in> set en \<or> triggered u measId c"
  proof (cases "en = []")
    case True
    show thesis by (rule that [of u sim]) (simp_all add: apply_entering_def True same_but_report_def)
  next
    case False
    from Add_zero [OF False q(1) sim] obtain u1 sim1 where
      "VarMeasReportListAdd measId en (u, sim) = Inr (u1, sim1)" "same_but_report measId u u1"
      "\<And>c. triggered u1 measId c \<longleftrightarrow> c \<in> set en \<or> triggered u measId c"
      by metis
    then show thesis by (intro that [of u1 sim1]) (simp_all add: apply_entering_def False z)
  qed
  show thesis
  proof (cases "lv = []")
    case True
    with 1 show thesis using that [of u1 sim1] MRT by (simp add: apply_leaving_def)
  next
    case False
    then obtain c where "c \<in> set lv" by (cases lv) auto
    then have "triggered u1 measId c" using lv 1 by blast
    then have r: "map_of (m_varMeasReportList u1) measId \<noteq> None"
      by (auto simp: triggered_def has_triggered_def split: option.splits)
    have q1: "map_of (m_leavingTriggerQueue u1) measId = Some []"
      using q(2) same_but_report_queues [OF 1(2)] by simp
    from Erase_zero [OF False q1 r, of sim1] obtain u2 sim2 where
      2: "VarMeasReportListErase measId lv False (u1, sim1) = Inr (u2, sim2)" "same_but_report measId u1 u2"
      "\<And>c. triggered u2 measId c \<longleftrightarrow> triggered u1 measId c \<and> c \<notin> set lv"
      by metis
    have "MeasurementReportTriggering measId (u, sim) = Inr (u2, sim2)"
      using MRT 1(1) 2(1) silent by (simp add: apply_leaving_def False z Let_def)
    then show thesis
      using that [of u2 sim2] same_but_report_trans [OF 1(2) 2(2)] 1(3) 2(3) en lv by auto
  qed
qed

lemma in_filtered_keys:
  "distinct (map fst vs) \<Longrightarrow> c \<in> set (map fst (filter (\<lambda>(c, v). Q c v) vs)) \<longleftrightarrow> (\<exists>v. map_of vs c = Some v \<and> Q c v)"
  by (force simp: map_of_eq_Some_iff)

text \<open>
  The rule of the two thresholds: a cell above the upper one is on the list afterwards, a cell below the lower
  one is not, and in between nothing changes.
\<close>

definition follows_hysteresis :: "(nat \<Rightarrow> meas_values \<Rightarrow> bool) \<Rightarrow> (meas_values \<Rightarrow> bool) \<Rightarrow> (meas_values \<Rightarrow> bool) \<Rightarrow>
    nat \<Rightarrow> ue_rrc \<Rightarrow> ue_rrc \<Rightarrow> bool" where
  "follows_hysteresis concerns upper lower measId u u' \<longleftrightarrow>
     (\<forall>c. triggered u' measId c =
        (case map_of (m_storedMeasValues u) c of
           None \<Rightarrow> triggered u measId c
         | Some v \<Rightarrow> if concerns c v \<and> upper v then True
                     else if concerns c v \<and> lower v then False else triggered u measId c))"

lemma triggering_hysteresis:
  assumes ev: "evaluates measId rc mo u sim"
    and eval: "eval_event rc mo (serving_cell (mo_carrierFreq mo) u) (map_of (m_varMeasReportList u) measId) measId (u, sim) =
      Inr ((map fst (filter (\<lambda>(c, v). concerns c v \<and> upper v \<and> \<not> has_triggered (map_of (m_varMeasReportList u) measId) c)
              (m_storedMeasValues u)),
            map fst (filter (\<lambda>(c, v). concerns c v \<and> lower v \<and> has_triggered (map_of (m_varMeasReportList u) measId) c)
              (m_storedMeasValues u))), (u, sim))"
    and excl: "\<And>v. upper v \<Longrightarrow> \<not> lower v"
    and silent: "\<not> (rc_eventId rc = EVENT_A3 \<and> rc_reportOnLeave rc)"
  shows "\<exists>u' sim'. MeasurementReportTriggering measId (u, sim) = Inr (u', sim') \<and> same_but_report measId u u' \<and>
      follows_hysteresis concerns upper lower measId u u'"
proof -
  have d: "distinct (map fst (m_storedMeasValues u))" using ev by (simp add: evaluates_def)
  note mem = in_filtered_keys [OF d]
  from triggering_applies [OF ev eval _ _ silent] obtain u' sim' where
    1: "MeasurementReportTriggering measId (u, sim) = Inr (u', sim')" "same_but_report measId u u'"
    and t: "\<And>c. triggered u' measId c \<longleftrightarrow>
      (\<exists>v. map_of (m_storedMeasValues u) c = Some v \<and> concerns c v \<and> upper v \<and> \<not> triggered u measId c) \<or>
      triggered u measId c \<and>
      \<not> (\<exists>v. map_of (m_storedMeasValues u) c = Some v \<and> concerns c v \<and> lower v \<and> triggered u measId c)"
    unfolding mem triggered_def [symmetric] by blast
  have "follows_hysteresis concerns upper lower measId u u'"
    unfolding follows_hysteresis_def using t excl by (auto split: option.splits)
  with 1 show ?thesis by blast
qed

lemma serving_stored: "map_of (m_storedMeasValues u) (ue_cellId u) = Some pv \<Longrightarrow> stored_value (ue_cellId u) u = pv"
  by (simp add: stored_value_def smap_get_def)

text \<open>
  C10: Event A3 without time to trigger, without reports on leaving and with no trigger pending: the evaluation returns, changes nothing but the report of its identity,
  and afterwards a neighbour on the frequency of the object is on the list of the report when it is better than
  the serving cell by the offset and the hysteresis, is not on it when it is worse by the hysteresis, and is as
  before in between; no other cell changes.
\<close>

theorem a3_follows_hysteresis:
  assumes "evaluates measId rc mo u sim" and "rc_eventId rc = EVENT_A3" and "\<not> rc_reportOnLeave rc"
    and "- 30 \<le> rc_a3Offset rc" and "rc_a3Offset rc \<le> 30"
    and "th_choice (rc_threshold1 rc) = rc_triggerQuantity rc"
    and "map_of (m_storedMeasValues u) (ue_cellId u) = Some pv"
  shows "\<exists>u' sim'. MeasurementReportTriggering measId (u, sim) = Inr (u', sim') \<and> same_but_report measId u u' \<and>
    follows_hysteresis (\<lambda>c v. c \<noteq> ue_cellId u \<and> mv_carrierFreq v = mo_carrierFreq mo)
      (a3_better rc pv) (a3_worse rc pv) measId u u'"
proof (rule triggering_hysteresis [OF assms(1)])
  have "rc_timeToTrigger rc = 0" "rc_hysteresis rc \<le> 30" using assms(1) by (simp_all add: evaluates_def)
  from eval_A3_zero [OF this assms(4,5,6), of "(u, sim)"] assms(2,7)
  show "eval_event rc mo (serving_cell (mo_carrierFreq mo) u) (map_of (m_varMeasReportList u) measId) measId (u, sim) =
    Inr ((map fst (filter (\<lambda>(c, v). (c \<noteq> ue_cellId u \<and> mv_carrierFreq v = mo_carrierFreq mo) \<and> a3_better rc pv v \<and>
              \<not> has_triggered (map_of (m_varMeasReportList u) measId) c) (m_storedMeasValues u)),
          map fst (filter (\<lambda>(c, v). (c \<noteq> ue_cellId u \<and> mv_carrierFreq v = mo_carrierFreq mo) \<and> a3_worse rc pv v \<and>
              has_triggered (map_of (m_varMeasReportList u) measId) c) (m_storedMeasValues u))), u, sim)"
    by (simp add: eval_event_def)
qed (use assms a3_exclusive in auto)

text \<open>
  The same for event A4, whose bounds are the threshold plus and minus the hysteresis; it concerns the
  neighbours on every carrier.
\<close>

lemma a4_follows_hysteresis:
  assumes "evaluates measId rc mo u sim" and "rc_eventId rc = EVENT_A4"
    and "threshold_value (rc_triggerQuantity rc) (rc_threshold1 rc) = Inr thresh"
  shows "\<exists>u' sim'. MeasurementReportTriggering measId (u, sim) = Inr (u', sim') \<and> same_but_report measId u u' \<and>
    follows_hysteresis (\<lambda>c v. c \<noteq> ue_cellId u) (a4_better rc mo thresh) (a4_worse rc mo thresh) measId u u'"
proof (rule triggering_hysteresis [OF assms(1)])
  have "rc_timeToTrigger rc = 0" "rc_hysteresis rc \<le> 30" using assms(1) by (simp_all add: evaluates_def)
  from eval_A4_zero [OF this assms(3), of mo _ measId "(u, sim)"] assms(2)
  show "eval_event rc mo (serving_cell (mo_carrierFreq mo) u) (map_of (m_varMeasReportList u) measId) measId (u, sim) =
    Inr ((map fst (filter (\<lambda>(c, v). c \<noteq> ue_cellId u \<and> a4_better rc mo thresh v \<and>
              \<not> has_triggered (map_of (m_varMeasReportList u) measId) c) (m_storedMeasValues u)),
          map fst (filter (\<lambda>(c, v). c \<noteq> ue_cellId u \<and> a4_worse rc mo thresh v \<and>
              has_triggered (map_of (m_varMeasReportList u) measId) c) (m_storedMeasValues u))), u, sim)"
    by (simp add: eval_event_def)
qed (use assms a4_exclusive in auto)

text \<open>A UE with one carrier, served by cell 1, that measures the cells 2 and 3.\<close>

definition ex_rc :: report_config where
  "ex_rc = \<lparr>rc_triggerType = EVENT, rc_eventId = EVENT_A3, rc_threshold1 = \<lparr>th_choice = RSRP, th_range = 0\<rparr>,
     rc_threshold2 = \<lparr>th_choice = RSRP, th_range = 0\<rparr>, rc_reportOnLeave = False, rc_a3Offset = 0, rc_hysteresis = 6,
     rc_timeToTrigger = 0, rc_purpose = REPORT_STRONGEST_CELLS, rc_triggerQuantity = RSRP, rc_maxReportCells = 8, rc_reportInterval = MS1024\<rparr>"

definition ex_mo :: meas_object where
  "ex_mo = \<lparr>mo_carrierFreq = 100, mo_offsetFreq = 0, mo_cellsToRemoveList = [], mo_cellsToAddModList = [],
     mo_blackCellsToRemoveList = [], mo_blackCellsToAddModList = [], mo_haveCellForWhichToReportCGI = False\<rparr>"

definition ex_ue :: ue_rrc where
  "ex_ue = \<lparr>ue_state = CONNECTED_NORMALLY, ue_cellId = 1, ue_carriers = [(100, 1)], ue_initDlArfcn = 100,
     ue_acceptableCell = [], vc_measIdList = [(1, \<lparr>mi_measId = 1, mi_measObjectId = 1, mi_reportConfigId = 1\<rparr>)],
     vc_measObjectList = [(1, ex_mo)], vc_reportConfigList = [(1, ex_rc)], vc_quantityConfig = (4, 4),
     vc_aRsrp = 1 / 2, vc_aRsrq = 1 / 2,
     m_storedMeasValues =
       [(1, \<lparr>mv_rsrp = - 100, mv_rsrq = Some (- 12), mv_carrierFreq = 100\<rparr>),
        (2, \<lparr>mv_rsrp = - 90, mv_rsrq = Some (- 8), mv_carrierFreq = 100\<rparr>),
        (3, \<lparr>mv_rsrp = - 95, mv_rsrq = Some (- 9), mv_carrierFreq = 100\<rparr>)],
     m_enteringTriggerQueue = [(1, [])], m_leavingTriggerQueue = [(1, [])], m_varMeasReportList = [],
     ue_reports = [], ue_phy_calls = []\<rparr>"

lemma engine_starts [simp]:
  "sim_inv (DefaultSimulatorImpl :: meas_event simulator)"
  "m_nextImpl (DefaultSimulatorImpl :: meas_event simulator) + UID_VALID < 4294967295"
  by (simp_all add: sim_inv_init) (simp add: DefaultSimulatorImpl_def UID_VALID_def)

lemma ex_evaluates: "evaluates 1 ex_rc ex_mo ex_ue DefaultSimulatorImpl"
  by (simp add: evaluates_def ex_ue_def ex_mo_def ex_rc_def serving_cell_def)

theorem a3_follows_hysteresis_witness:
  "\<exists>u' sim'. MeasurementReportTriggering 1 (ex_ue, DefaultSimulatorImpl) = Inr (u', sim') \<and> triggered u' 1 2"
proof -
  let ?pv = "\<lparr>mv_rsrp = - 100, mv_rsrq = Some (- 12), mv_carrierFreq = 100\<rparr>"
  note ex_evaluates
  moreover have "map_of (m_storedMeasValues ex_ue) (ue_cellId ex_ue) = Some ?pv" by (simp add: ex_ue_def)
  ultimately obtain u' sim' where "MeasurementReportTriggering 1 (ex_ue, DefaultSimulatorImpl) = Inr (u', sim')"
    and f: "follows_hysteresis (\<lambda>c v. c \<noteq> ue_cellId ex_ue \<and> mv_carrierFreq v = mo_carrierFreq ex_mo)
      (a3_better ex_rc ?pv) (a3_worse ex_rc ?pv) 1 ex_ue u'"
    using a3_follows_hysteresis [of 1 ex_rc ex_mo ex_ue DefaultSimulatorImpl ?pv] by (auto simp: ex_rc_def)
  moreover have "triggered u' 1 2"
    using f by (simp add: follows_hysteresis_def ex_ue_def ex_mo_def ex_rc_def a3_better_def holds_def value_of_def)
  ultimately show ?thesis by blast
qed

section \<open>The contents of a report\<close>

lemma mset_mm_insert [simp]: "mset (mm_insert e xs) = add_mset e (mset xs)"
  by (induction xs) auto

lemma set_mm_insert [simp]: "set (mm_insert e xs) = insert e (set xs)"
  by (induction xs) auto

lemma sorted_mm_insert: "sorted (map fst xs) \<Longrightarrow> sorted (map fst (mm_insert e xs))"
  by (induction xs) auto

definition strength :: "meas_quantity \<Rightarrow> ue_rrc \<Rightarrow> nat \<Rightarrow> double" where
  "strength q u c = the (value_of q (the (map_of (m_storedMeasValues u) c)))"

text \<open>The multimap of the neighbours: all of them, weakest first.\<close>

lemma sort_neighbours_sorts:
  assumes "sort_neighbours q u cells = Inr xs"
  shows "sorted (map fst xs) \<and> mset (map snd xs) = mset (filter (\<lambda>c. c \<noteq> ue_cellId u) cells) \<and>
    (\<forall>x\<in>set xs. fst x = strength q u (snd x))"
proof -
  define good where "good xs \<longleftrightarrow> sorted (map fst xs) \<and> (\<forall>x\<in>set xs. fst x = strength q u (snd x))"
    for xs :: "(double \<times> nat) list"
  define step where "step = (\<lambda>c acc. if c = ue_cellId u then Inr acc
      else (case map_of (m_storedMeasValues u) c of None \<Rightarrow> Inl NullPointer
        | Some v \<Rightarrow> (case value_of q v of None \<Rightarrow> Inl CastOverflow | Some x \<Rightarrow> Inr (mm_insert (x, c) acc))))"
  have "res_fold step cells acc = Inr xs \<Longrightarrow> good acc \<Longrightarrow>
      good xs \<and> mset (map snd xs) = mset (filter (\<lambda>c. c \<noteq> ue_cellId u) cells) + mset (map snd acc)" for acc
  proof (induction cells arbitrary: acc)
    case (Cons c cells)
    from Cons.prems(1) obtain acc1 where 1: "step c acc = Inr acc1" "res_fold step cells acc1 = Inr xs" by auto
    have "good acc1 \<and> mset (map snd acc1) = mset (filter (\<lambda>c. c \<noteq> ue_cellId u) [c]) + mset (map snd acc)"
      using 1(1) Cons.prems(2)
      by (auto simp: step_def good_def strength_def sorted_mm_insert split: if_splits option.splits)
    with Cons.IH [OF 1(2)] show ?case by auto
  qed simp
  from this [of "[]"] show ?thesis
    using assms by (simp add: sort_neighbours_def step_def [symmetric]) (simp add: good_def)
qed

lemma encode_cells_encodes:
  assumes "encode_cells u cells = Inr es"
  shows "map ce_physCellId es = cells \<and>
    (\<forall>e\<in>set es. \<exists>v. map_of (m_storedMeasValues u) (ce_physCellId e) = Some v \<and> encode_cell (ce_physCellId e) v = Inr e)"
proof -
  define step where "step = (\<lambda>c acc. res_bind (entry_of (m_storedMeasValues u) c) (\<lambda>v.
      res_bind (encode_cell c v) (\<lambda>e. Inr (acc @ [e]))))"
  define good where "good es \<longleftrightarrow> (\<forall>e\<in>set es. \<exists>v. map_of (m_storedMeasValues u) (ce_physCellId e) = Some v \<and>
      encode_cell (ce_physCellId e) v = Inr e)" for es
  have "res_fold step cells acc = Inr es \<Longrightarrow> good acc \<Longrightarrow> good es \<and> map ce_physCellId es = map ce_physCellId acc @ cells" for acc
  proof (induction cells arbitrary: acc)
    case (Cons c cells)
    from Cons.prems(1) obtain acc1 where 1: "step c acc = Inr acc1" "res_fold step cells acc1 = Inr es" by auto
    from 1(1) obtain v e where e: "map_of (m_storedMeasValues u) c = Some v" "encode_cell c v = Inr e" "acc1 = acc @ [e]"
      by (auto simp: step_def entry_of_def split: option.splits)
    moreover have "ce_physCellId e = c" using e(2) by (auto simp: encode_cell_def split: option.splits)
    ultimately show ?case using Cons.IH [OF 1(2)] Cons.prems(2) by (auto simp: good_def)
  qed simp
  from this [of "[]"] show ?thesis
    using assms by (simp add: encode_cells_def step_def [symmetric]) (simp add: good_def)
qed

text \<open>
  A report names at most the configured number of the neighbours on the list, all of them when they are
  fewer, none twice, strongest first, and none it leaves out is stronger than one it names; each entry encodes the
  cell's measured values.
\<close>

lemma report_names_strongest:
  assumes "make_report measId rc r u = Inr msg" and "distinct (vr_cellsTriggeredList r)"
  defines "cs \<equiv> map ce_physCellId (mr_list msg)"
    and "ns \<equiv> set (vr_cellsTriggeredList r) - {ue_cellId u}"
    and "s \<equiv> strength (rc_triggerQuantity rc) u"
  shows "distinct cs \<and> set cs \<subseteq> ns \<and> length cs = min (rc_maxReportCells rc) (card ns) \<and>
    sorted_wrt (\<lambda>a b. s b \<le> s a) cs \<and> (\<forall>a\<in>set cs. \<forall>b\<in>ns - set cs. s b \<le> s a) \<and>
    (\<forall>e\<in>set (mr_list msg). \<exists>v. map_of (m_storedMeasValues u) (ce_physCellId e) = Some v \<and>
       encode_cell (ce_physCellId e) v = Inr e)"
proof -
  from assms(1) obtain xs es where
    xs: "sort_neighbours (rc_triggerQuantity rc) u (vr_cellsTriggeredList r) = Inr xs" and
    es: "encode_cells u (take (rc_maxReportCells rc) (map snd (rev xs))) = Inr es" and msg: "mr_list msg = es"
    by (auto simp: make_report_def)
  define ys where "ys = map snd (rev xs)"
  have m: "mset ys = mset (filter (\<lambda>c. c \<noteq> ue_cellId u) (vr_cellsTriggeredList r))"
    using sort_neighbours_sorts [OF xs] by (simp add: ys_def rev_map [symmetric])
  then have "distinct ys" using assms(2) by (metis distinct_filter mset_eq_imp_distinct_iff)
  have set: "set ys = ns" using mset_eq_setD [OF m] by (auto simp: ns_def)
  have len: "length ys = card ns" using distinct_card [OF \<open>distinct ys\<close>] set by simp
  have cs: "cs = take (rc_maxReportCells rc) ys"
    using encode_cells_encodes [OF es] by (simp add: cs_def msg ys_def)
  have "map s (rev ys) = map fst xs"
    using sort_neighbours_sorts [OF xs] by (simp add: ys_def s_def rev_map [symmetric])
  then have "sorted (map s (rev ys))" using sort_neighbours_sorts [OF xs] by simp
  then have desc: "sorted_wrt (\<lambda>a b. s b \<le> s a) ys"
    by (simp add: sorted_wrt_map sorted_wrt_rev)
  have split: "ys = cs @ drop (rc_maxReportCells rc) ys" by (simp add: cs)
  have "sorted_wrt (\<lambda>a b. s b \<le> s a) (cs @ drop (rc_maxReportCells rc) ys)" using desc split by simp
  then have sort: "sorted_wrt (\<lambda>a b. s b \<le> s a) cs" "\<forall>a\<in>set cs. \<forall>b\<in>set (drop (rc_maxReportCells rc) ys). s b \<le> s a"
    by (simp_all add: sorted_wrt_append)
  have "ns - set cs \<subseteq> set (drop (rc_maxReportCells rc) ys)"
    using set split by (metis Diff_subset_conv set_append subset_refl)
  then show ?thesis
    using sort \<open>distinct ys\<close> set len encode_cells_encodes [OF es] set_take_subset [of "rc_maxReportCells rc" ys]
    by (auto simp: cs msg)
qed

definition ex_report :: var_meas_report where
  "ex_report = \<lparr>vr_cellsTriggeredList = [2, 3], vr_numberOfReportsSent = 0, vr_periodicReportTimer = EventId\<rparr>"

section \<open>Triggers that wait\<close>

text \<open>Cancelling the only cell of a waiting trigger moves the iterator past the end of its list.\<close>

lemma cancel_only_cell:
  assumes "map_of (queue_of q u) measId = Some (p # ps)" and "pt_measId p = measId" and "pt_concernedCells p = [c]"
  shows "CancelTrigger_cell q measId c (u, sim) = Inl IteratorPastEnd"
  using assms by (simp add: CancelTrigger_cell_def)

text \<open>
  Cancelling one cell of several leaves the timer alone, whose event was made with all the cells: it will report
  the cancelled one.
\<close>

lemma cancelled_cell_still_due:
  assumes "map_of (queue_of q u) measId = Some [p]" and "pt_measId p = measId"
    and "pt_concernedCells p = [c, d]" and "c \<noteq> d"
  shows "CancelTrigger_cell q measId c (u, sim) = Inr (upd_queue q measId [p\<lparr>pt_concernedCells := [d]\<rparr>] u, sim)"
  using assms by (simp add: CancelTrigger_cell_def on_world_def)

text \<open>A reported event A1 on a secondary carrier aborts when it leaves: the code looks for the primary cell.\<close>

lemma a1_leaving_secondary_aborts:
  assumes "serving \<noteq> ue_cellId u" and "rc_timeToTrigger rc = 0" and "rc_hysteresis rc \<le> 30"
    and "threshold_value (rc_triggerQuantity rc) (rc_threshold1 rc) = Inr thresh"
    and "map_of (m_storedMeasValues u) serving = Some v" and "value_of (rc_triggerQuantity rc) v = Some m"
    and "m + real (rc_hysteresis rc) / 2 < thresh" and "vr_cellsTriggeredList r = [serving]"
  shows "eval_A1 rc serving (Some r) measId (u, sim) = Inl MissingEntry"
proof -
  have "\<not> m - real (rc_hysteresis rc) / 2 > thresh" using assms(7) by linarith
  then show ?thesis
    using assms by (simp add: eval_A1_def serving_event_def holds_def stored_value_def smap_get_def has_triggered_def Let_def)
qed

section \<open>Cell selection\<close>

text \<open>
  A UE that searches a cell synchronises to a strongest measured cell among those above -140 dBm that it has not
  tried, and does nothing when there is none.
\<close>

lemma synchronizes_to_strongest:
  assumes "0 \<notin> fst ` set (m_storedMeasValues u)"
  shows "let cs = {(c, v) \<in> set (m_storedMeasValues u). mv_rsrp v > - 140 \<and> c \<notin> set (ue_acceptableCell u)} in
    if cs = {} then SynchronizeToStrongestCell u = u
    else \<exists>(c, v)\<in>cs. (\<forall>(d, w)\<in>cs. mv_rsrp w \<le> mv_rsrp v) \<and>
       SynchronizeToStrongestCell u =
         u\<lparr>ue_phy_calls := ue_phy_calls u @ [SynchronizeWithGnb c (ue_initDlArfcn u)], ue_state := IDLE_WAIT_MIB_SIB1\<rparr>"
proof -
  define ok where "ok = (\<lambda>(c, v :: meas_values). mv_rsrp v > - 140 \<and> c \<notin> set (ue_acceptableCell u))"
  have some: "\<exists>(c', v')\<in>insert (c, v) {e \<in> set vs. ok e}. strongest_untried (ue_acceptableCell u) (c, Some (mv_rsrp v)) vs = c' \<and>
      (\<forall>(d, w)\<in>insert (c, v) {e \<in> set vs. ok e}. mv_rsrp w \<le> mv_rsrp v')" for c v vs
  proof (induction vs arbitrary: c v)
    case (Cons e vs)
    obtain d w where e: "e = (d, w)" by fastforce
    show ?case
    proof (cases "mv_rsrp v < mv_rsrp w \<and> ok (d, w)")
      case True
      from Cons.IH [of d w] obtain c' v' where
        1: "(c', v') \<in> insert (d, w) {x \<in> set vs. ok x}" "strongest_untried (ue_acceptableCell u) (d, Some (mv_rsrp w)) vs = c'"
          "\<forall>(d', w')\<in>insert (d, w) {x \<in> set vs. ok x}. mv_rsrp w' \<le> mv_rsrp v'" by blast
      have "strongest_untried (ue_acceptableCell u) (c, Some (mv_rsrp v)) (e # vs) = c'"
        using True 1(2) by (simp add: e ok_def)
      moreover have "mv_rsrp w \<le> mv_rsrp v'" using 1(3) by simp
      ultimately show ?thesis using True 1(1,3) by (intro bexI [of _ "(c', v')"]) (auto simp: e)
    next
      case False
      from Cons.IH [of c v] obtain c' v' where
        1: "(c', v') \<in> insert (c, v) {x \<in> set vs. ok x}" "strongest_untried (ue_acceptableCell u) (c, Some (mv_rsrp v)) vs = c'"
          "\<forall>(d', w')\<in>insert (c, v) {x \<in> set vs. ok x}. mv_rsrp w' \<le> mv_rsrp v'" by blast
      have "\<not> (mv_rsrp v < mv_rsrp w \<and> mv_rsrp w > - 140 \<and> d \<notin> set (ue_acceptableCell u))" using False by (simp add: ok_def)
      then have "strongest_untried (ue_acceptableCell u) (c, Some (mv_rsrp v)) (e # vs) = c'"
        using 1(2) by (auto simp: e)
      moreover have "mv_rsrp v \<le> mv_rsrp v'" using 1(3) by simp
      ultimately show ?thesis using False 1(1,3) by (intro bexI [of _ "(c', v')"]) (auto simp: e)
    qed
  qed simp
  have start: "if {e \<in> set vs. ok e} = {} then strongest_untried (ue_acceptableCell u) (0, None) vs = 0
      else \<exists>(c, v)\<in>{e \<in> set vs. ok e}. strongest_untried (ue_acceptableCell u) (0, None) vs = c \<and>
        (\<forall>(d, w)\<in>{e \<in> set vs. ok e}. mv_rsrp w \<le> mv_rsrp v)" for vs
  proof (induction vs)
    case (Cons e vs)
    obtain d w where e: "e = (d, w)" by fastforce
    show ?case
    proof (cases "ok (d, w)")
      case True
      then have "{e' \<in> set (e # vs). ok e'} = insert (d, w) {e \<in> set vs. ok e}" by (auto simp: e)
      moreover have "strongest_untried (ue_acceptableCell u) (0, None) (e # vs) =
          strongest_untried (ue_acceptableCell u) (d, Some (mv_rsrp w)) vs" using True by (simp add: e ok_def)
      ultimately show ?thesis using some [of d w vs] by simp
    next
      case False
      then have S: "{e' \<in> set (e # vs). ok e'} = {e \<in> set vs. ok e}" by (auto simp: e)
      have T: "strongest_untried (ue_acceptableCell u) (0, None) (e # vs) =
          strongest_untried (ue_acceptableCell u) (0, None) vs" using False by (auto simp: e ok_def)
      show ?thesis unfolding S T by (rule Cons.IH)
    qed
  qed simp
  have cs: "{(c, v) \<in> set (m_storedMeasValues u). mv_rsrp v > - 140 \<and> c \<notin> set (ue_acceptableCell u)} =
      {e \<in> set (m_storedMeasValues u). ok e}" by (auto simp: ok_def)
  show ?thesis
  proof (cases "{e \<in> set (m_storedMeasValues u). ok e} = {}")
    case True
    with start [of "m_storedMeasValues u"] show ?thesis by (simp add: cs Let_def SynchronizeToStrongestCell_def)
  next
    case False
    from start [of "m_storedMeasValues u", unfolded if_not_P [OF False]] obtain c v where
      cv: "(c, v) \<in> {e \<in> set (m_storedMeasValues u). ok e}"
      "strongest_untried (ue_acceptableCell u) (0, None) (m_storedMeasValues u) = c"
      "\<forall>(d, w)\<in>{e \<in> set (m_storedMeasValues u). ok e}. mv_rsrp w \<le> mv_rsrp v" by blast
    have "c \<noteq> 0" using assms cv(1) by force
    then show ?thesis using False cv unfolding cs Let_def if_not_P [OF False]
      by (intro bexI [of _ "(c, v)"]) (simp_all add: SynchronizeToStrongestCell_def)
  qed
qed

end
