(* ===== verification/Gnb_Handover.thy ===== *)
theory Gnb_Handover
  imports Ue_Measurements
begin

text \<open>
  The measurement side of a gNB (\<open>src/src/nr/model\<close>): the measurement configuration it hands to its UEs
  (\<open>NrGnbRrc::ConfigureCell\<close>, \<open>AddUeMeasReportConfig\<close>), the reports it receives
  (\<open>NrUeManager::RecvMeasurementReport\<close>), the handover algorithms \<open>NrA3RsrpHandoverAlgorithm\<close> and
  \<open>NrA2A4RsrqHandoverAlgorithm\<close>, the neighbour relations (\<open>NrAnr\<close>), and the decision to prepare a handover
  (\<open>DoTriggerHandover\<close>, the part of \<open>PrepareHandover\<close> that does not build the X2 message). The
  identities are bytes: their arithmetic is modulo 256. A failed assertion on a value is \<open>ValueOutOfRange\<close>.
\<close>

section \<open>Data\<close>

text \<open>A neighbour's result as received, with the flags \<open>haveRsrpResult\<close> and \<open>haveRsrqResult\<close>.\<close>

record eutra_result =
  er_physCellId :: nat
  er_rsrpResult :: "nat option"
  er_rsrqResult :: "nat option"

record meas_message =
  mm_measId :: nat
  mm_pcell_rsrp :: nat
  mm_pcell_rsrq :: nat
  mm_haveNeighCells :: bool
  mm_list :: "eutra_result list"

text \<open>The message a UE sends holds both results of each neighbour.\<close>

definition received :: "meas_results \<Rightarrow> meas_message" where
  "received m =
     \<lparr>mm_measId = mr_measId m, mm_pcell_rsrp = mr_pcell_rsrp m, mm_pcell_rsrq = mr_pcell_rsrq m,
      mm_haveNeighCells = mr_haveNeighCells m,
      mm_list = map (\<lambda>e. \<lparr>er_physCellId = ce_physCellId e, er_rsrpResult = Some (ce_rsrpResult e),
                            er_rsrqResult = Some (ce_rsrqResult e)\<rparr>) (mr_list m)\<rparr>"

datatype ue_manager_state =
    UM_INITIAL_RANDOM_ACCESS | UM_CONNECTION_SETUP | UM_CONNECTION_REJECTED | UM_ATTACH_REQUEST
  | UM_CONNECTED_NORMALLY | UM_CONNECTION_RECONFIGURATION | UM_CONNECTION_REESTABLISHMENT
  | UM_HANDOVER_PREPARATION | UM_HANDOVER_JOINING | UM_HANDOVER_PATH_SWITCH | UM_HANDOVER_LEAVING

record ue_manager =
  um_state :: ue_manager_state
  um_componentCarrierId :: nat
  um_targetCellId :: nat

record a3_rsrp =
  a3_hysteresisDb :: double
  a3_timeToTrigger :: time
  a3_measIds :: "nat list"

text \<open>The table of the newest RSRQ of each neighbour of each UE.\<close>

record a2a4_rsrq =
  m_servingCellThreshold :: nat
  m_neighbourCellOffset :: nat
  m_a2MeasIds :: "nat list"
  m_a4MeasIds :: "nat list"
  m_neighbourCellMeasures :: "(nat \<times> (nat \<times> nat) list) list"

datatype ho_algorithm = NoOp | A3_Rsrp a3_rsrp | A2A4_Rsrq a2a4_rsrq

record neighbour_relation =
  nr_noRemove :: bool
  nr_noHo :: bool
  nr_noX2 :: bool
  nr_detectedAsNeighbour :: bool

record anr =
  anr_threshold :: nat
  anr_measId :: nat
  anr_servingCellId :: nat
  m_neighbourRelationTable :: "(nat \<times> neighbour_relation) list"

text \<open>\<open>gc_carriers\<close> holds \<open>GetArfcn\<close> and \<open>GetCellId\<close> of each component carrier.\<close>

record gnb_rrc =
  gc_carriers :: "(nat \<times> nat) list"
  gc_numberOfComponentCarriers :: nat
  gc_objects :: "(nat \<times> meas_object) list"
  gc_reportConfigs :: "(nat \<times> report_config) list"
  gc_measIds :: "meas_id list"
  gc_quantity :: "nat \<times> nat"
  m_handoverMeasIds :: "nat list"
  m_anrMeasIds :: "nat list"
  m_componentCarrierMeasIds :: "nat list"
  m_ueMap :: "(nat \<times> ue_manager) list"
  gc_algorithm :: "ho_algorithm option"
  gc_anr :: "anr option"
  gc_haveCcm :: bool
  gc_requests :: "(nat \<times> nat \<times> nat) list"

section \<open>Measurement configuration\<close>

definition MaxReportCells :: nat where
  "MaxReportCells = 8"

definition ReportConfigEutra :: report_config where
  "ReportConfigEutra =
     \<lparr>rc_triggerType = EVENT, rc_eventId = EVENT_A1,
      rc_threshold1 = \<lparr>th_choice = RSRP, th_range = 0\<rparr>, rc_threshold2 = \<lparr>th_choice = RSRP, th_range = 0\<rparr>,
      rc_reportOnLeave = False, rc_a3Offset = 0, rc_hysteresis = 0, rc_timeToTrigger = 0,
      rc_purpose = REPORT_STRONGEST_CELLS, rc_triggerQuantity = RSRP, rc_maxReportCells = MaxReportCells, rc_reportInterval = MS480\<rparr>"

text \<open>One measurement object per carrier.\<close>

definition meas_objects :: "(nat \<times> nat) list \<Rightarrow> (nat \<times> meas_object) list" where
  "meas_objects carriers =
     map (\<lambda>i. ((i + 1) mod 256,
         \<lparr>mo_carrierFreq = fst (carriers ! i), mo_offsetFreq = 0, mo_cellsToRemoveList = [], mo_cellsToAddModList = [],
          mo_blackCellsToRemoveList = [], mo_blackCellsToAddModList = [], mo_haveCellForWhichToReportCGI = False\<rparr>))
       [0..<length carriers]"

definition ConfigureMeasurements :: "(nat \<times> nat) list \<Rightarrow> nat \<times> nat \<Rightarrow> gnb_rrc \<Rightarrow> gnb_rrc" where
  "ConfigureMeasurements carriers filters g =
     g\<lparr>gc_objects := gc_objects g @ meas_objects carriers, gc_quantity := filters\<rparr>"

definition threshold_mismatch :: "report_config \<Rightarrow> bool" where
  "threshold_mismatch rc \<longleftrightarrow>
     rc_eventId rc = EVENT_A5 \<and> th_choice (rc_threshold2 rc) \<noteq> rc_triggerQuantity rc \<or>
     rc_eventId rc \<in> {EVENT_A1, EVENT_A2, EVENT_A4, EVENT_A5} \<and> th_choice (rc_threshold1 rc) \<noteq> rc_triggerQuantity rc"

definition AddUeMeasReportConfig :: "time \<Rightarrow> report_config \<Rightarrow> gnb_rrc \<Rightarrow> (nat list \<times> gnb_rrc) res" where
  "AddUeMeasReportConfig now rc g =
     abort_if (length (gc_measIds g) \<noteq> length (gc_reportConfigs g) * gc_numberOfComponentCarriers g) ValueOutOfRange
     (abort_if (now \<noteq> 0) Unsupported
     (abort_if (threshold_mismatch rc) Unsupported
     (abort_if (rc_purpose rc \<noteq> REPORT_STRONGEST_CELLS) Unsupported
       (let nextId = (length (gc_reportConfigs g) + 1) mod 256;
            ids = map (\<lambda>b. \<lparr>mi_measId = (length (gc_measIds g) + b + 1) mod 256, mi_measObjectId = (b + 1) mod 256,
                             mi_reportConfigId = nextId\<rparr>) [0..<gc_numberOfComponentCarriers g]
        in Inr (map mi_measId ids,
                g\<lparr>gc_reportConfigs := gc_reportConfigs g @ [(nextId, rc)], gc_measIds := gc_measIds g @ ids\<rparr>)))))"

definition AddUeMeasReportConfigForHandover :: "time \<Rightarrow> report_config \<Rightarrow> gnb_rrc \<Rightarrow> (nat list \<times> gnb_rrc) res" where
  "AddUeMeasReportConfigForHandover now rc g =
     res_bind (AddUeMeasReportConfig now rc g) (\<lambda>(ids, g).
       Inr (ids, g\<lparr>m_handoverMeasIds := fold insort_insert ids (m_handoverMeasIds g)\<rparr>))"

text \<open>\<open>at(0)\<close> of the identities throws when there is no carrier.\<close>

definition first_id :: "nat list \<Rightarrow> nat res" where
  "first_id ids = (case ids of [] \<Rightarrow> Inl IndexOutOfRange | i # _ \<Rightarrow> Inr i)"

definition AddUeMeasReportConfigForComponentCarrier :: "time \<Rightarrow> report_config \<Rightarrow> gnb_rrc \<Rightarrow> (nat \<times> gnb_rrc) res" where
  "AddUeMeasReportConfigForComponentCarrier now rc g =
     res_bind (AddUeMeasReportConfig now rc g) (\<lambda>(ids, g). res_bind (first_id ids) (\<lambda>i.
       Inr (i, g\<lparr>m_componentCarrierMeasIds := insort_insert i (m_componentCarrierMeasIds g)\<rparr>)))"

definition AddUeMeasReportConfigForAnr :: "time \<Rightarrow> report_config \<Rightarrow> gnb_rrc \<Rightarrow> (nat \<times> gnb_rrc) res" where
  "AddUeMeasReportConfigForAnr now rc g =
     res_bind (AddUeMeasReportConfig now rc g) (\<lambda>(ids, g). res_bind (first_id ids) (\<lambda>i.
       Inr (i, g\<lparr>m_anrMeasIds := insort_insert i (m_anrMeasIds g)\<rparr>)))"

text \<open>What the UEs are sent.\<close>

definition ueMeasConfig :: "gnb_rrc \<Rightarrow> meas_config" where
  "ueMeasConfig g =
     \<lparr>mc_measObjectToRemoveList = [], mc_measObjectToAddModList = gc_objects g,
      mc_reportConfigToRemoveList = [], mc_reportConfigToAddModList = gc_reportConfigs g,
      mc_measIdToRemoveList = [], mc_measIdToAddModList = gc_measIds g, mc_quantityConfig = Some (gc_quantity g),
      mc_haveMeasGapConfig = False, mc_haveSmeasure = False, mc_haveSpeedStatePars = False\<rparr>"

section \<open>Neighbour relations\<close>

definition Find :: "anr \<Rightarrow> nat \<Rightarrow> neighbour_relation res" where
  "Find a c = entry_of (m_neighbourRelationTable a) c"

definition AddNeighbourRelation :: "nat \<Rightarrow> anr \<Rightarrow> anr res" where
  "AddNeighbourRelation c a =
     abort_if (c = anr_servingCellId a) ValueOutOfRange
     (abort_if (map_of (m_neighbourRelationTable a) c \<noteq> None) DuplicateKey
       (Inr (a\<lparr>m_neighbourRelationTable := smap_upd c
          \<lparr>nr_noRemove = True, nr_noHo = True, nr_noX2 = False, nr_detectedAsNeighbour = False\<rparr>
          (m_neighbourRelationTable a)\<rparr>)))"

text \<open>The condition of the code aborts when the entry is there, and erases the end of the table when it is not.\<close>

definition RemoveNeighbourRelation :: "nat \<Rightarrow> anr \<Rightarrow> anr res" where
  "RemoveNeighbourRelation c a =
     (if map_of (m_neighbourRelationTable a) c \<noteq> None then Inl MissingEntry else Inl IteratorPastEnd)"

definition GetNoRemove :: "anr \<Rightarrow> nat \<Rightarrow> bool res" where
  "GetNoRemove a c = res_bind (Find a c) (\<lambda>r. Inr (nr_noRemove r))"

definition GetNoHo :: "anr \<Rightarrow> nat \<Rightarrow> bool res" where
  "GetNoHo a c = res_bind (Find a c) (\<lambda>r. Inr (nr_noHo r))"

definition GetNoX2 :: "anr \<Rightarrow> nat \<Rightarrow> bool res" where
  "GetNoX2 a c = res_bind (Find a c) (\<lambda>r. Inr (nr_noX2 r))"

definition anr_DoInitialize :: "time \<Rightarrow> anr \<Rightarrow> gnb_rrc \<Rightarrow> gnb_rrc res" where
  "anr_DoInitialize now a g =
     res_bind (AddUeMeasReportConfigForAnr now
         (ReportConfigEutra\<lparr>rc_eventId := EVENT_A4, rc_threshold1 := \<lparr>th_choice = RSRQ, th_range = anr_threshold a\<rparr>,
            rc_triggerQuantity := RSRQ, rc_reportInterval := MS480\<rparr>) g)
       (\<lambda>(i, g). Inr (g\<lparr>gc_anr := Some (a\<lparr>anr_measId := i\<rparr>)\<rparr>))"

definition detect :: "nat \<Rightarrow> anr \<Rightarrow> anr" where
  "detect c a =
     a\<lparr>m_neighbourRelationTable := smap_upd c
        (case map_of (m_neighbourRelationTable a) c of
           Some r \<Rightarrow> r\<lparr>nr_noHo := (nr_noX2 r \<and> nr_noHo r), nr_detectedAsNeighbour := True\<rparr>
         | None \<Rightarrow> \<lparr>nr_noRemove = False, nr_noHo = True, nr_noX2 = True, nr_detectedAsNeighbour = True\<rparr>)
        (m_neighbourRelationTable a)\<rparr>"

definition anr_DoReportUeMeas :: "meas_message \<Rightarrow> anr \<Rightarrow> anr res" where
  "anr_DoReportUeMeas m a =
     (if mm_measId m \<noteq> anr_measId a then Inr a
      else if mm_haveNeighCells m \<and> mm_list m \<noteq> []
      then res_fold (\<lambda>e a. abort_if (er_rsrqResult e = None) MissingResult (Inr (detect (er_physCellId e) a)))
             (mm_list m) a
      else Inr a)"

section \<open>Handover\<close>

definition HasCellId :: "gnb_rrc \<Rightarrow> nat \<Rightarrow> bool" where
  "HasCellId g c \<longleftrightarrow> c \<in> snd ` set (gc_carriers g)"

definition GetUeManager :: "gnb_rrc \<Rightarrow> nat \<Rightarrow> ue_manager res" where
  "GetUeManager g rnti = abort_if (rnti = 0) ValueOutOfRange (entry_of (m_ueMap g) rnti)"

definition ComponentCarrierToCellId :: "gnb_rrc \<Rightarrow> nat \<Rightarrow> nat res" where
  "ComponentCarrierToCellId g i =
     abort_if (length (gc_carriers g) \<le> i) IndexOutOfRange (Inr (snd (gc_carriers g ! i)))"

definition PrepareHandover :: "nat \<Rightarrow> ue_manager \<Rightarrow> nat \<Rightarrow> gnb_rrc \<Rightarrow> gnb_rrc res" where
  "PrepareHandover rnti ue target g =
     abort_if (um_state ue \<noteq> UM_CONNECTED_NORMALLY) Unsupported
       (res_bind (ComponentCarrierToCellId g (um_componentCarrierId ue)) (\<lambda>source.
          abort_if (target = source) ValueOutOfRange
            (Inr (g\<lparr>m_ueMap := smap_upd rnti (ue\<lparr>um_targetCellId := target, um_state := UM_HANDOVER_PREPARATION\<rparr>) (m_ueMap g),
                    gc_requests := gc_requests g @ [(rnti, source, target)]\<rparr>))))"

definition anr_allows :: "gnb_rrc \<Rightarrow> nat \<Rightarrow> bool res" where
  "anr_allows g target =
     (case gc_anr g of
        None \<Rightarrow> Inr True
      | Some a \<Rightarrow>
          if HasCellId g target then Inr True
          else res_bind (GetNoHo a target) (\<lambda>noHo. res_bind (GetNoX2 a target) (\<lambda>noX2. Inr (\<not> (noHo \<or> noX2)))))"

definition DoTriggerHandover :: "nat \<Rightarrow> nat \<Rightarrow> gnb_rrc \<Rightarrow> gnb_rrc res" where
  "DoTriggerHandover rnti target g =
     res_bind (GetUeManager g rnti) (\<lambda>ue.
     res_bind (anr_allows g target) (\<lambda>allowed.
       if allowed \<and> um_state ue = UM_CONNECTED_NORMALLY then PrepareHandover rnti ue target g else Inr g))"

text \<open>The first neighbour with the largest positive value (\<open>IsValidNeighbour\<close> is always true).\<close>

fun best_neighbour :: "nat \<times> nat \<Rightarrow> (nat \<times> nat) list \<Rightarrow> nat \<times> nat" where
  "best_neighbour (bc, bv) [] = (bc, bv)"
| "best_neighbour (bc, bv) ((c, v) # xs) = best_neighbour (if bv < v then (c, v) else (bc, bv)) xs"

definition A3_DoInitialize :: "time \<Rightarrow> a3_rsrp \<Rightarrow> gnb_rrc \<Rightarrow> gnb_rrc res" where
  "A3_DoInitialize now a g =
     res_bind (ActualHysteresis2IeValue (a3_hysteresisDb a)) (\<lambda>ie.
     res_bind (AddUeMeasReportConfigForHandover now
         (ReportConfigEutra\<lparr>rc_eventId := EVENT_A3, rc_a3Offset := 0, rc_hysteresis := ie,
            rc_timeToTrigger := nat (GetMilliSeconds (a3_timeToTrigger a) mod 2 ^ 16), rc_reportOnLeave := False,
            rc_triggerQuantity := RSRP, rc_reportInterval := MS1024\<rparr>) g)
       (\<lambda>(ids, g). Inr (g\<lparr>gc_algorithm := Some (A3_Rsrp (a\<lparr>a3_measIds := ids\<rparr>))\<rparr>)))"

definition A3_DoReportUeMeas :: "a3_rsrp \<Rightarrow> nat \<Rightarrow> meas_message \<Rightarrow> gnb_rrc \<Rightarrow> gnb_rrc res" where
  "A3_DoReportUeMeas a rnti m g =
     (if mm_measId m \<notin> set (a3_measIds a) then Inr g
      else if mm_haveNeighCells m \<and> mm_list m \<noteq> []
      then (let best = fst (best_neighbour (0, 0)
                (map (\<lambda>e. (er_physCellId e, the (er_rsrpResult e))) (filter (\<lambda>e. er_rsrpResult e \<noteq> None) (mm_list m))))
            in if 0 < best then DoTriggerHandover rnti best g else Inr g)
      else Inr g)"

definition A2A4_DoInitialize :: "time \<Rightarrow> a2a4_rsrq \<Rightarrow> gnb_rrc \<Rightarrow> gnb_rrc res" where
  "A2A4_DoInitialize now a g =
     res_bind (AddUeMeasReportConfigForHandover now
         (ReportConfigEutra\<lparr>rc_eventId := EVENT_A2,
            rc_threshold1 := \<lparr>th_choice = RSRQ, th_range = m_servingCellThreshold a\<rparr>,
            rc_triggerQuantity := RSRQ, rc_reportInterval := MS240\<rparr>) g) (\<lambda>(ids2, g).
     res_bind (AddUeMeasReportConfigForHandover now
         (ReportConfigEutra\<lparr>rc_eventId := EVENT_A4, rc_threshold1 := \<lparr>th_choice = RSRQ, th_range = 0\<rparr>,
            rc_triggerQuantity := RSRQ, rc_reportInterval := MS480\<rparr>) g) (\<lambda>(ids4, g).
       Inr (g\<lparr>gc_algorithm := Some (A2A4_Rsrq (a\<lparr>m_a2MeasIds := ids2, m_a4MeasIds := ids4\<rparr>))\<rparr>)))"

definition EvaluateHandover :: "a2a4_rsrq \<Rightarrow> nat \<Rightarrow> nat \<Rightarrow> gnb_rrc \<Rightarrow> gnb_rrc res" where
  "EvaluateHandover a rnti servingCellRsrq g =
     (case map_of (m_neighbourCellMeasures a) rnti of
        None \<Rightarrow> Inr g
      | Some row \<Rightarrow>
          (let (c, v) = best_neighbour (0, 0) row in
           if 0 < c \<and> int v - int servingCellRsrq \<ge> int (m_neighbourCellOffset a) then DoTriggerHandover rnti c g
           else Inr g))"

definition UpdateNeighbourMeasurements :: "nat \<Rightarrow> nat \<Rightarrow> nat \<Rightarrow> a2a4_rsrq \<Rightarrow> a2a4_rsrq" where
  "UpdateNeighbourMeasurements rnti c rsrq a =
     a\<lparr>m_neighbourCellMeasures := smap_upd rnti
        (smap_upd c rsrq (case map_of (m_neighbourCellMeasures a) rnti of None \<Rightarrow> [] | Some row \<Rightarrow> row))
        (m_neighbourCellMeasures a)\<rparr>"

definition A2A4_DoReportUeMeas :: "a2a4_rsrq \<Rightarrow> nat \<Rightarrow> meas_message \<Rightarrow> gnb_rrc \<Rightarrow> gnb_rrc res" where
  "A2A4_DoReportUeMeas a rnti m g =
     (if mm_measId m \<in> set (m_a2MeasIds a)
      then abort_if (\<not> mm_pcell_rsrq m \<le> m_servingCellThreshold a) InvalidMeasReport
             (EvaluateHandover a rnti (mm_pcell_rsrq m) g)
      else if mm_measId m \<in> set (m_a4MeasIds a) \<and> mm_haveNeighCells m \<and> mm_list m \<noteq> []
      then res_bind (res_fold (\<lambda>e a. case er_rsrqResult e of
                  None \<Rightarrow> Inl MissingResult
                | Some q \<Rightarrow> Inr (UpdateNeighbourMeasurements rnti (er_physCellId e) q a)) (mm_list m) a)
             (\<lambda>a'. Inr (g\<lparr>gc_algorithm := Some (A2A4_Rsrq a')\<rparr>))
      else Inr g)"

definition ho_DoReportUeMeas :: "ho_algorithm \<Rightarrow> nat \<Rightarrow> meas_message \<Rightarrow> gnb_rrc \<Rightarrow> gnb_rrc res" where
  "ho_DoReportUeMeas alg rnti m g =
     (case alg of
        NoOp \<Rightarrow> Inr g
      | A3_Rsrp a \<Rightarrow> A3_DoReportUeMeas a rnti m g
      | A2A4_Rsrq a \<Rightarrow> A2A4_DoReportUeMeas a rnti m g)"

text \<open>
  The component carrier manager of the module ignores the reports. Without one the last call dereferences a
  null pointer.
\<close>

definition RecvMeasurementReport :: "nat \<Rightarrow> meas_message \<Rightarrow> gnb_rrc \<Rightarrow> gnb_rrc res" where
  "RecvMeasurementReport rnti m g =
     res_bind (case gc_algorithm g of
         None \<Rightarrow> Inr g
       | Some alg \<Rightarrow> if mm_measId m \<in> set (m_handoverMeasIds g) then ho_DoReportUeMeas alg rnti m g else Inr g) (\<lambda>g.
     res_bind (case gc_anr g of
         None \<Rightarrow> Inr g
       | Some a \<Rightarrow>
           if mm_measId m \<in> set (m_anrMeasIds g)
           then res_bind (anr_DoReportUeMeas m a) (\<lambda>a. Inr (g\<lparr>gc_anr := Some a\<rparr>))
           else Inr g) (\<lambda>g.
       abort_if (\<not> gc_haveCcm g) NullPointer (Inr g)))"

end
