(* ===== verification/Handover_Laws.thy ===== *)
theory Handover_Laws
  imports Ue_Reporting Gnb_Handover
begin

text \<open>
  The two ends of a measurement together: a report that a UE makes leads, at a gNB with the A3 algorithm, to a
  handover to the strongest neighbour on its list; the A2-A4 algorithm hands over exactly when the best neighbour
  in its table exceeds the serving cell by the offset; the neighbour relations block handovers; the identities
  a gNB assigns are distinct.
\<close>

section \<open>The best neighbour\<close>

lemma best_neighbour_stays: "\<forall>x\<in>set xs. snd x \<le> bv \<Longrightarrow> best_neighbour (bc, bv) xs = (bc, bv)"
  by (induction xs) auto

lemma best_neighbour_max:
  "best_neighbour b xs = b' \<Longrightarrow>
    (\<forall>x\<in>set xs. snd x \<le> snd b') \<and> snd b \<le> snd b' \<and> (b' = b \<or> b' \<in> set xs \<and> snd b < snd b')"
proof (induction b xs arbitrary: b' rule: best_neighbour.induct)
  case (2 bc bv c v xs)
  then show ?case by (fastforce split: if_splits)
qed simp

section \<open>From a report to a handover\<close>

text \<open>The gNB serves a connected UE in a cell; it has no neighbour relations and a carrier manager.\<close>

definition serves :: "gnb_rrc \<Rightarrow> nat \<Rightarrow> nat \<Rightarrow> bool" where
  "serves g rnti cell \<longleftrightarrow>
     rnti \<noteq> 0 \<and> gc_anr g = None \<and> gc_haveCcm g \<and>
     (\<exists>ue. map_of (m_ueMap g) rnti = Some ue \<and> um_state ue = UM_CONNECTED_NORMALLY \<and>
        um_componentCarrierId ue < length (gc_carriers g) \<and> snd (gc_carriers g ! um_componentCarrierId ue) = cell)"

definition prepares :: "gnb_rrc \<Rightarrow> nat \<Rightarrow> nat \<Rightarrow> nat \<Rightarrow> gnb_rrc \<Rightarrow> bool" where
  "prepares g rnti source target g' \<longleftrightarrow>
     gc_requests g' = gc_requests g @ [(rnti, source, target)] \<and>
     (\<exists>ue. map_of (m_ueMap g') rnti = Some ue \<and> um_state ue = UM_HANDOVER_PREPARATION \<and> um_targetCellId ue = target)"

lemma trigger_prepares:
  assumes "serves g rnti cell" and "target \<noteq> cell"
  obtains g' where "DoTriggerHandover rnti target g = Inr g'" and "prepares g rnti cell target g'"
    and "gc_anr g' = None" and "gc_haveCcm g'"
  using assms
  by (force simp: serves_def prepares_def DoTriggerHandover_def GetUeManager_def entry_of_def anr_allows_def
      PrepareHandover_def ComponentCarrierToCellId_def)

lemma recv_handover:
  assumes "gc_algorithm g = Some alg" and "mm_measId m \<in> set (m_handoverMeasIds g)"
    and "ho_DoReportUeMeas alg rnti m g = Inr g'" and "gc_anr g' = None" and "gc_haveCcm g'"
  shows "RecvMeasurementReport rnti m g = Inr g'"
  using assms by (simp add: RecvMeasurementReport_def)

lemma encode_cell_rsrp: "encode_cell c v = Inr e \<Longrightarrow> ce_rsrpResult e = Dbm2RsrpRange (mv_rsrp v)"
  by (auto simp: encode_cell_def split: option.splits)

lemma mr_haveNeighCells: "make_report measId rc r u = Inr msg \<Longrightarrow> mr_haveNeighCells msg = (mr_list msg \<noteq> []) \<and> mr_measId msg = measId"
  by (auto simp: make_report_def)

abbreviation reported :: "meas_results \<Rightarrow> (nat \<times> nat) list" where
  "reported msg \<equiv> map (\<lambda>e. (ce_physCellId e, ce_rsrpResult e)) (mr_list msg)"

text \<open>What the algorithm does with a report of the UE, and which of the reported cells it finds best.\<close>

lemma a3_decision:
  assumes "make_report measId rc r u = Inr msg" and "measId \<in> set (a3_measIds a)"
  shows "ho_DoReportUeMeas (A3_Rsrp a) rnti (received msg) g =
    (if mr_list msg \<noteq> [] then
       (let best = fst (best_neighbour (0, 0) (reported msg)) in if 0 < best then DoTriggerHandover rnti best g else Inr g)
     else Inr g)"
  using assms(2) mr_haveNeighCells [OF assms(1)]
  by (simp add: ho_DoReportUeMeas_def A3_DoReportUeMeas_def received_def filter_map o_def)

lemma best_reported:
  assumes rep: "make_report measId rc r u = Inr msg" and dist: "distinct (vr_cellsTriggeredList r)"
    and rc: "rc_triggerQuantity rc = RSRP" "0 < rc_maxReportCells rc"
  defines "ns \<equiv> set (vr_cellsTriggeredList r) - {ue_cellId u}"
  shows "(mr_list msg = [] \<longrightarrow> ns = {}) \<and>
    (mr_list msg \<noteq> [] \<longrightarrow> (\<exists>c\<in>ns. (\<forall>d\<in>ns. strength RSRP u d \<le> strength RSRP u c) \<and>
      best_neighbour (0, 0) (reported msg) =
        (if Dbm2RsrpRange (strength RSRP u c) = 0 then (0, 0) else (c, Dbm2RsrpRange (strength RSRP u c)))))"
proof (cases "mr_list msg")
  case Nil
  then have "min (rc_maxReportCells rc) (card ns) = 0"
    using report_names_strongest [OF rep dist, folded ns_def] by simp
  then have "card ns = 0" using rc(2) by linarith
  with Nil show ?thesis by (simp add: ns_def)
next
  case (Cons e es)
  let ?s = "strength RSRP u"
  note names = report_names_strongest [OF rep dist, unfolded rc(1), folded ns_def]
  have "ce_rsrpResult x = Dbm2RsrpRange (?s (ce_physCellId x))" if "x \<in> set (mr_list msg)" for x
  proof -
    from names that obtain v where v: "map_of (m_storedMeasValues u) (ce_physCellId x) = Some v"
      "encode_cell (ce_physCellId x) v = Inr x" by blast
    from encode_cell_rsrp [OF v(2)] v(1) show ?thesis by (simp add: strength_def value_of_def)
  qed
  then have vs: "reported msg = map (\<lambda>c. (c, Dbm2RsrpRange (?s c))) (map ce_physCellId (mr_list msg))" by simp
  define c where "c = ce_physCellId e"
  have c: "c \<in> ns" using names Cons by (simp add: c_def)
  have top: "?s d \<le> ?s c" if "d \<in> ns" for d
    using names that Cons by (cases "d \<in> set (map ce_physCellId (mr_list msg))") (auto simp: c_def)
  have hd: "reported msg = (c, Dbm2RsrpRange (?s c)) # tl (reported msg)" and
    tl: "\<forall>x\<in>set (tl (reported msg)). snd x \<le> Dbm2RsrpRange (?s c)"
    using names by (auto simp only: vs) (auto simp: Cons c_def intro!: rsrp_range_mono)
  have "best_neighbour (0, 0) ((c, n) # xs) = (if n = 0 then (0, 0) else (c, n))" if "\<forall>x\<in>set xs. snd x \<le> n" for n xs
    using that by (auto simp: best_neighbour_stays)
  from this [OF tl, folded hd] have "best_neighbour (0, 0) (reported msg) =
      (if Dbm2RsrpRange (?s c) = 0 then (0, 0) else (c, Dbm2RsrpRange (?s c)))" .
  then show ?thesis using c top Cons by (intro conjI impI bexI [of _ c]) simp_all
qed

text \<open>
  C11: Let a gNB without neighbour relations (ANR) serve a connected UE. A report on RSRP that the UE makes for an
  identity of the A3 algorithm is processed without abort. When
  some triggered neighbour has a positive range value, the gNB prepares the handover to a strongest
  of them, otherwise it requests none.
\<close>

theorem a3_hands_over_to_strongest:
  assumes rep: "make_report measId rc r u = Inr msg" and dist: "distinct (vr_cellsTriggeredList r)"
    and rc: "rc_triggerQuantity rc = RSRP" "0 < rc_maxReportCells rc"
    and cells: "0 \<notin> set (vr_cellsTriggeredList r)"
    and alg: "gc_algorithm g = Some (A3_Rsrp a)" "measId \<in> set (a3_measIds a)" "measId \<in> set (m_handoverMeasIds g)"
    and sv: "serves g rnti (ue_cellId u)"
  defines "ns \<equiv> set (vr_cellsTriggeredList r) - {ue_cellId u}"
  shows "\<exists>g'. RecvMeasurementReport rnti (received msg) g = Inr g' \<and>
    (if \<forall>c\<in>ns. Dbm2RsrpRange (strength RSRP u c) = 0 then gc_requests g' = gc_requests g
     else \<exists>c\<in>ns. (\<forall>d\<in>ns. strength RSRP u d \<le> strength RSRP u c) \<and> prepares g rnti (ue_cellId u) c g')"
proof -
  let ?s = "strength RSRP u"
  note ho = a3_decision [OF rep alg(2), of rnti g]
  have quiet: "gc_anr g = None" "gc_haveCcm g" using sv by (simp_all add: serves_def)
  have recv: "ho_DoReportUeMeas (A3_Rsrp a) rnti (received msg) g = Inr g' \<Longrightarrow> gc_anr g' = None \<Longrightarrow> gc_haveCcm g' \<Longrightarrow>
      RecvMeasurementReport rnti (received msg) g = Inr g'" for g'
    by (rule recv_handover [OF alg(1)]) (use alg(3) mr_haveNeighCells [OF rep] in \<open>simp_all add: received_def\<close>)
  show ?thesis
  proof (cases "mr_list msg = []")
    case True
    then have "ns = {}" using best_reported [OF rep dist rc] by (simp add: ns_def)
    then show ?thesis using recv [of g] ho quiet True by simp
  next
    case False
    then obtain c where c: "c \<in> ns" "\<forall>d\<in>ns. ?s d \<le> ?s c" and best: "best_neighbour (0, 0) (reported msg) =
        (if Dbm2RsrpRange (?s c) = 0 then (0, 0) else (c, Dbm2RsrpRange (?s c)))"
      using best_reported [OF rep dist rc] by (auto simp: ns_def)
    show ?thesis
    proof (cases "Dbm2RsrpRange (?s c) = 0")
      case True
      then have "\<forall>d\<in>ns. Dbm2RsrpRange (?s d) = 0" using c(2) rsrp_range_mono by (metis le_zero_eq)
      with True show ?thesis using recv [of g] ho quiet best by simp
    next
      case pos: False
      have "0 < c" "c \<noteq> ue_cellId u" using c(1) cells by (auto simp: ns_def intro: gr0I)
      then obtain g' where "ho_DoReportUeMeas (A3_Rsrp a) rnti (received msg) g = Inr g'"
        and g': "prepares g rnti (ue_cellId u) c g'" "gc_anr g' = None" "gc_haveCcm g'"
        using trigger_prepares [OF sv] ho False pos best by (auto simp: Let_def)
      then have "RecvMeasurementReport rnti (received msg) g = Inr g'" by (intro recv)
      with c pos g'(1) show ?thesis by auto
    qed
  qed
qed

text \<open>A gNB with the A3 algorithm that serves the UE of the example.\<close>

definition ex_gnb :: gnb_rrc where
  "ex_gnb = \<lparr>gc_carriers = [(100, 1)], gc_numberOfComponentCarriers = 1, gc_objects = meas_objects [(100, 1)],
     gc_reportConfigs = [(1, ex_rc)], gc_measIds = [\<lparr>mi_measId = 1, mi_measObjectId = 1, mi_reportConfigId = 1\<rparr>],
     gc_quantity = (4, 4), m_handoverMeasIds = [1], m_anrMeasIds = [], m_componentCarrierMeasIds = [],
     m_ueMap = [(7, \<lparr>um_state = UM_CONNECTED_NORMALLY, um_componentCarrierId = 0, um_targetCellId = 0\<rparr>)],
     gc_algorithm = Some (A3_Rsrp \<lparr>a3_hysteresisDb = 3, a3_timeToTrigger = 0, a3_measIds = [1]\<rparr>),
     gc_anr = None, gc_haveCcm = True, gc_requests = []\<rparr>"

theorem a3_hands_over_to_strongest_witness:
  "\<exists>msg g' c. make_report 1 ex_rc ex_report ex_ue = Inr msg \<and> RecvMeasurementReport 7 (received msg) ex_gnb = Inr g' \<and>
     gc_requests g' = [(7, 1, c)]"
proof -
  have "\<exists>msg. make_report 1 ex_rc ex_report ex_ue = Inr msg"
    by (simp add: make_report_def ex_rc_def ex_report_def ex_ue_def entry_of_def encode_cell_def serving_cells_def
        sort_neighbours_def encode_cells_def value_of_def)
  then obtain msg where msg: "make_report 1 ex_rc ex_report ex_ue = Inr msg" by blast
  have ns: "set (vr_cellsTriggeredList ex_report) - {ue_cellId ex_ue} = {2, 3}"
    by (auto simp: ex_report_def ex_ue_def)
  have s: "Dbm2RsrpRange (strength RSRP ex_ue 2) \<noteq> 0"
    by (simp add: strength_def ex_ue_def value_of_def Dbm2RsrpRange_def)
  have "serves ex_gnb 7 (ue_cellId ex_ue)" by (simp add: serves_def ex_gnb_def ex_ue_def)
  from a3_hands_over_to_strongest [OF msg _ _ _ _ _ _ _ this, unfolded ns,
      of "\<lparr>a3_hysteresisDb = 3, a3_timeToTrigger = 0, a3_measIds = [1]\<rparr>"] s
  obtain g' c where "RecvMeasurementReport 7 (received msg) ex_gnb = Inr g'" "prepares ex_gnb 7 (ue_cellId ex_ue) c g'"
    by (fastforce simp: ex_gnb_def ex_rc_def ex_report_def split: if_splits)
  with msg show ?thesis by (auto simp: prepares_def ex_gnb_def ex_ue_def)
qed

section \<open>The A2-A4 algorithm\<close>

text \<open>
  C12: Let a gNB without neighbour relations (ANR) serve a connected UE, and let the UE's row of the table name
  neither the serving cell nor a cell 0. A report for event A2 leads to a handover exactly when some neighbour in the UE's row of the table has a
  positive RSRQ that exceeds the reported one by the offset; the target then has the largest RSRQ of the row. The
  report is processed without abort when it is within the threshold.
\<close>

theorem a2a4_hands_over_iff:
  assumes alg: "gc_algorithm g = Some (A2A4_Rsrq a)" "mm_measId m \<in> set (m_a2MeasIds a)" "mm_measId m \<in> set (m_handoverMeasIds g)"
    and valid: "mm_pcell_rsrq m \<le> m_servingCellThreshold a"
    and sv: "serves g rnti cell"
    and row: "map_of (m_neighbourCellMeasures a) rnti = Some row" "0 \<notin> fst ` set row" "cell \<notin> fst ` set row"
  shows "\<exists>g'. RecvMeasurementReport rnti m g = Inr g' \<and>
    (if \<exists>(c, v)\<in>set row. 0 < v \<and> int v - int (mm_pcell_rsrq m) \<ge> int (m_neighbourCellOffset a)
     then \<exists>(c, v)\<in>set row. (\<forall>(d, w)\<in>set row. w \<le> v) \<and> prepares g rnti cell c g'
     else gc_requests g' = gc_requests g)"
proof -
  obtain c v where b: "best_neighbour (0, 0) row = (c, v)" by fastforce
  note mx = best_neighbour_max [OF b, simplified]
  have quiet: "gc_anr g = None" "gc_haveCcm g" using sv by (simp_all add: serves_def)
  have ho: "ho_DoReportUeMeas (A2A4_Rsrq a) rnti m g =
      (if 0 < c \<and> int v - int (mm_pcell_rsrq m) \<ge> int (m_neighbourCellOffset a) then DoTriggerHandover rnti c g else Inr g)"
    using alg(2) valid row(1) b by (simp add: ho_DoReportUeMeas_def A2A4_DoReportUeMeas_def EvaluateHandover_def)
  show ?thesis
  proof (cases "(c, v) \<in> set row \<and> 0 < v \<and> int v - int (mm_pcell_rsrq m) \<ge> int (m_neighbourCellOffset a)")
    case True
    then have "0 < c" "c \<noteq> cell" using row(2,3) by (force intro: gr0I)+
    then obtain g' where "ho_DoReportUeMeas (A2A4_Rsrq a) rnti m g = Inr g'"
      and g': "prepares g rnti cell c g'" "gc_anr g' = None" "gc_haveCcm g'"
      using trigger_prepares [OF sv] ho True by (metis (no_types, lifting))
    then have "RecvMeasurementReport rnti m g = Inr g'" by (intro recv_handover [OF alg(1,3)])
    then show ?thesis using True g'(1) mx by fastforce
  next
    case False
    have none: "\<not> (\<exists>(c, v)\<in>set row. 0 < v \<and> int v - int (mm_pcell_rsrq m) \<ge> int (m_neighbourCellOffset a))"
      using False mx by fastforce
    have "\<not> (0 < c \<and> int v - int (mm_pcell_rsrq m) \<ge> int (m_neighbourCellOffset a))"
      using False mx by auto
    then have "ho_DoReportUeMeas (A2A4_Rsrq a) rnti m g = Inr g" unfolding ho by (rule if_not_P)
    then have "RecvMeasurementReport rnti m g = Inr g" using quiet by (intro recv_handover [OF alg(1,3)])
    then show ?thesis using none by auto
  qed
qed

definition ex_table :: a2a4_rsrq where
  "ex_table = \<lparr>m_servingCellThreshold = 30, m_neighbourCellOffset = 1, m_a2MeasIds = [1], m_a4MeasIds = [2],
     m_neighbourCellMeasures = [(7, [(2, 20), (3, 25)])]\<rparr>"

definition ex_gnb2 :: gnb_rrc where
  "ex_gnb2 = ex_gnb\<lparr>gc_algorithm := Some (A2A4_Rsrq ex_table), m_handoverMeasIds := [1, 2]\<rparr>"

theorem a2a4_hands_over_iff_witness:
  "\<exists>g' c. RecvMeasurementReport 7 \<lparr>mm_measId = 1, mm_pcell_rsrp = 40, mm_pcell_rsrq = 10, mm_haveNeighCells = False,
     mm_list = []\<rparr> ex_gnb2 = Inr g' \<and> gc_requests g' = [(7, 1, c)]"
proof -
  have "serves ex_gnb2 7 1" by (simp add: serves_def ex_gnb2_def ex_gnb_def)
  from a2a4_hands_over_iff [OF _ _ _ _ this, of ex_table "\<lparr>mm_measId = 1, mm_pcell_rsrp = 40, mm_pcell_rsrq = 10,
      mm_haveNeighCells = False, mm_list = []\<rparr>" "[(2, 20), (3, 25)]"]
  show ?thesis by (auto simp: ex_gnb2_def ex_gnb_def ex_table_def prepares_def)
qed

text \<open>The table after a report for event A4: the last value reported for a cell, otherwise the one before.\<close>

definition table_value :: "a2a4_rsrq \<Rightarrow> nat \<Rightarrow> nat \<Rightarrow> nat option" where
  "table_value a rnti c = (case map_of (m_neighbourCellMeasures a) rnti of None \<Rightarrow> None | Some row \<Rightarrow> map_of row c)"

lemma table_value_update:
  "table_value (UpdateNeighbourMeasurements rnti c q a) rnti' c' =
     (if rnti' = rnti \<and> c' = c then Some q else table_value a rnti' c')"
  by (auto simp: table_value_def UpdateNeighbourMeasurements_def split: option.splits)

lemma update_keeps_ids:
  "m_a2MeasIds (UpdateNeighbourMeasurements rnti c q a) = m_a2MeasIds a"
  "m_a4MeasIds (UpdateNeighbourMeasurements rnti c q a) = m_a4MeasIds a"
  by (simp_all add: UpdateNeighbourMeasurements_def)

lemma a4_table_loop:
  assumes "\<forall>e\<in>set es. er_rsrqResult e \<noteq> None"
  shows "\<exists>a'. res_fold (\<lambda>e a. case er_rsrqResult e of None \<Rightarrow> Inl MissingResult
        | Some q \<Rightarrow> Inr (UpdateNeighbourMeasurements rnti (er_physCellId e) q a)) es a = Inr a' \<and>
      (\<forall>i c. table_value a' i c =
         (if i = rnti \<and> c \<in> er_physCellId ` set es
          then map_of (rev (map (\<lambda>e. (er_physCellId e, the (er_rsrqResult e))) es)) c else table_value a i c))"
  using assms
proof (induction es arbitrary: a)
  case (Cons e es)
  then obtain q where q: "er_rsrqResult e = Some q" by auto
  from Cons.IH [of "UpdateNeighbourMeasurements rnti (er_physCellId e) q a"] Cons.prems obtain a' where
    f: "res_fold (\<lambda>e a. case er_rsrqResult e of None \<Rightarrow> Inl MissingResult
        | Some q \<Rightarrow> Inr (UpdateNeighbourMeasurements rnti (er_physCellId e) q a)) es
        (UpdateNeighbourMeasurements rnti (er_physCellId e) q a) = Inr a'" and
    t: "\<And>i c. table_value a' i c =
         (if i = rnti \<and> c \<in> er_physCellId ` set es
          then map_of (rev (map (\<lambda>e. (er_physCellId e, the (er_rsrqResult e))) es)) c
          else table_value (UpdateNeighbourMeasurements rnti (er_physCellId e) q a) i c)"
    by auto
  have dom: "c \<in> er_physCellId ` set es \<longleftrightarrow> map_of (rev (map (\<lambda>e. (er_physCellId e, the (er_rsrqResult e))) es)) c \<noteq> None" for c
    by (force simp: map_of_eq_None_iff)
  show ?case
    by (rule exI [of _ a'])
      (use f t dom q in \<open>auto simp: table_value_update map_add_def split: option.splits\<close>)
qed simp

section \<open>Neighbour relations\<close>

text \<open>With neighbour relations a handover is prepared only towards a known neighbour that allows it.\<close>

lemma anr_guards_handover:
  assumes "DoTriggerHandover rnti target g = Inr g'" and "gc_anr g = Some a" and "gc_requests g' \<noteq> gc_requests g"
  shows "HasCellId g target \<or> (\<exists>r. map_of (m_neighbourRelationTable a) target = Some r \<and> \<not> nr_noHo r \<and> \<not> nr_noX2 r)"
  using assms
  by (auto simp: DoTriggerHandover_def anr_allows_def GetNoHo_def GetNoX2_def Find_def entry_of_def
      split: if_splits option.splits)

lemma unknown_target_aborts:
  assumes "gc_anr g = Some a" and "map_of (m_neighbourRelationTable a) target = None" and "\<not> HasCellId g target"
    and "GetUeManager g rnti = Inr ue"
  shows "DoTriggerHandover rnti target g = Inl MissingEntry"
  using assms by (simp add: DoTriggerHandover_def anr_allows_def GetNoHo_def Find_def entry_of_def)

text \<open>A neighbour that was only detected never allows a handover, one that was added does once it is detected.\<close>

lemma detected_only_blocked:
  assumes "map_of (m_neighbourRelationTable a) c = None"
  shows "map_of (m_neighbourRelationTable (detect c a)) c =
      Some \<lparr>nr_noRemove = False, nr_noHo = True, nr_noX2 = True, nr_detectedAsNeighbour = True\<rparr>"
    and "map_of (m_neighbourRelationTable (detect c (detect c a))) c = map_of (m_neighbourRelationTable (detect c a)) c"
  using assms by (simp_all add: detect_def)

lemma added_then_detected:
  assumes "AddNeighbourRelation c a = Inr a'"
  shows "map_of (m_neighbourRelationTable (detect c a')) c =
    Some \<lparr>nr_noRemove = True, nr_noHo = False, nr_noX2 = False, nr_detectedAsNeighbour = True\<rparr>"
  using assms by (auto simp: AddNeighbourRelation_def detect_def)

text \<open>No relation can be removed: the call never returns normally.\<close>

lemma relation_never_removed: "\<exists>e. RemoveNeighbourRelation c a = Inl e"
  by (simp add: RemoveNeighbourRelation_def)

end
