(* ===== verification/Ue_Configuration.thy ===== *)
theory Ue_Configuration
  imports Handover_Laws
begin

text \<open>
  The measurement configuration at both ends: the identities a gNB assigns are distinct and refer to its
  objects and report configurations as long as they fit a byte; a UE whose configuration is consistent
  accepts such a configuration without abort and stays consistent.
\<close>

section \<open>Consistency of a UE\<close>

text \<open>Both queues of an identity exist and hold only triggers of that identity.\<close>

definition waits_ok :: "ue_rrc \<Rightarrow> nat \<Rightarrow> bool" where
  "waits_ok u k \<longleftrightarrow> (\<forall>q. \<exists>ps. map_of (queue_of q u) k = Some ps \<and> (\<forall>p\<in>set ps. pt_measId p = k))"

definition ids_ok :: "ue_rrc \<Rightarrow> bool" where
  "ids_ok u \<longleftrightarrow> smap_ok (vc_measIdList u) \<and>
     (\<forall>(k, mi)\<in>set (vc_measIdList u). mi_measId mi = k \<and> waits_ok u k)"

definition refs_ok :: "ue_rrc \<Rightarrow> bool" where
  "refs_ok u \<longleftrightarrow> (\<forall>(k, mi)\<in>set (vc_measIdList u).
     map_of (vc_measObjectList u) (mi_measObjectId mi) \<noteq> None \<and>
     map_of (vc_reportConfigList u) (mi_reportConfigId mi) \<noteq> None)"

definition events_ok :: "ue_rrc \<Rightarrow> bool" where
  "events_ok u \<longleftrightarrow> (\<forall>i rc. map_of (vc_reportConfigList u) i = Some rc \<longrightarrow> rc_triggerType rc = EVENT)"

definition ue_ok :: "ue_rrc \<Rightarrow> bool" where
  "ue_ok u \<longleftrightarrow> ids_ok u \<and> refs_ok u \<and> events_ok u"

definition keeps_waits :: "ue_rrc \<Rightarrow> ue_rrc \<Rightarrow> bool" where
  "keeps_waits u u' \<longleftrightarrow> (\<forall>k. waits_ok u k \<longrightarrow> waits_ok u' k)"

text \<open>The same configuration and no queue lost.\<close>

definition clears :: "ue_rrc \<Rightarrow> ue_rrc \<Rightarrow> bool" where
  "clears u u' \<longleftrightarrow>
     vc_measIdList u' = vc_measIdList u \<and> vc_measObjectList u' = vc_measObjectList u \<and>
     vc_reportConfigList u' = vc_reportConfigList u \<and> (\<forall>k. waits_ok u k \<longrightarrow> waits_ok u' k)"

lemma clears_refl [simp]: "clears u u"
  by (simp add: clears_def)

lemma clears_trans: "clears u u' \<Longrightarrow> clears u' u'' \<Longrightarrow> clears u u''"
  by (simp add: clears_def)

lemma queue_of_upd_queue [simp]:
  "queue_of q' (upd_queue q k ps u) = (if q' = q then smap_upd k ps (queue_of q u) else queue_of q' u)"
  by (cases q; cases q') (simp_all add: upd_queue_def set_queue_def queue_of_def)

lemma vc_upd_queue [simp]:
  "vc_measIdList (upd_queue q k ps u) = vc_measIdList u"
  "vc_measObjectList (upd_queue q k ps u) = vc_measObjectList u"
  "vc_reportConfigList (upd_queue q k ps u) = vc_reportConfigList u"
  by (cases q; simp add: upd_queue_def set_queue_def)+

lemma cancel_all:
  "\<forall>p\<in>set ps. pt_measId p = k \<Longrightarrow>
    \<exists>sim'. res_fold (\<lambda>p st. abort_if (pt_measId p \<noteq> k) MissingEntry (Inr (cancel_id (pt_timer p) st))) ps (u, sim) = Inr (u, sim')"
  by (induction ps arbitrary: sim) (auto simp: cancel_id_def)

lemma CancelTrigger_total:
  assumes "waits_ok u k"
  shows "\<exists>sim'. CancelTrigger q k (u, sim) = Inr (upd_queue q k [] u, sim')"
proof -
  from assms obtain ps where ps: "map_of (queue_of q u) k = Some ps" "\<forall>p\<in>set ps. pt_measId p = k"
    unfolding waits_ok_def by blast
  with cancel_all [OF ps(2), of u sim] show ?thesis by (auto simp: CancelTrigger_def on_world_def)
qed

lemma waits_upd_queue: "waits_ok u k' \<Longrightarrow> waits_ok (upd_queue q k [] u) k'"
  unfolding waits_ok_def by (auto simp: fun_upd_apply) 

lemma clear_total:
  assumes "waits_ok u k"
  shows "\<exists>u' sim'. VarMeasReportListClear k (u, sim) = Inr (u', sim') \<and> clears u u'"
proof -
  define st1 where "st1 = (case map_of (m_varMeasReportList u) k of None \<Rightarrow> (u, sim)
    | Some r \<Rightarrow> on_world (\<lambda>u. u\<lparr>m_varMeasReportList := smap_del k (m_varMeasReportList u)\<rparr>)
                  (cancel_id (vr_periodicReportTimer r) (u, sim)))"
  have q: "queue_of q (fst st1) = queue_of q u" for q
    by (cases q) (auto simp: st1_def queue_of_def on_world_def cancel_id_def split: option.splits)
  have vc: "vc_measIdList (fst st1) = vc_measIdList u" "vc_measObjectList (fst st1) = vc_measObjectList u"
    "vc_reportConfigList (fst st1) = vc_reportConfigList u"
    by (auto simp: st1_def on_world_def cancel_id_def split: option.splits)
  have w1: "waits_ok (fst st1) k'" if "waits_ok u k'" for k' using that by (simp add: waits_ok_def q)
  from CancelTrigger_total [OF w1 [OF assms], of Entering "snd st1"] obtain sim2 where
    1: "CancelTrigger Entering k st1 = Inr (upd_queue Entering k [] (fst st1), sim2)" by auto
  from CancelTrigger_total [OF waits_upd_queue [OF w1 [OF assms]], of Leaving Entering k sim2] obtain sim3 where
    2: "CancelTrigger Leaving k (upd_queue Entering k [] (fst st1), sim2) =
      Inr (upd_queue Leaving k [] (upd_queue Entering k [] (fst st1)), sim3)" by blast
  have "VarMeasReportListClear k (u, sim) = Inr (upd_queue Leaving k [] (upd_queue Entering k [] (fst st1)), sim3)"
    using 1 2 by (simp add: VarMeasReportListClear_def CancelEnteringTrigger_def CancelLeavingTrigger_def flip: st1_def)
  moreover have "clears u (upd_queue Leaving k [] (upd_queue Entering k [] (fst st1)))"
    using w1 vc by (simp add: clears_def waits_upd_queue)
  ultimately show ?thesis by blast
qed

lemma ids_ok_clears: "ids_ok u \<Longrightarrow> clears u u' \<Longrightarrow> ids_ok u'"
  by (auto simp: ids_ok_def clears_def)

lemma refs_ok_clears: "refs_ok u \<Longrightarrow> clears u u' \<Longrightarrow> refs_ok u'"
  by (auto simp: refs_ok_def clears_def)

lemma clear_where_total:
  assumes "ids_ok u"
  shows "\<exists>u' sim'. clear_where P (u, sim) = Inr (u', sim') \<and> clears u u'"
proof -
  have "\<exists>st'. clear_where P (u, sim) = Inr st' \<and> clears u (fst st')"
    unfolding clear_where_def fst_conv
  proof (rule res_fold_returns)
    fix x and st :: ue_st
    assume "x \<in> set (vc_measIdList u)" and c: "clears u (fst st)"
    then have "waits_ok (fst st) (mi_measId (snd x))" using assms by (auto simp: ids_ok_def clears_def)
    from clear_total [OF this, of "snd st"] c
    show "\<exists>st'. (case x of (k, mi) \<Rightarrow> \<lambda>st. if P mi then VarMeasReportListClear (mi_measId mi) st else Inr st) st = Inr st' \<and>
        clears u (fst st')"
      by (cases "P (snd x)") (auto simp: split_beta intro: clears_trans)
  qed simp
  then show ?thesis by (metis fst_conv prod.collapse)
qed

text \<open>Some identities removed, nothing else lost.\<close>

definition drops :: "(nat \<times> meas_id \<Rightarrow> bool) \<Rightarrow> ue_rrc \<Rightarrow> ue_rrc \<Rightarrow> bool" where
  "drops D u u' \<longleftrightarrow>
     vc_measIdList u' = filter (\<lambda>e. \<not> D e) (vc_measIdList u) \<and> vc_measObjectList u' = vc_measObjectList u \<and>
     vc_reportConfigList u' = vc_reportConfigList u \<and> (\<forall>k. waits_ok u k \<longrightarrow> waits_ok u' k)"

lemma ids_ok_drops: "ids_ok u \<Longrightarrow> drops D u u' \<Longrightarrow> ids_ok u'"
  by (auto simp: ids_ok_def drops_def smap_ok_filter)

lemma refs_ok_drops: "refs_ok u \<Longrightarrow> drops D u u' \<Longrightarrow> refs_ok u'"
  by (auto simp: refs_ok_def drops_def)

lemma smap_keys_unique:
  "smap_ok m \<Longrightarrow> (k, v) \<in> set m \<Longrightarrow> (k, v') \<in> set m \<Longrightarrow> v = v'"
  by (induction m) (auto simp: smap_ok_Cons)

lemma remove_loop:
  assumes "\<forall>(k, mi)\<in>set xs. mi_measId mi = k \<and> waits_ok u k"
  shows "\<exists>u' sim'. res_fold (\<lambda>(k, mi) st. if P mi
        then abort_if (mi_measId mi \<noteq> k) MissingEntry (VarMeasReportListClear (mi_measId mi)
          (on_world (\<lambda>u. u\<lparr>vc_measIdList := smap_del k (vc_measIdList u)\<rparr>) st))
        else Inr st) xs (u, sim) = Inr (u', sim') \<and> drops (\<lambda>e. \<exists>x\<in>set xs. fst x = fst e \<and> P (snd x)) u u'"
  using assms
proof (induction xs arbitrary: u sim)
  case Nil
  show ?case by (simp add: drops_def)
next
  case (Cons x xs)
  obtain k mi where x: "x = (k, mi)" by fastforce
  define D where "D = (\<lambda>e::nat \<times> meas_id. fst e = k \<and> P mi)"
  obtain u1 sim1 where 1: "(if P mi then abort_if (mi_measId mi \<noteq> k) MissingEntry (VarMeasReportListClear (mi_measId mi)
        (on_world (\<lambda>u. u\<lparr>vc_measIdList := smap_del k (vc_measIdList u)\<rparr>) (u, sim))) else Inr (u, sim)) = Inr (u1, sim1)"
    and d: "drops D u u1"
  proof (cases "P mi")
    case True
    let ?u = "u\<lparr>vc_measIdList := smap_del k (vc_measIdList u)\<rparr>"
    have q: "queue_of q ?u = queue_of q u" for q by (cases q) (simp_all add: queue_of_def)
    then have w: "waits_ok ?u k' = waits_ok u k'" for k' by (simp add: waits_ok_def)
    from clear_total [of ?u k sim] w Cons.prems obtain u1 sim1 where
      "VarMeasReportListClear k (?u, sim) = Inr (u1, sim1)" "clears ?u u1" by (auto simp: x)
    then show thesis using that [of u1 sim1] True Cons.prems w
      by (auto simp: x on_world_def clears_def drops_def D_def smap_del_def)
  next
    case False
    then show thesis using that [of u sim] by (simp add: drops_def D_def)
  qed
  have "\<forall>(k, mi)\<in>set xs. mi_measId mi = k \<and> waits_ok u1 k" using Cons.prems d by (auto simp: drops_def)
  from Cons.IH [OF this, of sim1] obtain u2 sim2 where
    2: "res_fold (\<lambda>(k, mi) st. if P mi
        then abort_if (mi_measId mi \<noteq> k) MissingEntry (VarMeasReportListClear (mi_measId mi)
          (on_world (\<lambda>u. u\<lparr>vc_measIdList := smap_del k (vc_measIdList u)\<rparr>) st))
        else Inr st) xs (u1, sim1) = Inr (u2, sim2)"
    and d2: "drops (\<lambda>e. \<exists>x\<in>set xs. fst x = fst e \<and> P (snd x)) u1 u2" by blast
  have "drops (\<lambda>e. \<exists>x\<in>set (x # xs). fst x = fst e \<and> P (snd x)) u u2"
    using d d2 by (auto simp: drops_def D_def x filter_filter intro!: filter_cong)
  then show ?case using 1 2 by (auto simp: x)
qed

lemma remove_where_total:
  assumes "ids_ok u"
  shows "\<exists>u' sim'. remove_where P (u, sim) = Inr (u', sim') \<and> drops (\<lambda>e. P (snd e)) u u'"
proof -
  have ok: "\<forall>(k, mi)\<in>set (vc_measIdList u). mi_measId mi = k \<and> waits_ok u k" and m: "smap_ok (vc_measIdList u)"
    using assms by (simp_all add: ids_ok_def)
  from remove_loop [OF ok, of P sim] obtain u' sim' where
    1: "remove_where P (u, sim) = Inr (u', sim')"
    and d: "drops (\<lambda>e. \<exists>x\<in>set (vc_measIdList u). fst x = fst e \<and> P (snd x)) u u'"
    by (auto simp: remove_where_def)
  have "(\<exists>x\<in>set (vc_measIdList u). fst x = fst e \<and> P (snd x)) = P (snd e)" if "e \<in> set (vc_measIdList u)" for e
    using smap_keys_unique [OF m] that by (metis prod.collapse)
  then have "filter (\<lambda>e. \<not> (\<exists>x\<in>set (vc_measIdList u). fst x = fst e \<and> P (snd x))) (vc_measIdList u) =
      filter (\<lambda>e. \<not> P (snd e)) (vc_measIdList u)" by (intro filter_cong) auto
  with d have "drops (\<lambda>e. P (snd e)) u u'" by (simp add: drops_def)
  with 1 show ?thesis by blast
qed

section \<open>Each step of a configuration\<close>

lemma waits_ok_cong: "(\<And>q. queue_of q u' = queue_of q u) \<Longrightarrow> waits_ok u' k = waits_ok u k"
  by (simp add: waits_ok_def)

lemma queue_of_vc [simp]:
  "queue_of q (u\<lparr>vc_measObjectList := a\<rparr>) = queue_of q u"
  "queue_of q (u\<lparr>vc_reportConfigList := b\<rparr>) = queue_of q u"
  "queue_of q (u\<lparr>vc_measIdList := c\<rparr>) = queue_of q u"
  "queue_of q (u\<lparr>vc_quantityConfig := d, ue_phy_calls := e, vc_aRsrp := f, vc_aRsrq := h\<rparr>) = queue_of q u"
  "queue_of q (u\<lparr>m_varMeasReportList := r\<rparr>) = queue_of q u"
  by (cases q; simp add: queue_of_def)+

lemma ids_ok_vc [simp]:
  "ids_ok (u\<lparr>vc_measObjectList := a\<rparr>) = ids_ok u"
  "ids_ok (u\<lparr>vc_reportConfigList := b\<rparr>) = ids_ok u"
  "ids_ok (u\<lparr>vc_quantityConfig := d, ue_phy_calls := e, vc_aRsrp := f, vc_aRsrq := h\<rparr>) = ids_ok u"
  by (simp_all add: ids_ok_def waits_ok_def)

lemma waits_ok_vc [simp]:
  "waits_ok (u\<lparr>vc_measObjectList := a\<rparr>) k = waits_ok u k"
  "waits_ok (u\<lparr>vc_reportConfigList := b\<rparr>) k = waits_ok u k"
  "waits_ok (u\<lparr>vc_quantityConfig := d, ue_phy_calls := e, vc_aRsrp := f, vc_aRsrq := h\<rparr>) k = waits_ok u k"
  by (simp_all add: waits_ok_def)

lemma remove_object_total:
  assumes "ue_ok u"
  shows "\<exists>u' sim'. remove_object i (u, sim) = Inr (u', sim') \<and> ue_ok u' \<and> keeps_waits u u' \<and>
    vc_measObjectList u' = smap_del i (vc_measObjectList u) \<and> vc_reportConfigList u' = vc_reportConfigList u"
proof -
  let ?u = "u\<lparr>vc_measObjectList := smap_del i (vc_measObjectList u)\<rparr>"
  from remove_where_total [of ?u "\<lambda>mi. mi_measObjectId mi = i" sim] assms obtain u' sim' where
    1: "remove_where (\<lambda>mi. mi_measObjectId mi = i) (?u, sim) = Inr (u', sim')"
    and d: "drops (\<lambda>e. mi_measObjectId (snd e) = i) ?u u'" by (auto simp: ue_ok_def)
  have "ids_ok u'" using ids_ok_drops [OF _ d] assms by (simp add: ue_ok_def)
  moreover have "refs_ok u'" "events_ok u'" using d assms by (auto simp: drops_def refs_ok_def events_ok_def ue_ok_def)
  ultimately show ?thesis using 1 d by (auto simp: remove_object_def on_world_def ue_ok_def drops_def keeps_waits_def)
qed

lemma remove_report_config_total:
  assumes "ue_ok u"
  shows "\<exists>u' sim'. remove_report_config i (u, sim) = Inr (u', sim') \<and> ue_ok u' \<and> keeps_waits u u' \<and>
    vc_measObjectList u' = vc_measObjectList u \<and> vc_reportConfigList u' = smap_del i (vc_reportConfigList u)"
proof -
  let ?u = "u\<lparr>vc_reportConfigList := smap_del i (vc_reportConfigList u)\<rparr>"
  from remove_where_total [of ?u "\<lambda>mi. mi_reportConfigId mi = i" sim] assms obtain u' sim' where
    1: "remove_where (\<lambda>mi. mi_reportConfigId mi = i) (?u, sim) = Inr (u', sim')"
    and d: "drops (\<lambda>e. mi_reportConfigId (snd e) = i) ?u u'" by (auto simp: ue_ok_def)
  have "ids_ok u'" using ids_ok_drops [OF _ d] assms by (simp add: ue_ok_def)
  moreover have "refs_ok u'" "events_ok u'"
    using d assms by (auto simp: drops_def refs_ok_def events_ok_def ue_ok_def split: if_splits)
  ultimately show ?thesis using 1 d by (auto simp: remove_report_config_def on_world_def ue_ok_def drops_def keeps_waits_def)
qed

definition object_supported :: "meas_object \<Rightarrow> bool" where
  "object_supported mo \<longleftrightarrow> mo_cellsToRemoveList mo = [] \<and> mo_cellsToAddModList mo = [] \<and>
     mo_blackCellsToAddModList mo = [] \<and> \<not> mo_haveCellForWhichToReportCGI mo"

lemma add_object_total:
  assumes "ue_ok u" and "object_supported mo"
  shows "\<exists>u' sim'. add_object (i, mo) (u, sim) = Inr (u', sim') \<and> ue_ok u' \<and> keeps_waits u u' \<and>
    vc_measObjectList u' = smap_upd i mo (vc_measObjectList u) \<and> vc_reportConfigList u' = vc_reportConfigList u"
proof -
  let ?u = "u\<lparr>vc_measObjectList := smap_upd i mo (vc_measObjectList u)\<rparr>"
  have u: "ids_ok ?u" "refs_ok ?u" "events_ok ?u" using assms(1) by (auto simp: ue_ok_def refs_ok_def events_ok_def)
  obtain u' sim' where 1: "(if map_of (vc_measObjectList u) i \<noteq> None then clear_where (\<lambda>mi. mi_measObjectId mi = i) (?u, sim)
      else Inr (?u, sim)) = Inr (u', sim')" and c: "clears ?u u'"
    using clear_where_total [OF u(1), of "\<lambda>mi. mi_measObjectId mi = i" sim] by (cases "map_of (vc_measObjectList u) i") auto
  have "add_object (i, mo) (u, sim) = Inr (u', sim')"
    using 1 assms(2) by (simp add: add_object_def object_supported_def on_world_def)
  moreover have "ue_ok u'"
    using ids_ok_clears [OF u(1) c] refs_ok_clears [OF u(2) c] u(3) c by (simp add: ue_ok_def events_ok_def clears_def)
  ultimately show ?thesis using c by (auto simp: clears_def keeps_waits_def)
qed

lemma add_report_config_total:
  assumes "ue_ok u" and "rc_triggerType rc = EVENT"
  shows "\<exists>u' sim'. add_report_config (i, rc) (u, sim) = Inr (u', sim') \<and> ue_ok u' \<and> keeps_waits u u' \<and>
    vc_measObjectList u' = vc_measObjectList u \<and> vc_reportConfigList u' = smap_upd i rc (vc_reportConfigList u)"
proof -
  let ?u = "u\<lparr>vc_reportConfigList := smap_upd i rc (vc_reportConfigList u)\<rparr>"
  have u: "ids_ok ?u" "refs_ok ?u" "events_ok ?u" using assms by (auto simp: ue_ok_def refs_ok_def events_ok_def)
  obtain u' sim' where 1: "(if map_of (vc_reportConfigList u) i \<noteq> None then clear_where (\<lambda>mi. mi_reportConfigId mi = i) (?u, sim)
      else Inr (?u, sim)) = Inr (u', sim')" and c: "clears ?u u'"
    using clear_where_total [OF u(1), of "\<lambda>mi. mi_reportConfigId mi = i" sim] by (cases "map_of (vc_reportConfigList u) i") auto
  have "add_report_config (i, rc) (u, sim) = Inr (u', sim')"
    using 1 assms(2) by (simp add: add_report_config_def on_world_def)
  moreover have "ue_ok u'"
    using ids_ok_clears [OF u(1) c] refs_ok_clears [OF u(2) c] u(3) c by (simp add: ue_ok_def events_ok_def clears_def)
  ultimately show ?thesis using c by (auto simp: clears_def keeps_waits_def)
qed

lemma set_quantity_config_total:
  assumes "ue_ok u"
  shows "\<exists>u' sim'. set_quantity_config qc (u, sim) = Inr (u', sim') \<and> ue_ok u' \<and> keeps_waits u u' \<and>
    vc_measObjectList u' = vc_measObjectList u \<and> vc_reportConfigList u' = vc_reportConfigList u"
proof -
  define u1 where "u1 = fst (on_world (\<lambda>u. u\<lparr>vc_quantityConfig := qc,
      ue_phy_calls := ue_phy_calls u @ map (\<lambda>i. SetRsrpFilterCoefficient i (fst qc)) [0..<length (ue_carriers u)],
      vc_aRsrp := (1 / 2) powr (real (fst qc) / 4), vc_aRsrq := (1 / 2) powr (real (snd qc) / 4)\<rparr>) (u, sim))"
  have u: "ids_ok u1" "refs_ok u1" "events_ok u1"
    and l: "vc_measObjectList u1 = vc_measObjectList u" "vc_reportConfigList u1 = vc_reportConfigList u"
      "\<And>k. waits_ok u1 k = waits_ok u k"
    using assms by (auto simp: u1_def on_world_def ue_ok_def refs_ok_def events_ok_def)
  from clear_where_total [OF u(1), of "\<lambda>_. True" sim] obtain u' sim' where
    1: "clear_where (\<lambda>_. True) (u1, sim) = Inr (u', sim')" and c: "clears u1 u'" by blast
  have "set_quantity_config qc (u, sim) = Inr (u', sim')"
    using 1 by (simp add: set_quantity_config_def u1_def on_world_def)
  moreover have "ue_ok u'"
    using ids_ok_clears [OF u(1) c] refs_ok_clears [OF u(2) c] u(3) c by (simp add: ue_ok_def events_ok_def clears_def)
  ultimately show ?thesis using c l by (auto simp: clears_def keeps_waits_def)
qed

lemma set_smap_upd_subset: "set (smap_upd k v m) \<subseteq> insert (k, v) (set m)"
  by (induction m) auto

lemma add_meas_id_total:
  assumes "ue_ok u" and "map_of (vc_measObjectList u) (mi_measObjectId mi) \<noteq> None"
    and "map_of (vc_reportConfigList u) (mi_reportConfigId mi) = Some rc"
  shows "\<exists>u' sim'. add_meas_id mi (u, sim) = Inr (u', sim') \<and> ue_ok u' \<and>
    vc_measObjectList u' = vc_measObjectList u \<and> vc_reportConfigList u' = vc_reportConfigList u \<and>
    vc_measIdList u' = smap_upd (mi_measId mi) mi (vc_measIdList u)"
proof -
  let ?i = "mi_measId mi"
  define u1 where "u1 = u\<lparr>vc_measIdList := smap_upd ?i mi (vc_measIdList u)\<rparr>"
  define st2 where "st2 = (case map_of (m_varMeasReportList u1) ?i of None \<Rightarrow> (u1, sim)
    | Some r \<Rightarrow> on_world (\<lambda>u. u\<lparr>m_varMeasReportList := smap_del ?i (m_varMeasReportList u)\<rparr>)
        (cancel_id (vr_periodicReportTimer r) (u1, sim)))"
  define u3 where "u3 = (fst st2)\<lparr>m_enteringTriggerQueue := smap_upd ?i [] (m_enteringTriggerQueue (fst st2)),
      m_leavingTriggerQueue := smap_upd ?i [] (m_leavingTriggerQueue (fst st2))\<rparr>"
  have l: "vc_measIdList u3 = smap_upd ?i mi (vc_measIdList u)" "vc_measObjectList u3 = vc_measObjectList u"
    "vc_reportConfigList u3 = vc_reportConfigList u"
    by (auto simp: u3_def st2_def u1_def on_world_def cancel_id_def split: option.splits)
  have q: "queue_of q u3 = smap_upd ?i [] (queue_of q u)" for q
    by (cases q) (auto simp: u3_def st2_def u1_def queue_of_def on_world_def cancel_id_def split: option.splits)
  have w: "waits_ok u3 ?i" "\<And>k. waits_ok u k \<Longrightarrow> waits_ok u3 k" by (auto simp: waits_ok_def q)
  have "rc_triggerType rc = EVENT" using assms(1,3) by (auto simp: ue_ok_def events_ok_def)
  then have "add_meas_id mi (u, sim) = Inr (u3, snd st2)"
    using assms(2,3) unfolding add_meas_id_def Let_def
    by (auto simp: entry_of_def st2_def u1_def u3_def on_world_def cancel_id_def split: option.splits)
  moreover have "ids_ok u3"
    using assms(1) w l set_smap_upd_subset [of ?i mi "vc_measIdList u"] by (fastforce simp: ue_ok_def ids_ok_def)
  moreover have "refs_ok u3"
    using assms l set_smap_upd_subset [of ?i mi "vc_measIdList u"] by (fastforce simp: ue_ok_def refs_ok_def)
  moreover have "events_ok u3" using assms(1) l by (simp add: ue_ok_def events_ok_def)
  ultimately show ?thesis using l by (auto simp: ue_ok_def)
qed

lemma remove_meas_id_total:
  assumes "ue_ok u" and "waits_ok u i"
  shows "\<exists>u' sim'. remove_meas_id i (u, sim) = Inr (u', sim') \<and> ue_ok u' \<and>
    vc_measObjectList u' = vc_measObjectList u \<and> vc_reportConfigList u' = vc_reportConfigList u \<and>
    (\<forall>k. k \<noteq> i \<longrightarrow> waits_ok u k \<longrightarrow> waits_ok u' k)"
proof -
  let ?u = "u\<lparr>vc_measIdList := smap_del i (vc_measIdList u)\<rparr>"
  have w: "waits_ok ?u k = waits_ok u k" for k by (simp add: waits_ok_def)
  from clear_total [of ?u i sim] assms(2) w obtain u1 sim1 where
    1: "VarMeasReportListClear i (?u, sim) = Inr (u1, sim1)" and c: "clears ?u u1" by auto
  define u2 where "u2 = u1\<lparr>m_enteringTriggerQueue := smap_del i (m_enteringTriggerQueue u1),
      m_leavingTriggerQueue := smap_del i (m_leavingTriggerQueue u1)\<rparr>"
  have q: "queue_of q u2 = smap_del i (queue_of q u1)" for q by (cases q) (simp_all add: u2_def queue_of_def)
  have w2: "waits_ok u k \<Longrightarrow> k \<noteq> i \<Longrightarrow> waits_ok u2 k" for k
    using c w by (auto simp: clears_def waits_ok_def q)
  have "remove_meas_id i (u, sim) = Inr (u2, sim1)"
    using 1 by (simp add: remove_meas_id_def on_world_def u2_def)
  moreover have "ids_ok u2"
    using assms(1) c w2 by (auto simp: ue_ok_def ids_ok_def clears_def u2_def smap_del_def smap_ok_filter)
  moreover have "refs_ok u2" "events_ok u2"
    using assms(1) c by (auto simp: ue_ok_def refs_ok_def events_ok_def clears_def u2_def smap_del_def)
  ultimately show ?thesis using c w2 by (auto simp: ue_ok_def clears_def u2_def)
qed

section \<open>A whole configuration\<close>

text \<open>A loop whose rounds each establish something that the other rounds keep.\<close>

lemma res_fold_collects:
  assumes "P s"
    and "\<And>x s. x \<in> set xs \<Longrightarrow> P s \<Longrightarrow> \<exists>s'. f x s = Inr s' \<and> P s' \<and> Q x s'"
    and "\<And>x y s s'. x \<in> set xs \<Longrightarrow> y \<in> set xs \<Longrightarrow> P s \<Longrightarrow> Q x s \<Longrightarrow> f y s = Inr s' \<Longrightarrow> Q x s'"
  shows "\<exists>s'. res_fold f xs s = Inr s' \<and> P s' \<and> (\<forall>x\<in>set xs. Q x s')"
  using assms
proof (induction xs arbitrary: s)
  case Nil
  show ?case using Nil.prems(1) by simp
next
  case (Cons x xs)
  from Cons.prems(2) [of x s] Cons.prems(1) obtain t where t: "f x s = Inr t" "P t" "Q x t" by auto
  have "\<exists>s'. res_fold f xs t = Inr s' \<and> P s' \<and> (\<forall>x\<in>set xs. Q x s')"
  proof (rule Cons.IH [OF t(2)])
    fix y s assume "y \<in> set xs" and "P s"
    then show "\<exists>s'. f y s = Inr s' \<and> P s' \<and> Q y s'" by (intro Cons.prems(2)) simp_all
  next
    fix y z s s' assume "y \<in> set xs" and "z \<in> set xs" and "P s" and "Q y s" and "f z s = Inr s'"
    then show "Q y s'" by (intro Cons.prems(3) [of y z s s']) simp_all
  qed
  then obtain s' where s': "res_fold f xs t = Inr s'" "P s'" "\<forall>x\<in>set xs. Q x s'" by blast
  have "\<exists>s'. res_fold f xs t = Inr s' \<and> (P s' \<and> Q x s')"
  proof (rule res_fold_returns)
    fix y s assume y: "y \<in> set xs" and s: "P s \<and> Q x s"
    then obtain s' where "f y s = Inr s'" "P s'" using Cons.prems(2) [of y s] by auto
    then show "\<exists>s'. f y s = Inr s' \<and> (P s' \<and> Q x s')" using Cons.prems(3) [of x y s s'] y s by auto
  next
    show "P t \<and> Q x t" using t(2,3) by blast
  qed
  with s' t(1) show ?case by auto
qed

definition acceptable :: "meas_config \<Rightarrow> ue_rrc \<Rightarrow> bool" where
  "acceptable mc u \<longleftrightarrow>
     (\<forall>(i, mo)\<in>set (mc_measObjectToAddModList mc). object_supported mo) \<and>
     (\<forall>(i, rc)\<in>set (mc_reportConfigToAddModList mc). rc_triggerType rc = EVENT) \<and>
     distinct (mc_measIdToRemoveList mc) \<and> (\<forall>i\<in>set (mc_measIdToRemoveList mc). waits_ok u i) \<and>
     distinct (map mi_measId (mc_measIdToAddModList mc)) \<and>
     (\<forall>mi\<in>set (mc_measIdToAddModList mc).
        mi_measObjectId mi \<in> fst ` set (mc_measObjectToAddModList mc) \<and>
        mi_reportConfigId mi \<in> fst ` set (mc_reportConfigToAddModList mc)) \<and>
     \<not> mc_haveMeasGapConfig mc \<and> \<not> mc_haveSmeasure mc \<and> \<not> mc_haveSpeedStatePars mc"

lemma objects_stage:
  assumes "ue_ok (fst st)" and "\<forall>(i, mo)\<in>set as. object_supported mo"
  shows "\<exists>st1 st2. res_fold remove_object rs st = Inr st1 \<and> res_fold add_object as st1 = Inr st2 \<and>
    ue_ok (fst st2) \<and> keeps_waits (fst st) (fst st2) \<and> (\<forall>x\<in>set as. map_of (vc_measObjectList (fst st2)) (fst x) \<noteq> None)"
proof -
  let ?P = "\<lambda>s. ue_ok (fst s) \<and> keeps_waits (fst st) (fst s)"
  have "\<exists>st1. res_fold remove_object rs st = Inr st1 \<and> ?P st1"
  proof (rule res_fold_returns)
    fix x and s :: ue_st assume "?P s"
    then show "\<exists>s'. remove_object x s = Inr s' \<and> ?P s'"
      using remove_object_total [of "fst s" x "snd s"] by (force simp: keeps_waits_def)
  qed (use assms in \<open>simp add: keeps_waits_def\<close>)
  then obtain st1 where 1: "res_fold remove_object rs st = Inr st1" "?P st1" by blast
  have "\<exists>st2. res_fold add_object as st1 = Inr st2 \<and> ?P st2 \<and>
      (\<forall>x\<in>set as. map_of (vc_measObjectList (fst st2)) (fst x) \<noteq> None)"
  proof (rule res_fold_collects)
    fix x and s :: ue_st
    assume x: "x \<in> set as" and s: "?P s"
    obtain i mo where [simp]: "x = (i, mo)" by fastforce
    from add_object_total [of "fst s" mo i "snd s"] s x assms(2)
    show "\<exists>s'. add_object x s = Inr s' \<and> ?P s' \<and> map_of (vc_measObjectList (fst s')) (fst x) \<noteq> None"
      by (force simp: keeps_waits_def)
  next
    fix x y and s s' :: ue_st
    assume y: "y \<in> set as" and s: "?P s" "map_of (vc_measObjectList (fst s)) (fst x) \<noteq> None" "add_object y s = Inr s'"
    obtain i mo where [simp]: "y = (i, mo)" by fastforce
    have "object_supported mo" using y assms(2) by auto
    with add_object_total [of "fst s" mo i "snd s"] s
    show "map_of (vc_measObjectList (fst s')) (fst x) \<noteq> None" by auto
  qed (use 1 in simp)
  with 1 show ?thesis by blast
qed

lemma report_configs_stage:
  assumes "ue_ok (fst st)" and "\<forall>(i, rc)\<in>set as. rc_triggerType rc = EVENT"
    and "\<forall>x\<in>set os. map_of (vc_measObjectList (fst st)) x \<noteq> None"
  shows "\<exists>st1 st2. res_fold remove_report_config rs st = Inr st1 \<and> res_fold add_report_config as st1 = Inr st2 \<and>
    ue_ok (fst st2) \<and> keeps_waits (fst st) (fst st2) \<and> (\<forall>x\<in>set os. map_of (vc_measObjectList (fst st2)) x \<noteq> None) \<and>
    (\<forall>x\<in>set as. map_of (vc_reportConfigList (fst st2)) (fst x) \<noteq> None)"
proof -
  let ?P = "\<lambda>s. ue_ok (fst s) \<and> keeps_waits (fst st) (fst s) \<and> vc_measObjectList (fst s) = vc_measObjectList (fst st)"
  have "\<exists>st1. res_fold remove_report_config rs st = Inr st1 \<and> ?P st1"
  proof (rule res_fold_returns)
    fix x and s :: ue_st assume "?P s"
    then show "\<exists>s'. remove_report_config x s = Inr s' \<and> ?P s'"
      using remove_report_config_total [of "fst s" x "snd s"] by (force simp: keeps_waits_def)
  qed (use assms in \<open>simp add: keeps_waits_def\<close>)
  then obtain st1 where 1: "res_fold remove_report_config rs st = Inr st1" "?P st1" by blast
  have "\<exists>st2. res_fold add_report_config as st1 = Inr st2 \<and> ?P st2 \<and>
      (\<forall>x\<in>set as. map_of (vc_reportConfigList (fst st2)) (fst x) \<noteq> None)"
  proof (rule res_fold_collects)
    fix x and s :: ue_st
    assume x: "x \<in> set as" and s: "?P s"
    obtain i rc where [simp]: "x = (i, rc)" by fastforce
    from add_report_config_total [of "fst s" rc i "snd s"] s x assms(2)
    show "\<exists>s'. add_report_config x s = Inr s' \<and> ?P s' \<and> map_of (vc_reportConfigList (fst s')) (fst x) \<noteq> None"
      by (force simp: keeps_waits_def)
  next
    fix x y and s s' :: ue_st
    assume y: "y \<in> set as" and s: "?P s" "map_of (vc_reportConfigList (fst s)) (fst x) \<noteq> None"
      "add_report_config y s = Inr s'"
    obtain i rc where [simp]: "y = (i, rc)" by fastforce
    have "rc_triggerType rc = EVENT" using y assms(2) by auto
    with add_report_config_total [of "fst s" rc i "snd s"] s
    show "map_of (vc_reportConfigList (fst s')) (fst x) \<noteq> None" by auto
  qed (use 1 in simp)
  with 1 assms(3) show ?thesis by force
qed

lemma measIds_stage:
  assumes "ue_ok (fst st)" and "distinct rs" and "\<forall>i\<in>set rs. waits_ok (fst st) i" and "distinct (map mi_measId as)"
    and refs: "\<forall>mi\<in>set as. map_of (vc_measObjectList (fst st)) (mi_measObjectId mi) \<noteq> None \<and>
      map_of (vc_reportConfigList (fst st)) (mi_reportConfigId mi) \<noteq> None"
  shows "\<exists>st1 st2. res_fold remove_meas_id rs st = Inr st1 \<and> res_fold add_meas_id as st1 = Inr st2 \<and>
    ue_ok (fst st2) \<and> (\<forall>mi\<in>set as. map_of (vc_measIdList (fst st2)) (mi_measId mi) = Some mi)"
proof -
  let ?P = "\<lambda>s. ue_ok (fst s) \<and> vc_measObjectList (fst s) = vc_measObjectList (fst st) \<and>
      vc_reportConfigList (fst s) = vc_reportConfigList (fst st)"
  have "\<exists>st1. res_fold remove_meas_id rs s = Inr st1 \<and> ?P st1"
    if "?P s" and "distinct rs" and "\<forall>i\<in>set rs. waits_ok (fst s) i" for s
    using that
  proof (induction rs arbitrary: s)
    case (Cons i rs)
    from remove_meas_id_total [of "fst s" i "snd s"] Cons.prems obtain u1 sim1 where
      r: "remove_meas_id i s = Inr (u1, sim1)" "?P (u1, sim1)"
      and w: "\<forall>k. k \<noteq> i \<longrightarrow> waits_ok (fst s) k \<longrightarrow> waits_ok u1 k" by auto
    have "\<forall>k\<in>set rs. waits_ok u1 k" using w Cons.prems(2,3) by (metis distinct.simps(2) list.set_intros(2))
    note r this
    with Cons.IH [of "(u1, sim1)"] Cons.prems(2) show ?case by auto
  qed simp
  from this [of st] assms obtain st1 where 1: "res_fold remove_meas_id rs st = Inr st1" "?P st1" by auto
  have total: "\<exists>u' sim'. add_meas_id mi s = Inr (u', sim') \<and> ?P (u', sim') \<and>
      vc_measIdList u' = smap_upd (mi_measId mi) mi (vc_measIdList (fst s))" if "mi \<in> set as" "?P s" for mi s
    using add_meas_id_total [of "fst s" mi _ "snd s"] that refs by fastforce
  have "\<exists>st2. res_fold add_meas_id as st1 = Inr st2 \<and> ?P st2 \<and>
      (\<forall>mi\<in>set as. map_of (vc_measIdList (fst st2)) (mi_measId mi) = Some mi)"
  proof (rule res_fold_collects)
    fix mi and s :: ue_st
    assume "mi \<in> set as" and "?P s"
    from total [OF this]
    show "\<exists>s'. add_meas_id mi s = Inr s' \<and> ?P s' \<and> map_of (vc_measIdList (fst s')) (mi_measId mi) = Some mi" by force
  next
    fix x y and s s' :: ue_st
    assume x: "x \<in> set as" and y: "y \<in> set as" and s: "?P s" "map_of (vc_measIdList (fst s)) (mi_measId x) = Some x"
      "add_meas_id y s = Inr s'"
    have "mi_measId y = mi_measId x \<Longrightarrow> y = x" using x y assms(4) by (auto simp: distinct_map inj_on_def)
    with total [OF y s(1)] s(2,3) show "map_of (vc_measIdList (fst s')) (mi_measId x) = Some x" by auto
  qed (use 1 in simp)
  with 1 show ?thesis by blast
qed

text \<open>
  A UE with a consistent measurement configuration (every identity has its object, its report configuration
  and its two queues) takes over an acceptable one without abort, is consistent afterwards, and knows
  every identity the configuration adds.
\<close>

lemma configuration_consistent:
  assumes "ue_ok u" and "acceptable mc u"
  shows "\<exists>u' sim'. ApplyMeasConfig mc (u, sim) = Inr (u', sim') \<and> ue_ok u' \<and>
    (\<forall>mi\<in>set (mc_measIdToAddModList mc). map_of (vc_measIdList u') (mi_measId mi) = Some mi)"
proof -
  note acc = assms(2) [unfolded acceptable_def]
  from objects_stage [of "(u, sim)" "mc_measObjectToAddModList mc" "mc_measObjectToRemoveList mc"] assms(1) acc
  obtain s1 s2 where 1: "res_fold remove_object (mc_measObjectToRemoveList mc) (u, sim) = Inr s1"
    "res_fold add_object (mc_measObjectToAddModList mc) s1 = Inr s2" "ue_ok (fst s2)" "keeps_waits u (fst s2)"
    "\<forall>x\<in>set (map fst (mc_measObjectToAddModList mc)). map_of (vc_measObjectList (fst s2)) x \<noteq> None" by auto
  from report_configs_stage [OF 1(3) _ 1(5), of "mc_reportConfigToAddModList mc" "mc_reportConfigToRemoveList mc"] acc
  obtain s3 s4 where 2: "res_fold remove_report_config (mc_reportConfigToRemoveList mc) s2 = Inr s3"
    "res_fold add_report_config (mc_reportConfigToAddModList mc) s3 = Inr s4" "ue_ok (fst s4)"
    "keeps_waits (fst s2) (fst s4)"
    "\<forall>x\<in>set (map fst (mc_measObjectToAddModList mc)). map_of (vc_measObjectList (fst s4)) x \<noteq> None"
    "\<forall>x\<in>set (mc_reportConfigToAddModList mc). map_of (vc_reportConfigList (fst s4)) (fst x) \<noteq> None" by blast
  obtain s5 where 3: "(case mc_quantityConfig mc of None \<Rightarrow> Inr s4 | Some qc \<Rightarrow> set_quantity_config qc s4) = Inr s5"
    "ue_ok (fst s5)" "keeps_waits (fst s4) (fst s5)" "vc_measObjectList (fst s5) = vc_measObjectList (fst s4)"
    "vc_reportConfigList (fst s5) = vc_reportConfigList (fst s4)"
  proof (cases "mc_quantityConfig mc")
    case None
    then show thesis using that [of s4] 2(3) by (simp add: keeps_waits_def)
  next
    case (Some qc)
    with set_quantity_config_total [OF 2(3), of qc "snd s4"] that show thesis by force
  qed
  have w: "\<forall>i\<in>set (mc_measIdToRemoveList mc). waits_ok (fst s5) i"
    using acc 1(4) 2(4) 3(3) by (simp add: keeps_waits_def)
  have "\<forall>mi\<in>set (mc_measIdToAddModList mc). map_of (vc_measObjectList (fst s5)) (mi_measObjectId mi) \<noteq> None \<and>
      map_of (vc_reportConfigList (fst s5)) (mi_reportConfigId mi) \<noteq> None"
    using acc 2(5,6) 3(4,5) by fastforce
  from measIds_stage [OF 3(2) _ w _ this] acc obtain s6 s7 where
    4: "res_fold remove_meas_id (mc_measIdToRemoveList mc) s5 = Inr s6"
    "res_fold add_meas_id (mc_measIdToAddModList mc) s6 = Inr s7" "ue_ok (fst s7)"
    "\<forall>mi\<in>set (mc_measIdToAddModList mc). map_of (vc_measIdList (fst s7)) (mi_measId mi) = Some mi" by blast
  have "ApplyMeasConfig mc (u, sim) = Inr s7"
    using 1(1,2) 2(1,2) 3(1) 4(1,2) acc by (simp add: ApplyMeasConfig_def)
  with 4(3,4) show ?thesis by (metis prod.collapse)
qed

section \<open>The configuration of a gNB\<close>

text \<open>The \<open>j\<close>-th identity belongs to the \<open>j div n\<close>-th report configuration and the \<open>j mod n\<close>-th of the \<open>n\<close> objects.\<close>

definition nth_id :: "nat \<Rightarrow> nat \<Rightarrow> meas_id" where
  "nth_id n j = \<lparr>mi_measId = (j + 1) mod 256, mi_measObjectId = (j mod n + 1) mod 256, mi_reportConfigId = (j div n + 1) mod 256\<rparr>"

definition gc_ok :: "gnb_rrc \<Rightarrow> bool" where
  "gc_ok g \<longleftrightarrow> gc_numberOfComponentCarriers g = length (gc_carriers g) \<and> gc_objects g = meas_objects (gc_carriers g) \<and>
     map fst (gc_reportConfigs g) = map (\<lambda>i. (i + 1) mod 256) [0..<length (gc_reportConfigs g)] \<and>
     (\<forall>(i, rc)\<in>set (gc_reportConfigs g). rc_triggerType rc = EVENT) \<and>
     gc_measIds g = map (nth_id (length (gc_carriers g))) [0..<length (gc_reportConfigs g) * length (gc_carriers g)]"

lemma new_ids:
  "map (\<lambda>b. \<lparr>mi_measId = (r * n + b + 1) mod 256, mi_measObjectId = (b + 1) mod 256, mi_reportConfigId = (r + 1) mod 256\<rparr>) [0..<n] =
     map (nth_id n) [r * n..<Suc r * n]"
proof -
  have "[r * n..<Suc r * n] = map (\<lambda>b. r * n + b) [0..<n]"
    using map_add_upt [of "r * n" n] by (simp add: add.commute)
  then show ?thesis by (auto simp: nth_id_def)
qed

lemma AddUeMeasReportConfig_ok:
  assumes "gc_ok g" and "rc_triggerType rc = EVENT" and "\<not> threshold_mismatch rc \<and> rc_purpose rc = REPORT_STRONGEST_CELLS"
  defines "n \<equiv> length (gc_carriers g)" and "r \<equiv> length (gc_reportConfigs g)"
  shows "\<exists>g'. AddUeMeasReportConfig 0 rc g = Inr (map (\<lambda>j. (j + 1) mod 256) [r * n..<Suc r * n], g') \<and> gc_ok g' \<and>
    gc_measIds g' = gc_measIds g @ map (nth_id n) [r * n..<Suc r * n] \<and>
    gc_reportConfigs g' = gc_reportConfigs g @ [((r + 1) mod 256, rc)]"
proof -
  note ok = assms(1) [unfolded gc_ok_def, folded n_def r_def]
  let ?g = "g\<lparr>gc_reportConfigs := gc_reportConfigs g @ [((r + 1) mod 256, rc)],
      gc_measIds := gc_measIds g @ map (nth_id n) [r * n..<Suc r * n]\<rparr>"
  have len: "length (gc_measIds g) = r * n" using ok by simp
  have "AddUeMeasReportConfig 0 rc g = Inr (map mi_measId (map (nth_id n) [r * n..<Suc r * n]), ?g)"
    unfolding AddUeMeasReportConfig_def Let_def using assms(3) ok len new_ids [of r n]
    by (simp add: r_def [symmetric])
  moreover have "[0..<Suc r * n] = [0..<r * n] @ [r * n..<Suc r * n]"
    using upt_add_eq_append [of 0 "r * n" n] by (simp add: add.commute)
  then have "gc_ok ?g" using ok assms(2) by (auto simp: gc_ok_def n_def [symmetric] r_def [symmetric])
  moreover have "map mi_measId (map (nth_id n) [r * n..<Suc r * n]) = map (\<lambda>j. (j + 1) mod 256) [r * n..<Suc r * n]"
    by (simp add: nth_id_def)
  ultimately show ?thesis by (intro exI [of _ ?g]) auto
qed

text \<open>
  As long as fewer than 256 measurement identities are assigned, the ones a gNB adds for a report
  configuration are one per carrier, distinct, and different from all earlier ones; each refers to its object and
  report configuration (the invariant \<open>gc_ok\<close> is kept).
\<close>

lemma identities_distinct:
  assumes "gc_ok g" and "rc_triggerType rc = EVENT" and "\<not> threshold_mismatch rc \<and> rc_purpose rc = REPORT_STRONGEST_CELLS"
    and "length (gc_measIds g) + length (gc_carriers g) < 256"
  shows "\<exists>ids g'. AddUeMeasReportConfig 0 rc g = Inr (ids, g') \<and> gc_ok g' \<and>
    length ids = length (gc_carriers g) \<and> distinct ids \<and> set ids \<inter> mi_measId ` set (gc_measIds g) = {}"
proof -
  let ?n = "length (gc_carriers g)" and ?r = "length (gc_reportConfigs g)"
  have ids: "gc_measIds g = map (nth_id ?n) [0..<?r * ?n]" using assms(1) by (simp add: gc_ok_def)
  from AddUeMeasReportConfig_ok [OF assms(1,2,3)] obtain g' where
    g': "AddUeMeasReportConfig 0 rc g = Inr (map (\<lambda>j. (j + 1) mod 256) [?r * ?n..<Suc ?r * ?n], g')" "gc_ok g'" by blast
  have b: "Suc ?r * ?n < 256" using assms(4) by (simp add: ids add.commute)
  then have small: "map (\<lambda>j. (j + 1) mod 256) [?r * ?n..<Suc ?r * ?n] = map Suc [?r * ?n..<Suc ?r * ?n]" by auto
  have "mi_measId ` set (gc_measIds g) = Suc ` {0..<?r * ?n}" using b by (force simp: ids nth_id_def image_image)
  then have "set (map Suc [?r * ?n..<Suc ?r * ?n]) \<inter> mi_measId ` set (gc_measIds g) = {}" by auto
  then show ?thesis
    using g' unfolding small by (intro exI [of _ "map Suc [?r * ?n..<Suc ?r * ?n]"] exI [of _ g']) (simp add: distinct_map)
qed

text \<open>With 256 identities the next one is the first again.\<close>

lemma identities_wrap:
  assumes "gc_ok g" and "rc_triggerType rc = EVENT" and "\<not> threshold_mismatch rc \<and> rc_purpose rc = REPORT_STRONGEST_CELLS"
    and "length (gc_measIds g) = 256" and "0 < length (gc_carriers g)"
  shows "\<exists>ids g'. AddUeMeasReportConfig 0 rc g = Inr (ids, g') \<and> 1 \<in> set ids \<and> 1 \<in> mi_measId ` set (gc_measIds g)"
proof -
  let ?n = "length (gc_carriers g)" and ?r = "length (gc_reportConfigs g)"
  have ids: "gc_measIds g = map (nth_id ?n) [0..<?r * ?n]" using assms(1) by (simp add: gc_ok_def)
  then have m: "?r * ?n = 256" using assms(4) by simp
  from AddUeMeasReportConfig_ok [OF assms(1,2,3)] obtain g' where
    g': "AddUeMeasReportConfig 0 rc g = Inr (map (\<lambda>j. (j + 1) mod 256) [?r * ?n..<Suc ?r * ?n], g')" by blast
  have pos: "0 < ?r" using m by (cases ?r) auto
  have "?r * ?n \<in> set [?r * ?n..<Suc ?r * ?n]" using assms(5) by simp
  then have "(?r * ?n + 1) mod 256 \<in> set (map (\<lambda>j. (j + 1) mod 256) [?r * ?n..<Suc ?r * ?n])"
    unfolding set_map by (rule image_eqI [OF refl])
  moreover have "(?r * ?n + 1) mod 256 = 1" unfolding m by simp
  moreover have "nth_id ?n 0 \<in> set (gc_measIds g)"
    unfolding ids set_map by (rule imageI) (use assms(5) pos in auto)
  then have "mi_measId (nth_id ?n 0) \<in> mi_measId ` set (gc_measIds g)" by (rule imageI)
  then have "1 \<in> mi_measId ` set (gc_measIds g)" by (simp add: nth_id_def)
  ultimately show ?thesis using g' by metis
qed

lemma gnb_config_acceptable:
  assumes "gc_ok g" and "length (gc_measIds g) < 256"
  shows "acceptable (ueMeasConfig g) u"
proof -
  let ?n = "length (gc_carriers g)" and ?r = "length (gc_reportConfigs g)"
  have ok: "gc_objects g = meas_objects (gc_carriers g)"
    "map fst (gc_reportConfigs g) = map (\<lambda>i. (i + 1) mod 256) [0..<?r]"
    "\<forall>(i, rc)\<in>set (gc_reportConfigs g). rc_triggerType rc = EVENT"
    "gc_measIds g = map (nth_id ?n) [0..<?r * ?n]" using assms(1) by (simp_all add: gc_ok_def)
  have b: "?r * ?n < 256" using assms(2) ok(4) by simp
  have "map mi_measId (gc_measIds g) = map Suc [0..<?r * ?n]" using b by (simp add: ok(4) nth_id_def)
  then have d: "distinct (map mi_measId (gc_measIds g))" by (simp add: distinct_map)
  have refs: "mi_measObjectId mi \<in> fst ` set (gc_objects g) \<and> mi_reportConfigId mi \<in> fst ` set (gc_reportConfigs g)"
    if "mi \<in> set (gc_measIds g)" for mi
  proof -
    from that obtain j where j: "j < ?r * ?n" "mi = nth_id ?n j" by (auto simp: ok(4))
    then have "0 < ?n" by (cases ?n) auto
    then have m: "j mod ?n < ?n" "j div ?n < ?r" using j(1) by (simp_all add: less_mult_imp_div_less)
    have "(j div ?n + 1) mod 256 \<in> set (map fst (gc_reportConfigs g))" using m(2) by (simp add: ok(2))
    moreover have "(j mod ?n + 1) mod 256 \<in> fst ` set (gc_objects g)"
      using m(1) by (force simp: ok(1) meas_objects_def image_image)
    ultimately show ?thesis by (simp add: j(2) nth_id_def)
  qed
  have "object_supported mo" if "(i, mo) \<in> set (gc_objects g)" for i mo
    using that by (auto simp: ok(1) meas_objects_def object_supported_def)
  then show ?thesis using d refs ok(3) by (auto simp: acceptable_def ueMeasConfig_def)
qed

text \<open>
  C13: A UE with a consistent configuration accepts the measurement configuration of a gNB with fewer than 256
  identities: nothing aborts, it is consistent afterwards, and it holds every identity the gNB assigned, with
  the numbers of the object and of the report configuration the gNB gave it.
\<close>

theorem gnb_configuration_accepted:
  assumes "gc_ok g" and "length (gc_measIds g) < 256" and "ue_ok u"
  shows "\<exists>u' sim'. ApplyMeasConfig (ueMeasConfig g) (u, sim) = Inr (u', sim') \<and> ue_ok u' \<and>
    (\<forall>mi\<in>set (gc_measIds g). map_of (vc_measIdList u') (mi_measId mi) = Some mi)"
  using configuration_consistent [OF assms(3) gnb_config_acceptable [OF assms(1,2)], of sim]
  by (simp add: ueMeasConfig_def)

lemma ex_ue_ok: "ue_ok ex_ue"
proof -
  have "queue_of q ex_ue = [(1, [])]" for q by (cases q) (simp_all add: queue_of_def ex_ue_def)
  then show ?thesis
    by (simp add: ue_ok_def ids_ok_def refs_ok_def events_ok_def waits_ok_def smap_ok_def)
      (simp add: ex_ue_def ex_rc_def)
qed

lemma ex_gnb_ok: "gc_ok ex_gnb"
  by (simp add: gc_ok_def ex_gnb_def ex_rc_def nth_id_def)

theorem gnb_configuration_accepted_witness:
  "\<exists>u' sim'. ApplyMeasConfig (ueMeasConfig ex_gnb) (ex_ue, DefaultSimulatorImpl) = Inr (u', sim') \<and>
     map_of (vc_measIdList u') 1 \<noteq> None"
  using gnb_configuration_accepted [OF ex_gnb_ok _ ex_ue_ok, of DefaultSimulatorImpl]
  by (auto simp: ex_gnb_def)

end
