(* ===== verification/Rng_Stream.thy ===== *)
theory Rng_Stream
  imports Oran_Prelude "HOL-Library.Signed_Division"
begin

text \<open>
  The generator MRG32k3a behind every random variable (\<open>src/src/core/model/rng-stream.cc\<close>). The code
  computes with doubles that hold integers. Such a computation is exact while every result stays within
  \<open>2 ^ 53\<close>, so the model computes with integers and a result beyond is the error \<open>InexactDouble\<close>; a
  quotient that does not fit the \<open>int32_t\<close> it is cast to is the error \<open>CastOverflow\<close>. (The quotient of two
  such integers is at least \<open>1 / m\<close> away from the next integer, more than the rounding error of the division,
  so that truncating the double gives the truncated quotient.) The laws show that neither error happens.
  Arrays of three are triples, so that a matrix is a triple of rows and the state is a pair of triples.
\<close>

section \<open>Arithmetic\<close>

type_synonym vec = "int \<times> int \<times> int"
type_synonym matrix = "vec \<times> vec \<times> vec"

definition m1 :: int where "m1 = 4294967087"
definition m2 :: int where "m2 = 4294944443"
definition norm_factor :: double where "norm_factor = 1 / (of_int m1 + 1)"
definition a12 :: int where "a12 = 1403580"
definition a13n :: int where "a13n = 810728"
definition a21 :: int where "a21 = 527612"
definition a23n :: int where "a23n = 1370589"
definition two17 :: int where "two17 = 131072"
definition two53 :: int where "two53 = 9007199254740992"

definition A1p0 :: matrix where
  "A1p0 = ((0, 1, 0), (0, 0, 1), (- 810728, 1403580, 0))"

definition A2p0 :: matrix where
  "A2p0 = ((0, 1, 0), (0, 0, 1), (- 1370589, 0, 527612))"

text \<open>A value stored in a double, and the cast of a quotient to \<open>int32_t\<close>.\<close>

definition dbl :: "int \<Rightarrow> int res" where
  "dbl x = abort_if (x < - two53 \<or> two53 < x) InexactDouble (Inr x)"

definition int32 :: "int \<Rightarrow> int res" where
  "int32 x = abort_if (x < - (2 ^ 31) \<or> 2 ^ 31 \<le> x) CastOverflow (Inr x)"

text \<open>\<open>v - static_cast<int32_t>(v / m) * m\<close>.\<close>

definition reduce_by :: "int \<Rightarrow> int \<Rightarrow> int res" where
  "reduce_by m v = res_bind (int32 (v sdiv m)) (\<lambda>k. res_bind (dbl (k * m)) (\<lambda>p. dbl (v - p)))"

definition MultModM_split :: "int \<Rightarrow> int \<Rightarrow> int \<Rightarrow> int \<Rightarrow> int res" where
  "MultModM_split a s c m =
     res_bind (int32 (a sdiv two17)) (\<lambda>a1.
     res_bind (dbl (a1 * two17)) (\<lambda>p.
     res_bind (dbl (a - p)) (\<lambda>a'.
     res_bind (dbl (a1 * s)) (\<lambda>v.
     res_bind (reduce_by m v) (\<lambda>v'.
     res_bind (dbl (v' * two17)) (\<lambda>x.
     res_bind (dbl (a' * s)) (\<lambda>y.
     res_bind (dbl (x + y)) (\<lambda>z. dbl (z + c)))))))))"

definition MultModM :: "int \<Rightarrow> int \<Rightarrow> int \<Rightarrow> int \<Rightarrow> int res" where
  "MultModM a s c m =
     res_bind (if two53 \<le> a * s + c \<or> a * s + c \<le> - two53
               then MultModM_split a s c m
               else res_bind (dbl (a * s)) (\<lambda>p. dbl (p + c)))
       (\<lambda>v. res_bind (reduce_by m v) (\<lambda>r. if r < 0 then dbl (r + m) else Inr r))"

section \<open>Matrices\<close>

fun row_times :: "vec \<Rightarrow> vec \<Rightarrow> int \<Rightarrow> int res" where
  "row_times (r0, r1, r2) (s0, s1, s2) m =
     res_bind (MultModM r0 s0 0 m) (\<lambda>x.
     res_bind (MultModM r1 s1 x m) (\<lambda>x.
     MultModM r2 s2 x m))"

fun MatVecModM :: "matrix \<Rightarrow> vec \<Rightarrow> int \<Rightarrow> vec res" where
  "MatVecModM (r0, r1, r2) s m =
     res_bind (row_times r0 s m) (\<lambda>x0.
     res_bind (row_times r1 s m) (\<lambda>x1.
     res_bind (row_times r2 s m) (\<lambda>x2. Inr (x0, x1, x2))))"

fun transposed :: "matrix \<Rightarrow> matrix" where
  "transposed ((a, b, c), (d, e, f), (g, h, i)) = ((a, d, g), (b, e, h), (c, f, i))"

definition MatMatModM :: "matrix \<Rightarrow> matrix \<Rightarrow> int \<Rightarrow> matrix res" where
  "MatMatModM A B m =
     (case transposed B of (v0, v1, v2) \<Rightarrow>
        res_bind (MatVecModM A v0 m) (\<lambda>w0.
        res_bind (MatVecModM A v1 m) (\<lambda>w1.
        res_bind (MatVecModM A v2 m) (\<lambda>w2. Inr (transposed (w0, w1, w2))))))"

definition MatTwoPowModM :: "matrix \<Rightarrow> int \<Rightarrow> nat \<Rightarrow> matrix res" where
  "MatTwoPowModM src m e = res_fold (\<lambda>_ dst. MatMatModM dst dst m) [0..<e] src"

definition mat_one :: matrix where
  "mat_one = ((1, 0, 0), (0, 1, 0), (0, 0, 1))"

fun MatPowModM_loop :: "nat \<Rightarrow> matrix \<Rightarrow> matrix \<Rightarrow> int \<Rightarrow> matrix res" where
  "MatPowModM_loop n W B m =
     (if n = 0 then Inr B
      else res_bind (if n mod 2 = 1 then MatMatModM W B m else Inr B) (\<lambda>B'.
        res_bind (MatMatModM W W m) (\<lambda>W'. MatPowModM_loop (n div 2) W' B' m)))"

declare MatPowModM_loop.simps [simp del]

definition MatPowModM :: "matrix \<Rightarrow> int \<Rightarrow> nat \<Rightarrow> matrix res" where
  "MatPowModM A m n = MatPowModM_loop n A mat_one m"

definition PowerOfTwoConstants :: "(matrix list \<times> matrix list) res" where
  "PowerOfTwoConstants =
     res_fold (\<lambda>i (l1, l2).
         res_bind (MatTwoPowModM A1p0 m1 (i + 1)) (\<lambda>a1.
         res_bind (MatTwoPowModM A2p0 m2 (i + 1)) (\<lambda>a2. Inr (l1 @ [a1], l2 @ [a2]))))
       [0..<190] ([], [])"

definition PowerOfTwoMatrix :: "nat \<Rightarrow> (matrix \<times> matrix) res" where
  "PowerOfTwoMatrix n =
     res_bind PowerOfTwoConstants (\<lambda>(l1, l2).
       abort_if (n < 1 \<or> length l1 < n) IndexOutOfRange (Inr (l1 ! (n - 1), l2 ! (n - 1))))"

section \<open>The stream\<close>

type_synonym rng_state = "vec \<times> vec"

text \<open>One component: the new value \<open>p\<close>, a linear form of the state reduced into \<open>[0, m)\<close>.\<close>

definition component :: "int \<Rightarrow> int \<Rightarrow> int \<Rightarrow> int res" where
  "component m p q =
     res_bind (dbl p) (\<lambda>p. res_bind (dbl q) (\<lambda>q.
     res_bind (dbl (p - q)) (\<lambda>p. res_bind (reduce_by m p) (\<lambda>r. if r < 0 then dbl (r + m) else Inr r))))"

fun RandU01 :: "rng_state \<Rightarrow> (double \<times> rng_state) res" where
  "RandU01 ((s0, s1, s2), (s3, s4, s5)) =
     res_bind (component m1 (a12 * s1) (a13n * s0)) (\<lambda>p1.
     res_bind (component m2 (a21 * s5) (a23n * s3)) (\<lambda>p2.
       Inr (if p1 > p2 then of_int (p1 - p2) * norm_factor else of_int (p1 - p2 + m1) * norm_factor,
            ((s1, s2, p1), (s4, s5, p2)))))"

definition advance_bit :: "uint64 \<Rightarrow> nat \<Rightarrow> nat \<Rightarrow> rng_state \<Rightarrow> rng_state res" where
  "advance_bit n log2 i st =
     (let nbit = 63 - i in
      if bit n nbit
      then res_bind (PowerOfTwoMatrix (log2 + nbit)) (\<lambda>(matrix1, matrix2).
           res_bind (MatVecModM matrix1 (fst st) m1) (\<lambda>v.
           res_bind (MatVecModM matrix2 (snd st) m2) (\<lambda>w. Inr (v, w))))
      else Inr st)"

definition AdvanceNthBy :: "uint64 \<Rightarrow> nat \<Rightarrow> rng_state \<Rightarrow> rng_state res" where
  "AdvanceNthBy n log2 state = res_fold (advance_bit n log2) [0..<64] state"

definition RngStream :: "uint32 \<Rightarrow> uint64 \<Rightarrow> uint64 \<Rightarrow> rng_state res" where
  "RngStream seedNumber stream substream =
     (let x = uint seedNumber in
      abort_if (m1 \<le> x \<or> m2 \<le> x \<or> x = 0) InvalidSeed
        (res_bind (AdvanceNthBy stream 127 ((x, x, x), (x, x, x))) (AdvanceNthBy substream 76)))"

section \<open>Laws of the arithmetic\<close>

text \<open>
  The moduli, and the entries of the matrices and vectors the code multiplies: reduced values, or the
  small negative coefficients of the transition matrices.
\<close>

definition modulus :: "int \<Rightarrow> bool" where
  "modulus m \<longleftrightarrow> 2 ^ 31 < m \<and> m < 2 ^ 32"

definition entry :: "int \<Rightarrow> int \<Rightarrow> bool" where
  "entry m x \<longleftrightarrow> - (2 ^ 21) < x \<and> x < m"

lemma moduli [simp]: "modulus m1" "modulus m2"
  by (simp_all add: modulus_def m1_def m2_def)

lemma dbl_ok [simp]: "\<bar>x\<bar> \<le> two53 \<Longrightarrow> dbl x = Inr x"
  by (auto simp: dbl_def abort_if_def abs_le_iff)

lemma sdiv_nonneg: "0 \<le> v \<Longrightarrow> 0 < m \<Longrightarrow> v sdiv m = v div m" for v m :: int
  by (cases "v = 0") (simp_all add: signed_divide_int_def)

lemma sdiv_neg: "v < 0 \<Longrightarrow> 0 < m \<Longrightarrow> v sdiv m = - ((- v) div m)" for v m :: int
  by (simp add: signed_divide_int_def)

lemma reduce_by_eq:
  assumes "modulus m" and "\<bar>v\<bar> \<le> two53"
  shows "reduce_by m v = Inr (if 0 \<le> v then v mod m else - ((- v) mod m))"
proof -
  have m: "2 ^ 31 < m" "0 < m" using assms(1) by (auto simp: modulus_def)
  have q: "0 \<le> x div m \<and> x div m < 2 ^ 31 \<and> 0 \<le> x div m * m \<and> x div m * m \<le> x \<and> x - x div m * m = x mod m \<and>
      0 \<le> x mod m \<and> x mod m \<le> x"
    if "0 \<le> x" "x \<le> two53" for x
  proof -
    have r: "0 \<le> x mod m" using m by simp
    then have "x div m * m \<le> x" using minus_div_mult_eq_mod [of x m] by linarith
    moreover have "x < 2 ^ 31 * m" using that(2) m by (simp add: two53_def)
    with calculation have "x div m < 2 ^ 31"
      using mult_right_mono [of "2 ^ 31" "x div m" m] m(2) by linarith
    ultimately show ?thesis using m that r
      by (simp add: minus_div_mult_eq_mod pos_imp_zdiv_nonneg_iff zmod_le_nonneg_dividend)
  qed
  show ?thesis
  proof (cases "0 \<le> v")
    case True
    with q [of v] assms(2) m show ?thesis
      by (simp add: reduce_by_def sdiv_nonneg int32_def abort_if_def)
  next
    case False
    with q [of "- v"] assms(2) m have "reduce_by m v = Inr (v - - ((- v) div m) * m)"
      by (simp add: reduce_by_def sdiv_neg int32_def abort_if_def)
    with False q [of "- v"] assms(2) show ?thesis by simp
  qed
qed

lemma reduce_mod:
  assumes "modulus m" and "\<bar>v\<bar> \<le> two53"
  shows "res_bind (reduce_by m v) (\<lambda>r. if r < 0 then dbl (r + m) else Inr r) = Inr (v mod m)"
proof (cases "0 \<le> v")
  case True
  moreover have "0 \<le> v mod m" using assms(1) by (simp add: modulus_def)
  ultimately show ?thesis using assms by (simp add: reduce_by_eq)
next
  case False
  have m: "0 < m" "m < 2 ^ 32" using assms(1) by (auto simp: modulus_def)
  then have b: "0 \<le> (- v) mod m" "(- v) mod m < m" by simp_all
  show ?thesis
  proof (cases "(- v) mod m = 0")
    case True
    then have "v mod m = 0" by (simp add: mod_minus_eq dvd_eq_mod_eq_0 [symmetric])
    with True False assms show ?thesis by (simp add: reduce_by_eq)
  next
    case nz: False
    then have "v mod m = m - (- v) mod m" using zmod_zminus1_eq_if [of "- v" m] by auto
    moreover have "0 < (- v) mod m" using nz b(1) by linarith
    moreover have "dbl (m - r) = Inr (m - r)" if "0 \<le> r" "r < m" for r
      using that m by (intro dbl_ok) (simp add: two53_def)
    with b have "dbl (m - (- v) mod m) = Inr (m - (- v) mod m)" by blast
    ultimately show ?thesis using False assms by (simp add: reduce_by_eq)
  qed
qed

text \<open>Bounds of a product.\<close>

lemma product_bounds:
  assumes "modulus m" and "entry m a" and "entry m s"
  shows "- two53 < a * s" and "a * s < 2 ^ 64"
    and "two53 \<le> a * s + c \<Longrightarrow> c < m \<Longrightarrow> 0 < a \<and> 0 < s"
proof -
  have m: "m < 2 ^ 32" and a: "- (2 ^ 21) < a" "a < 2 ^ 32" and s: "- (2 ^ 21) < s" "s < 2 ^ 32"
    using assms by (auto simp: modulus_def entry_def)
  have mixed: "- (2 ^ 53) < x * y" if "- (2 ^ 21) < x" "x \<le> 0" "0 \<le> y" "y < 2 ^ 32" for x y :: int
  proof -
    have "(- x) * y \<le> (- x) * (2 ^ 32 - 1)" using that by (intro mult_left_mono) auto
    also have "\<dots> \<le> (2 ^ 21) * (2 ^ 32 - 1)" using that by (intro mult_right_mono) auto
    finally show ?thesis by simp
  qed
  have neg: "x * y < 2 ^ 42" if "- (2 ^ 21) < x" "x \<le> 0" "- (2 ^ 21) < y" "y \<le> 0" for x y :: int
  proof -
    have "(- x) * (- y) \<le> (2 ^ 21 - 1) * (2 ^ 21 - 1)" using that by (intro mult_mono) auto
    then show ?thesis by simp
  qed
  have pos: "x * y < 2 ^ 64" if "0 \<le> x" "x < 2 ^ 32" "0 \<le> y" "y < 2 ^ 32" for x y :: int
  proof -
    have "x * y \<le> (2 ^ 32 - 1) * (2 ^ 32 - 1)" using that by (intro mult_mono) auto
    then show ?thesis by simp
  qed
  consider "0 < a" "0 < s" | "a \<le> 0" "0 \<le> s" | "0 \<le> a" "s \<le> 0" | "a < 0" "s < 0" by linarith
  then have "- two53 < a * s \<and> a * s < 2 ^ 64 \<and> (0 < a \<and> 0 < s \<or> a * s < 2 ^ 42)"
  proof cases
    case 1
    then show ?thesis using pos [of a s] a s by (simp add: two53_def less_trans [OF _ mult_pos_pos])
  next
    case 2
    then have "a * s \<le> 0" by (simp add: mult_nonpos_nonneg)
    with 2 show ?thesis using mixed [of a s] a s by (simp add: two53_def)
  next
    case 3
    then have "a * s \<le> 0" by (simp add: mult_nonneg_nonpos)
    with 3 show ?thesis using mixed [of s a] a s by (simp add: two53_def mult.commute)
  next
    case 4
    then have "0 < a * s" by (simp add: mult_neg_neg)
    with 4 show ?thesis using neg [of a s] a s by (simp add: two53_def)
  qed
  then show "- two53 < a * s" "a * s < 2 ^ 64" "two53 \<le> a * s + c \<Longrightarrow> c < m \<Longrightarrow> 0 < a \<and> 0 < s"
    using m by (auto simp: two53_def)
qed

lemma MultModM_split_eq:
  assumes m: "modulus m" and a: "0 < a" "a < m" and s: "0 < s" "s < m" and c: "0 \<le> c" "c < m"
  shows "\<exists>v. MultModM_split a s c m = Inr v \<and> 0 \<le> v \<and> v \<le> two53 \<and> v mod m = (a * s + c) mod m"
proof -
  have m': "0 < m" "m < 2 ^ 32" using m by (auto simp: modulus_def)
  let ?a1 = "a div two17" and ?a' = "a mod two17"
  have d: "?a1 * two17 + ?a' = a" by simp
  have a': "0 \<le> ?a'" "?a' < two17" by (simp_all add: two17_def)
  have a1: "0 \<le> ?a1" "?a1 \<le> 2 ^ 15" using a m' d a' by (simp_all add: two17_def pos_imp_zdiv_nonneg_iff)
  have v: "0 \<le> ?a1 * s" "?a1 * s \<le> two53"
    using mult_mono [OF a1(2), of s "2 ^ 32"] a1 s m' by (simp_all add: two53_def)
  let ?r = "(?a1 * s) mod m"
  have r: "0 \<le> ?r" "?r < m" using m' by simp_all
  have y: "0 \<le> ?a' * s" "?a' * s \<le> two17 * 2 ^ 32"
    using mult_mono [of ?a' two17 s "2 ^ 32"] a' s m' by simp_all
  have fits: "x * two17 + z + c \<le> two53 \<and> x * two17 \<le> two53"
    if "0 \<le> x" "x < m" "0 \<le> z" "z \<le> two17 * 2 ^ 32" for x z
    using that c m' by (simp add: two17_def two53_def)
  have b: "?r * two17 + ?a' * s + c \<le> two53" "?r * two17 \<le> two53"
    using fits [OF r y] by simp_all
  have "MultModM_split a s c m = Inr (?r * two17 + ?a' * s + c)"
    using a a1 v r y b c m' d a'
    by (simp add: MultModM_split_def sdiv_nonneg int32_def abort_if_def reduce_by_eq [OF m] minus_div_mult_eq_mod
        two17_def two53_def)
  moreover have "(?r * two17 + ?a' * s + c) mod m = ((?a1 * s) * two17 + ?a' * s + c) mod m"
    by (intro mod_add_cong mod_mult_cong) simp_all
  moreover have "(?a1 * s) * two17 + ?a' * s + c = (?a1 * two17 + ?a') * s + c"
    by (simp only: distrib_right mult.assoc mult.commute [of s])
  ultimately show ?thesis using b(1) r y c d by (simp add: two17_def)
qed

lemma MultModM_eq:
  assumes m: "modulus m" and a: "entry m a" and s: "entry m s" and c: "0 \<le> c" "c < m"
  shows "MultModM a s c m = Inr ((a * s + c) mod m)"
proof (cases "two53 \<le> a * s + c")
  case True
  from product_bounds(3) [OF m a s True c(2)] have "0 < a" "0 < s" by simp_all
  moreover have "a < m" "s < m" using a s by (simp_all add: entry_def)
  ultimately obtain v where "MultModM_split a s c m = Inr v" "0 \<le> v" "v \<le> two53" "v mod m = (a * s + c) mod m"
    using MultModM_split_eq [OF m _ _ _ _ c] by blast
  with True reduce_mod [OF m, of v] show ?thesis by (simp add: MultModM_def)
next
  case False
  have "- two53 < a * s" by (rule product_bounds(1) [OF m a s])
  with False c reduce_mod [OF m, of "a * s + c"] show ?thesis by (simp add: MultModM_def)
qed

section \<open>Laws of the matrices\<close>

text \<open>Products modulo \<open>m\<close>, the reference for the routines above.\<close>

fun row_mul :: "int \<Rightarrow> vec \<Rightarrow> vec \<Rightarrow> int" where
  "row_mul m (r0, r1, r2) (s0, s1, s2) = (r0 * s0 + r1 * s1 + r2 * s2) mod m"

fun vec_mul :: "int \<Rightarrow> matrix \<Rightarrow> vec \<Rightarrow> vec" where
  "vec_mul m (r0, r1, r2) s = (row_mul m r0 s, row_mul m r1 s, row_mul m r2 s)"

fun mat_mul :: "int \<Rightarrow> matrix \<Rightarrow> matrix \<Rightarrow> matrix" where
  "mat_mul m A B = (case transposed B of (v0, v1, v2) \<Rightarrow>
     transposed (vec_mul m A v0, vec_mul m A v1, vec_mul m A v2))"

fun vec_entries :: "int \<Rightarrow> vec \<Rightarrow> bool" where
  "vec_entries m (x, y, z) \<longleftrightarrow> entry m x \<and> entry m y \<and> entry m z"

fun mat_entries :: "int \<Rightarrow> matrix \<Rightarrow> bool" where
  "mat_entries m (u, v, w) \<longleftrightarrow> vec_entries m u \<and> vec_entries m v \<and> vec_entries m w"

text \<open>A vector of the state holds reduced values.\<close>

fun reduced :: "int \<Rightarrow> vec \<Rightarrow> bool" where
  "reduced m (x, y, z) \<longleftrightarrow> 0 \<le> x \<and> x < m \<and> 0 \<le> y \<and> y < m \<and> 0 \<le> z \<and> z < m"

lemma reduced_entries: "reduced m v \<Longrightarrow> vec_entries m v"
  by (cases v) (auto simp: entry_def)

lemma vec_mul_reduced: "modulus m \<Longrightarrow> reduced m (vec_mul m A s)"
  by (cases A; cases s) (auto simp: modulus_def)

lemma mat_mul_entries: "modulus m \<Longrightarrow> mat_entries m (mat_mul m A B)"
proof -
  have e: "0 \<le> x mod m \<and> x mod m < m" if "modulus m" for x using that by (simp add: modulus_def)
  have "entry m (x mod m)" if "modulus m" for x
    using e [OF that, of x] less_le_trans [of "- (2 ^ 21)" 0 "x mod m"] by (simp add: entry_def)
  then show "modulus m \<Longrightarrow> mat_entries m (mat_mul m A B)"
    by (cases A; cases B) auto
qed

lemma row_times_eq:
  assumes "modulus m" and "vec_entries m r" and "vec_entries m s"
  shows "row_times r s m = Inr (row_mul m r s)"
proof -
  obtain r0 r1 r2 s0 s1 s2 where r: "r = (r0, r1, r2)" and s: "s = (s0, s1, s2)"
    by (cases r; cases s) auto
  have m: "0 \<le> x mod m" "x mod m < m" "0 < m" for x using assms(1) by (simp_all add: modulus_def)
  show ?thesis
    using assms(2,3) m by (simp add: r s MultModM_eq [OF assms(1)] mod_simps algebra_simps)
qed

lemma MatVecModM_eq:
  assumes "modulus m" and "mat_entries m A" and "vec_entries m s"
  shows "MatVecModM A s m = Inr (vec_mul m A s)"
  using assms by (cases A) (simp add: row_times_eq)

lemma transposed_entries: "mat_entries m A \<Longrightarrow> mat_entries m (transposed A)"
  by (cases A rule: transposed.cases) auto

lemma MatMatModM_eq:
  assumes "modulus m" and "mat_entries m A" and "mat_entries m B"
  shows "MatMatModM A B m = Inr (mat_mul m A B)"
  using transposed_entries [OF assms(3)]
  by (cases "transposed B") (simp add: MatMatModM_def MatVecModM_eq [OF assms(1,2)])

text \<open>The product of matrices is the composition of the maps.\<close>

lemma row_mul_mod:
  "(x0 * (y0 mod m) + x1 * (y1 mod m) + x2 * (y2 mod m)) mod m = (x0 * y0 + x1 * y1 + x2 * y2) mod m"
  "((y0 mod m) * x0 + (y1 mod m) * x1 + (y2 mod m) * x2) mod m = (y0 * x0 + y1 * x1 + y2 * x2) mod m"
  for m :: int
  by (intro mod_add_cong mod_mult_cong; simp)+

lemma vec_mul_mat_mul: "vec_mul m (mat_mul m A B) v = vec_mul m A (vec_mul m B v)"
  by (cases A rule: transposed.cases; cases B rule: transposed.cases; cases v)
    (simp add: row_mul_mod, simp add: algebra_simps)

lemma vec_mul_one: "reduced m v \<Longrightarrow> vec_mul m mat_one v = v"
  by (cases v) (simp add: mat_one_def)

definition mat_square :: "int \<Rightarrow> matrix \<Rightarrow> matrix" where
  "mat_square m A = mat_mul m A A"

lemma mat_square_app: "vec_mul m (mat_square m A) v = vec_mul m A (vec_mul m A v)"
  unfolding mat_square_def by (rule vec_mul_mat_mul)

lemma MatMatModM_square:
  "modulus m \<Longrightarrow> mat_entries m A \<Longrightarrow> MatMatModM A A m = Inr (mat_square m A)"
  unfolding mat_square_def by (rule MatMatModM_eq)

lemma squares_entries: "modulus m \<Longrightarrow> mat_entries m A \<Longrightarrow> mat_entries m ((mat_square m ^^ e) A)"
  by (cases e) (simp_all add: mat_square_def mat_mul_entries del: mat_mul.simps)

lemma MatTwoPowModM_eq:
  assumes "modulus m" and "mat_entries m A"
  shows "MatTwoPowModM A m e = Inr ((mat_square m ^^ e) A)"
proof (induction e)
  case (Suc e)
  have "MatTwoPowModM A m (Suc e) = res_bind (MatTwoPowModM A m e) (\<lambda>dst. MatMatModM dst dst m)"
    by (simp add: MatTwoPowModM_def res_fold_append res_bind_def split: sum.split)
  with Suc show ?case
    using squares_entries [OF assms] by (simp add: MatMatModM_square [OF assms(1)])
qed (simp add: MatTwoPowModM_def)

lemma vec_mul_squares: "vec_mul m ((mat_square m ^^ e) A) v = (vec_mul m A ^^ (2 ^ e)) v"
proof (induction e arbitrary: v)
  case (Suc e)
  have "vec_mul m ((mat_square m ^^ Suc e) A) v = (vec_mul m A ^^ (2 ^ e)) ((vec_mul m A ^^ (2 ^ e)) v)"
    using Suc by (simp add: mat_square_app del: vec_mul.simps)
  then show ?case by (simp add: funpow_add mult_2)
qed simp

section \<open>Laws of the stream\<close>

lemma transition_entries [simp]: "mat_entries m1 A1p0" "mat_entries m2 A2p0"
  by (simp_all add: A1p0_def A2p0_def entry_def m1_def m2_def)

lemmas [simp del] = vec_mul.simps mat_mul.simps

definition next_state :: "rng_state \<Rightarrow> rng_state" where
  "next_state st = (vec_mul m1 A1p0 (fst st), vec_mul m2 A2p0 (snd st))"

definition rng_ok :: "rng_state \<Rightarrow> bool" where
  "rng_ok st \<longleftrightarrow> reduced m1 (fst st) \<and> reduced m2 (snd st) \<and> fst st \<noteq> (0, 0, 0) \<and> snd st \<noteq> (0, 0, 0)"

lemma component_eq:
  assumes m: "modulus m" and x: "0 \<le> x" "x < m" and y: "0 \<le> y" "y < m"
    and k: "0 \<le> k" "k \<le> 2 ^ 20 + 2 ^ 19" and l: "0 \<le> l" "l \<le> 2 ^ 20 + 2 ^ 19"
  shows "component m (k * x) (l * y) = Inr ((k * x - l * y) mod m)"
proof -
  have b: "0 \<le> c * z \<and> c * z \<le> two53" if "0 \<le> z" "z < m" "0 \<le> c" "c \<le> 2 ^ 20 + 2 ^ 19" for c z
  proof -
    have "c * z \<le> (2 ^ 20 + 2 ^ 19) * 2 ^ 32"
      using that m by (intro mult_mono) (auto simp: modulus_def)
    then show ?thesis using that by (simp add: two53_def)
  qed
  have "\<bar>k * x - l * y\<bar> \<le> two53" using b [OF x k] b [OF y l] by linarith
  with b [OF x k] b [OF y l] reduce_mod [OF m, of "k * x - l * y"] show ?thesis
    by (simp add: component_def)
qed

definition rand_value :: "rng_state \<Rightarrow> double" where
  "rand_value st = (case next_state st of ((_, _, p1), (_, _, p2)) \<Rightarrow>
     of_int (if p1 > p2 then p1 - p2 else p1 - p2 + m1) * norm_factor)"

lemma next_state_reduced: "reduced m1 (fst (next_state st))" "reduced m2 (snd (next_state st))"
  by (simp_all add: next_state_def vec_mul_reduced)

lemma RandU01_eq:
  assumes "reduced m1 (fst st)" and "reduced m2 (snd st)"
  shows "RandU01 st = Inr (rand_value st, next_state st)"
proof -
  obtain s0 s1 s2 s3 s4 s5 where st: "st = ((s0, s1, s2), (s3, s4, s5))"
    by (metis surj_pair)
  have "component m1 (a12 * s1) (a13n * s0) = Inr ((a12 * s1 - a13n * s0) mod m1)"
    using assms by (intro component_eq) (auto simp: st a12_def a13n_def)
  moreover have "component m2 (a21 * s5) (a23n * s3) = Inr ((a21 * s5 - a23n * s3) mod m2)"
    using assms by (intro component_eq) (auto simp: st a21_def a23n_def)
  moreover have "next_state st = ((s1, s2, (a12 * s1 - a13n * s0) mod m1), (s4, s5, (a21 * s5 - a23n * s3) mod m2))"
    using assms by (simp add: st next_state_def vec_mul.simps A1p0_def A2p0_def a12_def a13n_def a21_def a23n_def)
  ultimately show ?thesis by (simp add: st rand_value_def)
qed

lemma rand_value_bounds: "0 < rand_value st" "rand_value st < 1"
proof -
  obtain x y p1 z w p2 where n: "next_state st = ((x, y, p1), (z, w, p2))" by (metis surj_pair)
  let ?k = "if p1 > p2 then p1 - p2 else p1 - p2 + m1"
  have "0 < ?k" "?k \<le> m1"
    using next_state_reduced [of st] by (auto simp: n m1_def m2_def)
  then have "0 < of_int ?k * norm_factor" "of_int ?k * norm_factor < 1"
    by (auto simp: norm_factor_def m1_def split: if_splits)
  then show "0 < rand_value st" "rand_value st < 1" by (simp_all add: rand_value_def n)
qed

text \<open>The coefficients of \<open>s\<^sub>0\<close> are invertible, so a component that is not zero never becomes zero.\<close>

lemma dvd_cancel_factor:
  fixes m k l x :: int
  assumes "m dvd k * x" and "(l * k) mod m = 1" and "0 \<le> x" and "x < m"
  shows "x = 0"
proof -
  have "m dvd l * (k * x)" using assms(1) by (rule dvd_mult)
  then have "(l * k * x) mod m = 0" by (simp add: mult.assoc dvd_eq_mod_eq_0)
  then have "((l * k) mod m * x) mod m = 0" by (simp only: mod_mult_left_eq)
  with assms(2-4) show ?thesis by simp
qed

lemma vec_mul_nonzero:
  assumes "reduced m v" and "v \<noteq> (0, 0, 0)" and "(l * k) mod m = 1"
    and "vec_mul m ((0, 1, 0), (0, 0, 1), (- k, b, c)) v = (0, 0, 0)"
  shows False
proof -
  obtain x y z where v: "v = (x, y, z)" by (cases v) auto
  from assms(1,4) have "y = 0" "z = 0" "(- (k * x)) mod m = 0" by (auto simp: v vec_mul.simps)
  then have "m dvd k * x" by (simp add: dvd_eq_mod_eq_0 [symmetric])
  then have "x = 0" using dvd_cancel_factor [of m k x l] assms(1,3) by (auto simp: v)
  with \<open>y = 0\<close> \<open>z = 0\<close> assms(2) show False by (simp add: v)
qed

lemma next_state_ok: "rng_ok st \<Longrightarrow> rng_ok (next_state st)"
  using vec_mul_nonzero [of m1 "fst st" 2349796154 810728 1403580 0]
    vec_mul_nonzero [of m2 "snd st" 69372715 1370589 0 527612]
  by (auto simp: rng_ok_def next_state_reduced) (auto simp: next_state_def A1p0_def A2p0_def m1_def m2_def)

lemma states_ok: "rng_ok st \<Longrightarrow> rng_ok ((next_state ^^ n) st)"
  by (induction n) (auto intro: next_state_ok)

lemma next_state_pow: "(next_state ^^ n) (v, w) = ((vec_mul m1 A1p0 ^^ n) v, (vec_mul m2 A2p0 ^^ n) w)"
  by (induction n) (simp_all add: next_state_def)

text \<open>The table of powers, and one jump of \<open>2 ^ n\<close> steps.\<close>

lemma constants_eq:
  "PowerOfTwoConstants =
    Inr (map (\<lambda>i. (mat_square m1 ^^ (i + 1)) A1p0) [0..<190], map (\<lambda>i. (mat_square m2 ^^ (i + 1)) A2p0) [0..<190])"
proof -
  have "res_fold (\<lambda>i (l1, l2).
         res_bind (MatTwoPowModM A1p0 m1 (i + 1)) (\<lambda>a1.
         res_bind (MatTwoPowModM A2p0 m2 (i + 1)) (\<lambda>a2. Inr (l1 @ [a1], l2 @ [a2])))) is (l1, l2) =
      Inr (l1 @ map (\<lambda>i. (mat_square m1 ^^ (i + 1)) A1p0) is, l2 @ map (\<lambda>i. (mat_square m2 ^^ (i + 1)) A2p0) is)"
    for "is" l1 l2
    by (induction "is" arbitrary: l1 l2) (simp_all add: MatTwoPowModM_eq)
  then show ?thesis by (simp only: PowerOfTwoConstants_def append_Nil)
qed

lemma PowerOfTwoMatrix_eq:
  assumes "1 \<le> n" and "n \<le> 190"
  shows "PowerOfTwoMatrix n = Inr ((mat_square m1 ^^ n) A1p0, (mat_square m2 ^^ n) A2p0)"
proof -
  have "[0..<190] ! (n - 1) = n - 1" "n - 1 < length [0..<190]" using assms by (simp_all del: upt_Suc)
  with assms show ?thesis
    by (simp add: PowerOfTwoMatrix_def constants_eq abort_if_def not_less del: upt_Suc funpow.simps)
qed

lemma PowerOfTwoMatrix_range: "n < 1 \<or> 190 < n \<Longrightarrow> PowerOfTwoMatrix n = Inl IndexOutOfRange"
  by (auto simp: PowerOfTwoMatrix_def constants_eq abort_if_def simp del: upt_Suc funpow.simps)

lemma jump:
  assumes "1 \<le> n" and "n \<le> 190" and "reduced m1 v" and "reduced m2 w"
  shows "res_bind (PowerOfTwoMatrix n) (\<lambda>(matrix1, matrix2).
      res_bind (MatVecModM matrix1 v m1) (\<lambda>v'. res_bind (MatVecModM matrix2 w m2) (\<lambda>w'. Inr (v', w')))) =
    Inr ((next_state ^^ (2 ^ n)) (v, w))"
  using assms
  by (simp add: PowerOfTwoMatrix_eq MatVecModM_eq squares_entries reduced_entries vec_mul_squares next_state_pow)

lemma pow_reduced:
  "reduced m1 v \<Longrightarrow> reduced m2 w \<Longrightarrow>
    reduced m1 (fst ((next_state ^^ n) (v, w))) \<and> reduced m2 (snd ((next_state ^^ n) (v, w)))"
  by (cases n) (simp_all add: next_state_reduced)

text \<open>The loop over the bits \<open>n - 1\<close> down to \<open>0\<close> adds up the jumps of the set bits.\<close>

lemma advance_bit_eq:
  assumes "1 \<le> b" and "b + 63 \<le> 190" and "i \<le> 63" and "reduced m1 (fst st)" and "reduced m2 (snd st)"
  shows "advance_bit x b i st = Inr ((next_state ^^ (of_bool (bit x (63 - i)) * 2 ^ (b + (63 - i)))) st)"
  using assms jump [of "b + (63 - i)" "fst st" "snd st"] by (simp add: advance_bit_def Let_def)

lemma advance_bits:
  assumes "1 \<le> b" and "b + 63 \<le> 190" and "n \<le> 64" and "reduced m1 (fst st)" and "reduced m2 (snd st)"
  shows "res_fold (advance_bit x b) [64 - n..<64] st = Inr ((next_state ^^ (take_bit n (unat x) * 2 ^ b)) st)"
  using assms(3-5)
proof (induction n arbitrary: st)
  case (Suc n)
  have i: "64 - Suc n < 64" "64 - Suc n = 63 - n" "Suc (63 - n) = 64 - n" "63 - (63 - n) = n" "63 - n \<le> 63"
    using Suc.prems(1) by linarith+
  have upt: "[64 - Suc n..<64] = (63 - n) # [64 - n..<64]"
    using upt_conv_Cons [OF i(1)] i by metis
  have bits: "take_bit (Suc n) (unat x) * 2 ^ b = take_bit n (unat x) * 2 ^ b + of_bool (bit x n) * 2 ^ (b + n)"
    by (simp add: take_bit_Suc_from_most bit_unsigned_iff algebra_simps power_add)
  let ?st = "(next_state ^^ (of_bool (bit x n) * 2 ^ (b + n))) st"
  have "advance_bit x b (63 - n) st = Inr ?st"
    using advance_bit_eq [OF assms(1,2) i(5) Suc.prems(2,3)] i(4) by simp
  moreover have "reduced m1 (fst ?st)" "reduced m2 (snd ?st)"
    using pow_reduced [of "fst st" "snd st"] Suc.prems(2,3) by simp_all
  moreover have "n \<le> 64" using Suc.prems(1) by simp
  ultimately have "res_fold (advance_bit x b) [64 - Suc n..<64] st =
      Inr ((next_state ^^ (take_bit n (unat x) * 2 ^ b)) ?st)"
    unfolding upt using Suc.IH by simp
  then show ?case by (simp only: bits funpow_add o_apply)
qed simp

lemma AdvanceNthBy_eq:
  assumes "1 \<le> b" and "b \<le> 127" and "reduced m1 (fst st)" and "reduced m2 (snd st)"
  shows "AdvanceNthBy x b st = Inr ((next_state ^^ (unat x * 2 ^ b)) st)"
proof -
  have "take_bit 64 (unat x) = unat x"
    using unsigned_less [of x, where ?'a = nat] by (simp add: take_bit_nat_eq_self_iff)
  with advance_bits [of b 64 st x] assms show ?thesis by (simp add: AdvanceNthBy_def)
qed

definition seed_state :: "uint32 \<Rightarrow> rng_state" where
  "seed_state s = ((uint s, uint s, uint s), (uint s, uint s, uint s))"

lemma RngStream_eq:
  "RngStream s stream substream =
    (if s = 0 \<or> m2 \<le> uint s then Inl InvalidSeed
     else Inr ((next_state ^^ (unat stream * 2 ^ 127 + unat substream * 2 ^ 76)) (seed_state s)))"
proof (cases "s = 0 \<or> m2 \<le> uint s")
  case True
  then show ?thesis by (auto simp: RngStream_def abort_if_def Let_def)
next
  case False
  then have x: "\<not> m1 \<le> uint s" "\<not> m2 \<le> uint s" "uint s \<noteq> 0" by (auto simp: m1_def m2_def uint_0_iff)
  then have r: "reduced m1 (fst (seed_state s))" "reduced m2 (snd (seed_state s))"
    by (simp_all add: seed_state_def)
  then have r': "reduced m1 (fst ((next_state ^^ n) (seed_state s)))" "reduced m2 (snd ((next_state ^^ n) (seed_state s)))" for n
    using pow_reduced [of "fst (seed_state s)" "snd (seed_state s)"] by simp_all
  have "RngStream s stream substream =
      Inr ((next_state ^^ (unat substream * 2 ^ 76)) ((next_state ^^ (unat stream * 2 ^ 127)) (seed_state s)))"
    using x AdvanceNthBy_eq [OF _ _ r, of 127 stream] AdvanceNthBy_eq [OF _ _ r', of 76 substream]
    by (simp add: RngStream_def abort_if_def seed_state_def Let_def)
  with False show ?thesis by (simp add: add.commute [of "unat stream * _"] funpow_add)
qed

lemma seed_state_ok: "s \<noteq> 0 \<Longrightarrow> uint s < m2 \<Longrightarrow> rng_ok (seed_state s)"
  by (auto simp: rng_ok_def seed_state_def m1_def m2_def uint_0_iff)

text \<open>The binary exponentiation of \<open>MatPowModM\<close>.\<close>

lemma MatPowModM_loop_eq:
  "modulus m \<Longrightarrow> mat_entries m W \<Longrightarrow> mat_entries m B \<Longrightarrow>
    \<exists>M. MatPowModM_loop n W B m = Inr M \<and> (\<forall>v. vec_mul m M v = (vec_mul m W ^^ n) (vec_mul m B v))"
proof (induction n W B m rule: MatPowModM_loop.induct)
  case (1 n W B m)
  show ?case
  proof (cases "n = 0")
    case True
    then show ?thesis by (subst MatPowModM_loop.simps) auto
  next
    case False
    let ?B = "if n mod 2 = 1 then mat_mul m W B else B" and ?W = "mat_square m W"
    have W: "mat_entries m ?W" using squares_entries [OF 1(2,3), of 1] by simp
    have B: "mat_entries m ?B" using 1(4) mat_mul_entries [OF 1(2)] by simp
    from 1(1) [OF False 1(2) W B] obtain M where
      M: "MatPowModM_loop (n div 2) ?W ?B m = Inr M"
        "vec_mul m M v = (vec_mul m ?W ^^ (n div 2)) (vec_mul m ?B v)" for v by blast
    have "(if n mod 2 = 1 then MatMatModM W B m else Inr B) = Inr ?B"
      by (simp add: MatMatModM_eq [OF 1(2-4)])
    then have run: "MatPowModM_loop n W B m = Inr M"
      using False M(1) by (subst MatPowModM_loop.simps) (simp add: MatMatModM_square [OF 1(2,3)])
    have "vec_mul m ?W = vec_mul m W ^^ 2"
      by (rule ext) (simp add: mat_square_app numeral_2_eq_2)
    then have sq: "vec_mul m ?W ^^ (n div 2) = vec_mul m W ^^ (2 * (n div 2))"
      by (simp add: funpow_mult)
    have "vec_mul m ?B v = (vec_mul m W ^^ (n mod 2)) (vec_mul m B v)" for v
      by (cases "n mod 2 = 1") (simp_all add: vec_mul_mat_mul)
    then have "vec_mul m M v = (vec_mul m W ^^ (2 * (n div 2) + n mod 2)) (vec_mul m B v)" for v
      by (simp only: M(2) sq funpow_add o_apply)
    then show ?thesis using run by simp
  qed
qed

lemma mat_one_entries: "modulus m \<Longrightarrow> mat_entries m mat_one"
  by (auto simp: mat_one_def entry_def modulus_def)

lemma MatPowModM_eq:
  assumes "modulus m" and "mat_entries m A" and "reduced m v"
  shows "\<exists>M. MatPowModM A m n = Inr M \<and> vec_mul m M v = (vec_mul m A ^^ n) v"
  using MatPowModM_loop_eq [OF assms(1,2) mat_one_entries [OF assms(1)], of n] vec_mul_one [OF assms(3)]
  by (metis MatPowModM_def)

text \<open>The reference for the jumps: drawing \<open>n\<close> numbers and throwing them away.\<close>

fun draws :: "nat \<Rightarrow> rng_state \<Rightarrow> rng_state res" where
  "draws 0 st = Inr st"
| "draws (Suc n) st = res_bind (RandU01 st) (\<lambda>(_, st'). draws n st')"

lemma draws_eq:
  "reduced m1 (fst st) \<Longrightarrow> reduced m2 (snd st) \<Longrightarrow> draws n st = Inr ((next_state ^^ n) st)"
proof (induction n arbitrary: st)
  case (Suc n)
  then show ?case using next_state_reduced [of st] by (simp add: RandU01_eq funpow_swap1)
qed simp

lemma rng_ok_reduced: "rng_ok st \<Longrightarrow> reduced m1 (fst st) \<and> reduced m2 (snd st)"
  by (simp add: rng_ok_def)

text \<open>
  The comment on \<open>MultModM\<close> asks only for arguments below \<open>2 ^ 35\<close>; with a small modulus the quotient
  then does not fit the \<open>int32_t\<close>. The generator only uses its two moduli.
\<close>

lemma MultModM_small_modulus: "MultModM (2 ^ 34) (2 ^ 34) 0 3 = Inl CastOverflow"
  by (simp add: MultModM_def MultModM_split_def two53_def two17_def int32_def abort_if_def reduce_by_def dbl_def
      signed_divide_int_def)

text \<open>
  A substream is \<open>2 ^ 76\<close> steps long and a stream \<open>2 ^ 127\<close>: run number \<open>2 ^ 51\<close> of a stream is run
  number \<open>0\<close> of the next.
\<close>

lemma substreams_meet_next_stream:
  assumes "unat stream + 1 < 2 ^ 64"
  shows "RngStream s stream (2 ^ 51) = RngStream s (stream + 1) 0"
proof -
  have "unat (stream + 1) = unat stream + 1"
    using assms by (simp add: unat_word_ariths)
  moreover have "unat (2 ^ 51 :: uint64) = 2 ^ 51"
    using of_nat_inverse [of "2 ^ 51" "2 ^ 51 :: uint64"] by simp
  moreover have "n * 2 ^ 127 + 2 ^ 51 * 2 ^ 76 = (n + 1) * 2 ^ 127 + (0 :: nat) * 2 ^ 76" for n :: nat
    by simp
  ultimately show ?thesis unfolding RngStream_eq by (simp only: unsigned_0)
qed

section \<open>Properties\<close>

text \<open>
  C32: Drawing from a well-formed state never loses precision or overflows a cast: it returns a number strictly
  between 0 and 1, and a state that is well formed again: components reduced by their moduli and neither of
  them all zero, from where the generator would return the same number for ever.
\<close>

theorem draw_sound:
  assumes "rng_ok st"
  shows "\<exists>u st'. RandU01 st = Inr (u, st') \<and> 0 < u \<and> u < 1 \<and> rng_ok st'"
  using assms rng_ok_reduced [OF assms]
  by (simp add: RandU01_eq rand_value_bounds next_state_ok)

theorem draw_sound_witness:
  "\<exists>u st'. RandU01 ((1, 1, 1), (1, 1, 1)) = Inr (u, st') \<and> 0 < u \<and> rng_ok st'"
  using draw_sound [of "((1, 1, 1), (1, 1, 1))"] by (auto simp: rng_ok_def m1_def m2_def)

text \<open>
  C31: \<open>AdvanceNthBy\<close>, which multiplies by precalculated powers of the transition matrices, leaves exactly
  the state that drawing \<open>n * 2 ^ by\<close> numbers one by one leaves, for every exponent the table covers.
\<close>

theorem advance_is_drawing:
  assumes "rng_ok st" and "1 \<le> by_log" and "by_log \<le> 127"
  shows "AdvanceNthBy n by_log st = draws (unat n * 2 ^ by_log) st"
  using assms rng_ok_reduced [OF assms(1)] by (simp add: AdvanceNthBy_eq draws_eq)

theorem advance_is_drawing_witness:
  "AdvanceNthBy 3 76 ((1, 1, 1), (1, 1, 1)) = draws (3 * 2 ^ 76) ((1, 1, 1), (1, 1, 1))"
  using advance_is_drawing [of "((1, 1, 1), (1, 1, 1))" 76 3] by (simp add: rng_ok_def m1_def m2_def)

text \<open>
  C33: A stream is created exactly for the seeds from 1 to \<open>m2 - 1\<close>; it starts where \<open>2 ^ 127\<close> draws per
  stream number and \<open>2 ^ 76\<close> per substream number lead from the state filled with the seed, and that
  state is well formed.
\<close>

theorem stream_start:
  "(uint s \<in> {1..<m2} \<longrightarrow> (\<exists>st. RngStream s stream substream = Inr st \<and> rng_ok st \<and>
      draws (unat stream * 2 ^ 127 + unat substream * 2 ^ 76) (seed_state s) = Inr st)) \<and>
   (uint s \<notin> {1..<m2} \<longrightarrow> RngStream s stream substream = Inl InvalidSeed)"
proof (cases "s = 0 \<or> m2 \<le> uint s")
  case True
  then show ?thesis by (auto simp: RngStream_eq)
next
  case False
  then have "rng_ok (seed_state s)" by (intro seed_state_ok) auto
  moreover have "1 \<le> uint s" using False uint_0_iff [of s] uint_ge_0 [of s] by linarith
  ultimately show ?thesis
    using False rng_ok_reduced states_ok [of "seed_state s"] by (simp add: RngStream_eq draws_eq)
qed

theorem stream_start_witness:
  "\<exists>st. RngStream 1 5 7 = Inr st \<and> draws (5 * 2 ^ 127 + 7 * 2 ^ 76) (seed_state 1) = Inr st"
  using stream_start [of 1 5 7] by (auto simp: m2_def)

end
