(* ===== verification/Random_Variables.thy ===== *)
theory Random_Variables
  imports Rng_Stream
begin

text \<open>
  Random variables (\<open>src/src/core/model/random-variable-stream.cc\<close>) and the assignment of their streams
  (\<open>rng-seed-manager.cc\<close>). A variable owns a generator; \<open>draw\<close> is \<open>Peek()->RandU01()\<close>, and \<open>draw_flipped\<close>
  adds the reflection most variables apply when they are antithetic. Loops that redraw until a value is
  accepted are partial functions. A logarithm of a number that is not positive is not a number (\<open>None\<close>).
\<close>

section \<open>Streams\<close>

record seed_manager =
  g_nextStreamIndex :: uint64
  g_rngSeed :: uint32
  g_rngRun :: uint64

definition GetNextStreamIndex :: "seed_manager \<Rightarrow> uint64 \<times> seed_manager" where
  "GetNextStreamIndex g = (g_nextStreamIndex g, g\<lparr>g_nextStreamIndex := g_nextStreamIndex g + 1\<rparr>)"

definition ResetNextStreamIndex :: "seed_manager \<Rightarrow> seed_manager" where
  "ResetNextStreamIndex g = g\<lparr>g_nextStreamIndex := 0\<rparr>"

record rv_stream =
  m_rng :: "rng_state option"
  m_isAntithetic :: bool
  m_stream :: int

definition SetAntithetic :: "bool \<Rightarrow> rv_stream \<Rightarrow> rv_stream" where
  "SetAntithetic b v = v\<lparr>m_isAntithetic := b\<rparr>"

definition SetStream :: "int \<Rightarrow> seed_manager \<Rightarrow> rv_stream \<Rightarrow> (seed_manager \<times> rv_stream) res" where
  "SetStream stream g v =
     abort_if (stream < - 1) InvalidStream
       (if stream = - 1
        then (case GetNextStreamIndex g of (next', g') \<Rightarrow>
          abort_if (\<not> next' \<le> 2 ^ 63) InvalidStream
            (res_bind (RngStream (g_rngSeed g') next' (g_rngRun g')) (\<lambda>st.
              Inr (g', v\<lparr>m_rng := Some st, m_stream := stream\<rparr>))))
        else res_bind (RngStream (g_rngSeed g) (2 ^ 63 + word_of_int stream) (g_rngRun g)) (\<lambda>st.
          Inr (g, v\<lparr>m_rng := Some st, m_stream := stream\<rparr>)))"

definition draw :: "rv_stream \<Rightarrow> (double \<times> rv_stream) res" where
  "draw v =
     (case m_rng v of
        None \<Rightarrow> Inl NullPointer
      | Some st \<Rightarrow> res_bind (RandU01 st) (\<lambda>(u, st'). Inr (u, v\<lparr>m_rng := Some st'\<rparr>)))"

definition draw_flipped :: "rv_stream \<Rightarrow> (double \<times> rv_stream) res" where
  "draw_flipped v = res_bind (draw v) (\<lambda>(u, v'). Inr (if m_isAntithetic v then 1 - u else u, v'))"

text \<open>\<open>static_cast<uint32_t>\<close> of a double; a value outside the range is undefined.\<close>

definition cast_uint32 :: "double \<Rightarrow> int res" where
  "cast_uint32 x =
     (let t = (if 0 \<le> x then \<lfloor>x\<rfloor> else \<lceil>x\<rceil>) in abort_if (t < 0 \<or> 2 ^ 32 \<le> t) CastOverflow (Inr t))"

section \<open>Variables with one draw\<close>

definition uniform_GetValue :: "double \<Rightarrow> double \<Rightarrow> rv_stream \<Rightarrow> (double \<times> rv_stream) res" where
  "uniform_GetValue mn mx v =
     res_bind (draw v) (\<lambda>(u, v').
       let x = mn + u * (mx - mn) in Inr (if m_isAntithetic v then mn + (mx - x) else x, v'))"

definition uniform_GetInteger :: "uint32 \<Rightarrow> uint32 \<Rightarrow> rv_stream \<Rightarrow> (int \<times> rv_stream) res" where
  "uniform_GetInteger mn mx v =
     abort_if (\<not> mn \<le> mx) EmptyRange
       (res_bind (uniform_GetValue (of_int (uint mn)) (of_int (uint mx) + 1) v) (\<lambda>(x, v').
         res_bind (cast_uint32 x) (\<lambda>n. Inr (n, v'))))"

text \<open>\<open>std::log\<close> and \<open>std::sqrt\<close>, \<open>None\<close> where they are not a finite number.\<close>

definition std_log :: "double \<Rightarrow> double option" where
  "std_log x = (if 0 < x then Some (ln x) else None)"

definition std_sqrt :: "double \<Rightarrow> double option" where
  "std_sqrt x = (if 0 \<le> x then Some (sqrt x) else None)"

text \<open>
  When \<open>max = min\<close> the quotient is infinite or not a number, but both branches give \<open>min\<close>, as they do here.
\<close>

definition triangular_GetValue :: "double \<Rightarrow> double \<Rightarrow> double \<Rightarrow> rv_stream \<Rightarrow> (double option \<times> rv_stream) res" where
  "triangular_GetValue mean mn mx v =
     (let mode = 3 * mean - mn - mx in
      res_bind (draw_flipped v) (\<lambda>(u, v').
        Inr (if u \<le> (mode - mn) / (mx - mn)
             then map_option (\<lambda>s. mn + s) (std_sqrt (u * (mx - mn) * (mode - mn)))
             else map_option (\<lambda>s. mx - s) (std_sqrt ((1 - u) * (mx - mn) * (mx - mode))), v')))"

text \<open>The loop of \<open>ZipfRandomVariable::GetValue\<close> over the values \<open>i\<close> to \<open>n\<close>.\<close>

fun zipf_search :: "double \<Rightarrow> double \<Rightarrow> double \<Rightarrow> double \<Rightarrow> nat list \<Rightarrow> nat" where
  "zipf_search c alpha u sum_prob [] = 0"
| "zipf_search c alpha u sum_prob (i # is) =
     (let s = sum_prob + c / (real i powr alpha) in
      if s > u then i else zipf_search c alpha u s is)"

definition zipf_GetValue :: "nat \<Rightarrow> double \<Rightarrow> rv_stream \<Rightarrow> (nat \<times> rv_stream) res" where
  "zipf_GetValue n alpha v =
     (let c = 1 / (\<Sum>i \<leftarrow> [1..<Suc n]. 1 / (real i powr alpha)) in
      res_bind (draw_flipped v) (\<lambda>(u, v'). Inr (zipf_search c alpha u 0 [1..<Suc n], v')))"

definition bernoulli_GetValue :: "double \<Rightarrow> rv_stream \<Rightarrow> (nat \<times> rv_stream) res" where
  "bernoulli_GetValue probability v =
     res_bind (draw_flipped v) (\<lambda>(u, v'). Inr (if u \<le> probability then 1 else 0, v'))"

definition binomial_GetValue :: "nat \<Rightarrow> double \<Rightarrow> rv_stream \<Rightarrow> (nat \<times> rv_stream) res" where
  "binomial_GetValue trials probability v =
     res_fold (\<lambda>_ (successes, v).
         res_bind (draw_flipped v) (\<lambda>(u, v'). Inr (if u \<le> probability then successes + 1 else successes, v')))
       [0..<trials] (0, v)"

section \<open>Variables without draws\<close>

record 'i sequential =
  sq_min :: double
  sq_max :: double
  sq_increment :: 'i
  sq_consecutive :: uint32
  sq_current :: double
  sq_currentConsecutive :: uint32
  sq_isCurrentSet :: bool

text \<open>\<open>next_increment\<close> is \<open>GetValue\<close> of the variable the increments come from.\<close>

definition sequential_GetValue ::
  "('i \<Rightarrow> (double \<times> 'i) res) \<Rightarrow> 'i sequential \<Rightarrow> (double \<times> 'i sequential) res" where
  "sequential_GetValue next_increment s =
     (let s1 = (if sq_isCurrentSet s then s else s\<lparr>sq_current := sq_min s, sq_isCurrentSet := True\<rparr>);
          r = sq_current s1;
          s2 = s1\<lparr>sq_currentConsecutive := sq_currentConsecutive s1 + 1\<rparr>
      in if sq_currentConsecutive s2 = sq_consecutive s2
         then res_bind (next_increment (sq_increment s2)) (\<lambda>(d, i).
           let c = sq_current s2 + d
           in Inr (r, s2\<lparr>sq_currentConsecutive := 0, sq_increment := i,
                sq_current := (if sq_max s2 \<le> c then sq_min s2 + (c - sq_max s2) else c)\<rparr>))
         else Inr (r, s2))"

record deterministic =
  dt_count :: nat
  dt_next :: nat
  dt_data :: "double list"

definition SetValueArray :: "double list \<Rightarrow> deterministic \<Rightarrow> deterministic" where
  "SetValueArray values d = d\<lparr>dt_data := values, dt_count := length values, dt_next := length values\<rparr>"

definition deterministic_GetValue :: "deterministic \<Rightarrow> (double \<times> deterministic) res" where
  "deterministic_GetValue d =
     abort_if (dt_count d = 0) NoValues
       (let n = (if dt_next d = dt_count d then 0 else dt_next d) in
        abort_if (length (dt_data d) \<le> n) IndexOutOfRange (Inr (dt_data d ! n, d\<lparr>dt_next := n + 1\<rparr>)))"

section \<open>Variables that redraw\<close>

text \<open>
  \<open>std::pow(x, 1.0 / shape)\<close> for \<open>x > 0\<close>, \<open>None\<close> where it is not a finite number: \<open>1.0 / 0.0\<close> is infinite.
\<close>

definition std_root :: "double \<Rightarrow> double \<Rightarrow> double option" where
  "std_root x shape =
     (if shape \<noteq> 0 then Some (x powr (1 / shape))
      else if x < 1 then Some 0 else if x = 1 then Some 1 else None)"

text \<open>
  The common loop: draw \<open>u\<close>, compute \<open>r\<close>, accept it when there is no bound or it is within the bound (no
  comparison with something that is not a number holds).
\<close>

partial_function (option) redraw ::
  "(rv_stream \<Rightarrow> (double \<times> rv_stream) res) \<Rightarrow> (double \<Rightarrow> double option) \<Rightarrow> (double \<Rightarrow> bool) \<Rightarrow> bool \<Rightarrow>
   rv_stream \<Rightarrow> (double option \<times> rv_stream) res option" where
  "redraw source value_of accept unbounded v =
     (case source v of
        Inl e \<Rightarrow> Some (Inl e)
      | Inr p \<Rightarrow>
          (if unbounded \<or> (case value_of (fst p) of None \<Rightarrow> False | Some r \<Rightarrow> accept r)
           then Some (Inr (value_of (fst p), snd p))
           else redraw source value_of accept unbounded (snd p)))"

definition exponential_GetValue :: "double \<Rightarrow> double \<Rightarrow> rv_stream \<Rightarrow> (double option \<times> rv_stream) res option" where
  "exponential_GetValue mean bound =
     redraw draw_flipped (\<lambda>u. map_option (\<lambda>l. - mean * l) (std_log u)) (\<lambda>r. r \<le> bound) (bound = 0)"

definition pareto_GetValue :: "double \<Rightarrow> double \<Rightarrow> double \<Rightarrow> rv_stream \<Rightarrow> (double option \<times> rv_stream) res option" where
  "pareto_GetValue scale shape bound =
     redraw draw_flipped
       (\<lambda>u. case std_root u shape of None \<Rightarrow> None | Some p \<Rightarrow> if p = 0 then None else Some (scale * (1 / p)))
       (\<lambda>r. r \<le> bound) (bound = 0)"

definition weibull_GetValue :: "double \<Rightarrow> double \<Rightarrow> double \<Rightarrow> rv_stream \<Rightarrow> (double option \<times> rv_stream) res option" where
  "weibull_GetValue scale shape bound =
     redraw draw_flipped
       (\<lambda>u. case std_log u of None \<Rightarrow> None | Some l \<Rightarrow> map_option (\<lambda>p. scale * p) (std_root (- l) shape))
       (\<lambda>r. r \<le> bound) (bound = 0)"

definition laplacian_draw :: "rv_stream \<Rightarrow> (double \<times> rv_stream) res" where
  "laplacian_draw v =
     res_bind (draw v) (\<lambda>(u, v'). let x = u - 1 / 2 in Inr (if m_isAntithetic v then 1 - x else x, v'))"

definition laplacian_GetValue :: "double \<Rightarrow> double \<Rightarrow> double \<Rightarrow> rv_stream \<Rightarrow> (double option \<times> rv_stream) res option" where
  "laplacian_GetValue location scale bound v =
     (if scale \<le> 0 then Some (Inl NonPositiveScale)
      else redraw laplacian_draw
        (\<lambda>x. map_option (\<lambda>l. location - scale * sgn x * l) (std_log (1 - 2 * \<bar>x\<bar>)))
        (\<lambda>r. \<bar>r - location\<bar> \<le> bound) (bound = 0) v)"

section \<open>The empirical distribution\<close>

record empirical =
  em_rv :: rv_stream
  em_cdf :: "(double \<times> double) list"
  em_validated :: bool
  em_interpolate :: bool

definition CDF :: "double \<Rightarrow> double \<Rightarrow> empirical \<Rightarrow> empirical" where
  "CDF v c e = e\<lparr>em_cdf := smap_upd c v (em_cdf e)\<rparr>"

fun decreasing_from :: "double \<Rightarrow> (double \<times> double) list \<Rightarrow> bool" where
  "decreasing_from vPrev [] = False"
| "decreasing_from vPrev ((c, vCurr) # ps) = (vCurr < vPrev \<or> decreasing_from vCurr ps)"

definition Validate :: "empirical \<Rightarrow> empirical res" where
  "Validate e =
     (if em_cdf e = [] then Inl InvalidCdf
      else if decreasing_from (snd (hd (em_cdf e))) (em_cdf e) then Inl InvalidCdf
      else if fst (hd (em_cdf e)) < 0 then Inl InvalidCdf
      else if fst (last (em_cdf e)) > 1 then Inl InvalidCdf
      else Inr (e\<lparr>em_validated := True\<rparr>))"

text \<open>\<open>Inl\<close> an extremal value, or \<open>Inr\<close> the number drawn.\<close>

definition PreSample :: "empirical \<Rightarrow> ((double + double) \<times> empirical) res" where
  "PreSample e =
     res_bind (if em_validated e then Inr e else Validate e) (\<lambda>e.
     res_bind (draw_flipped (em_rv e)) (\<lambda>(r, rv').
       let e' = e\<lparr>em_rv := rv'\<rparr> in
       abort_if (em_cdf e = []) NullPointer
         (Inr (if r \<le> fst (hd (em_cdf e)) then Inl (snd (hd (em_cdf e)))
               else if fst (last (em_cdf e)) \<le> r then Inl (snd (last (em_cdf e)))
               else Inr r, e'))))"

text \<open>\<open>upper_bound\<close>: the first point with a larger key, with the points before it.\<close>

fun upper_bound :: "double \<Rightarrow> (double \<times> double) list \<Rightarrow> (double \<times> double) list \<times> (double \<times> double) list" where
  "upper_bound r [] = ([], [])"
| "upper_bound r (p # ps) =
     (if r < fst p then ([], p # ps) else (case upper_bound r ps of (before, rest) \<Rightarrow> (p # before, rest)))"

definition DoSampleCDF :: "double \<Rightarrow> empirical \<Rightarrow> double res" where
  "DoSampleCDF r e = (case upper_bound r (em_cdf e) of (_, []) \<Rightarrow> Inl NullPointer | (_, p # _) \<Rightarrow> Inr (snd p))"

definition DoInterpolate :: "double \<Rightarrow> empirical \<Rightarrow> double res" where
  "DoInterpolate r e =
     (case upper_bound r (em_cdf e) of
        (_, []) \<Rightarrow> Inl NullPointer
      | (before, up # _) \<Rightarrow>
          (let low = (if before = [] then up else last before) in
           abort_if (fst up = fst low) DivisionByZero
             (Inr (snd low + (snd up - snd low) / (fst up - fst low) * (r - fst low)))))"

definition empirical_GetValue :: "empirical \<Rightarrow> (double \<times> empirical) res" where
  "empirical_GetValue e =
     res_bind (PreSample e) (\<lambda>(x, e').
       case x of
         Inl value \<Rightarrow> Inr (value, e')
       | Inr r \<Rightarrow> res_bind (if em_interpolate e' then DoInterpolate r e' else DoSampleCDF r e') (\<lambda>value. Inr (value, e')))"

section \<open>Laws\<close>

definition rv_ok :: "rv_stream \<Rightarrow> bool" where
  "rv_ok v \<longleftrightarrow> (\<exists>st. m_rng v = Some st \<and> rng_ok st)"

lemma draw_spec:
  assumes "rv_ok v"
  shows "\<exists>u v'. draw v = Inr (u, v') \<and> 0 < u \<and> u < 1 \<and> rv_ok v' \<and> m_isAntithetic v' = m_isAntithetic v"
proof -
  from assms obtain st where st: "m_rng v = Some st" "rng_ok st" by (auto simp: rv_ok_def)
  then show ?thesis
    using rng_ok_reduced [OF st(2)] rand_value_bounds [of st] next_state_ok [OF st(2)]
    by (auto simp: draw_def RandU01_eq rv_ok_def simp del: split_paired_Ex)
qed

lemma draw_flipped_spec:
  assumes "rv_ok v"
  shows "\<exists>u v'. draw_flipped v = Inr (u, v') \<and> 0 < u \<and> u < 1 \<and> rv_ok v' \<and> m_isAntithetic v' = m_isAntithetic v"
  using draw_spec [OF assms] by (auto simp: draw_flipped_def)

lemma uniform_spec:
  assumes "rv_ok v" and "mn < mx"
  shows "\<exists>x v'. uniform_GetValue mn mx v = Inr (x, v') \<and> mn < x \<and> x < mx \<and> rv_ok v'"
proof -
  from draw_spec [OF assms(1)] obtain u v' where u: "draw v = Inr (u, v')" "0 < u" "u < 1" "rv_ok v'" by blast
  have "0 < u * (mx - mn)" using u(2) assms(2) by simp
  moreover have "u * (mx - mn) < 1 * (mx - mn)" using u(3) assms(2) by (intro mult_strict_right_mono) simp_all
  ultimately have "0 < u * (mx - mn)" "u * (mx - mn) < mx - mn" by simp_all
  then show ?thesis using u(1,4) by (auto simp: uniform_GetValue_def Let_def)
qed

lemma cast_uint32_between:
  assumes "of_int a < x" and "x < of_int b + 1" and "0 \<le> a" and "b < 2 ^ 32"
  shows "\<exists>n. cast_uint32 x = Inr n \<and> a \<le> n \<and> n \<le> b"
proof -
  have n: "a \<le> \<lfloor>x\<rfloor>" "\<lfloor>x\<rfloor> \<le> b" "0 \<le> x" using assms by (linarith+)
  then have "\<not> (\<lfloor>x\<rfloor> < 0 \<or> 2 ^ 32 \<le> \<lfloor>x\<rfloor>)" using assms(3,4) by linarith
  with n show ?thesis unfolding cast_uint32_def Let_def abort_if_def by simp
qed

lemma zipf_search_in:
  "u < p + (\<Sum>i \<leftarrow> is. c / (real i powr alpha)) \<Longrightarrow> p \<le> u \<Longrightarrow> zipf_search c alpha u p is \<in> set is"
  by (induction "is" arbitrary: p) (auto simp: Let_def add.assoc)

lemma zipf_spec:
  assumes "rv_ok v" and "0 < n"
  shows "\<exists>k v'. zipf_GetValue n alpha v = Inr (k, v') \<and> 1 \<le> k \<and> k \<le> n \<and> rv_ok v'"
proof -
  let ?S = "\<Sum>i \<leftarrow> [1..<Suc n]. 1 / (real i powr alpha)"
  from draw_flipped_spec [OF assms(1)] obtain u v' where
    u: "draw_flipped v = Inr (u, v')" "0 < u" "u < 1" "rv_ok v'" by blast
  have "0 < 1 / (real 1 powr alpha)" by simp
  moreover have "0 \<le> (\<Sum>i \<leftarrow> [2..<Suc n]. 1 / (real i powr alpha))" by (intro sum_list_nonneg) auto
  moreover have "[1..<Suc n] = 1 # [2..<Suc n]"
    using assms(2) upt_conv_Cons [of 1 "Suc n"] by (simp add: numeral_2_eq_2)
  ultimately have S: "0 < ?S" by (simp del: upt_Suc)
  have "(\<Sum>i \<leftarrow> [1..<Suc n]. 1 / ?S / (real i powr alpha)) = 1 / ?S * ?S"
    by (simp only: sum_list_const_mult [symmetric]) (simp del: upt_Suc)
  also have "\<dots> = 1" using S by simp
  finally have "u < 0 + (\<Sum>i \<leftarrow> [1..<Suc n]. 1 / ?S / (real i powr alpha))" using u(3) by simp
  from zipf_search_in [OF this less_imp_le [OF u(2)]] u(1,4) show ?thesis
    by (auto simp: zipf_GetValue_def Let_def simp del: upt_Suc)
qed

lemma binomial_spec:
  assumes "rv_ok v"
  shows "\<exists>k v'. binomial_GetValue n p v = Inr (k, v') \<and> k \<le> n \<and> rv_ok v'"
proof (induction n)
  case 0
  then show ?case using assms by (simp add: binomial_GetValue_def)
next
  case (Suc n)
  then obtain k v' where k: "binomial_GetValue n p v = Inr (k, v')" "k \<le> n" "rv_ok v'" by blast
  from draw_flipped_spec [OF k(3)] obtain u v'' where u: "draw_flipped v' = Inr (u, v'')" "rv_ok v''" by blast
  from k u show ?case by (auto simp: binomial_GetValue_def res_fold_append)
qed

lemma deterministic_cycle:
  assumes "values \<noteq> []"
  shows "\<exists>d'. deterministic_GetValue (SetValueArray values d) = Inr (hd values, d') \<and> dt_next d' = 1"
  using assms by (simp add: deterministic_GetValue_def SetValueArray_def abort_if_def hd_conv_nth)

lemma sequential_in_range:
  assumes "sequential_GetValue (\<lambda>d. Inr (d, d)) s = Inr (r, s')" and "sq_min s < sq_max s"
    and "0 \<le> sq_increment s" and "sq_increment s \<le> sq_max s - sq_min s"
    and "sq_isCurrentSet s \<longrightarrow> sq_min s \<le> sq_current s \<and> sq_current s < sq_max s"
  shows "sq_min s \<le> r \<and> r < sq_max s \<and> sq_min s' \<le> sq_current s' \<and> sq_current s' < sq_max s'"
  using assms by (auto simp: sequential_GetValue_def Let_def split: if_splits)

subsection \<open>Assignment of streams\<close>

text \<open>The index of the generator \<open>SetStream\<close> creates.\<close>

definition stream_index :: "int \<Rightarrow> seed_manager \<Rightarrow> uint64" where
  "stream_index stream g = (if stream = - 1 then g_nextStreamIndex g else 2 ^ 63 + word_of_int stream)"

definition valid_seed :: "uint32 \<Rightarrow> bool" where
  "valid_seed s \<longleftrightarrow> s \<noteq> 0 \<and> uint s < m2"

lemma RngStream_total:
  "valid_seed s \<Longrightarrow> \<exists>st. RngStream s i r = Inr st \<and> rng_ok st"
  using states_ok [OF seed_state_ok [of s]] by (simp add: RngStream_eq valid_seed_def not_le [symmetric])

lemma SetStream_spec:
  assumes "valid_seed (g_rngSeed g)" and "- 1 \<le> stream" and "stream = - 1 \<longrightarrow> g_nextStreamIndex g \<le> 2 ^ 63"
  shows "\<exists>st. SetStream stream g v =
      Inr (if stream = - 1 then g\<lparr>g_nextStreamIndex := g_nextStreamIndex g + 1\<rparr> else g,
           v\<lparr>m_rng := Some st, m_stream := stream\<rparr>) \<and>
    RngStream (g_rngSeed g) (stream_index stream g) (g_rngRun g) = Inr st \<and> rng_ok st"
  using assms RngStream_total [OF assms(1), of "stream_index stream g" "g_rngRun g"]
  by (auto simp: SetStream_def GetNextStreamIndex_def abort_if_def stream_index_def)

lemma unat_half: "unat (2 ^ 63 :: uint64) = 2 ^ 63"
  using of_nat_inverse [of "2 ^ 63" "2 ^ 63 :: uint64"] by simp

lemma below_half:
  fixes n :: uint64
  assumes "unat n + 1 \<le> 2 ^ 63"
  shows "n \<le> 2 ^ 63" and "unat (n + 1) = unat n + 1"
proof -
  show "n \<le> 2 ^ 63" using assms by (simp only: word_le_nat_alt unat_half)
  show "unat (n + 1) = unat n + 1" using assms by (simp add: unat_word_ariths)
qed

lemma unat_configured:
  assumes "0 \<le> s" and "s < 2 ^ 63"
  shows "unat (2 ^ 63 + word_of_int s :: uint64) = 2 ^ 63 + nat s"
proof -
  have "unat (word_of_int s :: uint64) = nat s"
    using of_nat_inverse [of "nat s" "word_of_int s :: uint64"] assms by simp
  with assms show ?thesis by (simp add: unat_word_ariths unat_half del: of_nat_power)
qed

fun assign_streams :: "int list \<Rightarrow> seed_manager \<Rightarrow> rv_stream \<Rightarrow> rv_stream list res" where
  "assign_streams [] g v = Inr []"
| "assign_streams (s # ss) g v =
     res_bind (SetStream s g v) (\<lambda>(g', v'). res_bind (assign_streams ss g' v) (\<lambda>vs. Inr (v' # vs)))"

fun stream_indices :: "int list \<Rightarrow> seed_manager \<Rightarrow> uint64 list" where
  "stream_indices [] g = []"
| "stream_indices (s # ss) g =
     stream_index s g #
     stream_indices ss (if s = - 1 then g\<lparr>g_nextStreamIndex := g_nextStreamIndex g + 1\<rparr> else g)"

text \<open>The automatic numbers are not exhausted.\<close>

definition automatic_left :: "int list \<Rightarrow> seed_manager \<Rightarrow> bool" where
  "automatic_left ss g \<longleftrightarrow> unat (g_nextStreamIndex g) + length (filter (\<lambda>s. s = - 1) ss) \<le> 2 ^ 63"

text \<open>\<open>v\<close> owns a fresh generator of stream \<open>i\<close>.\<close>

definition has_stream :: "seed_manager \<Rightarrow> rv_stream \<Rightarrow> uint64 \<Rightarrow> bool" where
  "has_stream g v i \<longleftrightarrow>
     (\<exists>st. m_rng v = Some st \<and> rng_ok st \<and> RngStream (g_rngSeed g) i (g_rngRun g) = Inr st)"

lemma has_stream_next [simp]: "has_stream (g\<lparr>g_nextStreamIndex := n\<rparr>) = has_stream g"
  by (intro ext) (simp add: has_stream_def)

lemma assign_streams_spec:
  assumes "valid_seed (g_rngSeed g)" and "\<forall>s \<in> set ss. - 1 \<le> s" and "automatic_left ss g"
  shows "\<exists>vs. assign_streams ss g v = Inr vs \<and> list_all2 (has_stream g) vs (stream_indices ss g)"
  using assms
proof (induction ss arbitrary: g)
  case (Cons s ss)
  let ?g = "if s = - 1 then g\<lparr>g_nextStreamIndex := g_nextStreamIndex g + 1\<rparr> else g"
  have next_ok: "s = - 1 \<longrightarrow> g_nextStreamIndex g \<le> 2 ^ 63 \<and> unat (g_nextStreamIndex g + 1) = unat (g_nextStreamIndex g) + 1"
    using below_half [of "g_nextStreamIndex g"] Cons.prems(3) by (auto simp: automatic_left_def)
  from SetStream_spec [OF Cons.prems(1), of s v] Cons.prems(2) next_ok obtain st where
    st: "SetStream s g v = Inr (?g, v\<lparr>m_rng := Some st, m_stream := s\<rparr>)"
      "has_stream g (v\<lparr>m_rng := Some st, m_stream := s\<rparr>) (stream_index s g)"
    by (auto simp: has_stream_def simp del: split_paired_Ex)
  have left: "automatic_left ss ?g" using Cons.prems(3) next_ok by (auto simp: automatic_left_def)
  have g: "valid_seed (g_rngSeed ?g)" "has_stream ?g = has_stream g" using Cons.prems(1) by simp_all
  from Cons.IH [OF g(1) _ left] Cons.prems(2) obtain vs where
    "assign_streams ss ?g v = Inr vs" "list_all2 (has_stream g) vs (stream_indices ss ?g)"
    unfolding g(2) by auto
  with st show ?case by simp
qed simp

lemma stream_indices_range:
  assumes "i \<in> set (stream_indices ss g)" and "automatic_left ss g" and "\<forall>s \<in> set ss. - 1 \<le> s \<and> s < 2 ^ 63"
  shows "unat (g_nextStreamIndex g) \<le> unat i \<and> unat i < 2 ^ 63 \<or>
    (\<exists>s \<in> set ss. 0 \<le> s \<and> unat i = 2 ^ 63 + nat s)"
  using assms
proof (induction ss arbitrary: g)
  case (Cons s ss)
  show ?case
  proof (cases "s = - 1")
    case True
    then have n: "unat (g_nextStreamIndex g) + 1 \<le> 2 ^ 63" using Cons.prems(2) by (simp add: automatic_left_def)
    let ?g = "g\<lparr>g_nextStreamIndex := g_nextStreamIndex g + 1\<rparr>"
    have "automatic_left ss ?g" using Cons.prems(2) True below_half(2) [OF n] by (simp add: automatic_left_def)
    with Cons.IH [of ?g] Cons.prems(1,3) True n below_half(2) [OF n] show ?thesis
      by (auto simp: stream_index_def)
  next
    case False
    then have "0 \<le> s" "s < 2 ^ 63" using Cons.prems(3) by auto
    with unat_configured [of s] Cons False show ?thesis by (auto simp: stream_index_def automatic_left_def)
  qed
qed simp

lemma stream_indices_distinct:
  assumes "automatic_left ss g" and "\<forall>s \<in> set ss. - 1 \<le> s \<and> s < 2 ^ 63" and "distinct (filter (\<lambda>s. s \<noteq> - 1) ss)"
  shows "distinct (stream_indices ss g)"
  using assms
proof (induction ss arbitrary: g)
  case (Cons s ss)
  let ?g = "if s = - 1 then g\<lparr>g_nextStreamIndex := g_nextStreamIndex g + 1\<rparr> else g"
  have left: "automatic_left ss ?g"
    using Cons.prems(1) below_half(2) [of "g_nextStreamIndex g"] by (auto simp: automatic_left_def)
  have pos: "s \<noteq> - 1 \<Longrightarrow> 0 \<le> s" using Cons.prems(2) by auto
  have "stream_index s g \<notin> set (stream_indices ss ?g)"
  proof
    assume "stream_index s g \<in> set (stream_indices ss ?g)"
    from stream_indices_range [OF this left] Cons.prems
    show False
      using below_half(2) [of "g_nextStreamIndex g"] unat_configured [of s] pos
      by (cases "s = - 1") (auto simp: stream_index_def automatic_left_def eq_nat_nat_iff)
  qed
  with Cons left show ?case by (cases "s = - 1") auto
qed simp

text \<open>
  The assertion on the automatic number admits \<open>2 ^ 63\<close> itself, the number of the first configured stream.
\<close>

lemma automatic_meets_configured:
  assumes "g_nextStreamIndex g = 2 ^ 63" and "valid_seed (g_rngSeed g)"
  shows "\<exists>st g'. SetStream (- 1) g v = Inr (g', v\<lparr>m_rng := Some st, m_stream := - 1\<rparr>) \<and>
    SetStream 0 g v = Inr (g, v\<lparr>m_rng := Some st, m_stream := 0\<rparr>)"
proof -
  from RngStream_total [OF assms(2)] obtain st where "RngStream (g_rngSeed g) (2 ^ 63) (g_rngRun g) = Inr st" by blast
  then have "SetStream (- 1) g v = Inr (g\<lparr>g_nextStreamIndex := 2 ^ 63 + 1\<rparr>, v\<lparr>m_rng := Some st, m_stream := - 1\<rparr>) \<and>
      SetStream 0 g v = Inr (g, v\<lparr>m_rng := Some st, m_stream := 0\<rparr>)"
    using assms(1) by (simp add: SetStream_def GetNextStreamIndex_def abort_if_def)
  then show ?thesis by blast
qed

subsection \<open>Antithetic Laplacian variables\<close>

text \<open>
  \<open>LaplacianRandomVariable\<close> reflects a number between \<open>- 1/2\<close> and \<open>1/2\<close> as if it were one between 0 and 1,
  and takes the logarithm of a negative number: without a bound the result is not a number, and with one
  the call never returns.
\<close>

lemma laplacian_antithetic_draw:
  assumes "rv_ok v" and "m_isAntithetic v"
  shows "\<exists>x v'. laplacian_draw v = Inr (x, v') \<and> std_log (1 - 2 * \<bar>x\<bar>) = None \<and> rv_ok v' \<and> m_isAntithetic v'"
proof -
  from draw_spec [OF assms(1)] obtain u v' where u: "draw v = Inr (u, v')" "0 < u" "u < 1" "rv_ok v'"
    "m_isAntithetic v' = m_isAntithetic v" by blast
  then show ?thesis using assms(2) by (simp add: laplacian_draw_def Let_def std_log_def)
qed

lemma laplacian_antithetic_unbounded:
  assumes "rv_ok v" and "m_isAntithetic v" and "0 < scale"
  shows "\<exists>v'. laplacian_GetValue location scale 0 v = Some (Inr (None, v'))"
  using laplacian_antithetic_draw [OF assms(1,2)] assms(3)
  by (auto simp: laplacian_GetValue_def redraw.simps [of laplacian_draw])

lemma redraw_never:
  assumes run: "redraw source value_of accept False v = Some r" and inv: "I v"
    and step: "\<And>v. I v \<Longrightarrow> \<exists>x v'. source v = Inr (x, v') \<and> value_of x = None \<and> I v'"
  shows False
proof -
  have "(\<forall>v. I v \<longrightarrow> (\<exists>x v'. source v = Inr (x, v') \<and> value_of x = None \<and> I v')) \<longrightarrow> \<not> unb \<longrightarrow> \<not> I v"
    if "redraw source value_of accept unb v = Some r" for unb
  proof (rule redraw.raw_induct [OF _ that, where P = "\<lambda>source value_of accept unb v r.
      (\<forall>v. I v \<longrightarrow> (\<exists>x v'. source v = Inr (x, v') \<and> value_of x = None \<and> I v')) \<longrightarrow> \<not> unb \<longrightarrow> \<not> I v"], goal_cases)
    case (1 loop source value_of accept unb v r)
    show ?case
    proof (intro impI notI)
      assume step: "\<forall>v. I v \<longrightarrow> (\<exists>x v'. source v = Inr (x, v') \<and> value_of x = None \<and> I v')"
        and "\<not> unb" "I v"
      then obtain x v' where s: "source v = Inr (x, v')" "value_of x = None" "I v'" by blast
      with 1(2) \<open>\<not> unb\<close> have "loop source value_of accept unb v' = Some r" by simp
      from 1(1) [OF this] step \<open>\<not> unb\<close> s(3) show False by blast
    qed
  qed
  with run inv step show False by blast
qed

lemma laplacian_antithetic_bounded:
  assumes "rv_ok v" and "m_isAntithetic v" and "0 < scale" and "bound \<noteq> 0"
  shows "laplacian_GetValue location scale bound v = None"
proof (rule ccontr)
  assume "laplacian_GetValue location scale bound v \<noteq> None"
  then obtain r where "redraw laplacian_draw
        (\<lambda>x. map_option (\<lambda>l. location - scale * sgn x * l) (std_log (1 - 2 * \<bar>x\<bar>)))
        (\<lambda>r. \<bar>r - location\<bar> \<le> bound) False v = Some r"
    using assms(3,4) by (auto simp: laplacian_GetValue_def)
  then show False
    by (rule redraw_never [where I = "\<lambda>v. rv_ok v \<and> m_isAntithetic v"])
      (use assms(1,2) laplacian_antithetic_draw in fastforce)+
qed

lemma laplacian_finite:
  assumes "rv_ok v" and "\<not> m_isAntithetic v" and "0 < scale"
  shows "\<exists>r v'. laplacian_GetValue location scale 0 v = Some (Inr (Some r, v'))"
proof -
  from draw_spec [OF assms(1)] obtain u v' where u: "draw v = Inr (u, v')" "0 < u" "u < 1" by blast
  then have "0 < 1 - 2 * \<bar>u - 1 / 2\<bar>" by (auto simp: abs_if)
  with u assms(2,3) show ?thesis
    by (simp add: laplacian_GetValue_def redraw.simps [of laplacian_draw] laplacian_draw_def Let_def std_log_def)
qed

subsection \<open>The empirical distribution\<close>

definition valid_cdf :: "(double \<times> double) list \<Rightarrow> bool" where
  "valid_cdf ps \<longleftrightarrow> ps \<noteq> [] \<and> sorted (map snd ps) \<and> 0 \<le> fst (hd ps) \<and> fst (last ps) \<le> 1"

lemma decreasing_from_iff: "decreasing_from v ps \<longleftrightarrow> \<not> sorted (v # map snd ps)"
proof (induction v ps rule: decreasing_from.induct)
  case (2 vPrev c vCurr ps)
  then show ?case by (simp only: decreasing_from.simps list.map snd_conv sorted2 not_le [symmetric]) blast
qed simp

lemma Validate_eq:
  "Validate e = (if valid_cdf (em_cdf e) then Inr (e\<lparr>em_validated := True\<rparr>) else Inl InvalidCdf)"
  by (cases "em_cdf e") (auto simp: Validate_def valid_cdf_def decreasing_from_iff)

lemma upper_bound_split: "upper_bound r ps = (before, rest) \<Longrightarrow>
    ps = before @ rest \<and> (\<forall>p \<in> set before. fst p \<le> r) \<and> (rest \<noteq> [] \<longrightarrow> r < fst (hd rest))"
  by (induction r ps arbitrary: before rule: upper_bound.induct) (fastforce split: if_splits prod.splits)+

lemma sorted_between:
  "sorted (map snd ps) \<Longrightarrow> p \<in> set ps \<Longrightarrow> snd (hd ps) \<le> snd p \<and> snd p \<le> (snd (last ps) :: double)"
  by (induction ps) auto

text \<open>A sample inside the range of keys lies between two neighbouring points.\<close>

lemma interior_point:
  assumes "valid_cdf ps" and "fst (hd ps) < r" and "r < fst (last ps)"
  shows "\<exists>before low up rest. upper_bound r ps = (before @ [low], up # rest) \<and> low \<in> set ps \<and> up \<in> set ps \<and>
    fst low \<le> r \<and> r < fst up \<and> snd low \<le> snd up"
proof -
  obtain before rest where ub: "upper_bound r ps = (before, rest)" by force
  note sp = upper_bound_split [OF ub]
  have "ps \<noteq> []" using assms(1) by (simp add: valid_cdf_def)
  have "before \<noteq> []"
  proof
    assume "before = []"
    with sp \<open>ps \<noteq> []\<close> have "rest = ps" "r < fst (hd ps)" by auto
    with assms(2) show False by simp
  qed
  then obtain b low where b: "before = b @ [low]" by (metis append_butlast_last_id)
  have "rest \<noteq> []"
  proof
    assume "rest = []"
    with sp \<open>ps \<noteq> []\<close> have "fst (last ps) \<le> r" by simp
    with assms(3) show False by simp
  qed
  then obtain up rest' where up: "rest = up # rest'" by (cases rest) auto
  have "snd low \<le> snd up" using assms(1) sp b up by (auto simp: valid_cdf_def sorted_append)
  with ub sp b up show ?thesis by auto
qed

lemma interpolation_between:
  assumes "fst low \<le> r" and "r < fst up" and "snd low \<le> (snd up :: double)"
  shows "snd low \<le> snd low + (snd up - snd low) / (fst up - fst low) * (r - fst low)"
    and "snd low + (snd up - snd low) / (fst up - fst low) * (r - fst low) \<le> snd up"
proof -
  let ?t = "(r - fst low) / (fst up - fst low)"
  have t: "0 \<le> ?t" "?t \<le> 1" using assms by (simp_all add: divide_simps)
  have eq: "(snd up - snd low) / (fst up - fst low) * (r - fst low) = (snd up - snd low) * ?t" by simp
  show "snd low \<le> snd low + (snd up - snd low) / (fst up - fst low) * (r - fst low)"
    unfolding eq using mult_nonneg_nonneg [of "snd up - snd low" ?t] t(1) assms(3) by linarith
  have "(snd up - snd low) * ?t \<le> snd up - snd low"
    using mult_left_mono [OF t(2), of "snd up - snd low"] assms(3) by (simp only: mult_1_right)
  then show "snd low + (snd up - snd low) / (fst up - fst low) * (r - fst low) \<le> snd up"
    unfolding eq by linarith
qed

lemma empirical_sample:
  assumes valid: "valid_cdf (em_cdf e)" and "fst (hd (em_cdf e)) < r" and "r < fst (last (em_cdf e))"
  shows "\<exists>x. (if em_interpolate e then DoInterpolate r e else DoSampleCDF r e) = Inr x \<and>
    snd (hd (em_cdf e)) \<le> x \<and> x \<le> snd (last (em_cdf e)) \<and> (\<not> em_interpolate e \<longrightarrow> x \<in> snd ` set (em_cdf e))"
proof -
  from interior_point [OF assms] obtain before low up rest where
    ub: "upper_bound r (em_cdf e) = (before @ [low], up # rest)" and mem: "low \<in> set (em_cdf e)" "up \<in> set (em_cdf e)"
      and b: "fst low \<le> r" "r < fst up" "snd low \<le> snd up" by blast
  have s: "sorted (map snd (em_cdf e))" using valid by (simp add: valid_cdf_def)
  note r = sorted_between [OF s mem(1)] sorted_between [OF s mem(2)]
  show ?thesis
  proof (cases "em_interpolate e")
    case True
    have "DoInterpolate r e = Inr (snd low + (snd up - snd low) / (fst up - fst low) * (r - fst low))"
      using b by (simp add: DoInterpolate_def ub abort_if_def)
    with True r interpolation_between [OF b] show ?thesis by auto
  next
    case False
    then show ?thesis using r mem by (simp add: DoSampleCDF_def ub)
  qed
qed

lemma empirical_in_range_aux:
  assumes rv: "rv_ok (em_rv e)" and valid: "valid_cdf (em_cdf e)"
  shows "\<exists>x e'. empirical_GetValue e = Inr (x, e') \<and> snd (hd (em_cdf e)) \<le> x \<and> x \<le> snd (last (em_cdf e)) \<and>
    (\<not> em_interpolate e \<longrightarrow> x \<in> snd ` set (em_cdf e)) \<and> rv_ok (em_rv e') \<and> em_cdf e' = em_cdf e"
proof -
  let ?e = "if em_validated e then e else e\<lparr>em_validated := True\<rparr>"
  let ?ps = "em_cdf e"
  have same: "em_rv ?e = em_rv e" "em_cdf ?e = em_cdf e" "em_interpolate ?e = em_interpolate e" by simp_all
  have v: "(if em_validated e then Inr e else Validate e) = Inr ?e" using valid by (simp add: Validate_eq)
  from draw_flipped_spec [OF rv] obtain r rv' where d: "draw_flipped (em_rv e) = Inr (r, rv')" "rv_ok rv'" by blast
  let ?e' = "?e\<lparr>em_rv := rv'\<rparr>"
  have ne: "?ps \<noteq> []" and srt: "sorted (map snd ?ps)" using valid by (simp_all add: valid_cdf_def)
  then have ends: "snd (hd ?ps) \<le> snd (last ?ps)" "hd ?ps \<in> set ?ps" "last ?ps \<in> set ?ps"
    using sorted_between [OF srt, of "last ?ps"] by simp_all
  have pre: "PreSample e = Inr (if r \<le> fst (hd ?ps) then Inl (snd (hd ?ps))
      else if fst (last ?ps) \<le> r then Inl (snd (last ?ps)) else Inr r, ?e')"
    unfolding PreSample_def v using d ne same by (simp add: Let_def abort_if_def)
  consider "r \<le> fst (hd ?ps)" | "fst (hd ?ps) < r" "fst (last ?ps) \<le> r" | "fst (hd ?ps) < r" "r < fst (last ?ps)"
    by linarith
  then show ?thesis
  proof cases
    case 3
    have "valid_cdf (em_cdf ?e')" using valid by simp
    from empirical_sample [OF this, of r] 3 same obtain x where
      "(if em_interpolate ?e' then DoInterpolate r ?e' else DoSampleCDF r ?e') = Inr x"
      "snd (hd ?ps) \<le> x" "x \<le> snd (last ?ps)" "\<not> em_interpolate e \<longrightarrow> x \<in> snd ` set ?ps" by auto
    with 3 pre d(2) show ?thesis by (simp add: empirical_GetValue_def)
  qed (use pre d(2) ends in \<open>auto simp: empirical_GetValue_def\<close>)
qed

text \<open>\<open>CDF\<close> leaves the flag alone, so a point added after the first sample is never validated.\<close>

lemma late_point_not_validated:
  assumes "em_validated e"
  shows "em_validated (CDF v c e)" and "rv_ok (em_rv e) \<Longrightarrow> \<exists>p. PreSample (CDF v c e) = Inr p"
proof -
  show "em_validated (CDF v c e)" using assms by (simp add: CDF_def)
  have "smap_upd c v m \<noteq> []" for m by (cases m) auto
  then show "rv_ok (em_rv e) \<Longrightarrow> \<exists>p. PreSample (CDF v c e) = Inr p"
    using draw_flipped_spec [of "em_rv e"] assms by (auto simp: PreSample_def CDF_def Let_def abort_if_def)
qed

section \<open>Properties\<close>

definition ex_rv :: rv_stream where
  "ex_rv = \<lparr>m_rng = Some ((1, 1, 1), (1, 1, 1)), m_isAntithetic = True, m_stream = 0\<rparr>"

lemma ex_rv_ok: "rv_ok ex_rv"
  by (simp add: rv_ok_def ex_rv_def rng_ok_def m1_def m2_def)

text \<open>
  C34: Whatever streams the variables of a program ask for, automatic ones or distinct configured ones, as long
  as fewer than \<open>2 ^ 63\<close> automatic ones are handed out every request succeeds and no two variables share a
  generator: each starts at the beginning of a stream of its own.
\<close>

theorem streams_never_shared:
  assumes "valid_seed (g_rngSeed g)" and "automatic_left ss g" and "\<forall>s \<in> set ss. - 1 \<le> s \<and> s < 2 ^ 63"
    and "distinct (filter (\<lambda>s. s \<noteq> - 1) ss)"
  shows "\<exists>vs is. assign_streams ss g v = Inr vs \<and> distinct is \<and> list_all2 (has_stream g) vs is"
  using assign_streams_spec [OF assms(1) _ assms(2), of v] stream_indices_distinct [OF assms(2-4)] assms(3) by blast

theorem streams_never_shared_witness:
  "\<exists>vs is. assign_streams [- 1, 5, - 1] \<lparr>g_nextStreamIndex = 3, g_rngSeed = 1, g_rngRun = 1\<rparr> ex_rv = Inr vs \<and>
    distinct is \<and> length vs = 3"
  using streams_never_shared [of "\<lparr>g_nextStreamIndex = 3, g_rngSeed = 1, g_rngRun = 1\<rparr>" "[- 1, 5, - 1]" ex_rv]
  by (force simp: valid_seed_def m2_def automatic_left_def dest: list_all2_lengthD)

text \<open>
  C35: A uniform variable returns values strictly between its bounds, antithetic or not, and its integers lie
  between the smallest and the largest one asked for, both included; the cast to 32 bits never overflows.
\<close>

theorem uniform_in_range:
  assumes "rv_ok v"
  shows "(mn < mx \<longrightarrow> (\<exists>x v'. uniform_GetValue mn mx v = Inr (x, v') \<and> mn < x \<and> x < mx \<and> rv_ok v')) \<and>
    (a \<le> b \<longrightarrow> (\<exists>n v'. uniform_GetInteger a b v = Inr (n, v') \<and> uint a \<le> n \<and> n \<le> uint b \<and> rv_ok v')) \<and>
    (\<not> a \<le> b \<longrightarrow> uniform_GetInteger a b v = Inl EmptyRange)"
proof -
  have "\<exists>n v'. uniform_GetInteger a b v = Inr (n, v') \<and> uint a \<le> n \<and> n \<le> uint b \<and> rv_ok v'" if "a \<le> b"
  proof -
    have "(of_int (uint a) :: double) \<le> of_int (uint b)" using that by (simp only: of_int_le_iff word_le_def)
    then have "of_int (uint a) < (of_int (uint b) + 1 :: double)" by linarith
    from uniform_spec [OF assms this] obtain x v' where
      x: "uniform_GetValue (of_int (uint a)) (of_int (uint b) + 1) v = Inr (x, v')"
        "of_int (uint a) < x" "x < of_int (uint b) + 1" "rv_ok v'" by blast
    have "uint b < 2 ^ 32" using uint_lt2p [of b] by simp
    from cast_uint32_between [OF x(2,3) uint_ge_0 this] x(1,4) that show ?thesis
      by (auto simp: uniform_GetInteger_def abort_if_def)
  qed
  then show ?thesis using uniform_spec [OF assms] by (auto simp: uniform_GetInteger_def abort_if_def)
qed

theorem uniform_in_range_witness:
  "\<exists>n v'. uniform_GetInteger 3 4294967295 ex_rv = Inr (n, v') \<and> 3 \<le> n \<and> rv_ok v'"
  using uniform_in_range [OF ex_rv_ok, of 0 1 3 4294967295] by (auto simp: word_le_def)

text \<open>
  C36: An empirical variable whose points are increasing probabilities within \<open>[0, 1]\<close> with values that do not
  decrease returns a value between the first and the last, and without interpolation one of them; with other
  points the first sample ends the simulation.
\<close>

theorem empirical_in_range:
  assumes "rv_ok (em_rv e)"
  shows "(valid_cdf (em_cdf e) \<longrightarrow>
      (\<exists>x e'. empirical_GetValue e = Inr (x, e') \<and> snd (hd (em_cdf e)) \<le> x \<and> x \<le> snd (last (em_cdf e)) \<and>
        (\<not> em_interpolate e \<longrightarrow> x \<in> snd ` set (em_cdf e)) \<and> rv_ok (em_rv e') \<and> em_cdf e' = em_cdf e)) \<and>
    (\<not> valid_cdf (em_cdf e) \<and> \<not> em_validated e \<longrightarrow> empirical_GetValue e = Inl InvalidCdf)"
  using empirical_in_range_aux [OF assms] by (simp add: empirical_GetValue_def PreSample_def Validate_eq)

theorem empirical_in_range_witness:
  "\<exists>x e'. empirical_GetValue \<lparr>em_rv = ex_rv, em_cdf = [(1 / 2, 10), (1, 20)], em_validated = False, em_interpolate = True\<rparr> =
    Inr (x, e') \<and> 10 \<le> x \<and> x \<le> 20"
  using empirical_in_range [of "\<lparr>em_rv = ex_rv, em_cdf = [(1 / 2, 10), (1, 20)], em_validated = False, em_interpolate = True\<rparr>"]
  by (auto simp: ex_rv_ok valid_cdf_def simp del: split_paired_Ex)

end
