(* ===== verification/Normal_Variables.thy ===== *)
theory Normal_Variables
  imports Random_Variables
begin

text \<open>
  The variables of \<open>src/src/core/model/random-variable-stream.cc\<close> that are made from normal pairs or by
  rejection: normal, log-normal, gamma, Erlang, zeta and largest extreme value. A loop that redraws is a partial
  function; that it ends cannot be shown, since a generator may reject for ever, but what it returns is within
  its bound. \<open>None\<close> is a value that is not a finite number; a comparison with it is false.
\<close>

section \<open>Pairs in the unit circle\<close>

text \<open>Two draws, moved to the square from -1 to 1.\<close>

definition draw_pair :: "rv_stream \<Rightarrow> ((double \<times> double) \<times> rv_stream) res" where
  "draw_pair v =
     res_bind (draw_flipped v) (\<lambda>(u1, v1).
     res_bind (draw_flipped v1) (\<lambda>(u2, v2). Inr ((2 * u1 - 1, 2 * u2 - 1), v2)))"

text \<open>\<open>std::sqrt((-2 * std::log(w)) / w)\<close>.\<close>

definition polar :: "double \<Rightarrow> double option" where
  "polar w = (if w = 0 then None else case std_log w of None \<Rightarrow> None | Some l \<Rightarrow> std_sqrt (- 2 * l / w))"

record normal =
  nm_rv :: rv_stream
  nm_nextValid :: bool
  nm_y :: double
  nm_v2 :: double

definition INFINITE_VALUE :: double where
  "INFINITE_VALUE = (2 - 1 / 2 ^ 52) * 2 ^ 1023"

text \<open>The two values of a pair: \<open>mean + v1 * y * sqrt(variance)\<close> and \<open>mean + v2 * y * sqrt(variance)\<close>.\<close>

definition normal_value :: "double \<Rightarrow> double \<Rightarrow> double \<Rightarrow> double \<Rightarrow> double option" where
  "normal_value mean variance v y = map_option (\<lambda>s. mean + v * y * s) (std_sqrt variance)"

definition within_bound :: "double \<Rightarrow> double \<Rightarrow> double option \<Rightarrow> bool" where
  "within_bound mean bound x = (case x of None \<Rightarrow> False | Some x \<Rightarrow> \<bar>x - mean\<bar> \<le> bound)"

partial_function (option) normal_loop :: "double \<Rightarrow> double \<Rightarrow> double \<Rightarrow> normal \<Rightarrow> (double \<times> normal) res option" where
  "normal_loop mean variance bound n =
     (case draw_pair (nm_rv n) of
        Inl e \<Rightarrow> Some (Inl e)
      | Inr p \<Rightarrow>
          (let v1 = fst (fst p);
               v2 = snd (fst p);
               w = v1 * v1 + v2 * v2;
               n1 = n\<lparr>nm_rv := snd p\<rparr>
           in if w \<le> 1
              then (case polar w of
                  None \<Rightarrow> normal_loop mean variance bound n1
                | Some y \<Rightarrow>
                    (let x1 = normal_value mean variance v1 y;
                         x2 = normal_value mean variance v2 y
                     in if within_bound mean bound x1
                        then Some (Inr (the x1, n1\<lparr>nm_nextValid := True, nm_y := y, nm_v2 := v2\<rparr>))
                        else if within_bound mean bound x2 then Some (Inr (the x2, n1\<lparr>nm_nextValid := False\<rparr>))
                        else normal_loop mean variance bound n1))
              else normal_loop mean variance bound n1))"

definition normal_GetValue :: "double \<Rightarrow> double \<Rightarrow> double \<Rightarrow> normal \<Rightarrow> (double \<times> normal) res option" where
  "normal_GetValue mean variance bound n =
     (if nm_nextValid n
      then (let n1 = n\<lparr>nm_nextValid := False\<rparr>; x2 = normal_value mean variance (nm_v2 n) (nm_y n) in
            if within_bound mean bound x2 then Some (Inr (the x2, n1)) else normal_loop mean variance bound n1)
      else normal_loop mean variance bound n)"

section \<open>Log-normal\<close>

partial_function (option) lognormal_loop :: "rv_stream \<Rightarrow> ((double \<times> double \<times> double) \<times> rv_stream) res option" where
  "lognormal_loop v =
     (case draw_pair v of
        Inl e \<Rightarrow> Some (Inl e)
      | Inr p \<Rightarrow>
          (let r2 = fst (fst p) * fst (fst p) + snd (fst p) * snd (fst p) in
           if r2 > 1 \<or> r2 = 0 then lognormal_loop (snd p) else Some (Inr ((fst (fst p), snd (fst p), r2), snd p))))"

definition lognormal_GetValue :: "double \<Rightarrow> double \<Rightarrow> normal \<Rightarrow> (double \<times> normal) res option" where
  "lognormal_GetValue mu sigma n =
     (if nm_nextValid n
      then Some (Inr (exp (sigma * nm_v2 n * nm_y n + mu), n\<lparr>nm_nextValid := False\<rparr>))
      else (case lognormal_loop (nm_rv n) of
          None \<Rightarrow> None
        | Some (Inl e) \<Rightarrow> Some (Inl e)
        | Some (Inr ((v1, v2, r2), rv)) \<Rightarrow>
            (let m_normal = sqrt (- 2 * ln r2 / r2) in
             Some (Inr (exp (sigma * (v1 * m_normal) + mu),
                        n\<lparr>nm_rv := rv, nm_nextValid := True, nm_y := m_normal, nm_v2 := v2\<rparr>)))))"

section \<open>Gamma\<close>

text \<open>
  The two nested loops are one: a normal value with \<open>v\<close> not positive is drawn again. \<open>std::log(u)\<close> of zero is
  below every number.
\<close>

definition gamma_accepts :: "double \<Rightarrow> double \<Rightarrow> double \<Rightarrow> double \<Rightarrow> bool" where
  "gamma_accepts d x v u =
     (u < 1 - 331 / 10000 * x * x * x * x \<or>
      (case std_log u of None \<Rightarrow> True | Some l \<Rightarrow> l < 1 / 2 * x * x + d * (1 - v + ln v)))"

partial_function (option) gamma_loop :: "double \<Rightarrow> double \<Rightarrow> normal \<Rightarrow> (double \<times> normal) res option" where
  "gamma_loop d c n =
     (case normal_GetValue 0 1 INFINITE_VALUE n of
        None \<Rightarrow> None
      | Some (Inl e) \<Rightarrow> Some (Inl e)
      | Some (Inr p) \<Rightarrow>
          (let x = fst p; v = 1 + c * x in
           if v \<le> 0 then gamma_loop d c (snd p)
           else (case draw_flipped (nm_rv (snd p)) of
               Inl e \<Rightarrow> Some (Inl e)
             | Inr q \<Rightarrow>
                 (let n2 = (snd p)\<lparr>nm_rv := snd q\<rparr> in
                  if gamma_accepts d x (v * v * v) (fst q) then Some (Inr (v * v * v, n2)) else gamma_loop d c n2))))"

definition gamma_at_least_1 :: "double \<Rightarrow> double \<Rightarrow> normal \<Rightarrow> (double \<times> normal) res option" where
  "gamma_at_least_1 alpha beta n =
     (let d = alpha - 1 / 3; c = (1 / 3) / sqrt d in
      case gamma_loop d c n of
        None \<Rightarrow> None
      | Some (Inl e) \<Rightarrow> Some (Inl e)
      | Some (Inr (v, n')) \<Rightarrow> Some (Inr (beta * d * v, n')))"

text \<open>
  Below 1 the code computes the value of \<open>1 + alpha\<close> twice: the first goes to the log only. \<open>u\<close> is between 0 and 1,
  so that \<open>std::pow(u, 1.0 / alpha)\<close> is finite.
\<close>

partial_function (option) gamma_GetValue :: "double \<Rightarrow> double \<Rightarrow> normal \<Rightarrow> (double \<times> normal) res option" where
  "gamma_GetValue alpha beta n =
     (if alpha < 1
      then (case draw_flipped (nm_rv n) of
          Inl e \<Rightarrow> Some (Inl e)
        | Inr q \<Rightarrow>
            Option.bind (gamma_GetValue (1 + alpha) beta (n\<lparr>nm_rv := snd q\<rparr>)) (\<lambda>r1.
              case r1 of
                Inl e \<Rightarrow> Some (Inl e)
              | Inr logged \<Rightarrow>
                  Option.bind (gamma_GetValue (1 + alpha) beta (snd logged)) (\<lambda>r2.
                    case r2 of
                      Inl e \<Rightarrow> Some (Inl e)
                    | Inr g \<Rightarrow>
                        (case std_root (fst q) alpha of
                           None \<Rightarrow> Some (Inl NonFinite)
                         | Some p \<Rightarrow> Some (Inr (fst g * p, snd g))))))
      else gamma_at_least_1 alpha beta n)"

section \<open>Erlang\<close>

text \<open>\<open>GetExponentialValue\<close> has the text of the exponential variable; its bound is 0.\<close>

primrec erlang_sum :: "nat \<Rightarrow> double \<Rightarrow> double option \<Rightarrow> rv_stream \<Rightarrow> (double option \<times> rv_stream) res option" where
  "erlang_sum 0 lambda acc v = Some (Inr (acc, v))"
| "erlang_sum (Suc k) lambda acc v =
     (case exponential_GetValue lambda 0 v of
        None \<Rightarrow> None
      | Some (Inl e) \<Rightarrow> Some (Inl e)
      | Some (Inr (r, v')) \<Rightarrow>
          erlang_sum k lambda (case (acc, r) of (Some t, Some x) \<Rightarrow> Some (t + x) | _ \<Rightarrow> None) v')"

definition erlang_GetValue :: "nat \<Rightarrow> double \<Rightarrow> rv_stream \<Rightarrow> (double option \<times> rv_stream) res option" where
  "erlang_GetValue k lambda v = erlang_sum k lambda (Some 0) v"

section \<open>Zeta and largest extreme value\<close>

text \<open>
  With \<open>alpha\<close> equal to 1 the code divides by zero and returns an infinite value; below 1, \<open>X\<close> is 0, \<open>1 / X\<close> is
  infinite and \<open>T\<close> is 0.
\<close>

partial_function (option) zeta_loop :: "double \<Rightarrow> double \<Rightarrow> rv_stream \<Rightarrow> (int \<times> rv_stream) res option" where
  "zeta_loop alpha b s =
     (case draw_flipped s of
        Inl e \<Rightarrow> Some (Inl e)
      | Inr p \<Rightarrow>
          (case draw_flipped (snd p) of
             Inl e \<Rightarrow> Some (Inl e)
           | Inr q \<Rightarrow>
               (let X = \<lfloor>fst p powr (- 1 / (alpha - 1))\<rfloor>;
                    T = (if X = 0 then 0 else (1 + 1 / of_int X) powr (alpha - 1));
                    test = fst q * of_int X * (T - 1) / (b - 1)
                in if test > T / b then zeta_loop alpha b (snd q) else Some (Inr (X, snd q)))))"

definition zeta_GetValue :: "double \<Rightarrow> rv_stream \<Rightarrow> (int \<times> rv_stream) res option" where
  "zeta_GetValue alpha s = (if alpha = 1 then Some (Inl NonFinite) else zeta_loop alpha (2 powr (alpha - 1)) s)"

definition largest_extreme_GetValue :: "double \<Rightarrow> double \<Rightarrow> rv_stream \<Rightarrow> (double option \<times> rv_stream) res" where
  "largest_extreme_GetValue location scale v =
     abort_if (scale \<le> 0) NonPositiveScale
       (res_bind (draw_flipped v) (\<lambda>(u, v').
         Inr (case std_log u of None \<Rightarrow> None | Some l \<Rightarrow> map_option (\<lambda>m. location - scale * m) (std_log (l * - 1)), v')))"

section \<open>Small methods\<close>

definition SetSeed :: "uint32 \<Rightarrow> seed_manager \<Rightarrow> seed_manager" where
  "SetSeed seed g = g\<lparr>g_rngSeed := seed\<rparr>"

definition SetRun :: "uint64 \<Rightarrow> seed_manager \<Rightarrow> seed_manager" where
  "SetRun run g = g\<lparr>g_rngRun := run\<rparr>"

text \<open>\<open>SetInterpolate\<close> returns the previous setting; \<open>Interpolate\<close> interpolates whatever the setting is.\<close>

definition SetInterpolate :: "bool \<Rightarrow> empirical \<Rightarrow> bool \<times> empirical" where
  "SetInterpolate b e = (em_interpolate e, e\<lparr>em_interpolate := b\<rparr>)"

definition Interpolate :: "empirical \<Rightarrow> (double \<times> empirical) res" where
  "Interpolate e =
     res_bind (PreSample e) (\<lambda>(x, e').
       case x of
         Inl value \<Rightarrow> Inr (value, e')
       | Inr r \<Rightarrow> res_bind (DoInterpolate r e') (\<lambda>value. Inr (value, e')))"

section \<open>Laws\<close>

text \<open>Interpolating is sampling with the setting switched on.\<close>

lemma PreSample_setting:
  "PreSample (e\<lparr>em_interpolate := b\<rparr>) =
     res_bind (PreSample e) (\<lambda>(x, e'). Inr (x, e'\<lparr>em_interpolate := b\<rparr>))"
  by (cases "Validate e"; cases "draw_flipped (em_rv e)")
    (auto simp: PreSample_def Validate_def abort_if_def Let_def split: if_splits)

lemma DoInterpolate_setting: "DoInterpolate r (e\<lparr>em_interpolate := b\<rparr>) = DoInterpolate r e"
  by (simp add: DoInterpolate_def)

lemma Interpolate_is_sampling:
  "res_bind (Interpolate e) (\<lambda>(x, e'). Inr (x, snd (SetInterpolate True e'))) =
     empirical_GetValue (snd (SetInterpolate True e))"
  by (cases "PreSample e")
    (auto simp: Interpolate_def empirical_GetValue_def SetInterpolate_def PreSample_setting DoInterpolate_setting
      res_bind_def split: sum.splits)

text \<open>Whatever a normal variable returns is within its bound.\<close>

lemma normal_loop_bound:
  "normal_loop mean variance bound n = Some (Inr (x, n')) \<Longrightarrow> \<bar>x - mean\<bar> \<le> bound"
proof -
  have "normal_loop mean variance bound n = Some r \<Longrightarrow> (\<forall>x n'. r = Inr (x, n') \<longrightarrow> \<bar>x - mean\<bar> \<le> bound)" for n r
  proof (erule normal_loop.raw_induct [where P = "\<lambda>mean variance bound n r. \<forall>x n'. r = Inr (x, n') \<longrightarrow> \<bar>x - mean\<bar> \<le> bound", rotated])
    fix loop mean variance bound n r
    assume IH: "\<And>mean variance bound n r. loop mean variance bound n = Some r \<Longrightarrow>
        \<forall>x n'. r = Inr (x, n') \<longrightarrow> \<bar>x - mean\<bar> \<le> bound"
      and run: "(case draw_pair (nm_rv n) of
          Inl e \<Rightarrow> Some (Inl e)
        | Inr p \<Rightarrow>
            (let v1 = fst (fst p); v2 = snd (fst p); w = v1 * v1 + v2 * v2; n1 = n\<lparr>nm_rv := snd p\<rparr>
             in if w \<le> 1
                then (case polar w of
                    None \<Rightarrow> loop mean variance bound n1
                  | Some y \<Rightarrow>
                      (let x1 = normal_value mean variance v1 y; x2 = normal_value mean variance v2 y
                       in if within_bound mean bound x1
                          then Some (Inr (the x1, n1\<lparr>nm_nextValid := True, nm_y := y, nm_v2 := v2\<rparr>))
                          else if within_bound mean bound x2 then Some (Inr (the x2, n1\<lparr>nm_nextValid := False\<rparr>))
                          else loop mean variance bound n1))
                else loop mean variance bound n1)) = Some r"
    show "\<forall>x n'. r = Inr (x, n') \<longrightarrow> \<bar>x - mean\<bar> \<le> bound"
      using run IH
      by (auto simp: Let_def within_bound_def split: sum.splits if_splits option.splits)
  qed
  then show "normal_loop mean variance bound n = Some (Inr (x, n')) \<Longrightarrow> \<bar>x - mean\<bar> \<le> bound" by blast
qed

lemma normal_within_bound:
  "normal_GetValue mean variance bound n = Some (Inr (x, n')) \<Longrightarrow> \<bar>x - mean\<bar> \<le> bound"
  by (auto simp: normal_GetValue_def Let_def within_bound_def dest: normal_loop_bound split: if_splits option.splits)

text \<open>The second value of a pair is returned by the next call without a draw.\<close>

lemma normal_second_value:
  assumes "nm_nextValid n" and "within_bound mean bound (normal_value mean variance (nm_v2 n) (nm_y n))"
  shows "\<exists>x. normal_GetValue mean variance bound n = Some (Inr (x, n\<lparr>nm_nextValid := False\<rparr>))"
  using assms by (simp add: normal_GetValue_def)

lemma lognormal_positive: "lognormal_GetValue mu sigma n = Some (Inr (x, n')) \<Longrightarrow> 0 < x"
  by (auto simp: lognormal_GetValue_def Let_def split: if_splits option.splits sum.splits)

text \<open>A gamma value below 1 is made from the second of two values, with the draws of both consumed.\<close>

lemma gamma_draws_twice:
  assumes "alpha < 1" and "draw_flipped (nm_rv n) = Inr (u, rv)"
    and "gamma_GetValue (1 + alpha) beta (n\<lparr>nm_rv := rv\<rparr>) = Some (Inr (x1, n1))"
    and "gamma_GetValue (1 + alpha) beta n1 = Some (Inr (x2, n2))" and "std_root u alpha = Some p"
  shows "gamma_GetValue alpha beta n = Some (Inr (x2 * p, n2))"
  using assms by (subst gamma_GetValue.simps) simp

text \<open>An Erlang variable always returns, a number that is not negative when the mean is not.\<close>

lemma exponential_returns:
  assumes "rv_ok v"
  shows "\<exists>r v'. exponential_GetValue lambda 0 v = Some (Inr (Some r, v')) \<and> (0 \<le> lambda \<longrightarrow> 0 \<le> r) \<and> rv_ok v'"
proof -
  from draw_flipped_spec [OF assms] obtain u v' where
    u: "draw_flipped v = Inr (u, v')" "0 < u" "u < 1" "rv_ok v'" by blast
  then have "exponential_GetValue lambda 0 v = Some (Inr (Some (- lambda * ln u), v'))"
    unfolding exponential_GetValue_def by (subst redraw.simps) (simp add: std_log_def)
  moreover have "0 \<le> lambda \<Longrightarrow> 0 \<le> - lambda * ln u" using u(2,3) by (simp add: mult_nonneg_nonpos)
  ultimately show ?thesis using u(4) by blast
qed

lemma erlang_returns:
  assumes "rv_ok v"
  shows "\<exists>r v'. erlang_GetValue k lambda v = Some (Inr (Some r, v')) \<and> (0 \<le> lambda \<longrightarrow> 0 \<le> r) \<and> rv_ok v'"
proof -
  have "\<exists>r v'. erlang_sum k lambda (Some t) v = Some (Inr (Some r, v')) \<and> (0 \<le> lambda \<longrightarrow> t \<le> r) \<and> rv_ok v'"
    if "rv_ok v" for t v
    using that
  proof (induction k arbitrary: t v)
    case (Suc k)
    from exponential_returns [OF Suc.prems] obtain x v1 where
      x: "exponential_GetValue lambda 0 v = Some (Inr (Some x, v1))" "0 \<le> lambda \<longrightarrow> 0 \<le> x" "rv_ok v1" by blast
    from Suc.IH [OF x(3), of "t + x"] obtain r v' where
      "erlang_sum k lambda (Some (t + x)) v1 = Some (Inr (Some r, v'))" "0 \<le> lambda \<longrightarrow> t + x \<le> r" "rv_ok v'" by blast
    then show ?case using x by auto
  qed simp
  from this [OF assms, of 0] show ?thesis by (simp add: erlang_GetValue_def)
qed

text \<open>A zeta variable with a parameter above 1 returns only values of at least 1.\<close>

lemma zeta_at_least_1:
  assumes "rv_ok s" and "1 < alpha" and "zeta_GetValue alpha s = Some (Inr (X, s'))"
  shows "1 \<le> X"
proof -
  have "zeta_loop alpha b s = Some r \<Longrightarrow> (\<forall>X s'. rv_ok s \<longrightarrow> 1 < alpha \<longrightarrow> r = Inr (X, s') \<longrightarrow> 1 \<le> X)" for b s r
  proof (erule zeta_loop.raw_induct [where P = "\<lambda>alpha b s r. \<forall>X s'. rv_ok s \<longrightarrow> 1 < alpha \<longrightarrow> r = Inr (X, s') \<longrightarrow> 1 \<le> X", rotated],
      intro allI impI)
    fix loop alpha b s r X s'
    assume IH: "\<And>alpha b s r. loop alpha b s = Some r \<Longrightarrow> \<forall>X s'. rv_ok s \<longrightarrow> 1 < alpha \<longrightarrow> r = Inr (X, s') \<longrightarrow> 1 \<le> X"
      and s: "rv_ok s" "(1 :: real) < alpha" and r: "r = Inr (X, s' :: rv_stream)"
      and run: "(case draw_flipped s of
          Inl e \<Rightarrow> Some (Inl e)
        | Inr p \<Rightarrow>
            (case draw_flipped (snd p) of
               Inl e \<Rightarrow> Some (Inl e)
             | Inr q \<Rightarrow>
                 (let X = \<lfloor>fst p powr (- 1 / (alpha - 1))\<rfloor>;
                      T = (if X = 0 then 0 else (1 + 1 / of_int X) powr (alpha - 1));
                      test = fst q * of_int X * (T - 1) / (b - 1)
                  in if test > T / b then loop alpha b (snd q) else Some (Inr (X, snd q))))) = Some r"
    from draw_flipped_spec [OF s(1)] obtain u s1 where
      u: "draw_flipped s = Inr (u, s1)" "0 < u" "u < 1" "rv_ok s1" by blast
    from draw_flipped_spec [OF u(4)] obtain w s2 where w: "draw_flipped s1 = Inr (w, s2)" "rv_ok s2" by blast
    have "u powr (1 / (alpha - 1)) \<le> 1" using u(2,3) s(2) by (intro powr_le1) simp_all
    then have "1 \<le> u powr (- 1 / (alpha - 1))"
      using u(2) s(2) by (simp add: powr_minus_divide [of u "1 / (alpha - 1)", simplified] le_divide_eq)
    then have K: "1 \<le> \<lfloor>u powr (- 1 / (alpha - 1))\<rfloor>" by simp
    have "loop alpha b s2 = Some r \<or> r = Inr (\<lfloor>u powr (- 1 / (alpha - 1))\<rfloor>, s2)"
      using run unfolding u(1) w(1) Let_def sum.case fst_conv snd_conv by (simp only: option.inject split: if_splits) blast+
    then show "1 \<le> X" using K r IH [of alpha b s2 r] w(2) s(2) by auto
  qed
  then show ?thesis using assms by (auto simp: zeta_GetValue_def)
qed

lemma largest_extreme_returns:
  assumes "rv_ok v" and "0 < scale"
  shows "\<exists>r v'. largest_extreme_GetValue location scale v = Inr (Some r, v') \<and> rv_ok v'"
  using draw_flipped_spec [OF assms(1)] assms(2) by (auto simp: largest_extreme_GetValue_def std_log_def)

end
