(* ===== verification/Spec2Isabelle.thy ===== *)
theory Spec2Isabelle
  imports Handshake Event_List Ue_Configuration Normal_Variables
begin

text \<open>
  This is a verification library of the O-RAN extension of ns-3 (\<open>src/contrib/oran\<close>), of the
  discrete-event engine and the random variables it runs on (\<open>src/src/core\<close>), and of the measurement
  reporting and handover decision of the NR radio resource control (\<open>src/src/nr\<close>).

  \<^bold>\<open>The program.\<close> A simulation has E2 nodes (base stations, user equipment, wired nodes), each with a
  terminator that registers the node with the Near-RT RIC, collects the reports of its reporters, sends
  them periodically and executes the commands it receives. The RIC stores registrations and reports in a
  data repository (SQLite). Periodically, or when a query trigger asks for it, it runs its logic modules;
  each computes commands, finishes after a processing delay and hands the commands to the RIC. When the
  last one has finished, or the waiting time is over, the RIC gives all commands to a conflict mitigation
  module and sends what it returns to the nodes through its E2 terminator. A periodic check deregisters
  nodes that were silent for too long. Everything that takes time is an event of the simulator, which keeps
  its events in a scheduler. The measurements come from the radio resource control of the UEs, which reports
  cells to its base station when an event such as A3 holds; the base station may decide on a handover by itself,
  with an algorithm of its own, or execute the one the RIC commands.

  \<^bold>\<open>Theories, in the order they build on each other.\<close>

  \<^item> \<open>Oran_Prelude\<close>: scalar types, aborts as values (\<open>res\<close>), \<open>std::map\<close> as an ordered list with
    the contract \<open>ordered_map\<close>.
  \<^item> \<open>Simulator\<close> (\<open>default-simulator-impl.cc\<close>, \<open>event-id.cc\<close>, \<open>event-impl.cc\<close>): the record
    \<open>simulator\<close> with its queue and a store of event implementations, the operations, the run loop; the
    invariant \<open>sim_inv\<close>, and the contract \<open>event_handler\<close> under which a loop keeps it.
  \<^item> \<open>Schedulers\<close> (\<open>scheduler.h\<close> and the map, list and priority queue schedulers),
    \<open>Heap_Scheduler\<close>, \<open>Calendar_Scheduler\<close>: the record \<open>event_list\<close> of the virtual methods, the
    abstract event list \<open>agenda\<close> and the contracts \<open>scheduler\<close> and \<open>removable_scheduler\<close>, which
    say that an implementation simulates it; each implementation is shown to meet its contract.
    \<open>Event_List\<close> shows that the simulator keeps the rules of the interface and has \<open>SetScheduler\<close> and
    \<open>Destroy\<close>.
    \<open>Simulator_Threads\<close> adds the queue that other threads fill (\<open>ScheduleWithContext\<close>) and an
    \<open>inductive\<close> step relation of their interleavings with the run loop (the flag is read without the mutex, so possibly stale), \<open>Engine_Methods\<close> the rules for
    methods that work on a state and the engine.
  \<^item> \<open>Rng_Stream\<close> (\<open>rng-stream.cc\<close>): the generator MRG32k3a over exact integers;
    \<open>Random_Variables\<close> and \<open>Normal_Variables\<close> (\<open>rng-seed-manager.cc\<close>,
    \<open>random-variable-stream.cc\<close>): how streams are handed out, and the distributions.
  \<^item> \<open>Measurement_Mapping\<close> (\<open>nr-common.cc\<close>): quantised measurements. \<open>Ue_Measurements\<close>
    (\<open>nr-ue-rrc.cc\<close>, \<open>nr-rrc-sap.h\<close>): measurement configuration, the events A1 to A5, time to trigger and
    reports of a UE, a machine over the engine that meets \<open>event_handler\<close>; \<open>Ue_Reporting\<close> shows
    when a cell is on a report. \<open>Gnb_Handover\<close> (\<open>nr-gnb-rrc.cc\<close>, \<open>nr-anr.cc\<close>,
    \<open>nr-a3-rsrp-handover-algorithm.cc\<close>, \<open>nr-a2-a4-rsrq-handover-algorithm.cc\<close>): the configuration a
    base station sends, its neighbour relations and handover algorithms. \<open>Handover_Laws\<close> puts both sides
    together, from the report of the UE to the handover request, and \<open>Ue_Configuration\<close> shows that a UE
    accepts what a base station configures.
  \<^item> \<open>Oran_Data\<close> (\<open>oran-command*.cc\<close>, \<open>oran-report*.cc\<close>): commands, reports and their texts.
  \<^item> \<open>Oran_Repository\<close> (\<open>oran-data-repository-sqlite.cc\<close>): the tables as lists of rows, the clauses of
    the SQL statements, every method; \<open>Repository_Laws\<close> shows what a query returns after the updates, by
    the contract \<open>latest_table\<close> where several tables share it, and that registration implements a set of
    nodes with a counter.
  \<^item> \<open>Oran_Cmm\<close> (\<open>oran-cmm*.cc\<close>): the three conflict mitigation modules and their contract.
  \<^item> \<open>Lm_Rsrp\<close> (\<open>oran-lm-nr-2-nr-rsrp-handover.cc\<close>) and \<open>Lm_Lte\<close>
    (\<open>oran-lm-lte-2-lte-distance-handover.cc\<close>, \<open>oran-lm-lte-2-lte-rsrp-handover.cc\<close>): logic
    modules; the contracts \<open>handover_loop\<close> and \<open>handover_module\<close> carry the pacing of commands.
    \<open>Lm_Cell_Load\<close> (\<open>oran-lm-nr-2-nr-rsrp-handover-with-cell-load.cc\<close>) extends \<open>Lm_Rsrp\<close> by a
    capacity per cell, a back-off and a stopwatch per UE, and meets the same contracts;
    \<open>Lm_Tn_Ntn\<close> (\<open>oran-lm-nr-2-nr-rsrp-handover-with-tn-ntn.cc\<close>) adds non-terrestrial cells as a
    fallback and a file of decisions. What the two share is stated once: \<open>Cell_Capacity\<close> has the contract
    \<open>capacity_rule\<close> (reserving a slot only where there is room keeps every limit) and
    \<open>Time_To_Trigger\<close> the contracts \<open>trigger_loop\<close> and \<open>trigger_module\<close> (a command follows a
    streak of equal decisions that is long enough). \<open>Lm_Secrecy\<close>
    (\<open>oran-lm-nr-secrecy-aware-handover.cc\<close>) weighs signal against what an eavesdropper hears; its search meets
    the contract \<open>gated_search\<close>. \<open>Lm_Learned\<close>
    (\<open>oran-lm-{nr-2-nr,lte-2-lte}-{onnx,torch}-handover.cc\<close>) asks a classifier for the cells of two UEs,
    and \<open>Lm_Secrecy_Onnx\<close> (\<open>oran-lm-nr-onnx-secrecy-aware-handover.cc\<close>) puts a learned trigger
    in front of \<open>Lm_Secrecy\<close>; a loaded model is a parameter of both.
  \<^item> \<open>Reporters\<close> (\<open>oran-reporter-*.cc\<close>): the nine reporters, what they store, the methods that trace
    sources call, and \<open>GenerateReports\<close>; what they read of a node is the record \<open>node_env\<close>.
    \<open>Transport_Block\<close> has the table of block sizes of the cell-load reporters and its search.
  \<^item> \<open>Oran_World\<close>: the records of all objects of the control loop and the events they schedule; object
    pointers are indices or flags, so that shared objects are shared in the model.
  \<^item> \<open>E2_Node\<close> (\<open>oran-e2-node-terminator*.cc\<close>, \<open>oran-reporter.cc\<close>, \<open>oran-report-trigger*.cc\<close>,
    the triggers connected to trace sources included),
    \<open>Ric_E2_Terminator\<close> (\<open>oran-near-rt-ric-e2terminator.cc\<close>), \<open>Near_Rt_Ric\<close>
    (\<open>oran-near-rt-ric.cc\<close>, \<open>oran-lm.cc\<close>, \<open>oran-lm-noop.cc\<close>): the methods, and the dispatcher
    \<open>invoke\<close> that runs the method of an event and meets \<open>event_handler\<close>.
  \<^item> \<open>Ric_Laws\<close>: when a method cannot abort (\<open>progress\<close>), and the contract \<open>logic_module\<close> of the
    logic modules. \<open>Control_Loop\<close> and \<open>Handshake\<close>: the properties of the query cycle, of the check for
    inactivity, of starting and stopping, and of the registration handshake.

  \<^bold>\<open>What the lemmas show.\<close> Of the RSRP module: the capacity of cells, soundness and completeness of
  its decisions, pacing, and what its pending state does over time; of the cell-load module: capacity, soundness and
  the time to trigger over histories of runs; of the TN/NTN module: capacity with blocked cells, the order of
  preference, the time to trigger; of the secrecy-aware module: soundness of both searches, the one way to
  abort, the types of its tables, and that a printed risk map is read back; with the learned trigger it lets no UE
  pass that the model holds back, and without it nothing changes; of the LTE modules and of those that ask
  a classifier: exactly which commands they order. Of the repository: refinement of a set, round trips of saved values, uniqueness
  invariants. Of the reporters: which measurements, losses and loads they report,
  that every scheduled resource block is counted once, and where eight bits or the table are too small.
  Of conflict mitigation: one command per node with the documented precedence, and that no
  command is invented. Of the control loop: it re-arms itself, its result does not depend on the order in
  which logic modules finish, what is delivered to whom, silence after a stop, agreement of node, RIC and
  repository on identifiers, and the order of events, also when other threads hand events over at any moment. Of the
  engine: pending and cancelled events, and that what threads hand over is inserted once and in order. Of the random
  numbers: draws are exact and between 0 and 1, jumping ahead is the same as drawing, no two streams are shared, values lie in
  the range of their distribution. Of the radio resource control: the list of reported cells follows the
  hysteresis of its event, a base station hands a UE over to a strongest reported neighbour exactly when
  its algorithm says so, and UE and base station agree on the measurement configuration. Of the
  event lists: they all return what the abstract list returns, so changing the scheduler, also in the
  middle of a simulation, changes nothing; loops end, indices and counters stay in range. Some properties
  state behaviour that differs from what comments or names promise; the heap scheduler, for instance,
  returns events out of order after \<open>Remove\<close>.

  \<^bold>\<open>Assumptions and bounds.\<close> \<open>double\<close> is \<open>real\<close>, without rounding, infinities and NaN;
  where a reporter would divide by zero the model has the error \<open>NonFinite\<close>.
  \<open>Time\<close> is an integer number of nanoseconds; the scheduler contract assumes time stamps below
  \<open>2 ^ 63\<close>, which \<open>int64_t\<close> gives. Event numbers are \<open>uint32_t\<close> and wrap; laws that need
  distinct numbers assume fewer than \<open>2 ^ 32 - 4\<close> events (\<open>few_events\<close>, \<open>room\<close>). The calendar
  computes modulo \<open>2 ^ 64\<close>, and its laws need no bound on the width of the buckets. In the generator of
  random numbers a \<open>double\<close> is an exact integer, and leaving the 53 bits it has is an error value; elsewhere
  in the control loop random variables are arbitrary sequences of draws. The RSRQ of a cell may be NaN (\<open>None\<close>).
  Identities of measurements are eight bits wide and wrap; the laws assume fewer than 256. What SQLite leaves open (the order of a scan, the row a bare column is
  taken from) is a parameter, as are \<open>std::sort\<close> on equal elements, the value of uninitialised
  variables, and the text that the memory of a destroyed temporary holds when SQLite reads it (\<open>freed\<close>; the logged commands). Assertions and aborts are values of type \<open>oran_error\<close>. Loops that need not end are partial
  functions (\<open>Run_loop\<close>, \<open>TopDown_loop\<close>, \<open>search_loop\<close>, \<open>SetScheduler_loop\<close>,
  \<open>Destroy\<close>, \<open>mt_Run_loop\<close>, and the rejection loops of random variables: \<open>redraw\<close>,
  \<open>normal_loop\<close>, \<open>lognormal_loop\<close>, \<open>gamma_loop\<close>, \<open>gamma_GetValue\<close>, \<open>zeta_loop\<close>); where the program relies on their end it is proved. There is no fuel.

  \<^bold>\<open>Not modelled.\<close> ONNX Runtime and LibTorch are third-party code: a loaded model is a function from
  its input to its scores, or to a class. What the reporters read of the radio, mobility and application
  models is a function of the time, the field \<open>en_env\<close> of a node. \<open>DoDispose\<close> of reporters and
  triggers only drops pointers. Of the radio resource control, connection set-up, bearers and the messages of
  a handover after its request are left out: they are exchanges with the PHY, MAC, RLC and core-network models. Those models, the
  LTE twins of the NR classes, the Internet stack, Wi-Fi, mobility and propagation models and the applications are
  independent programs of their own; what the control loop reads of them is a parameter. Message headers, helpers, examples,
  bindings and tests are outside it.
\<close>

section \<open>The event lists agree\<close>

text \<open>
  C25: the choice of the event list does not change a simulation. Whatever calls the simulator makes within
  the rules of the interface, the map, the list, the priority queue and the calendar queue, with its
  buckets in either order, all return, and return the same: what the abstract event list returns. For the
  calendar this holds through every resizing and although the windows of its buckets wrap around.
\<close>

theorem schedulers_agree:
  assumes "allowed_run cs empty_agenda"
  shows "\<exists>m l q c.
    sched_run MapScheduler cs [] = Inr (spec_run cs empty_agenda, m) \<and>
    sched_run ListScheduler cs [] = Inr (spec_run cs empty_agenda, l) \<and>
    sched_run PriorityQueueScheduler cs [] = Inr (spec_run cs empty_agenda, q) \<and>
    sched_run CalendarScheduler cs (CalendarScheduler_new reverse) = Inr (spec_run cs empty_agenda, c)"
  using map_sched.run [OF assms] list_sched.run [OF assms] pq_sched.run [OF assms]
    calendar_sched.run [OF assms, of reverse] by blast

theorem schedulers_agree_witness:
  "\<exists>m c.
     sched_run MapScheduler ex_cal_session [] =
       Inr ([OutVoid, OutVoid, OutVoid, OutVoid, OutVoid, OutEvent (ex_cal_event 5 3), OutVoid, OutVoid,
             OutEvent (ex_cal_event 6 3), OutEvent (ex_cal_event 9 5), OutEvent (ex_cal_event 9 5),
             OutBool False], m) \<and>
     sched_run CalendarScheduler ex_cal_session (CalendarScheduler_new True) =
       Inr ([OutVoid, OutVoid, OutVoid, OutVoid, OutVoid, OutEvent (ex_cal_event 5 3), OutVoid, OutVoid,
             OutEvent (ex_cal_event 6 3), OutEvent (ex_cal_event 9 5), OutEvent (ex_cal_event 9 5),
             OutBool False], c)"
proof -
  have "spec_run ex_cal_session empty_agenda =
    [OutVoid, OutVoid, OutVoid, OutVoid, OutVoid, OutEvent (ex_cal_event 5 3), OutVoid, OutVoid,
     OutEvent (ex_cal_event 6 3), OutEvent (ex_cal_event 9 5), OutEvent (ex_cal_event 9 5),
     OutBool False]" by code_simp
  with schedulers_agree [OF ex_cal_session_allowed, of True] show ?thesis by auto
qed

end
